(* ===== verification/LIR_Prelude.thy ===== *)
theory LIR_Prelude
  imports Main "HOL-Library.Word" "HOL-Library.Monad_Syntax"
begin

text \<open>
  Shared vocabulary of the development: the outcome of a Rust computation that may panic,
  checked vector indexing, the casts between \<open>usize\<close> and the \<open>u32\<close> index newtypes, and the
  generic list, map and graph lemmas the component theories use.

  A value of type \<open>'a rust\<close> is \<open>Some x\<close> for a computation that returns \<open>x\<close> and
  \<open>None\<close> for one that panics (an index out of range, a failed assertion, an arithmetic overflow
  of the checked build). A Rust \<open>Option\<close> result of a function that may panic is therefore an
  \<open>'a option rust\<close>. \<open>usize\<close> values are \<open>nat\<close>; the 32-bit newtypes \<open>TypeId\<close>, \<open>BlockId\<close>,
  \<open>InstrId\<close>, \dots are \<open>nat\<close> too, and every place where the code casts a length to one
  (\<open>len() as u32\<close>) goes through \<open>as_u32\<close>, which wraps.
\<close>

section \<open>Panics and checked indexing\<close>

type_synonym 'a rust = "'a option"

named_theorems rust_simps

definition as_u32 :: "nat \<Rightarrow> nat" where
  "as_u32 n = n mod 2 ^ 32"

lemma as_u32_id [simp]: "n < 4294967296 \<Longrightarrow> as_u32 n = n"
  by (simp add: as_u32_def)

definition vec_get :: "'a list \<Rightarrow> nat \<Rightarrow> 'a rust" where
  "vec_get xs i = (if i < length xs then Some (xs ! i) else None)"

definition vec_set :: "'a list \<Rightarrow> nat \<Rightarrow> 'a \<Rightarrow> 'a list rust" where
  "vec_set xs i v = (if i < length xs then Some (xs[i := v]) else None)"

lemma vec_get_Some_iff [rust_simps]: "vec_get xs i = Some x \<longleftrightarrow> i < length xs \<and> xs ! i = x"
  by (auto simp: vec_get_def)

lemma vec_get_in [simp]: "i < length xs \<Longrightarrow> vec_get xs i = Some (xs ! i)"
  by (simp add: vec_get_def)

lemma vec_get_out [simp]: "length xs \<le> i \<Longrightarrow> vec_get xs i = None"
  by (simp add: vec_get_def)

lemma vec_set_Some_iff [rust_simps]: "vec_set xs i v = Some ys \<longleftrightarrow> i < length xs \<and> ys = xs[i := v]"
  by (auto simp: vec_set_def)

lemma vec_set_in [simp]: "i < length xs \<Longrightarrow> vec_set xs i v = Some (xs[i := v])"
  by (simp add: vec_set_def)

lemma vec_get_append_old: "vec_get xs i = Some x \<Longrightarrow> vec_get (xs @ ys) i = Some x"
  by (auto simp: rust_simps nth_append)

lemma vec_get_append_new [simp]: "vec_get (xs @ [x]) (length xs) = Some x"
  by (simp add: vec_get_def)

section \<open>Rust iterators that can panic\<close>

text \<open>\<open>try_map\<close> and \<open>try_fold_list\<close> run a panicking step over a list, left to right.\<close>

primrec try_map :: "('a \<Rightarrow> 'b rust) \<Rightarrow> 'a list \<Rightarrow> 'b list rust" where
  "try_map f [] = Some []"
| "try_map f (x # xs) =
     (case f x of None \<Rightarrow> None
      | Some y \<Rightarrow> (case try_map f xs of None \<Rightarrow> None | Some ys \<Rightarrow> Some (y # ys)))"

primrec try_foldl :: "('s \<Rightarrow> 'a \<Rightarrow> 's rust) \<Rightarrow> 's \<Rightarrow> 'a list \<Rightarrow> 's rust" where
  "try_foldl f s [] = Some s"
| "try_foldl f s (x # xs) = (case f s x of None \<Rightarrow> None | Some s' \<Rightarrow> try_foldl f s' xs)"

lemma try_map_Some: "(\<And>x. x \<in> set xs \<Longrightarrow> f x = Some (g x)) \<Longrightarrow> try_map f xs = Some (map g xs)"
  by (induction xs) auto

lemma try_map_length: "try_map f xs = Some ys \<Longrightarrow> length ys = length xs"
  by (induction xs arbitrary: ys) (auto split: option.splits)

lemma try_map_nth: "try_map f xs = Some ys \<Longrightarrow> i < length xs \<Longrightarrow> f (xs ! i) = Some (ys ! i)"
  by (induction xs arbitrary: ys i) (auto split: option.splits simp: nth_Cons')

lemma try_foldl_Some:
  "(\<And>s x. x \<in> set xs \<Longrightarrow> f s x = Some (g s x)) \<Longrightarrow> try_foldl f s xs = Some (foldl g s xs)"
  by (induction xs arbitrary: s) auto

lemma try_foldl_append:
  "try_foldl f s (xs @ ys) = (case try_foldl f s xs of None \<Rightarrow> None | Some s' \<Rightarrow> try_foldl f s' ys)"
  by (induction xs arbitrary: s) (auto split: option.splits)

lemma try_foldl_inv:
  assumes "try_foldl f s xs = Some t" and "P s"
    and "\<And>s x s'. x \<in> set xs \<Longrightarrow> P s \<Longrightarrow> f s x = Some s' \<Longrightarrow> P s'"
  shows "P t"
  using assms
proof (induction xs arbitrary: s)
  case (Cons x xs)
  then obtain s' where "f s x = Some s'" and "try_foldl f s' xs = Some t"
    by (auto split: option.splits)
  moreover from this Cons.prems have "P s'" by auto
  ultimately show ?case using Cons by auto
qed simp

section \<open>Lists\<close>

lemma foldl_inv:
  assumes "P s" and "\<And>s x. x \<in> set xs \<Longrightarrow> P s \<Longrightarrow> P (f s x)"
  shows "P (foldl f s xs)"
  using assms by (induction xs arbitrary: s) auto

text \<open>\<open>Vec::retain\<close> is \<open>filter\<close>; a filter that keeps everything is the identity.\<close>

lemma filter_id_iff: "filter P xs = xs \<longleftrightarrow> (\<forall>x\<in>set xs. P x)"
  by (metis filter_True filter_id_conv)

section \<open>Maps\<close>

definition map_default :: "'v \<Rightarrow> ('k \<rightharpoonup> 'v) \<Rightarrow> 'k \<Rightarrow> 'v" where
  \<comment> \<open>\<open>m.get(&k).copied().unwrap_or(d)\<close>\<close>
  "map_default d m k = (case m k of None \<Rightarrow> d | Some v \<Rightarrow> v)"

definition entry_push :: "('k \<rightharpoonup> 'v list) \<Rightarrow> 'k \<Rightarrow> 'v \<Rightarrow> ('k \<rightharpoonup> 'v list)" where
  \<comment> \<open>\<open>m.entry(k).or_default().push(v)\<close>\<close>
  "entry_push m k v = m(k \<mapsto> map_default [] m k @ [v])"

lemma map_default_entry_push [simp]:
  "map_default [] (entry_push m k v) k' = (if k' = k then map_default [] m k @ [v] else map_default [] m k')"
  by (simp add: map_default_def entry_push_def)

lemma map_default_empty [simp]: "map_default d Map.empty k = d"
  by (simp add: map_default_def)

end
