(* ===== verification/IR_Types.thy ===== *)
theory IR_Types
  imports LIR_Prelude
begin

text \<open>
  The data of the IR: index newtypes and value references (\<open>context.rs\<close>), types
  (\<open>types.rs\<close>), constants, linkage and globals (\<open>value.rs\<close>).
  Index newtypes are synonyms of \<open>nat\<close>; \<open>String\<close> is a list of bytes.
\<close>

section \<open>Index newtypes and value references\<close>

type_synonym type_id = nat
type_synonym function_id = nat
type_synonym block_id = nat
type_synonym instr_id = nat
type_synonym arg_id = nat
type_synonym const_id = nat
type_synonym global_id = nat
type_synonym u64 = "64 word"

datatype value_ref =
    Instruction instr_id
  | Argument arg_id
  | Constant const_id
  | Global global_id

section \<open>Types\<close>

datatype float_kind = Half | BFloat | Single | Double | Fp128 | X86Fp80

datatype struct_type = StructType (st_name: "string option") (st_fields: "type_id list") (st_packed: bool)

datatype function_type = FunctionType (fn_ret: type_id) (fn_params: "type_id list") (fn_variadic: bool)

datatype type_data =
    TyVoid
  | TyInteger nat
  | TyFloat float_kind
  | TyPointer
  | TyArray type_id nat
  | TyVector type_id nat bool
  | TyStruct struct_type
  | TyFunction function_type
  | TyLabel
  | TyMetadata

fun struct_name :: "type_data \<Rightarrow> string option" where
  \<comment> \<open>the name of a named struct; \<open>None\<close> for every other type\<close>
  "struct_name (TyStruct st) = st_name st"
| "struct_name _ = None"

section \<open>Constants\<close>

datatype const_expr_op =
    CE_GetElementPtr bool type_id
  | CE_BitCast
  | CE_IntToPtr
  | CE_PtrToInt
  | CE_AddrSpaceCast
  | CE_Trunc
  | CE_ZExt
  | CE_SExt

datatype constant_data =
    CInt type_id u64
  | CIntWide type_id "u64 list"
  | CFloat type_id u64
  | CNull type_id
  | CUndef type_id
  | CPoison type_id
  | CZeroInitializer type_id
  | CArray type_id "const_id list"
  | CStruct type_id "const_id list"
  | CVector type_id "const_id list"
  | CGlobalRef type_id global_id string
  | CExpr type_id const_expr_op "const_id list"

datatype constant_key =
    KInt type_id u64
  | KFloat type_id u64
  | KNull type_id
  | KUndef type_id
  | KPoison type_id
  | KZeroInitializer type_id

fun const_expr_op_as_str :: "const_expr_op \<Rightarrow> string" where
  "const_expr_op_as_str (CE_GetElementPtr _ _) = ''getelementptr''"
| "const_expr_op_as_str CE_BitCast = ''bitcast''"
| "const_expr_op_as_str CE_IntToPtr = ''inttoptr''"
| "const_expr_op_as_str CE_PtrToInt = ''ptrtoint''"
| "const_expr_op_as_str CE_AddrSpaceCast = ''addrspacecast''"
| "const_expr_op_as_str CE_Trunc = ''trunc''"
| "const_expr_op_as_str CE_ZExt = ''zext''"
| "const_expr_op_as_str CE_SExt = ''sext''"

fun const_expr_op_is_cast :: "const_expr_op \<Rightarrow> bool" where
  "const_expr_op_is_cast CE_BitCast = True"
| "const_expr_op_is_cast CE_IntToPtr = True"
| "const_expr_op_is_cast CE_PtrToInt = True"
| "const_expr_op_is_cast CE_AddrSpaceCast = True"
| "const_expr_op_is_cast CE_Trunc = True"
| "const_expr_op_is_cast CE_ZExt = True"
| "const_expr_op_is_cast CE_SExt = True"
| "const_expr_op_is_cast (CE_GetElementPtr _ _) = False"

section \<open>Arguments, linkage and globals\<close>

datatype linkage =
    Private
  | Internal
  | External
  | Weak
  | WeakOdr
  | LinkOnce
  | LinkOnceOdr
  | Common
  | AvailableExternally

fun linkage_as_str :: "linkage \<Rightarrow> string" where
  "linkage_as_str Private = ''private''"
| "linkage_as_str Internal = ''internal''"
| "linkage_as_str External = ''''"
| "linkage_as_str Weak = ''weak''"
| "linkage_as_str WeakOdr = ''weak_odr''"
| "linkage_as_str LinkOnce = ''linkonce''"
| "linkage_as_str LinkOnceOdr = ''linkonce_odr''"
| "linkage_as_str Common = ''common''"
| "linkage_as_str AvailableExternally = ''available_externally''"

definition linkage_is_external :: "linkage \<Rightarrow> bool" where
  "linkage_is_external l \<longleftrightarrow> l = External"

record argument =
  arg_name :: string
  arg_ty :: type_id
  arg_index :: nat

record global_variable =
  gv_name :: string
  gv_ty :: type_id
  gv_initializer :: "const_id option"
  gv_is_constant :: bool
  gv_linkage :: linkage

lemma linkage_as_str_inj: "linkage_as_str l = linkage_as_str l' \<Longrightarrow> l = l'"
  by (cases l; cases l'; simp)

lemma linkage_external_iff: "linkage_is_external l \<longleftrightarrow> linkage_as_str l = ''''"
  by (cases l) (simp_all add: linkage_is_external_def)

end
