(* ===== verification/IR_Context.thy ===== *)
theory IR_Context
  imports IR_Types
begin

text \<open>
  \<open>Context\<close> (\<open>llvm-ir/src/context.rs\<close>): the pools of interned types and constants. A record
  holds the vectors and hash maps of the struct; every method is one definition. The invariant
  \<open>wf_context\<close> says how the vectors and the maps agree; the interface locale \<open>interner\<close> states
  what an interning table promises, and is interpreted on the type pool and the constant pool.
\<close>

section \<open>State\<close>

record ir_context =
  types :: "type_data list"
  type_map :: "type_data \<rightharpoonup> type_id"
  named_struct_map :: "string \<rightharpoonup> type_id"
  constants :: "constant_data list"
  const_map :: "constant_key \<rightharpoonup> const_id"
  void_ty :: type_id
  i1_ty :: type_id
  i8_ty :: type_id
  i16_ty :: type_id
  i32_ty :: type_id
  i64_ty :: type_id
  f32_ty :: type_id
  f64_ty :: type_id
  ptr_ty :: type_id
  label_ty :: type_id

section \<open>Type constructors\<close>

definition intern_anon :: "ir_context \<Rightarrow> type_data \<Rightarrow> ir_context \<times> type_id" where
  "intern_anon ctx td =
     (case type_map ctx td of
        Some i \<Rightarrow> (ctx, i)
      | None \<Rightarrow>
          (let i = as_u32 (length (types ctx))
           in (ctx\<lparr>type_map := (type_map ctx)(td \<mapsto> i), types := types ctx @ [td]\<rparr>, i)))"

definition mk_int :: "ir_context \<Rightarrow> nat \<Rightarrow> ir_context \<times> type_id" where
  "mk_int ctx bits = intern_anon ctx (TyInteger bits)"

definition mk_float :: "ir_context \<Rightarrow> float_kind \<Rightarrow> ir_context \<times> type_id" where
  "mk_float ctx kind = intern_anon ctx (TyFloat kind)"

definition mk_ptr :: "ir_context \<Rightarrow> ir_context \<times> type_id" where
  "mk_ptr ctx = (ctx, ptr_ty ctx)"

definition mk_label :: "ir_context \<Rightarrow> ir_context \<times> type_id" where
  "mk_label ctx = (ctx, label_ty ctx)"

definition mk_metadata :: "ir_context \<Rightarrow> ir_context \<times> type_id" where
  "mk_metadata ctx = intern_anon ctx TyMetadata"

definition mk_array :: "ir_context \<Rightarrow> type_id \<Rightarrow> nat \<Rightarrow> ir_context \<times> type_id" where
  "mk_array ctx element len = intern_anon ctx (TyArray element len)"

definition mk_vector :: "ir_context \<Rightarrow> type_id \<Rightarrow> nat \<Rightarrow> bool \<Rightarrow> ir_context \<times> type_id" where
  "mk_vector ctx element len scalable = intern_anon ctx (TyVector element len scalable)"

definition mk_fn_type :: "ir_context \<Rightarrow> type_id \<Rightarrow> type_id list \<Rightarrow> bool \<Rightarrow> ir_context \<times> type_id" where
  "mk_fn_type ctx ret params variadic = intern_anon ctx (TyFunction (FunctionType ret params variadic))"

definition mk_struct_anon :: "ir_context \<Rightarrow> type_id list \<Rightarrow> bool \<Rightarrow> ir_context \<times> type_id" where
  "mk_struct_anon ctx flds packed = intern_anon ctx (TyStruct (StructType None flds packed))"

definition mk_struct_named :: "ir_context \<Rightarrow> string \<Rightarrow> ir_context \<times> type_id" where
  "mk_struct_named ctx name =
     (case named_struct_map ctx name of
        Some i \<Rightarrow> (ctx, i)
      | None \<Rightarrow>
          (let i = as_u32 (length (types ctx))
           in (ctx\<lparr>types := types ctx @ [TyStruct (StructType (Some name) [] False)],
                   named_struct_map := (named_struct_map ctx)(name \<mapsto> i)\<rparr>, i)))"

definition define_struct_body :: "ir_context \<Rightarrow> type_id \<Rightarrow> type_id list \<Rightarrow> bool \<Rightarrow> ir_context rust" where
  "define_struct_body ctx i flds packed =
     do { td \<leftarrow> vec_get (types ctx) i;
          (case td of
             TyStruct st \<Rightarrow>
               Some (ctx\<lparr>types := (types ctx)[i := TyStruct (StructType (st_name st) flds packed)]\<rparr>)
           | _ \<Rightarrow> Some ctx) }"

definition get_named_struct :: "ir_context \<Rightarrow> string \<Rightarrow> type_id option" where
  "get_named_struct ctx name = named_struct_map ctx name"

definition get_type :: "ir_context \<Rightarrow> type_id \<Rightarrow> type_data rust" where
  "get_type ctx i = vec_get (types ctx) i"

definition num_types :: "ir_context \<Rightarrow> nat" where
  "num_types ctx = length (types ctx)"

definition types_iter :: "ir_context \<Rightarrow> (type_id \<times> type_data) list" where
  "types_iter ctx = map (\<lambda>(i, td). (as_u32 i, td)) (enumerate 0 (types ctx))"

section \<open>Constant constructors\<close>

text \<open>
  The six scalar constructors share one shape: look the key up, and when it is missing push the
  datum and record its index. \<open>intern_const\<close> is that shape.
\<close>

definition intern_const :: "ir_context \<Rightarrow> constant_key \<Rightarrow> constant_data \<Rightarrow> ir_context \<times> const_id" where
  "intern_const ctx key c =
     (case const_map ctx key of
        Some i \<Rightarrow> (ctx, i)
      | None \<Rightarrow>
          (let i = as_u32 (length (constants ctx))
           in (ctx\<lparr>constants := constants ctx @ [c], const_map := (const_map ctx)(key \<mapsto> i)\<rparr>, i)))"

definition const_int :: "ir_context \<Rightarrow> type_id \<Rightarrow> u64 \<Rightarrow> ir_context \<times> const_id" where
  "const_int ctx ty val = intern_const ctx (KInt ty val) (CInt ty val)"

definition const_float :: "ir_context \<Rightarrow> type_id \<Rightarrow> u64 \<Rightarrow> ir_context \<times> const_id" where
  "const_float ctx ty bits = intern_const ctx (KFloat ty bits) (CFloat ty bits)"

definition const_null :: "ir_context \<Rightarrow> type_id \<Rightarrow> ir_context \<times> const_id" where
  "const_null ctx ty = intern_const ctx (KNull ty) (CNull ty)"

definition const_undef :: "ir_context \<Rightarrow> type_id \<Rightarrow> ir_context \<times> const_id" where
  "const_undef ctx ty = intern_const ctx (KUndef ty) (CUndef ty)"

definition const_poison :: "ir_context \<Rightarrow> type_id \<Rightarrow> ir_context \<times> const_id" where
  "const_poison ctx ty = intern_const ctx (KPoison ty) (CPoison ty)"

definition const_zero :: "ir_context \<Rightarrow> type_id \<Rightarrow> ir_context \<times> const_id" where
  "const_zero ctx ty = intern_const ctx (KZeroInitializer ty) (CZeroInitializer ty)"

definition push_const :: "ir_context \<Rightarrow> constant_data \<Rightarrow> ir_context \<times> const_id" where
  "push_const ctx c =
     (ctx\<lparr>constants := constants ctx @ [c]\<rparr>, as_u32 (length (constants ctx)))"

definition get_const :: "ir_context \<Rightarrow> const_id \<Rightarrow> constant_data rust" where
  "get_const ctx i = vec_get (constants ctx) i"

fun constant_type :: "constant_data \<Rightarrow> type_id" where
  "constant_type (CInt ty _) = ty"
| "constant_type (CIntWide ty _) = ty"
| "constant_type (CFloat ty _) = ty"
| "constant_type (CNull ty) = ty"
| "constant_type (CUndef ty) = ty"
| "constant_type (CPoison ty) = ty"
| "constant_type (CZeroInitializer ty) = ty"
| "constant_type (CArray ty _) = ty"
| "constant_type (CStruct ty _) = ty"
| "constant_type (CVector ty _) = ty"
| "constant_type (CGlobalRef ty _ _) = ty"
| "constant_type (CExpr ty _ _) = ty"

definition type_of_const :: "ir_context \<Rightarrow> const_id \<Rightarrow> type_id rust" where
  "type_of_const ctx i = map_option constant_type (vec_get (constants ctx) i)"

section \<open>The empty context\<close>

definition empty_context :: ir_context where
  \<comment> \<open>the struct literal at the start of \<open>Context::new\<close>\<close>
  "empty_context =
     \<lparr>types = [], type_map = Map.empty, named_struct_map = Map.empty, constants = [],
      const_map = Map.empty, void_ty = 0, i1_ty = 0, i8_ty = 0, i16_ty = 0, i32_ty = 0,
      i64_ty = 0, f32_ty = 0, f64_ty = 0, ptr_ty = 0, label_ty = 0\<rparr>"

definition context_new :: ir_context where
  "context_new =
     (let (c, i) = intern_anon empty_context TyVoid; c = c\<lparr>void_ty := i\<rparr>;
          (c, i) = intern_anon c (TyInteger 1); c = c\<lparr>i1_ty := i\<rparr>;
          (c, i) = intern_anon c (TyInteger 8); c = c\<lparr>i8_ty := i\<rparr>;
          (c, i) = intern_anon c (TyInteger 16); c = c\<lparr>i16_ty := i\<rparr>;
          (c, i) = intern_anon c (TyInteger 32); c = c\<lparr>i32_ty := i\<rparr>;
          (c, i) = intern_anon c (TyInteger 64); c = c\<lparr>i64_ty := i\<rparr>;
          (c, i) = intern_anon c (TyFloat Single); c = c\<lparr>f32_ty := i\<rparr>;
          (c, i) = intern_anon c (TyFloat Double); c = c\<lparr>f64_ty := i\<rparr>;
          (c, i) = intern_anon c TyPointer; c = c\<lparr>ptr_ty := i\<rparr>;
          (c, i) = intern_anon c TyLabel; c = c\<lparr>label_ty := i\<rparr>
      in c)"

section \<open>Well-formed contexts\<close>

fun const_of_key :: "constant_key \<Rightarrow> constant_data" where
  "const_of_key (KInt ty v) = CInt ty v"
| "const_of_key (KFloat ty b) = CFloat ty b"
| "const_of_key (KNull ty) = CNull ty"
| "const_of_key (KUndef ty) = CUndef ty"
| "const_of_key (KPoison ty) = CPoison ty"
| "const_of_key (KZeroInitializer ty) = CZeroInitializer ty"

definition wf_types :: "ir_context \<Rightarrow> bool" where
  \<comment> \<open>the type map and the vector of types agree, and named structs are never map keys\<close>
  "wf_types ctx \<longleftrightarrow>
     (\<forall>td i. type_map ctx td = Some i \<longleftrightarrow>
        i < length (types ctx) \<and> types ctx ! i = td \<and> struct_name td = None)"

definition wf_named :: "ir_context \<Rightarrow> bool" where
  "wf_named ctx \<longleftrightarrow>
     (\<forall>n i. named_struct_map ctx n = Some i \<longleftrightarrow>
        i < length (types ctx) \<and> struct_name (types ctx ! i) = Some n)"

definition wf_consts :: "ir_context \<Rightarrow> bool" where
  "wf_consts ctx \<longleftrightarrow>
     (\<forall>k i. const_map ctx k = Some i \<longrightarrow>
        i < length (constants ctx) \<and> constants ctx ! i = const_of_key k)"

definition wf_singletons :: "ir_context \<Rightarrow> bool" where
  "wf_singletons ctx \<longleftrightarrow>
     get_type ctx (void_ty ctx) = Some TyVoid \<and> get_type ctx (i1_ty ctx) = Some (TyInteger 1) \<and>
     get_type ctx (i8_ty ctx) = Some (TyInteger 8) \<and> get_type ctx (i16_ty ctx) = Some (TyInteger 16) \<and>
     get_type ctx (i32_ty ctx) = Some (TyInteger 32) \<and> get_type ctx (i64_ty ctx) = Some (TyInteger 64) \<and>
     get_type ctx (f32_ty ctx) = Some (TyFloat Single) \<and> get_type ctx (f64_ty ctx) = Some (TyFloat Double) \<and>
     get_type ctx (ptr_ty ctx) = Some TyPointer \<and> get_type ctx (label_ty ctx) = Some TyLabel"

definition wf_context :: "ir_context \<Rightarrow> bool" where
  "wf_context ctx \<longleftrightarrow> wf_types ctx \<and> wf_named ctx \<and> wf_consts ctx \<and> wf_singletons ctx"

lemmas wf_context_defs = wf_context_def wf_types_def wf_named_def wf_consts_def wf_singletons_def

section \<open>The interning interface\<close>

text \<open>
  What a hash-consing table promises its clients: \<open>intern\<close> returns an index at which the datum of
  the key is stored, never moves older data, and returns the same index for the same key from then
  on. \<open>memo\<close> is the key lookup, \<open>fetch\<close> the read by index, \<open>fill\<close> the number of slots in use;
  the table can take a new key while \<open>fill s < cap\<close>, the range of the index type.
\<close>

locale interner =
  fixes intern :: "'s \<Rightarrow> 'k \<Rightarrow> 's \<times> nat"
    and memo :: "'s \<Rightarrow> 'k \<Rightarrow> nat option"
    and fetch :: "'s \<Rightarrow> nat \<Rightarrow> 'd option"
    and datum :: "'k \<Rightarrow> 'd"
    and keyok :: "'k \<Rightarrow> bool"
    and fill :: "'s \<Rightarrow> nat"
    and cap :: nat
    and invar :: "'s \<Rightarrow> bool"
  assumes datum_inj: "datum k = datum k' \<Longrightarrow> k = k'"
    and memo_fetch: "invar s \<Longrightarrow> memo s k = Some i \<Longrightarrow> fetch s i = Some (datum k)"
    and intern_hit: "memo s k = Some i \<Longrightarrow> intern s k = (s, i)"
    and intern_memo: "invar s \<Longrightarrow> intern s k = (s', i) \<Longrightarrow> memo s' = (memo s)(k \<mapsto> i)"
    and intern_invar: "invar s \<Longrightarrow> keyok k \<Longrightarrow> fill s < cap \<Longrightarrow> intern s k = (s', i) \<Longrightarrow> invar s'"
    and intern_fetch_old:
      "invar s \<Longrightarrow> intern s k = (s', i) \<Longrightarrow> fetch s j = Some d \<Longrightarrow> fetch s' j = Some d"
    and intern_fill: "intern s k = (s', i) \<Longrightarrow> fill s' \<le> Suc (fill s)"
begin

definition intern_all :: "'s \<Rightarrow> 'k list \<Rightarrow> 's" where
  "intern_all = foldl (\<lambda>s k. fst (intern s k))"

lemma intern_fetch_new:
  assumes "invar s" "keyok k" "fill s < cap" "intern s k = (s', i)"
  shows "fetch s' i = Some (datum k)"
  using intern_memo [OF assms(1,4)] memo_fetch [OF intern_invar [OF assms]] by simp

lemma intern_twice:
  assumes "invar s" "intern s k = (s', i)"
  shows "intern s' k = (s', i)"
  using intern_memo [OF assms] by (simp add: intern_hit)

lemma memo_injective:
  assumes "invar s" "memo s k = Some i" "memo s k' = Some i"
  shows "k = k'"
  using assms memo_fetch datum_inj by (metis option.inject)

lemma intern_keeps_memo:
  assumes "invar s" "memo s k = Some i" "intern s k' = (s', j)"
  shows "memo s' k = Some i"
proof (cases "k' = k")
  case True
  with assms(2,3) intern_hit show ?thesis by simp
next
  case False
  with assms intern_memo [OF assms(1,3)] show ?thesis by simp
qed

lemma intern_all_invar:
  assumes "invar s" "\<forall>k\<in>set ks. keyok k" "fill s + length ks \<le> cap"
  shows "invar (intern_all s ks)"
  using assms
proof (induction ks arbitrary: s)
  case (Cons k ks)
  obtain s' i where st: "intern s k = (s', i)" by fastforce
  have "invar s'" using intern_invar [OF Cons.prems(1) _ _ st] Cons.prems by simp
  moreover have "fill s' + length ks \<le> cap" using intern_fill [OF st] Cons.prems by simp
  ultimately show ?case using Cons st by (simp add: intern_all_def)
qed (simp add: intern_all_def)

text \<open>Once interned, a key keeps its index whatever is interned later.\<close>

lemma intern_stable:
  assumes "invar s" "memo s k = Some i" "\<forall>k\<in>set ks. keyok k" "fill s + length ks \<le> cap"
  shows "intern (intern_all s ks) k = (intern_all s ks, i)"
proof -
  have "memo (intern_all s ks) k = Some i"
    using assms
  proof (induction ks arbitrary: s)
    case (Cons k' ks)
    obtain s' j where st: "intern s k' = (s', j)" by fastforce
    have "invar s'" using intern_invar [OF Cons.prems(1) _ _ st] Cons.prems by simp
    moreover have "memo s' k = Some i" by (rule intern_keeps_memo [OF Cons.prems(1,2) st])
    moreover have "fill s' + length ks \<le> cap" using intern_fill [OF st] Cons.prems by simp
    ultimately show ?case using Cons st by (simp add: intern_all_def)
  qed (simp add: intern_all_def)
  then show ?thesis by (rule intern_hit)
qed

end

section \<open>Both pools are interning tables\<close>

definition intern_key :: "ir_context \<Rightarrow> constant_key \<Rightarrow> ir_context \<times> const_id" where
  "intern_key ctx k = intern_const ctx k (const_of_key k)"

lemma const_of_key_inj: "const_of_key k = const_of_key k' \<Longrightarrow> k = k'"
  by (cases k; cases k') auto

lemma intern_anon_cases:
  obtains i where "type_map ctx td = Some i" "intern_anon ctx td = (ctx, i)"
  | "type_map ctx td = None"
    "intern_anon ctx td =
       (ctx\<lparr>type_map := (type_map ctx)(td \<mapsto> as_u32 (length (types ctx))), types := types ctx @ [td]\<rparr>,
        as_u32 (length (types ctx)))"
  by (cases "type_map ctx td") (auto simp: intern_anon_def Let_def)

lemma intern_const_cases:
  obtains i where "const_map ctx k = Some i" "intern_const ctx k c = (ctx, i)"
  | "const_map ctx k = None"
    "intern_const ctx k c =
       (ctx\<lparr>constants := constants ctx @ [c], const_map := (const_map ctx)(k \<mapsto> as_u32 (length (constants ctx)))\<rparr>,
        as_u32 (length (constants ctx)))"
  by (cases "const_map ctx k") (auto simp: intern_const_def Let_def)

lemma wf_singletons_mono:
  assumes "wf_singletons ctx" "\<And>i td. get_type ctx i = Some td \<Longrightarrow> get_type ctx' i = Some td"
    and "void_ty ctx' = void_ty ctx" "i1_ty ctx' = i1_ty ctx" "i8_ty ctx' = i8_ty ctx"
    "i16_ty ctx' = i16_ty ctx" "i32_ty ctx' = i32_ty ctx" "i64_ty ctx' = i64_ty ctx"
    "f32_ty ctx' = f32_ty ctx" "f64_ty ctx' = f64_ty ctx" "ptr_ty ctx' = ptr_ty ctx"
    "label_ty ctx' = label_ty ctx"
  shows "wf_singletons ctx'"
  using assms by (auto simp: wf_singletons_def)

lemma intern_anon_fetch_old:
  "intern_anon ctx td = (ctx', i) \<Longrightarrow> get_type ctx j = Some d \<Longrightarrow> get_type ctx' j = Some d"
  by (cases rule: intern_anon_cases [of ctx td]) (auto simp: get_type_def intro: vec_get_append_old)

lemma intern_anon_wf:
  assumes "wf_context ctx" "struct_name td = None" "length (types ctx) < 2 ^ 32"
    and "intern_anon ctx td = (ctx', i)"
  shows "wf_context ctx'"
proof (cases rule: intern_anon_cases [of ctx td])
  case 1
  with assms show ?thesis by simp
next
  case 2
  let ?n = "length (types ctx)"
  have c': "ctx' = ctx\<lparr>type_map := (type_map ctx)(td \<mapsto> ?n), types := types ctx @ [td]\<rparr>"
    using 2 assms by simp
  from assms(1) have wt: "wf_types ctx" and wn: "wf_named ctx" and wc: "wf_consts ctx"
    and ws: "wf_singletons ctx" by (auto simp: wf_context_def)
  have fresh: "\<forall>j<?n. types ctx ! j \<noteq> td"
    using wt 2(1) assms(2) by (auto simp: wf_types_def) (metis option.distinct(1))
  have "wf_types ctx'"
    using wt fresh assms(2) unfolding wf_types_def c'
    by (auto simp: nth_append less_Suc_eq split: if_splits)
  moreover have "wf_named ctx'"
    using wn assms(2) unfolding wf_named_def c' by (auto simp: nth_append less_Suc_eq split: if_splits)
  moreover have "wf_consts ctx'" using wc by (simp add: wf_consts_def c')
  moreover have "wf_singletons ctx'"
    by (rule wf_singletons_mono [OF ws]) (auto simp: c' get_type_def intro: vec_get_append_old)
  ultimately show ?thesis by (simp add: wf_context_def)
qed

lemma intern_key_wf:
  assumes "wf_context ctx" "length (constants ctx) < 2 ^ 32" "intern_key ctx k = (ctx', i)"
  shows "wf_context ctx'"
  using assms
  by (cases rule: intern_const_cases [of ctx k "const_of_key k"])
     (auto simp: wf_context_defs intern_key_def get_type_def nth_append less_Suc_eq split: if_splits)

lemma intern_key_fetch_old:
  "intern_key ctx k = (ctx', i) \<Longrightarrow> get_const ctx j = Some d \<Longrightarrow> get_const ctx' j = Some d"
  by (cases rule: intern_const_cases [of ctx k "const_of_key k"])
     (auto simp: get_const_def intern_key_def intro: vec_get_append_old)

interpretation type_pool: interner intern_anon type_map get_type "\<lambda>td. td"
  "\<lambda>td. struct_name td = None" "\<lambda>ctx. length (types ctx)" "2 ^ 32" wf_context
proof (unfold_locales, goal_cases)
  case (2 s k i)
  then show ?case by (auto simp: wf_context_defs get_type_def)
next
  case (4 s k s' i)
  then show ?case by (cases rule: intern_anon_cases [of s k]) (auto simp: fun_upd_idem)
next
  case (5 s k s' i)
  then show ?case by (rule intern_anon_wf)
next
  case (6 s k s' i j d)
  then show ?case by (blast intro: intern_anon_fetch_old)
next
  case (7 s k s' i)
  then show ?case by (cases rule: intern_anon_cases [of s k]) auto
qed (auto simp: intern_anon_def)

interpretation const_pool: interner intern_key const_map get_const const_of_key
  "\<lambda>k. True" "\<lambda>ctx. length (constants ctx)" "2 ^ 32" wf_context
proof (unfold_locales, goal_cases)
  case (1 k k')
  then show ?case by (rule const_of_key_inj)
next
  case (2 s k i)
  then show ?case by (auto simp: wf_context_defs get_const_def)
next
  case (4 s k s' i)
  then show ?case
    by (cases rule: intern_const_cases [of s k "const_of_key k"]) (auto simp: intern_key_def fun_upd_idem)
next
  case (5 s k s' i)
  then show ?case by (blast intro: intern_key_wf)
next
  case (6 s k s' i j d)
  then show ?case by (blast intro: intern_key_fetch_old)
next
  case (7 s k s' i)
  then show ?case
    by (cases rule: intern_const_cases [of s k "const_of_key k"]) (auto simp: intern_key_def)
qed (auto simp: intern_key_def intern_const_def)

section \<open>The other operations keep the invariant\<close>

lemmas const_makers =
  const_int_def const_float_def const_null_def const_undef_def const_poison_def const_zero_def

lemma const_makers_intern_key:
  "const_int ctx ty v = intern_key ctx (KInt ty v)"
  "const_float ctx ty b = intern_key ctx (KFloat ty b)"
  "const_null ctx ty = intern_key ctx (KNull ty)"
  "const_undef ctx ty = intern_key ctx (KUndef ty)"
  "const_poison ctx ty = intern_key ctx (KPoison ty)"
  "const_zero ctx ty = intern_key ctx (KZeroInitializer ty)"
  by (simp_all add: const_makers intern_key_def)

lemma intern_key_types [simp]: "types (fst (intern_key ctx k)) = types ctx"
  by (cases rule: intern_const_cases [of ctx k "const_of_key k"]) (auto simp: intern_key_def)

lemma push_const_wf:
  "wf_context ctx \<Longrightarrow> push_const ctx c = (ctx', i) \<Longrightarrow> wf_context ctx'"
  by (fastforce simp: wf_context_defs push_const_def get_type_def nth_append)

lemma mk_struct_named_wf:
  assumes "wf_context ctx" "length (types ctx) < 2 ^ 32" "mk_struct_named ctx n = (ctx', i)"
  shows "wf_context ctx'"
proof (cases "named_struct_map ctx n")
  case (Some j)
  with assms show ?thesis by (simp add: mk_struct_named_def)
next
  case None
  let ?k = "length (types ctx)"
  have c': "ctx' = ctx\<lparr>types := types ctx @ [TyStruct (StructType (Some n) [] False)],
      named_struct_map := (named_struct_map ctx)(n \<mapsto> ?k)\<rparr>"
    using None assms by (auto simp: mk_struct_named_def Let_def)
  from assms(1) have wt: "wf_types ctx" and wn: "wf_named ctx" and wc: "wf_consts ctx"
    and ws: "wf_singletons ctx" by (auto simp: wf_context_def)
  have fresh: "\<forall>j<?k. struct_name (types ctx ! j) \<noteq> Some n"
    using wn None by (auto simp: wf_named_def) (metis option.distinct(1))
  have "wf_types ctx'"
    using wt unfolding wf_types_def c' by (auto simp: nth_append less_Suc_eq split: if_splits)
  moreover have "wf_named ctx'"
    using wn fresh unfolding wf_named_def c' by (auto simp: nth_append less_Suc_eq split: if_splits)
  moreover have "wf_consts ctx'" using wc by (simp add: wf_consts_def c')
  moreover have "wf_singletons ctx'"
    by (rule wf_singletons_mono [OF ws]) (auto simp: c' get_type_def intro: vec_get_append_old)
  ultimately show ?thesis by (simp add: wf_context_def)
qed

lemma define_struct_body_named_wf:
  assumes "wf_context ctx" "define_struct_body ctx i flds packed = Some ctx'"
    and named: "named_struct_map ctx n = Some i"
  shows "wf_context ctx' \<and> get_type ctx' i = Some (TyStruct (StructType (Some n) flds packed))"
proof -
  from assms(1) have wt: "wf_types ctx" and wn: "wf_named ctx" and wc: "wf_consts ctx"
    and ws: "wf_singletons ctx" by (auto simp: wf_context_def)
  have i: "i < length (types ctx)" and sn: "struct_name (types ctx ! i) = Some n"
    using wn named by (auto simp: wf_named_def)
  then obtain st where st: "types ctx ! i = TyStruct st" "st_name st = Some n"
    by (cases "types ctx ! i") auto
  have c': "ctx' = ctx\<lparr>types := (types ctx)[i := TyStruct (StructType (Some n) flds packed)]\<rparr>"
    using assms(2) i st by (auto simp: define_struct_body_def)
  have "wf_types ctx'"
    using wt i sn unfolding wf_types_def c' by (auto simp: nth_list_update split: if_splits)
  moreover have "wf_named ctx'"
    using wn i sn unfolding wf_named_def c' by (auto simp: nth_list_update split: if_splits)
  moreover have "wf_consts ctx'" using wc by (simp add: wf_consts_def c')
  moreover have "wf_singletons ctx'"
    using ws i st unfolding wf_singletons_def c'
    by (auto simp: get_type_def vec_get_def nth_list_update split: if_splits)
  ultimately show ?thesis using i by (simp add: wf_context_def c' get_type_def)
qed

lemma types_context_new:
  "types context_new =
     [TyVoid, TyInteger 1, TyInteger 8, TyInteger 16, TyInteger 32, TyInteger 64, TyFloat Single,
      TyFloat Double, TyPointer, TyLabel]"
  by (simp add: context_new_def intern_anon_def empty_context_def)

lemma type_map_context_new:
  "type_map context_new =
     map_of (zip [TyVoid, TyInteger 1, TyInteger 8, TyInteger 16, TyInteger 32, TyInteger 64,
       TyFloat Single, TyFloat Double, TyPointer, TyLabel] [0..<10])"
  by (simp add: context_new_def intern_anon_def empty_context_def numeral_2_eq_2 [symmetric] upt_rec fun_eq_iff)

lemma context_new_wf: "wf_context context_new"
proof -
  let ?ts = "[TyVoid, TyInteger 1, TyInteger 8, TyInteger 16, TyInteger 32, TyInteger 64,
       TyFloat Single, TyFloat Double, TyPointer, TyLabel]"
  have d: "distinct ?ts" and l: "length ?ts = 10" and n: "\<forall>td\<in>set ?ts. struct_name td = None" by simp_all
  have "wf_types context_new"
    unfolding wf_types_def types_context_new type_map_context_new
  proof (intro allI)
    fix td i
    have "(map_of (zip ?ts [0..<10]) td = Some i) = (i < length ?ts \<and> ?ts ! i = td)"
      using d l by (subst map_of_eq_Some_iff) (auto simp: in_set_zip)
    then show "(map_of (zip ?ts [0..<10]) td = Some i) =
        (i < length ?ts \<and> ?ts ! i = td \<and> struct_name td = None)"
      using n by (metis nth_mem)
  qed
  moreover have "named_struct_map context_new = Map.empty" and "const_map context_new = Map.empty"
    by (simp_all add: context_new_def intern_anon_def empty_context_def)
  moreover have "wf_singletons context_new"
    by (simp add: wf_singletons_def get_type_def vec_get_def context_new_def intern_anon_def empty_context_def)
  moreover have "\<forall>i<length ?ts. struct_name (?ts ! i) = None" using n nth_mem by blast
  ultimately show ?thesis
    unfolding wf_context_def wf_named_def wf_consts_def types_context_new by simp
qed

end
