(* ===== verification/IR_Instruction.thy ===== *)
theory IR_Instruction
  imports IR_Types
begin

text \<open>
  SSA instructions (\<open>llvm-ir/src/instruction.rs\<close>): flags, predicates, orderings, the
  instruction kinds, and the four queries every analysis and pass is written with:
  \<open>is_terminator\<close>, \<open>opcode\<close>, \<open>operands\<close>, \<open>successors\<close>.
  The constructors carry the fields of the Rust variants in their declaration order. Enum variants
  whose name occurs in two enums are prefixed (\<open>I_\<close> integer predicates, \<open>F_\<close> float predicates,
  \<open>Rmw_\<close>, \<open>Vp_\<close>).
\<close>

section \<open>Flags, predicates and orderings\<close>

record int_arith_flags =
  nuw :: bool
  nsw :: bool

record exact_flag =
  exact :: bool

record fast_math_flags =
  nnan :: bool
  ninf :: bool
  nsz :: bool
  arcp :: bool
  contract :: bool
  afn :: bool
  reassoc :: bool
  fast :: bool

datatype int_predicate =
    I_Eq
  | I_Ne
  | I_Ugt
  | I_Uge
  | I_Ult
  | I_Ule
  | I_Sgt
  | I_Sge
  | I_Slt
  | I_Sle

datatype float_predicate =
    F_False
  | F_Oeq
  | F_Ogt
  | F_Oge
  | F_Olt
  | F_Ole
  | F_One
  | F_Ord
  | F_Uno
  | F_Ueq
  | F_Ugt
  | F_Uge
  | F_Ult
  | F_Ule
  | F_Une
  | F_True

datatype tail_call_kind = TailNone | Tail | MustTail | NoTail

datatype mem_ordering = Unordered | Monotonic | Acquire | Release | AcqRel | SeqCst

datatype rmw_op =
    Rmw_Xchg
  | Rmw_Add
  | Rmw_Sub
  | Rmw_And
  | Rmw_Nand
  | Rmw_Or
  | Rmw_Xor
  | Rmw_Max
  | Rmw_Min
  | Rmw_UMax
  | Rmw_UMin
  | Rmw_FAdd
  | Rmw_FSub

datatype vp_intrinsic =
    Vp_Add
  | Vp_Sub
  | Vp_Mul
  | Vp_SDiv
  | Vp_UDiv
  | Vp_And
  | Vp_Or
  | Vp_Xor
  | Vp_Shl
  | Vp_LShr
  | Vp_AShr
  | Vp_Load
  | Vp_Store
  | Vp_ReduceAdd

datatype instrprof_intrinsic = Increment | ValueProfile

datatype landing_pad_clause = Catch type_id value_ref | Filter type_id value_ref

fun int_predicate_as_str :: "int_predicate \<Rightarrow> string" where
  "int_predicate_as_str I_Eq = ''eq''"
| "int_predicate_as_str I_Ne = ''ne''"
| "int_predicate_as_str I_Ugt = ''ugt''"
| "int_predicate_as_str I_Uge = ''uge''"
| "int_predicate_as_str I_Ult = ''ult''"
| "int_predicate_as_str I_Ule = ''ule''"
| "int_predicate_as_str I_Sgt = ''sgt''"
| "int_predicate_as_str I_Sge = ''sge''"
| "int_predicate_as_str I_Slt = ''slt''"
| "int_predicate_as_str I_Sle = ''sle''"

fun float_predicate_as_str :: "float_predicate \<Rightarrow> string" where
  "float_predicate_as_str F_False = ''false''"
| "float_predicate_as_str F_Oeq = ''oeq''"
| "float_predicate_as_str F_Ogt = ''ogt''"
| "float_predicate_as_str F_Oge = ''oge''"
| "float_predicate_as_str F_Olt = ''olt''"
| "float_predicate_as_str F_Ole = ''ole''"
| "float_predicate_as_str F_One = ''one''"
| "float_predicate_as_str F_Ord = ''ord''"
| "float_predicate_as_str F_Uno = ''uno''"
| "float_predicate_as_str F_Ueq = ''ueq''"
| "float_predicate_as_str F_Ugt = ''ugt''"
| "float_predicate_as_str F_Uge = ''uge''"
| "float_predicate_as_str F_Ult = ''ult''"
| "float_predicate_as_str F_Ule = ''ule''"
| "float_predicate_as_str F_Une = ''une''"
| "float_predicate_as_str F_True = ''true''"

fun mem_ordering_as_str :: "mem_ordering \<Rightarrow> string" where
  "mem_ordering_as_str Unordered = ''unordered''"
| "mem_ordering_as_str Monotonic = ''monotonic''"
| "mem_ordering_as_str Acquire = ''acquire''"
| "mem_ordering_as_str Release = ''release''"
| "mem_ordering_as_str AcqRel = ''acq_rel''"
| "mem_ordering_as_str SeqCst = ''seq_cst''"

fun rmw_op_as_str :: "rmw_op \<Rightarrow> string" where
  "rmw_op_as_str Rmw_Xchg = ''xchg''"
| "rmw_op_as_str Rmw_Add = ''add''"
| "rmw_op_as_str Rmw_Sub = ''sub''"
| "rmw_op_as_str Rmw_And = ''and''"
| "rmw_op_as_str Rmw_Nand = ''nand''"
| "rmw_op_as_str Rmw_Or = ''or''"
| "rmw_op_as_str Rmw_Xor = ''xor''"
| "rmw_op_as_str Rmw_Max = ''max''"
| "rmw_op_as_str Rmw_Min = ''min''"
| "rmw_op_as_str Rmw_UMax = ''umax''"
| "rmw_op_as_str Rmw_UMin = ''umin''"
| "rmw_op_as_str Rmw_FAdd = ''fadd''"
| "rmw_op_as_str Rmw_FSub = ''fsub''"

fun instrprof_as_str :: "instrprof_intrinsic \<Rightarrow> string" where
  "instrprof_as_str Increment = ''llvm.instrprof.increment''"
| "instrprof_as_str ValueProfile = ''llvm.instrprof.value.profile''"

definition instrprof_from_name :: "string \<Rightarrow> instrprof_intrinsic option" where
  "instrprof_from_name name =
     (if name = ''llvm.instrprof.increment'' then Some Increment
      else if name = ''llvm.instrprof.value.profile'' then Some ValueProfile
      else None)"

fun strip_prefix :: "string \<Rightarrow> string \<Rightarrow> string option" where
  \<comment> \<open>\<open>name.strip_prefix(p)\<close>\<close>
  "strip_prefix [] name = Some name"
| "strip_prefix (c # p) [] = None"
| "strip_prefix (c # p) (d # name) = (if c = d then strip_prefix p name else None)"

definition vp_from_name :: "string \<Rightarrow> vp_intrinsic option" where
  "vp_from_name name =
     (case strip_prefix ''llvm.vp.'' name of None \<Rightarrow> None
      | Some rest \<Rightarrow>
          (let op = takeWhile (\<lambda>c. c \<noteq> CHR ''.'') rest in
           if op = ''add'' then Some Vp_Add
           else if op = ''sub'' then Some Vp_Sub
           else if op = ''mul'' then Some Vp_Mul
           else if op = ''sdiv'' then Some Vp_SDiv
           else if op = ''udiv'' then Some Vp_UDiv
           else if op = ''and'' then Some Vp_And
           else if op = ''or'' then Some Vp_Or
           else if op = ''xor'' then Some Vp_Xor
           else if op = ''shl'' then Some Vp_Shl
           else if op = ''lshr'' then Some Vp_LShr
           else if op = ''ashr'' then Some Vp_AShr
           else if op = ''load'' then Some Vp_Load
           else if op = ''store'' then Some Vp_Store
           else if op = ''reduce'' \<and> strip_prefix ''reduce.add.'' rest \<noteq> None then Some Vp_ReduceAdd
           else None))"

section \<open>Instruction kinds\<close>

datatype (plugins only: code size) instr_kind =
    Add int_arith_flags value_ref value_ref  \<comment> \<open>Integer arithmetic\<close>
  | Sub int_arith_flags value_ref value_ref
  | Mul int_arith_flags value_ref value_ref
  | UDiv bool value_ref value_ref
  | SDiv bool value_ref value_ref
  | URem value_ref value_ref
  | SRem value_ref value_ref
  | And value_ref value_ref  \<comment> \<open>Bitwise\<close>
  | Or value_ref value_ref
  | Xor value_ref value_ref
  | Shl int_arith_flags value_ref value_ref
  | LShr bool value_ref value_ref
  | AShr bool value_ref value_ref
  | FAdd fast_math_flags value_ref value_ref  \<comment> \<open>Floating-point arithmetic\<close>
  | FSub fast_math_flags value_ref value_ref
  | FMul fast_math_flags value_ref value_ref
  | FDiv fast_math_flags value_ref value_ref
  | FRem fast_math_flags value_ref value_ref
  | FNeg fast_math_flags value_ref
  | ICmp int_predicate value_ref value_ref  \<comment> \<open>Comparisons\<close>
  | FCmp fast_math_flags float_predicate value_ref value_ref
  | Alloca type_id "value_ref option" "nat option"  \<comment> \<open>Memory\<close>
  | Load type_id value_ref "nat option" bool
  | Store value_ref value_ref "nat option" bool
  | GetElementPtr bool type_id value_ref "value_ref list"
  | Trunc value_ref type_id  \<comment> \<open>Casts\<close>
  | ZExt value_ref type_id
  | SExt value_ref type_id
  | FPTrunc value_ref type_id
  | FPExt value_ref type_id
  | FPToUI value_ref type_id
  | FPToSI value_ref type_id
  | UIToFP value_ref type_id
  | SIToFP value_ref type_id
  | PtrToInt value_ref type_id
  | IntToPtr value_ref type_id
  | BitCast value_ref type_id
  | AddrSpaceCast value_ref type_id
  | Freeze value_ref
  | Select value_ref value_ref value_ref  \<comment> \<open>Misc\<close>
  | Phi type_id "(value_ref \<times> block_id) list"
  | ExtractValue value_ref "nat list"
  | InsertValue value_ref value_ref "nat list"
  | ExtractElement value_ref value_ref
  | InsertElement value_ref value_ref value_ref
  | ShuffleVector value_ref value_ref "int list"
  | Call tail_call_kind type_id value_ref "value_ref list"  \<comment> \<open>Call\<close>
  | Invoke type_id value_ref "value_ref list" block_id block_id
  | LandingPad type_id "value_ref option" bool "landing_pad_clause list"
  | InlineAsm string string bool bool "value_ref list"
  | Fence mem_ordering  \<comment> \<open>Atomics\<close>
  | CmpXchg value_ref value_ref value_ref mem_ordering mem_ordering bool bool
  | AtomicRmw rmw_op value_ref value_ref mem_ordering bool
  | Ret "value_ref option"  \<comment> \<open>Terminators\<close>
  | Br block_id
  | CondBr value_ref block_id block_id
  | Switch value_ref block_id "(value_ref \<times> block_id) list"
  | Unreachable
  | Resume value_ref
  | CatchPad value_ref "value_ref list"  \<comment> \<open>Funclet pads\<close>
  | CleanupPad "value_ref option" "value_ref list"
  | CatchSwitch "value_ref option" "block_id list" "block_id option"
  | CatchRet value_ref block_id
  | CleanupRet value_ref "block_id option"


record instruction =
  instr_name :: "string option"
  instr_ty :: type_id
  instr_kind :: instr_kind

section \<open>Queries\<close>

definition opt_list :: "'a option \<Rightarrow> 'a list" where
  \<comment> \<open>\<open>o.iter().copied().collect()\<close>\<close>
  "opt_list v = (case v of None \<Rightarrow> [] | Some x \<Rightarrow> [x])"

lemma opt_list_simps [simp]: "opt_list None = []" "opt_list (Some x) = [x]"
  by (simp_all add: opt_list_def)

lemma set_opt_list [simp]: "set (opt_list v) = set_option v"
  by (cases v) simp_all

lemma map_opt_list [simp]: "map f (opt_list v) = opt_list (map_option f v)"
  by (cases v) simp_all

fun clause_value :: "landing_pad_clause \<Rightarrow> value_ref" where
  "clause_value (Catch _ value) = value"
| "clause_value (Filter _ value) = value"

definition is_terminator :: "instr_kind \<Rightarrow> bool" where
  "is_terminator k =
     (case k of
        Ret _ \<Rightarrow> True
      | Br _ \<Rightarrow> True
      | CondBr _ _ _ \<Rightarrow> True
      | Invoke _ _ _ _ _ \<Rightarrow> True
      | Switch _ _ _ \<Rightarrow> True
      | Unreachable \<Rightarrow> True
      | Resume _ \<Rightarrow> True
      | CatchSwitch _ _ _ \<Rightarrow> True
      | CatchRet _ _ \<Rightarrow> True
      | CleanupRet _ _ \<Rightarrow> True
      | _ \<Rightarrow> False)"

primrec opcode :: "instr_kind \<Rightarrow> string" where
  "opcode (Add _ _ _) = ''add''"
| "opcode (Sub _ _ _) = ''sub''"
| "opcode (Mul _ _ _) = ''mul''"
| "opcode (UDiv _ _ _) = ''udiv''"
| "opcode (SDiv _ _ _) = ''sdiv''"
| "opcode (URem _ _) = ''urem''"
| "opcode (SRem _ _) = ''srem''"
| "opcode (And _ _) = ''and''"
| "opcode (Or _ _) = ''or''"
| "opcode (Xor _ _) = ''xor''"
| "opcode (Shl _ _ _) = ''shl''"
| "opcode (LShr _ _ _) = ''lshr''"
| "opcode (AShr _ _ _) = ''ashr''"
| "opcode (FAdd _ _ _) = ''fadd''"
| "opcode (FSub _ _ _) = ''fsub''"
| "opcode (FMul _ _ _) = ''fmul''"
| "opcode (FDiv _ _ _) = ''fdiv''"
| "opcode (FRem _ _ _) = ''frem''"
| "opcode (FNeg _ _) = ''fneg''"
| "opcode (ICmp _ _ _) = ''icmp''"
| "opcode (FCmp _ _ _ _) = ''fcmp''"
| "opcode (Alloca _ _ _) = ''alloca''"
| "opcode (Load _ _ _ _) = ''load''"
| "opcode (Store _ _ _ _) = ''store''"
| "opcode (GetElementPtr _ _ _ _) = ''getelementptr''"
| "opcode (Trunc _ _) = ''trunc''"
| "opcode (ZExt _ _) = ''zext''"
| "opcode (SExt _ _) = ''sext''"
| "opcode (FPTrunc _ _) = ''fptrunc''"
| "opcode (FPExt _ _) = ''fpext''"
| "opcode (FPToUI _ _) = ''fptoui''"
| "opcode (FPToSI _ _) = ''fptosi''"
| "opcode (UIToFP _ _) = ''uitofp''"
| "opcode (SIToFP _ _) = ''sitofp''"
| "opcode (PtrToInt _ _) = ''ptrtoint''"
| "opcode (IntToPtr _ _) = ''inttoptr''"
| "opcode (BitCast _ _) = ''bitcast''"
| "opcode (AddrSpaceCast _ _) = ''addrspacecast''"
| "opcode (Freeze _) = ''freeze''"
| "opcode (Select _ _ _) = ''select''"
| "opcode (Phi _ _) = ''phi''"
| "opcode (ExtractValue _ _) = ''extractvalue''"
| "opcode (InsertValue _ _ _) = ''insertvalue''"
| "opcode (ExtractElement _ _) = ''extractelement''"
| "opcode (InsertElement _ _ _) = ''insertelement''"
| "opcode (ShuffleVector _ _ _) = ''shufflevector''"
| "opcode (Call _ _ _ _) = ''call''"
| "opcode (Invoke _ _ _ _ _) = ''invoke''"
| "opcode (LandingPad _ _ _ _) = ''landingpad''"
| "opcode (InlineAsm _ _ _ _ _) = ''call asm''"
| "opcode (Fence _) = ''fence''"
| "opcode (CmpXchg _ _ _ _ _ _ _) = ''cmpxchg''"
| "opcode (AtomicRmw _ _ _ _ _) = ''atomicrmw''"
| "opcode (Ret _) = ''ret''"
| "opcode (Br _) = ''br''"
| "opcode (CondBr _ _ _) = ''br''"
| "opcode (Switch _ _ _) = ''switch''"
| "opcode Unreachable = ''unreachable''"
| "opcode (Resume _) = ''resume''"
| "opcode (CatchPad _ _) = ''catchpad''"
| "opcode (CleanupPad _ _) = ''cleanuppad''"
| "opcode (CatchSwitch _ _ _) = ''catchswitch''"
| "opcode (CatchRet _ _) = ''catchret''"
| "opcode (CleanupRet _ _) = ''cleanupret''"


primrec operands :: "instr_kind \<Rightarrow> value_ref list" where
  "operands (Add _ lhs rhs) = [lhs, rhs]"
| "operands (Sub _ lhs rhs) = [lhs, rhs]"
| "operands (Mul _ lhs rhs) = [lhs, rhs]"
| "operands (UDiv _ lhs rhs) = [lhs, rhs]"
| "operands (SDiv _ lhs rhs) = [lhs, rhs]"
| "operands (URem lhs rhs) = [lhs, rhs]"
| "operands (SRem lhs rhs) = [lhs, rhs]"
| "operands (And lhs rhs) = [lhs, rhs]"
| "operands (Or lhs rhs) = [lhs, rhs]"
| "operands (Xor lhs rhs) = [lhs, rhs]"
| "operands (Shl _ lhs rhs) = [lhs, rhs]"
| "operands (LShr _ lhs rhs) = [lhs, rhs]"
| "operands (AShr _ lhs rhs) = [lhs, rhs]"
| "operands (FAdd _ lhs rhs) = [lhs, rhs]"
| "operands (FSub _ lhs rhs) = [lhs, rhs]"
| "operands (FMul _ lhs rhs) = [lhs, rhs]"
| "operands (FDiv _ lhs rhs) = [lhs, rhs]"
| "operands (FRem _ lhs rhs) = [lhs, rhs]"
| "operands (FNeg _ operand) = [operand]"
| "operands (ICmp _ lhs rhs) = [lhs, rhs]"
| "operands (FCmp _ _ lhs rhs) = [lhs, rhs]"
| "operands (Alloca _ num_elements _) = opt_list num_elements"
| "operands (Load _ ptr _ _) = [ptr]"
| "operands (Store val ptr _ _) = [val, ptr]"
| "operands (GetElementPtr _ _ ptr ix) = [ptr] @ ix"
| "operands (Trunc val _) = [val]"
| "operands (ZExt val _) = [val]"
| "operands (SExt val _) = [val]"
| "operands (FPTrunc val _) = [val]"
| "operands (FPExt val _) = [val]"
| "operands (FPToUI val _) = [val]"
| "operands (FPToSI val _) = [val]"
| "operands (UIToFP val _) = [val]"
| "operands (SIToFP val _) = [val]"
| "operands (PtrToInt val _) = [val]"
| "operands (IntToPtr val _) = [val]"
| "operands (BitCast val _) = [val]"
| "operands (AddrSpaceCast val _) = [val]"
| "operands (Freeze val) = [val]"
| "operands (Select cond then_val else_val) = [cond, then_val, else_val]"
| "operands (Phi _ incoming) = map fst incoming"
| "operands (ExtractValue aggregate _) = [aggregate]"
| "operands (InsertValue aggregate val _) = [aggregate, val]"
| "operands (ExtractElement vec idx) = [vec, idx]"
| "operands (InsertElement vec val idx) = [vec, val, idx]"
| "operands (ShuffleVector v1 v2 _) = [v1, v2]"
| "operands (Call _ _ callee as) = [callee] @ as"
| "operands (Invoke _ callee as _ _) = [callee] @ as"
| "operands (LandingPad _ personality_fn _ cls) = opt_list personality_fn @ map clause_value cls"
| "operands (InlineAsm _ _ _ _ as) = as"
| "operands (Fence _) = []"
| "operands (CmpXchg ptr cmp new_val _ _ _ _) = [ptr, cmp, new_val]"
| "operands (AtomicRmw _ ptr val _ _) = [ptr, val]"
| "operands (Ret val) = opt_list val"
| "operands (Br _) = []"
| "operands (CondBr cond _ _) = [cond]"
| "operands (Switch val _ cs) = val # map fst cs"
| "operands Unreachable = []"
| "operands (Resume val) = [val]"
| "operands (CatchPad catch_switch as) = [catch_switch] @ as"
| "operands (CleanupPad par as) = opt_list par @ as"
| "operands (CatchSwitch par _ _) = opt_list par"
| "operands (CatchRet catch_pad _) = [catch_pad]"
| "operands (CleanupRet cleanup_pad _) = [cleanup_pad]"


primrec successors :: "instr_kind \<Rightarrow> block_id list" where
  "successors (Add _ _ _) = []"
| "successors (Sub _ _ _) = []"
| "successors (Mul _ _ _) = []"
| "successors (UDiv _ _ _) = []"
| "successors (SDiv _ _ _) = []"
| "successors (URem _ _) = []"
| "successors (SRem _ _) = []"
| "successors (And _ _) = []"
| "successors (Or _ _) = []"
| "successors (Xor _ _) = []"
| "successors (Shl _ _ _) = []"
| "successors (LShr _ _ _) = []"
| "successors (AShr _ _ _) = []"
| "successors (FAdd _ _ _) = []"
| "successors (FSub _ _ _) = []"
| "successors (FMul _ _ _) = []"
| "successors (FDiv _ _ _) = []"
| "successors (FRem _ _ _) = []"
| "successors (FNeg _ _) = []"
| "successors (ICmp _ _ _) = []"
| "successors (FCmp _ _ _ _) = []"
| "successors (Alloca _ _ _) = []"
| "successors (Load _ _ _ _) = []"
| "successors (Store _ _ _ _) = []"
| "successors (GetElementPtr _ _ _ _) = []"
| "successors (Trunc _ _) = []"
| "successors (ZExt _ _) = []"
| "successors (SExt _ _) = []"
| "successors (FPTrunc _ _) = []"
| "successors (FPExt _ _) = []"
| "successors (FPToUI _ _) = []"
| "successors (FPToSI _ _) = []"
| "successors (UIToFP _ _) = []"
| "successors (SIToFP _ _) = []"
| "successors (PtrToInt _ _) = []"
| "successors (IntToPtr _ _) = []"
| "successors (BitCast _ _) = []"
| "successors (AddrSpaceCast _ _) = []"
| "successors (Freeze _) = []"
| "successors (Select _ _ _) = []"
| "successors (Phi _ _) = []"
| "successors (ExtractValue _ _) = []"
| "successors (InsertValue _ _ _) = []"
| "successors (ExtractElement _ _) = []"
| "successors (InsertElement _ _ _) = []"
| "successors (ShuffleVector _ _ _) = []"
| "successors (Call _ _ _ _) = []"
| "successors (Invoke _ _ _ normal_dest unwind_dest) = [normal_dest, unwind_dest]"
| "successors (LandingPad _ _ _ _) = []"
| "successors (InlineAsm _ _ _ _ _) = []"
| "successors (Fence _) = []"
| "successors (CmpXchg _ _ _ _ _ _ _) = []"
| "successors (AtomicRmw _ _ _ _ _) = []"
| "successors (Ret _) = []"
| "successors (Br dest) = [dest]"
| "successors (CondBr _ then_dest else_dest) = [then_dest, else_dest]"
| "successors (Switch _ dflt cs) = dflt # map snd cs"
| "successors Unreachable = []"
| "successors (Resume _) = []"
| "successors (CatchPad _ _) = []"
| "successors (CleanupPad _ _) = []"
| "successors (CatchSwitch _ hs dflt) = hs @ opt_list dflt"
| "successors (CatchRet _ successor) = [successor]"
| "successors (CleanupRet _ unwind_dest) = opt_list unwind_dest"


definition instruction_is_terminator :: "instruction \<Rightarrow> bool" where
  "instruction_is_terminator i = is_terminator (instr_kind i)"

definition instruction_operands :: "instruction \<Rightarrow> value_ref list" where
  "instruction_operands i = operands (instr_kind i)"

definition instruction_successors :: "instruction \<Rightarrow> block_id list" where
  "instruction_successors i = successors (instr_kind i)"

section \<open>Facts about the queries\<close>

text \<open>Only terminators have successors: a control-flow edge leaves a block at its end.\<close>

lemma successors_terminator: "successors k \<noteq> [] \<Longrightarrow> is_terminator k"
  by (cases k) (simp_all add: is_terminator_def)

lemma terminator_without_successors:
  "is_terminator k \<Longrightarrow> successors k = [] \<Longrightarrow>
     (\<exists>v. k = Ret v) \<or> k = Unreachable \<or> (\<exists>v. k = Resume v) \<or>
     (\<exists>p. k = CatchSwitch p [] None) \<or> (\<exists>p. k = CleanupRet p None)"
  by (cases k) (auto simp: is_terminator_def opt_list_def split: option.splits)

lemma instrprof_round_trip: "instrprof_from_name (instrprof_as_str i) = Some i"
  by (cases i) (simp_all add: instrprof_from_name_def)

lemma strip_prefix_iff: "strip_prefix p s = Some r \<longleftrightarrow> s = p @ r"
  by (induction p s rule: strip_prefix.induct) auto

end
