(* ===== verification/IR_Subst.thy ===== *)
theory IR_Subst
  imports IR_Instruction
begin

text \<open>
  Operand rewriting: \<open>rewrite_values_in_kind\<close> (\<open>llvm-transforms/src/value_rewrite.rs\<close>) maps every
  value operand of an instruction; \<open>subst_kind\<close> (\<open>llvm-transforms/src/const_prop.rs\<close>) does the same
  for a substitution of instruction results. Both are written out variant by variant, as the code
  has them; the lemmas show that they rewrite exactly the operands, in order, and nothing else.
\<close>

section \<open>The two rewriters\<close>

primrec map_clause :: "(value_ref \<Rightarrow> value_ref) \<Rightarrow> landing_pad_clause \<Rightarrow> landing_pad_clause" where
  "map_clause f (Catch t value) = Catch t (f value)"
| "map_clause f (Filter t value) = Filter t (f value)"

primrec rewrite_values_in_kind :: "(value_ref \<Rightarrow> value_ref) \<Rightarrow> instr_kind \<Rightarrow> instr_kind" where
  "rewrite_values_in_kind f (Add fl lhs rhs) = Add fl (f lhs) (f rhs)"
| "rewrite_values_in_kind f (Sub fl lhs rhs) = Sub fl (f lhs) (f rhs)"
| "rewrite_values_in_kind f (Mul fl lhs rhs) = Mul fl (f lhs) (f rhs)"
| "rewrite_values_in_kind f (UDiv ex lhs rhs) = UDiv ex (f lhs) (f rhs)"
| "rewrite_values_in_kind f (SDiv ex lhs rhs) = SDiv ex (f lhs) (f rhs)"
| "rewrite_values_in_kind f (URem lhs rhs) = URem (f lhs) (f rhs)"
| "rewrite_values_in_kind f (SRem lhs rhs) = SRem (f lhs) (f rhs)"
| "rewrite_values_in_kind f (And lhs rhs) = And (f lhs) (f rhs)"
| "rewrite_values_in_kind f (Or lhs rhs) = Or (f lhs) (f rhs)"
| "rewrite_values_in_kind f (Xor lhs rhs) = Xor (f lhs) (f rhs)"
| "rewrite_values_in_kind f (Shl fl lhs rhs) = Shl fl (f lhs) (f rhs)"
| "rewrite_values_in_kind f (LShr ex lhs rhs) = LShr ex (f lhs) (f rhs)"
| "rewrite_values_in_kind f (AShr ex lhs rhs) = AShr ex (f lhs) (f rhs)"
| "rewrite_values_in_kind f (FAdd fl lhs rhs) = FAdd fl (f lhs) (f rhs)"
| "rewrite_values_in_kind f (FSub fl lhs rhs) = FSub fl (f lhs) (f rhs)"
| "rewrite_values_in_kind f (FMul fl lhs rhs) = FMul fl (f lhs) (f rhs)"
| "rewrite_values_in_kind f (FDiv fl lhs rhs) = FDiv fl (f lhs) (f rhs)"
| "rewrite_values_in_kind f (FRem fl lhs rhs) = FRem fl (f lhs) (f rhs)"
| "rewrite_values_in_kind f (FNeg fl operand) = FNeg fl (f operand)"
| "rewrite_values_in_kind f (ICmp pred lhs rhs) = ICmp pred (f lhs) (f rhs)"
| "rewrite_values_in_kind f (FCmp fl pred lhs rhs) = FCmp fl pred (f lhs) (f rhs)"
| "rewrite_values_in_kind f (Alloca alloc_ty num_elements al) = Alloca alloc_ty (map_option f num_elements) al"
| "rewrite_values_in_kind f (Load t ptr al vol) = Load t (f ptr) al vol"
| "rewrite_values_in_kind f (Store val ptr al vol) = Store (f val) (f ptr) al vol"
| "rewrite_values_in_kind f (GetElementPtr inb base_ty ptr ix) = GetElementPtr inb base_ty (f ptr) (map f ix)"
| "rewrite_values_in_kind f (Trunc val t) = Trunc (f val) t"
| "rewrite_values_in_kind f (ZExt val t) = ZExt (f val) t"
| "rewrite_values_in_kind f (SExt val t) = SExt (f val) t"
| "rewrite_values_in_kind f (FPTrunc val t) = FPTrunc (f val) t"
| "rewrite_values_in_kind f (FPExt val t) = FPExt (f val) t"
| "rewrite_values_in_kind f (FPToUI val t) = FPToUI (f val) t"
| "rewrite_values_in_kind f (FPToSI val t) = FPToSI (f val) t"
| "rewrite_values_in_kind f (UIToFP val t) = UIToFP (f val) t"
| "rewrite_values_in_kind f (SIToFP val t) = SIToFP (f val) t"
| "rewrite_values_in_kind f (PtrToInt val t) = PtrToInt (f val) t"
| "rewrite_values_in_kind f (IntToPtr val t) = IntToPtr (f val) t"
| "rewrite_values_in_kind f (BitCast val t) = BitCast (f val) t"
| "rewrite_values_in_kind f (AddrSpaceCast val t) = AddrSpaceCast (f val) t"
| "rewrite_values_in_kind f (Freeze val) = Freeze (f val)"
| "rewrite_values_in_kind f (Select cond then_val else_val) = Select (f cond) (f then_val) (f else_val)"
| "rewrite_values_in_kind f (Phi t incoming) = Phi t (map (\<lambda>(v, b). (f v, b)) incoming)"
| "rewrite_values_in_kind f (ExtractValue aggregate ix) = ExtractValue (f aggregate) ix"
| "rewrite_values_in_kind f (InsertValue aggregate val ix) = InsertValue (f aggregate) (f val) ix"
| "rewrite_values_in_kind f (ExtractElement vec idx) = ExtractElement (f vec) (f idx)"
| "rewrite_values_in_kind f (InsertElement vec val idx) = InsertElement (f vec) (f val) (f idx)"
| "rewrite_values_in_kind f (ShuffleVector v1 v2 msk) = ShuffleVector (f v1) (f v2) msk"
| "rewrite_values_in_kind f (Call tl_kind callee_ty callee as) = Call tl_kind callee_ty (f callee) (map f as)"
| "rewrite_values_in_kind f (Invoke callee_ty callee as normal_dest unwind_dest) = Invoke callee_ty (f callee) (map f as) normal_dest unwind_dest"
| "rewrite_values_in_kind f (LandingPad result_ty personality_fn cln cls) = LandingPad result_ty (map_option f personality_fn) cln (map (map_clause f) cls)"
| "rewrite_values_in_kind f (InlineAsm asm_string cstr side_effect align_stack as) = InlineAsm asm_string cstr side_effect align_stack (map f as)"
| "rewrite_values_in_kind f (Fence ord) = Fence ord"
| "rewrite_values_in_kind f (CmpXchg ptr cmp new_val success_ord fail_ord wk vol) = CmpXchg (f ptr) (f cmp) (f new_val) success_ord fail_ord wk vol"
| "rewrite_values_in_kind f (AtomicRmw rop ptr val ord vol) = AtomicRmw rop (f ptr) (f val) ord vol"
| "rewrite_values_in_kind f (Ret val) = Ret (map_option f val)"
| "rewrite_values_in_kind f (Br dest) = Br dest"
| "rewrite_values_in_kind f (CondBr cond then_dest else_dest) = CondBr (f cond) then_dest else_dest"
| "rewrite_values_in_kind f (Switch val dflt cs) = Switch (f val) dflt (map (\<lambda>(v, b). (f v, b)) cs)"
| "rewrite_values_in_kind f Unreachable = Unreachable"
| "rewrite_values_in_kind f (Resume val) = Resume (f val)"
| "rewrite_values_in_kind f (CatchPad catch_switch as) = CatchPad (f catch_switch) (map f as)"
| "rewrite_values_in_kind f (CleanupPad par as) = CleanupPad (map_option f par) (map f as)"
| "rewrite_values_in_kind f (CatchSwitch par hs dflt) = CatchSwitch (map_option f par) hs dflt"
| "rewrite_values_in_kind f (CatchRet catch_pad successor) = CatchRet (f catch_pad) successor"
| "rewrite_values_in_kind f (CleanupRet cleanup_pad unwind_dest) = CleanupRet (f cleanup_pad) unwind_dest"

definition subst_value :: "(instr_id \<rightharpoonup> value_ref) \<Rightarrow> value_ref \<Rightarrow> value_ref" where
  "subst_value subst v = (case v of Instruction i \<Rightarrow> map_default v subst i | _ \<Rightarrow> v)"

primrec subst_kind :: "(instr_id \<rightharpoonup> value_ref) \<Rightarrow> instr_kind \<Rightarrow> instr_kind" where
  "subst_kind subst (Add fl lhs rhs) = Add fl (subst_value subst lhs) (subst_value subst rhs)"
| "subst_kind subst (Sub fl lhs rhs) = Sub fl (subst_value subst lhs) (subst_value subst rhs)"
| "subst_kind subst (Mul fl lhs rhs) = Mul fl (subst_value subst lhs) (subst_value subst rhs)"
| "subst_kind subst (UDiv ex lhs rhs) = UDiv ex (subst_value subst lhs) (subst_value subst rhs)"
| "subst_kind subst (SDiv ex lhs rhs) = SDiv ex (subst_value subst lhs) (subst_value subst rhs)"
| "subst_kind subst (URem lhs rhs) = URem (subst_value subst lhs) (subst_value subst rhs)"
| "subst_kind subst (SRem lhs rhs) = SRem (subst_value subst lhs) (subst_value subst rhs)"
| "subst_kind subst (And lhs rhs) = And (subst_value subst lhs) (subst_value subst rhs)"
| "subst_kind subst (Or lhs rhs) = Or (subst_value subst lhs) (subst_value subst rhs)"
| "subst_kind subst (Xor lhs rhs) = Xor (subst_value subst lhs) (subst_value subst rhs)"
| "subst_kind subst (Shl fl lhs rhs) = Shl fl (subst_value subst lhs) (subst_value subst rhs)"
| "subst_kind subst (LShr ex lhs rhs) = LShr ex (subst_value subst lhs) (subst_value subst rhs)"
| "subst_kind subst (AShr ex lhs rhs) = AShr ex (subst_value subst lhs) (subst_value subst rhs)"
| "subst_kind subst (FAdd fl lhs rhs) = FAdd fl (subst_value subst lhs) (subst_value subst rhs)"
| "subst_kind subst (FSub fl lhs rhs) = FSub fl (subst_value subst lhs) (subst_value subst rhs)"
| "subst_kind subst (FMul fl lhs rhs) = FMul fl (subst_value subst lhs) (subst_value subst rhs)"
| "subst_kind subst (FDiv fl lhs rhs) = FDiv fl (subst_value subst lhs) (subst_value subst rhs)"
| "subst_kind subst (FRem fl lhs rhs) = FRem fl (subst_value subst lhs) (subst_value subst rhs)"
| "subst_kind subst (FNeg fl operand) = FNeg fl (subst_value subst operand)"
| "subst_kind subst (ICmp pred lhs rhs) = ICmp pred (subst_value subst lhs) (subst_value subst rhs)"
| "subst_kind subst (FCmp fl pred lhs rhs) = FCmp fl pred (subst_value subst lhs) (subst_value subst rhs)"
| "subst_kind subst (Alloca alloc_ty num_elements al) = Alloca alloc_ty (map_option (subst_value subst) num_elements) al"
| "subst_kind subst (Load t ptr al vol) = Load t (subst_value subst ptr) al vol"
| "subst_kind subst (Store val ptr al vol) = Store (subst_value subst val) (subst_value subst ptr) al vol"
| "subst_kind subst (GetElementPtr inb base_ty ptr ix) = GetElementPtr inb base_ty (subst_value subst ptr) (map (subst_value subst) ix)"
| "subst_kind subst (Trunc val t) = Trunc (subst_value subst val) t"
| "subst_kind subst (ZExt val t) = ZExt (subst_value subst val) t"
| "subst_kind subst (SExt val t) = SExt (subst_value subst val) t"
| "subst_kind subst (FPTrunc val t) = FPTrunc (subst_value subst val) t"
| "subst_kind subst (FPExt val t) = FPExt (subst_value subst val) t"
| "subst_kind subst (FPToUI val t) = FPToUI (subst_value subst val) t"
| "subst_kind subst (FPToSI val t) = FPToSI (subst_value subst val) t"
| "subst_kind subst (UIToFP val t) = UIToFP (subst_value subst val) t"
| "subst_kind subst (SIToFP val t) = SIToFP (subst_value subst val) t"
| "subst_kind subst (PtrToInt val t) = PtrToInt (subst_value subst val) t"
| "subst_kind subst (IntToPtr val t) = IntToPtr (subst_value subst val) t"
| "subst_kind subst (BitCast val t) = BitCast (subst_value subst val) t"
| "subst_kind subst (AddrSpaceCast val t) = AddrSpaceCast (subst_value subst val) t"
| "subst_kind subst (Freeze val) = Freeze (subst_value subst val)"
| "subst_kind subst (Select cond then_val else_val) = Select (subst_value subst cond) (subst_value subst then_val) (subst_value subst else_val)"
| "subst_kind subst (Phi t incoming) = Phi t (map (\<lambda>(v, b). (subst_value subst v, b)) incoming)"
| "subst_kind subst (ExtractValue aggregate ix) = ExtractValue (subst_value subst aggregate) ix"
| "subst_kind subst (InsertValue aggregate val ix) = InsertValue (subst_value subst aggregate) (subst_value subst val) ix"
| "subst_kind subst (ExtractElement vec idx) = ExtractElement (subst_value subst vec) (subst_value subst idx)"
| "subst_kind subst (InsertElement vec val idx) = InsertElement (subst_value subst vec) (subst_value subst val) (subst_value subst idx)"
| "subst_kind subst (ShuffleVector v1 v2 msk) = ShuffleVector (subst_value subst v1) (subst_value subst v2) msk"
| "subst_kind subst (Call tl_kind callee_ty callee as) = Call tl_kind callee_ty (subst_value subst callee) (map (subst_value subst) as)"
| "subst_kind subst (Invoke callee_ty callee as normal_dest unwind_dest) = Invoke callee_ty (subst_value subst callee) (map (subst_value subst) as) normal_dest unwind_dest"
| "subst_kind subst (LandingPad result_ty personality_fn cln cls) = LandingPad result_ty (map_option (subst_value subst) personality_fn) cln (map (map_clause (subst_value subst)) cls)"
| "subst_kind subst (InlineAsm asm_string cstr side_effect align_stack as) = InlineAsm asm_string cstr side_effect align_stack (map (subst_value subst) as)"
| "subst_kind subst (Fence ord) = Fence ord"
| "subst_kind subst (CmpXchg ptr cmp new_val success_ord fail_ord wk vol) = CmpXchg (subst_value subst ptr) (subst_value subst cmp) (subst_value subst new_val) success_ord fail_ord wk vol"
| "subst_kind subst (AtomicRmw rop ptr val ord vol) = AtomicRmw rop (subst_value subst ptr) (subst_value subst val) ord vol"
| "subst_kind subst (Ret val) = Ret (map_option (subst_value subst) val)"
| "subst_kind subst (Br dest) = Br dest"
| "subst_kind subst (CondBr cond then_dest else_dest) = CondBr (subst_value subst cond) then_dest else_dest"
| "subst_kind subst (Switch val dflt cs) = Switch (subst_value subst val) dflt (map (\<lambda>(v, b). (subst_value subst v, b)) cs)"
| "subst_kind subst Unreachable = Unreachable"
| "subst_kind subst (Resume val) = Resume (subst_value subst val)"
| "subst_kind subst (CatchPad catch_switch as) = CatchPad (subst_value subst catch_switch) (map (subst_value subst) as)"
| "subst_kind subst (CleanupPad par as) = CleanupPad (map_option (subst_value subst) par) (map (subst_value subst) as)"
| "subst_kind subst (CatchSwitch par hs dflt) = CatchSwitch (map_option (subst_value subst) par) hs dflt"
| "subst_kind subst (CatchRet catch_pad successor) = CatchRet (subst_value subst catch_pad) successor"
| "subst_kind subst (CleanupRet cleanup_pad unwind_dest) = CleanupRet (subst_value subst cleanup_pad) unwind_dest"

section \<open>What rewriting does\<close>

lemma clause_value_map_clause [simp]: "clause_value (map_clause f c) = f (clause_value c)"
  by (cases c) simp_all

lemma subst_kind_eq_rewrite: "subst_kind subst k = rewrite_values_in_kind (subst_value subst) k"
  by (cases k) simp_all

lemma operands_rewrite [simp]: "operands (rewrite_values_in_kind f k) = map f (operands k)"
  by (cases k) (simp_all add: case_prod_unfold comp_def)

lemma successors_rewrite [simp]: "successors (rewrite_values_in_kind f k) = successors k"
  by (cases k) (simp_all add: case_prod_unfold comp_def)

lemma opcode_rewrite [simp]: "opcode (rewrite_values_in_kind f k) = opcode k"
  by (cases k) simp_all

lemma is_terminator_rewrite [simp]: "is_terminator (rewrite_values_in_kind f k) = is_terminator k"
  by (cases k) (simp_all add: is_terminator_def)

lemma map_clause_cong: "f (clause_value c) = g (clause_value c) \<Longrightarrow> map_clause f c = map_clause g c"
  by (cases c) simp_all

text \<open>The rewritten instruction depends on the mapper only at the operands.\<close>

lemma rewrite_cong:
  "(\<And>v. v \<in> set (operands k) \<Longrightarrow> f v = g v) \<Longrightarrow>
     rewrite_values_in_kind f k = rewrite_values_in_kind g k"
  by (cases k) (auto intro!: map_clause_cong option.map_cong0 intro: rev_image_eqI, (metis fst_conv image_eqI)+)

lemma map_clause_id: "map_clause (\<lambda>v. v) c = c"
  by (cases c) simp_all

lemma rewrite_id: "rewrite_values_in_kind (\<lambda>v. v) k = k"
  by (cases k) (auto simp: map_clause_id option.map_ident intro: map_idI)

lemma rewrite_unaffected:
  assumes "\<And>v. v \<in> set (operands k) \<Longrightarrow> f v = v"
  shows "rewrite_values_in_kind f k = k"
  using rewrite_cong [of k f "\<lambda>v. v"] assms rewrite_id by simp

lemma map_clause_comp: "map_clause f (map_clause g c) = map_clause (\<lambda>v. f (g v)) c"
  by (cases c) simp_all

lemma rewrite_comp:
  "rewrite_values_in_kind f (rewrite_values_in_kind g k) = rewrite_values_in_kind (\<lambda>v. f (g v)) k"
  by (cases k) (simp_all add: comp_def case_prod_unfold map_clause_comp option.map_comp)

lemma subst_value_empty [simp]: "subst_value Map.empty v = v"
  by (cases v) (simp_all add: subst_value_def)

lemma subst_value_simps [simp]:
  "subst_value s (Instruction i) = map_default (Instruction i) s i"
  "subst_value s (Argument a) = Argument a"
  "subst_value s (Constant c) = Constant c"
  "subst_value s (Global g) = Global g"
  by (simp_all add: subst_value_def)

lemma subst_kind_empty [simp]: "subst_kind Map.empty k = k"
  by (simp add: subst_kind_eq_rewrite rewrite_unaffected)

end
