(* ===== verification/IR_Function.thy ===== *)
theory IR_Function
  imports IR_Subst
begin

text \<open>
  Basic blocks, functions and modules (\<open>basic_block.rs\<close>, \<open>function.rs\<close>, \<open>module.rs\<close> of
  \<open>llvm-ir/src\<close>). A function owns a flat pool of instructions; a block lists indices into it.
  The name tables are maps. \<open>&mut\<close> accessors are modelled by their read and by an update of the
  element (\<open>set_instr_kind\<close>, \<open>set_block\<close>).
\<close>

section \<open>Basic blocks\<close>

record basic_block =
  bb_name :: string
  bb_body :: "instr_id list"
  bb_terminator :: "instr_id option"

definition bb_new :: "string \<Rightarrow> basic_block" where
  "bb_new n = \<lparr>bb_name = n, bb_body = [], bb_terminator = None\<rparr>"

definition append_instr :: "basic_block \<Rightarrow> instr_id \<Rightarrow> basic_block" where
  "append_instr bb i = bb\<lparr>bb_body := bb_body bb @ [i]\<rparr>"

definition set_terminator :: "basic_block \<Rightarrow> instr_id \<Rightarrow> basic_block" where
  "set_terminator bb i = bb\<lparr>bb_terminator := Some i\<rparr>"

definition is_complete :: "basic_block \<Rightarrow> bool" where
  "is_complete bb \<longleftrightarrow> bb_terminator bb \<noteq> None"

definition bb_instrs :: "basic_block \<Rightarrow> instr_id list" where
  "bb_instrs bb = bb_body bb @ opt_list (bb_terminator bb)"

definition bb_len :: "basic_block \<Rightarrow> nat" where
  "bb_len bb = length (bb_body bb) + (if bb_terminator bb \<noteq> None then 1 else 0)"

definition bb_is_empty :: "basic_block \<Rightarrow> bool" where
  "bb_is_empty bb \<longleftrightarrow> bb_len bb = 0"

lemma bb_len_instrs: "bb_len bb = length (bb_instrs bb)"
  by (cases "bb_terminator bb") (simp_all add: bb_len_def bb_instrs_def)

lemma bb_is_empty_iff: "bb_is_empty bb \<longleftrightarrow> bb_instrs bb = []"
  by (simp add: bb_is_empty_def bb_len_instrs)

lemma bb_instrs_append: "bb_terminator bb = None \<Longrightarrow> bb_instrs (append_instr bb i) = bb_instrs bb @ [i]"
  by (simp add: bb_instrs_def append_instr_def)

section \<open>Functions\<close>

record ir_function =
  f_name :: string
  f_ty :: type_id
  args :: "argument list"
  blocks :: "basic_block list"
  instructions :: "instruction list"
  instr_dbg_locs :: "instr_id \<rightharpoonup> nat"
  instr_metadata :: "instr_id \<rightharpoonup> (string \<times> string) list"
  value_names :: "string \<rightharpoonup> instr_id"
  arg_names :: "string \<rightharpoonup> arg_id"
  is_declaration :: bool
  f_linkage :: linkage
  strictfp :: bool
  next_name_id :: nat

definition push_arg :: "ir_function \<Rightarrow> argument \<Rightarrow> ir_function" where
  \<comment> \<open>the loop body of \<open>Function::new\<close>\<close>
  "push_arg f arg =
     (let idx = as_u32 (length (args f));
          f = (if arg_name arg \<noteq> [] then f\<lparr>arg_names := (arg_names f)(arg_name arg \<mapsto> idx)\<rparr> else f)
      in f\<lparr>args := args f @ [arg]\<rparr>)"

definition function_new :: "string \<Rightarrow> type_id \<Rightarrow> argument list \<Rightarrow> linkage \<Rightarrow> ir_function" where
  "function_new n ty as l =
     foldl push_arg
       \<lparr>f_name = n, f_ty = ty, args = [], blocks = [], instructions = [], instr_dbg_locs = Map.empty,
        instr_metadata = Map.empty, value_names = Map.empty, arg_names = Map.empty,
        is_declaration = False, f_linkage = l, strictfp = False, next_name_id = 0\<rparr> as"

definition new_declaration :: "string \<Rightarrow> type_id \<Rightarrow> argument list \<Rightarrow> linkage \<Rightarrow> ir_function" where
  "new_declaration n ty as l = (function_new n ty as l)\<lparr>is_declaration := True\<rparr>"

definition add_block :: "ir_function \<Rightarrow> basic_block \<Rightarrow> ir_function \<times> block_id" where
  "add_block f bb = (f\<lparr>blocks := blocks f @ [bb]\<rparr>, as_u32 (length (blocks f)))"

definition block :: "ir_function \<Rightarrow> block_id \<Rightarrow> basic_block rust" where
  "block f i = vec_get (blocks f) i"

definition set_block :: "ir_function \<Rightarrow> block_id \<Rightarrow> basic_block \<Rightarrow> ir_function rust" where
  \<comment> \<open>a write through \<open>block_mut\<close>\<close>
  "set_block f i bb = map_option (\<lambda>bs. f\<lparr>blocks := bs\<rparr>) (vec_set (blocks f) i bb)"

definition num_blocks :: "ir_function \<Rightarrow> nat" where
  "num_blocks f = length (blocks f)"

text \<open>Decimal printing of an unsigned number, as \<open>format!("{n}")\<close>.\<close>

fun decimal :: "nat \<Rightarrow> string" where
  "decimal n = (if n < 10 then [char_of (48 + n)] else decimal (n div 10) @ [char_of (48 + n mod 10)])"

declare decimal.simps [simp del]

definition fresh_name :: "ir_function \<Rightarrow> (ir_function \<times> string) rust" where
  "fresh_name f =
     (let n = next_name_id f in
      if n + 1 < 2 ^ 32 then Some (f\<lparr>next_name_id := n + 1\<rparr>, CHR ''v'' # decimal n) else None)"

definition alloc_instr :: "ir_function \<Rightarrow> instruction \<Rightarrow> (ir_function \<times> instr_id) rust" where
  "alloc_instr f ins =
     do { (f, ins) \<leftarrow>
            (if instr_name ins = Some []
             then do { (f, n) \<leftarrow> fresh_name f; Some (f, ins\<lparr>instr_name := Some n\<rparr>) }
             else Some (f, ins));
          let i = as_u32 (length (instructions f));
          let f = (case instr_name ins of
                     Some n \<Rightarrow> (if n \<noteq> [] then f\<lparr>value_names := (value_names f)(n \<mapsto> i)\<rparr> else f)
                   | None \<Rightarrow> f);
          Some (f\<lparr>instructions := instructions f @ [ins]\<rparr>, i) }"

definition instr :: "ir_function \<Rightarrow> instr_id \<Rightarrow> instruction rust" where
  "instr f i = vec_get (instructions f) i"

definition set_instr_kind :: "ir_function \<Rightarrow> instr_id \<Rightarrow> instr_kind \<Rightarrow> ir_function rust" where
  \<comment> \<open>\<open>func.instr_mut(i).kind = k\<close>\<close>
  "set_instr_kind f i k =
     do { ins \<leftarrow> vec_get (instructions f) i;
          Some (f\<lparr>instructions := (instructions f)[i := ins\<lparr>instr_kind := k\<rparr>]\<rparr>) }"

definition num_instrs :: "ir_function \<Rightarrow> nat" where
  "num_instrs f = length (instructions f)"

definition set_instr_dbg_loc :: "ir_function \<Rightarrow> instr_id \<Rightarrow> nat \<Rightarrow> ir_function" where
  "set_instr_dbg_loc f i loc = f\<lparr>instr_dbg_locs := (instr_dbg_locs f)(i \<mapsto> loc)\<rparr>"

definition instr_dbg_loc :: "ir_function \<Rightarrow> instr_id \<Rightarrow> nat option" where
  "instr_dbg_loc f i = instr_dbg_locs f i"

definition add_instr_metadata :: "ir_function \<Rightarrow> instr_id \<Rightarrow> string \<Rightarrow> string \<Rightarrow> ir_function" where
  "add_instr_metadata f i key value =
     f\<lparr>instr_metadata := entry_push (instr_metadata f) i (key, value)\<rparr>"

definition arg :: "ir_function \<Rightarrow> arg_id \<Rightarrow> argument rust" where
  "arg f i = vec_get (args f) i"

definition num_args :: "ir_function \<Rightarrow> nat" where
  "num_args f = length (args f)"

definition lookup_value :: "ir_function \<Rightarrow> string \<Rightarrow> value_ref option" where
  "lookup_value f n =
     (case value_names f n of
        Some i \<Rightarrow> Some (Instruction i)
      | None \<Rightarrow> (case arg_names f n of Some a \<Rightarrow> Some (Argument a) | None \<Rightarrow> None))"

primrec find_index :: "('a \<Rightarrow> bool) \<Rightarrow> 'a list \<Rightarrow> nat option" where
  \<comment> \<open>\<open>iter().enumerate().find(..)\<close>: the position of the first match\<close>
  "find_index P [] = None"
| "find_index P (x # xs) = (if P x then Some 0 else map_option Suc (find_index P xs))"

definition lookup_block :: "ir_function \<Rightarrow> string \<Rightarrow> block_id option" where
  "lookup_block f n = map_option as_u32 (find_index (\<lambda>bb. bb_name bb = n) (blocks f))"

fun type_of_value :: "ir_function \<Rightarrow> value_ref \<Rightarrow> type_id option rust" where
  "type_of_value f (Instruction i) = map_option (\<lambda>ins. Some (instr_ty ins)) (vec_get (instructions f) i)"
| "type_of_value f (Argument a) = map_option (\<lambda>x. Some (arg_ty x)) (vec_get (args f) a)"
| "type_of_value f (Constant _) = Some None"
| "type_of_value f (Global _) = Some None"

section \<open>Modules\<close>

record debug_location =
  line :: nat
  column :: nat

record ir_module =
  m_name :: string
  source_filename :: "string option"
  target_triple :: "string option"
  data_layout :: "string option"
  globals :: "global_variable list"
  m_functions :: "ir_function list"
  function_names :: "string \<rightharpoonup> function_id"
  global_names :: "string \<rightharpoonup> global_id"
  named_types :: "(string \<times> type_id) list"
  debug_locations :: "nat \<rightharpoonup> debug_location"
  metadata_nodes :: "nat \<rightharpoonup> string"
  named_metadata :: "(string \<times> string) list"

definition module_new :: "string \<Rightarrow> ir_module" where
  "module_new n =
     \<lparr>m_name = n, source_filename = None, target_triple = None, data_layout = None, globals = [],
      m_functions = [], function_names = Map.empty, global_names = Map.empty, named_types = [],
      debug_locations = Map.empty, metadata_nodes = Map.empty, named_metadata = []\<rparr>"

definition add_function :: "ir_module \<Rightarrow> ir_function \<Rightarrow> ir_module \<times> function_id" where
  "add_function m f =
     (let i = as_u32 (length (m_functions m))
      in (m\<lparr>function_names := (function_names m)(f_name f \<mapsto> i), m_functions := m_functions m @ [f]\<rparr>, i))"

definition get_function :: "ir_module \<Rightarrow> string \<Rightarrow> (function_id \<times> ir_function) option rust" where
  "get_function m n =
     (case function_names m n of
        None \<Rightarrow> Some None
      | Some i \<Rightarrow> map_option (\<lambda>f. Some (i, f)) (vec_get (m_functions m) i))"

definition get_function_id :: "ir_module \<Rightarrow> string \<Rightarrow> function_id option" where
  "get_function_id m n = function_names m n"

definition add_global :: "ir_module \<Rightarrow> global_variable \<Rightarrow> ir_module \<times> global_id" where
  "add_global m g =
     (let i = as_u32 (length (globals m))
      in (m\<lparr>global_names := (global_names m)(gv_name g \<mapsto> i), globals := globals m @ [g]\<rparr>, i))"

definition get_global :: "ir_module \<Rightarrow> string \<Rightarrow> (global_id \<times> global_variable) option rust" where
  "get_global m n =
     (case global_names m n of
        None \<Rightarrow> Some None
      | Some i \<Rightarrow> map_option (\<lambda>g. Some (i, g)) (vec_get (globals m) i))"

definition get_global_id :: "ir_module \<Rightarrow> string \<Rightarrow> global_id option" where
  "get_global_id m n = global_names m n"

definition register_named_type :: "ir_module \<Rightarrow> string \<Rightarrow> type_id \<Rightarrow> ir_module" where
  "register_named_type m n ty =
     (if \<exists>(n', _) \<in> set (named_types m). n' = n then m
      else m\<lparr>named_types := named_types m @ [(n, ty)]\<rparr>)"

definition set_debug_location :: "ir_module \<Rightarrow> nat \<Rightarrow> debug_location \<Rightarrow> ir_module" where
  "set_debug_location m i loc = m\<lparr>debug_locations := (debug_locations m)(i \<mapsto> loc)\<rparr>"

definition set_metadata_node :: "ir_module \<Rightarrow> nat \<Rightarrow> string \<Rightarrow> ir_module" where
  "set_metadata_node m i v = m\<lparr>metadata_nodes := (metadata_nodes m)(i \<mapsto> v)\<rparr>"

fun set_first :: "string \<Rightarrow> string \<Rightarrow> (string \<times> string) list \<Rightarrow> (string \<times> string) list" where
  \<comment> \<open>overwrite the first entry with the name, or push a new one\<close>
  "set_first n v [] = [(n, v)]"
| "set_first n v ((n', v') # xs) = (if n' = n then (n', v) # xs else (n', v') # set_first n v xs)"

definition set_named_metadata :: "ir_module \<Rightarrow> string \<Rightarrow> string \<Rightarrow> ir_module" where
  "set_named_metadata m n v = m\<lparr>named_metadata := set_first n v (named_metadata m)\<rparr>"

section \<open>Well-formed functions\<close>

definition wf_value_names :: "ir_function \<Rightarrow> bool" where
  \<comment> \<open>a registered name points at an instruction that carries it\<close>
  "wf_value_names f \<longleftrightarrow>
     (\<forall>n i. value_names f n = Some i \<longrightarrow>
        n \<noteq> [] \<and> i < length (instructions f) \<and> instr_name (instructions f ! i) = Some n)"

definition wf_arg_names :: "ir_function \<Rightarrow> bool" where
  "wf_arg_names f \<longleftrightarrow>
     (\<forall>n i. arg_names f n = Some i \<longrightarrow> n \<noteq> [] \<and> i < length (args f) \<and> arg_name (args f ! i) = n)"

definition terminator_kind :: "ir_function \<Rightarrow> basic_block \<Rightarrow> instr_kind option" where
  "terminator_kind f bb =
     (case bb_terminator bb of None \<Rightarrow> None | Some t \<Rightarrow> map_option instr_kind (vec_get (instructions f) t))"

definition succ_list :: "ir_function \<Rightarrow> block_id \<Rightarrow> block_id list" where
  \<comment> \<open>the control-flow successors of a block, as its terminator lists them\<close>
  "succ_list f b =
     (if b < length (blocks f)
      then (case terminator_kind f (blocks f ! b) of None \<Rightarrow> [] | Some k \<Rightarrow> successors k) else [])"

definition wf_func :: "ir_function \<Rightarrow> bool" where
  \<comment> \<open>every index a block holds is in range, and so is every branch target\<close>
  "wf_func f \<longleftrightarrow>
     length (blocks f) \<le> 2 ^ 32 \<and> length (instructions f) \<le> 2 ^ 32 \<and>
     (\<forall>bb \<in> set (blocks f). \<forall>i \<in> set (bb_instrs bb). i < length (instructions f)) \<and>
     (\<forall>b < length (blocks f). \<forall>s \<in> set (succ_list f b). s < length (blocks f))"

lemma wf_func_succ: "wf_func f \<Longrightarrow> s \<in> set (succ_list f b) \<Longrightarrow> s < length (blocks f)"
  by (cases "b < length (blocks f)") (auto simp: wf_func_def succ_list_def)

lemma wf_func_instr:
  "wf_func f \<Longrightarrow> b < length (blocks f) \<Longrightarrow> i \<in> set (bb_instrs (blocks f ! b)) \<Longrightarrow> i < length (instructions f)"
  by (auto simp: wf_func_def)

lemma wf_func_terminator:
  assumes "wf_func f" "b < length (blocks f)" "bb_terminator (blocks f ! b) = Some t"
  shows "t < length (instructions f)" and "successors (instr_kind (instructions f ! t)) = succ_list f b"
proof -
  show t: "t < length (instructions f)"
    using assms wf_func_instr [of f b t] by (auto simp: bb_instrs_def)
  show "successors (instr_kind (instructions f ! t)) = succ_list f b"
    using assms t by (simp add: succ_list_def terminator_kind_def)
qed

section \<open>Allocation and naming\<close>

lemma decimal_nonempty [simp]: "decimal n \<noteq> []"
  by (subst decimal.simps) simp

lemma char_of_digit: "a < 10 \<Longrightarrow> b < 10 \<Longrightarrow> (char_of (48 + a) :: char) = char_of (48 + b) \<longleftrightarrow> a = (b::nat)"
  by (auto dest!: arg_cong [where f = "of_char :: char \<Rightarrow> nat"])

lemma decimal_inj: "decimal m = decimal n \<Longrightarrow> m = n"
proof (induction m arbitrary: n rule: less_induct)
  case (less m)
  have one: "length (decimal k) = 1 \<longleftrightarrow> k < 10" for k by (subst decimal.simps) simp
  show ?case
  proof (cases "m < 10")
    case True
    then have "n < 10" using one less.prems by metis
    with True less.prems char_of_digit show ?thesis by (simp add: decimal.simps)
  next
    case False
    then have n: "\<not> n < 10" using one less.prems by metis
    have "decimal (m div 10) = decimal (n div 10)"
      and "(char_of (48 + m mod 10) :: char) = char_of (48 + n mod 10)"
      using less.prems False n by (simp_all add: decimal.simps [of m] decimal.simps [of n])
    then have "m div 10 = n div 10" "m mod 10 = n mod 10"
      using less.IH False char_of_digit by simp_all
    then show ?thesis by (metis div_mult_mod_eq)
  qed
qed

lemma fresh_name_SomeD:
  "fresh_name f = Some (f', n) \<Longrightarrow>
     n = CHR ''v'' # decimal (next_name_id f) \<and> f' = f\<lparr>next_name_id := next_name_id f + 1\<rparr>"
  by (auto simp: fresh_name_def Let_def split: if_splits)

lemma fresh_names_distinct:
  assumes "fresh_name f = Some (f1, n1)" "fresh_name f' = Some (f2, n2)"
    and "next_name_id f \<noteq> next_name_id f'"
  shows "n1 \<noteq> n2"
  using assms decimal_inj by (auto dest!: fresh_name_SomeD)

lemma alloc_instr_SomeD:
  assumes "alloc_instr f ins = Some (f', i)"
  shows "i = as_u32 (length (instructions f)) \<and>
     (\<exists>ins'. instructions f' = instructions f @ [ins'] \<and> instr_kind ins' = instr_kind ins \<and>
        instr_ty ins' = instr_ty ins \<and>
        instr_name ins' = (if instr_name ins = Some [] then Some (CHR ''v'' # decimal (next_name_id f))
                           else instr_name ins) \<and>
        value_names f' = (case instr_name ins' of None \<Rightarrow> value_names f
                          | Some n \<Rightarrow> (value_names f)(n \<mapsto> i))) \<and>
     blocks f' = blocks f \<and> args f' = args f \<and> arg_names f' = arg_names f \<and> strictfp f' = strictfp f"
proof (cases "instr_name ins = Some []")
  case True
  with assms obtain f1 n where fr: "fresh_name f = Some (f1, n)"
    by (auto simp: alloc_instr_def bind_eq_Some_conv)
  have n: "n = CHR ''v'' # decimal (next_name_id f)" "f1 = f\<lparr>next_name_id := next_name_id f + 1\<rparr>"
    using fresh_name_SomeD [OF fr] by auto
  have ne: "n \<noteq> []" by (simp add: n(1))
  have "f' = f1\<lparr>value_names := (value_names f1)(n \<mapsto> i),
      instructions := instructions f1 @ [ins\<lparr>instr_name := Some n\<rparr>]\<rparr>"
    and "i = as_u32 (length (instructions f))"
    using assms fr ne True n(2) by (auto simp: alloc_instr_def Let_def)
  with True n show ?thesis by simp
next
  case False
  with assms show ?thesis
    by (cases "instr_name ins") (auto simp: alloc_instr_def Let_def)
qed

lemma alloc_instr_wf_value_names:
  assumes "wf_value_names f" "length (instructions f) < 2 ^ 32" "alloc_instr f ins = Some (f', i)"
  shows "wf_value_names f'"
proof -
  from alloc_instr_SomeD [OF assms(3)] obtain ins' where
    ins': "instructions f' = instructions f @ [ins']" and i: "i = length (instructions f)"
    and nm: "instr_name ins' \<noteq> Some []"
    and vn: "value_names f' = (case instr_name ins' of None \<Rightarrow> value_names f
                               | Some n \<Rightarrow> (value_names f)(n \<mapsto> i))"
    using assms(2) by (auto split: if_splits)
  show ?thesis
    unfolding wf_value_names_def
  proof (intro allI impI)
    fix n j assume j: "value_names f' n = Some j"
    show "n \<noteq> [] \<and> j < length (instructions f') \<and> instr_name (instructions f' ! j) = Some n"
    proof (cases "value_names f n = Some j")
      case True
      with assms(1) have "n \<noteq> []" "j < length (instructions f)"
        "instr_name (instructions f ! j) = Some n" by (auto simp: wf_value_names_def)
      with ins' show ?thesis by (simp add: nth_append)
    next
      case False
      with j vn have "instr_name ins' = Some n" "j = i" by (auto split: option.splits if_splits)
      with nm ins' i show ?thesis by auto
    qed
  qed
qed

lemma alloc_instr_wf_func:
  assumes "wf_func f" "length (instructions f) < 2 ^ 32" "alloc_instr f ins = Some (f', i)"
  shows "wf_func f'"
proof -
  from alloc_instr_SomeD [OF assms(3)] obtain ins' where
    ins': "instructions f' = instructions f @ [ins']" and b: "blocks f' = blocks f" by auto
  have "succ_list f' k = succ_list f k" if "k < length (blocks f)" for k
  proof (cases "bb_terminator (blocks f ! k)")
    case (Some t)
    then show ?thesis
      using wf_func_terminator(1) [OF assms(1) that Some] ins' b
      by (simp add: succ_list_def terminator_kind_def nth_append)
  qed (use b in \<open>simp add: succ_list_def terminator_kind_def\<close>)
  with assms(1,2) ins' b show ?thesis
    unfolding wf_func_def by (auto simp: less_Suc_eq)
qed

section \<open>Lookups\<close>

lemma find_index_Some:
  "find_index P xs = Some i \<longleftrightarrow> i < length xs \<and> P (xs ! i) \<and> (\<forall>j<i. \<not> P (xs ! j))"
proof (induction xs arbitrary: i)
  case (Cons x xs)
  show ?case
    by (cases i) (auto simp: Cons.IH All_less_Suc2)
qed simp

lemma lookup_block_first:
  assumes "length (blocks f) \<le> 2 ^ 32" "lookup_block f n = Some b"
  shows "b < length (blocks f) \<and> bb_name (blocks f ! b) = n \<and> (\<forall>j<b. bb_name (blocks f ! j) \<noteq> n)"
  using assms by (auto simp: lookup_block_def find_index_Some)

lemma push_arg_wf: "wf_arg_names f \<Longrightarrow> length (args f) < 2 ^ 32 \<Longrightarrow> wf_arg_names (push_arg f a)"
  by (fastforce simp: wf_arg_names_def push_arg_def Let_def nth_append less_Suc_eq)

lemma foldl_push_arg:
  "wf_arg_names f \<Longrightarrow> length (args f) + length as \<le> 2 ^ 32 \<Longrightarrow>
     wf_arg_names (foldl push_arg f as) \<and> args (foldl push_arg f as) = args f @ as"
proof (induction as arbitrary: f)
  case (Cons a as)
  have "wf_arg_names (push_arg f a)" by (rule push_arg_wf) (use Cons.prems in auto)
  moreover have "args (push_arg f a) = args f @ [a]" by (simp add: push_arg_def Let_def)
  ultimately show ?case using Cons by simp
qed simp

lemma function_new_wf:
  assumes "length as \<le> 2 ^ 32"
  shows "wf_arg_names (function_new n ty as l)" and "args (function_new n ty as l) = as"
  unfolding function_new_def
  by (insert foldl_push_arg [of "\<lparr>f_name = n, f_ty = ty, args = [], blocks = [], instructions = [],
        instr_dbg_locs = Map.empty, instr_metadata = Map.empty, value_names = Map.empty,
        arg_names = Map.empty, is_declaration = False, f_linkage = l, strictfp = False,
        next_name_id = 0\<rparr>" as]) (use assms in \<open>auto simp: wf_arg_names_def\<close>)

section \<open>Module tables\<close>

definition wf_module_names :: "ir_module \<Rightarrow> bool" where
  "wf_module_names m \<longleftrightarrow>
     (\<forall>n i. function_names m n = Some i \<longrightarrow>
        i < length (m_functions m) \<and> f_name (m_functions m ! i) = n) \<and>
     (\<forall>n i. global_names m n = Some i \<longrightarrow> i < length (globals m) \<and> gv_name (globals m ! i) = n) \<and>
     distinct (map fst (named_types m)) \<and> distinct (map fst (named_metadata m))"

lemma module_new_wf: "wf_module_names (module_new n)"
  by (simp add: wf_module_names_def module_new_def)

lemma add_function_wf:
  "wf_module_names m \<Longrightarrow> length (m_functions m) < 2 ^ 32 \<Longrightarrow> wf_module_names (fst (add_function m f))"
  by (auto simp: wf_module_names_def add_function_def Let_def nth_append less_Suc_eq)

lemma add_global_wf:
  "wf_module_names m \<Longrightarrow> length (globals m) < 2 ^ 32 \<Longrightarrow> wf_module_names (fst (add_global m g))"
  by (auto simp: wf_module_names_def add_global_def Let_def nth_append less_Suc_eq)

lemma register_named_type_wf: "wf_module_names m \<Longrightarrow> wf_module_names (register_named_type m n t)"
  by (force simp: wf_module_names_def register_named_type_def)

lemma map_of_set_first: "map_of (set_first n v xs) = (map_of xs)(n \<mapsto> v)"
  by (induction n v xs rule: set_first.induct) auto

lemma fst_set_first: "fst ` set (set_first n v xs) = insert n (fst ` set xs)"
  by (induction n v xs rule: set_first.induct) auto

lemma distinct_set_first: "distinct (map fst xs) \<Longrightarrow> distinct (map fst (set_first n v xs))"
  by (induction n v xs rule: set_first.induct) (auto simp: fst_set_first [unfolded image_def] fst_set_first)

lemma set_named_metadata_wf: "wf_module_names m \<Longrightarrow> wf_module_names (set_named_metadata m n v)"
  by (simp add: wf_module_names_def set_named_metadata_def distinct_set_first)

lemma get_function_added:
  assumes "length (m_functions m) < 2 ^ 32" "add_function m f = (m', i)"
  shows "get_function m' (f_name f) = Some (Some (i, f))"
  using assms by (auto simp: add_function_def get_function_def Let_def)

end
