(* ===== verification/Const_Fold.thy ===== *)
theory Const_Fold
  imports IR_Context IR_Instruction "HOL-Library.Signed_Division"
begin

unbundle bit_operations_syntax

text \<open>
  Constant folding (\<open>llvm-transforms/src/constant_fold.rs\<close>). Folded values are \<open>u64\<close> bit
  patterns (\<open>64 word\<close>). \<open>None\<close> at the outer level is a panic of the checked build (a failed
  \<open>debug_assert\<close>, a shift amount out of range); \<open>Some (None, ctx)\<close> is the code's \<open>None\<close>, "not
  foldable"; \<open>Some (Some c, ctx')\<close> the index of the folded constant in the extended pool.

  The arithmetic of the processor on floating-point numbers is a parameter (\<open>f64_ops\<close>): IEEE
  results are not fixed by the source, and NaN payloads are not fixed by Rust. What the source
  does around it (which constants it accepts, the flag tests, the classification of results) is
  modelled on the bit patterns.
\<close>

section \<open>Integer helpers\<close>

definition sign_extend :: "u64 \<Rightarrow> nat \<Rightarrow> u64 rust" where
  \<comment> \<open>the result is an \<open>i64\<close>, read with \<open>sint\<close>\<close>
  "sign_extend val bits =
     (if 0 < bits \<and> bits \<le> 64
      then (let shift = 64 - bits in Some (signed_drop_bit shift (push_bit shift val))) else None)"

definition trunc_bits :: "u64 \<Rightarrow> nat \<Rightarrow> u64" where
  "trunc_bits val bits = (if bits \<ge> 64 then val else val AND (push_bit bits 1 - 1))"

definition int_bit_width :: "ir_context \<Rightarrow> type_id \<Rightarrow> nat option rust" where
  "int_bit_width ctx ty =
     do { td \<leftarrow> get_type ctx ty; Some (case td of TyInteger bits \<Rightarrow> Some bits | _ \<Rightarrow> None) }"

definition shift_mask :: "ir_context \<Rightarrow> type_id \<Rightarrow> u64 option rust" where
  "shift_mask ctx ty =
     do { td \<leftarrow> get_type ctx ty;
          Some (case td of TyInteger bits \<Rightarrow> Some (of_nat (bits - 1)) | _ \<Rightarrow> None) }"

definition shl_u64 :: "u64 \<Rightarrow> u64 \<Rightarrow> u64 rust" where
  \<comment> \<open>\<open>l << r\<close> in the checked build: panics when the amount is not below the width\<close>
  "shl_u64 l r = (if unat r < 64 then Some (push_bit (unat r) l) else None)"

definition lshr_u64 :: "u64 \<Rightarrow> u64 \<Rightarrow> u64 rust" where
  "lshr_u64 l r = (if unat r < 64 then Some (drop_bit (unat r) l) else None)"

definition ashr_i64 :: "u64 \<Rightarrow> u64 \<Rightarrow> u64 rust" where
  \<comment> \<open>\<open>sl >> (r as u32)\<close> on an \<open>i64\<close>\<close>
  "ashr_i64 l r =
     (let amount = unat r mod 2 ^ 32
      in if amount < 64 then Some (signed_drop_bit amount l) else None)"

definition i64_wrapping_div :: "u64 \<Rightarrow> u64 \<Rightarrow> u64" where
  "i64_wrapping_div l r = word_of_int (sint l sdiv sint r)"

definition i64_wrapping_rem :: "u64 \<Rightarrow> u64 \<Rightarrow> u64" where
  "i64_wrapping_rem l r = word_of_int (sint l smod sint r)"

definition type_min :: "nat \<Rightarrow> int" where
  "type_min bits = (if bits \<ge> 64 then - (2 ^ 63) else - (2 ^ (bits - 1)))"

fun icmp_eval :: "int_predicate \<Rightarrow> u64 \<Rightarrow> u64 \<Rightarrow> nat \<Rightarrow> bool rust" where
  "icmp_eval I_Eq l r bits = Some (l = r)"
| "icmp_eval I_Ne l r bits = Some (l \<noteq> r)"
| "icmp_eval I_Ugt l r bits = Some (l > r)"
| "icmp_eval I_Uge l r bits = Some (l \<ge> r)"
| "icmp_eval I_Ult l r bits = Some (l < r)"
| "icmp_eval I_Ule l r bits = Some (l \<le> r)"
| "icmp_eval I_Sgt l r bits =
     do { sl \<leftarrow> sign_extend l bits; sr \<leftarrow> sign_extend r bits; Some (sint sl > sint sr) }"
| "icmp_eval I_Sge l r bits =
     do { sl \<leftarrow> sign_extend l bits; sr \<leftarrow> sign_extend r bits; Some (sint sl \<ge> sint sr) }"
| "icmp_eval I_Slt l r bits =
     do { sl \<leftarrow> sign_extend l bits; sr \<leftarrow> sign_extend r bits; Some (sint sl < sint sr) }"
| "icmp_eval I_Sle l r bits =
     do { sl \<leftarrow> sign_extend l bits; sr \<leftarrow> sign_extend r bits; Some (sint sl \<le> sint sr) }"

definition get_const_int :: "ir_context \<Rightarrow> value_ref \<Rightarrow> (type_id \<times> u64) option rust" where
  \<comment> \<open>the helper \<open>const_int\<close> of this file\<close>
  "get_const_int ctx v =
     (case v of
        Constant c \<Rightarrow>
          do { d \<leftarrow> get_const ctx c; Some (case d of CInt ty val \<Rightarrow> Some (ty, val) | _ \<Rightarrow> None) }
      | _ \<Rightarrow> Some None)"

section \<open>Folding integer instructions\<close>

type_synonym fold_result = "(const_id option \<times> ir_context) rust"

definition no_fold :: "ir_context \<Rightarrow> fold_result" where
  "no_fold ctx = Some (None, ctx)"

definition folded :: "ir_context \<Rightarrow> type_id \<Rightarrow> u64 \<Rightarrow> fold_result" where
  \<comment> \<open>\<open>Some(ctx.const_int(ty, val))\<close>\<close>
  "folded ctx ty val = (let (ctx', c) = const_int ctx ty val in Some (Some c, ctx'))"

definition with_ints ::
  "ir_context \<Rightarrow> value_ref \<Rightarrow> value_ref \<Rightarrow> (type_id \<Rightarrow> u64 \<Rightarrow> u64 \<Rightarrow> fold_result) \<Rightarrow> fold_result" where
  \<comment> \<open>\<open>let (ty, l) = const_int(ctx, lhs)?; let (_, r) = const_int(ctx, rhs)?; ..\<close>\<close>
  "with_ints ctx lhs rhs body =
     do { ol \<leftarrow> get_const_int ctx lhs;
          (case ol of None \<Rightarrow> no_fold ctx
           | Some (ty, l) \<Rightarrow>
               do { orr \<leftarrow> get_const_int ctx rhs;
                    (case orr of None \<Rightarrow> no_fold ctx | Some (_, r) \<Rightarrow> body ty l r) }) }"

definition with_width :: "ir_context \<Rightarrow> type_id \<Rightarrow> (nat \<Rightarrow> fold_result) \<Rightarrow> fold_result" where
  \<comment> \<open>\<open>let bits = int_bit_width(ctx, ty)?; ..\<close>\<close>
  "with_width ctx ty body =
     do { ob \<leftarrow> int_bit_width ctx ty; (case ob of None \<Rightarrow> no_fold ctx | Some bits \<Rightarrow> body bits) }"

definition with_mask :: "ir_context \<Rightarrow> type_id \<Rightarrow> (u64 \<Rightarrow> fold_result) \<Rightarrow> fold_result" where
  \<comment> \<open>\<open>let mask = shift_mask(ctx, ty)?; ..\<close>\<close>
  "with_mask ctx ty body =
     do { om \<leftarrow> shift_mask ctx ty; (case om of None \<Rightarrow> no_fold ctx | Some m \<Rightarrow> body m) }"

fun try_fold :: "ir_context \<Rightarrow> instr_kind \<Rightarrow> fold_result" where
  "try_fold ctx (Add _ lhs rhs) = with_ints ctx lhs rhs (\<lambda>ty l r. folded ctx ty (l + r))"
| "try_fold ctx (Sub _ lhs rhs) = with_ints ctx lhs rhs (\<lambda>ty l r. folded ctx ty (l - r))"
| "try_fold ctx (Mul _ lhs rhs) = with_ints ctx lhs rhs (\<lambda>ty l r. folded ctx ty (l * r))"
| "try_fold ctx (UDiv _ lhs rhs) =
     with_ints ctx lhs rhs (\<lambda>ty l r. if r = 0 then no_fold ctx else folded ctx ty (l div r))"
| "try_fold ctx (SDiv _ lhs rhs) =
     with_ints ctx lhs rhs (\<lambda>ty l r. with_width ctx ty (\<lambda>bits.
       do { sl \<leftarrow> sign_extend l bits;
            sr \<leftarrow> sign_extend r bits;
            if sint sr = 0 then no_fold ctx
            else if sint sl = type_min bits \<and> sint sr = -1 then no_fold ctx
            else folded ctx ty (trunc_bits (i64_wrapping_div sl sr) bits) }))"
| "try_fold ctx (URem lhs rhs) =
     with_ints ctx lhs rhs (\<lambda>ty l r. if r = 0 then no_fold ctx else folded ctx ty (l mod r))"
| "try_fold ctx (SRem lhs rhs) =
     with_ints ctx lhs rhs (\<lambda>ty l r. with_width ctx ty (\<lambda>bits.
       do { sl \<leftarrow> sign_extend l bits;
            sr \<leftarrow> sign_extend r bits;
            if sint sr = 0 then no_fold ctx
            else folded ctx ty (trunc_bits (i64_wrapping_rem sl sr) bits) }))"
| "try_fold ctx (And lhs rhs) = with_ints ctx lhs rhs (\<lambda>ty l r. folded ctx ty (l AND r))"
| "try_fold ctx (Or lhs rhs) = with_ints ctx lhs rhs (\<lambda>ty l r. folded ctx ty (l OR r))"
| "try_fold ctx (Xor lhs rhs) = with_ints ctx lhs rhs (\<lambda>ty l r. folded ctx ty (l XOR r))"
| "try_fold ctx (Shl _ lhs rhs) =
     with_ints ctx lhs rhs (\<lambda>ty l r. with_mask ctx ty (\<lambda>m.
       do { v \<leftarrow> shl_u64 l (r AND m); folded ctx ty v }))"
| "try_fold ctx (LShr _ lhs rhs) =
     with_ints ctx lhs rhs (\<lambda>ty l r. with_mask ctx ty (\<lambda>m.
       do { v \<leftarrow> lshr_u64 l (r AND m); folded ctx ty v }))"
| "try_fold ctx (AShr _ lhs rhs) =
     with_ints ctx lhs rhs (\<lambda>ty l r. with_mask ctx ty (\<lambda>m. with_width ctx ty (\<lambda>bits.
       do { sl \<leftarrow> sign_extend l bits;
            v \<leftarrow> ashr_i64 sl (r AND m);
            folded ctx ty (trunc_bits v bits) })))"
| "try_fold ctx (ICmp pred lhs rhs) =
     with_ints ctx lhs rhs (\<lambda>ty l r. with_width ctx ty (\<lambda>bits.
       do { b \<leftarrow> icmp_eval pred l r bits; folded ctx (i1_ty ctx) (of_bool b) }))"
| "try_fold ctx (Select cond then_val else_val) =
     do { oc \<leftarrow> get_const_int ctx cond;
          (case oc of
             None \<Rightarrow> no_fold ctx
           | Some (_, c) \<Rightarrow>
               (case (if c \<noteq> 0 then then_val else else_val) of
                  Constant cid \<Rightarrow> Some (Some cid, ctx)
                | _ \<Rightarrow> no_fold ctx)) }"
| "try_fold ctx _ = no_fold ctx"

section \<open>Folding floating-point instructions\<close>

record f64_ops =
  f64_add :: "u64 \<Rightarrow> u64 \<Rightarrow> u64"
  f64_sub :: "u64 \<Rightarrow> u64 \<Rightarrow> u64"
  f64_mul :: "u64 \<Rightarrow> u64 \<Rightarrow> u64"
  f64_div :: "u64 \<Rightarrow> u64 \<Rightarrow> u64"
  f64_rem :: "u64 \<Rightarrow> u64 \<Rightarrow> u64"
  f32_to_f64 :: "32 word \<Rightarrow> u64"
  f64_to_f32 :: "u64 \<Rightarrow> 32 word"

definition f64_is_nan :: "u64 \<Rightarrow> bool" where
  "f64_is_nan b \<longleftrightarrow> take_bit 11 (drop_bit 52 b) = mask 11 \<and> take_bit 52 b \<noteq> 0"

definition f64_is_infinite :: "u64 \<Rightarrow> bool" where
  "f64_is_infinite b \<longleftrightarrow> take_bit 11 (drop_bit 52 b) = mask 11 \<and> take_bit 52 b = 0"

definition f64_is_zero :: "u64 \<Rightarrow> bool" where
  \<comment> \<open>\<open>v == 0.0\<close>, true of both zeros\<close>
  "f64_is_zero b \<longleftrightarrow> take_bit 63 b = 0"

definition f64_neg :: "u64 \<Rightarrow> u64" where
  "f64_neg b = flip_bit 63 b"

definition f32_is_nan :: "32 word \<Rightarrow> bool" where
  "f32_is_nan b \<longleftrightarrow> take_bit 8 (drop_bit 23 b) = mask 8 \<and> take_bit 23 b \<noteq> 0"

definition f32_is_infinite :: "32 word \<Rightarrow> bool" where
  "f32_is_infinite b \<longleftrightarrow> take_bit 8 (drop_bit 23 b) = mask 8 \<and> take_bit 23 b = 0"

definition get_const_float :: "f64_ops \<Rightarrow> ir_context \<Rightarrow> value_ref \<Rightarrow> (type_id \<times> u64) option rust" where
  \<comment> \<open>the helper \<open>const_float\<close> of this file\<close>
  "get_const_float fp ctx v =
     (case v of
        Constant c \<Rightarrow>
          do { d \<leftarrow> get_const ctx c;
               (case d of
                  CFloat ty bits \<Rightarrow>
                    do { td \<leftarrow> get_type ctx ty;
                         Some (case td of
                                 TyFloat Single \<Rightarrow> Some (ty, f32_to_f64 fp (ucast bits))
                               | TyFloat Double \<Rightarrow> Some (ty, bits)
                               | _ \<Rightarrow> None) }
                | _ \<Rightarrow> Some None) }
      | _ \<Rightarrow> Some None)"

definition const_float_val :: "f64_ops \<Rightarrow> ir_context \<Rightarrow> type_id \<Rightarrow> u64 \<Rightarrow> (ir_context \<times> const_id) rust" where
  "const_float_val fp ctx ty val =
     do { td \<leftarrow> get_type ctx ty;
          let bits = (case td of TyFloat Single \<Rightarrow> ucast (f64_to_f32 fp val) | _ \<Rightarrow> val);
          Some (const_float ctx ty bits) }"

definition is_fp_zero_vref :: "ir_context \<Rightarrow> value_ref \<Rightarrow> bool rust" where
  "is_fp_zero_vref ctx v =
     (case v of
        Constant c \<Rightarrow>
          do { d \<leftarrow> get_const ctx c;
               Some (case d of CFloat _ bits \<Rightarrow> f64_is_zero bits | CZeroInitializer _ \<Rightarrow> True | _ \<Rightarrow> False) }
      | _ \<Rightarrow> Some False)"

definition fp_type_of :: "ir_context \<Rightarrow> value_ref \<Rightarrow> type_id option rust" where
  "fp_type_of ctx v =
     (case v of
        Constant c \<Rightarrow>
          do { d \<leftarrow> get_const ctx c; Some (case d of CFloat ty _ \<Rightarrow> Some ty | _ \<Rightarrow> None) }
      | _ \<Rightarrow> Some None)"

definition with_floats ::
  "f64_ops \<Rightarrow> ir_context \<Rightarrow> value_ref \<Rightarrow> value_ref \<Rightarrow> (type_id \<Rightarrow> u64 \<Rightarrow> u64 \<Rightarrow> fold_result) \<Rightarrow> fold_result" where
  "with_floats fp ctx lhs rhs body =
     do { ol \<leftarrow> get_const_float fp ctx lhs;
          (case ol of None \<Rightarrow> no_fold ctx
           | Some (ty, l) \<Rightarrow>
               do { orr \<leftarrow> get_const_float fp ctx rhs;
                    (case orr of None \<Rightarrow> no_fold ctx | Some (_, r) \<Rightarrow> body ty l r) }) }"

definition folded_fp :: "f64_ops \<Rightarrow> ir_context \<Rightarrow> type_id \<Rightarrow> u64 \<Rightarrow> fold_result" where
  \<comment> \<open>\<open>Some(const_float_val(ctx, ty, result))\<close>\<close>
  "folded_fp fp ctx ty val = do { (ctx', c) \<leftarrow> const_float_val fp ctx ty val; Some (Some c, ctx') }"

definition fp_guarded :: "f64_ops \<Rightarrow> ir_context \<Rightarrow> fast_math_flags \<Rightarrow> type_id \<Rightarrow> u64 \<Rightarrow> fold_result" where
  \<comment> \<open>the two flag tests that precede storing a result\<close>
  "fp_guarded fp ctx fl ty result =
     (if (nnan fl \<or> fast fl) \<and> f64_is_nan result then no_fold ctx
      else if (ninf fl \<or> fast fl) \<and> f64_is_infinite result then no_fold ctx
      else folded_fp fp ctx ty result)"

definition fmul_by_zero :: "ir_context \<Rightarrow> value_ref \<Rightarrow> value_ref \<Rightarrow> fold_result" where
  \<comment> \<open>if \<open>zero\<close> is a constant zero and \<open>other\<close> a float constant, fold to \<open>+0.0\<close>\<close>
  "fmul_by_zero ctx zero other =
     do { z \<leftarrow> is_fp_zero_vref ctx zero;
          if z
          then do { ot \<leftarrow> fp_type_of ctx other;
                    (case ot of
                       Some ty \<Rightarrow> (let (ctx', c) = const_float ctx ty 0 in Some (Some c, ctx'))
                     | None \<Rightarrow> no_fold ctx) }
          else no_fold ctx }"

fun try_fold_fp :: "f64_ops \<Rightarrow> ir_context \<Rightarrow> instr_kind \<Rightarrow> fold_result" where
  "try_fold_fp fp ctx (FAdd fl lhs rhs) =
     with_floats fp ctx lhs rhs (\<lambda>ty l r. fp_guarded fp ctx fl ty (f64_add fp l r))"
| "try_fold_fp fp ctx (FSub fl lhs rhs) =
     with_floats fp ctx lhs rhs (\<lambda>ty l r. fp_guarded fp ctx fl ty (f64_sub fp l r))"
| "try_fold_fp fp ctx (FMul fl lhs rhs) =
     do { (early, ctx') \<leftarrow>
            (if (nnan fl \<and> ninf fl) \<or> fast fl
             then do { (o1, ctx1) \<leftarrow> fmul_by_zero ctx rhs lhs;
                       (case o1 of Some c \<Rightarrow> Some (Some c, ctx1) | None \<Rightarrow> fmul_by_zero ctx lhs rhs) }
             else no_fold ctx);
          (case early of
             Some c \<Rightarrow> Some (Some c, ctx')
           | None \<Rightarrow>
               with_floats fp ctx lhs rhs (\<lambda>ty l r. fp_guarded fp ctx fl ty (f64_mul fp l r))) }"
| "try_fold_fp fp ctx (FDiv fl lhs rhs) =
     with_floats fp ctx lhs rhs (\<lambda>ty l r.
       if f64_is_zero r then no_fold ctx else fp_guarded fp ctx fl ty (f64_div fp l r))"
| "try_fold_fp fp ctx (FRem fl lhs rhs) =
     with_floats fp ctx lhs rhs (\<lambda>ty l r.
       if f64_is_zero r then no_fold ctx
       else if (nnan fl \<or> fast fl) \<and> f64_is_nan (f64_rem fp l r) then no_fold ctx
       else folded_fp fp ctx ty (f64_rem fp l r))"
| "try_fold_fp fp ctx (FNeg _ operand) =
     do { ov \<leftarrow> get_const_float fp ctx operand;
          (case ov of None \<Rightarrow> no_fold ctx | Some (ty, v) \<Rightarrow> folded_fp fp ctx ty (f64_neg v)) }"
| "try_fold_fp fp ctx _ = no_fold ctx"

end
