(* ===== verification/Const_Fold_Correct.thy ===== *)
theory Const_Fold_Correct
  imports Const_Fold
begin

unbundle bit_operations_syntax

text \<open>
  Correctness of integer constant folding: a reference semantics of LLVM's \<open>iN\<close> operations, the
  bit-level facts about the helpers of \<open>constant_fold.rs\<close>, and the theorem that a fold computes
  the reference value (up to the bits above the width, which the code leaves in place for
  additions, subtractions, multiplications and left shifts).
\<close>

section \<open>Reference semantics of the integer operations\<close>

text \<open>
  LLVM's \<open>iN\<close> operations on unsigned representatives: arithmetic modulo \<open>2 ^ N\<close>, signed
  operations on the two's-complement reading, \<open>None\<close> where the result is undefined or poison
  (division by zero, signed overflow of a division, a shift amount of at least \<open>N\<close>).
\<close>

definition signed_of :: "nat \<Rightarrow> int \<Rightarrow> int" where
  "signed_of N a = signed_take_bit (N - 1) a"

fun ref_icmp :: "int_predicate \<Rightarrow> nat \<Rightarrow> int \<Rightarrow> int \<Rightarrow> bool" where
  "ref_icmp I_Eq N a b = (a = b)"
| "ref_icmp I_Ne N a b = (a \<noteq> b)"
| "ref_icmp I_Ugt N a b = (a > b)"
| "ref_icmp I_Uge N a b = (a \<ge> b)"
| "ref_icmp I_Ult N a b = (a < b)"
| "ref_icmp I_Ule N a b = (a \<le> b)"
| "ref_icmp I_Sgt N a b = (signed_of N a > signed_of N b)"
| "ref_icmp I_Sge N a b = (signed_of N a \<ge> signed_of N b)"
| "ref_icmp I_Slt N a b = (signed_of N a < signed_of N b)"
| "ref_icmp I_Sle N a b = (signed_of N a \<le> signed_of N b)"

definition ref_binop :: "nat \<Rightarrow> instr_kind \<Rightarrow> int \<Rightarrow> int \<Rightarrow> int option" where
  "ref_binop N k a b =
     (case k of
        Add _ _ _ \<Rightarrow> Some (take_bit N (a + b))
      | Sub _ _ _ \<Rightarrow> Some (take_bit N (a - b))
      | Mul _ _ _ \<Rightarrow> Some (take_bit N (a * b))
      | UDiv _ _ _ \<Rightarrow> (if b = 0 then None else Some (a div b))
      | SDiv _ _ _ \<Rightarrow>
          (if b = 0 \<or> (signed_of N a = - (2 ^ (N - 1)) \<and> signed_of N b = -1) then None
           else Some (take_bit N (signed_of N a sdiv signed_of N b)))
      | URem _ _ \<Rightarrow> (if b = 0 then None else Some (a mod b))
      | SRem _ _ \<Rightarrow>
          (if b = 0 \<or> (signed_of N a = - (2 ^ (N - 1)) \<and> signed_of N b = -1) then None
           else Some (take_bit N (signed_of N a smod signed_of N b)))
      | And _ _ \<Rightarrow> Some (a AND b)
      | Or _ _ \<Rightarrow> Some (a OR b)
      | Xor _ _ \<Rightarrow> Some (a XOR b)
      | Shl _ _ _ \<Rightarrow> (if b < int N then Some (take_bit N (a * 2 ^ nat b)) else None)
      | LShr _ _ _ \<Rightarrow> (if b < int N then Some (a div 2 ^ nat b) else None)
      | AShr _ _ _ \<Rightarrow> (if b < int N then Some (take_bit N (signed_of N a div 2 ^ nat b)) else None)
      | ICmp pred _ _ \<Rightarrow> Some (of_bool (ref_icmp pred N a b))
      | _ \<Rightarrow> None)"

fun is_shift :: "instr_kind \<Rightarrow> bool" where
  "is_shift (Shl _ _ _) = True"
| "is_shift (LShr _ _ _) = True"
| "is_shift (AShr _ _ _) = True"
| "is_shift _ = False"

fun wraps :: "instr_kind \<Rightarrow> bool" where
  \<comment> \<open>the operations whose folded value the code does not reduce to the width\<close>
  "wraps (Add _ _ _) = True"
| "wraps (Sub _ _ _) = True"
| "wraps (Mul _ _ _) = True"
| "wraps (Shl _ _ _) = True"
| "wraps _ = False"

definition canonical :: "nat \<Rightarrow> u64 \<Rightarrow> bool" where
  "canonical N v \<longleftrightarrow> uint v < 2 ^ N"

section \<open>The helpers compute what their names say\<close>

lemma uint_lt_64 [simp]: "uint (v :: u64) < 18446744073709551616"
  using uint_bounded [of v] by simp

lemma take_bit_uint_64: "64 \<le> N \<Longrightarrow> take_bit N (uint (v :: u64)) = uint v"
proof -
  assume "64 \<le> N"
  then have "(2 :: int) ^ 64 \<le> 2 ^ N" by (rule power_increasing) simp
  moreover have "uint v < 2 ^ 64" using uint_lt_64 [of v] by simp
  ultimately have "uint v < 2 ^ N" by (rule order_less_le_trans [rotated])
  then show ?thesis by (rule take_bit_int_eq_self [OF uint_ge_0])
qed

lemma uint_trunc_bits: "uint (trunc_bits v N) = take_bit N (uint v)"
proof (cases "64 \<le> N")
  case True
  then show ?thesis by (simp add: trunc_bits_def take_bit_uint_64)
next
  case False
  then have "trunc_bits v N = v AND mask N"
    by (simp add: trunc_bits_def mask_eq_exp_minus_1)
  then show ?thesis by (simp add: take_bit_eq_mask [symmetric] unsigned_take_bit_eq)
qed

lemma sint_sign_extend_aux:
  assumes "0 < N" "N \<le> 64"
  shows "sint (signed_drop_bit (64 - N) (push_bit (64 - N) v) :: u64) = signed_of N (uint v)"
proof (rule bit_eqI)
  fix n
  show "bit (sint (signed_drop_bit (64 - N) (push_bit (64 - N) v) :: u64)) n = bit (signed_of N (uint v)) n"
  proof (cases "N = 64")
    case True
    then show ?thesis by (auto simp: bit_simps signed_of_def min_def)
  next
    case False
    with assms show ?thesis
      by (cases "n = N - 1") (auto simp: bit_simps signed_of_def min_def)
  qed
qed

lemma sign_extend_Some:
  assumes "0 < N" "N \<le> 64"
  obtains w where "sign_extend v N = Some w" "sint w = signed_of N (uint v)"
  using assms sint_sign_extend_aux [OF assms] by (simp add: sign_extend_def Let_def)

lemma take_bit_take_bit_64: "N \<le> 64 \<Longrightarrow> take_bit N (take_bit 64 (x :: int)) = take_bit N x"
  by (simp add: min_absorb1)

lemma take_bit_uint_arith:
  fixes a b :: u64
  assumes "N \<le> 64"
  shows "take_bit N (uint (a + b)) = take_bit N (uint a + uint b)"
    and "take_bit N (uint (a - b)) = take_bit N (uint a - uint b)"
    and "take_bit N (uint (a * b)) = take_bit N (uint a * uint b)"
  using assms by (simp_all add: uint_word_arith_bintrs take_bit_take_bit_64)

lemma take_bit_uint_sint: "N \<le> 64 \<Longrightarrow> take_bit N (uint (w :: u64)) = take_bit N (sint w)"
proof -
  assume N: "N \<le> 64"
  have "uint w = take_bit 64 (sint w)" by (simp add: uint_sint)
  then show ?thesis using N by (simp add: take_bit_take_bit_64)
qed

lemma take_bit_trunc: "N \<le> 64 \<Longrightarrow> take_bit N (uint (trunc_bits w N)) = take_bit N (sint w)"
  by (simp add: uint_trunc_bits take_bit_uint_sint)

lemma sint_word_of_int_bits: "N \<le> 64 \<Longrightarrow> take_bit N (uint (word_of_int x :: u64)) = take_bit N x"
  by (simp add: uint_word_of_int_eq take_bit_take_bit_64)

lemma canonical_take_bit: "canonical N v \<Longrightarrow> take_bit N (uint v) = uint v"
  by (simp add: canonical_def take_bit_int_eq_self)

lemma signed_of_zero: "0 < N \<Longrightarrow> canonical N b \<Longrightarrow> signed_of N (uint b) = 0 \<longleftrightarrow> uint b = 0"
proof -
  assume N: "0 < N" and b: "canonical N b"
  have "take_bit N (signed_of N (uint b)) = take_bit N (uint b)"
    using N by (simp add: signed_of_def take_bit_signed_take_bit)
  then show ?thesis using canonical_take_bit [OF b] by (auto simp: signed_of_def)
qed

text \<open>On a width that is a power of two, masking an in-range shift amount keeps it.\<close>

lemma shift_amount_mask:
  fixes b :: u64
  assumes "N = 2 ^ j" "N \<le> 64" "uint b < int N"
  shows "b AND of_nat (N - 1) = b"
proof -
  have "(of_nat (N - 1) :: u64) = mask j"
    using assms(1) by (simp add: mask_eq_exp_minus_1 of_nat_diff)
  moreover have "take_bit j b = b"
    using assms(1,3) by (simp add: word_uint_eq_iff unsigned_take_bit_eq take_bit_int_eq_self)
  ultimately show ?thesis by (simp add: take_bit_eq_mask [symmetric])
qed

section \<open>Folding stores the reference value\<close>

definition folds_to :: "fold_result \<Rightarrow> type_id \<Rightarrow> u64 \<Rightarrow> bool" where
  \<comment> \<open>the fold succeeds and its constant is \<open>v\<close> of type \<open>ty\<close>, in a well-formed context\<close>
  "folds_to r ty v \<longleftrightarrow>
     (\<exists>c ctx'. r = Some (Some c, ctx') \<and> wf_context ctx' \<and> get_const ctx' c = Some (CInt ty v))"

lemma folded_folds_to:
  assumes "wf_context ctx" "length (constants ctx) < 2 ^ 32"
  shows "folds_to (folded ctx ty v) ty v"
proof -
  obtain ctx' c where ic: "intern_key ctx (KInt ty v) = (ctx', c)" by fastforce
  have "wf_context ctx'" by (rule const_pool.intern_invar [OF assms(1) TrueI assms(2) ic])
  moreover have "get_const ctx' c = Some (CInt ty v)"
    using const_pool.intern_fetch_new [OF assms(1) TrueI assms(2) ic] by simp
  ultimately show ?thesis
    by (simp add: folds_to_def folded_def const_makers_intern_key ic)
qed

fun binop_args :: "instr_kind \<Rightarrow> (value_ref \<times> value_ref) option" where
  \<comment> \<open>the operands of the two-operand integer instructions\<close>
  "binop_args (Add _ l r) = Some (l, r)"
| "binop_args (Sub _ l r) = Some (l, r)"
| "binop_args (Mul _ l r) = Some (l, r)"
| "binop_args (UDiv _ l r) = Some (l, r)"
| "binop_args (SDiv _ l r) = Some (l, r)"
| "binop_args (URem l r) = Some (l, r)"
| "binop_args (SRem l r) = Some (l, r)"
| "binop_args (And l r) = Some (l, r)"
| "binop_args (Or l r) = Some (l, r)"
| "binop_args (Xor l r) = Some (l, r)"
| "binop_args (Shl _ l r) = Some (l, r)"
| "binop_args (LShr _ l r) = Some (l, r)"
| "binop_args (AShr _ l r) = Some (l, r)"
| "binop_args (ICmp _ l r) = Some (l, r)"
| "binop_args _ = None"

definition fold_type :: "ir_context \<Rightarrow> instr_kind \<Rightarrow> type_id \<Rightarrow> type_id" where
  "fold_type ctx k ty = (case k of ICmp _ _ _ \<Rightarrow> i1_ty ctx | _ \<Rightarrow> ty)"

definition folds_ref :: "ir_context \<Rightarrow> instr_kind \<Rightarrow> type_id \<Rightarrow> nat \<Rightarrow> int \<Rightarrow> bool" where
  \<comment> \<open>the fold of \<open>k\<close> stores a value that is \<open>c\<close> on its low \<open>N\<close> bits, exactly \<open>c\<close> where the
    code reduces to the width\<close>
  "folds_ref ctx k ty N c \<longleftrightarrow>
     (\<exists>v. folds_to (try_fold ctx k) (fold_type ctx k ty) v \<and>
          take_bit N (uint v) = c \<and> (\<not> wraps k \<longrightarrow> uint v = c))"

lemma folds_refI:
  assumes "folds_to (try_fold ctx k) (fold_type ctx k ty) v" "take_bit N (uint v) = c"
    "wraps k \<or> uint v = c"
  shows "folds_ref ctx k ty N c"
  using assms by (auto simp: folds_ref_def)

lemma icmp_eval_ref:
  assumes "0 < N" "N \<le> 64"
  shows "icmp_eval pred a b N = Some (ref_icmp pred N (uint a) (uint b))"
proof -
  obtain sa where "sign_extend a N = Some sa" "sint sa = signed_of N (uint a)"
    by (rule sign_extend_Some [OF assms])
  moreover obtain sb where "sign_extend b N = Some sb" "sint sb = signed_of N (uint b)"
    by (rule sign_extend_Some [OF assms])
  ultimately show ?thesis
    by (cases pred) (auto simp: word_less_def word_le_def word_uint_eq_iff)
qed

text \<open>The assumptions all the cases share: two canonical constants of one \<open>iN\<close> type.\<close>

definition int_operands ::
  "ir_context \<Rightarrow> instr_kind \<Rightarrow> type_id \<Rightarrow> nat \<Rightarrow> u64 \<Rightarrow> u64 \<Rightarrow> bool" where
  "int_operands ctx k ty N a b \<longleftrightarrow>
     wf_context ctx \<and> length (constants ctx) < 2 ^ 32 \<and>
     get_type ctx ty = Some (TyInteger N) \<and> 0 < N \<and> N \<le> 64 \<and> canonical N a \<and> canonical N b \<and>
     (\<exists>l r. binop_args k = Some (l, r) \<and>
        get_const_int ctx l = Some (Some (ty, a)) \<and> get_const_int ctx r = Some (Some (ty, b)))"

lemmas fold_unfold = with_ints_def with_width_def with_mask_def int_bit_width_def shift_mask_def

lemma try_fold_plain:
  assumes "int_operands ctx k ty N a b" "wraps k \<or> k \<in> {And l r, Or l r, Xor l r}" "\<not> is_shift k"
    and "ref_binop N k (uint a) (uint b) = Some c"
  shows "folds_ref ctx k ty N c"
proof -
  from assms(1) have wf: "wf_context ctx" "length (constants ctx) < 2 ^ 32" and N: "N \<le> 64"
    and can: "canonical N a" "canonical N b" by (auto simp: int_operands_def)
  show ?thesis
    using assms N can
    by (cases k)
       (auto simp: int_operands_def fold_unfold ref_binop_def fold_type_def take_bit_uint_arith
          canonical_take_bit unsigned_and_eq unsigned_or_eq unsigned_xor_eq take_bit_and take_bit_or take_bit_xor
          intro!: folds_refI folded_folds_to [OF wf])
qed

text \<open>The cases whose result the code reduces itself.\<close>

lemma nonneg_div_le: "0 \<le> (x :: int) \<Longrightarrow> 0 \<le> y \<Longrightarrow> x div y \<le> x"
  by (metis div_by_0 int_div_le_self div_0 order_le_less order_refl)

lemma int_operandsD:
  assumes "int_operands ctx k ty N a b"
  shows "wf_context ctx" "length (constants ctx) < 2 ^ 32" "0 < N" "N \<le> 64"
    "canonical N a" "canonical N b"
  using assms by (auto simp: int_operands_def)

lemma ref_divisor:
  assumes "0 < N" "canonical N b" "sint sr = signed_of N (uint b)"
  shows "sint sr = 0 \<longleftrightarrow> uint b = 0"
  using signed_of_zero [OF assms(1,2)] assms(3) by simp

lemma type_min_eq: "0 < N \<Longrightarrow> N \<le> 64 \<Longrightarrow> type_min N = - (2 ^ (N - 1))"
  by (cases "N = 64") (auto simp: type_min_def)

lemma take_bit_64_le: "N \<le> 64 \<Longrightarrow> take_bit 64 (take_bit N (x :: int)) = take_bit N x"
  by (simp add: min_absorb2)

lemma trunc_word_of_int:
  "N \<le> 64 \<Longrightarrow> uint (trunc_bits (word_of_int x) N) = take_bit N x"
  by (simp add: uint_trunc_bits sint_word_of_int_bits)

lemma uint_trunc_sint: "N \<le> 64 \<Longrightarrow> uint (trunc_bits w N) = take_bit N (sint w)"
  by (simp add: uint_trunc_bits take_bit_uint_sint)

lemma try_fold_udiv:
  assumes "int_operands ctx k ty N a b" "k = UDiv ex l r \<or> k = URem l r"
    and "ref_binop N k (uint a) (uint b) = Some c"
  shows "folds_ref ctx k ty N c"
proof -
  note D = int_operandsD [OF assms(1)]
  have b: "b \<noteq> 0" "uint b \<noteq> 0" using assms(2,3) by (auto simp: ref_binop_def)
  have "canonical N (a div b)" "canonical N (a mod b)"
    using D(5) nonneg_div_le [of "uint a" "uint b"] zmod_le_nonneg_dividend [of "uint a" "uint b"]
    by (simp_all add: canonical_def uint_div uint_mod)
  then have "take_bit N (uint a div uint b) = uint a div uint b"
    "take_bit N (uint a mod uint b) = uint a mod uint b"
    by (simp_all add: canonical_take_bit uint_div [symmetric] uint_mod [symmetric])
  then show ?thesis
    using assms b
    by (auto simp: int_operands_def fold_unfold fold_type_def ref_binop_def uint_div uint_mod
        intro!: folds_refI folded_folds_to [OF D(1,2)])
qed

lemma try_fold_sdiv:
  assumes "int_operands ctx k ty N a b" "k = SDiv ex l r \<or> k = SRem l r"
    and "ref_binop N k (uint a) (uint b) = Some c"
  shows "folds_ref ctx k ty N c"
proof -
  note D = int_operandsD [OF assms(1)]
  obtain sa where sa: "sign_extend a N = Some sa" "sint sa = signed_of N (uint a)"
    by (rule sign_extend_Some [OF D(3,4)])
  obtain sb where sb: "sign_extend b N = Some sb" "sint sb = signed_of N (uint b)"
    by (rule sign_extend_Some [OF D(3,4)])
  have nz: "sint sb \<noteq> 0" and ov: "\<not> (sint sa = type_min N \<and> sint sb = -1)"
    using assms(2,3) ref_divisor [OF D(3,6) sb(2)] type_min_eq [OF D(3,4)] sa sb
    by (auto simp: ref_binop_def split: if_splits)
  from assms(2) show ?thesis
  proof
    assume k: "k = SDiv ex l r"
    have "c = uint (trunc_bits (i64_wrapping_div sa sb) N)"
      using assms(3) sa(2) sb(2) D(4)
      by (simp add: k ref_binop_def i64_wrapping_div_def trunc_word_of_int split: if_splits)
    then show ?thesis
      using assms(1) nz ov sa sb D(4)
      by (auto simp: k int_operands_def fold_unfold fold_type_def uint_trunc_bits
          intro!: folds_refI folded_folds_to [OF D(1,2)])
  next
    assume k: "k = SRem l r"
    have "c = uint (trunc_bits (i64_wrapping_rem sa sb) N)"
      using assms(3) sa(2) sb(2) D(4)
      by (simp add: k ref_binop_def i64_wrapping_rem_def trunc_word_of_int split: if_splits)
    then show ?thesis
      using assms(1) nz ov sa sb D(4)
      by (auto simp: k int_operands_def fold_unfold fold_type_def uint_trunc_bits
          intro!: folds_refI folded_folds_to [OF D(1,2)])
  qed
qed

lemma try_fold_icmp:
  assumes "int_operands ctx k ty N a b" "k = ICmp p l r"
    and "ref_binop N k (uint a) (uint b) = Some c"
  shows "folds_ref ctx k ty N c"
proof -
  note D = int_operandsD [OF assms(1)]
  have c: "c = uint (of_bool (ref_icmp p N (uint a) (uint b)) :: u64)"
    using assms(2,3) by (auto simp: ref_binop_def)
  have "take_bit N c = c"
    using D(3) by (simp add: c take_bit_Suc_0 gr0_conv_Suc take_bit_of_1_eq_0_iff)
  then show ?thesis
    using assms(1,2) c icmp_eval_ref [OF D(3,4)]
    by (auto simp: int_operands_def fold_unfold fold_type_def
        intro!: folds_refI folded_folds_to [OF D(1,2)])
qed

text \<open>Shifts: right for the widths that are a power of two.\<close>

lemma try_fold_shift:
  assumes "int_operands ctx k ty N a b" "is_shift k" "N = 2 ^ j"
    and "ref_binop N k (uint a) (uint b) = Some c"
  shows "folds_ref ctx k ty N c"
proof -
  note D = int_operandsD [OF assms(1)]
  have bN: "uint b < int N" using assms(2,4) by (cases k) (auto simp: ref_binop_def split: if_splits)
  have m: "b AND of_nat (N - 1) = b" by (rule shift_amount_mask [OF assms(3) D(4) bN])
  have "int (unat b) < int N" using bN by (simp only: uint_nat [symmetric])
  then have b64: "unat b < 64" using D(4) by linarith
  then have b32: "unat b mod 2 ^ 32 = unat b" by simp
  have nb: "nat (uint b) = unat b" by (simp only: unat_eq_nat_uint)
  obtain sa where sa: "sign_extend a N = Some sa" "sint sa = signed_of N (uint a)"
    by (rule sign_extend_Some [OF D(3,4)])
  show ?thesis
  proof (cases k)
    case (Shl fl l r)
    have "take_bit N (uint (push_bit (unat b) a)) = take_bit N (uint a * 2 ^ unat b)"
      using D(4) by (simp only: unsigned_push_bit_eq) (simp add: push_bit_eq_mult take_bit_take_bit_64)
    then show ?thesis
      using assms(1,4) m b64 nb bN
      by (auto simp: Shl int_operands_def fold_unfold fold_type_def ref_binop_def shl_u64_def
          intro!: folds_refI folded_folds_to [OF D(1,2)])
  next
    case (LShr ex l r)
    have u: "uint (drop_bit (unat b) a) = uint a div 2 ^ unat b"
      by (simp only: unsigned_drop_bit_eq) (simp add: drop_bit_eq_div take_bit_uint_64)
    have "canonical N (drop_bit (unat b) a)"
      using D(5) nonneg_div_le [of "uint a" "2 ^ unat b"] by (simp only: canonical_def u) simp
    from canonical_take_bit [OF this] have "take_bit N (uint a div 2 ^ unat b) = uint a div 2 ^ unat b"
      by (simp only: u)
    moreover have "uint (a div 2 ^ unat b) = uint a div 2 ^ unat b"
      using u by (simp only: drop_bit_eq_div)
    ultimately show ?thesis
      using assms(1,4) m b64 nb bN
      by (auto simp: LShr int_operands_def fold_unfold fold_type_def ref_binop_def lshr_u64_def
          unsigned_drop_bit_eq drop_bit_eq_div
          intro!: folds_refI folded_folds_to [OF D(1,2)])
  next
    case (AShr ex l r)
    have "uint (trunc_bits (signed_drop_bit (unat b) sa) N) = take_bit N (signed_of N (uint a) div 2 ^ unat b)"
      using D(4) by (simp add: uint_trunc_sint sint_signed_drop_bit_eq drop_bit_eq_div sa)
    then show ?thesis
      using assms(1,4) m b64 nb bN b32 sa
      by (auto simp: AShr int_operands_def fold_unfold fold_type_def ref_binop_def ashr_i64_def uint_trunc_bits Let_def
          intro!: folds_refI folded_folds_to [OF D(1,2)])
  qed (use assms(2) in auto)
qed


section \<open>The properties\<close>

definition int_constants :: "nat \<Rightarrow> u64 list \<Rightarrow> ir_context \<times> type_id" where
  \<comment> \<open>a context with constants of the given values of the type of width \<open>N\<close>, at indices 0, 1, ..\<close>
  "int_constants N vs =
     (let (ctx, ty) = mk_int context_new N
      in (foldl (\<lambda>c v. fst (const_int c ty v)) ctx vs, ty))"

lemma const_context_new [simp]: "constants context_new = []" "const_map context_new = Map.empty"
    "i1_ty context_new = 1"
  by (simp_all add: context_new_def intern_anon_def empty_context_def)

lemmas int_constants_eval =
  int_constants_def mk_int_def intern_anon_def types_context_new type_map_context_new upt_rec
  const_int_def intern_const_def as_u32_def

lemma int_constants_wf_aux:
  assumes "wf_context ctx" "length (constants ctx) + length vs \<le> 2 ^ 32"
  shows "wf_context (foldl (\<lambda>c v. fst (const_int c ty v)) ctx vs) \<and>
    length (constants (foldl (\<lambda>c v. fst (const_int c ty v)) ctx vs)) \<le> length (constants ctx) + length vs"
  using assms
proof (induction vs arbitrary: ctx)
  case (Cons v vs)
  obtain ctx' i where ik: "intern_key ctx (KInt ty v) = (ctx', i)" by fastforce
  have "wf_context ctx'" using intern_key_wf [OF Cons.prems(1) _ ik] Cons.prems(2) by simp
  moreover have "length (constants ctx') \<le> Suc (length (constants ctx))"
    using ik by (auto simp: intern_key_def intern_const_def Let_def split: option.splits)
  ultimately show ?case using Cons.IH [of ctx'] Cons.prems(2) by (simp add: const_makers_intern_key ik)
qed simp

lemma int_constants_wf:
  assumes "length vs < 2 ^ 32"
  shows "wf_context (fst (int_constants N vs)) \<and> length (constants (fst (int_constants N vs))) < 2 ^ 32"
proof -
  obtain ctx ty where m: "intern_anon context_new (TyInteger N) = (ctx, ty)" by fastforce
  have "wf_context ctx"
    using intern_anon_wf [OF context_new_wf _ _ m] by (simp add: types_context_new)
  moreover have "constants ctx = constants context_new"
    using m by (auto simp: intern_anon_def Let_def split: option.splits)
  moreover have "constants context_new = []" by (simp add: const_context_new)
  ultimately show ?thesis
    using int_constants_wf_aux [of ctx vs ty] assms by (simp add: int_constants_def mk_int_def m)
qed

definition sdiv_i8 :: instr_kind where
  "sdiv_i8 = SDiv False (Constant 0) (Constant 1)"

lemma int_operands_sdiv:
  assumes "a \<noteq> b" "canonical 8 a" "canonical 8 b"
  shows "int_operands (fst (int_constants 8 [a, b])) sdiv_i8 2 8 a b"
  using int_constants_wf [of "[a, b]" 8] assms
  by (auto simp: int_operands_def int_constants_eval Let_def sdiv_i8_def get_const_int_def get_const_def get_type_def)

text \<open>C3: Folding an integer operation on two constants of one type \<open>iN\<close>, \<open>N\<close> from 1 to 64, whose stored
  values are below \<open>2 ^ N\<close>, and where the operation is a shift only for widths that are powers of two: whenever
  the reference semantics defines a result, \<open>try_fold\<close> returns a constant of the right type whose low \<open>N\<close>
  bits are that result, and exactly that result for every operation other than \<open>add\<close>, \<open>sub\<close>, \<open>mul\<close> and
  \<open>shl\<close>. These four store a value that may not be reduced to the width (\<open>try_fold_add_i8_overflow\<close>).\<close>

theorem try_fold_ref:
  assumes "int_operands ctx k ty N a b"
    and "is_shift k \<longrightarrow> (\<exists>j. N = 2 ^ j)"
    and "ref_binop N k (uint a) (uint b) = Some c"
  shows "folds_ref ctx k ty N c"
proof -
  have "\<exists>l r. binop_args k = Some (l, r)" using assms(1) by (auto simp: int_operands_def)
  then consider "wraps k \<and> \<not> is_shift k" | l r where "k \<in> {And l r, Or l r, Xor l r}"
    | ex l r where "k = UDiv ex l r \<or> k = URem l r" | ex l r where "k = SDiv ex l r \<or> k = SRem l r"
    | p l r where "k = ICmp p l r" | "is_shift k"
    by (cases k) auto
  then show ?thesis
  proof cases
    case 1
    then show ?thesis using try_fold_plain [OF assms(1) _ _ assms(3)] by blast
  next
    case (2 l r)
    moreover from 2 have "\<not> is_shift k" by auto
    ultimately show ?thesis using try_fold_plain [OF assms(1) _ _ assms(3)] by blast
  next
    case 3
    then show ?thesis by (rule try_fold_udiv [OF assms(1) _ assms(3)])
  next
    case 4
    then show ?thesis by (rule try_fold_sdiv [OF assms(1) _ assms(3)])
  next
    case 5
    then show ?thesis by (rule try_fold_icmp [OF assms(1) _ assms(3)])
  next
    case 6
    then show ?thesis using assms(2) try_fold_shift [OF assms(1) _ _ assms(3)] by blast
  qed
qed

theorem try_fold_ref_witness:
  "folds_ref (fst (int_constants 8 [156, 7])) sdiv_i8 2 8 242"
  by (rule try_fold_ref [OF int_operands_sdiv])
    (simp_all add: canonical_def sdiv_i8_def ref_binop_def signed_of_def)





fun fold_value :: "fold_result \<Rightarrow> constant_data option" where
  \<comment> \<open>the constant a fold stores\<close>
  "fold_value (Some (Some c, ctx)) = get_const ctx c"
| "fold_value _ = None"

lemma folds_to_value: "folds_to r ty v \<Longrightarrow> fold_value r = Some (CInt ty v)"
  by (auto simp: folds_to_def)

definition add_i8 :: instr_kind where
  "add_i8 = Add \<lparr>nuw = False, nsw = False\<rparr> (Constant 0) (Constant 1)"

definition shl_i24 :: instr_kind where
  "shl_i24 = Shl \<lparr>nuw = False, nsw = False\<rparr> (Constant 0) (Constant 1)"

definition fold_then_compare :: "ir_context \<Rightarrow> constant_data option" where
  \<comment> \<open>fold the addition of constants 0 and 1, then fold \<open>icmp eq\<close> of its result with constant 2\<close>
  "fold_then_compare ctx =
     (case try_fold ctx add_i8 of
        Some (Some c, ctx') \<Rightarrow> fold_value (try_fold ctx' (ICmp I_Eq (Constant c) (Constant 2)))
      | _ \<Rightarrow> None)"

text \<open>Additions are folded at 64 bits: on the \<open>i8\<close> constants 255 and 1, \<open>try_fold\<close> stores the
  constant 256, which is not a value of \<open>i8\<close>, and comparing that constant with \<open>i8 0\<close> then folds to
  false, where the reference semantics makes the sum 0.\<close>

theorem try_fold_add_i8_overflow:
  "let (ctx, ty) = int_constants 8 [255, 1, 0]
   in fold_value (try_fold ctx add_i8) = Some (CInt ty 256) \<and>
      fold_then_compare ctx = Some (CInt (i1_ty ctx) 0) \<and>
      ref_binop 8 add_i8 255 1 = Some 0"
  by (simp add: int_constants_eval add_i8_def shl_i24_def fold_then_compare_def fold_unfold Let_def
      get_const_int_def get_const_def get_type_def folded_def vec_get_def shl_u64_def ref_binop_def)

text \<open>The constant \<open>i8\<close> 256 that this leaves is the zero of its type, and a division by it traps, but it is folded.\<close>

lemma try_fold_udiv_256:
  "let (ctx, ty) = int_constants 8 [7, 256]
   in fold_value (try_fold ctx (UDiv False (Constant 0) (Constant 1))) = Some (CInt ty 0)"
  by (simp add: int_constants_eval fold_unfold Let_def get_const_int_def get_const_def get_type_def folded_def vec_get_def)

text \<open>On a width that is not a power of two the shift mask \<open>N - 1\<close> changes in-range amounts:
  \<open>shl i24 1, 8\<close> folds to 1, where the result is 256.\<close>

theorem try_fold_shl_i24:
  "let (ctx, ty) = int_constants 24 [1, 8]
   in fold_value (try_fold ctx shl_i24) = Some (CInt ty 1) \<and> ref_binop 24 shl_i24 1 8 = Some 256"
  by (simp add: int_constants_eval add_i8_def shl_i24_def fold_then_compare_def fold_unfold Let_def
      get_const_int_def get_const_def get_type_def folded_def vec_get_def shl_u64_def ref_binop_def)

end
