(* ===== verification/Graph_Paths.thy ===== *)
theory Graph_Paths
  imports LIR_Prelude
begin

text \<open>
  Rooted directed graphs as the analyses see them: nodes are block indices, node 0 is the entry and
  \<open>sg u\<close> lists the successors of \<open>u\<close>. The theory fixes the specification side of the control-flow
  analyses: paths from the entry (written last node first), reachability and dominance.
\<close>

inductive entry_path :: "(nat \<Rightarrow> nat list) \<Rightarrow> nat list \<Rightarrow> bool" for sg where
  entry: "entry_path sg [0]"
| step: "entry_path sg (u # us) \<Longrightarrow> v \<in> set (sg u) \<Longrightarrow> entry_path sg (v # u # us)"

inductive_cases entry_path_NilE [elim!]: "entry_path sg []"
inductive_simps entry_path_single [simp]: "entry_path sg [v]"
inductive_simps entry_path_Cons2 [simp]: "entry_path sg (v # u # us)"

definition reach :: "(nat \<Rightarrow> nat list) \<Rightarrow> nat \<Rightarrow> bool" where
  "reach sg v \<longleftrightarrow> (\<exists>us. entry_path sg (v # us))"

definition dom_rel :: "(nat \<Rightarrow> nat list) \<Rightarrow> nat \<Rightarrow> nat \<Rightarrow> bool" where
  \<comment> \<open>\<open>a\<close> dominates \<open>b\<close>: every path from the entry to \<open>b\<close> goes through \<open>a\<close>\<close>
  "dom_rel sg a b \<longleftrightarrow> (\<forall>us. entry_path sg (b # us) \<longrightarrow> a \<in> set (b # us))"

section \<open>Reachability\<close>

lemma entry_path_Cons: "entry_path sg (v # us) \<longleftrightarrow>
    (us = [] \<and> v = 0) \<or> (\<exists>u us'. us = u # us' \<and> entry_path sg (u # us') \<and> v \<in> set (sg u))"
  by (cases us) auto

lemma reach_entry [simp, intro]: "reach sg 0"
  by (auto simp: reach_def intro: entry)

lemma reach_step: "reach sg u \<Longrightarrow> v \<in> set (sg u) \<Longrightarrow> reach sg v"
  unfolding reach_def using entry_path.step by blast

lemma entry_path_suffix: "entry_path sg (xs @ y # ys) \<Longrightarrow> entry_path sg (y # ys)"
proof (induction xs)
  case (Cons x xs)
  then show ?case by (cases xs) auto
qed simp

lemma entry_path_reach: "entry_path sg us \<Longrightarrow> u \<in> set us \<Longrightarrow> reach sg u"
  by (auto simp: reach_def dest!: split_list entry_path_suffix)

lemma reach_induct [consumes 1, case_names entry step]:
  assumes "reach sg v" "P 0" "\<And>u v. reach sg u \<Longrightarrow> P u \<Longrightarrow> v \<in> set (sg u) \<Longrightarrow> P v"
  shows "P v"
proof -
  have "entry_path sg us \<Longrightarrow> P (hd us)" for us
    by (induction rule: entry_path.induct) (use assms(2,3) in \<open>auto simp: reach_def\<close>)
  moreover obtain us where "entry_path sg (v # us)" using assms(1) by (auto simp: reach_def)
  ultimately show ?thesis by (metis list.sel(1))
qed

lemma reach_closed:
  assumes "0 \<in> S" "\<And>u v. u \<in> S \<Longrightarrow> v \<in> set (sg u) \<Longrightarrow> v \<in> S" "reach sg v"
  shows "v \<in> S"
  using assms(3) by (induction rule: reach_induct) (use assms(1,2) in auto)

lemma entry_path_simple:
  "entry_path sg us \<Longrightarrow> \<exists>ws. entry_path sg (hd us # ws) \<and> set (hd us # ws) \<subseteq> set us \<and> distinct (hd us # ws)"
proof (induction rule: entry_path.induct)
  case entry
  then show ?case by (intro exI [of _ "[]"]) (auto intro: entry_path.entry)
next
  case (step u us v)
  then obtain ws where ws: "entry_path sg (u # ws)" "set (u # ws) \<subseteq> set (u # us)" "distinct (u # ws)"
    by auto
  show ?case
  proof (cases "v \<in> set (u # ws)")
    case False
    with ws step.hyps(2) show ?thesis by (intro exI [of _ "u # ws"]) auto
  next
    case True
    then obtain xs ys where xy: "u # ws = xs @ v # ys" by (metis split_list)
    then have "entry_path sg (v # ys)" using ws(1) entry_path_suffix by metis
    moreover have "set (v # ys) \<subseteq> set (u # ws)" "distinct (v # ys)" using xy ws(3)
      by (auto simp: xy simp del: distinct.simps(2))
    ultimately show ?thesis using ws(2) by (intro exI [of _ ys]) auto
  qed
qed

lemma reach_pred: "reach sg v \<Longrightarrow> v \<noteq> 0 \<Longrightarrow> \<exists>u. reach sg u \<and> v \<in> set (sg u)"
  by (metis reach_def entry_path_Cons)

lemma reach_bounded:
  assumes "0 < n" "\<And>u v. u < n \<Longrightarrow> v \<in> set (sg u) \<Longrightarrow> v < n" "reach sg v"
  shows "v < n"
  using reach_closed [of "{..<n}" sg v] assms by auto

section \<open>Dominance\<close>

lemma dom_relD: "dom_rel sg a b \<Longrightarrow> entry_path sg (b # us) \<Longrightarrow> a = b \<or> a \<in> set us"
  by (auto simp: dom_rel_def)

lemma dom_rel_refl [simp]: "dom_rel sg a a"
  by (simp add: dom_rel_def)

lemma dom_rel_entry: "dom_rel sg a 0 \<longleftrightarrow> a = 0"
  by (auto simp: dom_rel_def dest: spec [of _ "[]"] intro: entry_path.entry)

lemma dom_rel_entry_all: "dom_rel sg 0 b"
proof -
  have "entry_path sg us \<Longrightarrow> 0 \<in> set us" for us by (induction rule: entry_path.induct) auto
  then show ?thesis unfolding dom_rel_def by blast
qed

lemma dom_rel_reach: "dom_rel sg a b \<Longrightarrow> reach sg b \<Longrightarrow> reach sg a"
  unfolding dom_rel_def reach_def [of sg b] using entry_path_reach by blast

lemma dom_rel_trans: "dom_rel sg a b \<Longrightarrow> dom_rel sg b c \<Longrightarrow> dom_rel sg a c"
proof -
  assume ab: "dom_rel sg a b" and bc: "dom_rel sg b c"
  show ?thesis unfolding dom_rel_def
  proof (intro allI impI)
    fix us assume p: "entry_path sg (c # us)"
    then have "b \<in> set (c # us)" using bc by (simp add: dom_rel_def)
    then obtain xs ys where xy: "c # us = xs @ b # ys" by (metis split_list)
    then have "entry_path sg (b # ys)" using p entry_path_suffix by metis
    then have "a \<in> set (b # ys)" using ab by (simp add: dom_rel_def)
    then show "a \<in> set (c # us)" unfolding xy by auto
  qed
qed

lemma dom_rel_pred:
  assumes "dom_rel sg a b" "a \<noteq> b" "b \<in> set (sg p)"
  shows "dom_rel sg a p"
  unfolding dom_rel_def
proof (intro allI impI)
  fix us assume "entry_path sg (p # us)"
  then have "entry_path sg (b # p # us)" using assms(3) by simp
  then show "a \<in> set (p # us)" using dom_relD [OF assms(1)] assms(2) by blast
qed

lemma dom_rel_preds:
  assumes "b \<noteq> 0" "\<And>p. reach sg p \<Longrightarrow> b \<in> set (sg p) \<Longrightarrow> dom_rel sg a p"
  shows "dom_rel sg a b"
  unfolding dom_rel_def
proof (intro allI impI)
  fix us assume "entry_path sg (b # us)"
  then obtain p ps where p: "us = p # ps" "entry_path sg (p # ps)" "b \<in> set (sg p)"
    using assms(1) entry_path_Cons [of sg b us] by blast
  then have "dom_rel sg a p" using assms(2) by (auto simp: reach_def)
  then show "a \<in> set (b # us)" using p by (auto simp: dom_rel_def)
qed

lemma dom_rel_antisym: "dom_rel sg a b \<Longrightarrow> dom_rel sg b a \<Longrightarrow> reach sg b \<Longrightarrow> a = b"
proof (rule ccontr)
  assume ab: "dom_rel sg a b" and ba: "dom_rel sg b a" and ne: "a \<noteq> b" and "reach sg b"
  then obtain us where "entry_path sg (b # us)" by (auto simp: reach_def)
  then obtain ws where ws: "entry_path sg (b # ws)" "distinct (b # ws)"
    using entry_path_simple by fastforce
  then have "a \<in> set ws" using ab ne by (auto simp: dom_rel_def)
  then obtain xs ys where xy: "ws = xs @ a # ys" by (metis split_list)
  then have "entry_path sg (a # ys)" using ws(1) entry_path_suffix [of sg "b # xs" a ys] by simp
  then have "b \<in> set (a # ys)" using ba by (simp add: dom_rel_def)
  then show False using ws(2) xy ne by auto
qed

text \<open>In a list that starts with the entry and gives every other node an earlier predecessor, dominators come
  first.\<close>

lemma earlier_dominator:
  assumes entry: "0 < length order \<Longrightarrow> order ! 0 = 0"
    and pred: "\<And>j. j < length order \<Longrightarrow> 0 < j \<Longrightarrow> \<exists>i<j. order ! j \<in> set (sg (order ! i))"
    and j: "j < length order" "dom_rel sg a (order ! j)"
  shows "\<exists>i\<le>j. order ! i = a"
  using j
proof (induction j rule: less_induct)
  case (less j)
  show ?case
  proof (cases "a = order ! j")
    case False
    then have "0 < j" using less.prems entry by (cases j) (auto simp: dom_rel_entry)
    then obtain k where k: "k < j" "order ! j \<in> set (sg (order ! k))" using pred less.prems(1) by blast
    then have "dom_rel sg a (order ! k)" using dom_rel_pred less.prems(2) False by blast
    then obtain i where "i \<le> k" "order ! i = a" using less.IH [OF k(1)] k less.prems(1) by auto
    then show ?thesis using k(1) by (intro exI [of _ i]) auto
  qed auto
qed

end
