(* ===== verification/Analysis_Cfg.thy ===== *)
theory Analysis_Cfg
  imports IR_Function Graph_Paths
begin

text \<open>
  The control-flow graph (\<open>llvm-analysis/src/cfg.rs\<close>): edge lists, the reachability sweep with an
  explicit stack, and the recursive post-order traversal. The theorems say that \<open>compute\<close> does not
  panic on a well-formed function, that its edge lists are the terminators' successors and their
  converse, that \<open>reachable\<close> is reachability from the entry, and that reverse post-order lists
  exactly the reachable blocks, the entry first and every other block after one of its predecessors.
\<close>

section \<open>The graph\<close>

record cfg =
  cfg_num_blocks :: nat
  cfg_succs :: "block_id list list"
  cfg_preds :: "block_id list list"
  cfg_reachable :: "bool list"
  cfg_reachable_count :: nat

definition cfg_add_edge ::
  "nat \<Rightarrow> block_id list list \<times> block_id list list \<Rightarrow> block_id \<Rightarrow> (block_id list list \<times> block_id list list) rust" where
  \<comment> \<open>\<open>succs[bi].push(dst); preds[dst.0 as usize].push(src);\<close>\<close>
  "cfg_add_edge bi sp dst =
     (case sp of (succs, preds) \<Rightarrow>
        do { ss \<leftarrow> vec_get succs bi;
             ps \<leftarrow> vec_get preds dst;
             Some (succs[bi := ss @ [dst]], preds[dst := ps @ [as_u32 bi]]) })"

definition block_successors :: "ir_function \<Rightarrow> basic_block \<Rightarrow> block_id list rust" where
  \<comment> \<open>\<open>func.instr(tid).kind.successors()\<close> of the terminator, nothing without one\<close>
  "block_successors f bb =
     (case bb_terminator bb of
        None \<Rightarrow> Some []
      | Some tid \<Rightarrow> do { i \<leftarrow> instr f tid; Some (successors (instr_kind i)) })"

definition cfg_edges :: "ir_function \<Rightarrow> (block_id list list \<times> block_id list list) rust" where
  "cfg_edges f =
     (let n = num_blocks f
      in try_foldl
           (\<lambda>sp (bi, bb). do { dsts \<leftarrow> block_successors f bb; try_foldl (cfg_add_edge bi) sp dsts })
           (replicate n [], replicate n [])
           (zip [0..<n] (blocks f)))"

function cfg_mark ::
  "block_id list list \<Rightarrow> nat list \<Rightarrow> bool list \<Rightarrow> nat \<Rightarrow> (bool list \<times> nat) rust" where
  \<comment> \<open>\<open>while let Some(b) = stack.pop()\<close>; the top of the stack is the head of the list\<close>
  "cfg_mark succs [] reachable count = Some (reachable, count)"
| "cfg_mark succs (b # stack) reachable count =
     (case vec_get reachable b of
        None \<Rightarrow> None
      | Some True \<Rightarrow> cfg_mark succs stack reachable count
      | Some False \<Rightarrow>
          (case vec_get succs b of
             None \<Rightarrow> None
           | Some ss \<Rightarrow> cfg_mark succs (rev ss @ stack) (reachable[b := True]) (count + 1)))"
  by pat_completeness auto

lemma count_false_mark:
  "vec_get vis b = Some False \<Longrightarrow> count_list (vis[b := True]) False < count_list vis False"
proof -
  assume "vec_get vis b = Some False"
  then have b: "b < length vis" "vis ! b = False" by (auto simp: rust_simps)
  then have "vis = take b vis @ False # drop (Suc b) vis" by (metis id_take_nth_drop)
  moreover have "vis[b := True] = take b vis @ True # drop (Suc b) vis"
    using b(1) by (simp add: upd_conv_take_nth_drop)
  ultimately show ?thesis by (metis count_list.simps(2) count_list_append less_add_same_cancel1
        add_Suc_right less_Suc_eq add.right_neutral Suc_eq_plus1)
qed

termination cfg_mark
  by (relation "measures [\<lambda>(_, _, vis, _). count_list vis False, \<lambda>(_, stk, _, _). length stk]")
    (auto simp: count_false_mark)

definition cfg_compute :: "ir_function \<Rightarrow> cfg rust" where
  "cfg_compute f =
     do { let n = num_blocks f;
          (succs, preds) \<leftarrow> cfg_edges f;
          (reachable, count) \<leftarrow>
            (if n > 0 then cfg_mark succs [0] (replicate n False) 0 else Some (replicate n False, 0));
          Some \<lparr>cfg_num_blocks = n, cfg_succs = succs, cfg_preds = preds,
                cfg_reachable = reachable, cfg_reachable_count = count\<rparr> }"

definition cfg_entry :: "cfg \<Rightarrow> block_id" where
  "cfg_entry c = 0"

definition num_reachable_blocks :: "cfg \<Rightarrow> nat" where
  "num_reachable_blocks c = cfg_reachable_count c"

definition is_reachable :: "cfg \<Rightarrow> block_id \<Rightarrow> bool rust" where
  "is_reachable c b = vec_get (cfg_reachable c) b"

definition cfg_successors :: "cfg \<Rightarrow> block_id \<Rightarrow> block_id list rust" where
  "cfg_successors c b = vec_get (cfg_succs c) b"

definition cfg_predecessors :: "cfg \<Rightarrow> block_id \<Rightarrow> block_id list rust" where
  "cfg_predecessors c b = vec_get (cfg_preds c) b"

text \<open>
  The recursive traversal \<open>dfs_post\<close>. The definition runs it over a list of blocks, which is the
  body's loop \<open>for &succ in &self.succs[idx]\<close>; the method itself is the one-element list.
\<close>

function (domintros) dfs_post ::
  "block_id list list \<Rightarrow> block_id list \<Rightarrow> bool list \<times> block_id list \<Rightarrow> (bool list \<times> block_id list) rust" where
  "dfs_post succs [] st = Some st"
| "dfs_post succs (b # bs) st =
     (case st of (visited, order) \<Rightarrow>
        (case vec_get visited b of
           None \<Rightarrow> None
         | Some True \<Rightarrow> dfs_post succs bs (visited, order)
         | Some False \<Rightarrow>
             (case vec_get succs b of
                None \<Rightarrow> None
              | Some ss \<Rightarrow>
                  (case dfs_post succs ss (visited[b := True], order) of
                     None \<Rightarrow> None
                   | Some (visited', order') \<Rightarrow> dfs_post succs bs (visited', order' @ [b])))))"
  by pat_completeness auto

lemma dfs_post_count:
  assumes "dfs_post_dom (succs, bs, st)" "dfs_post succs bs st = Some st'"
  shows "count_list (fst st') False \<le> count_list (fst st) False"
  using assms
proof (induction arbitrary: st' rule: dfs_post.pinduct)
  case (1 succs st)
  then show ?case by (simp add: dfs_post.psimps)
next
  case (2 succs b bs st)
  obtain vis ord where st: "st = (vis, ord)" by (cases st)
  note [simp] = dfs_post.psimps(2) [OF 2(1) [unfolded st]]
  show ?case
  proof (cases "vec_get vis b")
    case None
    with 2(5) show ?thesis by (simp add: st)
  next
    case (Some v)
    show ?thesis
    proof (cases v)
      case True
      then show ?thesis using 2(2) [OF st [symmetric] Some, of st'] 2(5) Some by (simp add: st)
    next
      case False
      with 2(5) Some obtain ss vis1 ord1 where ss: "vec_get succs b = Some ss"
        and r1: "dfs_post succs ss (vis[b := True], ord) = Some (vis1, ord1)"
        and r2: "dfs_post succs bs (vis1, ord1 @ [b]) = Some st'"
        by (auto simp: st split: option.splits)
      have "count_list vis1 False \<le> count_list (vis[b := True]) False"
        using 2(3) [of vis ord v ss "(vis1, ord1)"] st Some False ss r1 by simp
      moreover have "count_list (fst st') False \<le> count_list vis1 False"
        using 2(4) [of vis ord v ss "(vis1, ord1)" vis1 ord1 st'] st Some False ss r1 r2 by simp
      moreover have "count_list (vis[b := True]) False < count_list vis False"
        using count_false_mark Some False by simp
      ultimately show ?thesis by (simp add: st)
    qed
  qed
qed

termination dfs_post
proof (relation "measures [\<lambda>(_, _, vis, _). count_list vis False, \<lambda>(_, bs, _). length bs]", goal_cases)
  case (4 succs b bs st vis ord v ss st1 vis1 ord1)
  then show ?case using dfs_post_count [of succs ss "(vis[b := True], ord)" st1] count_false_mark [of vis b] by auto
qed (auto simp: count_false_mark)

definition post_order :: "cfg \<Rightarrow> block_id list rust" where
  "post_order c =
     do { (visited, order) \<leftarrow> dfs_post (cfg_succs c) [cfg_entry c] (replicate (cfg_num_blocks c) False, []);
          Some order }"

definition cfg_rpo :: "cfg \<Rightarrow> block_id list rust" where
  "cfg_rpo c = do { order \<leftarrow> post_order c; Some (rev order) }"

section \<open>The edge lists\<close>

definition pred_list :: "ir_function \<Rightarrow> block_id \<Rightarrow> block_id list" where
  \<comment> \<open>the sources of the edges into \<open>d\<close>, one entry per edge\<close>
  "pred_list f d = concat (map (\<lambda>u. replicate (count_list (succ_list f u) d) u) [0..<length (blocks f)])"

lemma set_pred_list: "p \<in> set (pred_list f d) \<longleftrightarrow> p < length (blocks f) \<and> d \<in> set (succ_list f p)"
  by (auto simp: pred_list_def count_list_0_iff)

lemma block_successors_wf:
  assumes "wf_func f" "b < length (blocks f)"
  shows "block_successors f (blocks f ! b) = Some (succ_list f b)"
proof (cases "bb_terminator (blocks f ! b)")
  case None
  then show ?thesis using assms by (simp add: block_successors_def succ_list_def terminator_kind_def)
next
  case (Some t)
  then show ?thesis
    using wf_func_terminator [OF assms Some] by (simp add: block_successors_def instr_def)
qed

lemma cfg_add_edges:
  assumes "bi < length succs" "\<forall>d\<in>set dsts. d < length preds" "bi < 2 ^ 32"
  shows "try_foldl (cfg_add_edge bi) (succs, preds) dsts =
    Some (succs[bi := succs ! bi @ dsts],
      map (\<lambda>d. preds ! d @ replicate (count_list dsts d) bi) [0..<length preds])"
  using assms
proof (induction dsts arbitrary: succs preds)
  case Nil
  then show ?case by (simp add: map_nth)
next
  case (Cons d dsts)
  have "cfg_add_edge bi (succs, preds) d = Some (succs[bi := succs ! bi @ [d]], preds[d := preds ! d @ [bi]])"
    using Cons.prems by (simp add: cfg_add_edge_def)
  then show ?case
    using Cons.prems Cons.IH [of "succs[bi := succs ! bi @ [d]]" "preds[d := preds ! d @ [bi]]"]
    by (auto simp: nth_list_update)
qed

lemma cfg_edges_wf:
  assumes wf: "wf_func f"
  defines "n \<equiv> length (blocks f)"
  shows "cfg_edges f = Some (map (succ_list f) [0..<n], map (pred_list f) [0..<n])"
proof -
  let ?step = "\<lambda>sp (bi, bb). do { dsts \<leftarrow> block_successors f bb; try_foldl (cfg_add_edge bi) sp dsts }"
  let ?pl = "\<lambda>k d. concat (map (\<lambda>u. replicate (count_list (succ_list f u) d) u) [0..<k])"
  let ?st = "\<lambda>k. (map (\<lambda>u. if u < k then succ_list f u else []) [0..<n], map (?pl k) [0..<n])"
  have n32: "n \<le> 2 ^ 32" using wf by (simp add: wf_func_def n_def)
  have main: "k \<le> n \<Longrightarrow> try_foldl ?step (?st 0) (take k (zip [0..<n] (blocks f))) = Some (?st k)" for k
  proof (induction k)
    case (Suc k)
    then have k: "k < n" and k': "k < length (blocks f)" by (simp_all add: n_def)
    have t: "take (Suc k) (zip [0..<n] (blocks f)) = take k (zip [0..<n] (blocks f)) @ [(k, blocks f ! k)]"
      using k by (simp add: take_Suc_conv_app_nth n_def)
    have "\<forall>d\<in>set (succ_list f k). d < n" using wf_func_succ [OF wf] by (auto simp: n_def)
    moreover have "k < 2 ^ 32" using k n32 by linarith
    ultimately have "try_foldl (cfg_add_edge k) (?st k) (succ_list f k) = Some (?st (Suc k))"
      using k by (subst cfg_add_edges) (auto intro!: nth_equalityI simp: nth_list_update less_Suc_eq)
    then show ?case
      using Suc k by (simp add: t try_foldl_append block_successors_wf [OF wf k'])
  qed simp
  have "?st 0 = (replicate n [], replicate n [])" by (simp add: map_replicate_trivial)
  then have "cfg_edges f = Some (?st n)"
    using main [of n] by (simp add: cfg_edges_def num_blocks_def n_def Let_def)
  moreover have "map (\<lambda>u. if u < n then succ_list f u else []) [0..<n] = map (succ_list f) [0..<n]" by simp
  ultimately show ?thesis by (simp add: pred_list_def [abs_def] n_def)
qed

section \<open>The reachability sweep\<close>

definition wf_succs :: "block_id list list \<Rightarrow> bool" where
  "wf_succs succs \<longleftrightarrow> (\<forall>ss\<in>set succs. \<forall>v\<in>set ss. v < length succs)"

definition succ_fun :: "block_id list list \<Rightarrow> nat \<Rightarrow> nat list" where
  "succ_fun succs u = (if u < length succs then succs ! u else [])"

lemma wf_succsD: "wf_succs succs \<Longrightarrow> u < length succs \<Longrightarrow> v \<in> set (succs ! u) \<Longrightarrow> v < length succs"
  by (auto simp: wf_succs_def)

lemma count_true_mark: "b < length vis \<Longrightarrow> \<not> vis ! b \<Longrightarrow> count_list (vis[b := True]) True = Suc (count_list vis True)"
  by (induction vis arbitrary: b) (auto split: nat.splits simp: nth_Cons')

definition marks ::
  "block_id list list \<Rightarrow> nat list \<Rightarrow> bool list \<Rightarrow> nat \<Rightarrow> bool list \<Rightarrow> nat \<Rightarrow> bool" where
  \<comment> \<open>the sweep from the nodes of \<open>stk\<close>: it only adds marks, marks \<open>stk\<close>, is closed under successors,
    stays in every closed set around \<open>stk\<close>, and counts the marks it adds\<close>
  "marks succs stk vis c vis' c' \<longleftrightarrow>
     length vis' = length vis \<and> (\<forall>i<length succs. vis ! i \<longrightarrow> vis' ! i) \<and> (\<forall>i\<in>set stk. vis' ! i) \<and>
     (\<forall>i<length succs. vis' ! i \<longrightarrow> vis ! i \<or> (\<forall>v\<in>set (succs ! i). vis' ! v)) \<and>
     (\<forall>S. set stk \<subseteq> S \<longrightarrow> (\<forall>u<length succs. u \<in> S \<longrightarrow> set (succs ! u) \<subseteq> S) \<longrightarrow>
        (\<forall>i<length succs. vis' ! i \<longrightarrow> vis ! i \<or> i \<in> S)) \<and>
     c' + count_list vis True = c + count_list vis' True"

lemma marks_skip:
  assumes "marks succs stk vis c vis' c'" "vis ! b" "b < length succs"
  shows "marks succs (b # stk) vis c vis' c'"
  using assms by (simp add: marks_def)

lemma marks_step:
  assumes m: "marks succs (rev (succs ! b) @ stk) (vis[b := True]) (c + 1) vis' c'"
    and b: "b < length succs" "\<not> vis ! b" "length vis = length succs"
  shows "marks succs (b # stk) vis c vis' c'"
proof -
  have mono: "\<forall>i<length succs. vis[b := True] ! i \<longrightarrow> vis' ! i"
    and stk: "\<forall>i\<in>set (rev (succs ! b) @ stk). vis' ! i"
    and closed: "\<forall>i<length succs. vis' ! i \<longrightarrow> vis[b := True] ! i \<or> (\<forall>v\<in>set (succs ! i). vis' ! v)"
    and least: "\<And>S i. set (rev (succs ! b) @ stk) \<subseteq> S \<Longrightarrow>
         \<forall>u<length succs. u \<in> S \<longrightarrow> set (succs ! u) \<subseteq> S \<Longrightarrow> i < length succs \<Longrightarrow> vis' ! i \<Longrightarrow>
         vis[b := True] ! i \<or> i \<in> S"
    and count: "c' + count_list (vis[b := True]) True = (c + 1) + count_list vis' True"
    and len: "length vis' = length vis"
    using m unfolding marks_def by simp_all
  have "\<forall>i<length succs. vis ! i \<longrightarrow> vis' ! i" using mono b by (auto simp: nth_list_update)
  moreover have "vis' ! b" using mono b by simp
  moreover have "\<forall>i<length succs. vis' ! i \<longrightarrow> vis ! i \<or> (\<forall>v\<in>set (succs ! i). vis' ! v)"
    using closed stk b by (auto simp: nth_list_update split: if_splits)
  moreover have "vis ! i \<or> i \<in> S"
    if "set (b # stk) \<subseteq> S" "\<forall>u<length succs. u \<in> S \<longrightarrow> set (succs ! u) \<subseteq> S" "i < length succs" "vis' ! i" for S i
    using least [of S i] that b by (auto simp: nth_list_update split: if_splits)
  moreover have "c' + count_list vis True = c + count_list vis' True"
    using count count_true_mark [of b vis] b by simp
  ultimately show ?thesis using stk len unfolding marks_def by simp
qed

lemma cfg_mark_correct:
  assumes "wf_succs succs" "length vis = length succs" "\<forall>i\<in>set stk. i < length succs"
  shows "\<exists>vis' c'. cfg_mark succs stk vis c = Some (vis', c') \<and> marks succs stk vis c vis' c'"
  using assms
proof (induction succs stk vis c rule: cfg_mark.induct)
  case (1 succs reachable count)
  then show ?case by (simp add: marks_def)
next
  case (2 succs b stack vis c)
  have b: "b < length succs" "b < length vis" using 2 by simp_all
  show ?case
  proof (cases "vis ! b")
    case True
    then have step: "cfg_mark succs (b # stack) vis c = cfg_mark succs stack vis c" using b by simp
    obtain vis' c' where "cfg_mark succs stack vis c = Some (vis', c')" "marks succs stack vis c vis' c'"
      using 2(1) [of True] 2(3-5) b True by auto
    then show ?thesis unfolding step using marks_skip True b(1) by blast
  next
    case False
    have step: "cfg_mark succs (b # stack) vis c = cfg_mark succs (rev (succs ! b) @ stack) (vis[b := True]) (c + 1)"
      using b False by simp
    have "\<forall>i\<in>set (rev (succs ! b) @ stack). i < length succs"
      using 2(5) wf_succsD [OF 2(3) b(1)] by auto
    then have "\<exists>vis' c'. cfg_mark succs (rev (succs ! b) @ stack) (vis[b := True]) (c + 1) = Some (vis', c') \<and>
      marks succs (rev (succs ! b) @ stack) (vis[b := True]) (c + 1) vis' c'"
      using 2(2) [of False "succs ! b"] 2(3,4) b False by simp
    then show ?thesis unfolding step using marks_step b False 2(4) by blast
  qed
qed

lemma cfg_mark_reach:
  assumes "wf_succs succs" "0 < length succs"
  shows "\<exists>vis. cfg_mark succs [0] (replicate (length succs) False) 0 = Some (vis, count_list vis True) \<and>
    length vis = length succs \<and> (\<forall>i<length succs. vis ! i \<longleftrightarrow> reach (succ_fun succs) i)"
proof -
  let ?n = "length succs" and ?g = "succ_fun succs" and ?f = "replicate (length succs) False"
  obtain vis c where r: "cfg_mark succs [0] ?f 0 = Some (vis, c)" and m: "marks succs [0] ?f 0 vis c"
    using cfg_mark_correct [of succs ?f "[0]" 0] assms by auto
  have c0: "count_list ?f True = 0" by (simp add: count_list_0_iff)
  have len: "length vis = ?n" and zero: "vis ! 0" and count: "c = count_list vis True"
    using m c0 unfolding marks_def by simp_all
  have closed: "vis ! v" if "i < ?n" "vis ! i" "v \<in> set (succs ! i)" for i v
    using m that unfolding marks_def by (metis nth_replicate)
  have least: "i \<in> S"
    if S: "0 \<in> S" "\<forall>u<?n. u \<in> S \<longrightarrow> set (succs ! u) \<subseteq> S" and i: "i < ?n" "vis ! i" for S i
  proof -
    have "\<forall>S. set [0] \<subseteq> S \<longrightarrow> (\<forall>u<?n. u \<in> S \<longrightarrow> set (succs ! u) \<subseteq> S) \<longrightarrow>
        (\<forall>i<?n. vis ! i \<longrightarrow> ?f ! i \<or> i \<in> S)"
      using m unfolding marks_def by blast
    from spec [OF this, of S] show ?thesis using S i by simp
  qed
  have "reach ?g i" if "i < ?n" "vis ! i" for i
  proof -
    have "\<forall>u<?n. u \<in> {i. reach ?g i} \<longrightarrow> set (succs ! u) \<subseteq> {i. reach ?g i}"
      using reach_step [of ?g] by (fastforce simp: succ_fun_def)
    then show ?thesis using least [of "{i. reach ?g i}" i] that by simp
  qed
  moreover have "vis ! i" if "reach ?g i" for i
  proof -
    have "i \<in> {i. i < ?n \<and> vis ! i}"
      by (rule reach_closed [OF _ _ that])
        (use zero closed assms in \<open>auto simp: succ_fun_def wf_succsD split: if_splits\<close>)
    then show ?thesis by simp
  qed
  ultimately show ?thesis using r len count by blast
qed

section \<open>Post-order\<close>

definition posted :: "block_id list list \<Rightarrow> block_id list \<Rightarrow> bool list \<Rightarrow> block_id list \<Rightarrow> bool list \<Rightarrow> bool" where
  \<comment> \<open>the segment \<open>seg\<close> that the traversal from \<open>bs\<close> appends: the nodes it newly visits, each once,
    closed under successors; a node that is no root has a predecessor later in the segment\<close>
  "posted succs bs vis seg vis' \<longleftrightarrow>
     length vis' = length vis \<and> distinct seg \<and>
     (\<forall>i\<in>set seg. i < length succs \<and> \<not> vis ! i) \<and>
     (\<forall>i<length succs. vis' ! i \<longleftrightarrow> vis ! i \<or> i \<in> set seg) \<and>
     (\<forall>i\<in>set bs. vis' ! i) \<and>
     (\<forall>i\<in>set seg. \<forall>v\<in>set (succs ! i). vis' ! v) \<and>
     (\<forall>k<length seg. seg ! k \<in> set bs \<or>
        (\<exists>l. k < l \<and> l < length seg \<and> seg ! k \<in> set (succs ! (seg ! l))))"

lemma posted_later:
  assumes "posted succs bs vis seg vis'" "k < length seg"
  shows "seg ! k \<in> set bs \<or> (\<exists>l. k < l \<and> l < length seg \<and> seg ! k \<in> set (succs ! (seg ! l)))"
  using assms unfolding posted_def by blast

lemma posted_append:
  assumes p1: "posted succs (succs ! b) (vis[b := True]) seg1 vis1" and p2: "posted succs bs vis1 seg2 vis2"
    and b: "b < length succs" "\<not> vis ! b" "length vis = length succs"
    and wf: "wf_succs succs"
  shows "posted succs (b # bs) vis (seg1 @ b # seg2) vis2"
proof -
  let ?seg = "seg1 @ b # seg2"
  have v1: "\<And>i. i < length succs \<Longrightarrow> vis1 ! i \<longleftrightarrow> vis ! i \<or> i = b \<or> i \<in> set seg1"
    and s1: "\<And>i. i \<in> set seg1 \<Longrightarrow> i < length succs \<and> \<not> vis ! i \<and> i \<noteq> b"
    using p1 b by (auto simp: posted_def nth_list_update split: if_splits)
  have v2: "\<And>i. i < length succs \<Longrightarrow> vis2 ! i \<longleftrightarrow> vis1 ! i \<or> i \<in> set seg2"
    and s2: "\<And>i. i \<in> set seg2 \<Longrightarrow> i < length succs \<and> \<not> vis1 ! i"
    using p2 by (auto simp: posted_def)
  have "b \<notin> set seg2" using s2 v1 b(1) by blast
  moreover have "set seg1 \<inter> set seg2 = {}" using s1 s2 v1 by blast
  moreover have "distinct seg1" "distinct seg2" using p1 p2 by (simp_all add: posted_def)
  ultimately have "distinct ?seg" using s1 by auto
  moreover have "\<forall>i\<in>set ?seg. i < length succs \<and> \<not> vis ! i" using s1 s2 v1 b by auto
  moreover have "\<forall>i<length succs. vis2 ! i \<longleftrightarrow> vis ! i \<or> i \<in> set ?seg" using v1 v2 by auto
  moreover have "\<forall>i\<in>set (b # bs). vis2 ! i" using p2 v1 v2 b by (auto simp: posted_def)
  moreover have "\<forall>i\<in>set ?seg. \<forall>v\<in>set (succs ! i). vis2 ! v"
  proof -
    have "vis1 ! v" if "i = b \<or> i \<in> set seg1" "v \<in> set (succs ! i)" for i v
      using p1 that by (auto simp: posted_def)
    moreover have "v < length succs" if "i \<in> set ?seg" "v \<in> set (succs ! i)" for i v
      using wf_succsD [OF wf _ that(2)] that(1) s1 s2 b by auto
    moreover have "i \<in> set ?seg" if "i = b \<or> i \<in> set seg1" for i using that by auto
    ultimately have "vis2 ! v" if "i = b \<or> i \<in> set seg1" "v \<in> set (succs ! i)" for i v
      using v2 [of v] that by blast
    then show ?thesis using p2 by (auto simp: posted_def)
  qed
  moreover have "?seg ! k \<in> set (b # bs) \<or> (\<exists>l. k < l \<and> l < length ?seg \<and> ?seg ! k \<in> set (succs ! (?seg ! l)))"
    if k: "k < length ?seg" for k
  proof -
    consider "k < length seg1" | "k = length seg1" | j where "k = Suc (length seg1 + j)" "j < length seg2"
    proof (cases k "length seg1" rule: linorder_cases)
      case greater
      then have "k = Suc (length seg1 + (k - Suc (length seg1)))" "k - Suc (length seg1) < length seg2"
        using k by auto
      then show ?thesis using that(3) by blast
    qed (use that in auto)
    then show ?thesis
    proof cases
      case 1
      from posted_later [OF p1 1] show ?thesis
      proof
        assume "seg1 ! k \<in> set (succs ! b)"
        then show ?thesis using 1 by (intro disjI2 exI [of _ "length seg1"]) (simp add: nth_append)
      next
        assume "\<exists>l>k. l < length seg1 \<and> seg1 ! k \<in> set (succs ! (seg1 ! l))"
        then obtain l where "k < l" "l < length seg1" "seg1 ! k \<in> set (succs ! (seg1 ! l))" by blast
        then show ?thesis using 1 by (intro disjI2 exI [of _ l]) (simp add: nth_append)
      qed
    next
      case 2
      then show ?thesis by simp
    next
      case 3
      from posted_later [OF p2 3(2)] show ?thesis
      proof
        assume "seg2 ! j \<in> set bs"
        then show ?thesis using 3 by (simp add: nth_append)
      next
        assume "\<exists>l>j. l < length seg2 \<and> seg2 ! j \<in> set (succs ! (seg2 ! l))"
        then obtain l where "j < l" "l < length seg2" "seg2 ! j \<in> set (succs ! (seg2 ! l))" by blast
        then show ?thesis using 3 by (intro disjI2 exI [of _ "Suc (length seg1 + l)"]) (simp add: nth_append)
      qed
    qed
  qed
  ultimately show ?thesis using p1 p2 unfolding posted_def by simp
qed

lemma dfs_post_correct:
  assumes "wf_succs succs" "length (fst st) = length succs" "\<forall>i\<in>set bs. i < length succs"
  shows "\<exists>vis' seg. dfs_post succs bs st = Some (vis', snd st @ seg) \<and> posted succs bs (fst st) seg vis'"
  using assms
proof (induction succs bs st rule: dfs_post.induct)
  case (1 succs st)
  then show ?case by (cases st) (auto simp: posted_def)
next
  case (2 succs b bs st)
  obtain vis ord where st: "st = (vis, ord)" by (cases st)
  have b: "b < length succs" "b < length vis" "length vis = length succs"
    and bs: "\<forall>i\<in>set bs. i < length succs" using 2(4-) by (auto simp: st)
  show ?case
  proof (cases "vis ! b")
    case True
    obtain vis' seg where r: "dfs_post succs bs (vis, ord) = Some (vis', ord @ seg)" "posted succs bs vis seg vis'"
      using 2(1) [OF st [symmetric], of True] 2(4) b bs True by auto
    then have "posted succs (b # bs) vis seg vis'" using True b(1) by (auto simp: posted_def)
    then show ?thesis using r(1) b True by (simp add: st)
  next
    case False
    have ss: "\<forall>i\<in>set (succs ! b). i < length succs" using wf_succsD [OF 2(4) b(1)] by blast
    obtain vis1 seg1 where r1: "dfs_post succs (succs ! b) (vis[b := True], ord) = Some (vis1, ord @ seg1)"
      "posted succs (succs ! b) (vis[b := True]) seg1 vis1"
      using 2(2) [of vis ord False "succs ! b"] 2(4) b ss False st by auto
    have "length vis1 = length succs" using r1(2) b by (simp add: posted_def)
    then obtain vis2 seg2 where r2: "dfs_post succs bs (vis1, (ord @ seg1) @ [b]) = Some (vis2, ((ord @ seg1) @ [b]) @ seg2)"
      "posted succs bs vis1 seg2 vis2"
      using 2(3) [of vis ord False "succs ! b" "(vis1, ord @ seg1)" vis1 "ord @ seg1"] 2(4) b bs False st r1(1) by auto
    have "posted succs (b # bs) vis (seg1 @ b # seg2) vis2"
      by (rule posted_append [OF r1(2) r2(2) b(1) False b(3) 2(4)])
    then show ?thesis using r1(1) r2(1) b False by (simp add: st)
  qed
qed

definition is_rpo :: "(nat \<Rightarrow> nat list) \<Rightarrow> nat list \<Rightarrow> bool" where
  \<comment> \<open>what the data-flow passes need of reverse post-order: the reachable nodes, each once, the entry
    first, every other node after one of its predecessors\<close>
  "is_rpo sg order \<longleftrightarrow>
     distinct order \<and> set order = {v. reach sg v} \<and> order \<noteq> [] \<and> order ! 0 = 0 \<and>
     (\<forall>i<length order. 0 < i \<longrightarrow> (\<exists>j<i. order ! i \<in> set (sg (order ! j))))"

lemma is_rpoD:
  assumes "is_rpo sg order"
  shows "distinct order" "set order = {v. reach sg v}" "order \<noteq> []" "order ! 0 = 0"
    "\<And>i. i < length order \<Longrightarrow> 0 < i \<Longrightarrow> \<exists>j<i. order ! i \<in> set (sg (order ! j))"
  using assms unfolding is_rpo_def by blast+

lemma dfs_post_rpo:
  assumes "wf_succs succs" "0 < length succs"
  shows "\<exists>vis order. dfs_post succs [0] (replicate (length succs) False, []) = Some (vis, order) \<and>
    is_rpo (succ_fun succs) (rev order)"
proof -
  let ?n = "length succs" and ?g = "succ_fun succs" and ?f = "replicate (length succs) False"
  obtain vis seg where r: "dfs_post succs [0] (?f, []) = Some (vis, seg)" and p: "posted succs [0] ?f seg vis"
    using dfs_post_correct [of succs "(?f, [])" "[0]"] assms by auto
  have dist: "distinct seg" and rng: "\<And>i. i \<in> set seg \<Longrightarrow> i < ?n" and zero: "0 \<in> set seg"
    and visited: "\<And>i. i < ?n \<Longrightarrow> vis ! i \<longleftrightarrow> i \<in> set seg"
    and clo: "\<And>i v. i \<in> set seg \<Longrightarrow> v \<in> set (succs ! i) \<Longrightarrow> vis ! v"
    using p assms(2) by (auto simp: posted_def)
  have last: "k < length seg \<Longrightarrow> seg ! k = 0 \<or> (\<exists>l. k < l \<and> l < length seg \<and> seg ! k \<in> set (?g (seg ! l)))" for k
    using posted_later [OF p, of k] rng by (auto simp: succ_fun_def)
  have closed: "v \<in> set seg" if "u \<in> set seg" "v \<in> set (?g u)" for u v
  proof -
    have "u < ?n" "v \<in> set (succs ! u)" using that rng [OF that(1)] by (simp_all add: succ_fun_def)
    then show ?thesis using clo [OF that(1)] wf_succsD [OF assms(1)] visited by blast
  qed
  have r1: "reach ?g v \<Longrightarrow> v \<in> set seg" for v
    by (rule reach_closed [where sg = ?g]) (use zero closed in auto)
  have r2: "k < length seg \<Longrightarrow> reach ?g (seg ! k)" for k
  proof (induction "length seg - k" arbitrary: k rule: less_induct)
    case less
    from last [OF less.prems] show ?case
    proof
      assume "\<exists>l. k < l \<and> l < length seg \<and> seg ! k \<in> set (?g (seg ! l))"
      then obtain l where "k < l" "l < length seg" "seg ! k \<in> set (?g (seg ! l))" by blast
      then show ?thesis using less.hyps [of l] reach_step by fastforce
    qed simp
  qed
  have "seg \<noteq> []" using zero by auto
  then have "rev seg ! 0 = 0" using last [of "length seg - 1"] by (auto simp: rev_nth)
  moreover have "\<exists>j<i. rev seg ! i \<in> set (?g (rev seg ! j))" if i: "i < length seg" "0 < i" for i
  proof -
    have "rev seg ! i \<noteq> 0"
      using \<open>rev seg ! 0 = 0\<close> \<open>seg \<noteq> []\<close> i dist nth_eq_iff_index_eq [of "rev seg" i 0] by auto
    then obtain l where l: "length seg - Suc i < l" "l < length seg" "rev seg ! i \<in> set (?g (seg ! l))"
      using last [of "length seg - Suc i"] i that by (fastforce simp: rev_nth)
    then show ?thesis using i by (intro exI [of _ "length seg - Suc l"]) (auto simp: rev_nth)
  qed
  moreover have "set seg = {v. reach ?g v}" using r1 r2 by (auto simp: in_set_conv_nth)
  ultimately have "is_rpo ?g (rev seg)" using dist \<open>seg \<noteq> []\<close> by (simp add: is_rpo_def)
  then show ?thesis using r by blast
qed

section \<open>The computed graph\<close>

definition cfg_for :: "ir_function \<Rightarrow> cfg \<Rightarrow> bool" where
  \<comment> \<open>\<open>c\<close> is the control-flow graph of \<open>f\<close>\<close>
  "cfg_for f c \<longleftrightarrow>
     cfg_num_blocks c = length (blocks f) \<and>
     cfg_succs c = map (succ_list f) [0..<length (blocks f)] \<and>
     cfg_preds c = map (pred_list f) [0..<length (blocks f)] \<and>
     length (cfg_reachable c) = length (blocks f) \<and>
     (\<forall>i<length (blocks f). cfg_reachable c ! i \<longleftrightarrow> reach (succ_list f) i) \<and>
     cfg_reachable_count c = count_list (cfg_reachable c) True"

lemma succ_fun_succ_list: "succ_fun (map (succ_list f) [0..<length (blocks f)]) = succ_list f"
  by (auto simp: succ_fun_def succ_list_def fun_eq_iff)

lemma wf_succs_succ_list: "wf_func f \<Longrightarrow> wf_succs (map (succ_list f) [0..<length (blocks f)])"
  using wf_func_succ by (auto simp: wf_succs_def)

lemma cfg_compute_wf:
  assumes "wf_func f" "blocks f \<noteq> []"
  shows "\<exists>c. cfg_compute f = Some c \<and> cfg_for f c"
proof -
  let ?s = "map (succ_list f) [0..<length (blocks f)]"
  obtain vis where "cfg_mark ?s [0] (replicate (length (blocks f)) False) 0 = Some (vis, count_list vis True)"
    "length vis = length (blocks f)" "\<forall>i<length (blocks f). vis ! i \<longleftrightarrow> reach (succ_list f) i"
    using cfg_mark_reach [OF wf_succs_succ_list [OF assms(1)]] assms(2) by (auto simp: succ_fun_succ_list)
  then show ?thesis
    using assms(2)
    by (simp add: cfg_compute_def cfg_edges_wf [OF assms(1)] num_blocks_def cfg_for_def Let_def del: cfg_mark.simps)
qed

lemma cfg_rpo_wf:
  assumes "wf_func f" "blocks f \<noteq> []" "cfg_for f c"
  shows "\<exists>order. cfg_rpo c = Some order \<and> is_rpo (succ_list f) order"
  using dfs_post_rpo [OF wf_succs_succ_list [OF assms(1)]] assms(2,3)
  by (auto simp: cfg_rpo_def post_order_def cfg_for_def cfg_entry_def succ_fun_succ_list)

lemma rpo_dominator_first:
  assumes "is_rpo sg order" "j < length order" "dom_rel sg a (order ! j)"
  shows "\<exists>i\<le>j. order ! i = a"
  by (rule earlier_dominator [OF _ _ assms(2,3)]) (use is_rpoD(4,5) [OF assms(1)] in simp_all)

lemma count_concat_replicate:
  "count_list (concat (map (\<lambda>u. replicate (k u) u) [0..<n])) p = (if p < n then k p else 0)"
proof -
  have "count_list (replicate m u) p = (if u = p then m else 0)" for m u
    by (induction m) auto
  then show ?thesis by (induction n) auto
qed

lemma count_list_card: "count_list bs True = card {i. i < length bs \<and> bs ! i}"
proof -
  have "count_list bs True = length (filter (\<lambda>x. x) bs)" by (induction bs) auto
  then show ?thesis by (simp add: length_filter_conv_card)
qed

section \<open>Example functions: one block per terminator\<close>

definition skeleton :: "instr_kind list \<Rightarrow> ir_function" where
  "skeleton ks =
     (function_new ''f'' 0 [] External)
       \<lparr>blocks := map (\<lambda>i. \<lparr>bb_name = decimal i, bb_body = [], bb_terminator = Some i\<rparr>) [0..<length ks],
        instructions := map (\<lambda>k. \<lparr>instr_name = None, instr_ty = 0, instr_kind = k\<rparr>) ks\<rparr>"

lemma skeleton_simps [simp]:
  "length (blocks (skeleton ks)) = length ks" "length (instructions (skeleton ks)) = length ks"
  by (simp_all add: skeleton_def)

lemma skeleton_succ: "succ_list (skeleton ks) b = (if b < length ks then successors (ks ! b) else [])"
  by (simp add: succ_list_def terminator_kind_def) (simp add: skeleton_def)

lemma skeleton_wf:
  assumes "\<forall>k\<in>set ks. \<forall>s\<in>set (successors k). s < length ks" "length ks \<le> 2 ^ 32"
  shows "wf_func (skeleton ks)"
  using assms by (auto simp: wf_func_def skeleton_succ) (auto simp: skeleton_def bb_instrs_def)

definition diamond :: ir_function where
  \<comment> \<open>block 0 branches to 1 and 2, which meet in 3; block 4 is unreachable\<close>
  "diamond = skeleton [CondBr (Constant 0) 1 2, Br 3, Br 3, Ret None, Br 3]"

lemma diamond_wf: "wf_func diamond" "blocks diamond \<noteq> []"
  unfolding diamond_def by (rule skeleton_wf) (auto simp: skeleton_def)

lemma diamond_cfg:
  "cfg_compute diamond = Some \<lparr>cfg_num_blocks = 5, cfg_succs = [[1, 2], [3], [3], [], [3]],
     cfg_preds = [[], [0], [0], [1, 2, 4], []], cfg_reachable = [True, True, True, True, False],
     cfg_reachable_count = 4\<rparr>"
proof -
  have b: "length (blocks diamond) = 5" by (simp add: diamond_def)
  have s: "map (succ_list diamond) [0..<5] = [[1, 2], [3], [3], [], [3]]"
    by (simp add: diamond_def skeleton_succ upt_rec)
  have p: "map (pred_list diamond) [0..<5] = [[], [0], [0], [1, 2, 4], []]"
    by (simp add: pred_list_def diamond_def skeleton_succ upt_rec)
  have e: "cfg_edges diamond = Some ([[1, 2], [3], [3], [], [3]], [[], [0], [0], [1, 2, 4], []])"
    by (simp only: cfg_edges_wf [OF diamond_wf(1)] b s p)
  have m: "cfg_mark [[1, 2], [3], [3], [], [3]] [0] (replicate 5 False) 0 = Some ([True, True, True, True, False], 4)"
    by (simp add: vec_get_def numeral_nat)
  show ?thesis by (simp add: cfg_compute_def num_blocks_def e b m Let_def del: cfg_mark.simps One_nat_def)
qed

section \<open>The properties\<close>

text \<open>C23: On a well-formed function with a block, computing the control-flow graph does not panic;
  the successor lists are those of the terminators, the predecessor lists have one entry per edge,
  edges out of unreachable blocks included, \<open>is_reachable\<close> is reachability from the entry block along the
  edges, and the O(1) count is the number of reachable blocks.\<close>

theorem cfg_compute_correct:
  assumes "wf_func f" "blocks f \<noteq> []"
  shows "\<exists>c. cfg_compute f = Some c \<and>
    (\<forall>b < length (blocks f).
       cfg_successors c b = Some (succ_list f b) \<and>
       (\<exists>ps. cfg_predecessors c b = Some ps \<and>
          (\<forall>p. count_list ps p = (if p < length (blocks f) then count_list (succ_list f p) b else 0))) \<and>
       is_reachable c b = Some (reach (succ_list f) b)) \<and>
    num_reachable_blocks c = card {b. reach (succ_list f) b}"
proof -
  obtain c where c: "cfg_compute f = Some c" "cfg_for f c" using cfg_compute_wf [OF assms] by blast
  have "count_list (pred_list f b) p = (if p < length (blocks f) then count_list (succ_list f p) b else 0)" for b p
    by (simp add: pred_list_def count_concat_replicate)
  moreover have "num_reachable_blocks c = card {b. reach (succ_list f) b}"
  proof -
    have "reach (succ_list f) b \<Longrightarrow> b < length (blocks f)" for b
      using reach_bounded [of "length (blocks f)" "succ_list f"] wf_func_succ [OF assms(1)] assms(2) by auto
    then have "{b. reach (succ_list f) b} = {i. i < length (cfg_reachable c) \<and> cfg_reachable c ! i}"
      using c(2) by (auto simp: cfg_for_def)
    then show ?thesis
      using c(2) by (simp add: num_reachable_blocks_def cfg_for_def count_list_card)
  qed
  ultimately show ?thesis
    using c by (auto simp: cfg_for_def cfg_successors_def cfg_predecessors_def is_reachable_def)
qed

theorem cfg_compute_correct_witness:
  "\<exists>c. cfg_compute diamond = Some c \<and> is_reachable c 3 = Some (reach (succ_list diamond) 3)"
  using cfg_compute_correct [OF diamond_wf] by (auto simp: diamond_def)

text \<open>C24: Reverse post-order lists exactly the reachable blocks, each once, the entry first; every
  other block comes after one of its predecessors, and after every block that dominates it.\<close>

theorem cfg_rpo_correct:
  assumes "wf_func f" "cfg_compute f = Some c" "blocks f \<noteq> []"
  shows "\<exists>order. cfg_rpo c = Some order \<and>
    distinct order \<and> set order = {b. reach (succ_list f) b} \<and> order ! 0 = 0 \<and>
    (\<forall>j < length order. 0 < j \<longrightarrow> (\<exists>i<j. order ! j \<in> set (succ_list f (order ! i)))) \<and>
    (\<forall>i < length order. \<forall>j < length order.
       dom_rel (succ_list f) (order ! i) (order ! j) \<longrightarrow> i \<le> j)"
proof -
  have "cfg_for f c" using cfg_compute_wf [OF assms(1,3)] assms(2) by auto
  then obtain order where od: "cfg_rpo c = Some order" "is_rpo (succ_list f) order"
    using cfg_rpo_wf [OF assms(1,3)] by blast
  have "i \<le> j" if ij: "i < length order" "j < length order" "dom_rel (succ_list f) (order ! i) (order ! j)" for i j
    using rpo_dominator_first [OF od(2) ij(2,3)] nth_eq_iff_index_eq [OF is_rpoD(1) [OF od(2)]] ij(1,2) by auto
  then show ?thesis using od is_rpoD [OF od(2)] by blast
qed

theorem cfg_rpo_correct_witness:
  "\<exists>c order. cfg_compute diamond = Some c \<and> cfg_rpo c = Some order \<and> order ! 0 = 0 \<and> distinct order"
  using cfg_rpo_correct [OF diamond_wf(1) diamond_cfg diamond_wf(2)] diamond_cfg by blast

end
