(* ===== verification/Analysis_Dom.thy ===== *)
theory Analysis_Dom
  imports Analysis_Cfg
begin

text \<open>
  The dominator tree (\<open>llvm-analysis/src/dominators.rs\<close>): the iterative algorithm of Cooper, Harvey
  and Kennedy over reverse post-order positions, its queries and the dominance frontier. The proof
  works on positions: \<open>anc\<close> is the ancestor relation of the partial tree held in the \<open>idom\<close> vector,
  every update only removes ancestors that some path avoids (\<open>sound_upto\<close>) and never a dominator
  (\<open>keeps_doms\<close>), so that after at most as many passes as there are blocks the tree is stable and
  its ancestors are the dominators.
\<close>

section \<open>The computation\<close>

text \<open>
  \<open>idom\<close> holds positions; \<open>UNDEF\<close> is \<open>None\<close>. Both finger loops and the outer loops may in principle
  run forever: \<open>None\<close> is a panic (reading through an undefined entry) or not returning.
\<close>

type_synonym idoms = "nat option list"

partial_function (option) dom_climb :: "idoms \<Rightarrow> nat \<Rightarrow> nat \<Rightarrow> nat rust" where
  \<comment> \<open>\<open>while a > b { a = idom[a]; }\<close>\<close>
  "dom_climb idom a b =
     (if a > b
      then (case vec_get idom a of Some (Some p) \<Rightarrow> dom_climb idom p b | _ \<Rightarrow> None)
      else Some a)"

partial_function (option) dom_intersect :: "idoms \<Rightarrow> nat \<Rightarrow> nat \<Rightarrow> nat rust" where
  "dom_intersect idom a b =
     (if a = b then Some a
      else do { a' \<leftarrow> dom_climb idom a b; b' \<leftarrow> dom_climb idom b a'; dom_intersect idom a' b' })"

definition dom_processed :: "nat option list \<Rightarrow> idoms \<Rightarrow> block_id \<Rightarrow> nat option rust" where
  \<comment> \<open>the position of \<open>p\<close> when it has one and its \<open>idom\<close> is defined\<close>
  "dom_processed rpo_idx idom p =
     do { o_pi \<leftarrow> vec_get rpo_idx p;
          (case o_pi of
             None \<Rightarrow> Some None
           | Some pi \<Rightarrow> do { d \<leftarrow> vec_get idom pi; Some (if d \<noteq> None then Some pi else None) }) }"

fun dom_first :: "nat option list \<Rightarrow> idoms \<Rightarrow> block_id list \<Rightarrow> nat option rust" where
  \<comment> \<open>\<open>preds.iter().find_map(..)\<close>\<close>
  "dom_first rpo_idx idom [] = Some None"
| "dom_first rpo_idx idom (p # ps) =
     do { r \<leftarrow> dom_processed rpo_idx idom p;
          (case r of Some pi \<Rightarrow> Some (Some pi) | None \<Rightarrow> dom_first rpo_idx idom ps) }"

definition dom_meet :: "nat option list \<Rightarrow> idoms \<Rightarrow> nat \<Rightarrow> block_id list \<Rightarrow> nat rust" where
  \<comment> \<open>the loop that intersects with all processed predecessors\<close>
  "dom_meet rpo_idx idom new_idom preds =
     try_foldl
       (\<lambda>new_idom p. do { r \<leftarrow> dom_processed rpo_idx idom p;
          (case r of
             None \<Rightarrow> Some new_idom
           | Some pi \<Rightarrow> if pi \<noteq> new_idom then dom_intersect idom pi new_idom else Some new_idom) })
       new_idom preds"

definition dom_update ::
  "cfg \<Rightarrow> block_id list \<Rightarrow> nat option list \<Rightarrow> idoms \<times> bool \<Rightarrow> nat \<Rightarrow> (idoms \<times> bool) rust" where
  \<comment> \<open>the body of \<open>for i in 1..rpo.len()\<close>\<close>
  "dom_update c rpo rpo_idx st i =
     (case st of (idom, changed) \<Rightarrow>
        do { bid \<leftarrow> vec_get rpo i;
             preds \<leftarrow> cfg_predecessors c bid;
             first \<leftarrow> dom_first rpo_idx idom preds;
             (case first of
                None \<Rightarrow> Some (idom, changed)
              | Some pi \<Rightarrow>
                  do { new_idom \<leftarrow> dom_meet rpo_idx idom pi preds;
                       old \<leftarrow> vec_get idom i;
                       if old \<noteq> Some new_idom
                       then Some (idom[i := Some new_idom], True)
                       else Some (idom, changed) }) })"

definition dom_pass :: "cfg \<Rightarrow> block_id list \<Rightarrow> nat option list \<Rightarrow> idoms \<Rightarrow> (idoms \<times> bool) rust" where
  "dom_pass c rpo rpo_idx idom = try_foldl (dom_update c rpo rpo_idx) (idom, False) [1..<length rpo]"

partial_function (option) dom_iterate ::
  "cfg \<Rightarrow> block_id list \<Rightarrow> nat option list \<Rightarrow> idoms \<Rightarrow> idoms rust" where
  \<comment> \<open>\<open>while changed\<close>\<close>
  "dom_iterate c rpo rpo_idx idom =
     do { (idom', changed) \<leftarrow> dom_pass c rpo rpo_idx idom;
          if changed then dom_iterate c rpo rpo_idx idom' else Some idom' }"

definition dom_positions :: "nat \<Rightarrow> block_id list \<Rightarrow> nat option list rust" where
  "dom_positions n rpo =
     try_foldl (\<lambda>v (i, bid). vec_set v bid (Some i)) (replicate n None) (zip [0..<length rpo] rpo)"

type_synonym dom_tree = "block_id option list"

definition dom_result :: "nat \<Rightarrow> block_id list \<Rightarrow> idoms \<Rightarrow> dom_tree rust" where
  \<comment> \<open>from positions back to block ids\<close>
  "dom_result n rpo idom =
     try_foldl
       (\<lambda>result (i, bid).
          if i = 0 then vec_set result bid None
          else do { d \<leftarrow> vec_get idom i;
                    (case d of
                       None \<Rightarrow> Some result
                     | Some p \<Rightarrow> do { b \<leftarrow> vec_get rpo p; vec_set result bid (Some b) }) })
       (replicate n None) (zip [0..<length rpo] rpo)"

definition dom_compute :: "ir_function \<Rightarrow> cfg \<Rightarrow> dom_tree rust" where
  "dom_compute f c =
     (let n = num_blocks f in
      if n = 0 then Some []
      else do { rpo \<leftarrow> cfg_rpo c;
                rpo_idx \<leftarrow> dom_positions n rpo;
                idom0 \<leftarrow> vec_set (replicate (length rpo) None) 0 (Some 0);
                idom \<leftarrow> dom_iterate c rpo rpo_idx idom0;
                dom_result n rpo idom })"

definition dom_idom :: "dom_tree \<Rightarrow> block_id \<Rightarrow> block_id option rust" where
  "dom_idom dt b = vec_get dt b"

partial_function (option) strictly_dominates :: "dom_tree \<Rightarrow> block_id \<Rightarrow> block_id \<Rightarrow> bool rust" where
  \<comment> \<open>the loop of \<open>strictly_dominates\<close>, at \<open>cur\<close>\<close>
  "strictly_dominates dt a cur =
     do { d \<leftarrow> vec_get dt cur;
          (case d of
             None \<Rightarrow> Some False
           | Some p \<Rightarrow> if p = a then Some True else if p = cur then Some False
                       else strictly_dominates dt a p) }"

definition dominates :: "dom_tree \<Rightarrow> block_id \<Rightarrow> block_id \<Rightarrow> bool rust" where
  "dominates dt a b = (if a = b then Some True else strictly_dominates dt a b)"

type_synonym df_map = "block_id \<rightharpoonup> block_id list"

partial_function (option) df_run :: "dom_tree \<Rightarrow> block_id \<Rightarrow> block_id option \<Rightarrow> block_id \<Rightarrow> df_map \<Rightarrow> df_map rust" where
  \<comment> \<open>\<open>while Some(runner) != self.idom[y_idx] { .. }\<close>\<close>
  "df_run dt y idom_y runner df =
     (if Some runner \<noteq> idom_y
      then do { d \<leftarrow> vec_get dt runner;
                (case d of
                   Some parent \<Rightarrow> df_run dt y idom_y parent (entry_push df runner y)
                 | None \<Rightarrow> Some (entry_push df runner y)) }
      else Some df)"

definition df_block :: "dom_tree \<Rightarrow> cfg \<Rightarrow> df_map \<Rightarrow> block_id \<Rightarrow> df_map rust" where
  "df_block dt c df y =
     do { idom_y \<leftarrow> vec_get dt y;
          if idom_y = None then Some df
          else do { preds \<leftarrow> cfg_predecessors c y;
                    if length preds < 2 then Some df
                    else try_foldl (\<lambda>df p. df_run dt y idom_y p df) df preds } }"

definition dominance_frontier :: "dom_tree \<Rightarrow> cfg \<Rightarrow> df_map rust" where
  "dominance_frontier dt c =
     do { df \<leftarrow> try_foldl (df_block dt c) Map.empty [0..<length dt];
          Some (\<lambda>b. map_option (\<lambda>v. remdups_adj (sort v)) (df b)) }"

section \<open>The tree in the position vector\<close>

inductive anc :: "idoms \<Rightarrow> nat \<Rightarrow> nat \<Rightarrow> bool" for idom where
  refl: "anc idom i i"
| step: "anc idom a p \<Longrightarrow> idom ! i = Some p \<Longrightarrow> 0 < i \<Longrightarrow> anc idom a i"

inductive_cases ancE: "anc idom a i"

definition dtree :: "idoms \<Rightarrow> bool" where
  \<comment> \<open>the root is 0, parents are smaller and defined\<close>
  "dtree idom \<longleftrightarrow>
     0 < length idom \<and> idom ! 0 = Some 0 \<and>
     (\<forall>i<length idom. \<forall>p. 0 < i \<longrightarrow> idom ! i = Some p \<longrightarrow> p < i \<and> idom ! p \<noteq> None)"

definition defd :: "idoms \<Rightarrow> nat \<Rightarrow> bool" where
  "defd idom i \<longleftrightarrow> i < length idom \<and> idom ! i \<noteq> None"

lemma dtree_parent:
  "dtree idom \<Longrightarrow> 0 < i \<Longrightarrow> i < length idom \<Longrightarrow> idom ! i = Some p \<Longrightarrow> p < i \<and> defd idom p"
  by (auto simp: dtree_def defd_def)

lemma anc_le: "anc idom a i \<Longrightarrow> dtree idom \<Longrightarrow> i < length idom \<Longrightarrow> a \<le> i"
  by (induction rule: anc.induct) (auto dest: dtree_parent)

lemma anc_defd: "anc idom a i \<Longrightarrow> dtree idom \<Longrightarrow> defd idom i \<Longrightarrow> defd idom a"
  by (induction rule: anc.induct) (auto simp: defd_def dest: dtree_parent)

lemma anc_trans: "anc idom b c \<Longrightarrow> anc idom a b \<Longrightarrow> anc idom a c"
  by (induction rule: anc.induct) (auto intro: anc.step)

lemma anc_zero [simp]: "anc idom a 0 \<longleftrightarrow> a = 0"
  using anc.cases [of idom a 0] anc.refl [of idom 0] by blast

lemma anc_root: "dtree idom \<Longrightarrow> defd idom i \<Longrightarrow> anc idom 0 i"
proof (induction i rule: less_induct)
  case (less i)
  show ?case
  proof (cases "i = 0")
    case False
    then obtain p where p: "idom ! i = Some p" "p < i" "defd idom p"
      using less.prems dtree_parent [of idom i] by (auto simp: defd_def)
    then show ?thesis using less.IH less.prems(1) anc.step False by blast
  qed simp
qed

lemma anc_parent: "anc idom a i \<Longrightarrow> a \<noteq> i \<Longrightarrow> \<exists>p. idom ! i = Some p \<and> 0 < i \<and> anc idom a p"
  by (erule anc.cases) auto

lemma anc_linear:
  assumes "anc idom a i" "anc idom b i"
  shows "anc idom a b \<or> anc idom b a"
  using assms
proof (induction rule: anc.induct)
  case (step a p i)
  from step.prems show ?case
  proof (cases rule: anc.cases)
    case refl
    then show ?thesis using anc.step [OF step.hyps] by simp
  next
    case (step q)
    then show ?thesis using step.IH \<open>idom ! i = Some p\<close> by simp
  qed
qed simp

lemma anc_between:
  assumes "anc idom a i" "anc idom b i" "a \<le> b" "dtree idom" "defd idom i"
  shows "anc idom a b"
proof (rule ccontr)
  assume "\<not> anc idom a b"
  then have "anc idom b a" using anc_linear assms(1,2) by blast
  moreover have "a < length idom" using anc_defd assms by (auto simp: defd_def)
  ultimately have "b \<le> a" using anc_le assms(4) by blast
  with assms(3) have "a = b" by simp
  then show False using \<open>\<not> anc idom a b\<close> anc.refl by simp
qed

section \<open>Climbing and intersecting\<close>

lemma dom_climb_correct:
  assumes "dtree idom" "defd idom a"
  shows "\<exists>r. dom_climb idom a b = Some r \<and> anc idom r a \<and> r \<le> b \<and> defd idom r \<and>
    (\<forall>c. anc idom c a \<longrightarrow> c \<le> b \<longrightarrow> anc idom c r)"
  using assms(2)
proof (induction a rule: less_induct)
  case (less a)
  show ?case
  proof (cases "a > b")
    case False
    then show ?thesis using less.prems by (simp add: dom_climb.simps anc.refl)
  next
    case True
    obtain p where p: "idom ! a = Some p" "a < length idom" using less.prems by (auto simp: defd_def)
    then have pa: "p < a" "defd idom p" using True dtree_parent [OF assms(1), of a p] by auto
    then obtain r where r: "dom_climb idom p b = Some r" "anc idom r p" "r \<le> b" "defd idom r"
      "\<forall>c. anc idom c p \<longrightarrow> c \<le> b \<longrightarrow> anc idom c r"
      using less.IH by blast
    have "\<forall>c. anc idom c a \<longrightarrow> c \<le> b \<longrightarrow> anc idom c r"
      using r(5) p True by (auto elim: ancE)
    moreover have "anc idom r a" using r(2) p True by (auto intro: anc.step)
    moreover have "dom_climb idom a b = Some r"
      using r(1) p True by (subst dom_climb.simps) simp
    ultimately show ?thesis using r by blast
  qed
qed

lemma dom_climb_less: "dtree idom \<Longrightarrow> defd idom a \<Longrightarrow> b < a \<Longrightarrow> dom_climb idom a b = Some r \<Longrightarrow> r < a"
  using dom_climb_correct [of idom a b] by auto

lemma dom_intersect_correct:
  assumes "dtree idom" "defd idom a" "defd idom b"
  shows "\<exists>r. dom_intersect idom a b = Some r \<and> defd idom r \<and>
    (\<forall>c. anc idom c r \<longleftrightarrow> anc idom c a \<and> anc idom c b)"
  using assms(2,3)
proof (induction "a + b" arbitrary: a b rule: less_induct)
  case less
  show ?case
  proof (cases "a = b")
    case True
    then show ?thesis using less.prems by (simp add: dom_intersect.simps)
  next
    case False
    obtain a' where a': "dom_climb idom a b = Some a'" "anc idom a' a" "a' \<le> b" "defd idom a'"
      "\<forall>c. anc idom c a \<longrightarrow> c \<le> b \<longrightarrow> anc idom c a'"
      using dom_climb_correct [OF assms(1) less.prems(1)] by blast
    obtain b' where b': "dom_climb idom b a' = Some b'" "anc idom b' b" "b' \<le> a'" "defd idom b'"
      "\<forall>c. anc idom c b \<longrightarrow> c \<le> a' \<longrightarrow> anc idom c b'"
      using dom_climb_correct [OF assms(1) less.prems(2)] by blast
    have le: "a' \<le> a" "b' \<le> b"
      using anc_le [OF a'(2) assms(1)] anc_le [OF b'(2) assms(1)] less.prems by (auto simp: defd_def)
    have "a' + b' < a + b" using False le a'(3) b'(3) by linarith
    then obtain r where r: "dom_intersect idom a' b' = Some r" "defd idom r"
      "\<forall>c. anc idom c r \<longleftrightarrow> anc idom c a' \<and> anc idom c b'"
      using less.hyps a'(4) b'(4) by blast
    have "anc idom c a' \<and> anc idom c b' \<longleftrightarrow> anc idom c a \<and> anc idom c b" for c
    proof
      assume "anc idom c a' \<and> anc idom c b'"
      then show "anc idom c a \<and> anc idom c b" using anc_trans a'(2) b'(2) by blast
    next
      assume c: "anc idom c a \<and> anc idom c b"
      then have "c \<le> b" using anc_le assms(1) less.prems by (auto simp: defd_def)
      with c have "anc idom c a'" using a'(5) by blast
      moreover from this have "c \<le> a'" using anc_le assms(1) a'(4) by (auto simp: defd_def)
      ultimately show "anc idom c a' \<and> anc idom c b'" using b'(5) c by blast
    qed
    moreover have "dom_intersect idom a b = Some r"
      using False a'(1) b'(1) r(1) by (subst dom_intersect.simps) simp
    ultimately show ?thesis using r by auto
  qed
qed

section \<open>One update\<close>

definition pos_preds :: "nat option list \<Rightarrow> block_id list \<Rightarrow> nat list" where
  \<comment> \<open>the positions of those blocks that have one\<close>
  "pos_preds rpo_idx preds = List.map_filter (\<lambda>p. rpo_idx ! p) preds"

definition in_range :: "nat option list \<Rightarrow> nat \<Rightarrow> block_id list \<Rightarrow> bool" where
  "in_range rpo_idx m preds \<longleftrightarrow>
     (\<forall>p\<in>set preds. p < length rpo_idx \<and> (\<forall>i. rpo_idx ! p = Some i \<longrightarrow> i < m))"

lemma pos_preds_Nil [simp]: "pos_preds rpo_idx [] = []"
  by (simp add: pos_preds_def map_filter_simps)

lemma pos_preds_Cons [simp]:
  "pos_preds rpo_idx (p # ps) =
     (case rpo_idx ! p of None \<Rightarrow> pos_preds rpo_idx ps | Some i \<Rightarrow> i # pos_preds rpo_idx ps)"
  by (simp add: pos_preds_def map_filter_simps split: option.split)

lemma set_pos_preds: "i \<in> set (pos_preds rpo_idx ps) \<longleftrightarrow> (\<exists>p\<in>set ps. rpo_idx ! p = Some i)"
  by (induction ps) (auto split: option.splits)

lemma dom_processed_eq:
  assumes "p < length rpo_idx" "\<forall>i. rpo_idx ! p = Some i \<longrightarrow> i < length idom"
  shows "dom_processed rpo_idx idom p =
    Some (case rpo_idx ! p of None \<Rightarrow> None | Some i \<Rightarrow> if defd idom i then Some i else None)"
  using assms by (auto simp: dom_processed_def defd_def split: option.splits)

lemma dom_first_correct:
  assumes "in_range rpo_idx (length idom) preds" "\<exists>i\<in>set (pos_preds rpo_idx preds). defd idom i"
  shows "\<exists>i. dom_first rpo_idx idom preds = Some (Some i) \<and> defd idom i \<and> i \<in> set (pos_preds rpo_idx preds)"
  using assms
proof (induction preds)
  case (Cons p ps)
  then have "in_range rpo_idx (length idom) ps" by (simp add: in_range_def)
  then show ?case
    using Cons by (auto simp: dom_processed_eq in_range_def split: option.splits)
qed simp

lemma dom_meet_correct:
  assumes "dtree idom" "in_range rpo_idx (length idom) preds" "defd idom m"
  shows "\<exists>r. dom_meet rpo_idx idom m preds = Some r \<and> defd idom r \<and>
    (\<forall>a. anc idom a r \<longleftrightarrow>
       anc idom a m \<and> (\<forall>i\<in>set (pos_preds rpo_idx preds). defd idom i \<longrightarrow> anc idom a i))"
  using assms(2,3)
proof (induction preds arbitrary: m)
  case Nil
  then show ?case by (simp add: dom_meet_def)
next
  case (Cons p ps)
  then have ps: "in_range rpo_idx (length idom) ps"
    and p: "dom_processed rpo_idx idom p =
      Some (case rpo_idx ! p of None \<Rightarrow> None | Some i \<Rightarrow> if defd idom i then Some i else None)"
    by (auto simp: in_range_def dom_processed_eq)
  note IH = Cons.IH [OF ps]
  show ?case
  proof (cases "\<exists>i. rpo_idx ! p = Some i \<and> defd idom i \<and> i \<noteq> m")
    case False
    then have "dom_meet rpo_idx idom m (p # ps) = dom_meet rpo_idx idom m ps"
      by (auto simp: dom_meet_def p split: option.splits)
    then show ?thesis using IH [OF Cons.prems(2)] False by (auto split: option.splits)
  next
    case True
    then obtain i where i: "rpo_idx ! p = Some i" "defd idom i" "i \<noteq> m" by blast
    obtain m' where m': "dom_intersect idom i m = Some m'" "defd idom m'"
      "\<forall>c. anc idom c m' \<longleftrightarrow> anc idom c i \<and> anc idom c m"
      using dom_intersect_correct [OF assms(1) i(2) Cons.prems(2)] by blast
    have "dom_meet rpo_idx idom m (p # ps) = dom_meet rpo_idx idom m' ps"
      using i m'(1) by (simp add: dom_meet_def p)
    then show ?thesis using IH [OF m'(2)] i m'(3) by auto
  qed
qed

text \<open>What the loops need of the graph: every predecessor is in range, and every position after the
  entry has a predecessor at a smaller position.\<close>

definition preds_at :: "cfg \<Rightarrow> block_id list \<Rightarrow> nat option list \<Rightarrow> nat \<Rightarrow> nat list" where
  "preds_at c rpo rpo_idx i =
     (case cfg_predecessors c (rpo ! i) of None \<Rightarrow> [] | Some ps \<Rightarrow> pos_preds rpo_idx ps)"

definition chk_env :: "cfg \<Rightarrow> block_id list \<Rightarrow> nat option list \<Rightarrow> bool" where
  "chk_env c rpo rpo_idx \<longleftrightarrow> 0 < length rpo \<and>
     (\<forall>i<length rpo. \<exists>ps. cfg_predecessors c (rpo ! i) = Some ps \<and> in_range rpo_idx (length rpo) ps) \<and>
     (\<forall>i<length rpo. 0 < i \<longrightarrow> (\<exists>j\<in>set (preds_at c rpo rpo_idx i). j < i))"

lemma preds_at_less: "chk_env c rpo rpo_idx \<Longrightarrow> i < length rpo \<Longrightarrow> j \<in> set (preds_at c rpo rpo_idx i) \<Longrightarrow> j < length rpo"
  by (fastforce simp: chk_env_def preds_at_def in_range_def pos_preds_def map_filter_def)

lemma dom_update_correct:
  assumes env: "chk_env c rpo rpo_idx" and t: "dtree idom" "length idom = length rpo"
    and k: "0 < k" "k < length rpo" and dn: "\<forall>j<k. defd idom j"
  shows "\<exists>r. dom_update c rpo rpo_idx (idom, ch) k = Some (idom[k := Some r], ch \<or> idom ! k \<noteq> Some r) \<and>
    r < k \<and> defd idom r \<and>
    (\<forall>a. anc idom a r \<longleftrightarrow> (\<forall>i\<in>set (preds_at c rpo rpo_idx k). defd idom i \<longrightarrow> anc idom a i))"
proof -
  obtain ps where ps: "cfg_predecessors c (rpo ! k) = Some ps" "in_range rpo_idx (length idom) ps"
    using env k(2) t(2) by (auto simp: chk_env_def)
  have pa: "preds_at c rpo rpo_idx k = pos_preds rpo_idx ps" by (simp add: preds_at_def ps)
  obtain j where j: "j \<in> set (pos_preds rpo_idx ps)" "j < k" using env k pa by (auto simp: chk_env_def)
  then obtain m where m: "dom_first rpo_idx idom ps = Some (Some m)" "defd idom m" "m \<in> set (pos_preds rpo_idx ps)"
    using dom_first_correct [OF ps(2)] dn by blast
  obtain r where r: "dom_meet rpo_idx idom m ps = Some r" "defd idom r"
    "\<forall>a. anc idom a r \<longleftrightarrow> anc idom a m \<and> (\<forall>i\<in>set (pos_preds rpo_idx ps). defd idom i \<longrightarrow> anc idom a i)"
    using dom_meet_correct [OF t(1) ps(2) m(2)] by blast
  then have all: "\<forall>a. anc idom a r \<longleftrightarrow> (\<forall>i\<in>set (pos_preds rpo_idx ps). defd idom i \<longrightarrow> anc idom a i)"
    using m by blast
  have "anc idom r j" using spec [OF all, of r] anc.refl [of idom r] j dn by blast
  then have "r \<le> j" using anc_le [OF _ t(1)] t(2) j(2) k(2) by simp
  then have "r < k" using j(2) by simp
  moreover have "dom_update c rpo rpo_idx (idom, ch) k = Some (idom[k := Some r], ch \<or> idom ! k \<noteq> Some r)"
  proof (cases "idom ! k = Some r")
    case True
    then have "idom[k := Some r] = idom" using k(2) t(2) by (simp add: list_update_same_conv)
    then show ?thesis using k t(2) ps(1) m(1) r(1) True by (simp add: dom_update_def)
  next
    case False
    then show ?thesis using k t(2) ps(1) m(1) r(1) by (simp add: dom_update_def)
  qed
  ultimately show ?thesis using r(2) all unfolding pa by (intro exI [of _ r] conjI)
qed

section \<open>The two invariants\<close>

definition pos_graph :: "cfg \<Rightarrow> block_id list \<Rightarrow> nat option list \<Rightarrow> nat \<Rightarrow> nat list" where
  \<comment> \<open>the edges between positions\<close>
  "pos_graph c rpo rpo_idx j = filter (\<lambda>i. j \<in> set (preds_at c rpo rpo_idx i)) [0..<length rpo]"

definition sound_upto :: "(nat \<Rightarrow> nat list) \<Rightarrow> idoms \<Rightarrow> (nat \<Rightarrow> nat) \<Rightarrow> bool" where
  \<comment> \<open>no ancestor of \<open>y\<close> is avoided by a path to \<open>y\<close> of at most \<open>bd y\<close> edges\<close>
  "sound_upto G idom bd \<longleftrightarrow>
     (\<forall>y<length idom. \<forall>us. entry_path G (y # us) \<longrightarrow> length us \<le> bd y \<longrightarrow>
        defd idom y \<and> (\<forall>x. anc idom x y \<longrightarrow> x \<in> set (y # us)))"

definition keeps_doms :: "(nat \<Rightarrow> nat list) \<Rightarrow> idoms \<Rightarrow> bool" where
  \<comment> \<open>a strict dominator of \<open>y\<close> dominates the parent of \<open>y\<close>\<close>
  "keeps_doms G idom \<longleftrightarrow>
     (\<forall>y<length idom. \<forall>q d. 0 < y \<longrightarrow> idom ! y = Some q \<longrightarrow> dom_rel G d y \<longrightarrow> d \<noteq> y \<longrightarrow> dom_rel G d q)"

lemma sound_uptoD:
  assumes "sound_upto G idom bd" "y < length idom" "entry_path G (y # us)" "length us \<le> bd y"
  shows "defd idom y" "anc idom x y \<Longrightarrow> x \<in> set (y # us)"
  using assms unfolding sound_upto_def by blast+

lemma keeps_domsD:
  "keeps_doms G idom \<Longrightarrow> defd idom y \<Longrightarrow> 0 < y \<Longrightarrow> idom ! y = Some q \<Longrightarrow> dom_rel G d y \<Longrightarrow> d \<noteq> y \<Longrightarrow> dom_rel G d q"
  unfolding keeps_doms_def defd_def by blast

lemma keeps_doms_anc:
  assumes "dtree idom" "keeps_doms G idom" "defd idom y" "dom_rel G d y"
  shows "anc idom d y"
  using assms(3,4)
proof (induction y rule: less_induct)
  case (less y)
  show ?case
  proof (cases "d = y")
    case False
    then have y: "0 < y" using less.prems(2) by (cases y) (auto simp: dom_rel_entry)
    then obtain q where q: "idom ! y = Some q" "q < y" "defd idom q"
      using less.prems(1) dtree_parent [OF assms(1), of y] by (auto simp: defd_def)
    then have "dom_rel G d q" using keeps_domsD [OF assms(2) less.prems(1) y] less.prems(2) False by blast
    then show ?thesis using less.IH q anc.step y by blast
  qed (simp add: anc.refl)
qed

lemma keeps_doms_walk:
  assumes "anc idom r p" "dtree idom" "keeps_doms G idom" "defd idom p" "dom_rel G d p" "d \<le> r"
  shows "dom_rel G d r"
  using assms
proof (induction rule: anc.induct)
  case (step r q p)
  have "p < length idom" using step.prems(3) by (simp add: defd_def)
  then have q: "q < p" "defd idom q"
    using dtree_parent [OF step.prems(1) step.hyps(3) _ step.hyps(2)] by blast+
  then have "r \<le> q" using anc_le [OF step.hyps(1) step.prems(1)] by (auto simp: defd_def)
  then have "d \<noteq> p" using step.prems(5) q by simp
  then have "dom_rel G d q"
    using keeps_domsD [OF step.prems(2,3) step.hyps(3,2) step.prems(4)] by blast
  then show ?case using step.IH step.prems q by blast
qed

text \<open>The ancestors after an update of \<open>k\<close>.\<close>

lemma anc_update:
  assumes "dtree idom" "k < length idom" "r < k" "y < length idom" "anc (idom[k := Some r]) a y"
  shows "anc idom a y \<or> (anc idom k y \<and> anc idom a r)"
  using assms(4,5)
proof (induction y rule: less_induct)
  case (less y)
  show ?case
  proof (cases "a = y")
    case False
    then obtain p where p: "idom[k := Some r] ! y = Some p" "0 < y" "anc (idom[k := Some r]) a p"
      using anc_parent less.prems(2) by blast
    show ?thesis
    proof (cases "y = k")
      case True
      then have "p = r" using p(1) assms(2) by simp
      then have "anc idom a r \<or> anc idom k r" using less.IH [of r] p(3) True assms(2,3) by auto
      moreover have "\<not> anc idom k r" using anc_le [OF _ assms(1)] assms(2,3) by fastforce
      ultimately show ?thesis using True anc.refl by blast
    next
      case False
      then have py: "idom ! y = Some p" using p(1) by simp
      then have "p < y" "p < length idom"
        using dtree_parent [OF assms(1) p(2) less.prems(1)] by (auto simp: defd_def)
      then have "anc idom a p \<or> (anc idom k p \<and> anc idom a r)" using less.IH p(3) by blast
      then show ?thesis using anc.step py p(2) by blast
    qed
  qed (simp add: anc.refl)
qed

lemma dtree_update:
  assumes "dtree idom" "0 < k" "k < length idom" "r < k" "defd idom r"
  shows "dtree (idom[k := Some r])"
proof -
  have "p < i \<and> idom[k := Some r] ! p \<noteq> None"
    if "i < length idom" "0 < i" "idom[k := Some r] ! i = Some p" for i p
  proof (cases "i = k")
    case True
    then show ?thesis using that assms by (simp add: defd_def)
  next
    case False
    then have "p < i" "defd idom p" using dtree_parent [OF assms(1)] that by auto
    then show ?thesis using assms(3) by (cases "p = k") (simp_all add: defd_def)
  qed
  moreover have "0 < length idom" "idom[k := Some r] ! 0 = Some 0"
    using assms(1,2) by (simp_all add: dtree_def)
  ultimately show ?thesis unfolding dtree_def length_list_update by blast
qed

lemma defd_update: "defd idom j \<or> (j = k \<and> k < length idom) \<Longrightarrow> defd (idom[k := Some r]) j"
  by (cases "j = k") (auto simp: defd_def)

section \<open>An update keeps the invariants\<close>

definition upd_ok :: "cfg \<Rightarrow> block_id list \<Rightarrow> nat option list \<Rightarrow> idoms \<Rightarrow> nat \<Rightarrow> nat \<Rightarrow> bool" where
  \<comment> \<open>\<open>r\<close> is the new parent of \<open>k\<close>: the nearest common ancestor of its defined predecessors\<close>
  "upd_ok c rpo rpo_idx idom k r \<longleftrightarrow> r < k \<and> defd idom r \<and>
     (\<forall>a. anc idom a r \<longleftrightarrow> (\<forall>i\<in>set (preds_at c rpo rpo_idx k). defd idom i \<longrightarrow> anc idom a i))"

lemma upd_okD:
  assumes "upd_ok c rpo rpo_idx idom k r"
  shows "r < k" "defd idom r"
    "\<And>a i. anc idom a r \<Longrightarrow> i \<in> set (preds_at c rpo rpo_idx k) \<Longrightarrow> defd idom i \<Longrightarrow> anc idom a i"
    "\<And>a. (\<And>i. i \<in> set (preds_at c rpo rpo_idx k) \<Longrightarrow> defd idom i \<Longrightarrow> anc idom a i) \<Longrightarrow> anc idom a r"
  using assms unfolding upd_ok_def by blast+

lemma pos_graph_iff:
  "i \<in> set (pos_graph c rpo rpo_idx j) \<longleftrightarrow> i < length rpo \<and> j \<in> set (preds_at c rpo rpo_idx i)"
  by (auto simp: pos_graph_def)

lemma keeps_doms_update:
  fixes c rpo rpo_idx
  defines "G \<equiv> pos_graph c rpo rpo_idx"
  assumes env: "chk_env c rpo rpo_idx" and t: "dtree idom" "length idom = length rpo"
    and k: "0 < k" "k < length rpo" and dn: "\<forall>j<k. defd idom j"
    and r: "upd_ok c rpo rpo_idx idom k r" and keep: "keeps_doms G idom"
  shows "keeps_doms G (idom[k := Some r])"
proof -
  have "dom_rel G d r" if d: "dom_rel G d k" "d \<noteq> k" for d
  proof -
    have p: "dom_rel G d i" if "i \<in> set (preds_at c rpo rpo_idx k)" for i
      using dom_rel_pred [OF d] that k(2) by (simp add: G_def pos_graph_iff)
    obtain j where j: "j \<in> set (preds_at c rpo rpo_idx k)" "j < k"
      using env k by (auto simp: chk_env_def)
    have "anc idom d r" using upd_okD(4) [OF r] keeps_doms_anc [OF t(1) keep] p by blast
    moreover have "r < length idom" using upd_okD(1) [OF r] k(2) t(2) by simp
    ultimately have "d \<le> r" using anc_le [OF _ t(1)] by blast
    moreover have "anc idom r j" using upd_okD(3) [OF r anc.refl] j dn by blast
    ultimately show ?thesis using keeps_doms_walk [OF _ t(1) keep] j dn p by blast
  qed
  then show ?thesis using keep k(2) t(2) by (auto simp: keeps_doms_def nth_list_update split: if_splits)
qed

lemma sound_upto_update:
  fixes c rpo rpo_idx
  defines "G \<equiv> pos_graph c rpo rpo_idx"
  assumes env: "chk_env c rpo rpo_idx" and t: "dtree idom" "length idom = length rpo"
    and k: "0 < k" "k < length rpo" and r: "upd_ok c rpo rpo_idx idom k r"
    and s: "sound_upto G idom bd" and bd: "\<forall>y. T \<le> bd y \<and> bd y \<le> Suc T"
  shows "sound_upto G (idom[k := Some r]) (bd(k := Suc T))"
proof -
  have below: "anc idom x r \<Longrightarrow> x \<in> set (p # ps)"
    if p: "entry_path G (k # p # ps)" "length ps \<le> T" for x p ps
  proof -
    have pk: "p \<in> set (preds_at c rpo rpo_idx k)" "entry_path G (p # ps)"
      using p(1) by (auto simp: G_def pos_graph_iff)
    then have "p < length idom" using preds_at_less [OF env k(2)] t(2) by simp
    moreover have "length ps \<le> bd p" using p(2) bd le_trans by blast
    ultimately have "defd idom p" "\<And>x. anc idom x p \<Longrightarrow> x \<in> set (p # ps)"
      using sound_uptoD [OF s _ pk(2)] by blast+
    then show "anc idom x r \<Longrightarrow> x \<in> set (p # ps)" using upd_okD(3) [OF r _ pk(1)] by blast
  qed
  show ?thesis unfolding sound_upto_def
  proof (intro allI impI)
    fix y us
    assume y: "y < length (idom[k := Some r])" and path: "entry_path G (y # us)"
      and len: "length us \<le> (bd(k := Suc T)) y"
    have yl: "y < length idom" using y by simp
    show "defd (idom[k := Some r]) y \<and> (\<forall>x. anc (idom[k := Some r]) x y \<longrightarrow> x \<in> set (y # us))"
    proof (cases "y = k")
      case True
      obtain p ps where us: "us = p # ps" using path k(1) True entry_path_Cons [of G y us] by blast
      have "x \<in> set (y # us)" if hx: "anc (idom[k := Some r]) x y" for x
      proof (cases "x = k")
        case False
        then obtain q where "idom[k := Some r] ! k = Some q" "anc (idom[k := Some r]) x q"
          using anc_parent hx True by blast
        then have "anc (idom[k := Some r]) x r" using k(2) t(2) by simp
        moreover have "r < length idom" "\<not> anc idom k r"
          using upd_okD(1) [OF r] anc_le [OF _ t(1), of k r] k(2) t(2) by auto
        ultimately have "anc idom x r"
          using anc_update [OF t(1) _ upd_okD(1) [OF r]] k(2) t(2) by auto
        then show ?thesis using below [of p ps] path len True us by simp
      qed (simp add: True)
      then show ?thesis using True k(2) t(2) by (auto simp: defd_def)
    next
      case False
      then have len': "length us \<le> bd y" using len by simp
      note S = sound_uptoD [OF s yl path len']
      have "x \<in> set (y # us)" if x: "anc (idom[k := Some r]) x y" for x
      proof -
        from anc_update [OF t(1) _ upd_okD(1) [OF r] yl x] k(2) t(2)
        have "anc idom x y \<or> (anc idom k y \<and> anc idom x r)" by simp
        then show ?thesis
        proof
          assume kx: "anc idom k y \<and> anc idom x r"
          then have "k \<in> set (y # us)" using S(2) by blast
          then have "k \<in> set us" using False by simp
          then obtain xs ys where xy: "us = xs @ k # ys" by (metis split_list)
          then have kp: "entry_path G (k # ys)" using path entry_path_suffix [of G "y # xs" k ys] by simp
          then obtain p ps where ys: "ys = p # ps" using k(1) entry_path_Cons [of G k ys] by blast
          have "length ps \<le> T" using len' spec [OF bd, of y] xy ys by simp
          then have "x \<in> set (p # ps)" using below kp kx ys by blast
          then show ?thesis using xy ys by auto
        qed (rule S(2))
      qed
      then show ?thesis using S(1) defd_update by blast
    qed
  qed
qed

section \<open>A pass and the fixpoint\<close>

definition chk_inv :: "(nat \<Rightarrow> nat list) \<Rightarrow> nat \<Rightarrow> nat \<Rightarrow> nat \<Rightarrow> idoms \<Rightarrow> bool" where
  \<comment> \<open>before the update of position \<open>k\<close> in pass \<open>T\<close>\<close>
  "chk_inv G m T k idom \<longleftrightarrow> dtree idom \<and> length idom = m \<and> (\<forall>j<k. defd idom j) \<and>
     sound_upto G idom (\<lambda>y. if y < k then Suc T else T) \<and> keeps_doms G idom"

lemma pos_graph_reach:
  assumes "chk_env c rpo rpo_idx" "i < length rpo"
  shows "reach (pos_graph c rpo rpo_idx) i"
  using assms(2)
proof (induction i rule: less_induct)
  case (less i)
  show ?case
  proof (cases "i = 0")
    case False
    then obtain j where "j \<in> set (preds_at c rpo rpo_idx i)" "j < i"
      using assms(1) less.prems by (auto simp: chk_env_def)
    then show ?thesis using less reach_step [of "pos_graph c rpo rpo_idx" j i] by (auto simp: pos_graph_iff)
  qed simp
qed

lemma pos_graph_path_range:
  "entry_path (pos_graph c rpo rpo_idx) us \<Longrightarrow> 0 < length rpo \<Longrightarrow> set us \<subseteq> {..<length rpo}"
  by (induction rule: entry_path.induct) (auto simp: pos_graph_iff)

lemma sound_upto_dom:
  assumes env: "chk_env c rpo rpo_idx" and len: "length idom = length rpo"
    and s: "sound_upto (pos_graph c rpo rpo_idx) idom bd" and bd: "\<forall>y. length rpo \<le> bd y"
    and y: "y < length rpo"
  shows "defd idom y" "anc idom x y \<Longrightarrow> dom_rel (pos_graph c rpo rpo_idx) x y"
proof -
  let ?G = "pos_graph c rpo rpo_idx"
  have short: "\<exists>ws. entry_path ?G (y # ws) \<and> set ws \<subseteq> set (y # us) \<and> length ws \<le> bd y"
    if path: "entry_path ?G (y # us)" for us
  proof -
    obtain ws where ws: "entry_path ?G (y # ws)" "set (y # ws) \<subseteq> set (y # us)" "distinct (y # ws)"
      using entry_path_simple [OF path] by auto
    have "set (y # ws) \<subseteq> {..<length rpo}"
      using pos_graph_path_range [OF ws(1)] env by (simp add: chk_env_def)
    then have "card (set (y # ws)) \<le> length rpo" using card_mono [of "{..<length rpo}"] by fastforce
    then have "length ws \<le> length rpo" using distinct_card [OF ws(3)] by simp
    then show ?thesis using ws bd le_trans by (metis set_subset_Cons subset_trans)
  qed
  obtain us where us: "entry_path ?G (y # us)" using pos_graph_reach [OF env y] by (auto simp: reach_def)
  then show "defd idom y" using short sound_uptoD(1) [OF s] y len by metis
  assume x: "anc idom x y"
  show "dom_rel ?G x y" unfolding dom_rel_def
  proof (intro allI impI)
    fix us assume "entry_path ?G (y # us)"
    then obtain ws where "entry_path ?G (y # ws)" "set ws \<subseteq> set (y # us)" "length ws \<le> bd y"
      using short by blast
    then show "x \<in> set (y # us)" using sound_uptoD(2) [OF s _ _ _ x] y len by fastforce
  qed
qed

lemma stable_update:
  assumes env: "chk_env c rpo rpo_idx" and inv: "chk_inv (pos_graph c rpo rpo_idx) (length rpo) T k idom"
    and k: "0 < k" "k < length rpo" and r: "upd_ok c rpo rpo_idx idom k r" and T: "length rpo \<le> T"
  shows "idom ! k = Some r"
proof -
  let ?G = "pos_graph c rpo rpo_idx"
  have t: "dtree idom" "length idom = length rpo" and keep: "keeps_doms ?G idom"
    and s: "sound_upto ?G idom (\<lambda>y. if y < k then Suc T else T)"
    using inv by (auto simp: chk_inv_def)
  have bd: "\<forall>y. length rpo \<le> (if y < k then Suc T else T)" using T by simp
  note S = sound_upto_dom [OF env t(2) s bd]
  obtain q where q: "idom ! k = Some q" using S(1) k(2) by (auto simp: defd_def)
  have qk: "q < k" "defd idom q" using dtree_parent [OF t(1) k(1) _ q] k(2) t(2) by auto
  have pi: "i < length rpo \<and> k \<in> set (?G i)" if "i \<in> set (preds_at c rpo rpo_idx k)" for i
    using preds_at_less [OF env k(2) that] that k(2) by (simp add: pos_graph_iff)
  have "dom_rel ?G q k" using S(2) [OF k(2)] anc.step [OF anc.refl q k(1)] by blast
  then have "dom_rel ?G q i" if "i \<in> set (preds_at c rpo rpo_idx k)" for i
    using dom_rel_pred qk(1) pi [OF that] by blast
  then have "anc idom q r" using upd_okD(4) [OF r] keeps_doms_anc [OF t(1) keep] by blast
  moreover have "r < length idom" using upd_okD(1) [OF r] k(2) t(2) by simp
  ultimately have "q \<le> r" using anc_le [OF _ t(1)] by blast
  have "dom_rel ?G r i" if "reach ?G i" "k \<in> set (?G i)" for i
  proof -
    have i: "i \<in> set (preds_at c rpo rpo_idx k)" using that(2) by (simp add: pos_graph_iff)
    then have "anc idom r i" using upd_okD(3) [OF r anc.refl] S(1) pi by blast
    then show ?thesis using S(2) pi i by blast
  qed
  then have "dom_rel ?G r k" using dom_rel_preds k(1) by blast
  then have "dom_rel ?G r q"
    using keeps_domsD [OF keep _ k(1) q] S(1) k(2) upd_okD(1) [OF r] by blast
  then have "anc idom r q" using keeps_doms_anc [OF t(1) keep qk(2)] by blast
  then have "r \<le> q" using anc_le [OF _ t(1)] qk(2) by (simp add: defd_def)
  with \<open>q \<le> r\<close> show ?thesis using q by simp
qed

lemma dom_update_inv:
  assumes env: "chk_env c rpo rpo_idx" and inv: "chk_inv (pos_graph c rpo rpo_idx) (length rpo) T k idom"
    and k: "0 < k" "k < length rpo"
  shows "\<exists>idom' ch'. dom_update c rpo rpo_idx (idom, ch) k = Some (idom', ch') \<and>
    chk_inv (pos_graph c rpo rpo_idx) (length rpo) T (Suc k) idom' \<and>
    (\<not> ch' \<longrightarrow> \<not> ch \<and> idom' = idom) \<and> (length rpo \<le> T \<longrightarrow> ch' = ch)"
proof -
  let ?G = "pos_graph c rpo rpo_idx"
  have t: "dtree idom" "length idom = length rpo" and keep: "keeps_doms ?G idom"
    and dn: "\<forall>j<k. defd idom j" and s: "sound_upto ?G idom (\<lambda>y. if y < k then Suc T else T)"
    using inv by (auto simp: chk_inv_def)
  obtain r where u: "dom_update c rpo rpo_idx (idom, ch) k = Some (idom[k := Some r], ch \<or> idom ! k \<noteq> Some r)"
    and r: "upd_ok c rpo rpo_idx idom k r"
    using dom_update_correct [OF env t k dn] unfolding upd_ok_def by blast
  have "(\<lambda>y. if y < k then Suc T else T)(k := Suc T) = (\<lambda>y. if y < Suc k then Suc T else T)"
    by (auto simp: fun_eq_iff)
  then have "sound_upto ?G (idom[k := Some r]) (\<lambda>y. if y < Suc k then Suc T else T)"
    using sound_upto_update [OF env t k r s, of T] by simp
  moreover have "\<forall>j<Suc k. defd (idom[k := Some r]) j"
    using dn k(2) t(2) by (auto simp: less_Suc_eq intro!: defd_update)
  moreover have "dtree (idom[k := Some r])"
    using dtree_update [OF t(1) k(1)] k(2) t(2) upd_okD(1,2) [OF r] by simp
  ultimately have "chk_inv ?G (length rpo) T (Suc k) (idom[k := Some r])"
    using keeps_doms_update [OF env t k dn r keep] t(2) by (simp add: chk_inv_def)
  moreover have "idom ! k = Some r \<Longrightarrow> idom[k := Some r] = idom"
    using k(2) t(2) by (simp add: list_update_same_conv)
  ultimately show ?thesis
    using u stable_update [OF env inv k r] by (intro exI [of _ "idom[k := Some r]"] exI conjI) auto
qed

lemma dom_pass_correct:
  fixes c rpo rpo_idx
  defines "G \<equiv> pos_graph c rpo rpo_idx"
  assumes env: "chk_env c rpo rpo_idx" and inv: "chk_inv G (length rpo) T 0 idom"
  shows "\<exists>idom' ch. dom_pass c rpo rpo_idx idom = Some (idom', ch) \<and>
    chk_inv G (length rpo) T (length rpo) idom' \<and> (\<not> ch \<longrightarrow> idom' = idom) \<and> (length rpo \<le> T \<longrightarrow> \<not> ch)"
proof -
  have G: "G = pos_graph c rpo rpo_idx" by (simp add: G_def)
  have m: "0 < length rpo" using env by (simp add: chk_env_def)
  have t: "dtree idom" "length idom = length rpo" using inv by (auto simp: chk_inv_def)
  have "chk_inv G (length rpo) T 1 idom"
  proof -
    have d0: "defd idom 0" using t m by (simp add: defd_def dtree_def)
    have s0: "sound_upto G idom (\<lambda>y. T)" using inv by (simp add: chk_inv_def)
    have "sound_upto G idom (\<lambda>y. if y < 1 then Suc T else T)"
      unfolding sound_upto_def
    proof (intro allI impI)
      fix y us
      assume y: "y < length idom" and path: "entry_path G (y # us)"
        and len: "length us \<le> (if y < 1 then Suc T else T)"
      show "defd idom y \<and> (\<forall>x. anc idom x y \<longrightarrow> x \<in> set (y # us))"
      proof (cases "y = 0")
        case False
        then have "length us \<le> T" using len by simp
        then show ?thesis using sound_uptoD [OF s0 y path] by blast
      qed (simp add: d0)
    qed
    then show ?thesis using inv d0 by (simp add: chk_inv_def)
  qed
  then have base: "\<exists>idom' ch. try_foldl (dom_update c rpo rpo_idx) (idom, False) [1..<1] = Some (idom', ch) \<and>
      chk_inv G (length rpo) T 1 idom' \<and> (\<not> ch \<longrightarrow> idom' = idom) \<and> (length rpo \<le> T \<longrightarrow> \<not> ch)"
    by (intro exI [of _ idom] exI [of _ False]) simp
  have "\<exists>idom' ch. try_foldl (dom_update c rpo rpo_idx) (idom, False) [1..<Suc n] = Some (idom', ch) \<and>
      chk_inv G (length rpo) T (Suc n) idom' \<and> (\<not> ch \<longrightarrow> idom' = idom) \<and> (length rpo \<le> T \<longrightarrow> \<not> ch)"
    if "Suc n \<le> length rpo" for n
    using that
  proof (induction n)
    case 0
    show ?case using base by (intro exI [of _ idom] exI [of _ False]) auto
  next
    case (Suc n)
    then obtain idom1 ch1 where 1: "try_foldl (dom_update c rpo rpo_idx) (idom, False) [1..<Suc n] = Some (idom1, ch1)"
      "chk_inv G (length rpo) T (Suc n) idom1" "\<not> ch1 \<longrightarrow> idom1 = idom" "length rpo \<le> T \<longrightarrow> \<not> ch1"
      by auto
    obtain idom2 ch2 where 2: "dom_update c rpo rpo_idx (idom1, ch1) (Suc n) = Some (idom2, ch2)"
      "chk_inv G (length rpo) T (Suc (Suc n)) idom2" "\<not> ch2 \<longrightarrow> \<not> ch1 \<and> idom2 = idom1" "length rpo \<le> T \<longrightarrow> ch2 = ch1"
      using dom_update_inv [OF env 1(2) [unfolded G], of ch1] Suc.prems unfolding G by auto
    then show ?case using 1 2 by (auto simp: try_foldl_append)
  qed
  from this [of "length rpo - 1"] show ?thesis using m by (simp add: dom_pass_def del: upt_Suc)
qed

lemma chk_inv_next: "chk_inv G m T m idom \<Longrightarrow> chk_inv G m (Suc T) 0 idom"
  by (auto simp: chk_inv_def sound_upto_def)

definition dom_solved :: "(nat \<Rightarrow> nat list) \<Rightarrow> nat \<Rightarrow> idoms \<Rightarrow> bool" where
  \<comment> \<open>the ancestors are the dominators\<close>
  "dom_solved G m idom \<longleftrightarrow> dtree idom \<and> length idom = m \<and> (\<forall>y<m. defd idom y) \<and>
     keeps_doms G idom \<and> (\<forall>y<m. \<forall>x. anc idom x y \<longleftrightarrow> dom_rel G x y)"

lemma chk_inv_solved:
  assumes env: "chk_env c rpo rpo_idx" and inv: "chk_inv (pos_graph c rpo rpo_idx) (length rpo) T k idom"
    and T: "length rpo \<le> T"
  shows "dom_solved (pos_graph c rpo rpo_idx) (length rpo) idom"
proof -
  let ?G = "pos_graph c rpo rpo_idx"
  have t: "dtree idom" "length idom = length rpo" and keep: "keeps_doms ?G idom"
    and s: "sound_upto ?G idom (\<lambda>y. if y < k then Suc T else T)"
    using inv by (auto simp: chk_inv_def)
  have bd: "\<forall>y. length rpo \<le> (if y < k then Suc T else T)" using T by simp
  note S = sound_upto_dom [OF env t(2) s bd]
  show ?thesis unfolding dom_solved_def
    using t keep S keeps_doms_anc [OF t(1) keep] by blast
qed

lemma dom_iterate_correct:
  assumes env: "chk_env c rpo rpo_idx" and inv: "chk_inv (pos_graph c rpo rpo_idx) (length rpo) T 0 idom"
  shows "\<exists>idom'. dom_iterate c rpo rpo_idx idom = Some idom' \<and>
    dom_solved (pos_graph c rpo rpo_idx) (length rpo) idom'"
  using inv
proof (induction "length rpo - T" arbitrary: T idom rule: less_induct)
  case less
  let ?G = "pos_graph c rpo rpo_idx"
  obtain idom' ch where p: "dom_pass c rpo rpo_idx idom = Some (idom', ch)"
    "chk_inv ?G (length rpo) T (length rpo) idom'" "\<not> ch \<longrightarrow> idom' = idom" "length rpo \<le> T \<longrightarrow> \<not> ch"
    using dom_pass_correct [OF env less.prems] by blast
  show ?case
  proof (cases ch)
    case True
    then have "length rpo - Suc T < length rpo - T" using p(4) by linarith
    then obtain idom2 where "dom_iterate c rpo rpo_idx idom' = Some idom2" "dom_solved ?G (length rpo) idom2"
      using less.hyps [OF _ chk_inv_next [OF p(2)]] by blast
    then show ?thesis using p(1) True by (subst dom_iterate.simps) simp
  next
    case False
    have step: "chk_inv ?G (length rpo) (Suc S) 0 idom" if "chk_inv ?G (length rpo) S 0 idom" for S
      using dom_pass_correct [OF env that] p(1,3) False chk_inv_next by auto
    have "chk_inv ?G (length rpo) (T + n) 0 idom" for n
      by (induction n) (use less.prems step in auto)
    from this [of "length rpo"] have "dom_solved ?G (length rpo) idom"
      using chk_inv_solved [OF env, of "T + length rpo" 0 idom] by simp
    then show ?thesis using p(1,3) False by (subst dom_iterate.simps) simp
  qed
qed

section \<open>From positions to blocks\<close>

lemma zip_positions: "zip [0..<length xs] xs = map (\<lambda>i. (i, xs ! i)) [0..<length xs]"
  by (rule nth_equalityI) simp_all

lemma dom_positions_correct:
  assumes "distinct rpo" "\<forall>b\<in>set rpo. b < n"
  shows "\<exists>v. dom_positions n rpo = Some v \<and> length v = n \<and>
    (\<forall>b<n. \<forall>i. v ! b = Some i \<longleftrightarrow> i < length rpo \<and> rpo ! i = b)"
proof -
  have "\<exists>v. try_foldl (\<lambda>v (i, bid). vec_set v bid (Some i)) (replicate n None) (map (\<lambda>i. (i, rpo ! i)) [0..<k]) = Some v \<and>
      length v = n \<and> (\<forall>b<n. \<forall>i. v ! b = Some i \<longleftrightarrow> i < k \<and> rpo ! i = b)" if "k \<le> length rpo" for k
    using that
  proof (induction k)
    case (Suc k)
    then obtain v where v: "try_foldl (\<lambda>v (i, bid). vec_set v bid (Some i)) (replicate n None) (map (\<lambda>i. (i, rpo ! i)) [0..<k]) = Some v"
      "length v = n" "\<forall>b<n. \<forall>i. v ! b = Some i \<longleftrightarrow> i < k \<and> rpo ! i = b" by auto
    have rk: "rpo ! k < n" using Suc.prems assms(2) by simp
    have "\<forall>b<n. \<forall>i. v[rpo ! k := Some k] ! b = Some i \<longleftrightarrow> i < Suc k \<and> rpo ! i = b"
    proof (intro allI impI)
      fix b i assume b: "b < n"
      show "v[rpo ! k := Some k] ! b = Some i \<longleftrightarrow> i < Suc k \<and> rpo ! i = b"
      proof (cases "b = rpo ! k")
        case True
        have "i < Suc k \<and> rpo ! i = rpo ! k \<longleftrightarrow> i = k"
          using Suc.prems assms(1) by (auto simp: nth_eq_iff_index_eq)
        then show ?thesis using True rk v(2) by auto
      next
        case False
        then show ?thesis using v(3) b by (auto simp: less_Suc_eq)
      qed
    qed
    then show ?case using v rk by (simp add: try_foldl_append)
  qed simp
  from this [of "length rpo"] show ?thesis by (simp add: dom_positions_def zip_positions)
qed

lemma dom_result_correct:
  assumes "distinct rpo" "\<forall>b\<in>set rpo. b < n" "length idom = length rpo"
    and "\<forall>i<length rpo. \<exists>p<length rpo. idom ! i = Some p"
  shows "\<exists>dt. dom_result n rpo idom = Some dt \<and> length dt = n \<and>
    (\<forall>i<length rpo. dt ! (rpo ! i) = (if i = 0 then None else Some (rpo ! the (idom ! i)))) \<and>
    (\<forall>b<n. b \<notin> set rpo \<longrightarrow> dt ! b = None)"
proof -
  let ?step = "\<lambda>result (i, bid).
          if i = 0 then vec_set result bid None
          else do { d \<leftarrow> vec_get idom i;
                    (case d of
                       None \<Rightarrow> Some result
                     | Some p \<Rightarrow> do { b \<leftarrow> vec_get rpo p; vec_set result bid (Some b) }) }"
  let ?val = "\<lambda>i. if i = 0 then None else Some (rpo ! the (idom ! i))"
  have "\<exists>dt. try_foldl ?step (replicate n None) (map (\<lambda>i. (i, rpo ! i)) [0..<k]) = Some dt \<and>
      length dt = n \<and> (\<forall>i<k. dt ! (rpo ! i) = ?val i) \<and> (\<forall>b<n. b \<notin> set rpo \<longrightarrow> dt ! b = None)"
    if "k \<le> length rpo" for k
    using that
  proof (induction k)
    case (Suc k)
    then obtain dt where dt: "try_foldl ?step (replicate n None) (map (\<lambda>i. (i, rpo ! i)) [0..<k]) = Some dt"
      "length dt = n" "\<forall>i<k. dt ! (rpo ! i) = ?val i" "\<forall>b<n. b \<notin> set rpo \<longrightarrow> dt ! b = None" by auto
    have k: "k < length rpo" "rpo ! k < n" using Suc.prems assms(2) by simp_all
    obtain p where p: "p < length rpo" "idom ! k = Some p" using assms(4) k(1) by blast
    have "?step dt (k, rpo ! k) = Some (dt[rpo ! k := ?val k])"
      using k p dt(2) assms(3) by (cases "k = 0") simp_all
    moreover have "\<forall>i<Suc k. dt[rpo ! k := ?val k] ! (rpo ! i) = ?val i"
    proof (intro allI impI)
      fix i assume "i < Suc k"
      then show "dt[rpo ! k := ?val k] ! (rpo ! i) = ?val i"
        using dt(2,3) k assms(1) by (cases "i = k") (simp_all add: nth_eq_iff_index_eq)
    qed
    moreover have "\<forall>b<n. b \<notin> set rpo \<longrightarrow> dt[rpo ! k := ?val k] ! b = None"
      using dt(4) k(1) by (metis nth_list_update_neq nth_mem)
    ultimately show ?case using dt(1,2) by (simp add: try_foldl_append)
  qed simp
  from this [of "length rpo"] show ?thesis by (simp add: dom_result_def zip_positions)
qed

definition rpo_env :: "ir_function \<Rightarrow> cfg \<Rightarrow> block_id list \<Rightarrow> nat option list \<Rightarrow> bool" where
  "rpo_env f c rpo rpo_idx \<longleftrightarrow>
     wf_func f \<and> cfg_for f c \<and> is_rpo (succ_list f) rpo \<and> (\<forall>b\<in>set rpo. b < length (blocks f)) \<and>
     length rpo_idx = length (blocks f) \<and>
     (\<forall>b<length (blocks f). \<forall>i. rpo_idx ! b = Some i \<longleftrightarrow> i < length rpo \<and> rpo ! i = b)"

lemma rpo_env_preds:
  assumes "rpo_env f c rpo rpo_idx" "i < length rpo"
  shows "cfg_predecessors c (rpo ! i) = Some (pred_list f (rpo ! i))"
    and "in_range rpo_idx (length rpo) (pred_list f (rpo ! i))"
    and "j \<in> set (preds_at c rpo rpo_idx i) \<longleftrightarrow> j < length rpo \<and> rpo ! i \<in> set (succ_list f (rpo ! j))"
proof -
  have b: "rpo ! i < length (blocks f)" using assms by (simp add: rpo_env_def)
  then show p: "cfg_predecessors c (rpo ! i) = Some (pred_list f (rpo ! i))"
    using assms(1) by (simp add: rpo_env_def cfg_for_def cfg_predecessors_def)
  show "in_range rpo_idx (length rpo) (pred_list f (rpo ! i))"
    using assms(1) by (auto simp: in_range_def set_pred_list rpo_env_def)
  have idx: "rpo_idx ! p = Some j \<longleftrightarrow> j < length rpo \<and> rpo ! j = p" if "p < length (blocks f)" for p
    using assms(1) that unfolding rpo_env_def by blast
  have "rpo ! j < length (blocks f)" if "j < length rpo" using assms(1) that by (simp add: rpo_env_def)
  then show "j \<in> set (preds_at c rpo rpo_idx i) \<longleftrightarrow> j < length rpo \<and> rpo ! i \<in> set (succ_list f (rpo ! j))"
    using idx by (auto simp: preds_at_def p set_pos_preds set_pred_list)
qed

lemma rpo_env_chk:
  assumes "rpo_env f c rpo rpo_idx"
  shows "chk_env c rpo rpo_idx"
proof -
  have ord: "is_rpo (succ_list f) rpo" using assms by (simp add: rpo_env_def)
  have "\<exists>j\<in>set (preds_at c rpo rpo_idx i). j < i" if "i < length rpo" "0 < i" for i
    using is_rpoD(5) [OF ord that] rpo_env_preds(3) [OF assms that(1)] that by fastforce
  then show ?thesis
    using rpo_env_preds(1,2) [OF assms] is_rpoD(3) [OF ord] by (auto simp: chk_env_def)
qed

lemma rpo_env_graph:
  assumes "rpo_env f c rpo rpo_idx"
  shows "i \<in> set (pos_graph c rpo rpo_idx j) \<longleftrightarrow>
    i < length rpo \<and> j < length rpo \<and> rpo ! i \<in> set (succ_list f (rpo ! j))"
  using rpo_env_preds(3) [OF assms] by (auto simp: pos_graph_iff)

lemma rpo_env_path:
  assumes env: "rpo_env f c rpo rpo_idx"
  shows "entry_path (pos_graph c rpo rpo_idx) us \<Longrightarrow> entry_path (succ_list f) (map ((!) rpo) us)"
    and "entry_path (succ_list f) bs \<Longrightarrow> \<exists>us. bs = map ((!) rpo) us \<and> entry_path (pos_graph c rpo rpo_idx) us"
proof -
  have ord: "is_rpo (succ_list f) rpo" using env by (simp add: rpo_env_def)
  show "entry_path (succ_list f) (map ((!) rpo) us)" if "entry_path (pos_graph c rpo rpo_idx) us"
    using that
    by (induction rule: entry_path.induct)
      (auto simp: rpo_env_graph [OF env] is_rpoD(4) [OF ord] intro: entry_path.entry)
  show "\<exists>us. bs = map ((!) rpo) us \<and> entry_path (pos_graph c rpo rpo_idx) us" if "entry_path (succ_list f) bs"
    using that
  proof (induction rule: entry_path.induct)
    case entry
    then show ?case using is_rpoD(4) [OF ord] by (intro exI [of _ "[0]"]) (auto intro: entry_path.entry)
  next
    case (step u us v)
    then obtain i ks where i: "u = rpo ! i" "us = map ((!) rpo) ks" "entry_path (pos_graph c rpo rpo_idx) (i # ks)"
      by (auto simp: Cons_eq_map_conv)
    have m: "0 < length rpo" using is_rpoD(3) [OF ord] by simp
    then have il: "i < length rpo" using pos_graph_path_range [OF i(3)] by simp
    have "reach (succ_list f) v" using step.hyps reach_step by (metis reach_def)
    then obtain j where j: "j < length rpo" "rpo ! j = v" using is_rpoD(2) [OF ord] by (metis in_set_conv_nth mem_Collect_eq)
    then have "entry_path (pos_graph c rpo rpo_idx) (j # i # ks)"
      using i il step.hyps(2) by (simp add: rpo_env_graph [OF env])
    then show ?case using i j by (intro exI [of _ "j # i # ks"]) simp
  qed
qed

lemma rpo_env_dom:
  assumes env: "rpo_env f c rpo rpo_idx" and ij: "i < length rpo" "j < length rpo"
  shows "dom_rel (pos_graph c rpo rpo_idx) i j \<longleftrightarrow> dom_rel (succ_list f) (rpo ! i) (rpo ! j)"
proof -
  have ord: "is_rpo (succ_list f) rpo" using env by (simp add: rpo_env_def)
  have m: "0 < length rpo" using is_rpoD(3) [OF ord] by simp
  have mem: "i \<in> set us \<longleftrightarrow> rpo ! i \<in> set (map ((!) rpo) us)" if "set us \<subseteq> {..<length rpo}" for us
    using that ij is_rpoD(1) [OF ord] by (auto simp: nth_eq_iff_index_eq)
  show ?thesis
  proof
    assume d: "dom_rel (pos_graph c rpo rpo_idx) i j"
    show "dom_rel (succ_list f) (rpo ! i) (rpo ! j)"
      unfolding dom_rel_def
    proof (intro allI impI)
      fix bs assume "entry_path (succ_list f) (rpo ! j # bs)"
      from rpo_env_path(2) [OF env this]
      obtain us where us: "rpo ! j # bs = map ((!) rpo) us" "entry_path (pos_graph c rpo rpo_idx) us"
        by (elim exE conjE)
      then obtain k ks where k: "us = k # ks" "rpo ! k = rpo ! j" by (auto simp: Cons_eq_map_conv)
      have rng: "set us \<subseteq> {..<length rpo}" using pos_graph_path_range [OF us(2) m] .
      then have "k = j" using k ij is_rpoD(1) [OF ord] by (simp add: nth_eq_iff_index_eq)
      then have "i \<in> set us" using d us(2) k by (auto simp: dom_rel_def)
      then show "rpo ! i \<in> set (rpo ! j # bs)" using mem [OF rng] us(1) by simp
    qed
  next
    assume d: "dom_rel (succ_list f) (rpo ! i) (rpo ! j)"
    show "dom_rel (pos_graph c rpo rpo_idx) i j"
      unfolding dom_rel_def
    proof (intro allI impI)
      fix us assume p: "entry_path (pos_graph c rpo rpo_idx) (j # us)"
      have "rpo ! i \<in> set (map ((!) rpo) (j # us))"
        using d rpo_env_path(1) [OF env p] unfolding dom_rel_def list.map by blast
      then show "i \<in> set (j # us)" using mem [OF pos_graph_path_range [OF p m]] by blast
    qed
  qed
qed

section \<open>The computed tree\<close>

definition idom_ok :: "(nat \<Rightarrow> nat list) \<Rightarrow> nat \<Rightarrow> dom_tree \<Rightarrow> bool" where
  \<comment> \<open>the specification: the entry of \<open>b\<close> is its closest strict dominator, if it has one\<close>
  "idom_ok sg n dt \<longleftrightarrow>
     length dt = n \<and>
     (\<forall>b<n. (dt ! b = None \<longleftrightarrow> b = 0 \<or> \<not> reach sg b) \<and>
        (\<forall>d. dt ! b = Some d \<longrightarrow> dom_rel sg d b \<and> d \<noteq> b \<and>
           (\<forall>x. dom_rel sg x b \<longrightarrow> x \<noteq> b \<longrightarrow> dom_rel sg x d)))"

lemma idom_okD:
  assumes "idom_ok sg n dt" "b < n"
  shows "length dt = n" "dt ! b = None \<longleftrightarrow> b = 0 \<or> \<not> reach sg b"
    "\<And>d. dt ! b = Some d \<Longrightarrow> dom_rel sg d b" "\<And>d. dt ! b = Some d \<Longrightarrow> d \<noteq> b"
    "\<And>d x. dt ! b = Some d \<Longrightarrow> dom_rel sg x b \<Longrightarrow> x \<noteq> b \<Longrightarrow> dom_rel sg x d"
proof -
  have all: "(dt ! b = None \<longleftrightarrow> b = 0 \<or> \<not> reach sg b) \<and>
      (\<forall>d. dt ! b = Some d \<longrightarrow> dom_rel sg d b \<and> d \<noteq> b \<and>
         (\<forall>x. dom_rel sg x b \<longrightarrow> x \<noteq> b \<longrightarrow> dom_rel sg x d))"
    using assms by (simp add: idom_ok_def)
  then show "dt ! b = None \<longleftrightarrow> b = 0 \<or> \<not> reach sg b" by (rule conjunct1)
  show "length dt = n" using assms(1) by (simp add: idom_ok_def)
  show "dom_rel sg d b" "d \<noteq> b" if "dt ! b = Some d" for d
    using all that by simp_all
  show "dom_rel sg x d" if "dt ! b = Some d" "dom_rel sg x b" "x \<noteq> b" for d x
    using all that by simp
qed

lemma chk_inv_start:
  assumes "0 < m"
  shows "chk_inv G m 0 0 ((replicate m None)[0 := Some 0])"
proof -
  let ?i = "(replicate m None)[0 := Some 0] :: idoms"
  have undef: "?i ! i = None" if "0 < i" "i < m" for i using that by simp
  have "?i ! 0 = Some 0" using assms by simp
  moreover have "\<forall>i<length ?i. \<forall>p. 0 < i \<longrightarrow> ?i ! i = Some p \<longrightarrow> p < i \<and> ?i ! p \<noteq> None"
    using undef by (simp del: nth_list_update_neq nth_list_update)
  ultimately have "dtree ?i" using assms by (simp only: dtree_def length_list_update length_replicate)
  moreover have "keeps_doms G ?i" using undef by (auto simp: keeps_doms_def)
  moreover have "sound_upto G ?i (\<lambda>y. 0)" unfolding sound_upto_def
  proof (intro allI impI)
    fix y us assume "y < length ?i" "entry_path G (y # us)" "length us \<le> 0"
    then have "y = 0" by simp
    then show "defd ?i y \<and> (\<forall>x. anc ?i x y \<longrightarrow> x \<in> set (y # us))" using assms by (simp add: defd_def)
  qed
  ultimately show ?thesis by (simp add: chk_inv_def)
qed

lemma rpo_env_exists:
  assumes "wf_func f" "blocks f \<noteq> []" "cfg_for f c"
  obtains rpo v where "cfg_rpo c = Some rpo" "dom_positions (length (blocks f)) rpo = Some v" "rpo_env f c rpo v"
proof -
  obtain rpo where rpo: "cfg_rpo c = Some rpo" "is_rpo (succ_list f) rpo"
    using cfg_rpo_wf [OF assms] by blast
  have rng: "\<forall>b\<in>set rpo. b < length (blocks f)"
    using is_rpoD(2) [OF rpo(2)] reach_bounded [of "length (blocks f)" "succ_list f"] wf_func_succ [OF assms(1)] assms(2)
    by auto
  then obtain v where "dom_positions (length (blocks f)) rpo = Some v" "length v = length (blocks f)"
    "\<forall>b<length (blocks f). \<forall>i. v ! b = Some i \<longleftrightarrow> i < length rpo \<and> rpo ! i = b"
    using dom_positions_correct [OF is_rpoD(1) [OF rpo(2)]] by blast
  then show thesis using that rpo rng assms by (simp add: rpo_env_def)
qed

lemma dom_solved_idom_ok:
  assumes env: "rpo_env f c rpo v" and sol: "dom_solved (pos_graph c rpo v) (length rpo) idom"
    and dt: "length dt = length (blocks f)"
      "\<forall>i<length rpo. dt ! (rpo ! i) = (if i = 0 then None else Some (rpo ! the (idom ! i)))"
      "\<forall>b<length (blocks f). b \<notin> set rpo \<longrightarrow> dt ! b = None"
  shows "idom_ok (succ_list f) (length (blocks f)) dt"
  unfolding idom_ok_def
proof (intro conjI allI impI)
  let ?G = "pos_graph c rpo v"
  have ord: "is_rpo (succ_list f) rpo" using env by (simp add: rpo_env_def)
  have t: "dtree idom" "length idom = length rpo" and keep: "keeps_doms ?G idom"
    and dn: "\<And>y. y < length rpo \<Longrightarrow> defd idom y"
    and anc: "\<And>x y. y < length rpo \<Longrightarrow> anc idom x y \<longleftrightarrow> dom_rel ?G x y"
    using sol by (auto simp: dom_solved_def)
  have at: "\<exists>i<length rpo. b = rpo ! i" if "reach (succ_list f) b" for b
    using that is_rpoD(2) [OF ord] by (metis in_set_conv_nth mem_Collect_eq)
  fix b assume b: "b < length (blocks f)"
  show "dt ! b = None \<longleftrightarrow> b = 0 \<or> \<not> reach (succ_list f) b"
  proof (cases "reach (succ_list f) b")
    case True
    then obtain i where i: "i < length rpo" "b = rpo ! i" using at by blast
    then have "b = 0 \<longleftrightarrow> i = 0"
      using is_rpoD(1,3,4) [OF ord] nth_eq_iff_index_eq [of rpo i 0] by auto
    then show ?thesis using dt(2) i True by simp
  next
    case False
    then have "b \<notin> set rpo" using is_rpoD(2) [OF ord] by simp
    then show ?thesis using dt(3) b False by simp
  qed
  fix d assume d: "dt ! b = Some d"
  then have "b \<in> set rpo" using dt(3) b by (metis option.distinct(1))
  then obtain i where i: "i < length rpo" "b = rpo ! i" by (metis in_set_conv_nth)
  then have i0: "0 < i" "d = rpo ! the (idom ! i)" using dt(2) d by (auto split: if_splits)
  obtain q where q: "idom ! i = Some q" using dn [OF i(1)] by (auto simp: defd_def)
  have qi: "q < i" "d = rpo ! q" using dtree_parent [OF t(1) i0(1) _ q] i(1) i0(2) t(2) q by auto
  then have ql: "q < length rpo" using i(1) by simp
  have "dom_rel ?G q i" using anc i(1) anc.step [OF anc.refl q i0(1)] by blast
  then show "dom_rel (succ_list f) d b" using rpo_env_dom [OF env ql i(1)] qi(2) i(2) by simp
  show "d \<noteq> b" using qi i ql is_rpoD(1) [OF ord] by (simp add: nth_eq_iff_index_eq)
  fix x assume x: "dom_rel (succ_list f) x b" "x \<noteq> b"
  have "reach (succ_list f) b" using i is_rpoD(2) [OF ord] nth_mem by blast
  then obtain k where k: "k < length rpo" "x = rpo ! k" using at dom_rel_reach [OF x(1)] by blast
  then have "dom_rel ?G k i" "k \<noteq> i" using rpo_env_dom [OF env k(1) i(1)] x i(2) by auto
  then have "dom_rel ?G k q" using keeps_domsD [OF keep dn [OF i(1)] i0(1) q] by blast
  then show "dom_rel (succ_list f) x d" using rpo_env_dom [OF env k(1) ql] k(2) qi(2) by simp
qed (use dt in simp)

lemma dom_compute_ok:
  assumes "wf_func f" "blocks f \<noteq> []" "cfg_for f c"
  shows "\<exists>dt. dom_compute f c = Some dt \<and> idom_ok (succ_list f) (length (blocks f)) dt"
proof -
  obtain rpo v where rpo: "cfg_rpo c = Some rpo" "dom_positions (length (blocks f)) rpo = Some v" "rpo_env f c rpo v"
    by (rule rpo_env_exists [OF assms])
  have ord: "is_rpo (succ_list f) rpo" and rng: "\<forall>b\<in>set rpo. b < length (blocks f)"
    using rpo(3) by (auto simp: rpo_env_def)
  have m: "0 < length rpo" using is_rpoD(3) [OF ord] by simp
  obtain idom where idom: "dom_iterate c rpo v ((replicate (length rpo) None)[0 := Some 0]) = Some idom"
    and sol: "dom_solved (pos_graph c rpo v) (length rpo) idom"
    using dom_iterate_correct [OF rpo_env_chk [OF rpo(3)] chk_inv_start [OF m]] by blast
  have "\<exists>p<length rpo. idom ! i = Some p" if i: "i < length rpo" for i
  proof -
    have t: "dtree idom" "length idom = length rpo" "defd idom i" using sol i by (auto simp: dom_solved_def)
    obtain p where p: "idom ! i = Some p" using t(3) by (auto simp: defd_def)
    have "p \<le> i"
    proof (cases "i = 0")
      case True
      then show ?thesis using t(1) p by (simp add: dtree_def)
    next
      case False
      then show ?thesis using dtree_parent [OF t(1) _ _ p] i t(2) by simp
    qed
    then show ?thesis using p i by auto
  qed
  then have "\<forall>i<length rpo. \<exists>p<length rpo. idom ! i = Some p" by blast
  moreover have "length idom = length rpo" using sol by (simp add: dom_solved_def)
  ultimately have "\<exists>dt. dom_result (length (blocks f)) rpo idom = Some dt \<and> length dt = length (blocks f) \<and>
    (\<forall>i<length rpo. dt ! (rpo ! i) = (if i = 0 then None else Some (rpo ! the (idom ! i)))) \<and>
    (\<forall>b<length (blocks f). b \<notin> set rpo \<longrightarrow> dt ! b = None)"
    by (intro dom_result_correct [OF is_rpoD(1) [OF ord] rng])
  then obtain dt where "dom_result (length (blocks f)) rpo idom = Some dt" "length dt = length (blocks f)"
    "\<forall>i<length rpo. dt ! (rpo ! i) = (if i = 0 then None else Some (rpo ! the (idom ! i)))"
    "\<forall>b<length (blocks f). b \<notin> set rpo \<longrightarrow> dt ! b = None"
    by (elim exE conjE)
  then show ?thesis
    using dom_solved_idom_ok [OF rpo(3) sol] rpo(1,2) idom m assms(2)
    by (simp add: dom_compute_def num_blocks_def Let_def)
qed

section \<open>The queries\<close>

lemma dom_rel_bounded:
  assumes "idom_ok sg n dt" "b < n" "reach sg b"
  shows "finite {x. dom_rel sg x b}"
proof -
  obtain us where "entry_path sg (b # us)" using assms(3) by (auto simp: reach_def)
  then have "{x. dom_rel sg x b} \<subseteq> set (b # us)" by (auto simp: dom_rel_def)
  then show ?thesis using finite_subset by blast
qed

lemma idom_ok_fewer:
  assumes ok: "idom_ok sg n dt" and b: "b < n" "dt ! b = Some d"
  shows "reach sg b" "reach sg d" "card {x. dom_rel sg x d} < card {x. dom_rel sg x b}"
proof -
  show rb: "reach sg b" using idom_okD(2) [OF ok b(1)] b(2) by auto
  then show "reach sg d" using idom_okD(3) [OF ok b] dom_rel_reach by blast
  have "{x. dom_rel sg x d} \<subseteq> {x. dom_rel sg x b}" using idom_okD(3) [OF ok b] dom_rel_trans by blast
  moreover have "\<not> dom_rel sg b d"
    using dom_rel_antisym idom_okD(3,4) [OF ok b] rb by blast
  ultimately have "{x. dom_rel sg x d} \<subset> {x. dom_rel sg x b}" using dom_rel_refl by blast
  then show "card {x. dom_rel sg x d} < card {x. dom_rel sg x b}"
    using psubset_card_mono dom_rel_bounded [OF ok b(1) rb] by blast
qed

definition in_bounds :: "(nat \<Rightarrow> nat list) \<Rightarrow> nat \<Rightarrow> bool" where
  "in_bounds sg n \<longleftrightarrow> (\<forall>b. reach sg b \<longrightarrow> b < n)"

lemma strictly_dominates_correct:
  assumes ok: "idom_ok sg n dt" and bd: "in_bounds sg n" and b: "b < n" "reach sg b"
  shows "strictly_dominates dt a b = Some (a \<noteq> b \<and> dom_rel sg a b)"
  using b
proof (induction "card {x. dom_rel sg x b}" arbitrary: b rule: less_induct)
  case less
  note D = idom_okD [OF ok less.prems(1)]
  show ?case
  proof (cases "dt ! b")
    case None
    then have "b = 0" using D(2) less.prems(2) by simp
    then show ?thesis using None less.prems(1) D(1) by (subst strictly_dominates.simps) (auto simp: dom_rel_entry)
  next
    case (Some d)
    note F = idom_ok_fewer [OF ok less.prems(1) Some]
    have dn: "d < n" using F(2) bd by (simp add: in_bounds_def)
    show ?thesis
    proof (cases "d = a")
      case True
      then show ?thesis using Some less.prems(1) D by (subst strictly_dominates.simps) auto
    next
      case False
      have step: "strictly_dominates dt a b = strictly_dominates dt a d"
        using Some less.prems(1) D(1,4) False by (subst strictly_dominates.simps) auto
      have "a \<noteq> d \<and> dom_rel sg a d \<longleftrightarrow> a \<noteq> b \<and> dom_rel sg a b"
        using False D(3,5) [OF Some] dom_rel_trans dom_rel_antisym less.prems(2) D(4) [OF Some] by metis
      then show ?thesis using step less.hyps [OF F(3) dn F(2)] by simp
    qed
  qed
qed

lemma dominates_correct:
  assumes "idom_ok sg n dt" "in_bounds sg n" "b < n" "reach sg b"
  shows "dominates dt a b = Some (dom_rel sg a b)"
  using strictly_dominates_correct [OF assms] by (auto simp: dominates_def)

section \<open>The dominance frontier\<close>

abbreviation df_mem :: "df_map \<Rightarrow> block_id \<Rightarrow> block_id \<Rightarrow> bool" where
  "df_mem df b y \<equiv> y \<in> set (map_default [] df b)"

lemma df_mem_push: "df_mem (entry_push df r y) b z \<longleftrightarrow> df_mem df b z \<or> (z = y \<and> b = r)"
  by auto

lemma df_run_reachable:
  assumes ok: "idom_ok sg n dt" and bd: "in_bounds sg n" and r: "reach sg r" "dom_rel sg e r"
  shows "\<exists>df'. df_run dt y (Some e) r df = Some df' \<and>
    (\<forall>b z. df_mem df' b z \<longleftrightarrow> df_mem df b z \<or> (z = y \<and> dom_rel sg b r \<and> \<not> dom_rel sg b e))"
  using r
proof (induction "card {x. dom_rel sg x r}" arbitrary: r df rule: less_induct)
  case less
  have rn: "r < n" using bd less.prems by (simp add: in_bounds_def)
  note D = idom_okD [OF ok rn]
  show ?case
  proof (cases "r = e")
    case True
    then show ?thesis by (subst df_run.simps) auto
  next
    case False
    then have "r \<noteq> 0" using less.prems(2) by (metis dom_rel_entry)
    then obtain d where d: "dt ! r = Some d" using D(2) less.prems(1) by auto
    note F = idom_ok_fewer [OF ok rn d]
    have ed: "dom_rel sg e d" using D(5) [OF d less.prems(2)] False by blast
    obtain df' where df': "df_run dt y (Some e) d (entry_push df r y) = Some df'"
      "\<forall>b z. df_mem df' b z \<longleftrightarrow> df_mem (entry_push df r y) b z \<or> (z = y \<and> dom_rel sg b d \<and> \<not> dom_rel sg b e)"
      using less.hyps [OF F(3,2) ed, of "entry_push df r y"] by blast
    have "df_run dt y (Some e) r df = Some df'"
      using False d rn D(1) df'(1) by (subst df_run.simps) simp
    moreover have "dom_rel sg b r \<and> \<not> dom_rel sg b e \<longleftrightarrow> b = r \<or> (dom_rel sg b d \<and> \<not> dom_rel sg b e)" for b
    proof -
      have "\<not> dom_rel sg r e"
      proof
        assume "dom_rel sg r e"
        then have "r = e" using dom_rel_antisym [of sg r e] less.prems dom_rel_reach by blast
        with False show False by simp
      qed
      moreover have "dom_rel sg b r \<longleftrightarrow> b = r \<or> dom_rel sg b d"
        using D(3,5) [OF d] dom_rel_trans dom_rel_refl by blast
      ultimately show ?thesis by blast
    qed
    ultimately show ?thesis using df'(2) unfolding df_mem_push by blast
  qed
qed

lemma df_run_unreachable:
  assumes ok: "idom_ok sg n dt" and r: "r < n" "\<not> reach sg r" "r \<noteq> e"
  shows "df_run dt y (Some e) r df = Some (entry_push df r y)"
  using idom_okD(1,2) [OF ok r(1)] r by (subst df_run.simps) auto

lemma df_preds:
  assumes ok: "idom_ok sg n dt" and bd: "in_bounds sg n"
    and ps: "\<forall>p\<in>set ps. p < n \<and> (reach sg p \<longrightarrow> dom_rel sg e p)" and e: "reach sg e"
  shows "\<exists>df'. try_foldl (\<lambda>df p. df_run dt y (Some e) p df) df ps = Some df' \<and>
    (\<forall>b z. reach sg b \<longrightarrow>
       (df_mem df' b z \<longleftrightarrow> df_mem df b z \<or>
          (z = y \<and> (\<exists>p\<in>set ps. reach sg p \<and> dom_rel sg b p \<and> \<not> dom_rel sg b e))))"
  using ps
proof (induction ps arbitrary: df)
  case (Cons p ps)
  have "\<exists>df1. df_run dt y (Some e) p df = Some df1 \<and>
    (\<forall>b z. reach sg b \<longrightarrow>
       (df_mem df1 b z \<longleftrightarrow> df_mem df b z \<or> (z = y \<and> reach sg p \<and> dom_rel sg b p \<and> \<not> dom_rel sg b e)))"
  proof (cases "reach sg p")
    case True
    then show ?thesis using df_run_reachable [OF ok bd True, of e y df] Cons.prems by auto
  next
    case False
    then have "p \<noteq> e" using e by auto
    then show ?thesis using df_run_unreachable [OF ok _ False] Cons.prems False df_mem_push by auto
  qed
  then obtain df1 where 1: "df_run dt y (Some e) p df = Some df1"
    "\<And>b z. reach sg b \<Longrightarrow>
       df_mem df1 b z \<longleftrightarrow> df_mem df b z \<or> (z = y \<and> reach sg p \<and> dom_rel sg b p \<and> \<not> dom_rel sg b e)"
    by blast
  obtain df' where 2: "try_foldl (\<lambda>df p. df_run dt y (Some e) p df) df1 ps = Some df'"
    "\<forall>b z. reach sg b \<longrightarrow>
       (df_mem df' b z \<longleftrightarrow> df_mem df1 b z \<or>
          (z = y \<and> (\<exists>p\<in>set ps. reach sg p \<and> dom_rel sg b p \<and> \<not> dom_rel sg b e)))"
    using Cons.IH [of df1] Cons.prems by auto
  have "try_foldl (\<lambda>df p. df_run dt y (Some e) p df) df (p # ps) = Some df'" using 1(1) 2(1) by simp
  then show ?case using 1(2) 2(2) by auto
qed simp

definition in_frontier :: "(nat \<Rightarrow> nat list) \<Rightarrow> block_id \<Rightarrow> block_id \<Rightarrow> bool" where
  \<comment> \<open>\<open>y\<close> is in the dominance frontier of \<open>b\<close>\<close>
  "in_frontier sg b y \<longleftrightarrow>
     (\<exists>p. reach sg p \<and> y \<in> set (sg p) \<and> dom_rel sg b p) \<and> \<not> (dom_rel sg b y \<and> b \<noteq> y)"

lemma idom_dom_iff:
  assumes ok: "idom_ok sg n dt" and y: "y < n" "dt ! y = Some e"
  shows "dom_rel sg b e \<longleftrightarrow> dom_rel sg b y \<and> b \<noteq> y"
  using idom_okD(3,4,5) [OF ok y] dom_rel_trans dom_rel_antisym idom_ok_fewer(1,2) [OF ok y] by metis

lemma single_pred_no_frontier:
  assumes y: "reach sg y" "y \<noteq> 0" and single: "\<And>q. y \<in> set (sg q) \<Longrightarrow> q = p" and b: "dom_rel sg b p"
  shows "dom_rel sg b y \<and> b \<noteq> y"
proof -
  obtain us where "entry_path sg (y # us)" using y(1) by (auto simp: reach_def)
  then obtain ws where ws: "entry_path sg (y # ws)" "distinct (y # ws)" using entry_path_simple by fastforce
  then obtain u vs where u: "ws = u # vs" "y \<in> set (sg u)" "entry_path sg (u # vs)"
    using y(2) entry_path_Cons [of sg y ws] by blast
  have p: "p = u" using single u(2) by blast
  then have "p \<noteq> y" using ws(2) u(1) by auto
  have py: "dom_rel sg p y" using dom_rel_preds [OF y(2), of sg p] single by force
  have "b \<noteq> y"
  proof
    assume "b = y"
    then have "p = y" using b py dom_rel_antisym [of sg p y] y(1) by blast
    with \<open>p \<noteq> y\<close> show False by simp
  qed
  then show ?thesis using b py dom_rel_trans by blast
qed

lemma df_block_correct:
  assumes f: "wf_func f" "cfg_for f c" "blocks f \<noteq> []"
    and ok: "idom_ok (succ_list f) (length (blocks f)) dt" and y: "y < length (blocks f)"
  shows "\<exists>df'. df_block dt c df y = Some df' \<and>
    (\<forall>b z. reach (succ_list f) b \<longrightarrow>
       (df_mem df' b z \<longleftrightarrow> df_mem df b z \<or>
          (z = y \<and> y \<noteq> 0 \<and> reach (succ_list f) y \<and> in_frontier (succ_list f) b y)))"
proof -
  let ?sg = "succ_list f" and ?n = "length (blocks f)"
  have bd: "in_bounds ?sg ?n"
    using reach_bounded [of ?n ?sg] wf_func_succ [OF f(1)] f(3) by (auto simp: in_bounds_def)
  note D = idom_okD [OF ok y]
  have preds: "cfg_predecessors c y = Some (pred_list f y)"
    using f(2) y by (simp add: cfg_for_def cfg_predecessors_def)
  show ?thesis
  proof (cases "dt ! y")
    case None
    then show ?thesis using D y by (auto simp: df_block_def)
  next
    case (Some e)
    then have y0: "y \<noteq> 0" "reach ?sg y" using D(2) by auto
    have fr: "in_frontier ?sg b y \<longleftrightarrow> (\<exists>p\<in>set (pred_list f y). reach ?sg p \<and> dom_rel ?sg b p \<and> \<not> dom_rel ?sg b e)" for b
      using idom_dom_iff [OF ok y Some] bd by (auto simp: in_frontier_def set_pred_list in_bounds_def)
    show ?thesis
    proof (cases "length (pred_list f y) < 2")
      case True
      have "\<not> in_frontier ?sg b y" for b
      proof
        assume "in_frontier ?sg b y"
        then obtain p where p: "reach ?sg p" "y \<in> set (?sg p)" "dom_rel ?sg b p" "\<not> (dom_rel ?sg b y \<and> b \<noteq> y)"
          by (auto simp: in_frontier_def)
        have pl: "p \<in> set (pred_list f y)" using p bd by (simp add: set_pred_list in_bounds_def)
        have "q = p" if q: "y \<in> set (?sg q)" for q
        proof -
          have "q < ?n" using q by (cases "q < ?n") (simp_all add: succ_list_def)
          then have "q \<in> set (pred_list f y)" using q by (simp add: set_pred_list)
          moreover obtain w where "pred_list f y = [w]"
            using pl True by (cases "pred_list f y"; cases "tl (pred_list f y)") auto
          ultimately show ?thesis using pl by simp
        qed
        then show False using single_pred_no_frontier [OF y0(2,1) _ p(3)] p(4) by blast
      qed
      then show ?thesis using Some D(1) y preds True by (auto simp: df_block_def)
    next
      case False
      have ps: "\<forall>p\<in>set (pred_list f y). p < ?n \<and> (reach ?sg p \<longrightarrow> dom_rel ?sg e p)"
        using dom_rel_pred [OF D(3) [OF Some] D(4) [OF Some]] by (auto simp: set_pred_list)
      have e: "reach ?sg e" using idom_ok_fewer(2) [OF ok y Some] .
      show ?thesis
        using df_preds [OF ok bd ps e, of y df] Some D(1) y preds False y0
        by (auto simp: df_block_def fr)
    qed
  qed
qed

lemma dominance_frontier_ok:
  assumes f: "wf_func f" "cfg_for f c" "blocks f \<noteq> []"
    and ok: "idom_ok (succ_list f) (length (blocks f)) dt"
  shows "\<exists>df. dominance_frontier dt c = Some df \<and>
    (\<forall>b y. reach (succ_list f) b \<longrightarrow>
       (df_mem df b y \<longleftrightarrow> y \<noteq> 0 \<and> reach (succ_list f) y \<and> in_frontier (succ_list f) b y))"
proof -
  let ?sg = "succ_list f" and ?n = "length (blocks f)"
  have n: "length dt = ?n" using ok by (simp add: idom_ok_def)
  have "\<exists>df. try_foldl (df_block dt c) Map.empty [0..<k] = Some df \<and>
    (\<forall>b y. reach ?sg b \<longrightarrow>
       (df_mem df b y \<longleftrightarrow> y < k \<and> y \<noteq> 0 \<and> reach ?sg y \<and> in_frontier ?sg b y))" if "k \<le> ?n" for k
    using that
  proof (induction k)
    case (Suc k)
    then obtain df where df: "try_foldl (df_block dt c) Map.empty [0..<k] = Some df"
      "\<forall>b y. reach ?sg b \<longrightarrow> (df_mem df b y \<longleftrightarrow> y < k \<and> y \<noteq> 0 \<and> reach ?sg y \<and> in_frontier ?sg b y)" by auto
    obtain df' where "df_block dt c df k = Some df'"
      "\<forall>b z. reach ?sg b \<longrightarrow>
         (df_mem df' b z \<longleftrightarrow> df_mem df b z \<or> (z = k \<and> k \<noteq> 0 \<and> reach ?sg k \<and> in_frontier ?sg b k))"
      using df_block_correct [OF f ok, of k df] Suc.prems by auto
    then show ?case using df by (auto simp: try_foldl_append less_Suc_eq)
  qed simp
  from this [of ?n] obtain df where df: "try_foldl (df_block dt c) Map.empty [0..<length dt] = Some df"
    "\<forall>b y. reach ?sg b \<longrightarrow> (df_mem df b y \<longleftrightarrow> y < ?n \<and> y \<noteq> 0 \<and> reach ?sg y \<and> in_frontier ?sg b y)"
    by (auto simp: n)
  have "y < ?n" if "reach ?sg y" for y
    using that reach_bounded [of ?n ?sg] wf_func_succ [OF f(1)] f(3) by auto
  moreover have "map_default [] (\<lambda>b. map_option (\<lambda>v. remdups_adj (sort v)) (df b)) b = remdups_adj (sort (map_default [] df b))" for b
    by (cases "df b") (simp_all add: map_default_def)
  ultimately show ?thesis using df by (auto simp: dominance_frontier_def)
qed

section \<open>The properties\<close>

lemma dom_compute_idom_ok:
  assumes "wf_func f" "blocks f \<noteq> []" "cfg_compute f = Some c" "dom_compute f c = Some dt"
  shows "cfg_for f c" "idom_ok (succ_list f) (length (blocks f)) dt" "in_bounds (succ_list f) (length (blocks f))"
proof -
  show c: "cfg_for f c" using cfg_compute_wf [OF assms(1,2)] assms(3) by auto
  show "idom_ok (succ_list f) (length (blocks f)) dt" using dom_compute_ok [OF assms(1,2) c] assms(4) by auto
  show "in_bounds (succ_list f) (length (blocks f))"
    using reach_bounded [of "length (blocks f)" "succ_list f"] wf_func_succ [OF assms(1)] assms(2)
    by (auto simp: in_bounds_def)
qed

text \<open>C1: The Cooper-Harvey-Kennedy iteration returns on every well-formed function, reducible or not,
  without a panic, and its result is the dominator tree: the entry of a block is \<open>None\<close> exactly for
  the function's entry and for unreachable blocks, and otherwise the block's immediate dominator, the
  strict dominator that every other strict dominator dominates.\<close>

theorem dom_compute_correct:
  assumes "wf_func f" "blocks f \<noteq> []" "cfg_compute f = Some c"
  shows "\<exists>dt. dom_compute f c = Some dt \<and>
    (\<forall>b < length (blocks f). \<exists>d. dom_idom dt b = Some d \<and>
       (d = None \<longleftrightarrow> b = 0 \<or> \<not> reach (succ_list f) b) \<and>
       (\<forall>i. d = Some i \<longrightarrow> dom_rel (succ_list f) i b \<and> i \<noteq> b \<and>
          (\<forall>x. dom_rel (succ_list f) x b \<and> x \<noteq> b \<longrightarrow> dom_rel (succ_list f) x i)))"
proof -
  have c: "cfg_for f c" using cfg_compute_wf [OF assms(1,2)] assms(3) by auto
  obtain dt where dt: "dom_compute f c = Some dt" "idom_ok (succ_list f) (length (blocks f)) dt"
    using dom_compute_ok [OF assms(1,2) c] by blast
  then show ?thesis by (auto simp: dom_idom_def idom_ok_def)
qed

lemma diamond_dom: "\<exists>c dt. cfg_compute diamond = Some c \<and> dom_compute diamond c = Some dt"
  using cfg_compute_wf [OF diamond_wf] dom_compute_ok [OF diamond_wf] by blast

theorem dom_compute_correct_witness:
  "\<exists>c dt. cfg_compute diamond = Some c \<and> dom_compute diamond c = Some dt \<and> dom_idom dt 0 = Some None"
  using dom_compute_correct [OF diamond_wf diamond_cfg] diamond_cfg by (fastforce simp: diamond_def)

text \<open>C15: On the computed tree, the query \<open>dominates(a, b)\<close> returns for every reachable block \<open>b\<close> and
  answers whether every path from the entry to \<open>b\<close> goes through \<open>a\<close>; \<open>strictly_dominates\<close> is the
  same for \<open>a\<close> different from \<open>b\<close>.\<close>

theorem dominates_correct_all:
  assumes "wf_func f" "blocks f \<noteq> []" "cfg_compute f = Some c" "dom_compute f c = Some dt"
    and "reach (succ_list f) b"
  shows "dominates dt a b = Some (dom_rel (succ_list f) a b) \<and>
    strictly_dominates dt a b = Some (a \<noteq> b \<and> dom_rel (succ_list f) a b)"
proof -
  note I = dom_compute_idom_ok [OF assms(1-4)]
  have "b < length (blocks f)" using I(3) assms(5) by (simp add: in_bounds_def)
  then show ?thesis
    using dominates_correct [OF I(2,3)] strictly_dominates_correct [OF I(2,3)] assms(5) by blast+
qed

lemma diamond_reach_3: "reach (succ_list diamond) 3"
proof -
  have "reach (succ_list diamond) 1"
    by (rule reach_step [OF reach_entry]) (simp add: diamond_def skeleton_succ)
  then show ?thesis by (rule reach_step) (simp add: diamond_def skeleton_succ)
qed

theorem dominates_correct_all_witness:
  "\<exists>c dt. cfg_compute diamond = Some c \<and> dom_compute diamond c = Some dt \<and> dominates dt 0 3 = Some True"
proof -
  obtain c dt where "cfg_compute diamond = Some c" "dom_compute diamond c = Some dt" using diamond_dom by blast
  then show ?thesis
    using dominates_correct_all [OF diamond_wf _ _ diamond_reach_3, of c dt 0] dom_rel_entry_all by auto
qed

text \<open>C19: \<open>dominance_frontier\<close> returns, and the list of a reachable block \<open>b\<close> holds exactly the
  blocks \<open>y\<close> with a reachable predecessor that \<open>b\<close> dominates and that \<open>b\<close> does not strictly dominate;
  except the entry block, which the code never lists, even when it is the target of a back
  edge.\<close>

theorem dominance_frontier_correct:
  assumes "wf_func f" "blocks f \<noteq> []" "cfg_compute f = Some c" "dom_compute f c = Some dt"
  shows "\<exists>df. dominance_frontier dt c = Some df \<and>
    (\<forall>b y. reach (succ_list f) b \<longrightarrow>
       (y \<in> set (map_default [] df b) \<longleftrightarrow>
          y \<noteq> 0 \<and> (\<exists>p. reach (succ_list f) p \<and> y \<in> set (succ_list f p) \<and> dom_rel (succ_list f) b p) \<and>
          \<not> (dom_rel (succ_list f) b y \<and> b \<noteq> y)))"
proof -
  note I = dom_compute_idom_ok [OF assms]
  have "reach (succ_list f) y \<and> in_frontier (succ_list f) b y \<longleftrightarrow> in_frontier (succ_list f) b y" for b y
    using reach_step by (auto simp: in_frontier_def)
  then show ?thesis
    using dominance_frontier_ok [OF assms(1) I(1) assms(2) I(2)] by (simp add: in_frontier_def)
qed

theorem dominance_frontier_correct_witness:
  "\<exists>c dt df. cfg_compute diamond = Some c \<and> dom_compute diamond c = Some dt \<and> dominance_frontier dt c = Some df"
proof -
  obtain c dt where "cfg_compute diamond = Some c" "dom_compute diamond c = Some dt" using diamond_dom by blast
  then show ?thesis using dominance_frontier_correct [OF diamond_wf, of c dt] by auto
qed

end
