(* ===== verification/Transform_Rpo.thy ===== *)
theory Transform_Rpo
  imports IR_Function Graph_Paths
begin

text \<open>
  The block order of the constant passes (\<open>rpo\<close> of \<open>llvm-transforms/src/const_prop.rs\<close>): a depth-first
  search with an explicit stack of blocks and of marks that a block is finished. The head of the list is
  the top of the stack; the set of visited blocks is a set.
\<close>

section \<open>The search\<close>

definition block_succs :: "ir_function \<Rightarrow> basic_block \<Rightarrow> block_id list rust" where
  \<comment> \<open>\<open>if let Some(tid) = block.terminator { func.instr(tid).successors() }\<close>\<close>
  "block_succs f bb =
     (case bb_terminator bb of
        None \<Rightarrow> Some []
      | Some tid \<Rightarrow> map_option (\<lambda>ins. successors (instr_kind ins)) (instr f tid))"

function rpo_loop :: "ir_function \<Rightarrow> nat set \<Rightarrow> nat list \<Rightarrow> (nat \<times> bool) list \<Rightarrow> (nat set \<times> nat list) rust" where
  "rpo_loop f visited post_order [] = Some (visited, post_order)"
| "rpo_loop f visited post_order ((bi, True) # stack) = rpo_loop f visited (post_order @ [bi]) stack"
| "rpo_loop f visited post_order ((bi, False) # stack) =
     (if bi \<in> visited then rpo_loop f visited post_order stack
      else case vec_get (blocks f) bi of
        None \<Rightarrow> None
      | Some bb \<Rightarrow>
          (case block_succs f bb of
             None \<Rightarrow> None
           | Some succs \<Rightarrow>
               rpo_loop f (insert bi visited) post_order
                 (map (\<lambda>si. (si, False)) (filter (\<lambda>si. si < length (blocks f) \<and> si \<notin> insert bi visited) succs) @
                  (bi, True) # stack)))"
  by pat_completeness auto
termination rpo_loop
proof (relation "inv_image (less_than <*lex*> less_than)
    (\<lambda>(f, vis, post, st). (card ({..<length (blocks f)} - vis), length st))")
  fix f :: ir_function and vis post bi st bb succs
  assume "bi \<notin> vis" "vec_get (blocks f) bi = Some bb"
  then have "bi \<in> {..<length (blocks f)} - vis" by (simp add: rust_simps)
  then have "card ({..<length (blocks f)} - insert bi vis) < card ({..<length (blocks f)} - vis)"
    by (intro psubset_card_mono) auto
  then show "((f, insert bi vis, post,
      map (\<lambda>si. (si, False)) (filter (\<lambda>si. si < length (blocks f) \<and> si \<notin> insert bi vis) succs) @ (bi, True) # st),
      f, vis, post, (bi, False) # st)
    \<in> inv_image (less_than <*lex*> less_than) (\<lambda>(f, vis, post, st). (card ({..<length (blocks f)} - vis), length st))"
    by simp
qed auto

definition block_rpo :: "ir_function \<Rightarrow> nat list rust" where
  "block_rpo f =
     do { (visited, post_order) \<leftarrow> rpo_loop f {} [] [(0, False)];
          Some (rev post_order @ filter (\<lambda>bi. bi \<notin> visited) [0..<length (blocks f)]) }"

section \<open>The invariant\<close>

abbreviation marks :: "(nat \<times> bool) list \<Rightarrow> nat list" where
  \<comment> \<open>the blocks begun and not finished\<close>
  "marks st \<equiv> map fst (filter snd st)"

definition edge_rel :: "ir_function \<Rightarrow> (nat \<times> nat) set" where
  "edge_rel f = {(u, v). v \<in> set (succ_list f u)}"

definition awaited :: "(nat \<times> bool) list \<Rightarrow> nat \<Rightarrow> nat \<Rightarrow> bool" where
  "awaited st b v \<longleftrightarrow> (\<exists>xs ys. st = xs @ (b, True) # ys \<and> (v, False) \<in> set xs)"

definition before :: "'a list \<Rightarrow> 'a \<Rightarrow> 'a \<Rightarrow> bool" where
  "before xs a b \<longleftrightarrow> (\<exists>us vs. xs = us @ b # vs \<and> a \<in> set us)"

definition rpo_inv :: "ir_function \<Rightarrow> nat set \<Rightarrow> nat list \<Rightarrow> (nat \<times> bool) list \<Rightarrow> bool" where
  "rpo_inv f vis post st \<longleftrightarrow>
     (\<forall>x\<in>set st. fst x < length (blocks f) \<and> reach (succ_list f) (fst x)) \<and>
     distinct (post @ marks st) \<and> vis = set (post @ marks st) \<and>
     sorted_wrt (\<lambda>x y. snd y \<longrightarrow> (fst y, fst x) \<in> (edge_rel f)\<^sup>*) st \<and>
     (\<forall>b\<in>vis. b < length (blocks f) \<and> reach (succ_list f) b \<and> (\<forall>v\<in>set (succ_list f b). v \<in> vis \<or> awaited st b v)) \<and>
     (\<forall>b\<in>set post. \<forall>v\<in>set (succ_list f b). (v, b) \<in> (edge_rel f)\<^sup>* \<or> before post v b)"

lemma awaited_Nil [simp]: "\<not> awaited [] b v"
  by (simp add: awaited_def)

lemma awaited_mark: "awaited ((x, True) # st) b v \<Longrightarrow> b \<noteq> x \<Longrightarrow> awaited st b v"
  by (auto simp: awaited_def Cons_eq_append_conv)

lemma awaited_top: "awaited ((b, True) # st) b v \<Longrightarrow> b \<in> set (marks st)"
  by (force simp: awaited_def Cons_eq_append_conv)

lemma awaited_marks: "awaited st b v \<Longrightarrow> b \<in> set (marks st)"
  by (force simp: awaited_def)

lemma awaited_skip: "awaited ((x, False) # st) b v \<Longrightarrow> v = x \<or> awaited st b v"
  by (auto simp: awaited_def Cons_eq_append_conv)

lemma awaited_append: "awaited st b v \<Longrightarrow> awaited (xs @ st) b v"
  unfolding awaited_def by (metis Un_iff append.assoc set_append)

lemma before_snoc: "before xs a b \<Longrightarrow> before (xs @ [c]) a b"
  unfolding before_def by (metis append.assoc append_Cons)

lemma before_last: "a \<in> set xs \<Longrightarrow> before (xs @ [b]) a b"
  unfolding before_def by blast

lemma block_succs_eq:
  assumes "wf_func f" "bi < length (blocks f)"
  shows "block_succs f (blocks f ! bi) = Some (succ_list f bi)"
  using assms wf_func_terminator [OF assms]
  by (cases "bb_terminator (blocks f ! bi)")
    (auto simp: block_succs_def succ_list_def terminator_kind_def instr_def)

lemma rpo_invD:
  assumes "rpo_inv f vis post st"
  shows "\<And>x. x \<in> set st \<Longrightarrow> fst x < length (blocks f) \<and> reach (succ_list f) (fst x)"
    and "distinct (post @ marks st)" and "vis = set (post @ marks st)"
    and "sorted_wrt (\<lambda>x y. snd y \<longrightarrow> (fst y, fst x) \<in> (edge_rel f)\<^sup>*) st"
    and "\<And>b. b \<in> vis \<Longrightarrow> b < length (blocks f) \<and> reach (succ_list f) b"
    and "\<And>b v. b \<in> vis \<Longrightarrow> v \<in> set (succ_list f b) \<Longrightarrow> v \<in> vis \<or> awaited st b v"
    and "\<And>b v. b \<in> set post \<Longrightarrow> v \<in> set (succ_list f b) \<Longrightarrow> (v, b) \<in> (edge_rel f)\<^sup>* \<or> before post v b"
  using assms unfolding rpo_inv_def by (assumption | blast)+

lemma rpo_invI:
  assumes "\<And>x. x \<in> set st \<Longrightarrow> fst x < length (blocks f) \<and> reach (succ_list f) (fst x)"
    and "distinct (post @ marks st)" and "vis = set (post @ marks st)"
    and "sorted_wrt (\<lambda>x y. snd y \<longrightarrow> (fst y, fst x) \<in> (edge_rel f)\<^sup>*) st"
    and "\<And>b. b \<in> vis \<Longrightarrow> b < length (blocks f) \<and> reach (succ_list f) b"
    and "\<And>b v. b \<in> vis \<Longrightarrow> v \<in> set (succ_list f b) \<Longrightarrow> v \<in> vis \<or> awaited st b v"
    and "\<And>b v. b \<in> set post \<Longrightarrow> v \<in> set (succ_list f b) \<Longrightarrow> (v, b) \<in> (edge_rel f)\<^sup>* \<or> before post v b"
  shows "rpo_inv f vis post st"
  using assms unfolding rpo_inv_def by blast

lemma rpo_inv_finish:
  assumes inv: "rpo_inv f vis post ((b, True) # st)"
  shows "rpo_inv f vis (post @ [b]) st"
proof (rule rpo_invI)
  note A = rpo_invD [OF inv]
  have b: "b \<notin> set (marks st)" using A(2) by simp
  show vis: "vis = set ((post @ [b]) @ marks st)" using A(3) by simp
  show "fst x < length (blocks f) \<and> reach (succ_list f) (fst x)" if "x \<in> set st" for x using A(1) that by simp
  show "distinct ((post @ [b]) @ marks st)" using A(2) by simp
  show "sorted_wrt (\<lambda>x y. snd y \<longrightarrow> (fst y, fst x) \<in> (edge_rel f)\<^sup>*) st" using A(4) by simp
  show "c < length (blocks f) \<and> reach (succ_list f) c" if "c \<in> vis" for c using A(5) that .
  show aw: "v \<in> vis \<or> awaited st c v" if "c \<in> vis" "v \<in> set (succ_list f c)" for c v
  proof -
    from A(6) [OF that] consider "v \<in> vis" | "awaited ((b, True) # st) c v" by blast
    then show ?thesis
    proof cases
      case 2
      then have "c \<noteq> b" using awaited_top b by blast
      with 2 show ?thesis by (simp add: awaited_mark)
    qed simp
  qed
  show "(v, c) \<in> (edge_rel f)\<^sup>* \<or> before (post @ [b]) v c" if "c \<in> set (post @ [b])" "v \<in> set (succ_list f c)" for c v
  proof (cases "c \<in> set post")
    case True
    from A(7) [OF this that(2)] before_snoc [of post v c b] show ?thesis by (elim disjE) simp_all
  next
    case False
    then have c: "c = b" using that(1) by simp
    have "b \<in> vis" using A(3) by simp
    then have "v \<in> vis \<or> awaited st b v" using aw that(2) unfolding c by blast
    moreover have "\<not> awaited st b v" using awaited_marks b by blast
    ultimately have "v \<in> vis" by blast
    then consider "v \<in> set post" | "v = b" | "v \<in> set (marks st)" unfolding vis by auto
    then show ?thesis
    proof cases
      case 3
      then obtain x where "x \<in> set st" "snd x" "fst x = v" by auto
      then show ?thesis using A(4) c by auto
    qed (auto intro: before_last simp: c)
  qed
qed

lemma rpo_inv_skip:
  assumes inv: "rpo_inv f vis post ((b, False) # st)" and "b \<in> vis"
  shows "rpo_inv f vis post st"
proof (rule rpo_invI)
  note A = rpo_invD [OF inv]
  show "v \<in> vis \<or> awaited st c v" if "c \<in> vis" "v \<in> set (succ_list f c)" for c v
    using A(6) [OF that] awaited_skip assms(2) by blast
qed (use rpo_invD [OF inv] in simp_all)

lemma rpo_inv_visit:
  assumes wf: "wf_func f" and inv: "rpo_inv f vis post ((b, False) # st)" and b: "b \<notin> vis"
  shows "rpo_inv f (insert b vis) post
    (map (\<lambda>s. (s, False)) (filter (\<lambda>s. s < length (blocks f) \<and> s \<notin> insert b vis) (succ_list f b)) @ (b, True) # st)"
    (is "rpo_inv f _ post (?new @ _)")
proof (rule rpo_invI)
  let ?R = "(edge_rel f)\<^sup>*" and ?st = "?new @ (b, True) # st"
  note A = rpo_invD [OF inv]
  have n: "b < length (blocks f)" "reach (succ_list f) b" using A(1) [of "(b, False)"] by simp_all
  have m: "marks ?st = b # marks st" by (simp add: filter_map comp_def)
  have low: "(fst y, b) \<in> ?R" if "y \<in> set st" "snd y" for y
    using A(4) [unfolded sorted_wrt.simps fst_conv] that by blast
  have up: "(b, s) \<in> edge_rel f" if "s \<in> set (succ_list f b)" for s using that by (simp add: edge_rel_def)
  have new: "snd y \<longrightarrow> (fst y, fst x) \<in> ?R" if "x \<in> set ?new" "y \<in> set ((b, True) # st)" for x y
  proof -
    from that(1) have e: "(b, fst x) \<in> edge_rel f" using up by auto
    have "y = (b, True) \<or> y \<in> set st" using that(2) by simp
    then have "(fst y, b) \<in> ?R" if "snd y" using low [of y] that by (elim disjE) simp_all
    then show ?thesis using e by (auto intro: rtrancl_into_rtrancl)
  qed
  show "fst x < length (blocks f) \<and> reach (succ_list f) (fst x)" if x: "x \<in> set ?st" for x
  proof -
    from x consider "x \<in> set ?new" | "x = (b, True)" | "x \<in> set st" by auto
    then show ?thesis using n A(1) reach_step [OF n(2)] by cases auto
  qed
  show "distinct (post @ marks ?st)" "insert b vis = set (post @ marks ?st)"
    using A(2,3) b unfolding m by simp_all
  show "sorted_wrt (\<lambda>x y. snd y \<longrightarrow> (fst y, fst x) \<in> ?R) ?st"
  proof -
    have "sorted_wrt (\<lambda>x y. snd y \<longrightarrow> (fst y, fst x) \<in> ?R) ((b, True) # st)" using A(4) by simp
    moreover have "sorted_wrt (\<lambda>x y. snd y \<longrightarrow> (fst y, fst x) \<in> ?R) ?new"
      by (simp add: sorted_wrt_map sorted_wrt_true)
    ultimately show ?thesis using new unfolding sorted_wrt_append by blast
  qed
  show "c < length (blocks f) \<and> reach (succ_list f) c" if "c \<in> insert b vis" for c using A(5) n that by blast
  show "v \<in> insert b vis \<or> awaited ?st c v" if "c \<in> insert b vis" "v \<in> set (succ_list f c)" for c v
  proof (cases "c = b")
    case True
    then have "v < length (blocks f)" using that(2) wf_func_succ [OF wf] by blast
    then show ?thesis using True that(2) by (auto simp: awaited_def)
  next
    case False
    with that A(6) consider "v \<in> vis" | "awaited ((b, False) # st) c v" by blast
    then show ?thesis
    proof cases
      case 2
      with awaited_skip [of b st c v] awaited_append [of st c v "?new @ [(b, True)]"] show ?thesis by auto
    qed simp
  qed
  show "(v, c) \<in> ?R \<or> before post v c" if "c \<in> set post" "v \<in> set (succ_list f c)" for c v by (rule A(7) [OF that])
qed

section \<open>The order\<close>

lemma rpo_loop_inv:
  assumes "wf_func f" "rpo_inv f vis post st"
  shows "\<exists>vis' post'. rpo_loop f vis post st = Some (vis', post') \<and> rpo_inv f vis' post' [] \<and>
     vis \<subseteq> vis' \<and> fst ` set st \<subseteq> vis' \<and> (st \<noteq> [] \<and> snd (last st) \<longrightarrow> post' \<noteq> [] \<and> last post' = fst (last st)) \<and> (st = [] \<longrightarrow> post' = post)"
  using assms
proof (induction f vis post st rule: rpo_loop.induct)
  case (1 f vis post)
  then show ?case by simp
next
  case (2 f vis post b st)
  from 2(1) [OF 2(2) rpo_inv_finish [OF 2(3)]] rpo_invD(3) [OF 2(3)] show ?case by auto
next
  case (3 f vis post b st)
  show ?case
  proof (cases "b \<in> vis")
    case True
    from 3(1) [OF True 3(3) rpo_inv_skip [OF 3(4) True]] True show ?thesis by auto
  next
    case False
    let ?st = "map (\<lambda>s. (s, False)) (filter (\<lambda>s. s < length (blocks f) \<and> s \<notin> insert b vis) (succ_list f b)) @ (b, True) # st"
    have b: "b < length (blocks f)" using rpo_invD(1) [OF 3(4), of "(b, False)"] by simp
    then have v: "vec_get (blocks f) b = Some (blocks f ! b)" by simp
    from 3(2) [OF False v block_succs_eq [OF 3(3) b] 3(3) rpo_inv_visit [OF 3(3,4) False]]
    obtain vis' post' where "rpo_loop f vis post ((b, False) # st) = Some (vis', post')" "rpo_inv f vis' post' []"
      "insert b vis \<subseteq> vis'" "fst ` set ?st \<subseteq> vis'" "snd (last ?st) \<longrightarrow> post' \<noteq> [] \<and> last post' = fst (last ?st)"
      using False v block_succs_eq [OF 3(3) b] by (auto simp: filter_map comp_def)
    then show ?thesis by auto
  qed
qed

text \<open>Every block but the entry is pushed by a predecessor whose mark lies below it on the stack, and is
  therefore finished before that predecessor.\<close>

primrec pushed_by :: "ir_function \<Rightarrow> (nat \<times> bool) list \<Rightarrow> bool" where
  "pushed_by f [] = True"
| "pushed_by f (y # ys) =
     ((fst y \<noteq> 0 \<longrightarrow> (\<exists>p\<in>set (marks ys). fst y \<in> set (succ_list f p))) \<and> pushed_by f ys)"

primrec finished_by :: "ir_function \<Rightarrow> nat set \<Rightarrow> nat list \<Rightarrow> bool" where
  "finished_by f M [] = True"
| "finished_by f M (b # bs) =
     ((b \<noteq> 0 \<longrightarrow> (\<exists>p\<in>set bs \<union> M. b \<in> set (succ_list f p))) \<and> finished_by f M bs)"

lemma finished_by_mono: "finished_by f M bs \<Longrightarrow> M \<subseteq> M' \<Longrightarrow> finished_by f M' bs"
  by (induction bs) auto

lemma finished_by_snoc:
  "finished_by f (insert b M) bs \<Longrightarrow> (b \<noteq> 0 \<Longrightarrow> \<exists>p\<in>M. b \<in> set (succ_list f p)) \<Longrightarrow> finished_by f M (bs @ [b])"
  by (induction bs) auto

lemma finished_by_split: "finished_by f M (us @ b # vs) \<Longrightarrow> b \<noteq> 0 \<Longrightarrow> \<exists>p\<in>set vs \<union> M. b \<in> set (succ_list f p)"
  by (induction us) auto

lemma pushed_by_append:
  "pushed_by f st \<Longrightarrow> (\<And>x. x \<in> set new \<Longrightarrow> \<exists>p\<in>set (marks st). fst x \<in> set (succ_list f p)) \<Longrightarrow> pushed_by f (new @ st)"
proof (induction new)
  case (Cons x new)
  then obtain p where "p \<in> set (marks st)" "fst x \<in> set (succ_list f p)" by fastforce
  with Cons show ?case by auto
qed simp

lemma rpo_loop_parents:
  assumes "wf_func f" "pushed_by f st" "finished_by f (set (marks st)) post" "rpo_loop f vis post st = Some (vis', post')"
  shows "finished_by f {} post'"
  using assms
proof (induction f vis post st rule: rpo_loop.induct)
  case (1 f vis post)
  then show ?case by simp
next
  case (2 f vis post b st)
  have "finished_by f (set (marks st)) (post @ [b])" using 2(3,4) by (intro finished_by_snoc) simp_all
  then show ?case using 2 by simp
next
  case (3 f vis post b st)
  show ?case
  proof (cases "b \<in> vis")
    case True
    then show ?thesis using 3 by simp
  next
    case False
    then obtain bb succs where s: "vec_get (blocks f) b = Some bb" "block_succs f bb = Some succs"
      using 3(6) by (auto split: option.splits)
    let ?new = "map (\<lambda>s. (s, False)) (filter (\<lambda>s. s < length (blocks f) \<and> s \<notin> insert b vis) succs)"
    have "b < length (blocks f)" "bb = blocks f ! b" using s(1) by (auto simp: rust_simps)
    then have succs: "succs = succ_list f b" using block_succs_eq [OF 3(3)] s(2) by simp
    have "pushed_by f (?new @ (b, True) # st)" using 3(4) by (intro pushed_by_append) (auto simp: succs)
    moreover have "finished_by f (set (marks (?new @ (b, True) # st))) post"
      using 3(5) by (rule finished_by_mono) auto
    ultimately show ?thesis using 3(2) [OF False s 3(3)] 3(6) False s by simp
  qed
qed

lemma finished_dominator:
  assumes post: "finished_by f {} post" "distinct post" "post \<noteq> []" "last post = 0"
    and dom: "b \<in> set post" "dom_rel (succ_list f) a b" "a \<noteq> b"
  shows "before (rev post) a b"
proof -
  let ?o = "rev post"
  have zero: "?o ! 0 = 0" using post(3,4) by (simp add: rev_nth last_conv_nth)
  have pred: "\<exists>i<j. ?o ! j \<in> set (succ_list f (?o ! i))" if j: "j < length ?o" "0 < j" for j
  proof -
    have "?o ! j \<noteq> 0" using j zero post(2,3) nth_eq_iff_index_eq [of ?o j 0] by auto
    moreover have "?o = take j ?o @ ?o ! j # drop (Suc j) ?o" using j(1) by (rule id_take_nth_drop)
    then have "post = rev (drop (Suc j) ?o) @ ?o ! j # rev (take j ?o)"
      by (metis rev_append rev_rev_ident rev.simps(2) append.assoc append_Cons append_Nil)
    ultimately obtain p where "p \<in> set (take j ?o)" "?o ! j \<in> set (succ_list f p)"
      using finished_by_split [of f "{}"] post(1) by (metis Un_empty_right set_rev)
    moreover then obtain i where "i < j" "p = ?o ! i" by (auto simp del: set_rev simp: in_set_conv_nth)
    ultimately show ?thesis by blast
  qed
  obtain j where j: "j < length ?o" "?o ! j = b" using dom(1) by (metis in_set_conv_nth set_rev)
  then obtain i where i: "i \<le> j" "?o ! i = a" using earlier_dominator [of ?o "succ_list f" j a] zero pred dom(2) by blast
  then have "i < j" using j dom(3) by (cases "i = j") auto
  then have "a \<in> set (take j ?o)" using i j(1) by (auto simp: in_set_conv_nth)
  moreover have "?o = take j ?o @ b # drop (Suc j) ?o" using id_take_nth_drop [OF j(1)] j(2) by simp
  ultimately show ?thesis unfolding before_def by blast
qed

lemma before_append: "before xs a b \<Longrightarrow> before (xs @ ys) a b"
  unfolding before_def by (metis append.assoc append_Cons)

text \<open>C14: The block order of the constant passes: the search ends, does not panic, and lists every block
  exactly once, the entry first. A block comes after every other block that dominates it, if it is reachable
  from the entry; and an edge between reachable blocks goes forward in the list unless its target leads back
  to its source.\<close>

theorem block_rpo_correct:
  assumes "wf_func f" "blocks f \<noteq> []"
  shows "\<exists>order. block_rpo f = Some order \<and> distinct order \<and> set order = {..<length (blocks f)} \<and>
     hd order = 0 \<and>
     (\<forall>a b. reach (succ_list f) b \<and> dom_rel (succ_list f) a b \<and> a \<noteq> b \<longrightarrow> before order a b) \<and>
     (\<forall>u v. reach (succ_list f) u \<and> v \<in> set (succ_list f u) \<longrightarrow>
        before order u v \<or> (v, u) \<in> {(a, b). b \<in> set (succ_list f a)}\<^sup>*)"
proof -
  let ?n = "length (blocks f)"
  have n: "0 < ?n" using assms(2) by simp
  then have v: "vec_get (blocks f) 0 = Some (blocks f ! 0)" by simp
  have s: "block_succs f (blocks f ! 0) = Some (succ_list f 0)" by (rule block_succs_eq [OF assms(1) n])
  let ?st = "map (\<lambda>s. (s, False)) (filter (\<lambda>s. s < ?n \<and> s \<notin> insert 0 {}) (succ_list f 0)) @ [(0, True)]"
  have "rpo_inv f {} [] [(0, False)]" using n by (simp add: rpo_inv_def)
  then have "rpo_inv f (insert 0 {}) [] ?st" using rpo_inv_visit [OF assms(1), of "{}" "[]" 0 "[]"] by simp
  from rpo_loop_inv [OF assms(1) this] obtain vis post where l: "rpo_loop f (insert 0 {}) [] ?st = Some (vis, post)"
      and inv: "rpo_inv f vis post []" and h: "post \<noteq> []" "last post = 0" by auto
  have loop: "rpo_loop f {} [] [(0, False)] = Some (vis, post)" using l v s by simp
  define order where "order = rev post @ filter (\<lambda>b. b \<notin> vis) [0..<?n]"
  note A = rpo_invD [OF inv]
  have vis: "vis = set post" using A(3) by simp
  have "0 \<in> vis" using h vis last_in_set by metis
  have reach: "reach (succ_list f) u \<Longrightarrow> u \<in> vis" for u
    using reach_closed [of vis "succ_list f" u] \<open>0 \<in> vis\<close> A(6) by auto
  have "distinct order" "set order = {..<?n}" using A(2,5) vis by (auto simp: order_def)
  moreover have "hd order = 0" using h by (simp add: order_def hd_rev hd_append)
  moreover have "before order a b" if "reach (succ_list f) b" "dom_rel (succ_list f) a b" "a \<noteq> b" for a b
  proof -
    have "finished_by f {} post" by (rule rpo_loop_parents [OF assms(1) _ _ loop]) simp_all
    moreover have "b \<in> set post" using reach that(1) vis by blast
    ultimately show ?thesis
      using finished_dominator [of f post b a] A(2) h that(2,3) by (simp add: order_def before_append)
  qed
  moreover have "before order u v \<or> (v, u) \<in> {(a, b). b \<in> set (succ_list f a)}\<^sup>*"
    if u: "reach (succ_list f) u" "v \<in> set (succ_list f u)" for u v
  proof -
    have "(v, u) \<in> (edge_rel f)\<^sup>* \<or> before post v u" using A(7) u reach vis by blast
    moreover have "before order u v" if b: "before post v u"
    proof -
      from b obtain us vs where p: "post = us @ u # vs" "v \<in> set us" by (auto simp: before_def)
      then obtain xs ys where "us = xs @ v # ys" by (metis split_list)
      with p have "order = (rev vs @ u # rev ys) @ v # rev xs @ filter (\<lambda>b. b \<notin> vis) [0..<?n]"
        by (simp add: order_def)
      then show ?thesis unfolding before_def by fastforce
    qed
    ultimately show ?thesis by (auto simp: edge_rel_def)
  qed
  ultimately show ?thesis using loop by (simp add: block_rpo_def order_def)
qed

text \<open>A loop of two blocks behind an entry, with a block nothing leads to.\<close>

definition ex_rpo_fn :: ir_function where
  "ex_rpo_fn = (function_new ''f'' 0 [] External)
     \<lparr>blocks := [\<lparr>bb_name = ''entry'', bb_body = [], bb_terminator = Some 0\<rparr>,
                  \<lparr>bb_name = ''dead'', bb_body = [], bb_terminator = Some 1\<rparr>,
                  \<lparr>bb_name = ''loop'', bb_body = [], bb_terminator = Some 2\<rparr>],
      instructions := [\<lparr>instr_name = None, instr_ty = 0, instr_kind = Br 2\<rparr>,
                       \<lparr>instr_name = None, instr_ty = 0, instr_kind = Ret None\<rparr>,
                       \<lparr>instr_name = None, instr_ty = 0, instr_kind = CondBr (Constant 0) 2 0\<rparr>]\<rparr>"

theorem block_rpo_correct_witness:
  "\<exists>order. block_rpo ex_rpo_fn = Some order \<and> hd order = 0 \<and> set order = {0, 1, 2} \<and> before order 0 2"
proof -
  have "wf_func ex_rpo_fn"
    by (auto simp: ex_rpo_fn_def wf_func_def bb_instrs_def succ_list_def terminator_kind_def function_new_def
        less_Suc_eq vec_get_def)
  moreover have "blocks ex_rpo_fn \<noteq> []" "{..<length (blocks ex_rpo_fn)} = {0, 1, 2}"
    by (auto simp: ex_rpo_fn_def)
  moreover have "reach (succ_list ex_rpo_fn) 2"
    by (rule reach_step [OF reach_entry]) (simp add: ex_rpo_fn_def succ_list_def terminator_kind_def vec_get_def)
  moreover have "dom_rel (succ_list ex_rpo_fn) 0 2" by (rule dom_rel_entry_all)
  ultimately show ?thesis using block_rpo_correct [of ex_rpo_fn] by fastforce
qed

end
