(* ===== verification/IR_Semantics.thy ===== *)
theory IR_Semantics
  imports IR_Subst IR_Function
begin

text \<open>
  A semantics of functions, the yardstick for the transformation passes. What an instruction does is a
  parameter \<open>ir_sem\<close>: it sees the shape of the instruction (the kind with its operands and its targets
  blanked out), the values of the operands and the memory, and gives a result, the new memory and, for a
  terminator, which of its targets comes next. What the IR itself fixes is modelled: the environment of
  instruction results, the phis that are evaluated together on entry to a block, the order of the body,
  and the transfer of control. A computation is stuck (\<open>None\<close>) where the IR gives it no meaning, for
  instance where an operand has not been computed.
\<close>

section \<open>Instructions and blocks\<close>

record ('v, 'm) ir_sem =
  sem_const :: "value_ref \<Rightarrow> 'v"  \<comment> \<open>arguments, constants and globals\<close>
  sem_exec :: "instr_kind \<Rightarrow> 'v list \<Rightarrow> 'm \<Rightarrow> ('v option \<times> 'm \<times> nat option) option"

type_synonym 'v env = "instr_id \<Rightarrow> 'v option"
type_synonym ('v, 'm) config = "block_id \<times> block_id option \<times> 'v env \<times> 'm"

named_theorems sem_simps

definition rename_blocks :: "(block_id \<Rightarrow> block_id) \<Rightarrow> instr_kind \<Rightarrow> instr_kind" where
  "rename_blocks h k =
     (case k of
        Br dest \<Rightarrow> Br (h dest)
      | CondBr cond then_dest else_dest \<Rightarrow> CondBr cond (h then_dest) (h else_dest)
      | Switch val dflt cs \<Rightarrow> Switch val (h dflt) (map (\<lambda>(v, b). (v, h b)) cs)
      | Invoke callee_ty callee as normal_dest unwind_dest \<Rightarrow>
          Invoke callee_ty callee as (h normal_dest) (h unwind_dest)
      | Phi t incoming \<Rightarrow> Phi t (map (\<lambda>(v, b). (v, h b)) incoming)
      | CatchSwitch par hs dflt \<Rightarrow> CatchSwitch par (map h hs) (map_option h dflt)
      | CatchRet catch_pad successor \<Rightarrow> CatchRet catch_pad (h successor)
      | CleanupRet cleanup_pad unwind_dest \<Rightarrow> CleanupRet cleanup_pad (map_option h unwind_dest)
      | _ \<Rightarrow> k)"

definition shape :: "instr_kind \<Rightarrow> instr_kind" where
  "shape k = rename_blocks (\<lambda>_. 0) (rewrite_values_in_kind (\<lambda>_. Constant 0) k)"

definition is_phi :: "instr_kind \<Rightarrow> bool" where
  "is_phi k \<longleftrightarrow> (case k of Phi _ _ \<Rightarrow> True | _ \<Rightarrow> False)"

definition phi_incoming :: "instr_kind \<Rightarrow> (value_ref \<times> block_id) list" where
  "phi_incoming k = (case k of Phi _ incoming \<Rightarrow> incoming | _ \<Rightarrow> [])"

definition eval_value :: "('v, 'm) ir_sem \<Rightarrow> 'v env \<Rightarrow> value_ref \<Rightarrow> 'v option" where
  "eval_value S env v = (case v of Instruction i \<Rightarrow> env i | _ \<Rightarrow> Some (sem_const S v))"

definition exec_instr ::
  "('v, 'm) ir_sem \<Rightarrow> ir_function \<Rightarrow> instr_id \<Rightarrow> 'v env \<times> 'm \<Rightarrow> ('v env \<times> 'm \<times> nat option) option" where
  "exec_instr S f i st =
     do { ins \<leftarrow> instr f i;
          if is_phi (instr_kind ins) then None
          else do { vs \<leftarrow> try_map (eval_value S (fst st)) (operands (instr_kind ins));
                    (r, m, n) \<leftarrow> sem_exec S (shape (instr_kind ins)) vs (snd st);
                    Some ((fst st)(i := r), m, n) } }"

definition eval_phi :: "('v, 'm) ir_sem \<Rightarrow> ir_function \<Rightarrow> block_id option \<Rightarrow> 'v env \<Rightarrow> instr_id \<Rightarrow> 'v option" where
  "eval_phi S f prev env i =
     do { ins \<leftarrow> instr f i; p \<leftarrow> prev;
          v \<leftarrow> map_of (map prod.swap (phi_incoming (instr_kind ins))) p;
          eval_value S env v }"

definition phi_id :: "ir_function \<Rightarrow> instr_id \<Rightarrow> bool" where
  "phi_id f i \<longleftrightarrow> (case instr f i of Some ins \<Rightarrow> is_phi (instr_kind ins) | None \<Rightarrow> False)"

definition assign_all :: "'v env \<Rightarrow> (instr_id \<times> 'v) list \<Rightarrow> 'v env" where
  "assign_all env ps = foldl (\<lambda>e (i, x). e(i \<mapsto> x)) env ps"

definition exec_phis ::
  "('v, 'm) ir_sem \<Rightarrow> ir_function \<Rightarrow> block_id option \<Rightarrow> instr_id list \<Rightarrow> 'v env \<Rightarrow> 'v env option" where
  "exec_phis S f prev ps env =
     map_option (\<lambda>vs. assign_all env (zip ps vs)) (try_map (eval_phi S f prev env) ps)"

definition exec_body ::
  "('v, 'm) ir_sem \<Rightarrow> ir_function \<Rightarrow> instr_id list \<Rightarrow> 'v env \<times> 'm \<Rightarrow> ('v env \<times> 'm) option" where
  "exec_body S f is st = try_foldl (\<lambda>st i. map_option (\<lambda>(e, m, _). (e, m)) (exec_instr S f i st)) st is"

definition exec_term ::
  "('v, 'm) ir_sem \<Rightarrow> ir_function \<Rightarrow> block_id \<Rightarrow> instr_id \<Rightarrow> 'v env \<times> 'm \<Rightarrow>
     (('v, 'm) config + 'v option \<times> 'm) option" where
  "exec_term S f b t st =
     do { ins \<leftarrow> instr f t; (env, m, nx) \<leftarrow> exec_instr S f t st;
          case nx of
            None \<Rightarrow> Some (Inr (env t, m))
          | Some n \<Rightarrow> do { b' \<leftarrow> vec_get (successors (instr_kind ins)) n; Some (Inl (b', Some b, env, m)) } }"

definition exec_block ::
  "('v, 'm) ir_sem \<Rightarrow> ir_function \<Rightarrow> ('v, 'm) config \<Rightarrow> (('v, 'm) config + 'v option \<times> 'm) option" where
  "exec_block S f c =
     (case c of (b, prev, env, m) \<Rightarrow>
        do { bb \<leftarrow> block f b;
             env \<leftarrow> exec_phis S f prev (takeWhile (phi_id f) (bb_body bb)) env;
             st \<leftarrow> exec_body S f (dropWhile (phi_id f) (bb_body bb)) (env, m);
             t \<leftarrow> bb_terminator bb;
             exec_term S f b t st })"

section \<open>Runs\<close>

primrec run_steps :: "('c \<Rightarrow> ('c + 'o) option) \<Rightarrow> nat \<Rightarrow> 'c \<Rightarrow> ('c + 'o) option" where
  "run_steps step 0 c = Some (Inl c)"
| "run_steps step (Suc n) c =
     (case step c of None \<Rightarrow> None | Some (Inr out) \<Rightarrow> Some (Inr out) | Some (Inl c') \<Rightarrow> run_steps step n c')"

definition entry_config :: "'m \<Rightarrow> ('v, 'm) config" where
  "entry_config m = (0, None, Map.empty, m)"

definition run_function ::
  "('v, 'm) ir_sem \<Rightarrow> ir_function \<Rightarrow> nat \<Rightarrow> 'm \<Rightarrow> (('v, 'm) config + 'v option \<times> 'm) option" where
  \<comment> \<open>at most \<open>n\<close> blocks from the entry: \<open>Inl\<close> a configuration reached, \<open>Inr\<close> the result\<close>
  "run_function S f n m = run_steps (exec_block S f) n (entry_config m)"

definition returns :: "('v, 'm) ir_sem \<Rightarrow> ir_function \<Rightarrow> 'm \<Rightarrow> 'v option \<times> 'm \<Rightarrow> bool" where
  "returns S f m out \<longleftrightarrow> (\<exists>n. run_function S f n m = Some (Inr out))"

definition diverges :: "('v, 'm) ir_sem \<Rightarrow> ir_function \<Rightarrow> 'm \<Rightarrow> bool" where
  "diverges S f m \<longleftrightarrow> (\<forall>n. \<exists>c. run_function S f n m = Some (Inl c))"

definition preserves :: "('v, 'm) ir_sem \<Rightarrow> ir_function \<Rightarrow> ir_function \<Rightarrow> bool" where
  \<comment> \<open>what a pass owes: every defined behaviour of \<open>f\<close> is one of \<open>f'\<close>\<close>
  "preserves S f f' \<longleftrightarrow>
     (\<forall>m out. returns S f m out \<longrightarrow> returns S f' m out) \<and> (\<forall>m. diverges S f m \<longrightarrow> diverges S f' m)"

section \<open>Simulation\<close>

text \<open>The interface between a pass and the runs: a relation that a step of the original keeps, the
  transformed function answering with a step of its own or with none, finitely often.\<close>

locale block_simulation =
  fixes step1 :: "'c \<Rightarrow> ('c + 'o) option" and step2 :: "'d \<Rightarrow> ('d + 'o) option"
    and rel :: "'c \<Rightarrow> 'd \<Rightarrow> bool" and lag :: "'c \<Rightarrow> nat"
  assumes sim_next: "rel c d \<Longrightarrow> step1 c = Some (Inl c') \<Longrightarrow>
      (\<exists>d'. step2 d = Some (Inl d') \<and> rel c' d') \<or> (rel c' d \<and> lag c' < lag c)"
    and sim_result: "rel c d \<Longrightarrow> step1 c = Some (Inr out) \<Longrightarrow> step2 d = Some (Inr out)"
begin

lemma run_result:
  "rel c d \<Longrightarrow> run_steps step1 n c = Some (Inr out) \<Longrightarrow> \<exists>k. run_steps step2 k d = Some (Inr out)"
proof (induction n arbitrary: c d)
  case (Suc n)
  then obtain r where r: "step1 c = Some r" by (cases "step1 c") auto
  show ?case
  proof (cases r)
    case (Inr o')
    with Suc.prems r sim_result have "run_steps step2 (Suc 0) d = Some (Inr out)" by fastforce
    then show ?thesis by blast
  next
    case (Inl c')
    with Suc.prems(2) r have n: "run_steps step1 n c' = Some (Inr out)" by simp
    from sim_next [OF Suc.prems(1)] r Inl
    consider d' where "step2 d = Some (Inl d')" "rel c' d'" | "rel c' d" by blast
    then show ?thesis
    proof cases
      case 1
      from Suc.IH [OF 1(2) n] obtain k where "run_steps step2 k d' = Some (Inr out)" ..
      with 1(1) have "run_steps step2 (Suc k) d = Some (Inr out)" by simp
      then show ?thesis by blast
    next
      case 2
      then show ?thesis using Suc.IH n by blast
    qed
  qed
qed simp

lemma run_goes_on:
  assumes "rel c d" "\<And>n. \<exists>c'. run_steps step1 n c = Some (Inl c')"
  shows "\<exists>d'. run_steps step2 k d = Some (Inl d')"
  using assms
proof (induction "(k, lag c)" arbitrary: k c d rule: wf_induct_rule [OF wf_lex_prod [OF wf_less_than wf_less_than]])
  case 1
  show ?case
  proof (cases k)
    case (Suc k')
    from 1(3) [of "Suc 0"] obtain c' where c': "step1 c = Some (Inl c')"
      by (auto split: option.splits sum.splits)
    have on: "\<exists>e. run_steps step1 n c' = Some (Inl e)" for n using 1(3) [of "Suc n"] c' by simp
    from sim_next [OF 1(2) c'] consider d' where "step2 d = Some (Inl d')" "rel c' d'" | "rel c' d" "lag c' < lag c"
      by blast
    then show ?thesis
    proof cases
      case a: 1
      with 1(1) [of k' c' d'] on Suc show ?thesis by simp
    next
      case 2
      with 1(1) [of k c' d] on show ?thesis by simp
    qed
  qed simp
qed

end

lemma preservesI:
  assumes "block_simulation (exec_block S f) (exec_block S f') rel lag" "\<And>m. rel (entry_config m) (entry_config m)"
  shows "preserves S f f'"
  using assms block_simulation.run_result [OF assms(1)] block_simulation.run_goes_on [OF assms(1)]
  unfolding preserves_def returns_def diverges_def run_function_def by metis

lemma preserves_refl: "preserves S f f"
  by (simp add: preserves_def)

lemma preserves_trans: "preserves S f g \<Longrightarrow> preserves S g h \<Longrightarrow> preserves S f h"
  by (simp add: preserves_def)

section \<open>Shapes\<close>

lemma rename_blocks_rewrite: "rename_blocks h (rewrite_values_in_kind g k) = rewrite_values_in_kind g (rename_blocks h k)"
  by (cases k) (simp_all add: rename_blocks_def case_prod_unfold)

lemma rename_blocks_comp: "rename_blocks h (rename_blocks h' k) = rename_blocks (\<lambda>b. h (h' b)) k"
  by (cases k) (simp_all add: rename_blocks_def case_prod_unfold comp_def option.map_comp)

lemma operands_rename [simp]: "operands (rename_blocks h k) = operands k"
  by (cases k) (simp_all add: rename_blocks_def case_prod_unfold comp_def)

lemma successors_rename [simp]: "successors (rename_blocks h k) = map h (successors k)"
  by (cases k) (auto simp: rename_blocks_def case_prod_unfold comp_def split: option.splits)

lemma is_phi_rewrite [simp]: "is_phi (rewrite_values_in_kind g k) = is_phi k"
  by (cases k) (simp_all add: is_phi_def)

lemma is_phi_rename [simp]: "is_phi (rename_blocks h k) = is_phi k"
  by (cases k) (simp_all add: is_phi_def rename_blocks_def)

lemma shape_rewrite [simp]: "shape (rewrite_values_in_kind g k) = shape k"
  by (simp add: shape_def rewrite_comp)

lemma shape_rename [simp]: "shape (rename_blocks h k) = shape k"
  by (simp add: shape_def rename_blocks_rewrite [symmetric] rename_blocks_comp)

lemma phi_incoming_rewrite [simp]:
  "phi_incoming (rewrite_values_in_kind g k) = map (\<lambda>(v, b). (g v, b)) (phi_incoming k)"
  by (cases k) (simp_all add: phi_incoming_def)

lemma phi_incoming_rename [simp]:
  "phi_incoming (rename_blocks h k) = map (\<lambda>(v, b). (v, h b)) (phi_incoming k)"
  by (cases k) (simp_all add: phi_incoming_def rename_blocks_def)

lemma phi_incoming_operands: "map fst (phi_incoming k) = (if is_phi k then operands k else [])"
  by (cases k) (simp_all add: phi_incoming_def is_phi_def)

end
