(* ===== verification/Pass_Rewrite.thy ===== *)
theory Pass_Rewrite
  imports IR_Semantics
begin

text \<open>
  What the passes that delete instructions and replace operands share: the transformed function has
  the blocks of the original without a set \<open>D\<close> of instructions, and every instruction that stays has its
  operands mapped by \<open>g\<close>. The relation \<open>K\<close> between the environments is the invariant of the pass. A pass
  shows \<open>rewrite_sound\<close>; the simulation of a block follows.
\<close>

definition kept :: "ir_function \<Rightarrow> instr_id set \<Rightarrow> instr_id \<Rightarrow> bool" where
  "kept f D i \<longleftrightarrow>
     (\<exists>bb\<in>set (blocks f). (i \<in> set (bb_body bb) \<and> i \<notin> D) \<or> bb_terminator bb = Some i)"

definition in_body :: "ir_function \<Rightarrow> instr_id \<Rightarrow> bool" where
  "in_body f i \<longleftrightarrow> (\<exists>bb\<in>set (blocks f). i \<in> set (bb_body bb))"

definition rewritten :: "ir_function \<Rightarrow> ir_function \<Rightarrow> instr_id set \<Rightarrow> (value_ref \<Rightarrow> value_ref) \<Rightarrow> bool" where
  "rewritten f f' D g \<longleftrightarrow>
     blocks f' = map (\<lambda>bb. bb\<lparr>bb_body := filter (\<lambda>i. i \<notin> D) (bb_body bb)\<rparr>) (blocks f) \<and>
     (\<forall>i ins. kept f D i \<longrightarrow> instr f i = Some ins \<longrightarrow>
        (\<exists>ins'. instr f' i = Some ins' \<and> instr_kind ins' = rewrite_values_in_kind g (instr_kind ins)))"

definition rewrite_sound ::
  "('v, 'm) ir_sem \<Rightarrow> ir_function \<Rightarrow> instr_id set \<Rightarrow> (value_ref \<Rightarrow> value_ref) \<Rightarrow> ('v env \<Rightarrow> 'v env \<Rightarrow> bool) \<Rightarrow> bool" where
  "rewrite_sound S f D g K \<longleftrightarrow>
     (\<forall>env env' i ins v x. K env env' \<longrightarrow> kept f D i \<longrightarrow> instr f i = Some ins \<longrightarrow>
        v \<in> set (operands (instr_kind ins)) \<longrightarrow> eval_value S env v = Some x \<longrightarrow>
        eval_value S env' (g v) = Some x) \<and>
     (\<forall>env env' i r. K env env' \<longrightarrow> kept f D i \<longrightarrow> K (env(i := r)) (env'(i := r))) \<and>
     (\<forall>env env' i x. K env env' \<longrightarrow> i \<in> D \<longrightarrow> in_body f i \<longrightarrow> phi_id f i \<longrightarrow> K (env(i \<mapsto> x)) env') \<and>
     (\<forall>env env' i m env1 m1 n. K env env' \<longrightarrow> i \<in> D \<longrightarrow> in_body f i \<longrightarrow>
        exec_instr S f i (env, m) = Some (env1, m1, n) \<longrightarrow> K env1 env' \<and> m1 = m)"

lemma rewrite_soundI:
  assumes "\<And>env env' i ins v x. K env env' \<Longrightarrow> kept f D i \<Longrightarrow> instr f i = Some ins \<Longrightarrow>
        v \<in> set (operands (instr_kind ins)) \<Longrightarrow> eval_value S env v = Some x \<Longrightarrow> eval_value S env' (g v) = Some x"
    and "\<And>env env' i r. K env env' \<Longrightarrow> kept f D i \<Longrightarrow> K (env(i := r)) (env'(i := r))"
    and "\<And>env env' i x. K env env' \<Longrightarrow> i \<in> D \<Longrightarrow> in_body f i \<Longrightarrow> phi_id f i \<Longrightarrow> K (env(i \<mapsto> x)) env'"
    and "\<And>env env' i m env1 m1 n. K env env' \<Longrightarrow> i \<in> D \<Longrightarrow> in_body f i \<Longrightarrow>
        exec_instr S f i (env, m) = Some (env1, m1, n) \<Longrightarrow> K env1 env' \<and> m1 = m"
  shows "rewrite_sound S f D g K"
  unfolding rewrite_sound_def
  by (intro conjI allI impI)
    (rule assms(1), assumption+, rule assms(2), assumption+, rule assms(3), assumption+,
     rule assms(4) [THEN conjunct1], assumption+, rule assms(4) [THEN conjunct2], assumption+)

lemma rewrite_soundD:
  assumes "rewrite_sound S f D g K" "K env env'"
  shows "kept f D i \<Longrightarrow> instr f i = Some ins \<Longrightarrow> v \<in> set (operands (instr_kind ins)) \<Longrightarrow>
      eval_value S env v = Some x \<Longrightarrow> eval_value S env' (g v) = Some x"
    and "kept f D i \<Longrightarrow> K (env(i := r)) (env'(i := r))"
    and "i \<in> D \<Longrightarrow> in_body f i \<Longrightarrow> phi_id f i \<Longrightarrow> K (env(i \<mapsto> x)) env'"
    and "i \<in> D \<Longrightarrow> in_body f i \<Longrightarrow> exec_instr S f i (env, m) = Some (env1, m1, n) \<Longrightarrow> K env1 env' \<and> m1 = m"
proof -
  note d = assms(1) [unfolded rewrite_sound_def]
  show "kept f D i \<Longrightarrow> instr f i = Some ins \<Longrightarrow> v \<in> set (operands (instr_kind ins)) \<Longrightarrow>
      eval_value S env v = Some x \<Longrightarrow> eval_value S env' (g v) = Some x"
    using conjunct1 [OF d] assms(2) by blast
  show "kept f D i \<Longrightarrow> K (env(i := r)) (env'(i := r))"
    using conjunct1 [OF conjunct2 [OF d]] assms(2) by blast
  show "i \<in> D \<Longrightarrow> in_body f i \<Longrightarrow> phi_id f i \<Longrightarrow> K (env(i \<mapsto> x)) env'"
    using conjunct1 [OF conjunct2 [OF conjunct2 [OF d]]] assms(2) by blast
  show "i \<in> D \<Longrightarrow> in_body f i \<Longrightarrow> exec_instr S f i (env, m) = Some (env1, m1, n) \<Longrightarrow> K env1 env' \<and> m1 = m"
    using conjunct2 [OF conjunct2 [OF conjunct2 [OF d]]] assms(2) by blast
qed

section \<open>Single instructions\<close>

lemma try_map_mono:
  "try_map p xs = Some ys \<Longrightarrow> (\<And>x y. x \<in> set xs \<Longrightarrow> p x = Some y \<Longrightarrow> q (h x) = Some y) \<Longrightarrow>
     try_map q (map h xs) = Some ys"
  by (induction xs arbitrary: ys) (auto split: option.splits)

text \<open>An instruction of the same shape whose operands have the same values does the same.\<close>

lemma exec_instr_cong:
  assumes "exec_instr S f i (env, m) = Some (env1, m1, n)" "instr f i = Some ins" "instr f' i' = Some ins'"
    and "shape (instr_kind ins') = shape (instr_kind ins)" "is_phi (instr_kind ins') = is_phi (instr_kind ins)"
    and "operands (instr_kind ins') = map g (operands (instr_kind ins))"
    and "\<And>v x. v \<in> set (operands (instr_kind ins)) \<Longrightarrow> eval_value S env v = Some x \<Longrightarrow> eval_value S env' (g v) = Some x"
  shows "exec_instr S f' i' (env', m) = Some (env'(i' := env1 i), m1, n) \<and> env1 = env(i := env1 i)"
proof -
  from assms(1,2) obtain vs r where vs: "try_map (eval_value S env) (operands (instr_kind ins)) = Some vs"
      "sem_exec S (shape (instr_kind ins)) vs m = Some (r, m1, n)" "env1 = env(i := r)"
    and np: "\<not> is_phi (instr_kind ins)"
    by (auto simp: exec_instr_def split: if_splits option.splits bind_splits)
  have "try_map (eval_value S env') (map g (operands (instr_kind ins))) = Some vs"
    by (rule try_map_mono [OF vs(1)]) (rule assms(7))
  with vs np assms(3-6) show ?thesis by (simp add: exec_instr_def)
qed

lemma exec_instr_rewritten:
  assumes "rewritten f f' D g" "rewrite_sound S f D g K" "K env env'" "kept f D i"
    and "exec_instr S f i (env, m) = Some (env1, m1, n)"
  shows "\<exists>env1'. exec_instr S f' i (env', m) = Some (env1', m1, n) \<and> K env1 env1' \<and> env1' i = env1 i"
proof -
  from assms(5) obtain ins where i: "instr f i = Some ins"
    by (auto simp: exec_instr_def split: bind_splits)
  with assms(1,4) obtain ins' where i': "instr f' i = Some ins'"
    "instr_kind ins' = rewrite_values_in_kind g (instr_kind ins)" unfolding rewritten_def by blast
  have "exec_instr S f' i (env', m) = Some (env'(i := env1 i), m1, n) \<and> env1 = env(i := env1 i)"
    by (rule exec_instr_cong [OF assms(5) i i'(1), of g])
      (use i'(2) rewrite_soundD(1) [OF assms(2,3,4) i] in simp_all)
  moreover have "K (env(i := env1 i)) (env'(i := env1 i))" by (rule rewrite_soundD(2) [OF assms(2,3,4)])
  ultimately show ?thesis by (metis fun_upd_same)
qed

lemma successors_rewritten:
  assumes "rewritten f f' D g" "kept f D i" "instr f i = Some ins"
  shows "\<exists>ins'. instr f' i = Some ins' \<and> successors (instr_kind ins') = successors (instr_kind ins)"
  using assms unfolding rewritten_def by fastforce

section \<open>Bodies\<close>

lemma exec_body_Cons:
  "exec_body S f (i # is) st =
     (case exec_instr S f i st of None \<Rightarrow> None | Some (e, m, _) \<Rightarrow> exec_body S f is (e, m))"
  by (simp add: exec_body_def split: option.splits prod.splits)

lemma exec_body_Nil [simp]: "exec_body S f [] st = Some st"
  by (simp add: exec_body_def)

lemma exec_body_rewritten:
  assumes "rewritten f f' D g" "rewrite_sound S f D g K"
    and "\<And>i. i \<in> set is \<Longrightarrow> in_body f i" "K env env'" "exec_body S f is (env, m) = Some (env1, m1)"
  shows "\<exists>env1'. exec_body S f' (filter (\<lambda>i. i \<notin> D) is) (env', m) = Some (env1', m1) \<and> K env1 env1'"
  using assms(3-)
proof (induction "is" arbitrary: env env' m)
  case (Cons i "is")
  from Cons.prems(3) obtain env2 m2 n where i: "exec_instr S f i (env, m) = Some (env2, m2, n)"
    and r: "exec_body S f is (env2, m2) = Some (env1, m1)"
    by (auto simp: exec_body_Cons split: option.splits)
  have b: "in_body f i" using Cons.prems(1) by simp
  show ?case
  proof (cases "i \<in> D")
    case True
    with rewrite_soundD(4) [OF assms(2) Cons.prems(2) True b i] Cons.IH [of env2 env' m2] Cons.prems r
    show ?thesis by simp
  next
    case False
    with b have "kept f D i" by (auto simp: kept_def in_body_def)
    from exec_instr_rewritten [OF assms(1,2) Cons.prems(2) this i] obtain env2'
      where "exec_instr S f' i (env', m) = Some (env2', m2, n)" "K env2 env2'" by blast
    with Cons.IH [of env2 env2' m2] Cons.prems r False show ?thesis by (simp add: exec_body_Cons)
  qed
qed simp

lemma exec_body_no_phi: "exec_body S f is st \<noteq> None \<Longrightarrow> i \<in> set is \<Longrightarrow> \<not> phi_id f i"
proof (induction "is" arbitrary: st)
  case (Cons a "is")
  then obtain e m n where a: "exec_instr S f a st = Some (e, m, n)"
    by (auto simp: exec_body_Cons split: option.splits)
  then have "\<not> phi_id f a" by (auto simp: exec_instr_def phi_id_def split: bind_splits if_splits option.splits)
  with Cons a show ?case by (auto simp: exec_body_Cons)
qed simp

section \<open>Phis\<close>

lemma assign_all_Nil [simp]: "assign_all env [] = env"
  by (simp add: assign_all_def)

lemma assign_all_Cons [simp]: "assign_all env ((i, x) # ps) = assign_all (env(i \<mapsto> x)) ps"
  by (simp add: assign_all_def)

lemma map_of_swap_rewrite:
  "map_of (map prod.swap (map (\<lambda>(v, b). (g v, b)) xs)) p = map_option g (map_of (map prod.swap xs) p)"
  by (induction xs) auto

lemma map_of_swap_in: "map_of (map prod.swap xs) p = Some v \<Longrightarrow> v \<in> fst ` set xs"
  by (force dest: map_of_SomeD)

lemma eval_phi_rewritten:
  assumes "rewritten f f' D g" "rewrite_sound S f D g K" "K env env'" "kept f D i" "phi_id f i"
    and "eval_phi S f prev env i = Some x"
  shows "eval_phi S f' prev env' i = Some x"
proof -
  from assms(6) obtain ins p v where i: "instr f i = Some ins" "prev = Some p"
    and v: "map_of (map prod.swap (phi_incoming (instr_kind ins))) p = Some v" "eval_value S env v = Some x"
    by (auto simp: eval_phi_def split: bind_splits)
  from i(1) assms(1,4) obtain ins' where i': "instr f' i = Some ins'"
    "instr_kind ins' = rewrite_values_in_kind g (instr_kind ins)" unfolding rewritten_def by blast
  have "is_phi (instr_kind ins)" using assms(5) i by (simp add: phi_id_def)
  then have "v \<in> set (operands (instr_kind ins))"
    using map_of_swap_in [OF v(1)] phi_incoming_operands [of "instr_kind ins"] by (metis list.set_map)
  then have "eval_value S env' (g v) = Some x" by (rule rewrite_soundD(1) [OF assms(2,3,4) i(1) _ v(2)])
  with i i' v(1) show ?thesis by (simp add: eval_phi_def map_of_swap_rewrite del: map_map)
qed

lemma assign_all_rewritten:
  assumes "rewritten f f' D g" "rewrite_sound S f D g K"
    and "\<And>i. i \<in> set is \<Longrightarrow> in_body f i \<and> phi_id f i" "K env0 env0'" "K env env'"
    and "try_map (eval_phi S f prev env0) is = Some vs"
  shows "\<exists>vs'. try_map (eval_phi S f' prev env0') (filter (\<lambda>i. i \<notin> D) is) = Some vs' \<and>
     K (assign_all env (zip is vs)) (assign_all env' (zip (filter (\<lambda>i. i \<notin> D) is) vs'))"
  using assms(3,5,6)
proof (induction "is" arbitrary: env env' vs)
  case (Cons i "is")
  from Cons.prems(3) obtain x xs where x: "eval_phi S f prev env0 i = Some x" "vs = x # xs"
      "try_map (eval_phi S f prev env0) is = Some xs"
    by (auto split: option.splits)
  have b: "in_body f i" "phi_id f i" using Cons.prems(1) by auto
  show ?case
  proof (cases "i \<in> D")
    case True
    have "K (env(i \<mapsto> x)) env'" by (rule rewrite_soundD(3) [OF assms(2) Cons.prems(2) True b])
    from Cons.IH [OF _ this x(3)] Cons.prems(1) x(2) True show ?thesis by (simp del: fun_upd_apply)
  next
    case False
    with b have k: "kept f D i" by (auto simp: kept_def in_body_def)
    have "K (env(i \<mapsto> x)) (env'(i \<mapsto> x))" by (rule rewrite_soundD(2) [OF assms(2) Cons.prems(2) k])
    then obtain vs' where "try_map (eval_phi S f' prev env0') (filter (\<lambda>i. i \<notin> D) is) = Some vs'"
      "K (assign_all (env(i \<mapsto> x)) (zip is xs)) (assign_all (env'(i \<mapsto> x)) (zip (filter (\<lambda>i. i \<notin> D) is) vs'))"
      using Cons.IH [OF _ _ x(3), of "env(i \<mapsto> x)" "env'(i \<mapsto> x)"] Cons.prems(1) by (auto simp del: fun_upd_apply)
    moreover have "eval_phi S f' prev env0' i = Some x"
      by (rule eval_phi_rewritten [OF assms(1,2,4) k b(2) x(1)])
    ultimately show ?thesis using x False by (intro exI [of _ "x # vs'"]) simp
  qed
qed simp

section \<open>Blocks\<close>

lemma takeWhile_filter_split:
  assumes "\<And>i. i \<in> set (dropWhile P xs) \<Longrightarrow> \<not> P i" "\<And>i. i \<in> set xs \<Longrightarrow> Q i \<Longrightarrow> P' i = P i"
  shows "takeWhile P' (filter Q xs) = filter Q (takeWhile P xs)"
    and "dropWhile P' (filter Q xs) = filter Q (dropWhile P xs)"
proof -
  let ?a = "filter Q (takeWhile P xs)" and ?b = "filter Q (dropWhile P xs)"
  have s: "filter Q xs = ?a @ ?b" by (metis filter_append takeWhile_dropWhile_id)
  have a: "\<forall>i\<in>set ?a. P' i" using assms(2) set_takeWhileD [of _ P xs] by auto
  have b: "\<forall>i\<in>set ?b. \<not> P' i" using assms set_dropWhileD [of _ P xs] by auto
  have "takeWhile P' ?b = []" "dropWhile P' ?b = ?b" using b by (cases ?b; simp)+
  then show "takeWhile P' (filter Q xs) = ?a" "dropWhile P' (filter Q xs) = ?b"
    unfolding s takeWhile_append dropWhile_append using a by simp_all
qed

lemma phi_id_rewritten:
  "rewritten f f' D g \<Longrightarrow> kept f D i \<Longrightarrow> instr f i = Some ins \<Longrightarrow> phi_id f' i = phi_id f i"
  unfolding rewritten_def phi_id_def by fastforce

lemma exec_phis_defined: "exec_phis S f prev ps env \<noteq> None \<Longrightarrow> i \<in> set ps \<Longrightarrow> instr f i \<noteq> None"
proof -
  have "try_map (eval_phi S f prev env) ps = Some vs \<Longrightarrow> i \<in> set ps \<Longrightarrow> instr f i \<noteq> None" for vs
    by (induction ps arbitrary: vs) (auto simp: eval_phi_def split: option.splits bind_splits)
  then show "exec_phis S f prev ps env \<noteq> None \<Longrightarrow> i \<in> set ps \<Longrightarrow> instr f i \<noteq> None"
    by (auto simp: exec_phis_def)
qed

lemma exec_body_defined: "exec_body S f is st \<noteq> None \<Longrightarrow> i \<in> set is \<Longrightarrow> instr f i \<noteq> None"
proof (induction "is" arbitrary: st)
  case (Cons a "is")
  then obtain e m n where a: "exec_instr S f a st = Some (e, m, n)"
    by (auto simp: exec_body_Cons split: option.splits)
  then have "instr f a \<noteq> None" by (auto simp: exec_instr_def split: bind_splits)
  with Cons.IH [of "(e, m)"] Cons.prems a show ?case by (auto simp: exec_body_Cons)
qed simp

text \<open>The outcomes of a block in the two functions are related: the same next block, memory and result,
  and environments related by \<open>K\<close>.\<close>

fun outcome_rel ::
  "('v env \<Rightarrow> 'v env \<Rightarrow> bool) \<Rightarrow> ('v, 'm) config + 'o \<Rightarrow> ('v, 'm) config + 'o \<Rightarrow> bool" where
  "outcome_rel K (Inl (b, p, env, m)) (Inl (b', p', env', m')) \<longleftrightarrow> b' = b \<and> p' = p \<and> m' = m \<and> K env env'"
| "outcome_rel K (Inr x) (Inr y) \<longleftrightarrow> y = x"
| "outcome_rel K _ _ \<longleftrightarrow> False"

lemma exec_term_rewritten:
  assumes "rewritten f f' D g" "rewrite_sound S f D g K" "K env env'" "kept f D t"
    and "exec_term S f b t (env, m) = Some out"
  shows "\<exists>out'. exec_term S f' b t (env', m) = Some out' \<and> outcome_rel K out out'"
proof -
  from assms(5) obtain ins e1 m1 n where i: "instr f t = Some ins"
      "exec_instr S f t (env, m) = Some (e1, m1, n)"
    and o': "(case n of None \<Rightarrow> Some (Inr (e1 t, m1))
      | Some n \<Rightarrow> do { b' \<leftarrow> vec_get (successors (instr_kind ins)) n; Some (Inl (b', Some b, e1, m1)) }) = Some out"
    unfolding exec_term_def by (auto split: bind_splits)
  from exec_instr_rewritten [OF assms(1-4) i(2)] obtain e1'
    where e: "exec_instr S f' t (env', m) = Some (e1', m1, n)" "K e1 e1'" "e1' t = e1 t" by blast
  from successors_rewritten [OF assms(1,4) i(1)] obtain ins'
    where "instr f' t = Some ins'" "successors (instr_kind ins') = successors (instr_kind ins)" by blast
  with e o' show ?thesis by (auto simp: exec_term_def split: option.splits bind_splits)
qed

lemma exec_block_rewritten:
  assumes R: "rewritten f f' D g" "rewrite_sound S f D g K" and K: "K env env'"
    and x: "exec_block S f (b, prev, env, m) = Some out"
  shows "\<exists>out'. exec_block S f' (b, prev, env', m) = Some out' \<and> outcome_rel K out out'"
proof -
  let ?bb = "blocks f ! b" and ?keep = "\<lambda>i. i \<notin> D"
  let ?ps = "takeWhile (phi_id f) (bb_body ?bb)" and ?is = "dropWhile (phi_id f) (bb_body ?bb)"
  from x obtain e1 e2 m2 t where b: "b < length (blocks f)"
    and ps: "exec_phis S f prev ?ps env = Some e1"
    and "is": "exec_body S f ?is (e1, m) = Some (e2, m2)"
    and t: "bb_terminator ?bb = Some t" "exec_term S f b t (e2, m2) = Some out"
    by (auto simp: exec_block_def block_def rust_simps split: bind_splits)
  have bb: "?bb \<in> set (blocks f)" using b by simp
  then have body: "in_body f i" if "i \<in> set (bb_body ?bb)" for i using that by (auto simp: in_body_def)
  have tk: "kept f D t" using bb t(1) by (auto simp: kept_def)
  have "instr f i \<noteq> None" if "i \<in> set (bb_body ?bb)" for i
    using that exec_phis_defined [of S f prev ?ps env i] exec_body_defined [of S f ?is "(e1, m)" i] ps "is"
    by (metis (no_types) takeWhile_dropWhile_id Un_iff set_append option.distinct(1))
  then have ph: "phi_id f' i = phi_id f i" if "i \<in> set (bb_body ?bb)" "i \<notin> D" for i
    using phi_id_rewritten [OF R(1), of i] that bb by (auto simp: kept_def)
  have np: "\<not> phi_id f i" if "i \<in> set ?is" for i
    using exec_body_no_phi [of S f ?is "(e1, m)" i] "is" that by simp
  note split = takeWhile_filter_split [of "phi_id f" "bb_body ?bb" ?keep "phi_id f'", OF np ph]
  from ps obtain vs where vs: "try_map (eval_phi S f prev env) ?ps = Some vs" "e1 = assign_all env (zip ?ps vs)"
    by (auto simp: exec_phis_def)
  obtain vs' where vs': "try_map (eval_phi S f' prev env') (filter ?keep ?ps) = Some vs'"
      "K e1 (assign_all env' (zip (filter ?keep ?ps) vs'))"
    using assign_all_rewritten [OF R _ K K vs(1)] body vs(2) by (metis set_takeWhileD)
  define e1' where "e1' = assign_all env' (zip (filter ?keep ?ps) vs')"
  have "\<And>i. i \<in> set ?is \<Longrightarrow> in_body f i" using body set_dropWhileD by metis
  from exec_body_rewritten [OF R this vs'(2) "is"] obtain e2'
    where e2': "exec_body S f' (filter ?keep ?is) (e1', m) = Some (e2', m2)" "K e2 e2'"
    unfolding e1'_def by blast
  from exec_term_rewritten [OF R e2'(2) tk t(2)] obtain out'
    where "exec_term S f' b t (e2', m2) = Some out'" "outcome_rel K out out'" by blast
  moreover have "block f' b = Some (?bb\<lparr>bb_body := filter ?keep (bb_body ?bb)\<rparr>)"
    using R(1) b by (simp add: rewritten_def block_def)
  moreover have "exec_phis S f' prev (filter ?keep ?ps) env' = Some e1'"
    using vs'(1) by (simp add: exec_phis_def e1'_def)
  ultimately show ?thesis using e2'(1) t(1) by (simp add: exec_block_def split)
qed

section \<open>Functions\<close>

definition rewrite_rel ::
  "('v, 'm) ir_sem \<Rightarrow> ir_function \<Rightarrow> ir_function \<Rightarrow> instr_id set \<Rightarrow> (value_ref \<Rightarrow> value_ref) \<Rightarrow>
     ('v env \<Rightarrow> 'v env \<Rightarrow> bool) \<Rightarrow> ('v, 'm) config \<Rightarrow> ('v, 'm) config \<Rightarrow> bool" where
  "rewrite_rel S f f' D g K c d \<longleftrightarrow>
     rewritten f f' D g \<and> rewrite_sound S f D g K \<and> outcome_rel K (Inl c :: _ + unit) (Inl d)"

lemma rewrite_rel_step:
  assumes "rewrite_rel S f f' D g K c d" "exec_block S f c = Some out"
  shows "\<exists>out'. exec_block S f' d = Some out' \<and> outcome_rel K out out'"
proof -
  obtain b p env m where c: "c = (b, p, env, m)" by (cases c)
  with assms(1) obtain env' where d: "d = (b, p, env', m)" "K env env'"
    and R: "rewritten f f' D g" "rewrite_sound S f D g K"
    by (cases d) (auto simp: rewrite_rel_def)
  from exec_block_rewritten [OF R d(2) assms(2) [unfolded c]] d(1) show ?thesis by simp
qed

interpretation rewriting: block_simulation "exec_block S f" "exec_block S f'" "rewrite_rel S f f' D g K" "\<lambda>_. 0"
proof unfold_locales
  fix c d c' assume a: "rewrite_rel S f f' D g K c d" "exec_block S f c = Some (Inl c')"
  from rewrite_rel_step [OF a] obtain out'
    where o': "exec_block S f' d = Some out'" "outcome_rel K (Inl c') out'" by blast
  then obtain d' where "out' = Inl d'" by (cases out'; cases c'; simp)
  with o' a(1) show "(\<exists>d'. exec_block S f' d = Some (Inl d') \<and> rewrite_rel S f f' D g K c' d') \<or>
      rewrite_rel S f f' D g K c' d \<and> (0::nat) < 0"
    by (cases c'; cases d') (auto simp: rewrite_rel_def)
next
  fix c d out assume a: "rewrite_rel S f f' D g K c d" "exec_block S f c = Some (Inr out)"
  from rewrite_rel_step [OF a] show "exec_block S f' d = Some (Inr out)" by (auto elim!: outcome_rel.elims)
qed

lemma rewritten_preserves:
  assumes "rewritten f f' D g" "rewrite_sound S f D g K" "K Map.empty Map.empty"
  shows "preserves S f f'"
  by (rule preservesI [OF rewriting.block_simulation_axioms [of S f f' D g K]])
    (use assms in \<open>simp add: rewrite_rel_def entry_config_def\<close>)

end
