(* ===== verification/Analysis_UseDef.thy ===== *)
theory Analysis_UseDef
  imports IR_Function IR_Semantics
begin

text \<open>
  Use-def chains (\<open>llvm-analysis/src/use_def.rs\<close>): where each instruction is defined, and where each
  value is used, with the uses of a phi recorded both at its own block and at the predecessor the value
  comes from. The hash maps are partial functions.
\<close>

section \<open>The computation\<close>

record use_def_info =
  instr_block :: "instr_id \<rightharpoonup> block_id"
  uses :: "value_ref \<rightharpoonup> (block_id \<times> instr_id) list"
  phi_uses :: "value_ref \<rightharpoonup> (block_id \<times> instr_id) list"

definition use_def_operands :: "block_id \<Rightarrow> instr_id \<Rightarrow> instr_kind \<Rightarrow> use_def_info \<Rightarrow> use_def_info" where
  "use_def_operands bid iid k info =
     (case k of
        Phi _ incoming \<Rightarrow>
          foldl (\<lambda>info (val, pred). info\<lparr>uses := entry_push (uses info) val (bid, iid),
                                          phi_uses := entry_push (phi_uses info) val (pred, iid)\<rparr>)
            info incoming
      | _ \<Rightarrow> foldl (\<lambda>info operand. info\<lparr>uses := entry_push (uses info) operand (bid, iid)\<rparr>)
            info (operands k))"

definition use_def_instr ::
  "ir_function \<Rightarrow> block_id \<Rightarrow> use_def_info \<Rightarrow> instr_id \<Rightarrow> use_def_info rust" where
  "use_def_instr f bid info iid =
     do { let info = info\<lparr>instr_block := (instr_block info)(iid \<mapsto> bid)\<rparr>;
          ins \<leftarrow> instr f iid;
          Some (use_def_operands bid iid (instr_kind ins) info) }"

definition use_def_compute :: "ir_function \<Rightarrow> use_def_info rust" where
  "use_def_compute f =
     try_foldl (\<lambda>info (bi, bb). try_foldl (use_def_instr f (as_u32 bi)) info (bb_instrs bb))
       \<lparr>instr_block = Map.empty, uses = Map.empty, phi_uses = Map.empty\<rparr>
       (enumerate 0 (blocks f))"

definition def_block :: "use_def_info \<Rightarrow> instr_id \<Rightarrow> block_id option" where
  "def_block info i = instr_block info i"

definition uses_of :: "use_def_info \<Rightarrow> value_ref \<Rightarrow> (block_id \<times> instr_id) list" where
  "uses_of info v = map_default [] (uses info) v"

definition phi_uses_of :: "use_def_info \<Rightarrow> value_ref \<Rightarrow> (block_id \<times> instr_id) list" where
  "phi_uses_of info v = map_default [] (phi_uses info) v"

definition is_dead :: "use_def_info \<Rightarrow> value_ref \<Rightarrow> bool" where
  "is_dead info v \<longleftrightarrow> uses_of info v = []"

section \<open>What the chains contain\<close>

text \<open>The reference: the positions of the blocks in order, one entry per operand.\<close>

definition placed :: "ir_function \<Rightarrow> (block_id \<times> instr_id) list" where
  "placed f = concat (map (\<lambda>(b, bb). map (Pair b) (bb_instrs bb)) (enumerate 0 (blocks f)))"

definition kind_of :: "ir_function \<Rightarrow> instr_id \<Rightarrow> instr_kind" where
  "kind_of f i = instr_kind (instructions f ! i)"

definition uses_list :: "ir_function \<Rightarrow> value_ref \<Rightarrow> (block_id \<times> instr_id) list" where
  "uses_list f v = concat (map (\<lambda>(b, i). map (\<lambda>_. (b, i)) (filter ((=) v) (operands (kind_of f i)))) (placed f))"

definition phi_uses_list :: "ir_function \<Rightarrow> value_ref \<Rightarrow> (block_id \<times> instr_id) list" where
  "phi_uses_list f v =
     concat (map (\<lambda>(b, i). map (\<lambda>(_, p). (p, i)) (filter (\<lambda>(x, _). x = v) (phi_incoming (kind_of f i)))) (placed f))"

lemma use_def_operands_if:
  "use_def_operands bid iid k info =
     (if is_phi k
      then foldl (\<lambda>info (val, pred). info\<lparr>uses := entry_push (uses info) val (bid, iid),
                                          phi_uses := entry_push (phi_uses info) val (pred, iid)\<rparr>)
             info (phi_incoming k)
      else foldl (\<lambda>info operand. info\<lparr>uses := entry_push (uses info) operand (bid, iid)\<rparr>)
             info (operands k))"
  by (cases k) (simp_all add: use_def_operands_def is_phi_def phi_incoming_def del: foldl_Cons)

lemma phi_incoming_not_phi: "\<not> is_phi k \<Longrightarrow> phi_incoming k = []"
  by (cases k) (simp_all add: is_phi_def phi_incoming_def)

lemma uses_of_operands:
  "uses_of (use_def_operands b i k info) v = uses_of info v @ map (\<lambda>_. (b, i)) (filter ((=) v) (operands k))"
proof -
  have 1: "uses_of (foldl (\<lambda>info operand. info\<lparr>uses := entry_push (uses info) operand (b, i)\<rparr>) info vs) v =
      uses_of info v @ map (\<lambda>_. (b, i)) (filter ((=) v) vs)" for vs info
    by (induction vs arbitrary: info) (auto simp: uses_of_def)
  have 2: "uses_of (foldl (\<lambda>info (val, pred). info\<lparr>uses := entry_push (uses info) val (b, i),
             phi_uses := entry_push (phi_uses info) val (pred, i)\<rparr>) info inc) v =
      uses_of info v @ map (\<lambda>_. (b, i)) (filter ((=) v) (map fst inc))" for inc info
    by (induction inc arbitrary: info) (auto simp: uses_of_def)
  show ?thesis using phi_incoming_operands [of k] by (simp add: use_def_operands_if 1 2)
qed

lemma phi_uses_of_operands:
  "phi_uses_of (use_def_operands b i k info) v =
     phi_uses_of info v @ map (\<lambda>(_, p). (p, i)) (filter (\<lambda>(x, _). x = v) (phi_incoming k))"
proof -
  have 1: "phi_uses_of (foldl (\<lambda>info operand. info\<lparr>uses := entry_push (uses info) operand (b, i)\<rparr>) info vs) v =
      phi_uses_of info v" for vs info
    by (induction vs arbitrary: info) (auto simp: phi_uses_of_def)
  have 2: "phi_uses_of (foldl (\<lambda>info (val, pred). info\<lparr>uses := entry_push (uses info) val (b, i),
             phi_uses := entry_push (phi_uses info) val (pred, i)\<rparr>) info inc) v =
      phi_uses_of info v @ map (\<lambda>(_, p). (p, i)) (filter (\<lambda>(x, _). x = v) inc)" for inc info
    by (induction inc arbitrary: info) (auto simp: phi_uses_of_def)
  show ?thesis by (simp add: use_def_operands_if 1 2 phi_incoming_not_phi)
qed

lemma instr_block_operands: "instr_block (use_def_operands b i k info) = instr_block info"
proof -
  have 1: "instr_block (foldl (\<lambda>info operand. info\<lparr>uses := entry_push (uses info) operand (b, i)\<rparr>) info vs) =
      instr_block info" for vs info by (induction vs arbitrary: info) auto
  have 2: "instr_block (foldl (\<lambda>info (val, pred). info\<lparr>uses := entry_push (uses info) val (b, i),
             phi_uses := entry_push (phi_uses info) val (pred, i)\<rparr>) info inc) = instr_block info" for inc info
    by (induction inc arbitrary: info) auto
  show ?thesis by (simp add: use_def_operands_if 1 2)
qed

definition use_def_step :: "ir_function \<Rightarrow> use_def_info \<Rightarrow> block_id \<times> instr_id \<Rightarrow> use_def_info" where
  "use_def_step f info bi =
     use_def_operands (fst bi) (snd bi) (kind_of f (snd bi))
       (info\<lparr>instr_block := (instr_block info)(snd bi \<mapsto> fst bi)\<rparr>)"

lemma use_def_compute_placed:
  assumes "wf_func f"
  shows "use_def_compute f =
     Some (foldl (use_def_step f) \<lparr>instr_block = Map.empty, uses = Map.empty, phi_uses = Map.empty\<rparr> (placed f))"
proof -
  have blk: "try_foldl (use_def_instr f b) info is = Some (foldl (use_def_step f) info (map (Pair b) is))"
    if "\<forall>i\<in>set is. i < length (instructions f)" for b info "is"
    using that by (induction "is" arbitrary: info)
      (auto simp: use_def_instr_def use_def_step_def instr_def kind_of_def Let_def)
  have "try_foldl (\<lambda>info (bi, bb). try_foldl (use_def_instr f (as_u32 bi)) info (bb_instrs bb)) info (enumerate n bbs) =
      Some (foldl (use_def_step f) info (concat (map (\<lambda>(b, bb). map (Pair b) (bb_instrs bb)) (enumerate n bbs))))"
    if "\<forall>bb\<in>set bbs. \<forall>i\<in>set (bb_instrs bb). i < length (instructions f)" "n + length bbs \<le> 2 ^ 32" for info n bbs
    using that by (induction bbs arbitrary: info n) (auto simp: blk)
  from this [of "blocks f" 0] assms show ?thesis
    by (simp add: use_def_compute_def placed_def wf_func_def)
qed

theorem use_def_compute_lists:
  assumes "wf_func f" "use_def_compute f = Some info"
  shows "uses_of info v = uses_list f v" and "phi_uses_of info v = phi_uses_list f v"
    and "def_block info i = map_of (rev (map prod.swap (placed f))) i"
proof -
  let ?e = "\<lparr>instr_block = Map.empty, uses = Map.empty, phi_uses = Map.empty\<rparr> :: use_def_info"
  have info: "info = foldl (use_def_step f) ?e (placed f)"
    using use_def_compute_placed [OF assms(1)] assms(2) by simp
  have upd [simp]: "uses_of (inf\<lparr>instr_block := m\<rparr>) v = uses_of inf v"
      "phi_uses_of (inf\<lparr>instr_block := m\<rparr>) v = phi_uses_of inf v" for inf :: use_def_info and m
    by (simp_all add: uses_of_def phi_uses_of_def)
  have "uses_of (foldl (use_def_step f) inf ps) v = uses_of inf v @
      concat (map (\<lambda>(b, i). map (\<lambda>_. (b, i)) (filter ((=) v) (operands (kind_of f i)))) ps)" for inf ps
    by (induction ps arbitrary: inf) (auto simp: use_def_step_def uses_of_operands)
  then show "uses_of info v = uses_list f v" by (simp add: info uses_list_def) (simp add: uses_of_def)
  have "phi_uses_of (foldl (use_def_step f) inf ps) v = phi_uses_of inf v @
      concat (map (\<lambda>(b, i). map (\<lambda>(_, p). (p, i)) (filter (\<lambda>(x, _). x = v) (phi_incoming (kind_of f i)))) ps)" for inf ps
    by (induction ps arbitrary: inf) (auto simp: use_def_step_def phi_uses_of_operands)
  then show "phi_uses_of info v = phi_uses_list f v" by (simp add: info phi_uses_list_def) (simp add: phi_uses_of_def)
  have "instr_block (foldl (use_def_step f) inf ps) = instr_block inf ++ map_of (rev (map prod.swap ps))" for inf ps
    by (induction ps arbitrary: inf) (auto simp: use_def_step_def instr_block_operands map_add_def split: option.splits)
  then show "def_block info i = map_of (rev (map prod.swap (placed f))) i" by (simp add: info def_block_def)
qed

lemma placed_iff: "(b, i) \<in> set (placed f) \<longleftrightarrow> b < length (blocks f) \<and> i \<in> set (bb_instrs (blocks f ! b))"
  by (force simp: placed_def in_set_enumerate_eq)

text \<open>A value is dead exactly when no instruction in a block has it as an operand.\<close>

lemma is_dead_iff:
  assumes "wf_func f" "use_def_compute f = Some info"
  shows "is_dead info v \<longleftrightarrow>
     (\<forall>bb\<in>set (blocks f). \<forall>i\<in>set (bb_instrs bb). v \<notin> set (operands (kind_of f i)))"
proof -
  have "is_dead info v \<longleftrightarrow> (\<forall>(b, i)\<in>set (placed f). v \<notin> set (operands (kind_of f i)))"
    unfolding is_dead_def use_def_compute_lists(1) [OF assms] uses_list_def
    by (simp add: split_def filter_empty_conv) blast
  also have "\<dots> \<longleftrightarrow> (\<forall>bb\<in>set (blocks f). \<forall>i\<in>set (bb_instrs bb). v \<notin> set (operands (kind_of f i)))"
    using placed_iff [of _ _ f] in_set_conv_nth [of _ "blocks f"] by fastforce
  finally show ?thesis .
qed

end
