(* ===== verification/Transform_Dce.thy ===== *)
theory Transform_Dce
  imports Analysis_UseDef Pass_Rewrite IR_Context
begin

text \<open>
  Dead-code elimination (\<open>llvm-transforms/src/dce.rs\<close>): instructions of a deletable kind whose result
  nobody uses leave their blocks. They stay in the instruction pool of the function.
\<close>

section \<open>The pass\<close>

definition is_dce_safe :: "instr_kind \<Rightarrow> bool" where
  "is_dce_safe k \<longleftrightarrow>
     \<not> (case k of
          Alloca _ _ _ \<Rightarrow> True | Load _ _ _ _ \<Rightarrow> True | Store _ _ _ _ \<Rightarrow> True | Call _ _ _ _ \<Rightarrow> True
        | Fence _ \<Rightarrow> True | CmpXchg _ _ _ _ _ _ _ \<Rightarrow> True | AtomicRmw _ _ _ _ _ \<Rightarrow> True
        | Ret _ \<Rightarrow> True | Br _ \<Rightarrow> True | CondBr _ _ _ \<Rightarrow> True | Switch _ _ _ \<Rightarrow> True | Unreachable \<Rightarrow> True
        | _ \<Rightarrow> False)"

definition retain_instrs :: "(instr_id \<Rightarrow> bool) \<Rightarrow> ir_function \<Rightarrow> ir_function" where
  \<comment> \<open>\<open>for bb in &mut func.blocks { bb.body.retain(..) }\<close>\<close>
  "retain_instrs P f = f\<lparr>blocks := map (\<lambda>bb. bb\<lparr>bb_body := filter P (bb_body bb)\<rparr>) (blocks f)\<rparr>"

definition dead_instrs :: "use_def_info \<Rightarrow> ir_function \<Rightarrow> instr_id list" where
  "dead_instrs info f =
     map (\<lambda>(i, ins). as_u32 i)
       (filter (\<lambda>(i, ins). is_dce_safe (instr_kind ins) \<and> is_dead info (Instruction (as_u32 i)))
         (enumerate 0 (instructions f)))"

definition dce :: "ir_context \<Rightarrow> ir_function \<Rightarrow> (ir_context \<times> ir_function \<times> bool) rust" where
  "dce ctx f =
     do { info \<leftarrow> use_def_compute f;
          let dead = dead_instrs info f;
          if dead = [] then Some (ctx, f, False)
          else Some (ctx, retain_instrs (\<lambda>i. i \<notin> set dead) f, True) }"

section \<open>The dead set\<close>

definition dead_set :: "ir_function \<Rightarrow> instr_id set" where
  "dead_set f =
     {i. i < length (instructions f) \<and> is_dce_safe (kind_of f i) \<and>
        (\<forall>bb\<in>set (blocks f). \<forall>j\<in>set (bb_instrs bb). Instruction i \<notin> set (operands (kind_of f j)))}"

lemma set_dead_instrs:
  assumes "wf_func f" "use_def_compute f = Some info"
  shows "set (dead_instrs info f) = dead_set f"
proof -
  have "i < length (instructions f) \<Longrightarrow> as_u32 i = i" for i using assms(1) by (simp add: wf_func_def)
  then show ?thesis
    by (force simp: dead_instrs_def dead_set_def is_dead_iff [OF assms] kind_of_def in_set_enumerate_eq image_iff)
qed

lemma retain_all: "retain_instrs (\<lambda>i. True) f = f"
  by (simp add: retain_instrs_def map_idI)

lemma dce_eq:
  assumes "wf_func f"
  shows "dce ctx f = Some (ctx, retain_instrs (\<lambda>i. i \<notin> dead_set f) f, dead_set f \<noteq> {})"
proof -
  obtain info where i: "use_def_compute f = Some info" using use_def_compute_placed [OF assms] by blast
  from set_dead_instrs [OF assms i] show ?thesis
    by (cases "dead_instrs info f = []") (auto simp: dce_def i Let_def retain_all simp flip: set_empty)
qed

lemma wf_func_retain:
  assumes "wf_func f"
  shows "wf_func (retain_instrs P f)"
proof -
  have sub: "set (bb_instrs (bb\<lparr>bb_body := filter P (bb_body bb)\<rparr>)) \<subseteq> set (bb_instrs bb)" for bb
    by (auto simp: bb_instrs_def)
  have "succ_list (retain_instrs P f) b = succ_list f b" for b
    by (cases "bb_terminator (blocks f ! b)") (simp_all add: succ_list_def terminator_kind_def retain_instrs_def)
  then show ?thesis using assms sub by (fastforce simp: wf_func_def retain_instrs_def)
qed

section \<open>Meaning\<close>

definition side_effect_free :: "('v, 'm) ir_sem \<Rightarrow> instr_kind \<Rightarrow> bool" where
  "side_effect_free S k \<longleftrightarrow>
     (\<forall>vs m r m' n. sem_exec S (shape k) vs m = Some (r, m', n) \<longrightarrow> m' = m)"

definition deletable_pure :: "('v, 'm) ir_sem \<Rightarrow> ir_function \<Rightarrow> bool" where
  "deletable_pure S f \<longleftrightarrow>
     (\<forall>i. in_body f i \<longrightarrow> is_dce_safe (kind_of f i) \<longrightarrow> side_effect_free S (kind_of f i))"

definition agree_except :: "instr_id set \<Rightarrow> 'v env \<Rightarrow> 'v env \<Rightarrow> bool" where
  "agree_except D env env' \<longleftrightarrow> (\<forall>i. i \<notin> D \<longrightarrow> env' i = env i)"

lemma kept_operands:
  assumes "wf_func f" "kept f D i"
  shows "i < length (instructions f)"
    and "v \<in> set (operands (kind_of f i)) \<Longrightarrow> v \<noteq> Instruction j \<or> j \<notin> dead_set f"
  using assms by (fastforce simp: kept_def wf_func_def dead_set_def bb_instrs_def)+

lemma exec_instr_effect:
  assumes "exec_instr S f i (env, m) = Some (env1, m1, n)"
  shows "env1 = env(i := env1 i)" and "side_effect_free S (kind_of f i) \<Longrightarrow> m1 = m"
proof -
  from assms obtain vs r where x: "sem_exec S (shape (kind_of f i)) vs m = Some (r, m1, n)" "env1 = env(i := r)"
    by (auto simp: exec_instr_def kind_of_def instr_def rust_simps split: bind_splits if_splits)
  from x(2) show "env1 = env(i := env1 i)" by simp
  show "side_effect_free S (kind_of f i) \<Longrightarrow> m1 = m" using x(1) unfolding side_effect_free_def by blast
qed

lemma dce_rewritten:
  assumes "wf_func f"
  shows "rewritten f (retain_instrs (\<lambda>i. i \<notin> D) f) D (\<lambda>v. v)"
  by (auto simp: rewritten_def retain_instrs_def instr_def rewrite_id)

lemma dce_sound:
  assumes "wf_func f" "deletable_pure S f"
  shows "rewrite_sound S f (dead_set f) (\<lambda>v. v) (agree_except (dead_set f))"
proof (rule rewrite_soundI)
  let ?D = "dead_set f"
  show "eval_value S env' v = Some x" if "agree_except ?D env env'" "kept f ?D i" "instr f i = Some ins"
      "v \<in> set (operands (instr_kind ins))" "eval_value S env v = Some x" for env env' i ins v x
  proof (cases v)
    case (Instruction j)
    then have "j \<notin> ?D"
      using kept_operands(2) [OF assms(1) that(2), of v j] that(3,4) by (simp add: kind_of_def instr_def rust_simps)
    with that Instruction show ?thesis by (simp add: agree_except_def eval_value_def)
  qed (use that in \<open>simp_all add: eval_value_def\<close>)
  show "agree_except ?D env1 env' \<and> m1 = m" if "agree_except ?D env env'" "i \<in> ?D" "in_body f i"
      "exec_instr S f i (env, m) = Some (env1, m1, n)" for env env' i m env1 m1 n
  proof -
    have "side_effect_free S (kind_of f i)"
      using assms(2) that(2,3) by (simp add: deletable_pure_def dead_set_def)
    with exec_instr_effect [OF that(4)] have "env1 = env(i := env1 i)" "m1 = m" by blast+
    with that(1,2) show ?thesis unfolding agree_except_def by (metis fun_upd_other)
  qed
qed (simp_all add: agree_except_def)

lemma dce_preserves_set:
  assumes "wf_func f" "deletable_pure S f"
  shows "preserves S f (retain_instrs (\<lambda>i. i \<notin> dead_set f) f)"
  by (rule rewritten_preserves [OF dce_rewritten [OF assms(1)] dce_sound [OF assms]])
    (simp add: agree_except_def)

section \<open>Properties\<close>

text \<open>C5: Dead-code elimination returns on every well-formed function, deletes exactly the instructions of
  a deletable kind that no instruction in a block uses, and preserves the meaning of the function, provided
  the instructions it regards as deletable have no side effect.\<close>

theorem dce_correct:
  assumes "wf_func f"
  shows "\<exists>f' changed. dce ctx f = Some (ctx, f', changed) \<and> wf_func f' \<and>
     (\<forall>i. in_body f' i \<longleftrightarrow> in_body f i \<and> \<not> (is_dce_safe (kind_of f i) \<and>
        (\<forall>b j. b < length (blocks f) \<and> j \<in> set (bb_instrs (blocks f ! b)) \<longrightarrow>
           Instruction i \<notin> set (operands (kind_of f j))))) \<and>
     (deletable_pure S f \<longrightarrow> preserves S f f')"
proof -
  let ?f = "retain_instrs (\<lambda>i. i \<notin> dead_set f) f"
  have "in_body f i \<Longrightarrow> i < length (instructions f)" for i
    using assms by (fastforce simp: in_body_def wf_func_def bb_instrs_def)
  moreover have "i \<in> dead_set f \<longleftrightarrow> i < length (instructions f) \<and> is_dce_safe (kind_of f i) \<and>
        (\<forall>b j. b < length (blocks f) \<and> j \<in> set (bb_instrs (blocks f ! b)) \<longrightarrow>
           Instruction i \<notin> set (operands (kind_of f j)))" for i
    by (auto simp: dead_set_def all_set_conv_all_nth [of "blocks f"])
  moreover have "in_body ?f i \<longleftrightarrow> in_body f i \<and> i \<notin> dead_set f" for i
    by (auto simp: in_body_def retain_instrs_def)
  ultimately have "in_body ?f i \<longleftrightarrow> in_body f i \<and> \<not> (is_dce_safe (kind_of f i) \<and>
        (\<forall>b j. b < length (blocks f) \<and> j \<in> set (bb_instrs (blocks f ! b)) \<longrightarrow>
           Instruction i \<notin> set (operands (kind_of f j))))" for i
    by blast
  with dce_eq [OF assms] wf_func_retain [OF assms] dce_preserves_set [OF assms] show ?thesis by blast
qed

text \<open>A function with an unused addition.\<close>

definition ex_dead_add :: ir_function where
  "ex_dead_add = (function_new ''f'' 0 [] External)
     \<lparr>blocks := [\<lparr>bb_name = ''entry'', bb_body = [0], bb_terminator = Some 1\<rparr>],
      instructions := [\<lparr>instr_name = Some ''x'', instr_ty = 0,
                        instr_kind = And (Constant 0) (Constant 0)\<rparr>,
                       \<lparr>instr_name = None, instr_ty = 0, instr_kind = Ret None\<rparr>]\<rparr>"

definition ex_sem :: "(nat, nat) ir_sem" where
  \<comment> \<open>memory counts the executions of inline assembly\<close>
  "ex_sem = \<lparr>sem_const = (\<lambda>_. 0),
     sem_exec = (\<lambda>k vs m. case k of
         InlineAsm _ _ _ _ _ \<Rightarrow> Some (None, Suc m, None)
       | And _ _ \<Rightarrow> Some (Some 0, m, None)
       | Ret _ \<Rightarrow> Some (None, m, None)
       | _ \<Rightarrow> None)\<rparr>"

lemma ex_dead_add_wf: "wf_func ex_dead_add" "deletable_pure ex_sem ex_dead_add"
  by (auto simp: ex_dead_add_def wf_func_def bb_instrs_def succ_list_def terminator_kind_def function_new_def
      deletable_pure_def side_effect_free_def ex_sem_def kind_of_def shape_def rename_blocks_def in_body_def)

theorem dce_correct_witness:
  "\<exists>f' changed. dce context_new ex_dead_add = Some (context_new, f', changed) \<and> \<not> in_body f' 0 \<and>
     preserves ex_sem ex_dead_add f'"
proof -
  have s: "is_dce_safe (kind_of ex_dead_add 0)"
    by (simp add: ex_dead_add_def kind_of_def is_dce_safe_def)
  have u: "Instruction 0 \<notin> set (operands (kind_of ex_dead_add j))"
    if "b < length (blocks ex_dead_add)" "j \<in> set (bb_instrs (blocks ex_dead_add ! b))" for b j
    using that by (auto simp: ex_dead_add_def kind_of_def bb_instrs_def)
  from dce_correct [OF ex_dead_add_wf(1), of context_new ex_sem] obtain f' changed
    where f: "dce context_new ex_dead_add = Some (context_new, f', changed)"
      and b: "\<forall>i. in_body f' i \<longleftrightarrow> in_body ex_dead_add i \<and> \<not> (is_dce_safe (kind_of ex_dead_add i) \<and>
        (\<forall>b j. b < length (blocks ex_dead_add) \<and> j \<in> set (bb_instrs (blocks ex_dead_add ! b)) \<longrightarrow>
           Instruction i \<notin> set (operands (kind_of ex_dead_add j))))"
      and p: "preserves ex_sem ex_dead_add f'"
    using ex_dead_add_wf(2) by blast
  from b s u have "\<not> in_body f' 0" by blast
  with f p show ?thesis by blast
qed

text \<open>A function whose only instruction is inline assembly marked as having a side effect.\<close>

definition ex_asm :: ir_function where
  "ex_asm = (function_new ''f'' 0 [] External)
     \<lparr>blocks := [\<lparr>bb_name = ''entry'', bb_body = [0], bb_terminator = Some 1\<rparr>],
      instructions := [\<lparr>instr_name = None, instr_ty = 0, instr_kind = InlineAsm ''outb'' [] True False []\<rparr>,
                       \<lparr>instr_name = None, instr_ty = 0, instr_kind = Ret None\<rparr>]\<rparr>"

text \<open>Inline assembly with a side effect is deleted when its result is not used: the function below runs
  its assembly once, the function that dead-code elimination makes of it never does.\<close>

lemma dce_deletes_asm:
  "\<exists>f'. dce ctx ex_asm = Some (ctx, f', True) \<and> map bb_body (blocks f') = [[]] \<and>
     returns ex_sem ex_asm m (None, Suc m) \<and> \<not> returns ex_sem f' m (None, Suc m)"
proof -
  have wf: "wf_func ex_asm"
    by (auto simp: ex_asm_def wf_func_def bb_instrs_def succ_list_def terminator_kind_def function_new_def)
  have "dead_set ex_asm = {0}"
    by (auto simp: dead_set_def ex_asm_def bb_instrs_def kind_of_def is_dce_safe_def less_Suc_eq)
  then have dce: "dce ctx ex_asm = Some (ctx, retain_instrs (\<lambda>i. i \<noteq> 0) ex_asm, True)"
    using dce_eq [OF wf] by simp
  note evals = ex_asm_def run_function_def entry_config_def exec_block_def block_def exec_phis_def phi_id_def
    instr_def is_phi_def exec_term_def exec_instr_def shape_def rename_blocks_def ex_sem_def retain_instrs_def
    exec_body_Cons
  have "run_function ex_sem ex_asm (Suc 0) m = Some (Inr (None, Suc m))" by (simp add: evals)
  then have "returns ex_sem ex_asm m (None, Suc m)" by (auto simp: returns_def)
  moreover have "run_function ex_sem (retain_instrs (\<lambda>i. i \<noteq> 0) ex_asm) n m \<noteq> Some (Inr (None, Suc m))" for n
    by (cases n) (simp_all add: evals)
  ultimately show ?thesis using dce by (auto simp: returns_def) (simp add: retain_instrs_def ex_asm_def)
qed

text \<open>Once dead-code elimination has deleted something it reports a change on every later run as well,
  because it looks for dead instructions in the pool, where deleted instructions stay.\<close>

theorem dce_never_stable:
  assumes "wf_func f" "dce ctx f = Some (ctx', f', True)"
  shows "\<exists>f''. dce ctx' f' = Some (ctx', f'', True)"
proof -
  let ?f = "retain_instrs (\<lambda>i. i \<notin> dead_set f) f"
  from assms dce_eq have f': "f' = ?f" "dead_set f \<noteq> {}" by auto
  have "bb_instrs (bb\<lparr>bb_body := filter P (bb_body bb)\<rparr>) = filter P (bb_body bb) @ opt_list (bb_terminator bb)" for bb P
    by (simp add: bb_instrs_def)
  then have "dead_set f \<subseteq> dead_set ?f"
    by (auto simp: dead_set_def retain_instrs_def kind_of_def bb_instrs_def)
  with f' dce_eq [of f' ctx'] wf_func_retain [OF assms(1)] show ?thesis by auto
qed

theorem dce_never_stable_witness:
  "\<exists>f' f''. dce context_new ex_dead_add = Some (context_new, f', True) \<and>
     dce context_new f' = Some (context_new, f'', True)"
proof -
  have "0 \<in> dead_set ex_dead_add"
    by (simp add: dead_set_def ex_dead_add_def kind_of_def is_dce_safe_def bb_instrs_def)
  then have "\<exists>f'. dce context_new ex_dead_add = Some (context_new, f', True)"
    using dce_eq [OF ex_dead_add_wf(1)] by auto
  with dce_never_stable [OF ex_dead_add_wf(1)] show ?thesis by blast
qed

end
