(* ===== verification/Const_Fold_Total.thy ===== *)
theory Const_Fold_Total
  imports Const_Fold_Correct "HOL-Library.Sublist" IR_Semantics
begin

text \<open>
  Folding on well-typed constants: it does not panic, it only appends to the pool of constants, by at
  most one, and the constant it returns is in the pool. The locale \<open>const_folder\<close> states this as the
  contract between the folding functions and the passes that call them.
\<close>

definition good_const :: "ir_context \<Rightarrow> constant_data \<Rightarrow> bool" where
  \<comment> \<open>an integer constant has an integer type of 1 to 64 bits, a float constant some type\<close>
  "good_const ctx d \<longleftrightarrow>
     (case d of
        CInt ty _ \<Rightarrow> (case get_type ctx ty of Some (TyInteger N) \<Rightarrow> 0 < N \<and> N \<le> 64 | _ \<Rightarrow> False)
      | CFloat ty _ \<Rightarrow> get_type ctx ty \<noteq> None
      | _ \<Rightarrow> True)"

definition ctx_ok :: "ir_context \<Rightarrow> bool" where
  "ctx_ok ctx \<longleftrightarrow> wf_context ctx \<and> (\<forall>d\<in>set (constants ctx). good_const ctx d)"

definition extends :: "ir_context \<Rightarrow> ir_context \<Rightarrow> bool" where
  "extends ctx ctx' \<longleftrightarrow> types ctx' = types ctx \<and> prefix (constants ctx) (constants ctx')"

definition operands_ok :: "ir_context \<Rightarrow> instr_kind \<Rightarrow> bool" where
  "operands_ok ctx k \<longleftrightarrow> (\<forall>c. Constant c \<in> set (operands k) \<longrightarrow> c < length (constants ctx))"

definition fold_ok :: "ir_context \<Rightarrow> fold_result \<Rightarrow> bool" where
  "fold_ok ctx r \<longleftrightarrow>
     (\<exists>res ctx'. r = Some (res, ctx') \<and> ctx_ok ctx' \<and> extends ctx ctx' \<and>
        length (constants ctx') \<le> Suc (length (constants ctx)) \<and>
        (\<forall>c. res = Some c \<longrightarrow> c < length (constants ctx')))"

lemma extends_refl [simp]: "extends ctx ctx"
  by (simp add: extends_def)

lemma extends_trans: "extends a b \<Longrightarrow> extends b c \<Longrightarrow> extends a c"
  unfolding extends_def using prefix_order.trans by metis

lemma extends_length: "extends a b \<Longrightarrow> length (constants a) \<le> length (constants b)"
  by (simp add: extends_def prefix_length_le)

lemma operands_ok_extends: "operands_ok a k \<Longrightarrow> extends a b \<Longrightarrow> operands_ok b k"
  using extends_length [of a b] by (auto simp: operands_ok_def)

section \<open>Interning a constant\<close>

lemma intern_key_ok:
  assumes "ctx_ok ctx" "length (constants ctx) < 2 ^ 32" "good_const ctx (const_of_key k)"
    and "intern_key ctx k = (ctx', c)"
  shows "fold_ok ctx (Some (Some c, ctx'))"
proof -
  have wf: "wf_context ctx'"
    using const_pool.intern_invar [OF _ TrueI assms(2,4)] assms(1) by (simp add: ctx_ok_def)
  have c: "get_const ctx' c = Some (const_of_key k)"
    using const_pool.intern_fetch_new [OF _ TrueI assms(2,4)] assms(1) by (simp add: ctx_ok_def)
  have e: "types ctx' = types ctx \<and> (constants ctx' = constants ctx \<or> constants ctx' = constants ctx @ [const_of_key k])"
    using assms(4) by (auto simp: intern_key_def intern_const_def Let_def split: option.splits)
  then have gt: "get_type ctx' = get_type ctx" by (simp add: get_type_def fun_eq_iff)
  have "good_const ctx' d \<longleftrightarrow> good_const ctx d" for d unfolding good_const_def gt by (rule refl)
  with e assms(1,3) wf have "ctx_ok ctx'" by (auto simp: ctx_ok_def)
  moreover have "extends ctx ctx'" "length (constants ctx') \<le> Suc (length (constants ctx))"
    using e by (auto simp: extends_def)
  moreover have "c < length (constants ctx')" using c by (simp add: get_const_def rust_simps)
  ultimately show ?thesis by (simp add: fold_ok_def)
qed

lemma fold_ok_no_fold [simp]: "ctx_ok ctx \<Longrightarrow> fold_ok ctx (no_fold ctx)"
  by (simp add: fold_ok_def no_fold_def)

lemma fold_ok_folded:
  assumes "ctx_ok ctx" "length (constants ctx) < 2 ^ 32" "get_type ctx ty = Some (TyInteger N)" "0 < N" "N \<le> 64"
  shows "fold_ok ctx (folded ctx ty v)"
proof -
  obtain ctx' c where i: "const_int ctx ty v = (ctx', c)" by fastforce
  have "good_const ctx (const_of_key (KInt ty v))" using assms(3-5) by (simp add: good_const_def)
  from intern_key_ok [OF assms(1,2) this] i show ?thesis
    by (simp add: folded_def intern_key_def const_int_def)
qed

lemma fold_ok_float:
  assumes "ctx_ok ctx" "length (constants ctx) < 2 ^ 32" "get_type ctx ty = Some td"
  shows "fold_ok ctx (case const_float ctx ty v of (ctx', c) \<Rightarrow> Some (Some c, ctx'))"
proof -
  obtain ctx' c where i: "const_float ctx ty v = (ctx', c)" by fastforce
  have "good_const ctx (const_of_key (KFloat ty v))" using assms(3) by (simp add: good_const_def)
  from intern_key_ok [OF assms(1,2) this] i show ?thesis
    by (simp add: intern_key_def const_float_def)
qed

section \<open>Integer folding\<close>

definition value_ok :: "ir_context \<Rightarrow> value_ref \<Rightarrow> bool" where
  "value_ok ctx v \<longleftrightarrow> (\<forall>c. v = Constant c \<longrightarrow> c < length (constants ctx))"

lemma get_const_int_ok:
  assumes "ctx_ok ctx" "value_ok ctx v"
  obtains "get_const_int ctx v = Some None"
  | ty w N where "get_const_int ctx v = Some (Some (ty, w))" "get_type ctx ty = Some (TyInteger N)" "0 < N" "N \<le> 64"
proof (cases v)
  case (Constant c)
  with assms have c: "get_const ctx c = Some (constants ctx ! c)" "good_const ctx (constants ctx ! c)"
    by (auto simp: value_ok_def get_const_def ctx_ok_def)
  show ?thesis
  proof (cases "constants ctx ! c")
    case (CInt ty w)
    with c obtain N where "get_type ctx ty = Some (TyInteger N)" "0 < N" "N \<le> 64"
      by (auto simp: good_const_def split: option.splits type_data.splits)
    then show ?thesis using that c CInt Constant by (simp add: get_const_int_def)
  qed (use that c Constant in \<open>simp_all add: get_const_int_def\<close>)
qed (use that in \<open>simp_all add: get_const_int_def\<close>)

lemma with_ints_ok:
  assumes "ctx_ok ctx" "value_ok ctx a" "value_ok ctx b"
    and "\<And>ty l r N. get_type ctx ty = Some (TyInteger N) \<Longrightarrow> 0 < N \<Longrightarrow> N \<le> 64 \<Longrightarrow> fold_ok ctx (body ty l r)"
  shows "fold_ok ctx (with_ints ctx a b body)"
proof (rule get_const_int_ok [OF assms(1,2)])
  assume "get_const_int ctx a = Some None"
  then show ?thesis using assms(1) by (simp add: with_ints_def)
next
  fix ty w N assume a: "get_const_int ctx a = Some (Some (ty, w))" "get_type ctx ty = Some (TyInteger N)" "0 < N" "N \<le> 64"
  show ?thesis
    by (rule get_const_int_ok [OF assms(1,3)]) (use a assms(1,4) in \<open>simp_all add: with_ints_def\<close>)
qed

lemma with_width_ok:
  assumes "get_type ctx ty = Some (TyInteger N)" "fold_ok ctx (body N)"
  shows "fold_ok ctx (with_width ctx ty body)"
  using assms by (simp add: with_width_def int_bit_width_def)

lemma with_mask_ok:
  assumes "get_type ctx ty = Some (TyInteger N)" "fold_ok ctx (body (of_nat (N - 1)))"
  shows "fold_ok ctx (with_mask ctx ty body)"
  using assms by (simp add: with_mask_def shift_mask_def)

lemma mask_amount_lt:
  fixes r :: u64
  assumes "0 < N" "N \<le> 64"
  shows "unat (r AND of_nat (N - 1)) < 64"
proof -
  define n where "n = N - 1"
  have n: "n < 64" using assms by (simp add: n_def)
  have "r AND of_nat n \<le> of_nat n" by (rule word_and_le1)
  then have "unat (r AND of_nat n) \<le> unat (of_nat n :: u64)" by (simp add: word_le_nat_alt)
  moreover have "unat (of_nat n :: u64) = n"
    using n by (simp add: unsigned_of_nat take_bit_nat_eq_self)
  ultimately show ?thesis using n unfolding n_def [symmetric] by linarith
qed

lemma sign_extend_total: "0 < N \<Longrightarrow> N \<le> 64 \<Longrightarrow> \<exists>w. sign_extend v N = Some w"
  by (simp add: sign_extend_def Let_def)

lemma icmp_eval_total: "0 < N \<Longrightarrow> N \<le> 64 \<Longrightarrow> \<exists>b. icmp_eval p l r N = Some b"
  using sign_extend_total [of N l] sign_extend_total [of N r] by (cases p) auto

lemma i1_ty_ok: "ctx_ok ctx \<Longrightarrow> get_type ctx (i1_ty ctx) = Some (TyInteger 1)"
  by (simp add: ctx_ok_def wf_context_def wf_singletons_def)

lemma operands_value_ok: "operands_ok ctx k \<Longrightarrow> v \<in> set (operands k) \<Longrightarrow> value_ok ctx v"
  by (auto simp: operands_ok_def value_ok_def)

lemma div_body_ok:
  assumes "ctx_ok ctx" "length (constants ctx) < 2 ^ 32" "get_type ctx ty = Some (TyInteger N)" "0 < N" "N \<le> 64"
    and "\<And>sl sr. fold_ok ctx (body N sl sr)"
  shows "fold_ok ctx (with_width ctx ty (\<lambda>bits. do { sl \<leftarrow> sign_extend l bits; sr \<leftarrow> sign_extend r bits; body bits sl sr }))"
  using sign_extend_total [OF assms(4,5), of l] sign_extend_total [OF assms(4,5), of r] assms(6)
  by (intro with_width_ok [OF assms(3)]) auto

lemma try_fold_ok:
  assumes c: "ctx_ok ctx" "length (constants ctx) < 2 ^ 32" and k: "operands_ok ctx k"
  shows "fold_ok ctx (try_fold ctx k)"
proof -
  note v = operands_value_ok [OF k]
  note ints = with_ints_ok [OF c(1)]
  note fo = fold_ok_folded [OF c]
  note sx = sign_extend_total
  show ?thesis
  proof (cases k)
    case (SDiv ex l r)
    show ?thesis unfolding SDiv try_fold.simps
      by (rule ints; (rule v; simp add: SDiv)?)
        (rule div_body_ok [OF c], assumption+, simp add: c(1) fo)
  next
    case (SRem l r)
    show ?thesis unfolding SRem try_fold.simps
      by (rule ints; (rule v; simp add: SRem)?)
        (rule div_body_ok [OF c], assumption+, simp add: c(1) fo)
  next
    case (Shl fl l r)
    have "fold_ok ctx (with_mask ctx ty (\<lambda>m. do { v \<leftarrow> shl_u64 x (y AND m); folded ctx ty v }))"
      if N: "get_type ctx ty = Some (TyInteger N)" "0 < N" "N \<le> 64" for ty x y N
      by (rule with_mask_ok [OF N(1)]) (simp only: shl_u64_def mask_amount_lt [OF N(2,3)] if_True bind.bind_lunit fo [OF N])
    note h = this
    show ?thesis unfolding Shl try_fold.simps
      by (rule ints) (rule v, simp add: Shl, rule v, simp add: Shl, rule h)
  next
    case (LShr fl l r)
    have "fold_ok ctx (with_mask ctx ty (\<lambda>m. do { v \<leftarrow> lshr_u64 x (y AND m); folded ctx ty v }))"
      if N: "get_type ctx ty = Some (TyInteger N)" "0 < N" "N \<le> 64" for ty x y N
      by (rule with_mask_ok [OF N(1)]) (simp only: lshr_u64_def mask_amount_lt [OF N(2,3)] if_True bind.bind_lunit fo [OF N])
    note h = this
    show ?thesis unfolding LShr try_fold.simps
      by (rule ints) (rule v, simp add: LShr, rule v, simp add: LShr, rule h)
  next
    case (AShr fl l r)
    have "fold_ok ctx (with_mask ctx ty (\<lambda>m. with_width ctx ty (\<lambda>bits. do { sl \<leftarrow> sign_extend x bits;
            v \<leftarrow> ashr_i64 sl (y AND m); folded ctx ty (trunc_bits v bits) })))"
      if N: "get_type ctx ty = Some (TyInteger N)" "0 < N" "N \<le> 64" for ty x y N
    proof -
      obtain w where "sign_extend x N = Some w" using sx [OF N(2,3)] by blast
      moreover have "unat (y AND of_nat (N - 1)) mod 2 ^ 32 < 64" using mask_amount_lt [OF N(2,3), of y] by simp
      ultimately show ?thesis using fo [OF N]
        by (intro with_mask_ok [OF N(1)] with_width_ok [OF N(1)]) (simp add: ashr_i64_def Let_def)
    qed
    note h = this
    show ?thesis unfolding AShr try_fold.simps
      by (rule ints) (rule v, simp add: AShr, rule v, simp add: AShr, rule h)
  next
    case (ICmp p l r)
    have "fold_ok ctx (with_width ctx ty (\<lambda>bits. do { b \<leftarrow> icmp_eval p x y bits; folded ctx (i1_ty ctx) (of_bool b) }))"
      if N: "get_type ctx ty = Some (TyInteger N)" "0 < N" "N \<le> 64" for ty x y N
    proof -
      obtain b where "icmp_eval p x y N = Some b" using icmp_eval_total [OF N(2,3)] by blast
      then show ?thesis using fo [OF i1_ty_ok [OF c(1)]] by (intro with_width_ok [OF N(1)]) simp
    qed
    note h = this
    show ?thesis unfolding ICmp try_fold.simps
      by (rule ints) (rule v, simp add: ICmp, rule v, simp add: ICmp, rule h)
  next
    case (Select cond a b)
    have va: "value_ok ctx cond" "value_ok ctx a" "value_ok ctx b" by (rule v, simp add: Select)+
    have "fold_ok ctx (case (if P then a else b) of Constant cid \<Rightarrow> Some (Some cid, ctx) | _ \<Rightarrow> no_fold ctx)" for P
      using va(2,3) c(1) by (auto simp: fold_ok_def no_fold_def value_ok_def split: value_ref.splits)
    note h = this
    show ?thesis unfolding Select try_fold.simps
      by (rule get_const_int_ok [OF c(1) va(1)]) (use c(1) h in simp_all)
  qed (auto intro!: ints v fo simp: c(1))
qed

section \<open>Floating-point folding\<close>

lemma get_const_float_ok:
  assumes "ctx_ok ctx" "value_ok ctx v"
  obtains "get_const_float fp ctx v = Some None"
  | ty w td where "get_const_float fp ctx v = Some (Some (ty, w))" "get_type ctx ty = Some td"
proof (cases v)
  case (Constant c)
  with assms have c: "get_const ctx c = Some (constants ctx ! c)" "good_const ctx (constants ctx ! c)"
    by (auto simp: value_ok_def get_const_def ctx_ok_def)
  show ?thesis
  proof (cases "constants ctx ! c")
    case (CFloat ty w)
    with c obtain td where "get_type ctx ty = Some td" by (auto simp: good_const_def)
    moreover from this c CFloat Constant have "get_const_float fp ctx v = Some None \<or>
        (\<exists>x. get_const_float fp ctx v = Some (Some (ty, x)))"
      by (auto simp: get_const_float_def split: type_data.splits float_kind.splits)
    ultimately show ?thesis using that by blast
  qed (use that c Constant in \<open>simp_all add: get_const_float_def\<close>)
qed (use that in \<open>simp_all add: get_const_float_def\<close>)

lemma folded_fp_ok:
  assumes "ctx_ok ctx" "length (constants ctx) < 2 ^ 32" "get_type ctx ty = Some td"
  shows "fold_ok ctx (folded_fp fp ctx ty v)"
  using fold_ok_float [OF assms] assms(3)
  by (simp add: folded_fp_def const_float_val_def Let_def bind_eq_Some_conv split_def)

lemma fp_guarded_ok:
  assumes "ctx_ok ctx" "length (constants ctx) < 2 ^ 32" "get_type ctx ty = Some td"
  shows "fold_ok ctx (fp_guarded fp ctx fl ty v)"
  using assms folded_fp_ok [OF assms] by (simp add: fp_guarded_def)

lemma with_floats_ok:
  assumes "ctx_ok ctx" "value_ok ctx a" "value_ok ctx b"
    and "\<And>ty l r td. get_type ctx ty = Some td \<Longrightarrow> fold_ok ctx (body ty l r)"
  shows "fold_ok ctx (with_floats fp ctx a b body)"
proof (rule get_const_float_ok [OF assms(1,2), of fp])
  assume "get_const_float fp ctx a = Some None"
  then show ?thesis using assms(1) by (simp add: with_floats_def)
next
  fix ty w td assume a: "get_const_float fp ctx a = Some (Some (ty, w))" "get_type ctx ty = Some td"
  show ?thesis
    by (rule get_const_float_ok [OF assms(1,3), of fp]) (use a assms(1,4) in \<open>simp_all add: with_floats_def\<close>)
qed

lemma fmul_by_zero_ok:
  assumes "ctx_ok ctx" "length (constants ctx) < 2 ^ 32" "value_ok ctx a" "value_ok ctx b"
  shows "fold_ok ctx (fmul_by_zero ctx a b) \<and>
     (\<forall>ctx'. fmul_by_zero ctx a b = Some (None, ctx') \<longrightarrow> ctx' = ctx)"
proof -
  obtain z where z: "is_fp_zero_vref ctx a = Some z"
    using assms(3) by (atomize_elim) (auto simp: is_fp_zero_vref_def value_ok_def get_const_def split: value_ref.splits)
  have "\<exists>ot. fp_type_of ctx b = Some ot \<and> (\<forall>ty. ot = Some ty \<longrightarrow> get_type ctx ty \<noteq> None)"
  proof (cases b)
    case (Constant c)
    with assms(1,4) have "get_const ctx c = Some (constants ctx ! c)" "good_const ctx (constants ctx ! c)"
      by (auto simp: value_ok_def get_const_def ctx_ok_def)
    then show ?thesis using Constant
      by (cases "constants ctx ! c") (simp_all add: fp_type_of_def good_const_def)
  qed (simp_all add: fp_type_of_def)
  then obtain ot where ot: "fp_type_of ctx b = Some ot" "\<forall>ty. ot = Some ty \<longrightarrow> get_type ctx ty \<noteq> None" by blast
  show ?thesis
  proof (cases ot)
    case None
    then show ?thesis using z ot assms(1) by (cases z) (simp_all add: fmul_by_zero_def no_fold_def fold_ok_def)
  next
    case (Some ty)
    with ot(2) obtain td where "get_type ctx ty = Some td" by blast
    from fold_ok_float [OF assms(1,2) this, of 0] z ot Some assms(1) show ?thesis
      by (cases z) (auto simp: fmul_by_zero_def no_fold_def fold_ok_def split_def Let_def)
  qed
qed

lemma try_fold_fp_ok:
  assumes c: "ctx_ok ctx" "length (constants ctx) < 2 ^ 32" and k: "operands_ok ctx k"
  shows "fold_ok ctx (try_fold_fp fp ctx k)"
proof -
  note v = operands_value_ok [OF k]
  note floats = with_floats_ok [OF c(1)]
  note g = fp_guarded_ok [OF c]
  show ?thesis
  proof (cases k)
    case (FNeg fl a)
    have "value_ok ctx a" by (rule v) (simp add: FNeg)
    from get_const_float_ok [OF c(1) this, of fp] show ?thesis unfolding FNeg try_fold_fp.simps
      by cases (use c folded_fp_ok [OF c] in simp_all)
  next
    case (FMul fl a b)
    have va: "value_ok ctx a" "value_ok ctx b" by (rule v, simp add: FMul)+
    let ?rest = "with_floats fp ctx a b (\<lambda>ty l r. fp_guarded fp ctx fl ty (f64_mul fp l r))"
    have r: "fold_ok ctx ?rest" by (rule floats [OF va g])
    note z1 = fmul_by_zero_ok [OF c va(2,1)] and z2 = fmul_by_zero_ok [OF c va]
    show ?thesis
    proof (cases "(nnan fl \<and> ninf fl) \<or> fast fl")
      case False
      then show ?thesis unfolding FMul using r by (auto simp: no_fold_def)
    next
      case True
      obtain o1 c1 where m1: "fmul_by_zero ctx b a = Some (o1, c1)" using z1 by (auto simp: fold_ok_def)
      obtain o2 c2 where m2: "fmul_by_zero ctx a b = Some (o2, c2)" using z2 by (auto simp: fold_ok_def)
      show ?thesis unfolding FMul using True m1 m2 z1 z2 r by (cases o1; cases o2; simp)
    qed
  next
    case (FDiv fl a b)
    show ?thesis unfolding FDiv try_fold_fp.simps
      by (rule floats) (rule v, simp add: FDiv, rule v, simp add: FDiv, simp add: c(1) g)
  next
    case (FRem fl a b)
    show ?thesis unfolding FRem try_fold_fp.simps
      by (rule floats) (rule v, simp add: FRem, rule v, simp add: FRem, simp add: c(1) g folded_fp_ok [OF c])
  qed (auto intro!: floats v g simp: c(1))
qed

section \<open>The contract\<close>

type_synonym folder = "ir_context \<Rightarrow> instr_kind \<Rightarrow> fold_result"

locale const_folder =
  fixes folder :: "ir_context \<Rightarrow> instr_kind \<Rightarrow> fold_result"
  assumes folder_ok: "ctx_ok ctx \<Longrightarrow> length (constants ctx) < 2 ^ 32 \<Longrightarrow> operands_ok ctx k \<Longrightarrow> fold_ok ctx (folder ctx k)"
    and folder_phi: "is_phi k \<Longrightarrow> folder ctx k = Some (Some c, ctx') \<Longrightarrow> False"

lemma try_fold_phi: "is_phi k \<Longrightarrow> try_fold ctx k = Some (None, ctx)"
  by (cases k) (simp_all add: is_phi_def no_fold_def)

lemma try_fold_fp_phi: "is_phi k \<Longrightarrow> try_fold_fp fp ctx k = Some (None, ctx)"
  by (cases k) (simp_all add: is_phi_def no_fold_def)

interpretation int_folder: const_folder try_fold
  by unfold_locales (simp_all add: try_fold_ok try_fold_phi)

end
