(* ===== verification/Transform_Const_Prop.thy ===== *)
theory Transform_Const_Prop
  imports Transform_Rpo Pass_Rewrite Analysis_UseDef Transform_Dce Const_Fold_Total "HOL-Library.Multiset"
begin

text \<open>
  Constant propagation (\<open>llvm-transforms/src/const_prop.rs\<close>) and its integer-only sibling
  (\<open>constant_fold_pass.rs\<close>). Both walk the blocks once in the order of \<open>block_rpo\<close>, replace the operands
  whose constants are known so far, fold what can be folded, and delete the folded instructions. The
  substitution is an association list, newest entry first.
\<close>

section \<open>The passes\<close>

type_synonym substitution = "(instr_id \<times> value_ref) list"
type_synonym prop_state = "ir_context \<times> ir_function \<times> substitution"

definition apply_subst :: "substitution \<Rightarrow> ir_function \<Rightarrow> instr_id \<Rightarrow> ir_function rust" where
  "apply_subst subst f iid =
     (if subst = [] then Some f
      else do { ins \<leftarrow> instr f iid; set_instr_kind f iid (subst_kind (map_of subst) (instr_kind ins)) })"

definition prop_instr :: "folder \<Rightarrow> prop_state \<Rightarrow> instr_id \<Rightarrow> prop_state rust" where
  "prop_instr folder st iid =
     (case st of (ctx, f, subst) \<Rightarrow>
        do { f \<leftarrow> apply_subst subst f iid;
             ins \<leftarrow> instr f iid;
             (res, ctx) \<leftarrow> folder ctx (instr_kind ins);
             Some (ctx, f, (case res of Some cid \<Rightarrow> (iid, Constant cid) # subst | None \<Rightarrow> subst)) })"

definition prop_block :: "folder \<Rightarrow> prop_state \<Rightarrow> nat \<Rightarrow> prop_state rust" where
  "prop_block folder st bi =
     (case st of (ctx, f, subst) \<Rightarrow>
        do { bb \<leftarrow> vec_get (blocks f) bi;
             (ctx, f, subst) \<leftarrow> try_foldl (prop_instr folder) st (bb_body bb);
             case bb_terminator bb of
               None \<Rightarrow> Some (ctx, f, subst)
             | Some tid \<Rightarrow> do { f \<leftarrow> apply_subst subst f tid; Some (ctx, f, subst) } })"

definition prop_function :: "folder \<Rightarrow> ir_context \<Rightarrow> ir_function \<Rightarrow> (ir_context \<times> ir_function \<times> bool) rust" where
  "prop_function folder ctx f =
     (if blocks f = [] then Some (ctx, f, False)
      else do { order \<leftarrow> block_rpo f;
                (ctx, f, subst) \<leftarrow> try_foldl (prop_block folder) (ctx, f, []) order;
                if subst = [] then Some (ctx, f, False)
                else Some (ctx, retain_instrs (\<lambda>i. i \<notin> fst ` set subst) f, True) })"

definition fold_result_is_nan_or_inf :: "ir_context \<Rightarrow> const_id \<Rightarrow> bool rust" where
  "fold_result_is_nan_or_inf ctx cid =
     do { d \<leftarrow> get_const ctx cid;
          case d of
            CFloat ty bits \<Rightarrow>
              do { td \<leftarrow> get_type ctx ty;
                   Some (case td of
                           TyFloat Single \<Rightarrow> f32_is_nan (ucast bits) \<or> f32_is_infinite (ucast bits)
                         | TyFloat Double \<Rightarrow> f64_is_nan bits \<or> f64_is_infinite bits
                         | _ \<Rightarrow> False) }
          | _ \<Rightarrow> Some False }"

definition const_prop_fold :: "f64_ops \<Rightarrow> bool \<Rightarrow> folder" where
  \<comment> \<open>integers first, then floating point, which \<open>strictfp\<close> restricts to finite results\<close>
  "const_prop_fold fp strict ctx k =
     do { (res, ctx) \<leftarrow> try_fold ctx k;
          case res of
            Some cid \<Rightarrow> Some (Some cid, ctx)
          | None \<Rightarrow>
              do { (res, ctx) \<leftarrow> try_fold_fp fp ctx k;
                   case res of
                     None \<Rightarrow> Some (None, ctx)
                   | Some cid \<Rightarrow>
                       if strict
                       then do { bad \<leftarrow> fold_result_is_nan_or_inf ctx cid;
                                 Some (if bad then None else Some cid, ctx) }
                       else Some (Some cid, ctx) } }"

definition const_prop :: "f64_ops \<Rightarrow> ir_context \<Rightarrow> ir_function \<Rightarrow> (ir_context \<times> ir_function \<times> bool) rust" where
  "const_prop fp ctx f = prop_function (const_prop_fold fp (strictfp f)) ctx f"

definition constant_fold :: "ir_context \<Rightarrow> ir_function \<Rightarrow> (ir_context \<times> ir_function \<times> bool) rust" where
  "constant_fold ctx f = prop_function try_fold ctx f"

section \<open>What the walk does\<close>

text \<open>The instructions in the order they are visited, marked when they are in a body.\<close>

definition block_visits :: "basic_block \<Rightarrow> (instr_id \<times> bool) list" where
  "block_visits bb =
     map (\<lambda>i. (i, True)) (bb_body bb) @ (case bb_terminator bb of None \<Rightarrow> [] | Some i \<Rightarrow> [(i, False)])"

definition visits :: "ir_function \<Rightarrow> nat list \<Rightarrow> (instr_id \<times> bool) list" where
  "visits f order = concat (map (\<lambda>b. block_visits (blocks f ! b)) order)"

definition prop_visit :: "folder \<Rightarrow> prop_state \<Rightarrow> instr_id \<times> bool \<Rightarrow> prop_state rust" where
  "prop_visit folder st v =
     (if snd v then prop_instr folder st (fst v)
      else (case st of (ctx, f, subst) \<Rightarrow> map_option (\<lambda>f. (ctx, f, subst)) (apply_subst subst f (fst v))))"

lemma apply_subst_Some:
  assumes "apply_subst subst f i = Some f'" "i < length (instructions f)"
  shows "f' = f\<lparr>instructions := (instructions f)[i := (instructions f ! i)\<lparr>instr_kind := subst_kind (map_of subst) (kind_of f i)\<rparr>]\<rparr>"
proof (cases "subst = []")
  case True
  have "(instructions f)[i := (instructions f ! i)\<lparr>instr_kind := kind_of f i\<rparr>] = instructions f"
    using assms(2) by (intro nth_equalityI) (auto simp: nth_list_update kind_of_def)
  with assms True show ?thesis by (simp add: apply_subst_def)
next
  case False
  with assms show ?thesis by (auto simp: apply_subst_def instr_def set_instr_kind_def kind_of_def)
qed

lemma apply_subst_blocks: "apply_subst subst f i = Some f' \<Longrightarrow> blocks f' = blocks f"
  by (auto simp: apply_subst_def set_instr_kind_def split: if_splits bind_splits)

lemma prop_instr_blocks: "prop_instr folder (ctx, f, s) i = Some (ctx', f', s') \<Longrightarrow> blocks f' = blocks f"
  by (auto simp: prop_instr_def dest: apply_subst_blocks split: bind_splits)

lemma prop_block_visits:
  assumes "b < length (blocks f)"
  shows "prop_block folder (ctx, f, s) b =
     try_foldl (prop_visit folder) (ctx, f, s) (block_visits (blocks f ! b))"
proof -
  have "try_foldl (prop_visit folder) st (map (\<lambda>i. (i, True)) is) = try_foldl (prop_instr folder) st is" for st "is"
    by (induction "is" arbitrary: st) (auto simp: prop_visit_def split: option.splits)
  with assms show ?thesis
    by (auto simp: prop_block_def block_visits_def try_foldl_append prop_visit_def
        split: option.splits bind_splits prod.splits)
qed

lemma prop_visit_blocks: "prop_visit folder (ctx, f, s) v = Some (ctx', f', s') \<Longrightarrow> blocks f' = blocks f"
  by (auto simp: prop_visit_def dest: prop_instr_blocks apply_subst_blocks split: if_splits)

lemma prop_blocks_visits:
  assumes "\<forall>b\<in>set order. b < length (blocks f)"
  shows "try_foldl (prop_block folder) (ctx, f, s) order = try_foldl (prop_visit folder) (ctx, f, s) (visits f order)"
  using assms
proof (induction order arbitrary: ctx f s)
  case (Cons b order)
  let ?v = "block_visits (blocks f ! b)"
  have v: "visits f (b # order) = ?v @ visits f order" by (simp add: visits_def)
  show ?case
  proof (cases "try_foldl (prop_visit folder) (ctx, f, s) ?v")
    case None
    with Cons.prems show ?thesis unfolding v try_foldl_append by (simp add: prop_block_visits)
  next
    case (Some st)
    obtain ctx' f' s' where st: "st = (ctx', f', s')" by (cases st)
    have "blocks f' = blocks f"
      using try_foldl_inv [OF Some, of "\<lambda>st. blocks (fst (snd st)) = blocks f"] prop_visit_blocks st
      by (metis fst_conv snd_conv prod_cases3)
    with Cons Some st show ?thesis unfolding v try_foldl_append by (simp add: prop_block_visits visits_def)
  qed
qed (simp add: visits_def)

text \<open>The invariant of the walk. \<open>known s A\<close> is the part of the substitution about the instructions of \<open>A\<close>;
  at the time an instruction is visited it is the part about those visited before. Every entry comes from
  a fold whose constants the context still holds.\<close>

definition known :: "substitution \<Rightarrow> instr_id set \<Rightarrow> substitution" where
  "known s A = filter (\<lambda>e. fst e \<in> A) s"

definition folds_some :: "folder \<Rightarrow> ir_context \<Rightarrow> instr_kind \<Rightarrow> value_ref \<Rightarrow> bool" where
  "folds_some folder ctx k v \<longleftrightarrow>
     (\<exists>c ctx1 ctx2. v = Constant c \<and> folder ctx1 k = Some (Some c, ctx2) \<and> extends ctx2 ctx \<and>
        extends ctx1 ctx2 \<and> ctx_ok ctx1 \<and> length (constants ctx1) < 2 ^ 32)"

definition prop_inv ::
  "folder \<Rightarrow> ir_function \<Rightarrow> (instr_id \<times> bool) list \<Rightarrow> prop_state \<Rightarrow> bool" where
  "prop_inv folder f vs st \<longleftrightarrow>
     (case st of (ctx, f', s) \<Rightarrow>
     (\<exists>ins. f' = f\<lparr>instructions := ins\<rparr> \<and> length ins = length (instructions f)) \<and>
     (\<forall>i. i \<notin> fst ` set vs \<longrightarrow> kind_of f' i = kind_of f i) \<and>
     (\<forall>p<length vs. kind_of f' (fst (vs ! p)) =
        subst_kind (map_of (known s (fst ` set (take p vs)))) (kind_of f (fst (vs ! p)))) \<and>
     (\<forall>i v. (i, v) \<in> set s \<longrightarrow> (i, True) \<in> set vs \<and> folds_some folder ctx (kind_of f' i) v) \<and>
     ctx_ok ctx \<and> (\<forall>i c. (i, Constant c) \<in> set s \<longrightarrow> c < length (constants ctx)))"

lemma prop_invD:
  assumes "prop_inv folder f vs (ctx, f', s)"
  shows "\<exists>ins. f' = f\<lparr>instructions := ins\<rparr> \<and> length ins = length (instructions f)"
    and "\<And>i. i \<notin> fst ` set vs \<Longrightarrow> kind_of f' i = kind_of f i"
    and "\<And>p. p < length vs \<Longrightarrow> kind_of f' (fst (vs ! p)) =
        subst_kind (map_of (known s (fst ` set (take p vs)))) (kind_of f (fst (vs ! p)))"
    and "\<And>i v. (i, v) \<in> set s \<Longrightarrow> (i, True) \<in> set vs \<and> folds_some folder ctx (kind_of f' i) v"
    and "ctx_ok ctx" "\<And>i c. (i, Constant c) \<in> set s \<Longrightarrow> c < length (constants ctx)"
  using assms unfolding prop_inv_def prod.case by blast+

lemma prop_invI:
  assumes "\<exists>ins. f' = f\<lparr>instructions := ins\<rparr> \<and> length ins = length (instructions f)"
    and "\<And>i. i \<notin> fst ` set vs \<Longrightarrow> kind_of f' i = kind_of f i"
    and "\<And>p. p < length vs \<Longrightarrow> kind_of f' (fst (vs ! p)) =
        subst_kind (map_of (known s (fst ` set (take p vs)))) (kind_of f (fst (vs ! p)))"
    and "\<And>i v. (i, v) \<in> set s \<Longrightarrow> (i, True) \<in> set vs \<and> folds_some folder ctx (kind_of f' i) v"
    and "ctx_ok ctx" "\<And>i c. (i, Constant c) \<in> set s \<Longrightarrow> c < length (constants ctx)"
  shows "prop_inv folder f vs (ctx, f', s)"
  using assms unfolding prop_inv_def prod.case by blast

lemma prop_inv_dom: "prop_inv folder f vs (ctx, f1, s) \<Longrightarrow> fst ` set s \<subseteq> fst ` set vs"
proof
  fix i assume inv: "prop_inv folder f vs (ctx, f1, s)" and "i \<in> fst ` set s"
  then obtain v where "(i, v) \<in> set s" by auto
  then have "(i, True) \<in> set vs" using prop_invD(4) [OF inv] by blast
  then show "i \<in> fst ` set vs" by force
qed

lemma known_all: "fst ` set s \<subseteq> A \<Longrightarrow> known s A = s"
  by (auto simp: known_def filter_id_conv)

lemma known_Cons: "i \<notin> A \<Longrightarrow> known ((i, v) # s) A = known s A"
  by (simp add: known_def)

lemma kind_of_update:
  "i < length (instructions f) \<Longrightarrow>
     kind_of (f\<lparr>instructions := (instructions f)[i := x\<lparr>instr_kind := k\<rparr>]\<rparr>) j = (if j = i then k else kind_of f j)"
  by (simp add: kind_of_def)

lemma apply_subst_returns:
  "i < length (instructions f) \<Longrightarrow> \<exists>f'. apply_subst subst f i = Some f'"
  by (simp add: apply_subst_def instr_def set_instr_kind_def)

lemma prop_inv_subst:
  assumes inv: "prop_inv folder f vs (ctx, f1, s)" and new: "i \<notin> fst ` set vs" and i: "i < length (instructions f)"
    and a: "apply_subst s f1 i = Some f2"
  shows "prop_inv folder f (vs @ [(i, b)]) (ctx, f2, s) \<and> kind_of f2 i = subst_kind (map_of s) (kind_of f i)"
proof -
  note A = prop_invD [OF inv]
  from A(1) obtain ins where f1: "f1 = f\<lparr>instructions := ins\<rparr>" "length ins = length (instructions f)" by blast
  note dom = prop_inv_dom [OF inv]
  from apply_subst_Some [OF a] i f1 have f2:
    "f2 = f1\<lparr>instructions := (instructions f1)[i := (instructions f1 ! i)\<lparr>instr_kind := subst_kind (map_of s) (kind_of f1 i)\<rparr>]\<rparr>"
    by simp
  then have k2: "kind_of f2 j = (if j = i then subst_kind (map_of s) (kind_of f i) else kind_of f1 j)" for j
    using kind_of_update [of i f1] i f1 A(2) [OF new] by simp
  have "prop_inv folder f (vs @ [(i, b)]) (ctx, f2, s)"
  proof (rule prop_invI)
    show "\<exists>ins. f2 = f\<lparr>instructions := ins\<rparr> \<and> length ins = length (instructions f)"
      using f1 f2 by (intro exI [of _ "instructions f2"]) simp
    show "kind_of f2 j = kind_of f j" if "j \<notin> fst ` set (vs @ [(i, b)])" for j
      using that A(2) k2 by simp
    show "kind_of f2 (fst ((vs @ [(i, b)]) ! p)) =
        subst_kind (map_of (known s (fst ` set (take p (vs @ [(i, b)]))))) (kind_of f (fst ((vs @ [(i, b)]) ! p)))"
      if p: "p < length (vs @ [(i, b)])" for p
    proof (cases "p = length vs")
      case True
      then show ?thesis by (simp add: k2 known_all [OF dom])
    next
      case False
      with p have "p < length vs" by simp
      moreover from this have "fst (vs ! p) \<noteq> i" using new nth_mem by blast
      ultimately show ?thesis using A(3) by (simp add: nth_append k2)
    qed
    show "(j, True) \<in> set (vs @ [(i, b)]) \<and> folds_some folder ctx (kind_of f2 j) v" if "(j, v) \<in> set s" for j v
    proof -
      have "(j, True) \<in> set vs" "folds_some folder ctx (kind_of f1 j) v" using A(4) [OF that] by auto
      moreover from this have "j \<noteq> i" using new by force
      ultimately show ?thesis by (simp add: k2)
    qed
  qed (use A(5,6) in blast)+
  then show ?thesis by (simp add: k2)
qed

lemma prop_inv_context:
  assumes inv: "prop_inv folder f vs (ctx, f2, s)" and "ctx_ok ctx'" "extends ctx ctx'"
  shows "prop_inv folder f vs (ctx', f2, s)"
proof (rule prop_invI)
  note A = prop_invD [OF inv]
  show "(j, True) \<in> set vs \<and> folds_some folder ctx' (kind_of f2 j) v" if "(j, v) \<in> set s" for j v
    using A(4) [OF that] extends_trans [OF _ assms(3)] unfolding folds_some_def by blast
  show "c < length (constants ctx')" if "(i, Constant c) \<in> set s" for i c
    using A(6) [OF that] extends_length [OF assms(3)] by simp
qed (use prop_invD [OF inv] assms(2) in blast)+

lemma prop_inv_add:
  assumes inv: "prop_inv folder f (vs @ [(i, True)]) (ctx, f2, s)" and new: "i \<notin> fst ` set vs"
    and f: "folds_some folder ctx (kind_of f2 i) (Constant c)" "c < length (constants ctx)"
  shows "prop_inv folder f (vs @ [(i, True)]) (ctx, f2, (i, Constant c) # s)"
proof (rule prop_invI)
  note A = prop_invD [OF inv]
  show "kind_of f2 (fst ((vs @ [(i, True)]) ! p)) =
      subst_kind (map_of (known ((i, Constant c) # s) (fst ` set (take p (vs @ [(i, True)])))))
        (kind_of f (fst ((vs @ [(i, True)]) ! p)))" if p: "p < length (vs @ [(i, True)])" for p
  proof -
    have "i \<notin> fst ` set (take p (vs @ [(i, True)]))" using new p by (auto dest: in_set_takeD)
    then show ?thesis using A(3) [OF p] by (simp add: known_Cons)
  qed
  show "(j, True) \<in> set (vs @ [(i, True)]) \<and> folds_some folder ctx (kind_of f2 j) v"
    if "(j, v) \<in> set ((i, Constant c) # s)" for j v
    using that A(4) f(1) by auto
  show "d < length (constants ctx)" if "(j, Constant d) \<in> set ((i, Constant c) # s)" for j d
    using that A(6) f(2) by auto
qed (use prop_invD [OF inv] in blast)+

section \<open>The walk returns\<close>

definition prop_ready :: "ir_function \<Rightarrow> nat \<Rightarrow> ir_context \<Rightarrow> bool" where
  "prop_ready f n ctx \<longleftrightarrow>
     length (constants ctx) + n \<le> 2 ^ 32 \<and> (\<forall>i<length (instructions f). operands_ok ctx (kind_of f i))"

lemma operands_ok_subst:
  assumes "operands_ok ctx k" "\<And>i v. (i, v) \<in> set s \<Longrightarrow> value_ok ctx v"
  shows "operands_ok ctx (subst_kind (map_of s) k)"
  unfolding operands_ok_def
proof (intro allI impI)
  fix c assume "Constant c \<in> set (operands (subst_kind (map_of s) k))"
  then obtain v where v: "v \<in> set (operands k)" "subst_value (map_of s) v = Constant c"
    by (auto simp: subst_kind_eq_rewrite)
  show "c < length (constants ctx)"
  proof (cases v)
    case (Instruction j)
    with v(2) have "map_of s j = Some (Constant c)" by (auto simp: map_default_def split: option.splits)
    then show ?thesis using assms(2) map_of_SomeD by (fastforce simp: value_ok_def)
  next
    case (Constant d)
    with v assms(1) show ?thesis by (auto simp: operands_ok_def)
  qed (use v in simp_all)
qed

context const_folder
begin

lemma visit_ok:
  assumes inv: "prop_inv folder f vs (ctx, f1, s)" and new: "i \<notin> fst ` set vs" and i: "i < length (instructions f)"
    and r: "prop_ready f (Suc n) ctx"
  shows "\<exists>ctx' f' s'. prop_visit folder (ctx, f1, s) (i, b) = Some (ctx', f', s') \<and>
     prop_inv folder f (vs @ [(i, b)]) (ctx', f', s') \<and> prop_ready f n ctx' \<and> extends ctx ctx'"
proof -
  note A = prop_invD [OF inv]
  have "i < length (instructions f1)" using A(1) i by auto
  then obtain f2 where a: "apply_subst s f1 i = Some f2" using apply_subst_returns by blast
  have inv2: "prop_inv folder f (vs @ [(i, b)]) (ctx, f2, s)"
    and k2: "kind_of f2 i = subst_kind (map_of s) (kind_of f i)"
    using prop_inv_subst [OF inv new i a] by auto
  show ?thesis
  proof (cases b)
    case False
    then show ?thesis using a inv2 r by (auto simp: prop_visit_def prop_ready_def)
  next
    case True
    have "value_ok ctx v" if "(j, v) \<in> set s" for j v
      using A(4) [OF that] A(6) that by (auto simp: value_ok_def)
    then have ok: "operands_ok ctx (kind_of f2 i)"
      using r i unfolding k2 prop_ready_def by (intro operands_ok_subst) auto
    have len: "length (constants ctx) < 2 ^ 32" using r by (simp add: prop_ready_def)
    from folder_ok [OF A(5) len ok] obtain res ctx' where fo: "folder ctx (kind_of f2 i) = Some (res, ctx')"
      "ctx_ok ctx'" "extends ctx ctx'" "length (constants ctx') \<le> Suc (length (constants ctx))"
      "\<forall>c. res = Some c \<longrightarrow> c < length (constants ctx')" by (auto simp: fold_ok_def)
    have ins: "instr f2 i = Some (instructions f2 ! i)"
      using prop_invD(1) [OF inv2] i by (auto simp: instr_def)
    note inv3 = prop_inv_context [OF inv2 fo(2,3)]
    have bt: "b = True" using True by simp
    have "prop_inv folder f (vs @ [(i, b)])
        (ctx', f2, case res of Some cid \<Rightarrow> (i, Constant cid) # s | None \<Rightarrow> s)"
    proof (cases res)
      case (Some c)
      have "folds_some folder ctx' (kind_of f2 i) (Constant c)"
        using fo(1,3) Some A(5) len unfolding folds_some_def by (blast intro: extends_refl)
      from prop_inv_add [OF inv3 [unfolded bt] new this] fo(5) Some bt show ?thesis by simp
    qed (use inv3 in simp)
    moreover have "prop_ready f n ctx'"
      using r fo(3,4) operands_ok_extends by (auto simp: prop_ready_def)
    moreover have "prop_visit folder (ctx, f1, s) (i, b) =
        Some (ctx', f2, case res of Some cid \<Rightarrow> (i, Constant cid) # s | None \<Rightarrow> s)"
      using True a ins fo(1) by (simp add: prop_visit_def prop_instr_def kind_of_def)
    ultimately show ?thesis using fo(3) by blast
  qed
qed

lemma walk_ok:
  assumes "prop_inv folder f vs (ctx, f1, s)" "distinct (map fst (vs @ ws))"
    and "\<forall>i\<in>fst ` set ws. i < length (instructions f)" "prop_ready f (length ws) ctx"
  shows "\<exists>ctx' f' s'. try_foldl (prop_visit folder) (ctx, f1, s) ws = Some (ctx', f', s') \<and>
     prop_inv folder f (vs @ ws) (ctx', f', s') \<and> extends ctx ctx'"
  using assms
proof (induction ws arbitrary: vs ctx f1 s)
  case (Cons w ws)
  obtain i b where w: "w = (i, b)" by (cases w)
  have new: "i \<notin> fst ` set vs" and i: "i < length (instructions f)" and r: "prop_ready f (Suc (length ws)) ctx"
    using Cons.prems(2,3,4) w by auto
  from visit_ok [OF Cons.prems(1) new i r, of b] obtain ctx2 f2 s2
    where v: "prop_visit folder (ctx, f1, s) w = Some (ctx2, f2, s2)"
      "prop_inv folder f (vs @ [w]) (ctx2, f2, s2)" "prop_ready f (length ws) ctx2" "extends ctx ctx2"
    using w by blast
  from Cons.IH [OF v(2) _ _ v(3)] Cons.prems(2,3) v(1) extends_trans [OF v(4)] show ?case by auto
qed simp

end

section \<open>Visiting every block once\<close>

definition placed_once :: "ir_function \<Rightarrow> bool" where
  "placed_once f \<longleftrightarrow> distinct (concat (map bb_instrs (blocks f)))"

lemma block_visits_instrs: "map fst (block_visits bb) = bb_instrs bb"
  by (simp add: block_visits_def bb_instrs_def comp_def split: option.split)

lemma visits_instrs: "map fst (visits f order) = concat (map (\<lambda>b. bb_instrs (blocks f ! b)) order)"
  by (induction order) (simp_all add: visits_def block_visits_instrs)

lemma visits_perm:
  assumes "distinct order" "set order = {..<length (blocks f)}"
  shows "mset (map fst (visits f order)) = mset (concat (map bb_instrs (blocks f)))"
proof -
  have "mset order = mset_set (set order)" using assms(1) by (simp add: mset_set_set)
  also have "\<dots> = mset [0..<length (blocks f)]" using assms(2) by (simp add: atLeast0LessThan)
  finally have o: "mset order = mset [0..<length (blocks f)]" .
  have F: "mset (concat (map g xs)) = sum_mset (image_mset (\<lambda>x. mset (g x)) (mset xs))" for g :: "nat \<Rightarrow> nat list" and xs
    by (induction xs) simp_all
  have "map (\<lambda>b. bb_instrs (blocks f ! b)) [0..<length (blocks f)] = map bb_instrs (blocks f)"
    by (rule nth_equalityI) auto
  then show ?thesis
    using F [of "\<lambda>b. bb_instrs (blocks f ! b)" order] F [of "\<lambda>b. bb_instrs (blocks f ! b)" "[0..<length (blocks f)]"]
    unfolding visits_instrs o by simp
qed

lemma visits_body:
  assumes "set order = {..<length (blocks f)}"
  shows "(i, True) \<in> set (visits f order) \<longleftrightarrow> in_body f i"
  using assms
  by (force simp: visits_def block_visits_def in_body_def in_set_conv_nth [of _ "blocks f"] split: option.splits)

lemma set_visits:
  assumes "set order = {..<length (blocks f)}"
  shows "fst ` set (visits f order) = (\<Union>bb\<in>set (blocks f). set (bb_instrs bb))"
proof -
  have "fst ` set (visits f order) = set (map fst (visits f order))" by simp
  also have "\<dots> = (\<Union>b\<in>{..<length (blocks f)}. set (bb_instrs (blocks f ! b)))"
    unfolding visits_instrs using assms by simp
  also have "\<dots> = (\<Union>bb\<in>set (blocks f). set (bb_instrs bb))"
    by (auto simp: set_conv_nth [of "blocks f"])
  finally show ?thesis .
qed

section \<open>Meaning\<close>

definition operands_match :: "('v, 'm) ir_sem \<Rightarrow> instr_kind \<Rightarrow> 'v list \<Rightarrow> bool" where
  "operands_match S k vs \<longleftrightarrow>
     list_all2 (\<lambda>v x. case v of Instruction _ \<Rightarrow> True | _ \<Rightarrow> x = sem_const S v) (operands k) vs"

definition fold_agrees :: "('v, 'm) ir_sem \<Rightarrow> folder \<Rightarrow> ir_context \<Rightarrow> instr_kind \<Rightarrow> bool" where
  \<comment> \<open>where the folder folds \<open>k\<close> to a constant of the context \<open>ctx\<close>, the instruction computes that constant\<close>
  "fold_agrees S folder ctx k \<longleftrightarrow>
     (\<forall>v vs m r m' n. folds_some folder ctx k v \<longrightarrow> operands_match S k vs \<longrightarrow>
        sem_exec S (shape k) vs m = Some (r, m', n) \<longrightarrow> r = Some (sem_const S v) \<and> m' = m)"

definition folds_agree :: "('v, 'm) ir_sem \<Rightarrow> folder \<Rightarrow> ir_context \<Rightarrow> ir_function \<Rightarrow> ir_function \<Rightarrow> bool" where
  \<comment> \<open>of the instructions that \<open>f'\<close> has lost\<close>
  "folds_agree S folder ctx f f' \<longleftrightarrow>
     (\<forall>i. in_body f i \<longrightarrow> \<not> in_body f' i \<longrightarrow> fold_agrees S folder ctx (kind_of f' i))"

definition no_dangling :: "ir_function \<Rightarrow> ir_function \<Rightarrow> bool" where
  \<comment> \<open>no instruction of a block of \<open>f'\<close> uses an instruction that \<open>f'\<close> has lost\<close>
  "no_dangling f f' \<longleftrightarrow>
     (\<forall>bb\<in>set (blocks f'). \<forall>j\<in>set (bb_instrs bb). \<forall>i. Instruction i \<in> set (operands (kind_of f' j)) \<longrightarrow>
        in_body f i \<longrightarrow> in_body f' i)"

definition defs_visited_first :: "ir_function \<Rightarrow> bool" where
  \<comment> \<open>the walk comes to every instruction before it comes to those that use it, so that no phi of a loop
    header takes a value of the loop\<close>
  "defs_visited_first f \<longleftrightarrow>
     (case block_rpo f of
        None \<Rightarrow> False
      | Some order \<Rightarrow>
          (\<forall>p < length (visits f order). \<forall>i. Instruction i \<in> set (operands (kind_of f (fst (visits f order ! p)))) \<longrightarrow>
             in_body f i \<longrightarrow> i \<in> fst ` set (take p (visits f order))))"

definition subst_rel ::
  "('v, 'm) ir_sem \<Rightarrow> substitution \<Rightarrow> 'v env \<Rightarrow> 'v env \<Rightarrow> bool" where
  \<comment> \<open>a folded instruction has no value yet, or the value of its constant\<close>
  "subst_rel S s env env' \<longleftrightarrow>
     (\<forall>i. (map_of s i = None \<longrightarrow> env' i = env i) \<and>
        (\<forall>v. map_of s i = Some v \<longrightarrow> env i = None \<or> env i = Some (sem_const S v)))"

lemma map_of_known: "map_of (known s A) j = (if j \<in> A then map_of s j else None)"
  by (induction s) (auto simp: known_def)

lemma try_map_list_all2: "try_map p xs = Some ys \<Longrightarrow> list_all2 (\<lambda>x y. p x = Some y) xs ys"
  by (induction xs arbitrary: ys) (auto split: option.splits)

lemma exec_instrE:
  assumes "exec_instr S f i (env, m) = Some (env1, m1, n)"
  obtains vs r where "i < length (instructions f)" "\<not> is_phi (kind_of f i)"
    "try_map (eval_value S env) (operands (kind_of f i)) = Some vs"
    "sem_exec S (shape (kind_of f i)) vs m = Some (r, m1, n)" "env1 = env(i := r)"
  using assms
  by (auto simp: exec_instr_def kind_of_def instr_def rust_simps split: bind_splits if_splits)

text \<open>The outcome of a whole walk, and the function without the folded instructions.\<close>

definition walked :: "folder \<Rightarrow> ir_function \<Rightarrow> nat list \<Rightarrow> prop_state \<Rightarrow> bool" where
  "walked folder f order st \<longleftrightarrow>
     prop_inv folder f (visits f order) st \<and> distinct (map fst (visits f order)) \<and>
     set order = {..<length (blocks f)}"

definition folded_away :: "ir_function \<Rightarrow> substitution \<Rightarrow> ir_function" where
  "folded_away f1 s = retain_instrs (\<lambda>i. i \<notin> fst ` set s) f1"

lemma walked_kind:
  assumes "walked folder f order (ctx, f1, s)" "bb \<in> set (blocks f)" "i \<in> set (bb_instrs bb)"
  obtains A where "kind_of f1 i = subst_kind (map_of (known s A)) (kind_of f i)"
proof -
  have "i \<in> fst ` set (visits f order)"
    using assms set_visits [of order f] by (auto simp: walked_def)
  then obtain p where "p < length (visits f order)" "fst (visits f order ! p) = i"
    by (metis (no_types, lifting) imageE in_set_conv_nth)
  then show ?thesis using that prop_invD(3) [of folder f "visits f order" ctx f1 s p] assms(1)
    by (auto simp: walked_def)
qed

lemma walked_body:
  assumes "walked folder f order (ctx, f1, s)" "(i, v) \<in> set s"
  shows "in_body f i" "folds_some folder ctx (kind_of f1 i) v"
proof -
  have "prop_inv folder f (visits f order) (ctx, f1, s)" "set order = {..<length (blocks f)}"
    using assms(1) by (simp_all add: walked_def)
  note A = prop_invD(4) [OF this(1) assms(2)] and B = visits_body [OF this(2), of i]
  show "in_body f i" using A B by blast
  show "folds_some folder ctx (kind_of f1 i) v" using A by blast
qed

lemma walked_shape:
  assumes "walked folder f order (ctx, f1, s)"
  shows "blocks f1 = blocks f" "length (instructions f1) = length (instructions f)"
proof -
  have "prop_inv folder f (visits f order) (ctx, f1, s)" using assms by (simp add: walked_def)
  from prop_invD(1) [OF this] show "blocks f1 = blocks f" "length (instructions f1) = length (instructions f)"
    by (elim exE conjE, simp)+
qed

lemma folded_away_body:
  assumes "walked folder f order (ctx, f1, s)"
  shows "in_body (folded_away f1 s) i \<longleftrightarrow> in_body f i \<and> i \<notin> fst ` set s"
  using walked_shape(1) [OF assms] by (auto simp: in_body_def folded_away_def retain_instrs_def)

lemma folded_away_kind [simp]: "kind_of (folded_away f1 s) i = kind_of f1 i"
  by (simp add: kind_of_def folded_away_def retain_instrs_def)

lemma walked_no_dangling:
  assumes w: "walked folder f order (ctx, f1, s)" and o: "block_rpo f = Some order" "defs_visited_first f"
    and con: "\<forall>(i, v) \<in> set s. \<exists>c. v = Constant c"
  shows "no_dangling f (folded_away f1 s)"
  unfolding no_dangling_def
proof (intro ballI allI impI)
  fix bb j i assume bb: "bb \<in> set (blocks (folded_away f1 s))" "j \<in> set (bb_instrs bb)"
    and u: "Instruction i \<in> set (operands (kind_of (folded_away f1 s) j))" and i: "in_body f i"
  let ?vs = "visits f order"
  have inv: "prop_inv folder f ?vs (ctx, f1, s)" "set order = {..<length (blocks f)}" using w by (simp_all add: walked_def)
  obtain bb0 where "bb0 \<in> set (blocks f)" "j \<in> set (bb_instrs bb0)"
    using bb walked_shape(1) [OF w] by (auto simp: folded_away_def retain_instrs_def bb_instrs_def)
  then have "j \<in> fst ` set ?vs" using set_visits [OF inv(2)] by blast
  then obtain p where p: "p < length ?vs" "fst (?vs ! p) = j" by (metis (no_types, lifting) imageE in_set_conv_nth)
  let ?s = "known s (fst ` set (take p ?vs))"
  have "kind_of f1 j = subst_kind (map_of ?s) (kind_of f j)" using prop_invD(3) [OF inv(1) p(1)] p(2) by simp
  then obtain v where v: "v \<in> set (operands (kind_of f j))" "subst_value (map_of ?s) v = Instruction i"
    using u by (auto simp: subst_kind_eq_rewrite operands_rewrite)
  have known: "\<exists>c. v = Constant c" if "map_of ?s k = Some v" for k v
    using map_of_SomeD [OF that] con by (auto simp: known_def)
  have "v = Instruction i \<and> map_of ?s i = None"
  proof (cases v)
    case (Instruction k)
    then show ?thesis using v(2) known [of k] by (cases "map_of ?s k") (auto simp: map_default_def)
  qed (use v(2) in \<open>simp_all\<close>)
  moreover from this have "i \<in> fst ` set (take p ?vs)" using v(1) o i p by (auto simp: defs_visited_first_def)
  ultimately have "map_of s i = None" by (simp add: map_of_known)
  then have "i \<notin> fst ` set s" by (simp add: map_of_eq_None_iff)
  then show "in_body (folded_away f1 s) i" using i folded_away_body [OF w] by simp
qed

lemma prop_rewritten:
  assumes w: "walked folder f order (ctx, f1, s)" and d: "no_dangling f (folded_away f1 s)"
  shows "rewritten f (folded_away f1 s) (fst ` set s) (subst_value (map_of s))"
  unfolding rewritten_def
proof (intro conjI allI impI)
  note B = walked_shape [OF w]
  show "blocks (folded_away f1 s) = map (\<lambda>bb. bb\<lparr>bb_body := filter (\<lambda>i. i \<notin> fst ` set s) (bb_body bb)\<rparr>) (blocks f)"
    using B by (simp add: folded_away_def retain_instrs_def)
  fix i ins assume k: "kept f (fst ` set s) i" and i: "instr f i = Some ins"
  from k obtain bb where bb: "bb \<in> set (blocks f)" "i \<in> set (bb_instrs bb)"
    "i \<in> set (bb_instrs (bb\<lparr>bb_body := filter (\<lambda>i. i \<notin> fst ` set s) (bb_body bb)\<rparr>))"
    by (auto simp: kept_def bb_instrs_def)
  from walked_kind [OF w bb(1,2)] obtain A where A: "kind_of f1 i = subst_kind (map_of (known s A)) (kind_of f i)" .
  have "subst_value (map_of (known s A)) v = subst_value (map_of s) v" if v: "v \<in> set (operands (kind_of f i))" for v
  proof (cases v)
    case (Instruction j)
    show ?thesis
    proof (cases "j \<in> A \<or> map_of s j = None")
      case True
      then show ?thesis using Instruction by (auto simp: map_of_known map_default_def)
    next
      case False
      then obtain c where c: "map_of s j = Some c" "(j, c) \<in> set s" using map_of_SomeD by fastforce
      have "subst_value (map_of (known s A)) (Instruction j) = Instruction j"
        using False by (simp add: map_of_known map_default_def)
      then have "Instruction j \<in> set (operands (kind_of f1 i))"
        using v Instruction unfolding A by (force simp: subst_kind_eq_rewrite image_iff)
      moreover have "bb\<lparr>bb_body := filter (\<lambda>i. i \<notin> fst ` set s) (bb_body bb)\<rparr> \<in> set (blocks (folded_away f1 s))"
        using bb(1) B by (auto simp: folded_away_def retain_instrs_def)
      ultimately have "in_body (folded_away f1 s) j"
        using d bb(3) walked_body(1) [OF w c(2)] unfolding no_dangling_def by fastforce
      then show ?thesis using folded_away_body [OF w] c(2) by force
    qed
  qed simp_all
  then have "kind_of f1 i = rewrite_values_in_kind (subst_value (map_of s)) (kind_of f i)"
    unfolding A subst_kind_eq_rewrite by (rule rewrite_cong)
  moreover have "i < length (instructions f)" "ins = instructions f ! i" using i by (auto simp: instr_def rust_simps)
  ultimately show "\<exists>ins'. instr (folded_away f1 s) i = Some ins' \<and>
      instr_kind ins' = rewrite_values_in_kind (subst_value (map_of s)) (instr_kind ins)"
    using B(2) by (intro exI [of _ "instructions f1 ! i"])
      (simp add: instr_def kind_of_def folded_away_def retain_instrs_def)
qed

lemma subst_relD:
  assumes "subst_rel S s env env'" "eval_value S env v = Some x"
  shows "eval_value S env' (subst_value (map_of s) v) = Some x \<or> (\<exists>i c. v = Instruction i \<and> map_of s i = Some c \<and> x = sem_const S c)"
proof (cases v)
  case (Instruction i)
  with assms(2) have x: "env i = Some x" by (simp add: eval_value_def)
  from assms(1) have k: "(map_of s i = None \<longrightarrow> env' i = env i) \<and>
      (\<forall>v. map_of s i = Some v \<longrightarrow> env i = None \<or> env i = Some (sem_const S v))"
    unfolding subst_rel_def by blast
  show ?thesis
  proof (cases "map_of s i")
    case None
    with k x Instruction show ?thesis by (simp add: eval_value_def map_default_def)
  next
    case (Some c)
    with k x Instruction show ?thesis by auto
  qed
qed (use assms in \<open>simp_all add: eval_value_def\<close>)

context const_folder
begin

lemma prop_sound:
  assumes w: "walked folder f order (ctx, f1, s)" and ag: "folds_agree S folder ctx f (folded_away f1 s)"
  shows "rewrite_sound S f (fst ` set s) (subst_value (map_of s)) (subst_rel S s)"
proof -
  have con: "\<exists>d. c = Constant d" if "map_of s i = Some c" for i c
    using walked_body(2) [OF w map_of_SomeD [OF that]] by (auto simp: folds_some_def)
  have E: "eval_value S env' (subst_value (map_of s) v) = Some x"
    if "subst_rel S s env env'" "eval_value S env v = Some x" for env env' v x
    using subst_relD [OF that] con by (fastforce simp: eval_value_def map_default_def)
  have U: "subst_rel S s (env(i := r)) (env'(i := r))"
    if "subst_rel S s env env'" "kept f (fst ` set s) i" for env env' i r
  proof -
    have "map_of s i = None"
    proof (rule ccontr)
      assume "map_of s i \<noteq> None"
      then obtain c where c: "(i, c) \<in> set s" using map_of_SomeD by fastforce
      with that(2) obtain bb where bb: "bb \<in> set (blocks f)" "bb_terminator bb = Some i"
        by (force simp: kept_def)
      have "(i, True) \<in> set (visits f order)"
        using w c prop_invD(4) [of folder f "visits f order" ctx f1 s] by (auto simp: walked_def)
      moreover have "(i, False) \<in> set (visits f order)"
        using bb w by (force simp: walked_def visits_def block_visits_def in_set_conv_nth [of bb])
      ultimately show False using w eq_key_imp_eq_value [of "visits f order" i True False]
        by (auto simp: walked_def)
    qed
    then show ?thesis using that(1) by (auto simp: subst_rel_def)
  qed
  have P: "\<not> phi_id f i" if i: "i \<in> fst ` set s" for i
  proof
    assume "phi_id f i"
    then have p: "is_phi (kind_of f i)" by (auto simp: phi_id_def kind_of_def instr_def vec_get_def split: if_splits)
    from i obtain c where c: "(i, c) \<in> set s" by auto
    from walked_body(1) [OF w c] obtain bb where "bb \<in> set (blocks f)" "i \<in> set (bb_instrs bb)"
      by (auto simp: in_body_def bb_instrs_def)
    from walked_kind [OF w this] p have "is_phi (kind_of f1 i)" by (metis subst_kind_eq_rewrite is_phi_rewrite)
    with walked_body(2) [OF w c] folder_phi show False by (auto simp: folds_some_def)
  qed
  have X: "subst_rel S s env1 env' \<and> m1 = m"
    if K: "subst_rel S s env env'" and i: "i \<in> fst ` set s"
      and x: "exec_instr S f i (env, m) = Some (env1, m1, n)" for env env' i m env1 m1 n
  proof -
    from i obtain c where c: "map_of s i = Some c" by (metis (no_types, lifting) imageE map_of_eq_None_iff not_None_eq imageI)
    note fs = walked_body [OF w map_of_SomeD [OF c]]
    from fs(1) obtain bb where "bb \<in> set (blocks f)" "i \<in> set (bb_instrs bb)" by (auto simp: in_body_def bb_instrs_def)
    from walked_kind [OF w this] obtain A where A: "kind_of f1 i = subst_kind (map_of (known s A)) (kind_of f i)" .
    from exec_instrE [OF x] obtain vs r where vs: "try_map (eval_value S env) (operands (kind_of f i)) = Some vs"
      "sem_exec S (shape (kind_of f i)) vs m = Some (r, m1, n)" "env1 = env(i := r)" by blast
    have "list_all2 (\<lambda>v y. case subst_value (map_of (known s A)) v of Instruction _ \<Rightarrow> True
        | _ \<Rightarrow> y = sem_const S (subst_value (map_of (known s A)) v)) (operands (kind_of f i)) vs"
      using try_map_list_all2 [OF vs(1)]
    proof (rule list_all2_mono)
      fix v y assume e: "eval_value S env v = Some y"
      show "case subst_value (map_of (known s A)) v of Instruction _ \<Rightarrow> True
        | _ \<Rightarrow> y = sem_const S (subst_value (map_of (known s A)) v)"
      proof (cases v)
        case (Instruction j)
        show ?thesis
        proof (cases "map_of (known s A) j")
          case (Some d)
          then have "map_of s j = Some d" by (simp add: map_of_known split: if_splits)
          with K e Instruction Some have "y = sem_const S d"
            by (auto simp: subst_rel_def eval_value_def dest!: spec [of _ j])
          with Some Instruction show ?thesis by (simp add: map_default_def split: value_ref.split)
        qed (simp add: Instruction map_default_def)
      qed (use e in \<open>simp_all add: eval_value_def\<close>)
    qed
    then have "operands_match S (kind_of f1 i) vs"
      unfolding operands_match_def A subst_kind_eq_rewrite operands_rewrite list_all2_map1 .
    moreover have "shape (kind_of f1 i) = shape (kind_of f i)" by (simp add: A subst_kind_eq_rewrite)
    moreover have "fold_agrees S folder ctx (kind_of f1 i)"
      using ag fs(1) i folded_away_body [OF w, of i] by (auto simp: folds_agree_def)
    ultimately have "r = Some (sem_const S c) \<and> m1 = m"
      using fs(2) vs(2) unfolding fold_agrees_def by (metis (no_types))
    with K c vs(3) show ?thesis by (auto simp: subst_rel_def)
  qed
  show ?thesis
    by (rule rewrite_soundI) (rule E, assumption+, rule U, assumption+, use P in simp, rule X, assumption+)
qed

lemma walked_preserves:
  assumes "walked folder f order (ctx, f1, s)" "no_dangling f (folded_away f1 s)"
    and "folds_agree S folder ctx f (folded_away f1 s)"
  shows "preserves S f (folded_away f1 s)"
  by (rule rewritten_preserves [OF prop_rewritten [OF assms(1,2)] prop_sound [OF assms(1,3)]])
    (simp add: subst_rel_def)

lemma prop_function_ok:
  assumes f: "wf_func f" "placed_once f" and c: "ctx_ok ctx" "prop_ready f (length (instructions f)) ctx"
  shows "\<exists>ctx' f' changed. prop_function folder ctx f = Some (ctx', f', changed) \<and> extends ctx ctx' \<and> wf_func f' \<and>
     (defs_visited_first f \<longrightarrow> no_dangling f f') \<and>
     (no_dangling f f' \<and> folds_agree S folder ctx' f f' \<longrightarrow> preserves S f f')"
proof (cases "blocks f = []")
  case True
  then show ?thesis using f by (auto simp: prop_function_def preserves_refl no_dangling_def)
next
  case False
  from block_rpo_correct [OF f(1) False] obtain order where o: "block_rpo f = Some order" "distinct order"
    "set order = {..<length (blocks f)}" by blast
  have perm: "mset (map fst (visits f order)) = mset (concat (map bb_instrs (blocks f)))"
    by (rule visits_perm [OF o(2,3)])
  then have d: "distinct (map fst (visits f order))"
    using f(2) mset_eq_imp_distinct_iff unfolding placed_once_def by blast
  have r: "\<forall>i\<in>fst ` set (visits f order). i < length (instructions f)"
    using f(1) set_visits [OF o(3)] by (auto simp: wf_func_def)
  have "card (set (map fst (visits f order))) \<le> card {..<length (instructions f)}"
    using r by (intro card_mono) auto
  then have "length (visits f order) \<le> length (instructions f)" using distinct_card [OF d] by simp
  then have ready: "prop_ready f (length (visits f order)) ctx" using c(2) by (simp add: prop_ready_def)
  have "prop_inv folder f [] (ctx, f, [])"
  proof (rule prop_invI)
    show "\<exists>ins. f = f\<lparr>instructions := ins\<rparr> \<and> length ins = length (instructions f)"
      by (intro exI [of _ "instructions f"]) simp
  qed (use c(1) in simp_all)
  from walk_ok [OF this, of "visits f order"] d r ready obtain ctx' f1 s
    where w: "try_foldl (prop_visit folder) (ctx, f, []) (visits f order) = Some (ctx', f1, s)"
      "prop_inv folder f (visits f order) (ctx', f1, s)" "extends ctx ctx'" by auto
  then have W: "walked folder f order (ctx', f1, s)" using d o(3) by (simp add: walked_def)
  have t: "try_foldl (prop_block folder) (ctx, f, []) order = Some (ctx', f1, s)"
    using prop_blocks_visits [of order f folder ctx "[]"] o(3) w(1) by auto
  have g: "folded_away f1 [] = f1" by (simp add: folded_away_def retain_all)
  have "prop_function folder ctx f = Some (ctx', folded_away f1 s, s \<noteq> [])"
    using False o(1) t g by (auto simp: prop_function_def folded_away_def)
  moreover have "wf_func (folded_away f1 s)"
  proof -
    note B = walked_shape [OF W]
    have k: "successors (kind_of f1 i) = successors (kind_of f i)" if "bb \<in> set (blocks f)" "i \<in> set (bb_instrs bb)" for bb i
      using walked_kind [OF W that] by (metis subst_kind_eq_rewrite successors_rewrite)
    have "succ_list f1 b = succ_list f b" for b
    proof (cases "b < length (blocks f)")
      case True
      have "successors (kind_of f1 t) = successors (kind_of f t)" if "bb_terminator (blocks f ! b) = Some t" for t
        using k [OF nth_mem [OF True], of t] that by (simp add: bb_instrs_def)
      then show ?thesis using B True
        by (cases "bb_terminator (blocks f ! b)")
          (auto simp: succ_list_def terminator_kind_def kind_of_def vec_get_def)
    qed (simp add: succ_list_def B)
    then have "wf_func f1" using f(1) B by (simp add: wf_func_def)
    then show ?thesis unfolding folded_away_def by (rule wf_func_retain)
  qed
  moreover have "\<forall>(i, v) \<in> set s. \<exists>c. v = Constant c"
    using walked_body(2) [OF W] by (auto simp: folds_some_def)
  ultimately show ?thesis using w(3) walked_preserves [OF W] walked_no_dangling [OF W o(1)] by blast
qed

end

section \<open>Both folders\<close>

lemma try_fold_None:
  "try_fold ctx k = Some (None, ctx') \<Longrightarrow> ctx' = ctx"
  by (cases k)
    (auto simp: with_ints_def with_width_def with_mask_def folded_def no_fold_def Let_def
      split: bind_splits option.splits if_splits value_ref.splits prod.splits)

lemma nan_or_inf_total:
  assumes "ctx_ok ctx" "c < length (constants ctx)"
  shows "\<exists>b. fold_result_is_nan_or_inf ctx c = Some b"
proof -
  have "get_const ctx c = Some (constants ctx ! c)" "good_const ctx (constants ctx ! c)"
    using assms by (auto simp: get_const_def ctx_ok_def)
  then show ?thesis
    by (cases "constants ctx ! c") (auto simp: fold_result_is_nan_or_inf_def good_const_def)
qed

lemma const_prop_fold_ok:
  assumes "ctx_ok ctx" "length (constants ctx) < 2 ^ 32" "operands_ok ctx k"
  shows "fold_ok ctx (const_prop_fold fp strict ctx k)"
proof -
  obtain res c1 where t: "try_fold ctx k = Some (res, c1)" using try_fold_ok [OF assms] by (auto simp: fold_ok_def)
  show ?thesis
  proof (cases res)
    case (Some c)
    then show ?thesis using t try_fold_ok [OF assms] by (simp add: const_prop_fold_def)
  next
    case None
    then have c1: "c1 = ctx" using t try_fold_None by simp
    obtain res2 c2 where u: "try_fold_fp fp ctx k = Some (res2, c2)" "ctx_ok c2" "extends ctx c2"
      "length (constants c2) \<le> Suc (length (constants ctx))" "\<And>c. res2 = Some c \<Longrightarrow> c < length (constants c2)"
      using try_fold_fp_ok [OF assms, of fp] by (auto simp: fold_ok_def)
    have "\<exists>res3. const_prop_fold fp strict ctx k = Some (res3, c2) \<and> (res3 = None \<or> res3 = res2)"
    proof (cases res2)
      case (Some c)
      with nan_or_inf_total [OF u(2) u(5)] show ?thesis
        using t None c1 u(1) by (auto simp: const_prop_fold_def)
    qed (use t None c1 u(1) in \<open>simp add: const_prop_fold_def\<close>)
    with u show ?thesis by (auto simp: fold_ok_def)
  qed
qed

interpretation full_folder: const_folder "const_prop_fold fp strict"
proof unfold_locales
  show "fold_ok ctx (const_prop_fold fp strict ctx k)"
    if "ctx_ok ctx" "length (constants ctx) < 2 ^ 32" "operands_ok ctx k" for ctx k
    by (rule const_prop_fold_ok [OF that])
  show False if "is_phi k" "const_prop_fold fp strict ctx k = Some (Some c, ctx')" for k ctx c ctx'
    using that by (simp add: const_prop_fold_def try_fold_phi try_fold_fp_phi)
qed

end
