(* ===== verification/Transform_Fold_Int.thy ===== *)
theory Transform_Fold_Int
  imports Transform_Const_Prop
begin

text \<open>
  The integer pass (\<open>constant_fold_pass.rs\<close>) against the integer semantics of the instructions: values
  carry their width, the two-operand instructions compute \<open>ref_binop\<close>, the reference semantics of the
  folder; every other instruction is a parameter. That the folds agree with the instructions is then a
  consequence of the correctness of \<open>try_fold\<close>.
\<close>

section \<open>Integer semantics\<close>

type_synonym int_value = "nat \<times> int"

definition int_const :: "(value_ref \<Rightarrow> int_value) \<Rightarrow> ir_context \<Rightarrow> value_ref \<Rightarrow> int_value" where
  \<comment> \<open>the value of a constant of the context, or of an argument or global\<close>
  "int_const given ctx v =
     (case v of
        Constant c \<Rightarrow>
          (case get_const ctx c of
             Some (CInt ty w) \<Rightarrow>
               (case get_type ctx ty of Some (TyInteger N) \<Rightarrow> (N, take_bit N (uint w)) | _ \<Rightarrow> given v)
           | _ \<Rightarrow> given v)
      | _ \<Rightarrow> given v)"

definition result_width :: "instr_kind \<Rightarrow> nat \<Rightarrow> nat" where
  "result_width k N = (case k of ICmp _ _ _ \<Rightarrow> 1 | _ \<Rightarrow> N)"

type_synonym 'm int_step = "instr_kind \<Rightarrow> int_value list \<Rightarrow> 'm \<Rightarrow> (int_value option \<times> 'm \<times> nat option) option"

definition int_exec :: "'m int_step \<Rightarrow> 'm int_step" where
  "int_exec other k vs m =
     (if binop_args k \<noteq> None
      then (case vs of
              [(N, a), (N', b)] \<Rightarrow>
                if N = N' then map_option (\<lambda>c. (Some (result_width k N, c), m, None)) (ref_binop N k a b) else None
            | _ \<Rightarrow> None)
      else (case k of
              Select _ _ _ \<Rightarrow> (case vs of [c, a, b] \<Rightarrow> Some (Some (if snd c \<noteq> 0 then a else b), m, None) | _ \<Rightarrow> None)
            | _ \<Rightarrow> other k vs m))"

definition int_sem :: "(value_ref \<Rightarrow> int_value) \<Rightarrow> 'm int_step \<Rightarrow> ir_context \<Rightarrow> (int_value, 'm) ir_sem" where
  "int_sem given other ctx = \<lparr>sem_const = int_const given ctx, sem_exec = int_exec other\<rparr>"

section \<open>Folds agree\<close>

















section \<open>Properties\<close>



text \<open>The memory counts the conditional branches; the first goes to its first target, later ones to the
  second.\<close>

definition loop_step :: "nat int_step" where
  "loop_step k vs m =
     (case k of
        Br _ \<Rightarrow> Some (None, m, Some 0)
      | CondBr _ _ _ \<Rightarrow> Some (None, Suc m, Some (if m = 0 then 0 else 1))
      | Ret _ \<Rightarrow> Some (Some (hd vs), m, None)
      | _ \<Rightarrow> None)"

text \<open>A function that returns the conjunction of two constants.\<close>

definition ex_fold_ctx :: ir_context where
  "ex_fold_ctx = fst (int_constants 8 [6, 3])"


lemma ex_fold_ctx_eval:
  "constants ex_fold_ctx = [CInt 2 6, CInt 2 3]" "get_type ex_fold_ctx 2 = Some (TyInteger 8)"
  "const_map ex_fold_ctx (KInt 2 2) = None"
  by (simp_all add: ex_fold_ctx_def int_constants_eval Let_def get_type_def)




lemmas prop_evals = prop_function_def prop_block_def prop_instr_def apply_subst_def set_instr_kind_def
  retain_instrs_def with_ints_def get_const_int_def get_const_def instr_def vec_get_def folded_def const_int_def
  intern_const_def no_fold_def Let_def map_default_def kind_of_def




lemma const_prop_fold_int:
  "binop_args k \<noteq> None \<Longrightarrow> const_prop_fold fp strict ctx k = try_fold ctx k"
  using try_fold_None [of ctx k]
  by (cases k)
    (auto simp: const_prop_fold_def no_fold_def simp del: try_fold.simps split: bind_splits option.splits)






















text \<open>A loop whose phi takes the value of a folded instruction of the latch.\<close>

definition ex_loop_fn :: ir_function where
  "ex_loop_fn = (function_new ''f'' 0 [] External)
     \<lparr>blocks := [\<lparr>bb_name = ''entry'', bb_body = [], bb_terminator = Some 0\<rparr>,
                  \<lparr>bb_name = ''loop'', bb_body = [1, 2], bb_terminator = Some 3\<rparr>,
                  \<lparr>bb_name = ''exit'', bb_body = [], bb_terminator = Some 4\<rparr>],
      instructions := [\<lparr>instr_name = None, instr_ty = 0, instr_kind = Br 1\<rparr>,
                       \<lparr>instr_name = Some ''p'', instr_ty = 2, instr_kind = Phi 2 [(Constant 0, 0), (Instruction 2, 1)]\<rparr>,
                       \<lparr>instr_name = Some ''x'', instr_ty = 2, instr_kind = And (Constant 0) (Constant 1)\<rparr>,
                       \<lparr>instr_name = None, instr_ty = 0, instr_kind = CondBr (Argument 0) 1 2\<rparr>,
                       \<lparr>instr_name = None, instr_ty = 0, instr_kind = Ret (Some (Instruction 1))\<rparr>]\<rparr>"

lemma ex_loop_fn_eval:
  "blocks ex_loop_fn = [\<lparr>bb_name = ''entry'', bb_body = [], bb_terminator = Some 0\<rparr>,
     \<lparr>bb_name = ''loop'', bb_body = [1, 2], bb_terminator = Some 3\<rparr>,
     \<lparr>bb_name = ''exit'', bb_body = [], bb_terminator = Some 4\<rparr>]"
  "instructions ex_loop_fn = [\<lparr>instr_name = None, instr_ty = 0, instr_kind = Br 1\<rparr>,
     \<lparr>instr_name = Some ''p'', instr_ty = 2, instr_kind = Phi 2 [(Constant 0, 0), (Instruction 2, 1)]\<rparr>,
     \<lparr>instr_name = Some ''x'', instr_ty = 2, instr_kind = And (Constant 0) (Constant 1)\<rparr>,
     \<lparr>instr_name = None, instr_ty = 0, instr_kind = CondBr (Argument 0) 1 2\<rparr>,
     \<lparr>instr_name = None, instr_ty = 0, instr_kind = Ret (Some (Instruction 1))\<rparr>]"
  by (simp_all add: ex_loop_fn_def)

lemma ex_loop_rpo: "block_rpo ex_loop_fn = Some [0, 1, 2]"
  by (simp add: block_rpo_def ex_loop_fn_eval block_succs_def instr_def vec_get_def upt_rec)

lemma ex_loop_run:
  "\<exists>ctx' f'. constant_fold ex_fold_ctx ex_loop_fn = Some (ctx', f', True) \<and>
     blocks f' = [\<lparr>bb_name = ''entry'', bb_body = [], bb_terminator = Some 0\<rparr>,
       \<lparr>bb_name = ''loop'', bb_body = [1], bb_terminator = Some 3\<rparr>,
       \<lparr>bb_name = ''exit'', bb_body = [], bb_terminator = Some 4\<rparr>] \<and>
     instructions f' = instructions ex_loop_fn \<and>
     constants ctx' = [CInt 2 6, CInt 2 3, CInt 2 2] \<and> get_type ctx' 2 = Some (TyInteger 8)"
proof -
  have w: "6 AND 3 = (2 :: u64)" by simp
  show ?thesis
    using ex_fold_ctx_eval(2) unfolding get_type_def
    by (simp add: constant_fold_def ex_loop_rpo prop_evals ex_fold_ctx_eval ex_loop_fn_eval w split: if_splits)
qed

text \<open>Folding leaves a phi of a loop header pointing at an instruction it deletes: the phi is visited
  before the latch is folded and is not visited again. The function below returns 2 (6 and 3), the function
  the pass makes of it is stuck when it enters the loop a second time.\<close>

lemma constant_fold_dangles:
  "\<exists>ctx' f'. constant_fold ex_fold_ctx ex_loop_fn = Some (ctx', f', True) \<and>
     kind_of f' 1 = Phi 2 [(Constant 0, 0), (Instruction 2, 1)] \<and> \<not> in_body f' 2 \<and>
     returns (int_sem given loop_step ctx') ex_loop_fn 0 (Some (8, 2), 2) \<and>
     (\<forall>out. \<not> returns (int_sem given loop_step ctx') f' 0 out)"
proof -
  obtain ctx' f' where r: "constant_fold ex_fold_ctx ex_loop_fn = Some (ctx', f', True)"
    "blocks f' = [\<lparr>bb_name = ''entry'', bb_body = [], bb_terminator = Some 0\<rparr>,
       \<lparr>bb_name = ''loop'', bb_body = [1], bb_terminator = Some 3\<rparr>,
       \<lparr>bb_name = ''exit'', bb_body = [], bb_terminator = Some 4\<rparr>]"
    "instructions f' = instructions ex_loop_fn"
    "constants ctx' = [CInt 2 6, CInt 2 3, CInt 2 2]" "get_type ctx' 2 = Some (TyInteger 8)"
    using ex_loop_run by (elim exE conjE) (rule that)
  let ?S = "int_sem given loop_step ctx'"
  have c: "int_const given ctx' (Constant 0) = (8, 6)" "int_const given ctx' (Constant 1) = (8, 3)"
    by (simp_all add: int_const_def get_const_def vec_get_def r(4,5))
  have w: "6 AND 3 = (2 :: int)" by simp
  note c' = c [unfolded One_nat_def]
  note evals = exec_block_def block_def exec_phis_def phi_id_def instr_def is_phi_def exec_term_def exec_instr_def
    shape_def rename_blocks_def exec_body_Cons int_sem_def int_exec_def loop_step_def ref_binop_def result_width_def
    eval_value_def eval_phi_def phi_incoming_def r(2,3) ex_loop_fn_eval c' w vec_get_def
  let ?e1 = "\<lambda>x. None"
  let ?e2 = "[1 \<mapsto> (8, 6), 2 \<mapsto> (8, 2)]" and ?e3 = "[1 \<mapsto> (8, 2), 2 \<mapsto> (8, 2)]"
  have f0: "exec_block ?S ex_loop_fn (0, None, Map.empty, 0) = Some (Inl (1, Some 0, ?e1, 0))" by (simp add: evals)
  have f1: "exec_block ?S ex_loop_fn (1, Some 0, ?e1, 0) = Some (Inl (1, Some 1, ?e2, 1))"
    by (simp add: evals)
  have f2: "exec_block ?S ex_loop_fn (1, Some 1, ?e2, 1) = Some (Inl (2, Some 1, ?e3, 2))"
    by (simp add: evals)
  have f3: "exec_block ?S ex_loop_fn (2, Some 1, ?e3, 2) = Some (Inr (Some (8, 2), 2))" by (simp add: evals)
  have "run_function ?S ex_loop_fn (Suc (Suc (Suc (Suc 0)))) 0 = Some (Inr (Some (8, 2), 2))"
    by (simp add: run_function_def entry_config_def f0 f1 f2 f3 del: One_nat_def)
  then have ret: "returns ?S ex_loop_fn 0 (Some (8, 2), 2)" unfolding returns_def by blast
  have g0: "exec_block ?S f' (0, None, Map.empty, 0) = Some (Inl (1, Some 0, ?e1, 0))" by (simp add: evals)
  have g1: "exec_block ?S f' (1, Some 0, ?e1, 0) = Some (Inl (1, Some 1, [1 \<mapsto> (8, 6)], 1))"
    by (simp add: evals)
  have g2: "exec_block ?S f' (1, Some 1, [1 \<mapsto> (8, 6)], 1) = None" by (simp add: evals)
  have "run_function ?S f' n 0 \<noteq> Some (Inr out)" for n out
  proof (cases n)
    case (Suc k)
    then show ?thesis
      by (cases k; cases "k - 1")
        (simp_all add: run_function_def entry_config_def g0 g1 g2 del: One_nat_def)
  qed (simp add: run_function_def)
  then have "\<not> returns ?S f' 0 out" for out unfolding returns_def by blast
  moreover have "kind_of f' 1 = Phi 2 [(Constant 0, 0), (Instruction 2, 1)]" "\<not> in_body f' 2"
    by (simp_all add: kind_of_def in_body_def r(2,3) ex_loop_fn_eval)
  ultimately show ?thesis using r(1) ret by blast
qed

end
