(* ===== verification/Transform_Pass.thy ===== *)
theory Transform_Pass
  imports Transform_Dce
begin

text \<open>
  The pass manager (\<open>llvm-transforms/src/pass.rs\<close>): a function pass is lifted to the functions of a module
  that have a body, and the passes of the manager run in order, once or until nothing changes. The traits
  are function types; a pass may panic. The locales state what a pass owes and what the manager makes of it.
\<close>

section \<open>The manager\<close>

type_synonym function_pass = "ir_context \<Rightarrow> ir_function \<Rightarrow> (ir_context \<times> ir_function \<times> bool) rust"
type_synonym module_pass = "ir_context \<Rightarrow> ir_module \<Rightarrow> (ir_context \<times> ir_module \<times> bool) rust"

definition function_pass_adapter :: "function_pass \<Rightarrow> module_pass" where
  "function_pass_adapter pass ctx m =
     try_foldl (\<lambda>(ctx, m, changed) i.
         do { f \<leftarrow> vec_get (m_functions m) i;
              if is_declaration f then Some (ctx, m, changed)
              else do { (ctx, f, c) \<leftarrow> pass ctx f;
                        Some (ctx, m\<lparr>m_functions := (m_functions m)[i := f]\<rparr>, changed \<or> c) } })
       (ctx, m, False) [0..<length (m_functions m)]"

type_synonym pass_manager = "module_pass list"

definition add_module_pass :: "pass_manager \<Rightarrow> module_pass \<Rightarrow> pass_manager" where
  "add_module_pass pm pass = pm @ [pass]"

definition add_function_pass :: "pass_manager \<Rightarrow> function_pass \<Rightarrow> pass_manager" where
  "add_function_pass pm pass = pm @ [function_pass_adapter pass]"

definition pm_run :: "pass_manager \<Rightarrow> ir_context \<Rightarrow> ir_module \<Rightarrow> (ir_context \<times> ir_module \<times> bool) rust" where
  "pm_run passes ctx m =
     try_foldl (\<lambda>(ctx, m, changed) pass. do { (ctx, m, c) \<leftarrow> pass ctx m; Some (ctx, m, changed \<or> c) })
       (ctx, m, False) passes"

primrec run_until_fixed_point ::
  "pass_manager \<Rightarrow> nat \<Rightarrow> ir_context \<Rightarrow> ir_module \<Rightarrow> (ir_context \<times> ir_module) rust" where
  "run_until_fixed_point passes 0 ctx m = Some (ctx, m)"
| "run_until_fixed_point passes (Suc max_iter) ctx m =
     do { (ctx, m, changed) \<leftarrow> pm_run passes ctx m;
          if \<not> changed then Some (ctx, m) else run_until_fixed_point passes max_iter ctx m }"

section \<open>Contracts\<close>

text \<open>A set of module passes that keep an invariant of the module and relate it to its result.\<close>

locale module_passes =
  fixes ps :: "(ir_context \<Rightarrow> ir_module \<Rightarrow> (ir_context \<times> ir_module \<times> bool) option) set"
    and ok :: "ir_context \<Rightarrow> ir_module \<Rightarrow> bool" and rel :: "ir_module \<Rightarrow> ir_module \<Rightarrow> bool"
  assumes pass_ok: "p \<in> ps \<Longrightarrow> ok ctx m \<Longrightarrow>
      \<exists>ctx' m' changed. p ctx m = Some (ctx', m', changed) \<and> ok ctx' m' \<and> rel m m'"
    and rel_refl: "rel m m"
    and rel_trans: "rel m m' \<Longrightarrow> rel m' m'' \<Longrightarrow> rel m m''"
begin

lemma pm_run_ok:
  assumes "set passes \<subseteq> ps" "ok ctx m"
  shows "\<exists>ctx' m' changed. pm_run passes ctx m = Some (ctx', m', changed) \<and> ok ctx' m' \<and> rel m m'"
proof -
  have "\<exists>ctx' m' c'. try_foldl (\<lambda>(ctx, m, changed) pass. do { (ctx, m, c) \<leftarrow> pass ctx m; Some (ctx, m, changed \<or> c) })
       (ctx, m, c) passes = Some (ctx', m', c') \<and> ok ctx' m' \<and> rel m m'" for c
    using assms
  proof (induction passes arbitrary: ctx m c)
    case (Cons p passes)
    then obtain ctx1 m1 c1 where p: "p ctx m = Some (ctx1, m1, c1)" "ok ctx1 m1" "rel m m1"
      using pass_ok by (metis insert_subset list.set(2))
    from Cons.IH [of ctx1 m1 "c \<or> c1"] Cons.prems(1) p show ?case using rel_trans by fastforce
  qed (simp add: rel_refl)
  then show ?thesis by (simp add: pm_run_def)
qed

lemma run_until_ok:
  assumes "set passes \<subseteq> ps" "ok ctx m"
  shows "\<exists>ctx' m'. run_until_fixed_point passes n ctx m = Some (ctx', m') \<and> ok ctx' m' \<and> rel m m'"
  using assms(2)
proof (induction n arbitrary: ctx m)
  case (Suc n)
  from pm_run_ok [OF assms(1) Suc.prems] obtain ctx1 m1 c
    where p: "pm_run passes ctx m = Some (ctx1, m1, c)" "ok ctx1 m1" "rel m m1" by blast
  from Suc.IH [OF p(2)] p show ?case using rel_trans by (cases c) auto
qed (simp add: rel_refl)

end

definition good_module :: "(ir_context \<Rightarrow> ir_function \<Rightarrow> bool) \<Rightarrow> ir_context \<Rightarrow> ir_module \<Rightarrow> bool" where
  "good_module good ctx m \<longleftrightarrow> (\<forall>f\<in>set (m_functions m). is_declaration f \<or> good ctx f)"

definition module_frel :: "(ir_function \<Rightarrow> ir_function \<Rightarrow> bool) \<Rightarrow> ir_module \<Rightarrow> ir_module \<Rightarrow> bool" where
  "module_frel frel m m' \<longleftrightarrow>
     (\<exists>fs. m' = m\<lparr>m_functions := fs\<rparr> \<and> list_all2 (\<lambda>f f'. frel f f' \<and> (is_declaration f \<longrightarrow> f' = f)) (m_functions m) fs)"

text \<open>A function pass. The third condition says that what it does to the context harms no other function.\<close>

locale function_pass =
  fixes pass :: "ir_context \<Rightarrow> ir_function \<Rightarrow> (ir_context \<times> ir_function \<times> bool) option"
    and good :: "ir_context \<Rightarrow> ir_function \<Rightarrow> bool" and frel :: "ir_function \<Rightarrow> ir_function \<Rightarrow> bool"
  assumes fpass_ok: "good ctx f \<Longrightarrow>
      \<exists>ctx' f' changed. pass ctx f = Some (ctx', f', changed) \<and> good ctx' f' \<and> frel f f' \<and>
         is_declaration f' = is_declaration f \<and> (\<forall>g. good ctx g \<longrightarrow> good ctx' g)"
    and frel_refl: "frel f f"
    and frel_trans: "frel f f' \<Longrightarrow> frel f' f'' \<Longrightarrow> frel f f''"
begin

lemma module_frel_refl: "module_frel frel m m"
  unfolding module_frel_def
  by (intro exI [of _ "m_functions m"]) (simp add: list_all2_same frel_refl)

lemma module_frel_trans:
  assumes "module_frel frel m m'" "module_frel frel m' m''"
  shows "module_frel frel m m''"
proof -
  let ?R = "\<lambda>f f'. frel f f' \<and> (is_declaration f \<longrightarrow> f' = f)"
  from assms obtain fs gs where e: "m' = m\<lparr>m_functions := fs\<rparr>" "list_all2 ?R (m_functions m) fs"
    "m'' = m'\<lparr>m_functions := gs\<rparr>" "list_all2 ?R (m_functions m') gs" unfolding module_frel_def by blast
  have "list_all2 ?R (m_functions m) gs"
    by (rule list_all2_trans [OF _ e(2)]) (use e frel_trans in auto)
  with e show ?thesis unfolding module_frel_def by (intro exI [of _ gs]) simp
qed

lemma adapter_step:
  assumes "good_module good ctx m" "i < length (m_functions m)"
  shows "\<exists>ctx' m' c'.
    (do { f \<leftarrow> vec_get (m_functions m) i;
          if is_declaration f then Some (ctx, m, c)
          else do { (ctx, f, c1) \<leftarrow> pass ctx f;
                    Some (ctx, m\<lparr>m_functions := (m_functions m)[i := f]\<rparr>, c \<or> c1) } }) = Some (ctx', m', c') \<and>
    good_module good ctx' m' \<and> module_frel frel m m'"
proof (cases "is_declaration (m_functions m ! i)")
  case True
  then show ?thesis using assms module_frel_refl by simp
next
  case False
  with assms have "good ctx (m_functions m ! i)" using nth_mem by (fastforce simp: good_module_def)
  from fpass_ok [OF this] obtain ctx' f' c1 where p: "pass ctx (m_functions m ! i) = Some (ctx', f', c1)"
    "good ctx' f'" "frel (m_functions m ! i) f'" "\<forall>g. good ctx g \<longrightarrow> good ctx' g" by blast
  have "good_module good ctx' (m\<lparr>m_functions := (m_functions m)[i := f']\<rparr>)"
    using assms(1) p(2,4) by (auto simp: good_module_def dest!: set_update_subset_insert [THEN subsetD])
  moreover have "module_frel frel m (m\<lparr>m_functions := (m_functions m)[i := f']\<rparr>)"
    unfolding module_frel_def
    by (intro exI [of _ "(m_functions m)[i := f']"] conjI list_all2_all_nthI)
      (use False p(3) assms(2) in \<open>auto simp: nth_list_update frel_refl\<close>)
  ultimately show ?thesis using False assms(2) p(1) by auto
qed

lemma adapter_ok:
  assumes "good_module good ctx m"
  shows "\<exists>ctx' m' c'. function_pass_adapter pass ctx m = Some (ctx', m', c') \<and> good_module good ctx' m' \<and> module_frel frel m m'"
proof -
  let ?step = "\<lambda>(ctx, m, changed) i.
         do { f \<leftarrow> vec_get (m_functions m) i;
              if is_declaration f then Some (ctx, m, changed)
              else do { (ctx, f, c) \<leftarrow> pass ctx f;
                        Some (ctx, m\<lparr>m_functions := (m_functions m)[i := f]\<rparr>, changed \<or> c) } }"
  have "\<exists>ctx' m' c'. try_foldl ?step (ctx, m, c) is = Some (ctx', m', c') \<and> good_module good ctx' m' \<and> module_frel frel m m'"
    if "good_module good ctx m" "\<forall>i\<in>set is. i < length (m_functions m)" for ctx m c "is"
    using that
  proof (induction "is" arbitrary: ctx m c)
    case (Cons i "is")
    from adapter_step [OF Cons.prems(1), of i c] Cons.prems(2) obtain ctx1 m1 c1
      where s: "?step (ctx, m, c) i = Some (ctx1, m1, c1)" "good_module good ctx1 m1" "module_frel frel m m1" by auto
    have "length (m_functions m1) = length (m_functions m)"
      using s(3) by (auto simp: module_frel_def dest: list_all2_lengthD)
    with Cons.IH [OF s(2), of c1] Cons.prems(2) s show ?case using module_frel_trans by fastforce
  qed (simp add: module_frel_refl)
  from this [OF assms, of "[0..<length (m_functions m)]" False] show ?thesis
    by (simp add: function_pass_adapter_def)
qed

end

sublocale function_pass \<subseteq> adapted: module_passes "{function_pass_adapter pass}" "good_module good" "module_frel frel"
  using adapter_ok module_frel_trans by unfold_locales (auto simp: module_frel_refl)

interpretation dce_pass: function_pass dce "\<lambda>ctx f. wf_func f \<and> deletable_pure S f" "preserves S"
proof unfold_locales
  fix ctx f assume g: "wf_func f \<and> deletable_pure S f"
  let ?f = "retain_instrs (\<lambda>i. i \<notin> dead_set f) f"
  have "deletable_pure S ?f"
    using g by (auto simp: deletable_pure_def in_body_def retain_instrs_def kind_of_def)
  with dce_eq [of f ctx] wf_func_retain [of f] dce_preserves_set [of f S] g
  show "\<exists>ctx' f' changed. dce ctx f = Some (ctx', f', changed) \<and> (wf_func f' \<and> deletable_pure S f') \<and>
      preserves S f f' \<and> is_declaration f' = is_declaration f \<and>
      (\<forall>g. wf_func g \<and> deletable_pure S g \<longrightarrow> wf_func g \<and> deletable_pure S g)"
    by (auto simp: retain_instrs_def)
qed (auto intro: preserves_refl preserves_trans)

section \<open>Properties\<close>

text \<open>C10: Run to a fixed point, however many rounds are allowed and however often the pass is listed, the pass
  manager with dead-code elimination returns, and every function keeps its meaning, declarations being left
  alone, provided that every other function is well formed and, under the semantics at hand, none of its
  instructions of a deletable kind has a side effect (\<open>deletable_pure\<close>). Inline assembly with a side effect
  breaks the condition (\<open>dce_deletes_asm\<close>).\<close>

theorem pass_manager_dce:
  assumes "\<forall>f\<in>set (m_functions m). is_declaration f \<or> (wf_func f \<and> deletable_pure S f)"
    and "set passes \<subseteq> {function_pass_adapter dce}"
  shows "\<exists>ctx' m'. run_until_fixed_point passes max_iter ctx m = Some (ctx', m') \<and>
     length (m_functions m') = length (m_functions m) \<and>
     (\<forall>i<length (m_functions m). preserves S (m_functions m ! i) (m_functions m' ! i) \<and>
        (is_declaration (m_functions m ! i) \<longrightarrow> m_functions m' ! i = m_functions m ! i))"
proof -
  have "good_module (\<lambda>ctx f. wf_func f \<and> deletable_pure S f) ctx m" using assms(1) by (simp add: good_module_def)
  from dce_pass.adapted.run_until_ok [OF assms(2) this, of max_iter] obtain ctx' m'
    where r: "run_until_fixed_point passes max_iter ctx m = Some (ctx', m')" "module_frel (preserves S) m m'" by blast
  from r(2) have "length (m_functions m') = length (m_functions m) \<and>
      (\<forall>i<length (m_functions m). preserves S (m_functions m ! i) (m_functions m' ! i) \<and>
        (is_declaration (m_functions m ! i) \<longrightarrow> m_functions m' ! i = m_functions m ! i))"
    by (auto simp: module_frel_def list_all2_conv_all_nth)
  with r(1) show ?thesis by blast
qed

theorem pass_manager_dce_witness:
  "\<exists>ctx' m'. run_until_fixed_point [function_pass_adapter dce] 3 context_new
       ((module_new ''m'')\<lparr>m_functions := [ex_dead_add]\<rparr>) = Some (ctx', m') \<and>
     preserves ex_sem ex_dead_add (m_functions m' ! 0)"
  using pass_manager_dce [of "(module_new ''m'')\<lparr>m_functions := [ex_dead_add]\<rparr>" ex_sem
      "[function_pass_adapter dce]" 3 context_new] ex_dead_add_wf by auto

end
