(* ===== verification/Codegen_MIR.thy ===== *)
theory Codegen_MIR
  imports LIR_Prelude
begin

unbundle bit_operations_syntax

text \<open>
  The machine IR (\<open>llvm-codegen/src/isel.rs\<close>): virtual registers with their class bit, operands,
  instructions, and the counters of \<open>MachineFunction\<close> (fresh registers, spill and alloca slots).
\<close>

section \<open>Registers\<close>

datatype reg_class = RegInt | RegFloat

type_synonym vreg = "32 word"
type_synonym preg = "8 word"
type_synonym mopcode = "32 word"

definition class_bit :: vreg where
  "class_bit = 0x80000000"

definition vreg_new_int :: "32 word \<Rightarrow> vreg rust" where
  "vreg_new_int i = (if i AND class_bit = 0 then Some i else None)"

definition vreg_new_float :: "32 word \<Rightarrow> vreg rust" where
  "vreg_new_float i = (if i AND class_bit = 0 then Some (i OR class_bit) else None)"

definition vreg_class :: "vreg \<Rightarrow> reg_class" where
  "vreg_class v = (if v AND class_bit \<noteq> 0 then RegFloat else RegInt)"

definition vreg_id :: "vreg \<Rightarrow> 32 word" where
  "vreg_id v = v AND NOT class_bit"

section \<open>Instructions\<close>

record debug_loc =
  dl_line :: "32 word"
  dl_column :: "32 word"

datatype moperand =
    MVReg vreg
  | MPReg preg
  | MImm int
  | MBlock nat
  | MBytes "8 word list"

record minstr =
  mi_opcode :: mopcode
  mi_dst :: "vreg option"
  mi_operands :: "moperand list"
  mi_phys_uses :: "preg list"
  mi_clobbers :: "preg list"
  mi_debug_loc :: "debug_loc option"

definition minstr_new :: "mopcode \<Rightarrow> minstr" where
  "minstr_new opc =
     \<lparr>mi_opcode = opc, mi_dst = None, mi_operands = [], mi_phys_uses = [], mi_clobbers = [],
      mi_debug_loc = None\<rparr>"

definition with_dst :: "minstr \<Rightarrow> vreg \<Rightarrow> minstr" where
  "with_dst mi d = mi\<lparr>mi_dst := Some d\<rparr>"

definition with_vreg :: "minstr \<Rightarrow> vreg \<Rightarrow> minstr" where
  "with_vreg mi r = mi\<lparr>mi_operands := mi_operands mi @ [MVReg r]\<rparr>"

definition with_preg :: "minstr \<Rightarrow> preg \<Rightarrow> minstr" where
  "with_preg mi r = mi\<lparr>mi_operands := mi_operands mi @ [MPReg r]\<rparr>"

definition with_imm :: "minstr \<Rightarrow> int \<Rightarrow> minstr" where
  "with_imm mi i = mi\<lparr>mi_operands := mi_operands mi @ [MImm i]\<rparr>"

definition with_block :: "minstr \<Rightarrow> nat \<Rightarrow> minstr" where
  "with_block mi b = mi\<lparr>mi_operands := mi_operands mi @ [MBlock b]\<rparr>"

definition with_bytes :: "minstr \<Rightarrow> 8 word list \<Rightarrow> minstr" where
  "with_bytes mi bs = mi\<lparr>mi_operands := mi_operands mi @ [MBytes bs]\<rparr>"

record machine_block =
  mb_label :: string
  mb_instrs :: "minstr list"

section \<open>Machine functions\<close>

record call_site_record =
  \<comment> \<open>\<open>CallSiteRecord\<close> of \<open>lsda.rs\<close>\<close>
  cs_call_start :: "32 word"
  cs_call_len :: "32 word"
  cs_landing_pad :: "32 word"
  cs_action :: "32 word"

record machine_function =
  mf_name :: string
  mf_blocks :: "machine_block list"
  mf_next_vreg :: "32 word"
  mf_allocatable_pregs :: "preg list"
  mf_allocatable_fp_pregs :: "preg list"
  mf_callee_saved_pregs :: "preg list"
  mf_frame_size :: "32 word"
  mf_spill_slots :: "vreg \<rightharpoonup> 32 word"
  mf_used_callee_saved :: "preg list"
  mf_next_slot :: "32 word"
  mf_debug_source :: "string option"
  mf_debug_line_start :: "32 word option"
  mf_current_debug_loc :: "debug_loc option"
  mf_alloca_frame_bytes :: "32 word"
  mf_next_alloca_slot :: "32 word"
  mf_lsda_call_sites :: "call_site_record list"
  mf_invoke_tracking :: "(nat \<times> nat \<times> nat \<times> nat) list"

definition mf_new :: "string \<Rightarrow> machine_function" where
  "mf_new n =
     \<lparr>mf_name = n, mf_blocks = [], mf_next_vreg = 0, mf_allocatable_pregs = [],
      mf_allocatable_fp_pregs = [], mf_callee_saved_pregs = [], mf_frame_size = 0,
      mf_spill_slots = Map.empty, mf_used_callee_saved = [], mf_next_slot = 0,
      mf_debug_source = None, mf_debug_line_start = None, mf_current_debug_loc = None,
      mf_alloca_frame_bytes = 0, mf_next_alloca_slot = 0, mf_lsda_call_sites = [], mf_invoke_tracking = []\<rparr>"

definition inc_u32 :: "32 word \<Rightarrow> 32 word rust" where
  \<comment> \<open>\<open>x += 1\<close> in the checked build\<close>
  "inc_u32 x = (if x = -1 then None else Some (x + 1))"

definition fresh_vreg :: "machine_function \<Rightarrow> (machine_function \<times> vreg) rust" where
  "fresh_vreg mf =
     do { n \<leftarrow> inc_u32 (mf_next_vreg mf);
          v \<leftarrow> vreg_new_int (mf_next_vreg mf);
          Some (mf\<lparr>mf_next_vreg := n\<rparr>, v) }"

definition fresh_float_vreg :: "machine_function \<Rightarrow> (machine_function \<times> vreg) rust" where
  "fresh_float_vreg mf =
     do { n \<leftarrow> inc_u32 (mf_next_vreg mf);
          v \<leftarrow> vreg_new_float (mf_next_vreg mf);
          Some (mf\<lparr>mf_next_vreg := n\<rparr>, v) }"

definition mul_u32 :: "32 word \<Rightarrow> 32 word \<Rightarrow> 32 word rust" where
  "mul_u32 x y = (if unat x * unat y < 2 ^ 32 then Some (x * y) else None)"

definition add_u32 :: "32 word \<Rightarrow> 32 word \<Rightarrow> 32 word rust" where
  "add_u32 x y = (if unat x + unat y < 2 ^ 32 then Some (x + y) else None)"

definition alloc_spill_slot :: "machine_function \<Rightarrow> vreg \<Rightarrow> (machine_function \<times> 32 word) rust" where
  "alloc_spill_slot mf v =
     (case mf_spill_slots mf v of
        Some existing \<Rightarrow> Some (mf, existing)
      | None \<Rightarrow>
          do { let slot = mf_next_slot mf;
               next \<leftarrow> inc_u32 slot;
               size \<leftarrow> mul_u32 next 8;
               Some (mf\<lparr>mf_next_slot := next, mf_spill_slots := (mf_spill_slots mf)(v \<mapsto> slot),
                        mf_frame_size := size\<rparr>, slot) })"

definition alloc_alloca_slot :: "machine_function \<Rightarrow> 32 word \<Rightarrow> (machine_function \<times> 32 word) rust" where
  \<comment> \<open>the alignment argument is unused\<close>
  "alloc_alloca_slot mf size_bytes =
     do { let slot = mf_next_alloca_slot mf;
          next \<leftarrow> inc_u32 slot;
          padded \<leftarrow> add_u32 (max size_bytes 8) 7;
          total \<leftarrow> add_u32 (mf_alloca_frame_bytes mf) (padded AND NOT 7);
          Some (mf\<lparr>mf_next_alloca_slot := next, mf_alloca_frame_bytes := total\<rparr>, slot) }"

definition mf_add_block :: "machine_function \<Rightarrow> string \<Rightarrow> machine_function \<times> nat" where
  "mf_add_block mf l =
     (mf\<lparr>mf_blocks := mf_blocks mf @ [\<lparr>mb_label = l, mb_instrs = []\<rparr>]\<rparr>, length (mf_blocks mf))"

definition mf_push :: "machine_function \<Rightarrow> nat \<Rightarrow> minstr \<Rightarrow> machine_function rust" where
  "mf_push mf b mi =
     do { let mi = (if mi_debug_loc mi = None then mi\<lparr>mi_debug_loc := mf_current_debug_loc mf\<rparr> else mi);
          blk \<leftarrow> vec_get (mf_blocks mf) b;
          Some (mf\<lparr>mf_blocks := (mf_blocks mf)[b := blk\<lparr>mb_instrs := mb_instrs blk @ [mi]\<rparr>]\<rparr>) }"

section \<open>Lemmas\<close>

lemma class_bit_eq: "class_bit = push_bit 31 1"
  by (simp add: class_bit_def push_bit_eq_mult)

lemma bit_class_bit: "bit class_bit n \<longleftrightarrow> n = 31"
  unfolding class_bit_eq bit_push_bit_iff bit_1_iff by auto

lemma and_class_bit: "v AND class_bit = 0 \<longleftrightarrow> \<not> bit v 31"
  unfolding class_bit_eq using bit_iff_and_push_bit_not_eq_0 [of v 31] by blast

lemma vreg_class_bit: "vreg_class v = (if bit v 31 then RegFloat else RegInt)"
  by (simp add: vreg_class_def and_class_bit)

lemma vreg_new_int_SomeD: "vreg_new_int i = Some v \<Longrightarrow> vreg_class v = RegInt \<and> vreg_id v = i"
proof -
  assume "vreg_new_int i = Some v"
  then have v: "v = i" "\<not> bit i 31" by (simp_all add: vreg_new_int_def and_class_bit split: if_splits)
  have "i AND NOT class_bit = i"
    by (rule bit_word_eqI) (use v(2) in \<open>auto simp: bit_simps bit_class_bit\<close>)
  then show ?thesis using v by (simp add: vreg_class_bit vreg_id_def)
qed

lemma vreg_new_float_SomeD: "vreg_new_float i = Some v \<Longrightarrow> vreg_class v = RegFloat \<and> vreg_id v = i"
proof -
  assume "vreg_new_float i = Some v"
  then have v: "v = i OR class_bit" "\<not> bit i 31"
    by (simp_all add: vreg_new_float_def and_class_bit split: if_splits)
  have "(i OR class_bit) AND NOT class_bit = i"
    by (rule bit_word_eqI) (use v(2) in \<open>auto simp: bit_simps bit_class_bit\<close>)
  then show ?thesis using v by (simp add: vreg_class_bit vreg_id_def bit_simps bit_class_bit)
qed

lemma mul_u32_unat: "mul_u32 x y = Some z \<Longrightarrow> unat z = unat x * unat y"
  using unat_mult_lem [of x y] by (auto simp: mul_u32_def split: if_splits)

lemma add_u32_unat: "add_u32 x y = Some z \<Longrightarrow> unat z = unat x + unat y"
  using unat_add_lem [of x y] by (auto simp: add_u32_def split: if_splits)

lemma inc_u32_unat: "inc_u32 x = Some z \<Longrightarrow> unat z = unat x + 1"
proof -
  assume "inc_u32 x = Some z"
  then have z: "x \<noteq> -1" "z = x + 1" by (auto simp: inc_u32_def split: if_splits)
  then have "1 + x \<noteq> 0" by (metis add.commute eq_neg_iff_add_eq_0)
  then show ?thesis using unatSuc [of x] z by (simp add: add.commute)
qed

text \<open>Slots: the spilled registers own the slots below the counter, one each, and the frame holds them.\<close>

definition wf_slots :: "machine_function \<Rightarrow> bool" where
  "wf_slots mf \<longleftrightarrow>
     (\<forall>v s. mf_spill_slots mf v = Some s \<longrightarrow> s < mf_next_slot mf) \<and>
     inj_on (mf_spill_slots mf) (dom (mf_spill_slots mf)) \<and>
     unat (mf_frame_size mf) = 8 * unat (mf_next_slot mf)"

lemma mf_new_slots: "wf_slots (mf_new n)"
  by (simp add: wf_slots_def mf_new_def)

lemma alloc_spill_slot_wf:
  assumes "wf_slots mf" "alloc_spill_slot mf v = Some (mf', s)"
  shows "wf_slots mf' \<and> mf_spill_slots mf' v = Some s \<and>
    (\<forall>u. u \<noteq> v \<longrightarrow> mf_spill_slots mf' u = mf_spill_slots mf u)"
proof (cases "mf_spill_slots mf v")
  case (Some e)
  then show ?thesis using assms by (simp add: alloc_spill_slot_def)
next
  case None
  let ?n = "mf_next_slot mf"
  obtain nxt size where n: "inc_u32 ?n = Some nxt" "mul_u32 nxt 8 = Some size" "s = ?n"
    and mf': "mf' = mf\<lparr>mf_next_slot := nxt, mf_spill_slots := (mf_spill_slots mf)(v \<mapsto> ?n), mf_frame_size := size\<rparr>"
    using assms(2) None by (auto simp: alloc_spill_slot_def Let_def split: bind_splits)
  have lt: "?n < nxt" using inc_u32_unat [OF n(1)] by (simp add: word_less_nat_alt)
  have "unat size = 8 * unat nxt" using mul_u32_unat [OF n(2)] by simp
  moreover have "inj_on ((mf_spill_slots mf)(v \<mapsto> ?n)) (insert v (dom (mf_spill_slots mf)))"
  proof -
    have "mf_spill_slots mf u \<noteq> Some ?n" for u using assms(1) unfolding wf_slots_def by fastforce
    then show ?thesis using assms(1) unfolding wf_slots_def inj_on_def fun_upd_def by (metis domIff insertE)
  qed
  ultimately show ?thesis
    using assms(1) lt n(3) by (auto simp: wf_slots_def mf' intro: less_trans)
qed

end
