(* ===== verification/Codegen_Linear_Scan.thy ===== *)
theory Codegen_Linear_Scan
  imports Codegen_MIR "HOL-Library.Product_Lexorder" "HOL-Library.Multiset"
begin

text \<open>
  Linear-scan register allocation (\<open>llvm-codegen/src/regalloc.rs\<close>): live intervals, the allocator
  interface, the scan of Poletto and Sarkar, and the two-pool driver \<open>allocate_registers\<close>.
\<close>

section \<open>Intervals and results\<close>

record live_interval =
  iv_vreg :: vreg
  iv_start :: nat
  iv_end :: nat

record alloc_result =
  vreg_to_preg :: "vreg \<rightharpoonup> preg"
  spilled :: "vreg list"

definition default_result :: alloc_result where
  "default_result = \<lparr>vreg_to_preg = Map.empty, spilled = []\<rparr>"

definition iv_key :: "live_interval \<Rightarrow> nat \<times> nat \<times> vreg" where
  \<comment> \<open>the sort key \<open>(i.start, i.end, i.vreg.0)\<close>\<close>
  "iv_key i = (iv_start i, iv_end i, iv_vreg i)"

definition iv_overlap :: "live_interval \<Rightarrow> live_interval \<Rightarrow> bool" where
  \<comment> \<open>half-open intervals that share a point\<close>
  "iv_overlap a b \<longleftrightarrow> iv_start a < iv_end b \<and> iv_start b < iv_end a"

section \<open>The scan\<close>

type_synonym active_set = "(nat \<times> vreg \<times> preg) list"

record scan_state =
  sc_free :: "preg list"
  sc_active :: active_set
  sc_result :: alloc_result

definition partition_point :: "('a \<Rightarrow> bool) \<Rightarrow> 'a list \<Rightarrow> nat" where
  \<comment> \<open>\<open>slice::partition_point\<close> on a partitioned slice: the length of the prefix where \<open>P\<close> holds\<close>
  "partition_point P xs = length (takeWhile P xs)"

definition vec_insert :: "nat \<Rightarrow> 'a \<Rightarrow> 'a list \<Rightarrow> 'a list" where
  \<comment> \<open>\<open>Vec::insert\<close>, at an index not above the length\<close>
  "vec_insert i x xs = take i xs @ x # drop i xs"

definition active_insert :: "active_set \<Rightarrow> live_interval \<Rightarrow> preg \<Rightarrow> active_set" where
  "active_insert active iv pr =
     vec_insert (partition_point (\<lambda>(e, vr, _). (e, vr) \<le> (iv_end iv, iv_vreg iv)) active)
       (iv_end iv, iv_vreg iv, pr) active"

definition scan_expire :: "nat \<Rightarrow> scan_state \<Rightarrow> scan_state" where
  \<comment> \<open>return the registers of the intervals that ended by \<open>start\<close>\<close>
  "scan_expire start s =
     s\<lparr>sc_active := filter (\<lambda>(e, _, _). \<not> e \<le> start) (sc_active s),
       sc_free := sc_free s @ map (\<lambda>(_, _, pr). pr) (filter (\<lambda>(e, _, _). e \<le> start) (sc_active s))\<rparr>"

definition scan_assign :: "live_interval \<Rightarrow> scan_state \<Rightarrow> scan_state" where
  \<comment> \<open>one iteration after the expiry\<close>
  "scan_assign iv s =
     (case sc_free s of
        [] \<Rightarrow>
          (if sc_active s = [] then
             s\<lparr>sc_result := (sc_result s)\<lparr>spilled := spilled (sc_result s) @ [iv_vreg iv]\<rparr>\<rparr>
           else
             (case last (sc_active s) of
                (spill_end, spill_vr, spill_pr) \<Rightarrow>
                  if spill_end > iv_end iv then
                    s\<lparr>sc_active := active_insert (butlast (sc_active s)) iv spill_pr,
                      sc_result := \<lparr>vreg_to_preg = (vreg_to_preg (sc_result s))
                                      (spill_vr := None, iv_vreg iv \<mapsto> spill_pr),
                                    spilled = spilled (sc_result s) @ [spill_vr]\<rparr>\<rparr>
                  else
                    s\<lparr>sc_result := (sc_result s)\<lparr>spilled := spilled (sc_result s) @ [iv_vreg iv]\<rparr>\<rparr>))
      | pr # free' \<Rightarrow>
          s\<lparr>sc_free := free',
            sc_active := active_insert (sc_active s) iv pr,
            sc_result := (sc_result s)\<lparr>vreg_to_preg := (vreg_to_preg (sc_result s))(iv_vreg iv \<mapsto> pr)\<rparr>\<rparr>)"

definition scan_step :: "scan_state \<Rightarrow> live_interval \<Rightarrow> scan_state" where
  "scan_step s iv = scan_assign iv (scan_expire (iv_start iv) s)"

definition linear_scan :: "live_interval list \<Rightarrow> preg list \<Rightarrow> alloc_result" where
  "linear_scan intervals allocatable =
     (if allocatable = [] then \<lparr>vreg_to_preg = Map.empty, spilled = map iv_vreg intervals\<rparr>
      else sc_result (foldl scan_step
             \<lparr>sc_free = allocatable, sc_active = [], sc_result = default_result\<rparr>
             (sort_key iv_key intervals)))"

section \<open>What an allocator promises\<close>

definition valid_alloc :: "live_interval list \<Rightarrow> preg list \<Rightarrow> alloc_result \<Rightarrow> bool" where
  \<comment> \<open>every register of the intervals is assigned a pool register or spilled, not both; nothing else
    is; intervals that overlap get different registers\<close>
  "valid_alloc ivs pool r \<longleftrightarrow>
     (\<forall>v p. vreg_to_preg r v = Some p \<longrightarrow> p \<in> set pool) \<and>
     distinct (spilled r) \<and> dom (vreg_to_preg r) \<inter> set (spilled r) = {} \<and>
     dom (vreg_to_preg r) \<union> set (spilled r) = iv_vreg ` set ivs \<and>
     (\<forall>a\<in>set ivs. \<forall>b\<in>set ivs. \<forall>p. iv_vreg a \<noteq> iv_vreg b \<longrightarrow> iv_overlap a b \<longrightarrow>
        vreg_to_preg r (iv_vreg a) = Some p \<longrightarrow> vreg_to_preg r (iv_vreg b) \<noteq> Some p)"

section \<open>The invariant of the scan\<close>

definition active_regs :: "active_set \<Rightarrow> preg list" where
  "active_regs = map (\<lambda>(_, _, pr). pr)"

definition active_ok :: "active_set \<Rightarrow> live_interval list \<Rightarrow> alloc_result \<Rightarrow> bool" where
  \<comment> \<open>active entries are assigned intervals with their end\<close>
  "active_ok act ivs r \<longleftrightarrow>
     (\<forall>(e, v, p)\<in>set act. vreg_to_preg r v = Some p \<and> (\<exists>i\<in>set ivs. iv_vreg i = v \<and> iv_end i = e))"

definition scan_inv :: "preg list \<Rightarrow> live_interval list \<Rightarrow> nat \<Rightarrow> scan_state \<Rightarrow> bool" where
  \<comment> \<open>after the intervals \<open>ivs\<close>; every assigned one that ends after \<open>at\<close> is active\<close>
  "scan_inv pool ivs at s \<longleftrightarrow>
     mset (sc_free s) + mset (active_regs (sc_active s)) = mset pool \<and>
     active_ok (sc_active s) ivs (sc_result s) \<and>
     (\<forall>i\<in>set ivs. \<forall>p. vreg_to_preg (sc_result s) (iv_vreg i) = Some p \<longrightarrow> at < iv_end i \<longrightarrow>
        (iv_end i, iv_vreg i, p) \<in> set (sc_active s)) \<and>
     valid_alloc ivs pool (sc_result s)"

lemma active_okD:
  assumes "active_ok act ivs r" "(e, v, p) \<in> set act"
  shows "vreg_to_preg r v = Some p" "v \<in> iv_vreg ` set ivs" "\<exists>i\<in>set ivs. iv_vreg i = v \<and> iv_end i = e"
  using assms by (auto simp: active_ok_def)

lemma active_okI:
  assumes "\<And>e v p. (e, v, p) \<in> set act \<Longrightarrow> vreg_to_preg r v = Some p"
    "\<And>e v p. (e, v, p) \<in> set act \<Longrightarrow> \<exists>i\<in>set ivs. iv_vreg i = v \<and> iv_end i = e"
  shows "active_ok act ivs r"
  using assms by (auto simp: active_ok_def)

lemma set_vec_insert [simp]: "set (vec_insert i x xs) = insert x (set xs)"
proof -
  have "set xs = set (take i xs) \<union> set (drop i xs)" by (metis append_take_drop_id set_append)
  then show ?thesis by (auto simp: vec_insert_def)
qed

lemma mset_vec_insert [simp]: "mset (vec_insert i x xs) = add_mset x (mset xs)"
proof -
  have "mset xs = mset (take i xs) + mset (drop i xs)" by (metis append_take_drop_id mset_append)
  then show ?thesis by (simp add: vec_insert_def)
qed

lemma set_active_insert [simp]: "set (active_insert act iv p) = insert (iv_end iv, iv_vreg iv, p) (set act)"
  by (simp add: active_insert_def)

lemma mset_active_insert:
  "mset (active_regs (active_insert act iv p)) = add_mset p (mset (active_regs act))"
  by (simp add: active_regs_def active_insert_def)

lemma scan_expire_inv:
  assumes "scan_inv pool ivs at s" "at \<le> start"
  shows "scan_inv pool ivs start (scan_expire start s)"
proof -
  let ?f = "\<lambda>(e, _, _). e \<le> start" and ?g = "\<lambda>(e, _, _). \<not> e \<le> start"
  have m: "mset (active_regs (filter ?f act)) + mset (active_regs (filter ?g act)) = mset (active_regs act)" for act
    by (induction act) (auto simp: active_regs_def)
  have "mset (sc_free (scan_expire start s)) + mset (active_regs (sc_active (scan_expire start s))) = mset pool"
    using assms(1) m [of "sc_active s"] by (simp add: scan_expire_def scan_inv_def active_regs_def add.assoc)
  moreover have "active_ok (sc_active (scan_expire start s)) ivs (sc_result s)"
    using assms(1) by (auto simp: scan_inv_def active_ok_def scan_expire_def)
  ultimately show ?thesis using assms by (auto simp: scan_inv_def scan_expire_def)
qed

lemma scan_inv_regs:
  assumes "scan_inv pool ivs at s" "distinct pool"
  shows "distinct (sc_free s)" "distinct (active_regs (sc_active s))"
    "set (sc_free s) \<inter> set (active_regs (sc_active s)) = {}"
    "set (sc_free s) \<union> set (active_regs (sc_active s)) = set pool"
proof -
  have m: "mset (sc_free s @ active_regs (sc_active s)) = mset pool" using assms(1) by (simp add: scan_inv_def)
  then have "distinct (sc_free s @ active_regs (sc_active s))" using assms(2) mset_eq_imp_distinct_iff by blast
  then show "distinct (sc_free s)" "distinct (active_regs (sc_active s))"
    "set (sc_free s) \<inter> set (active_regs (sc_active s)) = {}" by simp_all
  show "set (sc_free s) \<union> set (active_regs (sc_active s)) = set pool"
    using mset_eq_setD [OF m] by simp
qed

lemma active_regs_mem: "(e, v, p) \<in> set act \<Longrightarrow> p \<in> set (active_regs act)"
  by (force simp: active_regs_def)

lemma scan_inv_active:
  assumes "scan_inv pool ivs at s" "i \<in> set ivs" "vreg_to_preg (sc_result s) (iv_vreg i) = Some p" "at < iv_end i"
  shows "(iv_end i, iv_vreg i, p) \<in> set (sc_active s)"
  using assms unfolding scan_inv_def by blast

lemma valid_allocD:
  assumes "valid_alloc ivs pool r"
  shows "\<And>v p. vreg_to_preg r v = Some p \<Longrightarrow> p \<in> set pool" "distinct (spilled r)"
    "dom (vreg_to_preg r) \<inter> set (spilled r) = {}"
    "dom (vreg_to_preg r) \<union> set (spilled r) = iv_vreg ` set ivs"
    "\<And>a b p. a \<in> set ivs \<Longrightarrow> b \<in> set ivs \<Longrightarrow> iv_vreg a \<noteq> iv_vreg b \<Longrightarrow> iv_overlap a b \<Longrightarrow>
       vreg_to_preg r (iv_vreg a) = Some p \<Longrightarrow> vreg_to_preg r (iv_vreg b) \<noteq> Some p"
  using assms unfolding valid_alloc_def by blast+

lemma valid_alloc_spill_new:
  assumes "valid_alloc ivs pool r" "iv_vreg iv \<notin> iv_vreg ` set ivs"
  shows "valid_alloc (ivs @ [iv]) pool (r\<lparr>spilled := spilled r @ [iv_vreg iv]\<rparr>)"
proof -
  have n: "vreg_to_preg r (iv_vreg iv) = None" "iv_vreg iv \<notin> set (spilled r)"
    using valid_allocD(4) [OF assms(1)] assms(2) by (blast, blast)
  then show ?thesis using assms(1) unfolding valid_alloc_def by auto
qed

lemma valid_alloc_assign:
  assumes v: "valid_alloc ivs pool r" "iv_vreg iv \<notin> iv_vreg ` set ivs" and pr: "pr \<in> set pool"
    and free: "\<And>j. j \<in> set ivs \<Longrightarrow> iv_overlap iv j \<Longrightarrow> vreg_to_preg r (iv_vreg j) \<noteq> Some pr"
  shows "valid_alloc (ivs @ [iv]) pool (r\<lparr>vreg_to_preg := (vreg_to_preg r)(iv_vreg iv \<mapsto> pr)\<rparr>)"
proof -
  let ?m = "(vreg_to_preg r)(iv_vreg iv \<mapsto> pr)"
  have n: "iv_vreg iv \<notin> set (spilled r)" using valid_allocD(4) [OF v(1)] v(2) by blast
  have old: "iv_vreg j \<noteq> iv_vreg iv" if "j \<in> set ivs" for j using v(2) that by (metis imageI)
  have sym: "iv_overlap a b \<longleftrightarrow> iv_overlap b a" for a b by (auto simp: iv_overlap_def)
  have "?m (iv_vreg b) \<noteq> Some p"
    if ab: "a \<in> set (ivs @ [iv])" "b \<in> set (ivs @ [iv])" "iv_vreg a \<noteq> iv_vreg b" "iv_overlap a b"
      "?m (iv_vreg a) = Some p" for a b p
  proof -
    consider "a \<in> set ivs" "b \<in> set ivs" | "a = iv" "b \<in> set ivs" | "b = iv" "a \<in> set ivs"
      using ab(1-3) by auto
    then show ?thesis
    proof cases
      case 1
      then show ?thesis using valid_allocD(5) [OF v(1) 1 ab(3,4)] ab(5) old by auto
    next
      case 2
      then show ?thesis using free [of b] ab(4,5) old by auto
    next
      case 3
      then show ?thesis using free [of a] ab(4,5) old sym by auto
    qed
  qed
  moreover have "\<forall>v p. ?m v = Some p \<longrightarrow> p \<in> set pool" using valid_allocD(1) [OF v(1)] pr by auto
  ultimately show ?thesis
    using valid_allocD(2-4) [OF v(1)] n unfolding valid_alloc_def by auto
qed

lemma valid_alloc_revoke:
  assumes v: "valid_alloc ivs pool r" and u: "vreg_to_preg r u \<noteq> None"
  shows "valid_alloc ivs pool \<lparr>vreg_to_preg = (vreg_to_preg r)(u := None), spilled = spilled r @ [u]\<rparr>"
proof -
  have "u \<notin> set (spilled r)" "u \<in> dom (vreg_to_preg r)" using valid_allocD(3) [OF v] u by auto
  then show ?thesis using v unfolding valid_alloc_def by (auto split: if_splits)
qed

lemma scan_assign_inv:
  assumes inv: "scan_inv pool ivs (iv_start iv) s" and pool: "distinct pool"
    and new: "iv_vreg iv \<notin> iv_vreg ` set ivs"
  shows "scan_inv pool (ivs @ [iv]) (iv_start iv) (scan_assign iv s)"
proof -
  let ?r = "sc_result s" and ?act = "sc_active s"
  note R = scan_inv_regs [OF inv pool]
  have m: "mset (sc_free s) + mset (active_regs ?act) = mset pool"
    and ok: "active_ok ?act ivs ?r" and v: "valid_alloc ivs pool ?r"
    using inv by (auto simp: scan_inv_def)
  have new': "vreg_to_preg ?r (iv_vreg iv) = None" using valid_allocD(4) [OF v] new by blast
  have old: "iv_vreg j \<noteq> iv_vreg iv" if "j \<in> set ivs" for j using new that by (metis imageI)
  have A: "(iv_end j, iv_vreg j, p) \<in> set ?act"
    if "j \<in> set ivs" "vreg_to_preg ?r (iv_vreg j) = Some p" "iv_start iv < iv_end j" for j p
    using scan_inv_active [OF inv that] .
  have spill: "scan_inv pool (ivs @ [iv]) (iv_start iv) (s\<lparr>sc_result := ?r\<lparr>spilled := spilled ?r @ [iv_vreg iv]\<rparr>\<rparr>)"
    using m ok A new' valid_alloc_spill_new [OF v new] unfolding scan_inv_def active_ok_def by fastforce
  show ?thesis
  proof (cases "sc_free s")
    case (Cons pr free')
    have pr: "pr \<in> set pool" "pr \<notin> set (active_regs ?act)" using R(3,4) Cons by auto
    have "vreg_to_preg ?r (iv_vreg j) \<noteq> Some pr" if "j \<in> set ivs" "iv_overlap iv j" for j
      using A [of j pr] that pr(2) active_regs_mem by (auto simp: iv_overlap_def)
    then have "valid_alloc (ivs @ [iv]) pool (?r\<lparr>vreg_to_preg := (vreg_to_preg ?r)(iv_vreg iv \<mapsto> pr)\<rparr>)"
      by (intro valid_alloc_assign [OF v new pr(1)])
    moreover have "active_ok (active_insert ?act iv pr) (ivs @ [iv]) (?r\<lparr>vreg_to_preg := (vreg_to_preg ?r)(iv_vreg iv \<mapsto> pr)\<rparr>)"
      using ok old by (fastforce simp: active_ok_def)
    moreover have "mset free' + mset (active_regs (active_insert ?act iv pr)) = mset pool"
      using m Cons by (simp add: mset_active_insert)
    ultimately show ?thesis
      using A old Cons by (auto simp: scan_inv_def scan_assign_def)
  next
    case Nil
    show ?thesis
    proof (cases "?act = []")
      case True
      then show ?thesis using spill Nil by (simp add: scan_assign_def)
    next
      case False
      obtain e u q where l: "last ?act = (e, u, q)" by (cases "last ?act")
      show ?thesis
      proof (cases "e > iv_end iv")
        case False
        then show ?thesis using spill Nil \<open>?act \<noteq> []\<close> l by (simp add: scan_assign_def)
      next
        case True
        let ?b = "butlast ?act"
        have act: "?act = ?b @ [(e, u, q)]" using append_butlast_last_id [OF False] l by simp
        have "(e, u, q) \<in> set ?act" by (subst act) simp
        then have uq: "vreg_to_preg ?r u = Some q" and ui: "u \<in> iv_vreg ` set ivs"
          using active_okD [OF ok] by blast+
        have "active_regs ?act = active_regs ?b @ [q]" by (subst act) (simp add: active_regs_def)
        then have regs: "q \<notin> set (active_regs ?b)" and qact: "q \<in> set (active_regs ?act)" using R(2) by simp_all
        have bu: "v' \<noteq> u" if "(e', v', p') \<in> set ?b" for e' v' p'
        proof
          assume "v' = u"
          have "(e', v', p') \<in> set ?act" using that by (rule in_set_butlastD)
          then have "vreg_to_preg ?r v' = Some p'" using active_okD [OF ok] by blast
          then have "p' = q" using uq \<open>v' = u\<close> by simp
          then show False using regs active_regs_mem that by blast
        qed
        let ?r1 = "\<lparr>vreg_to_preg = (vreg_to_preg ?r)(u := None), spilled = spilled ?r @ [u]\<rparr>"
        let ?r2 = "\<lparr>vreg_to_preg = (vreg_to_preg ?r)(u := None, iv_vreg iv \<mapsto> q), spilled = spilled ?r @ [u]\<rparr>"
        have v1: "valid_alloc ivs pool ?r1" by (rule valid_alloc_revoke [OF v]) (simp add: uq)
        have inb: "(iv_end j, iv_vreg j, p) \<in> set ?b"
          if "j \<in> set ivs" "iv_vreg j \<noteq> u" "vreg_to_preg ?r (iv_vreg j) = Some p" "iv_start iv < iv_end j" for j p
        proof -
          have "(iv_end j, iv_vreg j, p) \<in> set (?b @ [(e, u, q)])" using A [OF that(1,3,4)] act by simp
          then show ?thesis using that(2) by auto
        qed
        have "vreg_to_preg ?r1 (iv_vreg j) \<noteq> Some q" if "j \<in> set ivs" "iv_overlap iv j" for j
          using inb [OF that(1)] that(2) regs active_regs_mem by (auto simp: iv_overlap_def)
        moreover have "q \<in> set pool" using R(4) qact by blast
        ultimately have "valid_alloc (ivs @ [iv]) pool ?r2"
          using valid_alloc_assign [OF v1 new] by simp
        moreover have "active_ok (active_insert ?b iv q) (ivs @ [iv]) ?r2"
        proof -
          have b: "vreg_to_preg ?r v' = Some p'" "\<exists>i\<in>set ivs. iv_vreg i = v' \<and> iv_end i = e'"
            if "(e', v', p') \<in> set ?b" for e' v' p'
            using active_okD(1,3) [OF ok in_set_butlastD [OF that]] by blast+
          show ?thesis
          proof (rule active_okI)
            fix e' v' p'
            assume "(e', v', p') \<in> set (active_insert ?b iv q)"
            then consider "e' = iv_end iv" "v' = iv_vreg iv" "p' = q" | "(e', v', p') \<in> set ?b" by auto
            note c = this
            show "\<exists>i\<in>set (ivs @ [iv]). iv_vreg i = v' \<and> iv_end i = e'"
              using c by cases (use b(2) in auto)
            show "vreg_to_preg ?r2 v' = Some p'"
              using c
            proof cases
              case 2
              then have "v' \<noteq> iv_vreg iv" using b(2) [OF 2] old by metis
              then show ?thesis using b(1) [OF 2] bu [OF 2] by simp
            qed simp
          qed
        qed
        moreover have "mset (active_regs (active_insert ?b iv q)) = mset pool"
        proof -
          have "mset (active_regs ?act) = add_mset q (mset (active_regs ?b))"
            by (subst act) (simp add: active_regs_def)
          then show ?thesis using m Nil by (simp add: mset_active_insert)
        qed
        ultimately show ?thesis
          using inb old ui True Nil False l by (auto simp: scan_inv_def scan_assign_def)
      qed
    qed
  qed
qed

section \<open>The whole scan\<close>

lemma scan_step_inv:
  assumes "scan_inv pool ivs at s" "at \<le> iv_start iv" "distinct pool" "iv_vreg iv \<notin> iv_vreg ` set ivs"
  shows "scan_inv pool (ivs @ [iv]) (iv_start iv) (scan_step s iv)"
  using scan_assign_inv [OF scan_expire_inv [OF assms(1,2)] assms(3,4)] by (simp add: scan_step_def)

lemma scan_foldl_inv:
  assumes "scan_inv pool ivs at s" "distinct pool" "sorted (at # map iv_start xs)"
    "distinct (map iv_vreg (ivs @ xs))"
  shows "\<exists>at'. scan_inv pool (ivs @ xs) at' (foldl scan_step s xs)"
  using assms
proof (induction xs arbitrary: ivs at s)
  case (Cons x xs)
  have "scan_inv pool (ivs @ [x]) (iv_start x) (scan_step s x)"
    using Cons.prems by (intro scan_step_inv) auto
  then have "\<exists>at'. scan_inv pool ((ivs @ [x]) @ xs) at' (foldl scan_step (scan_step s x) xs)"
    by (rule Cons.IH) (use Cons.prems in auto)
  then show ?case by simp
qed auto

lemma sorted_iv_start: "sorted (map iv_start (sort_key iv_key ivs))"
proof -
  have "sorted (map iv_key xs) \<Longrightarrow> sorted (map iv_start xs)" for xs
    by (induction xs) (auto simp: iv_key_def less_eq_prod_def)
  then show ?thesis by simp
qed

lemma scan_init_inv:
  "scan_inv pool [] 0 \<lparr>sc_free = pool, sc_active = [], sc_result = default_result\<rparr>"
  by (simp add: scan_inv_def active_ok_def valid_alloc_def active_regs_def default_result_def)

lemma valid_alloc_set: "set ivs = set ivs' \<Longrightarrow> valid_alloc ivs pool r = valid_alloc ivs' pool r"
  by (simp add: valid_alloc_def)

lemma linear_scan_valid:
  assumes "distinct (map iv_vreg ivs)" "distinct pool"
  shows "valid_alloc ivs pool (linear_scan ivs pool)"
proof (cases "pool = []")
  case True
  then show ?thesis using assms(1) by (auto simp: linear_scan_def valid_alloc_def)
next
  case False
  let ?xs = "sort_key iv_key ivs"
  have "distinct (map iv_vreg ?xs)"
    using assms(1) by (metis distinct_map distinct_sort set_sort)
  moreover have "sorted (0 # map iv_start ?xs)" using sorted_iv_start by simp
  ultimately obtain at where
    "scan_inv pool ?xs at (foldl scan_step \<lparr>sc_free = pool, sc_active = [], sc_result = default_result\<rparr> ?xs)"
    using scan_foldl_inv [OF scan_init_inv assms(2), of ?xs] by auto
  then have "valid_alloc ?xs pool (linear_scan ivs pool)" using False by (simp add: linear_scan_def scan_inv_def)
  then show ?thesis using valid_alloc_set [of ?xs ivs] by simp
qed

section \<open>No spills without pressure\<close>

definition pressure :: "live_interval list \<Rightarrow> nat \<Rightarrow> nat" where
  \<comment> \<open>the number of intervals live at a point\<close>
  "pressure ivs t = card {i \<in> set ivs. iv_start i \<le> t \<and> t < iv_end i}"

lemma active_pressure:
  assumes inv: "scan_inv pool ivs at s" and pool: "distinct pool"
    and live: "\<forall>(e, v, p)\<in>set (sc_active s). at < e" and started: "\<forall>i\<in>set ivs. iv_start i \<le> at"
  shows "length (sc_active s) \<le> pressure ivs at"
proof -
  let ?L = "{i \<in> set ivs. iv_start i \<le> at \<and> at < iv_end i}"
  note R = scan_inv_regs [OF inv pool]
  have ok: "active_ok (sc_active s) ivs (sc_result s)" using inv by (simp add: scan_inv_def)
  have "set (active_regs (sc_active s)) \<subseteq> (\<lambda>i. the (vreg_to_preg (sc_result s) (iv_vreg i))) ` ?L"
  proof
    fix p assume "p \<in> set (active_regs (sc_active s))"
    then obtain e v where a: "(e, v, p) \<in> set (sc_active s)" by (auto simp: active_regs_def)
    then obtain i where i: "i \<in> set ivs" "iv_vreg i = v" "iv_end i = e" using active_okD(3) [OF ok] by blast
    then have "i \<in> ?L" using live started a by auto
    moreover have "p = the (vreg_to_preg (sc_result s) (iv_vreg i))" using active_okD(1) [OF ok a] i(2) by simp
    ultimately show "p \<in> (\<lambda>i. the (vreg_to_preg (sc_result s) (iv_vreg i))) ` ?L" by blast
  qed
  then have "card (set (active_regs (sc_active s))) \<le> card ?L"
    by (intro surj_card_le) simp_all
  then show ?thesis using distinct_card [OF R(2)] by (simp add: pressure_def active_regs_def)
qed

lemma pressure_append: "iv \<notin> set ivs \<Longrightarrow> iv_start iv \<le> t \<Longrightarrow> t < iv_end iv \<Longrightarrow>
    pressure (ivs @ [iv]) t = Suc (pressure ivs t)"
proof -
  assume a: "iv \<notin> set ivs" "iv_start iv \<le> t" "t < iv_end iv"
  have "{i \<in> set (ivs @ [iv]). iv_start i \<le> t \<and> t < iv_end i} =
      insert iv {i \<in> set ivs. iv_start i \<le> t \<and> t < iv_end i}" using a by auto
  then show ?thesis using a(1) by (simp add: pressure_def)
qed

lemma pressure_mono: "set ivs \<subseteq> set ivs' \<Longrightarrow> pressure ivs t \<le> pressure ivs' t"
  unfolding pressure_def by (intro card_mono) auto

lemma scan_step_no_spill:
  assumes inv: "scan_inv pool ivs at s" "at \<le> iv_start iv" and pool: "distinct pool"
    and started: "\<forall>i\<in>set ivs. iv_start i \<le> iv_start iv" and new: "iv \<notin> set ivs" "iv_start iv < iv_end iv"
    and low: "pressure (ivs @ [iv]) (iv_start iv) \<le> length pool"
  shows "spilled (sc_result (scan_step s iv)) = spilled (sc_result s)"
proof -
  let ?s = "scan_expire (iv_start iv) s"
  have inv': "scan_inv pool ivs (iv_start iv) ?s" by (rule scan_expire_inv [OF inv])
  have "\<forall>(e, v, p)\<in>set (sc_active ?s). iv_start iv < e" by (auto simp: scan_expire_def)
  then have "length (sc_active ?s) \<le> pressure ivs (iv_start iv)"
    by (rule active_pressure [OF inv' pool _ started])
  also have "\<dots> < length pool" using low pressure_append [OF new(1) _ new(2)] by simp
  finally have "length (sc_active ?s) < length pool" .
  moreover have "length (sc_free ?s) + length (sc_active ?s) = length pool"
  proof -
    have "mset (sc_free ?s @ active_regs (sc_active ?s)) = mset pool" using inv' by (simp add: scan_inv_def)
    from arg_cong [OF this, of size] show ?thesis by (simp add: active_regs_def)
  qed
  ultimately have "sc_free ?s \<noteq> []" by auto
  then obtain p ps where "sc_free ?s = p # ps" by (cases "sc_free ?s") auto
  then show ?thesis by (simp add: scan_step_def scan_assign_def scan_expire_def)
qed

lemma scan_foldl_no_spill:
  assumes "scan_inv pool ivs at s" "distinct pool" "sorted (at # map iv_start xs)"
    "distinct (map iv_vreg (ivs @ xs))" "\<forall>i\<in>set ivs. iv_start i \<le> at" "\<forall>i\<in>set xs. iv_start i < iv_end i"
    "\<forall>t. pressure (ivs @ xs) t \<le> length pool"
  shows "spilled (sc_result (foldl scan_step s xs)) = spilled (sc_result s)"
  using assms
proof (induction xs arbitrary: ivs at s)
  case (Cons x xs)
  have "scan_inv pool (ivs @ [x]) (iv_start x) (scan_step s x)"
    using Cons.prems by (intro scan_step_inv) auto
  then have "spilled (sc_result (foldl scan_step (scan_step s x) xs)) = spilled (sc_result (scan_step s x))"
    by (rule Cons.IH) (use Cons.prems in \<open>auto intro: le_trans\<close>)
  moreover have "spilled (sc_result (scan_step s x)) = spilled (sc_result s)"
  proof (rule scan_step_no_spill [OF Cons.prems(1) _ Cons.prems(2)])
    have "pressure (ivs @ [x]) (iv_start x) \<le> pressure (ivs @ x # xs) (iv_start x)"
      by (intro pressure_mono) auto
    then show "pressure (ivs @ [x]) (iv_start x) \<le> length pool" using Cons.prems(7) le_trans by blast
  qed (use Cons.prems in \<open>auto intro: le_trans\<close>)
  ultimately show ?case by simp
qed simp

lemma linear_scan_no_spill:
  assumes "distinct (map iv_vreg ivs)" "distinct pool" "\<forall>i\<in>set ivs. iv_start i < iv_end i"
    "\<forall>t. pressure ivs t \<le> length pool"
  shows "spilled (linear_scan ivs pool) = []"
proof (cases "pool = []")
  case True
  have "ivs = []"
  proof (cases ivs)
    case (Cons i rest)
    then have "i \<in> {i \<in> set ivs. iv_start i \<le> iv_start i \<and> iv_start i < iv_end i}" using assms(3) by simp
    then have "0 < pressure ivs (iv_start i)" unfolding pressure_def
      using assms(3) Cons by (auto simp: card_gt_0_iff)
    then show ?thesis using assms(4) True by (metis leD list.size(3))
  qed
  then show ?thesis using True by (simp add: linear_scan_def)
next
  case False
  let ?xs = "sort_key iv_key ivs"
  have "distinct (map iv_vreg ?xs)" using assms(1) by (metis distinct_map distinct_sort set_sort)
  moreover have "sorted (0 # map iv_start ?xs)" using sorted_iv_start by simp
  moreover have "\<forall>t. pressure ?xs t \<le> length pool" using assms(4) by (simp add: pressure_def)
  ultimately show ?thesis
    using scan_foldl_no_spill [OF scan_init_inv assms(2), of ?xs] assms(3) False
    by (simp add: linear_scan_def default_result_def)
qed

end
