(* ===== verification/Codegen_Graph_Color.thy ===== *)
theory Codegen_Graph_Color
  imports Codegen_Linear_Scan
begin

text \<open>
  Graph-colouring register allocation (\<open>llvm-codegen/src/regalloc_gc.rs\<close>) and the driver
  \<open>allocate_registers\<close> of \<open>regalloc.rs\<close> that chooses between it and the linear scan.

  The graph is an association list from a register to its neighbours; the code's hash maps and
  sets are only counted, looked up and minimised over keys that end in the register number, so
  their order does not show.
\<close>

section \<open>The interference graph\<close>

type_synonym igraph = "(vreg \<times> vreg list) list"

definition graph_touch :: "vreg \<Rightarrow> igraph \<Rightarrow> igraph" where
  \<comment> \<open>\<open>graph.entry(v).or_default()\<close>\<close>
  "graph_touch v g = (if v \<in> fst ` set g then g else g @ [(v, [])])"

definition graph_add :: "vreg \<Rightarrow> vreg \<Rightarrow> igraph \<Rightarrow> igraph" where
  \<comment> \<open>\<open>graph.entry(v).or_default().insert(w)\<close>\<close>
  "graph_add v w g = map (\<lambda>(u, ns). (u, if u = v then List.insert w ns else ns)) (graph_touch v g)"

definition add_interference :: "igraph \<Rightarrow> live_interval \<times> live_interval \<Rightarrow> igraph" where
  "add_interference g ab =
     (case ab of (a, b) \<Rightarrow>
        if iv_overlap a b then graph_add (iv_vreg b) (iv_vreg a) (graph_add (iv_vreg a) (iv_vreg b) g)
        else g)"

fun later_pairs :: "'a list \<Rightarrow> ('a \<times> 'a) list" where
  \<comment> \<open>the pairs at indices \<open>i < j\<close>, in the order of the two loops\<close>
  "later_pairs [] = []"
| "later_pairs (x # xs) = map (Pair x) xs @ later_pairs xs"

definition build_interference_graph :: "live_interval list \<Rightarrow> igraph" where
  "build_interference_graph ivs =
     foldl add_interference (foldl (\<lambda>g iv. graph_touch (iv_vreg iv) g) [] ivs) (later_pairs ivs)"

definition graph_neighbours :: "igraph \<Rightarrow> vreg \<Rightarrow> vreg list" where
  \<comment> \<open>\<open>graph.get(&v).into_iter().flat_map(..)\<close>\<close>
  "graph_neighbours g v = (case map_of g v of Some ns \<Rightarrow> ns | None \<Rightarrow> [])"

definition graph_remove :: "vreg \<Rightarrow> igraph \<Rightarrow> igraph" where
  "graph_remove v g = map (\<lambda>(u, ns). (u, removeAll v ns)) (filter (\<lambda>(u, _). u \<noteq> v) g)"

definition spill_costs :: "live_interval list \<Rightarrow> vreg \<rightharpoonup> nat" where
  "spill_costs ivs =
     foldl (\<lambda>m iv. m(iv_vreg iv \<mapsto> max (iv_end iv - iv_start iv) 1)) Map.empty ivs"

section \<open>Simplify and select\<close>

fun min_by_key :: "('a \<Rightarrow> 'k :: linorder) \<Rightarrow> 'a list \<Rightarrow> 'a option" where
  "min_by_key f [] = None"
| "min_by_key f (x # xs) =
     (case min_by_key f xs of None \<Rightarrow> Some x | Some y \<Rightarrow> Some (if f y < f x then y else x))"

definition low_degree :: "nat \<Rightarrow> igraph \<Rightarrow> (vreg \<times> vreg list) option" where
  "low_degree k work = min_by_key (\<lambda>(v, ns). (length ns, v)) (filter (\<lambda>(_, ns). length ns < k) work)"

definition spill_candidate :: "(vreg \<rightharpoonup> nat) \<Rightarrow> igraph \<Rightarrow> (vreg \<times> vreg list) option" where
  \<comment> \<open>cheapest first, then the largest degree, then the smallest register\<close>
  "spill_candidate costs work =
     min_by_key (\<lambda>(v, ns). (case costs v of Some c \<Rightarrow> c | None \<Rightarrow> 1, - int (length ns), v)) work"

definition choose_node :: "nat \<Rightarrow> (vreg \<rightharpoonup> nat) \<Rightarrow> igraph \<Rightarrow> (vreg \<times> bool) rust" where
  \<comment> \<open>the node to remove, and whether it is a potential spill\<close>
  "choose_node k costs work =
     (case low_degree k work of
        Some (v, _) \<Rightarrow> Some (v, False)
      | None \<Rightarrow> (case spill_candidate costs work of Some (v, _) \<Rightarrow> Some (v, True) | None \<Rightarrow> None))"

lemma min_by_key_in: "min_by_key f xs = Some y \<Longrightarrow> y \<in> set xs"
  by (induction xs arbitrary: y) (auto split: option.splits if_splits)

lemma min_by_key_None [simp]: "min_by_key f xs = None \<longleftrightarrow> xs = []"
  by (cases xs) (auto split: option.splits)

lemma choose_node_in: "choose_node k costs work = Some (v, b) \<Longrightarrow> v \<in> fst ` set work"
  by (auto simp: choose_node_def low_degree_def spill_candidate_def split: option.splits
      dest!: min_by_key_in intro: rev_image_eqI)

lemma choose_node_total: "work \<noteq> [] \<Longrightarrow> choose_node k costs work \<noteq> None"
  by (auto simp: choose_node_def spill_candidate_def split: option.splits)

lemma graph_remove_length: "v \<in> fst ` set g \<Longrightarrow> length (graph_remove v g) < length g"
  unfolding graph_remove_def length_map by (auto intro: length_filter_less)

function simplify :: "nat \<Rightarrow> (vreg \<rightharpoonup> nat) \<Rightarrow> igraph \<Rightarrow> vreg list \<Rightarrow> vreg list \<Rightarrow> (vreg list \<times> vreg list) rust" where
  \<comment> \<open>the stack, its top first, and the potential spills\<close>
  "simplify k costs work stack potential =
     (if work = [] then Some (stack, potential)
      else (case choose_node k costs work of
              None \<Rightarrow> None
            | Some (v, spill) \<Rightarrow>
                simplify k costs (graph_remove v work) (v # stack)
                  (if spill then List.insert v potential else potential)))"
  by pat_completeness auto
termination simplify
  by (relation "measure (\<lambda>(k, costs, work, stack, potential). length work)")
    (auto dest!: choose_node_in intro: graph_remove_length)

declare simplify.simps [simp del]

fun select :: "igraph \<Rightarrow> preg list \<Rightarrow> vreg list \<Rightarrow> (vreg \<rightharpoonup> preg) \<Rightarrow> vreg list \<Rightarrow> (vreg \<rightharpoonup> preg) \<times> vreg list" where
  "select g pool [] assigned sp = (assigned, sp)"
| "select g pool (v # stack) assigned sp =
     (case find (\<lambda>p. p \<notin> set (List.map_filter assigned (graph_neighbours g v))) pool of
        Some p \<Rightarrow> select g pool stack (assigned(v \<mapsto> p)) sp
      | None \<Rightarrow> select g pool stack assigned (List.insert v sp))"

definition graph_color :: "live_interval list \<Rightarrow> preg list \<Rightarrow> alloc_result rust" where
  "graph_color intervals allocatable =
     (if allocatable = [] then Some \<lparr>vreg_to_preg = Map.empty, spilled = map iv_vreg intervals\<rparr>
      else if intervals = [] then Some default_result
      else do {
        let g = build_interference_graph intervals;
        (stack, potential) \<leftarrow> simplify (length allocatable) (spill_costs intervals) g [] [];
        let (assigned, sp) = select g allocatable stack Map.empty [];
        Some \<lparr>vreg_to_preg = assigned,
              spilled = sort (fold (\<lambda>v s. if assigned v = None then List.insert v s else s) potential sp)\<rparr> })"

section \<open>The graph is the interference relation\<close>

definition wf_igraph :: "igraph \<Rightarrow> bool" where
  \<comment> \<open>each register once, its neighbours once\<close>
  "wf_igraph g \<longleftrightarrow> distinct (map fst g) \<and> (\<forall>(_, ns)\<in>set g. distinct ns)"

lemma touch_fst: "fst ` set (graph_touch v g) = insert v (fst ` set g)"
  by (auto simp: graph_touch_def)

lemma add_fst: "fst ` set (graph_add v w g) = insert v (fst ` set g)"
proof -
  have "fst ` set (graph_add v w g) = fst ` set (graph_touch v g)" by (force simp: graph_add_def)
  then show ?thesis by (simp add: touch_fst)
qed

lemma touch_wf: "wf_igraph g \<Longrightarrow> wf_igraph (graph_touch v g)"
  by (auto simp: wf_igraph_def graph_touch_def)

lemma add_wf: "wf_igraph g \<Longrightarrow> wf_igraph (graph_add v w g)"
proof -
  assume "wf_igraph g"
  then have t: "wf_igraph (graph_touch v g)" by (rule touch_wf)
  have "map fst (graph_add v w g) = map fst (graph_touch v g)" by (auto simp: graph_add_def)
  then show ?thesis using t by (simp add: wf_igraph_def) (auto simp: graph_add_def)
qed

lemma touch_neighbours: "graph_neighbours (graph_touch v g) u = graph_neighbours g u"
proof (cases "u \<in> fst ` set g")
  case True
  then show ?thesis by (auto simp: graph_neighbours_def graph_touch_def map_add_def dest: weak_map_of_SomeI split: option.splits)
next
  case False
  then have "map_of g u = None" by (simp add: map_of_eq_None_iff)
  then show ?thesis by (auto simp: graph_neighbours_def graph_touch_def map_add_def)
qed

lemma map_of_map_snd: "map_of (map (\<lambda>(u, ns). (u, f u ns)) g) v = map_option (f v) (map_of g v)"
  by (induction g) auto

lemma add_neighbours:
  "set (graph_neighbours (graph_add v w g) u) = (if u = v then insert w else id) (set (graph_neighbours g u))"
proof -
  have "v \<in> fst ` set (graph_touch v g)" by (simp add: touch_fst)
  then obtain ns where "map_of (graph_touch v g) v = Some ns" by (metis map_of_eq_None_iff not_Some_eq)
  then show ?thesis
    using touch_neighbours [of v g u]
    by (auto simp: graph_neighbours_def graph_add_def map_of_map_snd split: option.splits)
qed

lemma later_pairs_in:
  "a \<in> set xs \<Longrightarrow> b \<in> set xs \<Longrightarrow> a \<noteq> b \<Longrightarrow> (a, b) \<in> set (later_pairs xs) \<or> (b, a) \<in> set (later_pairs xs)"
  by (induction xs) auto

lemma later_pairs_distinct: "distinct (map f xs) \<Longrightarrow> (a, b) \<in> set (later_pairs xs) \<Longrightarrow> a \<in> set xs \<and> b \<in> set xs \<and> f a \<noteq> f b"
  by (induction xs) auto

lemma iv_overlap_sym: "iv_overlap a b \<longleftrightarrow> iv_overlap b a"
  by (auto simp: iv_overlap_def)

lemma touch_all:
  "wf_igraph g \<Longrightarrow> wf_igraph (foldl (\<lambda>g iv. graph_touch (iv_vreg iv) g) g ivs) \<and>
   fst ` set (foldl (\<lambda>g iv. graph_touch (iv_vreg iv) g) g ivs) = fst ` set g \<union> iv_vreg ` set ivs \<and>
   (\<forall>u. graph_neighbours (foldl (\<lambda>g iv. graph_touch (iv_vreg iv) g) g ivs) u = graph_neighbours g u)"
  by (induction ivs arbitrary: g) (auto simp: touch_wf touch_fst touch_neighbours)

lemma add_all:
  "wf_igraph g \<Longrightarrow> wf_igraph (foldl add_interference g ps) \<and>
   fst ` set (foldl add_interference g ps) =
     fst ` set g \<union> {iv_vreg c |a b c. (a, b) \<in> set ps \<and> iv_overlap a b \<and> (c = a \<or> c = b)} \<and>
   (\<forall>u w. w \<in> set (graph_neighbours (foldl add_interference g ps) u) \<longleftrightarrow>
      w \<in> set (graph_neighbours g u) \<or>
      (\<exists>a b. (a, b) \<in> set ps \<and> iv_overlap a b \<and>
         (u = iv_vreg a \<and> w = iv_vreg b \<or> u = iv_vreg b \<and> w = iv_vreg a)))"
proof (induction ps arbitrary: g)
  case (Cons ab ps)
  obtain a b where ab: "ab = (a, b)" by (cases ab)
  have wf: "wf_igraph (add_interference g (a, b))" using Cons.prems by (auto simp: add_interference_def add_wf)
  have n: "w \<in> set (graph_neighbours (add_interference g (a, b)) u) \<longleftrightarrow> w \<in> set (graph_neighbours g u) \<or>
      iv_overlap a b \<and> (u = iv_vreg a \<and> w = iv_vreg b \<or> u = iv_vreg b \<and> w = iv_vreg a)" for u w
    by (auto simp: add_interference_def add_neighbours)
  have k: "fst ` set (add_interference g (a, b)) =
      fst ` set g \<union> (if iv_overlap a b then {iv_vreg a, iv_vreg b} else {})"
    by (auto simp: add_interference_def add_fst)
  show ?case unfolding ab foldl.simps using Cons.IH [OF wf] unfolding n k by auto
qed simp

lemma interference_graph:
  assumes "distinct (map iv_vreg ivs)"
  shows "wf_igraph (build_interference_graph ivs)"
    "fst ` set (build_interference_graph ivs) = iv_vreg ` set ivs"
    "w \<in> set (graph_neighbours (build_interference_graph ivs) u) \<longleftrightarrow>
       (\<exists>a\<in>set ivs. \<exists>b\<in>set ivs. iv_overlap a b \<and> u = iv_vreg a \<and> w = iv_vreg b \<and> u \<noteq> w)"
proof -
  let ?g = "foldl (\<lambda>g iv. graph_touch (iv_vreg iv) g) [] ivs"
  have t: "wf_igraph ?g" "fst ` set ?g = iv_vreg ` set ivs" "\<And>u. graph_neighbours ?g u = []"
    using touch_all [of "[]" ivs] by (simp_all add: wf_igraph_def graph_neighbours_def)
  note a = add_all [OF t(1), of "later_pairs ivs", folded build_interference_graph_def]
  have n: "w \<in> set (graph_neighbours (build_interference_graph ivs) u) \<longleftrightarrow>
      (\<exists>x y. (x, y) \<in> set (later_pairs ivs) \<and> iv_overlap x y \<and>
         (u = iv_vreg x \<and> w = iv_vreg y \<or> u = iv_vreg y \<and> w = iv_vreg x))" using a t(3) by simp
  note p = later_pairs_distinct [OF assms]
  show "wf_igraph (build_interference_graph ivs)" using a by blast
  show "fst ` set (build_interference_graph ivs) = iv_vreg ` set ivs"
    using a t(2) p by auto
  show "w \<in> set (graph_neighbours (build_interference_graph ivs) u) \<longleftrightarrow>
       (\<exists>a\<in>set ivs. \<exists>b\<in>set ivs. iv_overlap a b \<and> u = iv_vreg a \<and> w = iv_vreg b \<and> u \<noteq> w)"
    (is "_ \<longleftrightarrow> ?R")
  proof
    assume "w \<in> set (graph_neighbours (build_interference_graph ivs) u)"
    then obtain x y where "(x, y) \<in> set (later_pairs ivs)" "iv_overlap x y"
      "u = iv_vreg x \<and> w = iv_vreg y \<or> u = iv_vreg y \<and> w = iv_vreg x" using n by blast
    moreover from this have "x \<in> set ivs" "y \<in> set ivs" "iv_vreg x \<noteq> iv_vreg y" "iv_overlap y x"
      using p [of x y] iv_overlap_sym [of x y] by auto
    ultimately show ?R by (elim disjE conjE) (rule bexI [of _ x], rule bexI [of _ y], simp_all, rule bexI [of _ y], rule bexI [of _ x], simp_all)
  next
    assume ?R
    then obtain x y where xy: "x \<in> set ivs" "y \<in> set ivs" "iv_overlap x y" "u = iv_vreg x" "w = iv_vreg y" "u \<noteq> w" by blast
    then have "x \<noteq> y" by auto
    then have "(x, y) \<in> set (later_pairs ivs) \<or> (y, x) \<in> set (later_pairs ivs)" using later_pairs_in xy(1,2) by metis
    then show "w \<in> set (graph_neighbours (build_interference_graph ivs) u)"
      unfolding n using xy(3-5) iv_overlap_sym [of x y] by blast
  qed
qed

section \<open>The stack is a permutation of the nodes\<close>

lemma graph_remove_fst: "fst ` set (graph_remove v g) = fst ` set g - {v}"
  by (force simp: graph_remove_def)

lemma simplify_stack:
  "\<exists>st po. simplify k costs work stack potential = Some (st, po) \<and>
     set st = set stack \<union> fst ` set work \<and> set po \<subseteq> set potential \<union> fst ` set work \<and>
     (distinct stack \<and> set stack \<inter> fst ` set work = {} \<longrightarrow> distinct st)"
proof (induction k costs work stack potential rule: simplify.induct)
  case (1 k costs work stack potential)
  show ?case
  proof (cases "work = []")
    case True
    then show ?thesis by (simp add: simplify.simps)
  next
    case False
    then obtain v b where c: "choose_node k costs work = Some (v, b)"
      using choose_node_total by (metis not_None_eq prod.exhaust)
    note v = choose_node_in [OF c]
    let ?p = "if b then List.insert v potential else potential"
    obtain st po where st: "simplify k costs (graph_remove v work) (v # stack) ?p = Some (st, po)"
      "set st = set (v # stack) \<union> fst ` set (graph_remove v work)"
      "set po \<subseteq> set ?p \<union> fst ` set (graph_remove v work)"
      "distinct (v # stack) \<Longrightarrow> set (v # stack) \<inter> fst ` set (graph_remove v work) = {} \<Longrightarrow> distinct st"
      using "1.IH" [OF False c refl] by blast
    have "set st = set stack \<union> fst ` set work" using st(2) v by (auto simp: graph_remove_fst)
    moreover have "set po \<subseteq> set potential \<union> fst ` set work"
      using st(3) v by (auto simp: graph_remove_fst split: if_splits)
    moreover have "distinct stack \<and> set stack \<inter> fst ` set work = {} \<longrightarrow> distinct st"
      using st(4) v by (auto simp: graph_remove_fst)
    ultimately show ?thesis using st(1) by (simp add: simplify.simps [of k costs work] False c)
  qed
qed

section \<open>Selection colours the graph\<close>

definition coloured :: "igraph \<Rightarrow> preg list \<Rightarrow> (vreg \<rightharpoonup> preg) \<Rightarrow> vreg list \<Rightarrow> bool" where
  "coloured g pool as sp \<longleftrightarrow>
     (\<forall>v p. as v = Some p \<longrightarrow> p \<in> set pool \<and> (\<forall>w\<in>set (graph_neighbours g v). as w \<noteq> Some p)) \<and>
     distinct sp \<and> dom as \<inter> set sp = {}"

definition graph_sym :: "igraph \<Rightarrow> bool" where
  "graph_sym g \<longleftrightarrow> (\<forall>u w. w \<in> set (graph_neighbours g u) \<longrightarrow> u \<noteq> w \<and> u \<in> set (graph_neighbours g w))"

lemma in_map_filter: "x \<in> set (List.map_filter f xs) \<longleftrightarrow> (\<exists>y\<in>set xs. f y = Some x)"
  by (force simp: List.map_filter_def)

lemma select_coloured:
  assumes "graph_sym g" "coloured g pool as sp" "distinct stack" "set stack \<inter> (dom as \<union> set sp) = {}"
    "select g pool stack as sp = (as', sp')"
  shows "coloured g pool as' sp' \<and> dom as' \<union> set sp' = dom as \<union> set sp \<union> set stack"
  using assms(2-)
proof (induction stack arbitrary: as sp)
  case (Cons v stack)
  show ?case
  proof (cases "find (\<lambda>p. p \<notin> set (List.map_filter as (graph_neighbours g v))) pool")
    case None
    have "coloured g pool as (List.insert v sp)" using Cons.prems by (auto simp: coloured_def)
    then have "coloured g pool as' sp' \<and> dom as' \<union> set sp' = dom as \<union> set (List.insert v sp) \<union> set stack"
      by (rule Cons.IH) (use Cons.prems None in auto)
    then show ?thesis by auto
  next
    case (Some p)
    then have p: "p \<in> set pool" "\<forall>w\<in>set (graph_neighbours g v). as w \<noteq> Some p"
      by (auto simp: find_Some_iff in_map_filter)
    have "coloured g pool (as(v \<mapsto> p)) sp"
      using Cons.prems p assms(1) unfolding coloured_def graph_sym_def by auto
    then have "coloured g pool as' sp' \<and> dom as' \<union> set sp' = dom (as(v \<mapsto> p)) \<union> set sp \<union> set stack"
    proof (rule Cons.IH)
      show "set stack \<inter> (dom (as(v \<mapsto> p)) \<union> set sp) = {}" using Cons.prems(2,3) by auto
      show "select g pool stack (as(v \<mapsto> p)) sp = (as', sp')" using Cons.prems(4) Some by simp
    qed (use Cons.prems(2) in simp)
    then show ?thesis by auto
  qed
qed auto

lemma leftover_potential:
  assumes "set po \<subseteq> dom as \<union> set sp"
  shows "fold (\<lambda>v s. if as v = None then List.insert v s else s) po sp = sp"
proof (rule fold_invariant [where Q = "\<lambda>v. v \<in> set po" and P = "\<lambda>s. s = sp"])
  fix v s assume "v \<in> set po" "s = sp"
  moreover from this have "v \<in> dom as \<union> set sp" using assms by blast
  ultimately show "(if as v = None then List.insert v s else s) = sp" by (auto simp: List.insert_def)
qed auto

lemma interference_sym: "distinct (map iv_vreg ivs) \<Longrightarrow> graph_sym (build_interference_graph ivs)"
  unfolding graph_sym_def interference_graph(3) using iv_overlap_sym by metis

lemma simplify_distinct: "simplify k costs work [] potential = Some (st, po) \<Longrightarrow> distinct st"
  using simplify_stack [of k costs work "[]" potential] by auto

lemma graph_color_valid:
  assumes d: "distinct (map iv_vreg ivs)"
  shows "\<exists>r. graph_color ivs pool = Some r \<and> valid_alloc ivs pool r"
proof (cases "pool = [] \<or> ivs = []")
  case True
  then show ?thesis using d by (auto simp: graph_color_def valid_alloc_def default_result_def)
next
  case False
  let ?g = "build_interference_graph ivs"
  obtain st po where s: "simplify (length pool) (spill_costs ivs) ?g [] [] = Some (st, po)"
    "set st = iv_vreg ` set ivs" "set po \<subseteq> iv_vreg ` set ivs" "distinct st"
    using simplify_stack [of "length pool" "spill_costs ivs" ?g "[]" "[]"] interference_graph(2) [OF d] by auto
  obtain as sp where c: "select ?g pool st Map.empty [] = (as, sp)" by force
  have sym: "graph_sym ?g" by (rule interference_sym [OF d])
  have col: "coloured ?g pool as sp" and all: "dom as \<union> set sp = iv_vreg ` set ivs"
    using select_coloured [OF sym _ s(4) _ c] s(2) by (auto simp: coloured_def)
  have "fold (\<lambda>v s. if as v = None then List.insert v s else s) po sp = sp"
    using s(3) all by (intro leftover_potential) auto
  then have r: "graph_color ivs pool = Some \<lparr>vreg_to_preg = as, spilled = sort sp\<rparr>"
    using False s(1) c by (simp add: graph_color_def Let_def)
  have "as (iv_vreg b) \<noteq> Some p"
    if "a \<in> set ivs" "b \<in> set ivs" "iv_vreg a \<noteq> iv_vreg b" "iv_overlap a b" "as (iv_vreg a) = Some p" for a b p
    using that col interference_graph(3) [OF d, of "iv_vreg b" "iv_vreg a"] unfolding coloured_def by blast
  then show ?thesis using col all by (auto simp: r valid_alloc_def coloured_def)
qed

lemma select_no_spill:
  assumes "distinct pool" "\<forall>v\<in>set stack. length (graph_neighbours g v) < length pool"
  shows "snd (select g pool stack as sp) = sp"
  using assms(2)
proof (induction stack arbitrary: as)
  case (Cons v stack)
  have "length (List.map_filter as (graph_neighbours g v)) \<le> length (graph_neighbours g v)"
    by (simp add: List.map_filter_def)
  then have "card (set (List.map_filter as (graph_neighbours g v))) < card (set pool)"
    using Cons.prems card_length [of "List.map_filter as (graph_neighbours g v)"] assms(1)
    by (simp add: distinct_card)
  then have "\<not> set pool \<subseteq> set (List.map_filter as (graph_neighbours g v))"
    by (meson card_mono List.finite_set not_le)
  then obtain p where "find (\<lambda>p. p \<notin> set (List.map_filter as (graph_neighbours g v))) pool = Some p"
    by (metis find_None_iff not_Some_eq subsetI)
  then show ?case using Cons by simp
qed simp

lemma graph_color_no_spill:
  assumes d: "distinct (map iv_vreg ivs)" and pool: "distinct pool"
    and deg: "\<forall>iv\<in>set ivs. card {b \<in> set ivs. iv_vreg b \<noteq> iv_vreg iv \<and> iv_overlap iv b} < length pool"
    and r: "graph_color ivs pool = Some r"
  shows "spilled r = []"
proof (cases "ivs = [] \<or> pool = []")
  case True
  then show ?thesis using r deg by (cases ivs) (auto simp: graph_color_def default_result_def split: if_splits)
next
  case False
  let ?g = "build_interference_graph ivs"
  obtain st po where s: "simplify (length pool) (spill_costs ivs) ?g [] [] = Some (st, po)"
    "set st = iv_vreg ` set ivs" "set po \<subseteq> iv_vreg ` set ivs"
    using simplify_stack [of "length pool" "spill_costs ivs" ?g "[]" "[]"] interference_graph(2) [OF d] by auto
  have "length (graph_neighbours ?g v) < length pool" if v: "v \<in> set st" for v
  proof -
    obtain a where a: "a \<in> set ivs" "v = iv_vreg a" using v s(2) by auto
    have "distinct (graph_neighbours ?g v)" using interference_graph(1) [OF d]
      by (auto simp: wf_igraph_def graph_neighbours_def dest: map_of_SomeD split: option.splits)
    moreover have "set (graph_neighbours ?g v) \<subseteq> iv_vreg ` {b \<in> set ivs. iv_vreg b \<noteq> iv_vreg a \<and> iv_overlap a b}"
    proof
      fix w assume "w \<in> set (graph_neighbours ?g v)"
      then obtain a' b where b: "a' \<in> set ivs" "b \<in> set ivs" "iv_overlap a' b" "v = iv_vreg a'" "w = iv_vreg b" "v \<noteq> w"
        unfolding interference_graph(3) [OF d] by blast
      have "a' = a" using a b d by (auto simp: distinct_map inj_on_def)
      then show "w \<in> iv_vreg ` {b \<in> set ivs. iv_vreg b \<noteq> iv_vreg a \<and> iv_overlap a b}" using a b by auto
    qed
    ultimately have "length (graph_neighbours ?g v) \<le> card (iv_vreg ` {b \<in> set ivs. iv_vreg b \<noteq> iv_vreg a \<and> iv_overlap a b})"
      using card_mono [of "iv_vreg ` {b \<in> set ivs. iv_vreg b \<noteq> iv_vreg a \<and> iv_overlap a b}" "set (graph_neighbours ?g v)"]
      by (simp add: distinct_card)
    also have "\<dots> \<le> card {b \<in> set ivs. iv_vreg b \<noteq> iv_vreg a \<and> iv_overlap a b}" by (rule card_image_le) simp
    finally show ?thesis using deg a(1) by fastforce
  qed
  then have n: "snd (select ?g pool st Map.empty []) = []" by (intro select_no_spill pool) blast
  obtain as where c: "select ?g pool st Map.empty [] = (as, [])" using n by (metis prod.collapse)
  have sym: "graph_sym ?g" by (rule interference_sym [OF d])
  have "dom as = set st"
    using select_coloured [OF sym _ _ _ c] simplify_distinct [OF s(1)] by (auto simp: coloured_def)
  then have "fold (\<lambda>v s. if as v = None then List.insert v s else s) po [] = []"
    using s(2,3) by (intro leftover_potential) auto
  then show ?thesis using r False s(1) c by (auto simp: graph_color_def Let_def)
qed

end
