(* ===== verification/Codegen_Allocate.thy ===== *)
theory Codegen_Allocate
  imports Codegen_Linear_Scan Codegen_Graph_Color
begin

text \<open>
  The driver \<open>allocate_registers\<close> (\<open>llvm-codegen/src/regalloc.rs\<close>) over the interface that both
  allocators provide.
\<close>

section \<open>The allocator interface\<close>

text \<open>
  What \<open>allocate_registers\<close> relies on: an allocator that returns a valid allocation for intervals
  of distinct virtual registers. The driver splits the intervals by register class, allocates each
  class from its own pool, and merges.
\<close>

definition merge_results :: "alloc_result \<Rightarrow> alloc_result \<Rightarrow> alloc_result" where
  \<comment> \<open>\<open>vreg_to_preg.extend(..)\<close> and \<open>spilled.extend(..)\<close>\<close>
  "merge_results a b =
     \<lparr>vreg_to_preg = vreg_to_preg a ++ vreg_to_preg b, spilled = spilled a @ spilled b\<rparr>"

definition of_class :: "reg_class \<Rightarrow> live_interval list \<Rightarrow> live_interval list" where
  "of_class k = filter (\<lambda>iv. vreg_class (iv_vreg iv) = k)"

definition split_alloc ::
  "(live_interval list \<Rightarrow> preg list \<Rightarrow> alloc_result rust) \<Rightarrow> live_interval list \<Rightarrow> preg list \<Rightarrow> preg list \<Rightarrow>
     alloc_result rust" where
  "split_alloc alloc ivs int_pregs fp_pregs =
     (if \<exists>iv\<in>set ivs. vreg_class (iv_vreg iv) = RegFloat
      then do { i \<leftarrow> alloc (of_class RegInt ivs) int_pregs;
                f \<leftarrow> alloc (of_class RegFloat ivs) fp_pregs;
                Some (merge_results i f) }
      else alloc ivs int_pregs)"

definition valid_split :: "live_interval list \<Rightarrow> preg list \<Rightarrow> preg list \<Rightarrow> alloc_result \<Rightarrow> bool" where
  \<comment> \<open>every register is assigned one of its class's pool or spilled, not both; overlapping intervals
    of one class get different registers\<close>
  "valid_split ivs int_pregs fp_pregs r \<longleftrightarrow>
     (\<forall>v p. vreg_to_preg r v = Some p \<longrightarrow>
        p \<in> set (case vreg_class v of RegInt \<Rightarrow> int_pregs | RegFloat \<Rightarrow> fp_pregs)) \<and>
     distinct (spilled r) \<and> dom (vreg_to_preg r) \<inter> set (spilled r) = {} \<and>
     dom (vreg_to_preg r) \<union> set (spilled r) = iv_vreg ` set ivs \<and>
     (\<forall>a\<in>set ivs. \<forall>b\<in>set ivs. \<forall>p. iv_vreg a \<noteq> iv_vreg b \<longrightarrow>
        vreg_class (iv_vreg a) = vreg_class (iv_vreg b) \<longrightarrow> iv_overlap a b \<longrightarrow>
        vreg_to_preg r (iv_vreg a) = Some p \<longrightarrow> vreg_to_preg r (iv_vreg b) \<noteq> Some p)"

locale allocator =
  fixes alloc :: "live_interval list \<Rightarrow> preg list \<Rightarrow> alloc_result rust"
  assumes alloc_valid: "distinct (map iv_vreg ivs) \<Longrightarrow> distinct pool \<Longrightarrow>
    \<exists>r. alloc ivs pool = Some r \<and> valid_alloc ivs pool r"
begin

lemma class_alloc:
  assumes "distinct (map iv_vreg ivs)" "distinct pool"
  obtains r where "alloc (of_class k ivs) pool = Some r" "valid_alloc (of_class k ivs) pool r"
    "\<And>v. v \<in> dom (vreg_to_preg r) \<or> v \<in> set (spilled r) \<Longrightarrow> vreg_class v = k"
proof -
  have "distinct (map iv_vreg (of_class k ivs))" using assms(1) by (simp add: of_class_def distinct_map_filter)
  then obtain r where r: "alloc (of_class k ivs) pool = Some r" "valid_alloc (of_class k ivs) pool r"
    using alloc_valid assms(2) by blast
  have "vreg_class v = k" if v: "v \<in> dom (vreg_to_preg r) \<or> v \<in> set (spilled r)" for v
  proof -
    have "v \<in> iv_vreg ` set (of_class k ivs)" using valid_allocD(4) [OF r(2)] v by blast
    then show ?thesis by (auto simp: of_class_def)
  qed
  with r show ?thesis by (rule that)
qed

lemma split_alloc_valid:
  assumes d: "distinct (map iv_vreg ivs)" "distinct int_pregs" "distinct fp_pregs"
  shows "\<exists>r. split_alloc alloc ivs int_pregs fp_pregs = Some r \<and> valid_split ivs int_pregs fp_pregs r"
proof (cases "\<exists>iv\<in>set ivs. vreg_class (iv_vreg iv) = RegFloat")
  case False
  then have int: "\<forall>iv\<in>set ivs. vreg_class (iv_vreg iv) = RegInt" using reg_class.exhaust by metis
  obtain r where r: "alloc ivs int_pregs = Some r" and v: "valid_alloc ivs int_pregs r"
    using alloc_valid [OF d(1,2)] by blast
  have "vreg_class w = RegInt" if w: "vreg_to_preg r w = Some p" for w p
  proof -
    have "w \<in> iv_vreg ` set ivs" using valid_allocD(4) [OF v] domI [of "vreg_to_preg r" w p] w by blast
    then show ?thesis using int by auto
  qed
  then show ?thesis using v r False by (simp add: split_alloc_def valid_split_def valid_alloc_def)
next
  case True
  obtain i where i: "alloc (of_class RegInt ivs) int_pregs = Some i" "valid_alloc (of_class RegInt ivs) int_pregs i"
    and di: "\<And>w. w \<in> dom (vreg_to_preg i) \<or> w \<in> set (spilled i) \<Longrightarrow> vreg_class w = RegInt"
    by (rule class_alloc [OF d(1,2), of RegInt]) (rule that)
  obtain f where f: "alloc (of_class RegFloat ivs) fp_pregs = Some f" "valid_alloc (of_class RegFloat ivs) fp_pregs f"
    and df: "\<And>w. w \<in> dom (vreg_to_preg f) \<or> w \<in> set (spilled f) \<Longrightarrow> vreg_class w = RegFloat"
    by (rule class_alloc [OF d(1,3), of RegFloat]) (rule that)
  have r: "split_alloc alloc ivs int_pregs fp_pregs = Some (merge_results i f)"
    using True i f by (simp add: split_alloc_def)
  have look: "(vreg_to_preg i ++ vreg_to_preg f) w =
      (case vreg_class w of RegInt \<Rightarrow> vreg_to_preg i w | RegFloat \<Rightarrow> vreg_to_preg f w)" for w
    using di [of w] df [of w]
    by (cases "vreg_class w"; cases "vreg_to_preg f w"; cases "vreg_to_preg i w") (auto simp: map_add_def)
  have part: "set ivs = set (of_class RegInt ivs) \<union> set (of_class RegFloat ivs)"
    using reg_class.exhaust by (auto simp: of_class_def)
  have "dom (vreg_to_preg i ++ vreg_to_preg f) \<union> set (spilled i @ spilled f) = iv_vreg ` set ivs"
    using valid_allocD(4) [OF i(2)] valid_allocD(4) [OF f(2)] by (auto simp: part image_Un)
  moreover have "distinct (spilled i @ spilled f)"
    using valid_allocD(2) [OF i(2)] valid_allocD(2) [OF f(2)] di df by fastforce
  moreover have "dom (vreg_to_preg i ++ vreg_to_preg f) \<inter> set (spilled i @ spilled f) = {}"
    using valid_allocD(3) [OF i(2)] valid_allocD(3) [OF f(2)] di df by fastforce
  moreover have "(vreg_to_preg i ++ vreg_to_preg f) (iv_vreg b) \<noteq> Some p"
    if "a \<in> set ivs" "b \<in> set ivs" "iv_vreg a \<noteq> iv_vreg b" "vreg_class (iv_vreg a) = vreg_class (iv_vreg b)"
      "iv_overlap a b" "(vreg_to_preg i ++ vreg_to_preg f) (iv_vreg a) = Some p" for a b p
  proof (cases "vreg_class (iv_vreg a)")
    case RegInt
    then show ?thesis using valid_allocD(5) [OF i(2) _ _ that(3,5)] that by (auto simp: look of_class_def)
  next
    case RegFloat
    then show ?thesis using valid_allocD(5) [OF f(2) _ _ that(3,5)] that by (auto simp: look of_class_def)
  qed
  moreover have "p \<in> set (case vreg_class w of RegInt \<Rightarrow> int_pregs | RegFloat \<Rightarrow> fp_pregs)"
    if "(vreg_to_preg i ++ vreg_to_preg f) w = Some p" for w p
    using that valid_allocD(1) [OF i(2)] valid_allocD(1) [OF f(2)] by (auto simp: look split: reg_class.splits)
  ultimately show ?thesis by (simp add: r valid_split_def merge_results_def)
qed

end

interpretation scan_alloc: allocator "\<lambda>ivs pool. Some (linear_scan ivs pool)"
  by unfold_locales (simp add: linear_scan_valid)

interpretation color_alloc: allocator graph_color
  by unfold_locales (rule graph_color_valid)

section \<open>The driver\<close>

datatype alloc_strategy = LinearScan | GraphColor

definition run_strategy :: "alloc_strategy \<Rightarrow> live_interval list \<Rightarrow> preg list \<Rightarrow> alloc_result rust" where
  "run_strategy strategy =
     (case strategy of
        LinearScan \<Rightarrow> \<lambda>ivs pool. Some (linear_scan ivs pool)
      | GraphColor \<Rightarrow> graph_color)"

definition allocate_registers ::
  "live_interval list \<Rightarrow> preg list \<Rightarrow> preg list \<Rightarrow> alloc_strategy \<Rightarrow> alloc_result rust" where
  "allocate_registers intervals int_pregs fp_pregs strategy =
     split_alloc (run_strategy strategy) intervals int_pregs fp_pregs"

lemmas alloc_eval = allocate_registers_def run_strategy_def split_alloc_def merge_results_def of_class_def
  linear_scan_def scan_step_def scan_expire_def scan_assign_def active_insert_def partition_point_def
  vec_insert_def iv_key_def default_result_def vreg_class_def class_bit_def

lemma allocate_split_valid:
  assumes "distinct (map iv_vreg ivs)" "distinct int_pregs" "distinct fp_pregs"
  shows "\<exists>r. allocate_registers ivs int_pregs fp_pregs strategy = Some r \<and>
    valid_split ivs int_pregs fp_pregs r"
proof (cases strategy)
  case LinearScan
  then show ?thesis using scan_alloc.split_alloc_valid [OF assms]
    by (simp add: allocate_registers_def run_strategy_def)
next
  case GraphColor
  then show ?thesis using color_alloc.split_alloc_valid [OF assms]
    by (simp add: allocate_registers_def run_strategy_def)
qed

text \<open>C7: for intervals of distinct registers and pools without repetition, \<open>allocate_registers\<close>
  returns under both strategies; every register gets a register of its class's pool or is
  spilled, never both, nothing else is assigned, and two registers of one class whose intervals
  overlap get different physical registers.\<close>

theorem allocate_registers_valid:
  assumes "distinct (map iv_vreg ivs)" "distinct int_pregs" "distinct fp_pregs"
  shows "\<exists>r. allocate_registers ivs int_pregs fp_pregs strategy = Some r \<and>
    valid_split ivs int_pregs fp_pregs r"
  using assms by (rule allocate_split_valid)

definition ivs_example :: "live_interval list" where
  "ivs_example =
     [\<lparr>iv_vreg = 0, iv_start = 0, iv_end = 9\<rparr>, \<lparr>iv_vreg = 1, iv_start = 1, iv_end = 3\<rparr>,
      \<lparr>iv_vreg = 0x80000002, iv_start = 1, iv_end = 4\<rparr>, \<lparr>iv_vreg = 3, iv_start = 3, iv_end = 5\<rparr>]"

lemma allocate_registers_valid_witness:
  "\<exists>r. allocate_registers ivs_example [7] [16, 17] GraphColor = Some r \<and> valid_split ivs_example [7] [16, 17] r"
  by (rule allocate_registers_valid) (simp_all add: ivs_example_def)

text \<open>C29: when no program point has more live intervals than there are registers, the linear scan
  spills nothing.\<close>

theorem linear_scan_spills_nothing:
  assumes "distinct (map iv_vreg ivs)" "distinct pool" "\<forall>i\<in>set ivs. iv_start i < iv_end i"
    "\<forall>t. pressure ivs t \<le> length pool"
  shows "spilled (linear_scan ivs pool) = [] \<and> dom (vreg_to_preg (linear_scan ivs pool)) = iv_vreg ` set ivs"
proof -
  have "spilled (linear_scan ivs pool) = []" by (rule linear_scan_no_spill [OF assms])
  then show ?thesis using valid_allocD(4) [OF linear_scan_valid [OF assms(1,2)]] by simp
qed

lemma linear_scan_spills_nothing_witness:
  "spilled (linear_scan [\<lparr>iv_vreg = 5, iv_start = 0, iv_end = 2\<rparr>] [3]) = [] \<and>
   dom (vreg_to_preg (linear_scan [\<lparr>iv_vreg = 5, iv_start = 0, iv_end = 2\<rparr>] [3])) =
     iv_vreg ` set [\<lparr>iv_vreg = 5, iv_start = 0, iv_end = (2 :: nat)\<rparr>]"
proof (rule linear_scan_spills_nothing)
  have "pressure [\<lparr>iv_vreg = 5, iv_start = 0, iv_end = 2\<rparr>] t \<le> 1" for t
  proof -
    have "{i \<in> set [\<lparr>iv_vreg = 5, iv_start = 0, iv_end = (2 :: nat)\<rparr>]. iv_start i \<le> t \<and> t < iv_end i}
      \<subseteq> {\<lparr>iv_vreg = 5, iv_start = 0, iv_end = 2\<rparr>}" by auto
    from card_mono [OF _ this] show ?thesis by (simp add: pressure_def)
  qed
  then show "\<forall>t. pressure [\<lparr>iv_vreg = 5, iv_start = 0, iv_end = 2\<rparr>] t \<le> length [3 :: preg]" by simp
qed simp_all

text \<open>C30: when every register interferes with fewer registers than the pool has, graph colouring
  spills nothing.\<close>

theorem graph_color_low_degree:
  assumes "distinct (map iv_vreg ivs)" "distinct pool"
    "\<forall>iv\<in>set ivs. card {b \<in> set ivs. iv_vreg b \<noteq> iv_vreg iv \<and> iv_overlap iv b} < length pool"
  shows "\<exists>r. graph_color ivs pool = Some r \<and> spilled r = [] \<and> dom (vreg_to_preg r) = iv_vreg ` set ivs"
proof -
  obtain r where r: "graph_color ivs pool = Some r" "valid_alloc ivs pool r"
    using graph_color_valid [OF assms(1)] by blast
  have "spilled r = []" by (rule graph_color_no_spill [OF assms r(1)])
  then show ?thesis using r valid_allocD(4) [OF r(2)] by simp
qed

lemma graph_color_low_degree_witness:
  "\<exists>r. graph_color ivs_example [1, 2, 3, 4] = Some r \<and> spilled r = [] \<and>
     dom (vreg_to_preg r) = iv_vreg ` set ivs_example"
proof (rule graph_color_low_degree)
  show "\<forall>iv\<in>set ivs_example. card {b \<in> set ivs_example. iv_vreg b \<noteq> iv_vreg iv \<and> iv_overlap iv b}
    < length [1, 2, 3, 4 :: preg]"
  proof
    fix iv assume iv: "iv \<in> set ivs_example"
    have "card {b \<in> set ivs_example. iv_vreg b \<noteq> iv_vreg iv \<and> iv_overlap iv b} < card (set ivs_example)"
      using iv by (intro psubset_card_mono) auto
    also have "\<dots> \<le> length ivs_example" by (rule card_length)
    finally show "card {b \<in> set ivs_example. iv_vreg b \<noteq> iv_vreg iv \<and> iv_overlap iv b}
      < length [1, 2, 3, 4 :: preg]" by (simp add: ivs_example_def)
  qed
qed (simp_all add: ivs_example_def)

end
