(* ===== verification/Codegen_Live.thy ===== *)
theory Codegen_Live
  imports Codegen_Allocate
begin

text \<open>
  Live intervals (\<open>compute_live_intervals\<close> in \<open>llvm-codegen/src/regalloc.rs\<close>): the scan over all
  instructions, the depth-first search for back edges and the extension of the intervals across
  them. The hash map is an association list; its order is lost in the final sort.
\<close>

section \<open>The scan\<close>

type_synonym range_map = "(vreg \<times> nat \<times> nat) list"

definition instr_regs :: "minstr \<Rightarrow> vreg list" where
  \<comment> \<open>the destination, then the register operands\<close>
  "instr_regs mi = (case mi_dst mi of Some d \<Rightarrow> [d] | None \<Rightarrow> []) @
     List.map_filter (\<lambda>op. case op of MVReg v \<Rightarrow> Some v | _ \<Rightarrow> None) (mi_operands mi)"

definition live_touch :: "nat \<Rightarrow> range_map \<Rightarrow> vreg \<Rightarrow> range_map" where
  \<comment> \<open>\<open>map.entry(v).or_insert((pos, pos + 1))\<close>, then widened to hold \<open>pos\<close>\<close>
  "live_touch pos m v =
     (case map_of m v of
        None \<Rightarrow> m @ [(v, pos, pos + 1)]
      | Some _ \<Rightarrow> map (\<lambda>(u, s, e). if u = v then (u, min pos s, max (pos + 1) e) else (u, s, e)) m)"

definition live_instr :: "range_map \<times> nat \<Rightarrow> minstr \<Rightarrow> range_map \<times> nat" where
  "live_instr mp mi = (case mp of (m, pos) \<Rightarrow> (foldl (live_touch pos) m (instr_regs mi), pos + 1))"

definition live_scan :: "machine_block list \<Rightarrow> range_map" where
  "live_scan blocks = fst (foldl (\<lambda>mp b. foldl live_instr mp (mb_instrs b)) ([], 0) blocks)"

section \<open>Back edges\<close>

definition block_targets :: "machine_block \<Rightarrow> nat list" where
  "block_targets b = List.map_filter (\<lambda>op. case op of MBlock t \<Rightarrow> Some t | _ \<Rightarrow> None)
     (concat (map mi_operands (mb_instrs b)))"

primrec block_starts :: "nat \<Rightarrow> machine_block list \<Rightarrow> nat list" where
  "block_starts p [] = []"
| "block_starts p (b # bs) = p # block_starts (p + length (mb_instrs b)) bs"

definition total_instrs :: "machine_block list \<Rightarrow> nat" where
  "total_instrs blocks = sum_list (map (length \<circ> mb_instrs) blocks)"

definition has_backward_branch :: "machine_block list \<Rightarrow> bool" where
  "has_backward_branch blocks =
     (\<exists>bi\<in>set [0..<length blocks]. \<exists>t\<in>set (block_targets (blocks ! bi)). t < bi)"

datatype color = White | Gray | Black

type_synonym dfs_stack = "(nat \<times> nat list) list"

function dfs_back ::
  "machine_block list \<Rightarrow> color list \<Rightarrow> dfs_stack \<Rightarrow> (nat \<times> nat) list \<Rightarrow> (nat \<times> nat) list" where
  \<comment> \<open>a frame holds a block and its targets the cursor \<open>(ii, oi)\<close> has not passed\<close>
  "dfs_back blocks color [] bes = bes"
| "dfs_back blocks color ((u, []) # stack) bes = dfs_back blocks (color[u := Black]) stack bes"
| "dfs_back blocks color ((u, v # vs) # stack) bes =
     (if v < length color then
        (case color ! v of
           Gray \<Rightarrow> dfs_back blocks color ((u, vs) # stack) (bes @ [(u, v)])
         | White \<Rightarrow> dfs_back blocks (color[v := Gray])
                     ((v, block_targets (blocks ! v)) # (u, vs) # stack) bes
         | Black \<Rightarrow> dfs_back blocks color ((u, vs) # stack) bes)
      else dfs_back blocks color ((u, vs) # stack) bes)"
  by pat_completeness auto

definition dfs_measure :: "color list \<Rightarrow> dfs_stack \<Rightarrow> nat \<times> nat" where
  "dfs_measure color stack = (count_list color White, sum_list (map (\<lambda>(_, vs). length vs + 1) stack))"

lemma count_list_update:
  "i < length xs \<Longrightarrow> y \<noteq> x \<Longrightarrow> count_list (xs[i := y]) x = (if xs ! i = x then count_list xs x - 1 else count_list xs x)"
proof (induction xs arbitrary: i)
  case (Cons z xs)
  have "xs ! j = x \<Longrightarrow> j < length xs \<Longrightarrow> 0 < count_list xs x" for j
    by (metis count_list_0_iff gr0I nth_mem)
  then show ?case using Cons by (cases i) auto
qed simp

lemma count_list_pos: "i < length xs \<Longrightarrow> xs ! i = x \<Longrightarrow> 0 < count_list xs x"
  by (metis count_list_0_iff gr0I nth_mem)

lemma count_update_le: "y \<noteq> x \<Longrightarrow> count_list (xs[i := y]) x \<le> count_list xs x"
  by (cases "i < length xs") (simp_all add: count_list_update list_update_beyond)

termination dfs_back
proof (relation "inv_image (less_than <*lex*> less_than) (\<lambda>(blocks, color, stack, bes). dfs_measure color stack)",
    goal_cases)
  case (2 blocks color u stack bes)
  have "count_list (color[u := Black]) White \<le> count_list color White" by (rule count_update_le) simp
  then show ?case by (auto simp: dfs_measure_def)
next
  case (3 blocks color u v vs stack bes)
  then have "count_list (color[v := Gray]) White < count_list color White"
    using count_list_pos [of v color White] by (simp add: count_list_update)
  then show ?case by (simp add: dfs_measure_def)
qed (auto simp: dfs_measure_def)

definition back_edges :: "machine_block list \<Rightarrow> (nat \<times> nat) list" where
  "back_edges blocks =
     (if blocks = [] then []
      else dfs_back blocks ((replicate (length blocks) White)[0 := Gray])
             [(0, block_targets (blocks ! 0))] [])"

section \<open>The extension across back edges\<close>

definition block_dsts :: "machine_block \<Rightarrow> vreg list" where
  "block_dsts b = List.map_filter mi_dst (mb_instrs b)"

definition block_start :: "machine_block list \<Rightarrow> nat \<Rightarrow> nat" where
  "block_start blocks i = block_starts 0 blocks ! i"

definition block_end :: "machine_block list \<Rightarrow> nat \<Rightarrow> nat" where
  \<comment> \<open>\<open>blk_start.get(i + 1).unwrap_or(total)\<close>\<close>
  "block_end blocks i =
     (if i + 1 < length blocks then block_starts 0 blocks ! (i + 1) else total_instrs blocks)"

definition extend_entry :: "machine_block list \<Rightarrow> nat \<times> nat \<Rightarrow> vreg \<times> nat \<times> nat \<Rightarrow> vreg \<times> nat \<times> nat" where
  "extend_entry blocks edge entry =
     (case (edge, entry) of ((from, to), (v, s, e)) \<Rightarrow>
        if v \<notin> set (block_dsts (blocks ! from)) \<and> s < block_start blocks to \<and>
          block_start blocks to < e \<and> e < block_end blocks from
        then (v, s, block_end blocks from) else entry)"

definition extend_round :: "machine_block list \<Rightarrow> (nat \<times> nat) list \<Rightarrow> range_map \<Rightarrow> range_map" where
  \<comment> \<open>one pass of \<open>while changed\<close>\<close>
  "extend_round blocks bes m = foldl (\<lambda>m edge. map (extend_entry blocks edge) m) m bes"

definition extend_room :: "machine_block list \<Rightarrow> range_map \<Rightarrow> nat" where
  "extend_room blocks m = sum_list (map (\<lambda>(_, _, e). total_instrs blocks - e) m)"

lemma block_starts_le: "i < length bs \<Longrightarrow> block_starts p bs ! i \<le> p + total_instrs bs"
proof (induction bs arbitrary: p i)
  case (Cons b bs)
  then show ?case
    by (cases i) (auto simp: total_instrs_def add.assoc [symmetric] dest!: Cons.IH [where p = "p + length (mb_instrs b)"])
qed simp

lemma length_block_starts [simp]: "length (block_starts p bs) = length bs"
  by (induction bs arbitrary: p) auto

lemma block_end_le: "block_end blocks i \<le> total_instrs blocks"
  using block_starts_le [of "i + 1" blocks 0] by (simp add: block_end_def)

lemma extend_entry_cases:
  "extend_entry blocks edge (v, s, e) = (v, s, e) \<or>
   (\<exists>e'. extend_entry blocks edge (v, s, e) = (v, s, e') \<and> e < e' \<and> e' \<le> total_instrs blocks)"
  using block_end_le by (cases edge) (auto simp: extend_entry_def)

lemma extend_pass_room:
  "map (extend_entry blocks edge) m = m \<or>
   extend_room blocks (map (extend_entry blocks edge) m) < extend_room blocks m"
proof (induction m)
  case (Cons x m)
  obtain v s e where x: "x = (v, s, e)" by (cases x)
  consider (same) "extend_entry blocks edge x = x"
    | (grown) e' where "extend_entry blocks edge x = (v, s, e')" "e < e'" "e' \<le> total_instrs blocks"
    using extend_entry_cases x by metis
  then show ?case
  proof cases
    case same
    then show ?thesis using Cons by (auto simp: extend_room_def)
  next
    case grown
    have "extend_room blocks (map (extend_entry blocks edge) m) \<le> extend_room blocks m" using Cons by auto
    then show ?thesis using grown by (auto simp: extend_room_def x)
  qed
qed simp

lemma extend_round_room: "extend_round blocks bes m = m \<or> extend_room blocks (extend_round blocks bes m) < extend_room blocks m"
proof (induction bes arbitrary: m)
  case (Cons edge bes)
  show ?case
    using Cons [of "map (extend_entry blocks edge) m"] extend_pass_room [of blocks edge m]
    by (auto simp: extend_round_def)
qed (simp add: extend_round_def)

function extend_fix :: "machine_block list \<Rightarrow> (nat \<times> nat) list \<Rightarrow> range_map \<Rightarrow> range_map" where
  "extend_fix blocks bes m =
     (let m' = extend_round blocks bes m in if m' = m then m else extend_fix blocks bes m')"
  by pat_completeness auto
termination extend_fix
  by (relation "measure (\<lambda>(blocks, bes, m). extend_room blocks m)") (use extend_round_room in auto)

declare extend_fix.simps [simp del]

definition compute_live_intervals :: "machine_function \<Rightarrow> live_interval list" where
  "compute_live_intervals mf =
     (let blocks = mf_blocks mf;
          m = live_scan blocks;
          m = (if has_backward_branch blocks then extend_fix blocks (back_edges blocks) m else m)
      in sort_key iv_key (map (\<lambda>(v, s, e). \<lparr>iv_vreg = v, iv_start = s, iv_end = e\<rparr>) m))"

section \<open>What the intervals cover\<close>

definition flat_instrs :: "machine_function \<Rightarrow> minstr list" where
  "flat_instrs mf = concat (map mb_instrs (mf_blocks mf))"

definition occurs_at :: "machine_function \<Rightarrow> vreg \<Rightarrow> nat \<Rightarrow> bool" where
  \<comment> \<open>the instruction at flat position \<open>p\<close> defines or uses \<open>v\<close>\<close>
  "occurs_at mf v p \<longleftrightarrow> p < length (flat_instrs mf) \<and> v \<in> set (instr_regs (flat_instrs mf ! p))"

definition range_ok :: "minstr list \<Rightarrow> range_map \<Rightarrow> bool" where
  \<comment> \<open>each occurring register once, from its first to past its last occurrence\<close>
  "range_ok ins m \<longleftrightarrow> distinct (map fst m) \<and>
     (\<forall>v s e. (v, s, e) \<in> set m \<longrightarrow> s < e \<and> e \<le> length ins \<and> v \<in> set (instr_regs (ins ! s))) \<and>
     (\<forall>p<length ins. \<forall>v\<in>set (instr_regs (ins ! p)). \<exists>s e. (v, s, e) \<in> set m \<and> s \<le> p \<and> p < e)"

text \<open>The same over one instruction half scanned: the registers \<open>vs\<close> of the last one are done.\<close>

definition touched_ok :: "minstr list \<Rightarrow> nat \<Rightarrow> vreg list \<Rightarrow> range_map \<Rightarrow> bool" where
  "touched_ok ins pos vs m \<longleftrightarrow> distinct (map fst m) \<and>
     (\<forall>v s e. (v, s, e) \<in> set m \<longrightarrow> s < e \<and> e \<le> pos + 1 \<and>
        (s < pos \<and> v \<in> set (instr_regs (ins ! s)) \<or> s = pos \<and> v \<in> set vs)) \<and>
     (\<forall>p<pos. \<forall>v\<in>set (instr_regs (ins ! p)). \<exists>s e. (v, s, e) \<in> set m \<and> s \<le> p \<and> p < e) \<and>
     (\<forall>v\<in>set vs. \<exists>s e. (v, s, e) \<in> set m \<and> s \<le> pos \<and> pos < e)"

lemma live_touch_ok:
  assumes "touched_ok ins pos vs m"
  shows "touched_ok ins pos (vs @ [v]) (live_touch pos m v)"
proof (cases "map_of m v")
  case None
  then have new: "v \<notin> fst ` set m" by (simp add: map_of_eq_None_iff)
  have m: "live_touch pos m v = m @ [(v, pos, pos + 1)]" using None by (simp add: live_touch_def)
  show ?thesis unfolding m using assms new by (fastforce simp: touched_ok_def)
next
  case (Some se)
  let ?f = "\<lambda>(u, s, e). if u = v then (u, min pos s, max (pos + 1) e) else (u, s, e)"
  have m: "live_touch pos m v = map ?f m" using Some by (simp add: live_touch_def)
  obtain s e where in_m: "(v, s, e) \<in> set m" using Some by (cases se) (auto dest: map_of_SomeD)
  have fst: "map fst (map ?f m) = map fst m" by auto
  have d: "distinct (map fst m)" using assms by (simp add: touched_ok_def)
  have img: "?f (u, s, e) \<in> set (map ?f m)" if "(u, s, e) \<in> set m" for u s e
    using that unfolding set_map by (rule imageI)
  have keep: "\<exists>s' e'. (u, s', e') \<in> set (map ?f m) \<and> s' \<le> q \<and> q < e'"
    if se: "(u, s, e) \<in> set m" "s \<le> q" "q < e" for u s e q
  proof (cases "u = v")
    case True
    then have "(u, min pos s, max (pos + 1) e) \<in> set (map ?f m)" using img [OF se(1)] by simp
    then show ?thesis using se(2,3) by - (rule exI, rule exI, erule conjI, auto)
  next
    case False
    then have "(u, s, e) \<in> set (map ?f m)" using img [OF se(1)] by simp
    then show ?thesis using se(2,3) by blast
  qed
  have v: "\<exists>s' e'. (v, s', e') \<in> set (map ?f m) \<and> s' \<le> pos \<and> pos < e'"
  proof -
    have "(v, min pos s, max (pos + 1) e) \<in> set (map ?f m)" using img [OF in_m] by simp
    then show ?thesis by - (rule exI, rule exI, erule conjI, auto)
  qed
  have old: "s < e \<and> e \<le> pos + 1 \<and> (s < pos \<and> u \<in> set (instr_regs (ins ! s)) \<or> s = pos \<and> u \<in> set vs)"
    if "(u, s, e) \<in> set m" for u s e
    using assms that unfolding touched_ok_def by blast
  have "s' < e' \<and> e' \<le> pos + 1 \<and> (s' < pos \<and> u \<in> set (instr_regs (ins ! s')) \<or> s' = pos \<and> u \<in> set (vs @ [v]))"
    if se: "(u, s', e') \<in> set (map ?f m)" for u s' e'
  proof -
    obtain s e where "(u, s, e) \<in> set m" "s' = (if u = v then min pos s else s)" "e' = (if u = v then max (pos + 1) e else e)"
      using se by (auto split: if_splits)
    then show ?thesis using old [of u s e] by (auto simp: min_def max_def)
  qed
  then have "\<forall>u s e. (u, s, e) \<in> set (map ?f m) \<longrightarrow> s < e \<and> e \<le> pos + 1 \<and>
      (s < pos \<and> u \<in> set (instr_regs (ins ! s)) \<or> s = pos \<and> u \<in> set (vs @ [v]))"
    by blast
  moreover have "\<exists>s e. (u, s, e) \<in> set (map ?f m) \<and> s \<le> p \<and> p < e"
    if pu: "p < pos" "u \<in> set (instr_regs (ins ! p))" for p u
  proof -
    obtain s e where "(u, s, e) \<in> set m" "s \<le> p" "p < e" using assms pu unfolding touched_ok_def by blast
    then show ?thesis by (rule keep)
  qed
  moreover have "\<exists>s e. (u, s, e) \<in> set (map ?f m) \<and> s \<le> pos \<and> pos < e" if u: "u \<in> set (vs @ [v])" for u
  proof (cases "u = v")
    case False
    then obtain s e where "(u, s, e) \<in> set m" "s \<le> pos" "pos < e" using assms u unfolding touched_ok_def by auto
    then show ?thesis by (rule keep)
  qed (use v in simp)
  ultimately show ?thesis unfolding m touched_ok_def fst using d by blast
qed

lemma live_instr_ok:
  assumes "range_ok ins m"
  shows "range_ok (ins @ [mi]) (foldl (live_touch (length ins)) m (instr_regs mi))"
proof -
  have t: "touched_ok (ins @ [mi]) (length ins) (vs @ ws) (foldl (live_touch (length ins)) m ws)"
    if "touched_ok (ins @ [mi]) (length ins) vs m" for vs ws m
    using that
  proof (induction ws arbitrary: vs m)
    case (Cons w ws)
    show ?case using Cons.IH [OF live_touch_ok [OF Cons.prems]] by simp
  qed simp
  have "touched_ok (ins @ [mi]) (length ins) [] m"
    using assms by (fastforce simp: touched_ok_def range_ok_def nth_append)
  from t [OF this, of "instr_regs mi"] show ?thesis
    by (fastforce simp: touched_ok_def range_ok_def nth_append less_Suc_eq)
qed

lemma live_instrs_ok:
  assumes "range_ok ins m"
  shows "range_ok (ins @ is') (fst (foldl live_instr (m, length ins) is')) \<and>
    snd (foldl live_instr (m, length ins) is') = length (ins @ is')"
  using assms
proof (induction is' arbitrary: ins m)
  case (Cons mi is')
  show ?case using Cons.IH [OF live_instr_ok [OF Cons.prems, of mi]] by (simp add: live_instr_def)
qed simp

lemma live_scan_ok: "range_ok (concat (map mb_instrs blocks)) (live_scan blocks)"
proof -
  have "range_ok (ins @ concat (map mb_instrs blocks))
      (fst (foldl (\<lambda>mp b. foldl live_instr mp (mb_instrs b)) (m, length ins) blocks))"
    if "range_ok ins m" for ins m
    using that
  proof (induction blocks arbitrary: ins m)
    case (Cons b blocks)
    note r = live_instrs_ok [OF Cons.prems, of "mb_instrs b"]
    have eq: "foldl live_instr (m, length ins) (mb_instrs b) =
        (fst (foldl live_instr (m, length ins) (mb_instrs b)), length (ins @ mb_instrs b))"
      using r by (metis prod.collapse)
    show ?case using Cons.IH [OF conjunct1 [OF r]] unfolding eq [symmetric] by simp
  qed simp
  from this [of "[]" "[]"] show ?thesis by (simp add: range_ok_def live_scan_def)
qed

section \<open>The extension keeps the starts and only grows the ends\<close>

definition grown :: "nat \<Rightarrow> vreg \<times> nat \<times> nat \<Rightarrow> vreg \<times> nat \<times> nat \<Rightarrow> bool" where
  "grown tot x y = (case (x, y) of ((v, s, e), (v', s', e')) \<Rightarrow> v' = v \<and> s' = s \<and> e \<le> e' \<and> e' \<le> max tot e)"

definition grows :: "nat \<Rightarrow> range_map \<Rightarrow> range_map \<Rightarrow> bool" where
  "grows tot m m' \<longleftrightarrow> list_all2 (grown tot) m m'"

lemma grows_refl: "grows t m m"
  by (auto simp: grows_def grown_def intro: list.rel_refl)

lemma grows_trans: "grows t a b \<Longrightarrow> grows t b c \<Longrightarrow> grows t a c"
  unfolding grows_def by (rule list_all2_trans [of "grown t" "grown t" "grown t"]) (auto simp: grown_def max_def split: if_splits)

lemma extend_pass_grows: "grows (total_instrs blocks) m (map (extend_entry blocks edge) m)"
proof -
  have "grown (total_instrs blocks) x (extend_entry blocks edge x)" for x
  proof (cases x)
    case (fields v s e)
    then show ?thesis using extend_entry_cases [of blocks edge v s e] by (auto simp: grown_def)
  qed
  then show ?thesis by (auto simp: grows_def list_all2_map2 intro: list.rel_refl)
qed

lemma list_all2_in1: "list_all2 P xs ys \<Longrightarrow> x \<in> set xs \<Longrightarrow> \<exists>y\<in>set ys. P x y"
  by (induction rule: list_all2_induct) auto

lemma list_all2_in2: "list_all2 P xs ys \<Longrightarrow> y \<in> set ys \<Longrightarrow> \<exists>x\<in>set xs. P x y"
  by (induction rule: list_all2_induct) auto

lemma extend_round_grows: "grows (total_instrs blocks) m (extend_round blocks bes m)"
proof (induction bes arbitrary: m)
  case (Cons edge bes)
  show ?case using grows_trans [OF extend_pass_grows Cons] by (simp add: extend_round_def)
qed (simp add: extend_round_def grows_refl)

lemma extend_fix_grows: "grows (total_instrs blocks) m (extend_fix blocks bes m)"
proof (induction blocks bes m rule: extend_fix.induct)
  case (1 blocks bes m)
  show ?case
    using "1.IH" [OF refl] extend_round_grows [of blocks m bes] grows_trans
    by (subst extend_fix.simps) (auto simp: Let_def grows_refl)
qed

lemma extend_fix_fixpoint: "extend_round blocks bes (extend_fix blocks bes m) = extend_fix blocks bes m"
proof (induction blocks bes m rule: extend_fix.induct)
  case (1 blocks bes m)
  then show ?case by (simp add: extend_fix.simps [of blocks bes m] Let_def)
qed

lemma extend_round_fixed:
  "extend_round blocks bes m = m \<Longrightarrow> edge \<in> set bes \<Longrightarrow> map (extend_entry blocks edge) m = m"
proof (induction bes)
  case (Cons e bes)
  let ?m = "map (extend_entry blocks e) m"
  have "?m = m"
    using extend_pass_room [of blocks e m] extend_round_room [of blocks bes ?m] Cons.prems(1)
    by (auto simp: extend_round_def)
  then show ?case using Cons by (auto simp: extend_round_def)
qed simp

lemma grows_in: "grows t m m' \<Longrightarrow> (v, s, e) \<in> set m \<Longrightarrow> \<exists>e'. (v, s, e') \<in> set m' \<and> e \<le> e'"
  unfolding grows_def by (drule (1) list_all2_in1) (auto simp: grown_def)

lemma grows_in_rev:
  "grows t m m' \<Longrightarrow> (v, s, e') \<in> set m' \<Longrightarrow> \<exists>e. (v, s, e) \<in> set m \<and> e \<le> e' \<and> e' \<le> max t e"
  unfolding grows_def by (drule (1) list_all2_in2) (auto simp: grown_def)

lemma grows_fst: "grows t m m' \<Longrightarrow> map fst m' = map fst m"
  unfolding grows_def by (induction rule: list_all2_induct) (auto simp: grown_def)

lemma grows_range_ok:
  assumes "grows (length ins) m m'" "range_ok ins m"
  shows "range_ok ins m'"
proof -
  have "s < e' \<and> e' \<le> length ins \<and> v \<in> set (instr_regs (ins ! s))" if se: "(v, s, e') \<in> set m'" for v s e'
  proof -
    obtain e where "(v, s, e) \<in> set m" "e \<le> e'" "e' \<le> max (length ins) e" using grows_in_rev [OF assms(1) se] by blast
    then show ?thesis using assms(2) unfolding range_ok_def by fastforce
  qed
  moreover have "\<exists>s e. (v, s, e) \<in> set m' \<and> s \<le> p \<and> p < e"
    if p: "p < length ins" "v \<in> set (instr_regs (ins ! p))" for p v
  proof -
    obtain s e where se: "(v, s, e) \<in> set m" "s \<le> p" "p < e" using assms(2) p unfolding range_ok_def by blast
    obtain e' where "(v, s, e') \<in> set m'" "e \<le> e'" using grows_in [OF assms(1) se(1)] by blast
    then show ?thesis using se by (meson less_le_trans)
  qed
  moreover have "distinct (map fst m')" using assms(2) grows_fst [OF assms(1)] by (simp add: range_ok_def)
  ultimately show ?thesis unfolding range_ok_def by blast
qed

definition live_ranges :: "machine_function \<Rightarrow> range_map" where
  "live_ranges mf =
     (if has_backward_branch (mf_blocks mf)
      then extend_fix (mf_blocks mf) (back_edges (mf_blocks mf)) (live_scan (mf_blocks mf))
      else live_scan (mf_blocks mf))"

lemma length_flat: "length (flat_instrs mf) = total_instrs (mf_blocks mf)"
  by (simp add: flat_instrs_def total_instrs_def length_concat comp_def)

lemma live_ranges_ok: "range_ok (flat_instrs mf) (live_ranges mf)"
  using live_scan_ok [of "mf_blocks mf"] extend_fix_grows [of "mf_blocks mf" "live_scan (mf_blocks mf)" "back_edges (mf_blocks mf)"]
  by (auto simp: live_ranges_def flat_instrs_def [symmetric] length_flat [symmetric] intro: grows_range_ok)

lemma compute_live_intervals_ranges:
  "compute_live_intervals mf =
     sort_key iv_key (map (\<lambda>(v, s, e). \<lparr>iv_vreg = v, iv_start = s, iv_end = e\<rparr>) (live_ranges mf))"
  by (simp add: compute_live_intervals_def live_ranges_def Let_def)

lemma live_interval_in:
  "iv \<in> set (compute_live_intervals mf) \<longleftrightarrow> (iv_vreg iv, iv_start iv, iv_end iv) \<in> set (live_ranges mf)"
  by (cases iv) (force simp: compute_live_intervals_ranges image_iff)

lemma distinct_map_sort: "distinct (map f (sort_key k xs)) = distinct (map f xs)"
  by (simp add: distinct_map)

lemma distinct_intervals: "distinct (map iv_vreg (compute_live_intervals mf))"
proof -
  let ?xs = "map (\<lambda>(v, s, e). \<lparr>iv_vreg = v, iv_start = s, iv_end = e\<rparr>) (live_ranges mf)"
  have "map iv_vreg ?xs = map fst (live_ranges mf)" by auto
  then have "distinct (map iv_vreg ?xs)" using live_ranges_ok [of mf] by (simp only: range_ok_def)
  then show ?thesis unfolding compute_live_intervals_ranges distinct_map_sort .
qed

lemma interval_covers:
  "occurs_at mf v p \<longleftrightarrow> p < length (flat_instrs mf) \<and> v \<in> set (instr_regs (flat_instrs mf ! p))"
  "occurs_at mf v p \<Longrightarrow> \<exists>iv\<in>set (compute_live_intervals mf). iv_vreg iv = v \<and> iv_start iv \<le> p \<and> p < iv_end iv"
proof -
  show "occurs_at mf v p \<longleftrightarrow> p < length (flat_instrs mf) \<and> v \<in> set (instr_regs (flat_instrs mf ! p))"
    by (simp add: occurs_at_def)
  assume "occurs_at mf v p"
  then obtain s e where "(v, s, e) \<in> set (live_ranges mf)" "s \<le> p" "p < e"
    using live_ranges_ok [of mf] unfolding range_ok_def occurs_at_def by blast
  then show "\<exists>iv\<in>set (compute_live_intervals mf). iv_vreg iv = v \<and> iv_start iv \<le> p \<and> p < iv_end iv"
    using live_interval_in [of "\<lparr>iv_vreg = v, iv_start = s, iv_end = e\<rparr>" mf]
    by (intro bexI [of _ "\<lparr>iv_vreg = v, iv_start = s, iv_end = e\<rparr>"]) simp_all
qed

section \<open>Control paths and liveness\<close>

definition instr_targets :: "minstr \<Rightarrow> nat list" where
  "instr_targets mi = List.map_filter (\<lambda>op. case op of MBlock t \<Rightarrow> Some t | _ \<Rightarrow> None) (mi_operands mi)"

definition mstep :: "machine_function \<Rightarrow> nat \<Rightarrow> nat \<Rightarrow> bool" where
  \<comment> \<open>control may pass from the instruction at flat position \<open>p\<close> to the next one or to a target\<close>
  "mstep mf p q \<longleftrightarrow> p < length (flat_instrs mf) \<and>
     (q = p + 1 \<or> (\<exists>t\<in>set (instr_targets (flat_instrs mf ! p)).
        t < length (mf_blocks mf) \<and> q = block_start (mf_blocks mf) t))"

definition live_at :: "machine_function \<Rightarrow> vreg \<Rightarrow> nat \<Rightarrow> bool" where
  \<comment> \<open>a control path from an occurrence of \<open>v\<close> to an occurrence passes through \<open>p\<close>\<close>
  "live_at mf v p \<longleftrightarrow> (\<exists>a b. occurs_at mf v a \<and> occurs_at mf v b \<and> (mstep mf)\<^sup>*\<^sup>* a p \<and> (mstep mf)\<^sup>*\<^sup>* p b)"

definition forward_only :: "machine_function \<Rightarrow> bool" where
  \<comment> \<open>every branch goes to a block laid out later\<close>
  "forward_only mf \<longleftrightarrow> (\<forall>i<length (mf_blocks mf). \<forall>t\<in>set (block_targets (mf_blocks mf ! i)). i < t)"

lemma block_starts_take: "i < length bs \<Longrightarrow> block_starts p bs ! i = p + total_instrs (take i bs)"
proof (induction bs arbitrary: p i)
  case (Cons b bs)
  then show ?case by (cases i) (simp_all add: total_instrs_def)
qed simp

lemma total_instrs_split:
  "i < length bs \<Longrightarrow> total_instrs (take (Suc i) bs) = total_instrs (take i bs) + length (mb_instrs (bs ! i))"
  by (simp add: total_instrs_def take_Suc_conv_app_nth)

lemma total_instrs_mono: "i \<le> j \<Longrightarrow> total_instrs (take i bs) \<le> total_instrs (take j bs)"
  by (auto simp: total_instrs_def take_add dest!: le_Suc_ex)

lemma flat_position:
  "p < length (concat (map mb_instrs bs)) \<Longrightarrow>
   \<exists>i<length bs. total_instrs (take i bs) \<le> p \<and> p < total_instrs (take (Suc i) bs) \<and>
     concat (map mb_instrs bs) ! p \<in> set (mb_instrs (bs ! i))"
proof (induction bs arbitrary: p)
  case (Cons b bs)
  show ?case
  proof (cases "p < length (mb_instrs b)")
    case True
    then show ?thesis by (intro exI [of _ 0]) (simp add: total_instrs_def nth_append)
  next
    case False
    then have "p - length (mb_instrs b) < length (concat (map mb_instrs bs))" using Cons.prems by simp
    from Cons.IH [OF this] obtain i where i: "i < length bs"
      "total_instrs (take i bs) \<le> p - length (mb_instrs b)" "p - length (mb_instrs b) < total_instrs (take (Suc i) bs)"
      "concat (map mb_instrs bs) ! (p - length (mb_instrs b)) \<in> set (mb_instrs (bs ! i))" by blast
    then show ?thesis using False by (intro exI [of _ "Suc i"]) (auto simp: total_instrs_def nth_append)
  qed
qed simp

lemma instr_targets_block: "mi \<in> set (mb_instrs b) \<Longrightarrow> set (instr_targets mi) \<subseteq> set (block_targets b)"
  by (force simp: instr_targets_def block_targets_def in_map_filter)

lemma mstep_forward:
  assumes "forward_only mf" "mstep mf p q"
  shows "p < q"
proof -
  let ?bs = "mf_blocks mf"
  obtain i where i: "i < length ?bs" "p < total_instrs (take (Suc i) ?bs)" "flat_instrs mf ! p \<in> set (mb_instrs (?bs ! i))"
    using flat_position [of p ?bs] assms(2) by (auto simp: mstep_def flat_instrs_def)
  have "p < block_start ?bs t" if t: "t \<in> set (instr_targets (flat_instrs mf ! p))" "t < length ?bs" for t
  proof -
    have "i < t" using assms(1) i instr_targets_block t(1) unfolding forward_only_def by blast
    then have "total_instrs (take (Suc i) ?bs) \<le> total_instrs (take t ?bs)" by (intro total_instrs_mono) simp
    then show ?thesis using i(2) t(2) by (simp add: block_start_def block_starts_take)
  qed
  then show ?thesis using assms(2) by (auto simp: mstep_def)
qed

lemma mpath_forward: "(mstep mf)\<^sup>*\<^sup>* p q \<Longrightarrow> forward_only mf \<Longrightarrow> p \<le> q"
  by (induction rule: rtranclp_induct) (auto dest: mstep_forward)

lemma live_at_interval:
  assumes f: "forward_only mf" and l: "live_at mf v p"
  shows "\<exists>iv\<in>set (compute_live_intervals mf). iv_vreg iv = v \<and> iv_start iv \<le> p \<and> p < iv_end iv"
proof -
  obtain a b where ab: "occurs_at mf v a" "occurs_at mf v b" "a \<le> p" "p \<le> b"
    using l mpath_forward [OF _ f] unfolding live_at_def by blast
  obtain i where i: "i \<in> set (compute_live_intervals mf)" "iv_vreg i = v" "iv_start i \<le> a" "a < iv_end i"
    using interval_covers(2) [OF ab(1)] by blast
  obtain j where j: "j \<in> set (compute_live_intervals mf)" "iv_vreg j = v" "iv_start j \<le> b" "b < iv_end j"
    using interval_covers(2) [OF ab(2)] by blast
  have "i = j" using distinct_intervals [of mf] i j by (simp add: distinct_map inj_on_def)
  then show ?thesis using i j ab(3,4) by (intro bexI [of _ i]) auto
qed

section \<open>Intervals and allocation together\<close>

lemma same_point_distinct:
  assumes pools: "distinct int_pregs" "distinct fp_pregs"
    and a: "allocate_registers (compute_live_intervals mf) int_pregs fp_pregs strategy = Some r"
    and i: "\<exists>iv\<in>set (compute_live_intervals mf). iv_vreg iv = u \<and> iv_start iv \<le> p \<and> p < iv_end iv"
      "\<exists>iv\<in>set (compute_live_intervals mf). iv_vreg iv = v \<and> iv_start iv \<le> p \<and> p < iv_end iv"
    and uv: "u \<noteq> v" "vreg_class u = vreg_class v" "vreg_to_preg r u = Some x"
  shows "vreg_to_preg r v \<noteq> Some x"
proof -
  have "valid_split (compute_live_intervals mf) int_pregs fp_pregs r"
    using allocate_split_valid [OF distinct_intervals pools, of mf strategy] a by auto
  moreover obtain i j where "i \<in> set (compute_live_intervals mf)" "iv_vreg i = u" "iv_start i \<le> p" "p < iv_end i"
    "j \<in> set (compute_live_intervals mf)" "iv_vreg j = v" "iv_start j \<le> p" "p < iv_end j" using i by blast
  moreover from this have "iv_overlap i j" by (simp add: iv_overlap_def)
  ultimately show ?thesis using uv unfolding valid_split_def by metis
qed

text \<open>C20: \<open>compute_live_intervals\<close> returns, sorted by start, end and register, one interval for every
  register that occurs and no other; the interval starts at an occurrence, lies within the function
  and contains every position where its register occurs.\<close>

theorem compute_live_intervals_correct:
  "distinct (map iv_vreg (compute_live_intervals mf)) \<and> sorted (map iv_key (compute_live_intervals mf)) \<and>
   iv_vreg ` set (compute_live_intervals mf) = {v. \<exists>p. occurs_at mf v p} \<and>
   set (compute_live_intervals mf) \<subseteq>
     {iv. occurs_at mf (iv_vreg iv) (iv_start iv) \<and> iv_end iv \<le> length (flat_instrs mf) \<and>
          Collect (occurs_at mf (iv_vreg iv)) \<subseteq> {iv_start iv..<iv_end iv}}"
proof (intro conjI)
  let ?ivs = "compute_live_intervals mf"
  show d: "distinct (map iv_vreg ?ivs)" by (rule distinct_intervals)
  show "sorted (map iv_key ?ivs)" by (simp add: compute_live_intervals_ranges)
  have start: "occurs_at mf (iv_vreg iv) (iv_start iv) \<and> iv_end iv \<le> length (flat_instrs mf)" if "iv \<in> set ?ivs" for iv
    using that live_ranges_ok [of mf] unfolding range_ok_def live_interval_in occurs_at_def by fastforce
  have inside: "iv_start iv \<le> p \<and> p < iv_end iv" if iv: "iv \<in> set ?ivs" "occurs_at mf (iv_vreg iv) p" for iv p
  proof -
    obtain j where j: "j \<in> set ?ivs" "iv_vreg j = iv_vreg iv" "iv_start j \<le> p" "p < iv_end j"
      using interval_covers(2) [OF iv(2)] by blast
    then have "j = iv" using d iv(1) by (simp add: distinct_map inj_on_def)
    then show ?thesis using j by simp
  qed
  show "iv_vreg ` set ?ivs = {v. \<exists>p. occurs_at mf v p}" using start interval_covers(2) by blast
  show "set ?ivs \<subseteq> {iv. occurs_at mf (iv_vreg iv) (iv_start iv) \<and> iv_end iv \<le> length (flat_instrs mf) \<and>
      Collect (occurs_at mf (iv_vreg iv)) \<subseteq> {iv_start iv..<iv_end iv}}"
    using start inside by auto
qed

text \<open>C6: liveness and allocation together. When every branch goes to a later block, two registers of
  one class that are live at the same program point (some control path from an occurrence to an
  occurrence passes through it) are never assigned the same physical register.\<close>

theorem alloc_sound_forward:
  assumes "forward_only mf" "distinct int_pregs" "distinct fp_pregs"
    "allocate_registers (compute_live_intervals mf) int_pregs fp_pregs strategy = Some r"
    "live_at mf u p" "live_at mf v p" "u \<noteq> v" "vreg_class u = vreg_class v" "vreg_to_preg r u = Some x"
  shows "vreg_to_preg r v \<noteq> Some x"
  using same_point_distinct [OF assms(2-4) live_at_interval [OF assms(1,5)] live_at_interval [OF assms(1,6)] assms(7-)] .

text \<open>C26: for every function and both strategies, two different registers of one class that occur in
  the same instruction are never assigned the same physical register.\<close>

theorem alloc_operands_distinct:
  assumes "distinct int_pregs" "distinct fp_pregs"
    "allocate_registers (compute_live_intervals mf) int_pregs fp_pregs strategy = Some r"
    "occurs_at mf u p" "occurs_at mf v p" "u \<noteq> v" "vreg_class u = vreg_class v" "vreg_to_preg r u = Some x"
  shows "vreg_to_preg r v \<noteq> Some x"
  using same_point_distinct [OF assms(1-3) interval_covers(2) [OF assms(4)] interval_covers(2) [OF assms(5)] assms(6-)] .

section \<open>Examples\<close>

definition ex_instr :: "vreg option \<Rightarrow> moperand list \<Rightarrow> minstr" where
  "ex_instr d ops = (minstr_new 0)\<lparr>mi_dst := d, mi_operands := ops\<rparr>"

definition ex_function :: "minstr list list \<Rightarrow> machine_function" where
  "ex_function bs = (mf_new ''f'')\<lparr>mf_blocks := map (\<lambda>ins. \<lparr>mb_label = [], mb_instrs = ins\<rparr>) bs\<rparr>"

lemmas mf_eval = ex_instr_def ex_function_def mf_new_def minstr_new_def
  flat_instrs_def instr_regs_def block_targets_def instr_targets_def block_dsts_def List.map_filter_simps

lemmas scan_eval = live_scan_def live_instr_def live_touch_def has_backward_branch_def upt_rec [of _ "numeral _"]

lemmas extend_eval = back_edges_def extend_fix.simps [of _ "_ # _"] extend_round_def extend_entry_def block_start_def block_end_def
  total_instrs_def

definition straight_mf :: machine_function where
  \<comment> \<open>two blocks: \<open>v0 := ..; v1 := .. v0; jmp 1\<close> and \<open>use v0, v1\<close>\<close>
  "straight_mf = ex_function
     [[ex_instr (Some 0) [], ex_instr (Some 1) [MVReg 0], ex_instr None [MBlock 1]],
      [ex_instr None [MVReg 0, MVReg 1]]]"

lemma live_ranges_forward:
  "\<not> has_backward_branch (mf_blocks mf) \<Longrightarrow> live_ranges mf = live_scan (mf_blocks mf)"
  by (simp add: live_ranges_def)

lemma straight_intervals: "compute_live_intervals straight_mf =
   [\<lparr>iv_vreg = 0, iv_start = 0, iv_end = 4\<rparr>, \<lparr>iv_vreg = 1, iv_start = 1, iv_end = 4\<rparr>]"
proof -
  have "\<not> has_backward_branch (mf_blocks straight_mf)"
    by (simp add: straight_mf_def mf_eval scan_eval)
  moreover have "live_scan (mf_blocks straight_mf) = [(0, 0, 4), (1, 1, 4)]"
    by (simp add: straight_mf_def mf_eval scan_eval)
  ultimately show ?thesis
    by (simp add: compute_live_intervals_ranges live_ranges_forward iv_key_def)
qed

lemma straight_alloc:
  "allocate_registers (compute_live_intervals straight_mf) [4, 5] [] LinearScan =
     Some \<lparr>vreg_to_preg = [0 \<mapsto> 4, 1 \<mapsto> 5], spilled = []\<rparr>"
  unfolding straight_intervals by (simp add: alloc_eval)

lemma straight_occurs: "occurs_at straight_mf 0 0" "occurs_at straight_mf 0 1" "occurs_at straight_mf 1 1"
  "occurs_at straight_mf 0 3" "occurs_at straight_mf 1 3"
  by (simp_all add: straight_mf_def occurs_at_def mf_eval)

lemma straight_steps: "mstep straight_mf 1 2" "mstep straight_mf 2 3"
  by (simp_all add: straight_mf_def mstep_def mf_eval)

lemma alloc_operands_distinct_witness:
  "vreg_to_preg \<lparr>vreg_to_preg = [0 \<mapsto> 4, 1 \<mapsto> 5], spilled = []\<rparr> (1 :: vreg) \<noteq> Some (4 :: preg)"
  by (rule alloc_operands_distinct [OF _ _ straight_alloc straight_occurs(2,3)])
    (simp_all add: vreg_class_def class_bit_def)

lemma alloc_sound_forward_witness:
  "vreg_to_preg \<lparr>vreg_to_preg = [0 \<mapsto> 4, 1 \<mapsto> 5], spilled = []\<rparr> (1 :: vreg) \<noteq> Some (4 :: preg)"
proof (rule alloc_sound_forward [OF _ _ _ straight_alloc])
  show "forward_only straight_mf"
    by (simp add: forward_only_def straight_mf_def mf_eval less_Suc_eq all_conj_distrib)
  have s: "(mstep straight_mf)\<^sup>*\<^sup>* 1 2" "(mstep straight_mf)\<^sup>*\<^sup>* 2 3" using straight_steps by blast+
  show "live_at straight_mf 0 2" unfolding live_at_def using straight_occurs(2,4) s by blast
  show "live_at straight_mf 1 2" unfolding live_at_def using straight_occurs(3,5) s by blast
qed (simp_all add: vreg_class_def class_bit_def)

section \<open>Where the intervals miss liveness\<close>

definition self_loop_mf :: machine_function where
  \<comment> \<open>\<open>v0 := ..; jmp 1\<close>, then the loop \<open>v1 := .. v0; v2 := ..; jmp to itself, using v1 and v2\<close>\<close>
  "self_loop_mf = ex_function
     [[ex_instr (Some 0) [], ex_instr None [MBlock 1]],
      [ex_instr (Some 1) [MVReg 0], ex_instr (Some 2) [], ex_instr None [MVReg 1, MVReg 2, MBlock 1]]]"

lemma self_loop_intervals: "compute_live_intervals self_loop_mf =
   [\<lparr>iv_vreg = 0, iv_start = 0, iv_end = 3\<rparr>, \<lparr>iv_vreg = 1, iv_start = 2, iv_end = 5\<rparr>,
    \<lparr>iv_vreg = 2, iv_start = 3, iv_end = 5\<rparr>]"
proof -
  have "\<not> has_backward_branch (mf_blocks self_loop_mf)"
    by (simp add: self_loop_mf_def mf_eval scan_eval)
  moreover have "live_scan (mf_blocks self_loop_mf) = [(0, 0, 3), (1, 2, 5), (2, 3, 5)]"
    by (simp add: self_loop_mf_def mf_eval scan_eval)
  ultimately show ?thesis
    by (simp add: compute_live_intervals_ranges live_ranges_forward iv_key_def)
qed

text \<open>a loop of a single block is not seen as a loop: \<open>has_backward_branch\<close> asks for a target
  strictly below the block, so no interval is extended. In \<open>self_loop_mf\<close> the register \<open>v0\<close> is defined
  before the loop and used in every iteration, and it shares its physical register with \<open>v2\<close>, which
  the loop defines while \<open>v0\<close> is live; nothing is spilled.\<close>

theorem self_loop_clobbers:
  "\<exists>r. allocate_registers (compute_live_intervals self_loop_mf) [0, 1] [] LinearScan = Some r \<and>
     spilled r = [] \<and> vreg_to_preg r 0 = Some 0 \<and> vreg_to_preg r 2 = Some 0 \<and>
     live_at self_loop_mf 0 3 \<and> mi_dst (flat_instrs self_loop_mf ! 3) = Some 2"
proof -
  have a: "allocate_registers (compute_live_intervals self_loop_mf) [0, 1] [] LinearScan =
      Some \<lparr>vreg_to_preg = [0 \<mapsto> 0, 1 \<mapsto> 1, 2 \<mapsto> 0], spilled = []\<rparr>"
    unfolding self_loop_intervals by (simp add: alloc_eval)
  have o1: "occurs_at self_loop_mf 0 2" by (simp add: self_loop_mf_def occurs_at_def mf_eval)
  have st: "mstep self_loop_mf 2 3" "mstep self_loop_mf 3 4" "mstep self_loop_mf 4 2"
    by (simp_all add: self_loop_mf_def mstep_def mf_eval block_start_def numeral_eq_Suc)
  have "(mstep self_loop_mf)\<^sup>*\<^sup>* 3 2" using st(2,3) by (meson converse_rtranclp_into_rtranclp rtranclp.rtrancl_refl)
  then have "live_at self_loop_mf 0 3" unfolding live_at_def using o1 st(1) by blast
  then show ?thesis using a by (simp add: self_loop_mf_def mf_eval)
qed

definition layout_mf :: machine_function where
  \<comment> \<open>\<open>v0 := ..; jmp 2\<close>, then \<open>use v0\<close>, then block 2: \<open>v1 := ..; use v1; jmp 1\<close>\<close>
  "layout_mf = ex_function
     [[ex_instr (Some 0) [], ex_instr None [MBlock 2]],
      [ex_instr None [MVReg 0]],
      [ex_instr (Some 1) [], ex_instr None [MVReg 1, MBlock 1]]]"

lemma layout_intervals: "compute_live_intervals layout_mf =
   [\<lparr>iv_vreg = 0, iv_start = 0, iv_end = 3\<rparr>, \<lparr>iv_vreg = 1, iv_start = 3, iv_end = 5\<rparr>]"
proof -
  have "back_edges (mf_blocks layout_mf) = []"
    by (simp add: layout_mf_def mf_eval back_edges_def numeral_eq_Suc)
  then have f: "extend_fix (mf_blocks layout_mf) (back_edges (mf_blocks layout_mf)) m = m" for m
    by (subst extend_fix.simps) (simp add: extend_round_def)
  have "live_scan (mf_blocks layout_mf) = [(0, 0, 3), (1, 3, 5)]"
    by (simp add: layout_mf_def mf_eval scan_eval)
  then show ?thesis by (simp add: compute_live_intervals_ranges live_ranges_def f iv_key_def)
qed

text \<open>A branch to an earlier block that closes no loop is ignored. In \<open>layout_mf\<close> block 0 defines
  \<open>v0\<close> and jumps over block 1 to block 2, which jumps back to block 1, where \<open>v0\<close> is used; \<open>v1\<close> of
  block 2 gets the physical register of \<open>v0\<close> although \<open>v0\<close> is live there.\<close>

theorem layout_clobbers:
  "\<exists>r. allocate_registers (compute_live_intervals layout_mf) [0] [] LinearScan = Some r \<and>
     spilled r = [] \<and> vreg_to_preg r 0 = Some 0 \<and> vreg_to_preg r 1 = Some 0 \<and>
     live_at layout_mf 0 3 \<and> mi_dst (flat_instrs layout_mf ! 3) = Some 1"
proof -
  have a: "allocate_registers (compute_live_intervals layout_mf) [0] [] LinearScan =
      Some \<lparr>vreg_to_preg = [0 \<mapsto> 0, 1 \<mapsto> 0], spilled = []\<rparr>"
    unfolding layout_intervals by (simp add: alloc_eval)
  have o1: "occurs_at layout_mf 0 0" "occurs_at layout_mf 0 2" by (simp_all add: layout_mf_def occurs_at_def mf_eval)
  have st: "mstep layout_mf 0 1" "mstep layout_mf 1 3" "mstep layout_mf 3 4" "mstep layout_mf 4 2"
    by (simp_all add: layout_mf_def mstep_def mf_eval block_start_def numeral_eq_Suc)
  have "(mstep layout_mf)\<^sup>*\<^sup>* 0 3" using st(1,2) by (meson converse_rtranclp_into_rtranclp rtranclp.rtrancl_refl)
  moreover have "(mstep layout_mf)\<^sup>*\<^sup>* 3 2" using st(3,4) by (meson converse_rtranclp_into_rtranclp rtranclp.rtrancl_refl)
  ultimately have "live_at layout_mf 0 3" unfolding live_at_def using o1 by blast
  then show ?thesis using a by (simp add: layout_mf_def mf_eval)
qed

definition redef_mf :: machine_function where
  \<comment> \<open>\<open>v0 := ..; jmp 1\<close>, the header \<open>use v0; jmp 2\<close>, the latch \<open>v0 := ..; v1 := ..; use v1; jmp 1\<close>\<close>
  "redef_mf = ex_function
     [[ex_instr (Some 0) [], ex_instr None [MBlock 1]], [ex_instr None [MVReg 0, MBlock 2]],
      [ex_instr (Some 0) [], ex_instr (Some 1) [], ex_instr None [MVReg 1, MBlock 1]]]"

lemma redef_intervals: "compute_live_intervals redef_mf =
   [\<lparr>iv_vreg = 0, iv_start = 0, iv_end = 4\<rparr>, \<lparr>iv_vreg = 1, iv_start = 4, iv_end = 6\<rparr>]"
proof -
  have b: "back_edges (mf_blocks redef_mf) = [(2, 1)]"
    by (simp add: redef_mf_def mf_eval back_edges_def numeral_eq_Suc)
  have "extend_round (mf_blocks redef_mf) [(2, 1)] [(0, 0, 4), (1, 4, 6)] = [(0, 0, 4), (1, 4, 6)]"
    by (simp add: redef_mf_def mf_eval extend_round_def extend_entry_def block_start_def)
  then have f: "extend_fix (mf_blocks redef_mf) [(2, 1)] [(0, 0, 4), (1, 4, 6)] = [(0, 0, 4), (1, 4, 6)]"
    by (subst extend_fix.simps) simp
  have "live_scan (mf_blocks redef_mf) = [(0, 0, 4), (1, 4, 6)]"
    by (simp add: redef_mf_def mf_eval scan_eval)
  then show ?thesis by (simp add: compute_live_intervals_ranges live_ranges_def b [simplified] f [simplified] iv_key_def)
qed

text \<open>The extension leaves out the registers the source of the back edge defines, since their
  interval already reaches into it; it need not reach its end. In \<open>redef_mf\<close> the latch sets \<open>v0\<close> for
  the next iteration, and \<open>v1\<close>, which it defines next, gets the register of \<open>v0\<close>.\<close>

theorem redefinition_clobbers:
  "\<exists>r. allocate_registers (compute_live_intervals redef_mf) [0] [] LinearScan = Some r \<and>
     spilled r = [] \<and> vreg_to_preg r 0 = Some 0 \<and> vreg_to_preg r 1 = Some 0 \<and>
     live_at redef_mf 0 4 \<and> mi_dst (flat_instrs redef_mf ! 4) = Some 1"
proof -
  have a: "allocate_registers (compute_live_intervals redef_mf) [0] [] LinearScan =
      Some \<lparr>vreg_to_preg = [0 \<mapsto> 0, 1 \<mapsto> 0], spilled = []\<rparr>"
    unfolding redef_intervals by (simp add: alloc_eval)
  have o1: "occurs_at redef_mf 0 3" "occurs_at redef_mf 0 2" by (simp_all add: redef_mf_def occurs_at_def mf_eval)
  have st: "mstep redef_mf 3 4" "mstep redef_mf 4 5" "mstep redef_mf 5 2"
    by (simp_all add: redef_mf_def mstep_def mf_eval block_start_def numeral_eq_Suc)
  have "(mstep redef_mf)\<^sup>*\<^sup>* 4 2" using st(2,3) by (meson converse_rtranclp_into_rtranclp rtranclp.rtrancl_refl)
  then have "live_at redef_mf 0 4" unfolding live_at_def using o1 st(1) by blast
  then show ?thesis using a by (simp add: redef_mf_def mf_eval)
qed

end
