(* ===== verification/Codegen_Spill.thy ===== *)
theory Codegen_Spill
  imports Codegen_Live
begin

text \<open>
  Spill code and the final rewrite (\<open>insert_spill_reloads\<close> and \<open>apply_allocation\<close> in
  \<open>llvm-codegen/src/regalloc.rs\<close>), with a semantics of machine blocks in which the meaning of
  the target's opcodes is a parameter.
\<close>

section \<open>Rewriting the instructions\<close>

record spill_opcodes =
  so_load :: mopcode
  so_store :: mopcode
  so_fp_load :: mopcode
  so_fp_store :: mopcode

definition fresh_like :: "machine_function \<Rightarrow> vreg \<Rightarrow> (machine_function \<times> vreg) rust" where
  \<comment> \<open>a fresh register of the class of \<open>v\<close>\<close>
  "fresh_like mf v = (if vreg_class v = RegFloat then fresh_float_vreg mf else fresh_vreg mf)"

definition reload_operand ::
  "spill_opcodes \<Rightarrow> machine_function \<Rightarrow> moperand \<Rightarrow> (machine_function \<times> minstr list \<times> moperand) rust" where
  "reload_operand so mf op =
     (case op of
        MVReg v \<Rightarrow>
          (case mf_spill_slots mf v of
             Some slot \<Rightarrow>
               do { (mf, fresh) \<leftarrow> fresh_like mf v;
                    let opc = (if vreg_class v = RegFloat then so_fp_load so else so_load so);
                    Some (mf, [with_imm (with_dst (minstr_new opc) fresh) (uint slot)], MVReg fresh) }
           | None \<Rightarrow> Some (mf, [], op))
      | _ \<Rightarrow> Some (mf, [], op))"

primrec reload_operands ::
  "spill_opcodes \<Rightarrow> machine_function \<Rightarrow> moperand list \<Rightarrow> (machine_function \<times> minstr list \<times> moperand list) rust" where
  "reload_operands so mf [] = Some (mf, [], [])"
| "reload_operands so mf (op # ops) =
     do { (mf, loads, op) \<leftarrow> reload_operand so mf op;
          (mf, rest, ops) \<leftarrow> reload_operands so mf ops;
          Some (mf, loads @ rest, op # ops) }"

definition store_dst ::
  "spill_opcodes \<Rightarrow> machine_function \<Rightarrow> minstr \<Rightarrow> (machine_function \<times> minstr list) rust" where
  \<comment> \<open>the instruction, its destination rewritten when it is spilled, and the store after it\<close>
  "store_dst so mf mi =
     (case mi_dst mi of
        None \<Rightarrow> Some (mf, [mi])
      | Some d \<Rightarrow>
          (case mf_spill_slots mf d of
             None \<Rightarrow> Some (mf, [mi])
           | Some slot \<Rightarrow>
               do { (mf, fresh) \<leftarrow> fresh_like mf d;
                    let opc = (if vreg_class d = RegFloat then so_fp_store so else so_store so);
                    Some (mf, [mi\<lparr>mi_dst := Some fresh\<rparr>,
                               with_vreg (with_imm (minstr_new opc) (uint slot)) fresh]) }))"

definition spill_instr ::
  "spill_opcodes \<Rightarrow> machine_function \<Rightarrow> minstr \<Rightarrow> (machine_function \<times> minstr list) rust" where
  "spill_instr so mf mi =
     do { (mf, loads, ops) \<leftarrow> reload_operands so mf (mi_operands mi);
          (mf, rest) \<leftarrow> store_dst so mf (mi\<lparr>mi_operands := ops\<rparr>);
          Some (mf, loads @ rest) }"

primrec spill_instrs ::
  "spill_opcodes \<Rightarrow> machine_function \<Rightarrow> minstr list \<Rightarrow> (machine_function \<times> minstr list) rust" where
  "spill_instrs so mf [] = Some (mf, [])"
| "spill_instrs so mf (mi # mis) =
     do { (mf, new) \<leftarrow> spill_instr so mf mi;
          (mf, rest) \<leftarrow> spill_instrs so mf mis;
          Some (mf, new @ rest) }"

definition spill_block :: "spill_opcodes \<Rightarrow> machine_function \<Rightarrow> nat \<Rightarrow> machine_function rust" where
  "spill_block so mf i =
     do { blk \<leftarrow> vec_get (mf_blocks mf) i;
          (mf, new) \<leftarrow> spill_instrs so mf (mb_instrs blk);
          Some (mf\<lparr>mf_blocks := (mf_blocks mf)[i := blk\<lparr>mb_instrs := new\<rparr>]\<rparr>) }"

definition alloc_slots :: "machine_function \<Rightarrow> vreg list \<Rightarrow> machine_function rust" where
  "alloc_slots = try_foldl (\<lambda>mf v. map_option fst (alloc_spill_slot mf v))"

definition rewrite_spills :: "spill_opcodes \<Rightarrow> machine_function \<Rightarrow> vreg list \<Rightarrow> machine_function rust" where
  \<comment> \<open>slots for the spilled registers, then every block rewritten\<close>
  "rewrite_spills so mf sp =
     do { mf \<leftarrow> alloc_slots mf sp;
          try_foldl (spill_block so) mf [0..<length (mf_blocks mf)] }"

section \<open>Registers for the reloads\<close>

type_synonym occupied = "(nat \<times> nat \<times> preg) list"

definition occupied_regs :: "occupied \<Rightarrow> live_interval \<Rightarrow> preg list" where
  "occupied_regs occ iv =
     map (\<lambda>(_, _, p). p) (filter (\<lambda>(s, e, _). iv_start iv < e \<and> s < iv_end iv) occ)"

definition choose_reload :: "preg list \<Rightarrow> occupied \<Rightarrow> live_interval \<Rightarrow> preg" where
  \<comment> \<open>the first free register of the pool, else its first one, else register 0\<close>
  "choose_reload pool occ iv =
     (case find (\<lambda>p. p \<notin> set (occupied_regs occ iv)) pool of
        Some p \<Rightarrow> p
      | None \<Rightarrow> (case pool of p # _ \<Rightarrow> p | [] \<Rightarrow> 0))"

definition assign_fresh_step ::
  "(reg_class \<Rightarrow> preg list) \<Rightarrow> occupied \<times> (vreg \<rightharpoonup> preg) \<Rightarrow> live_interval \<Rightarrow> occupied \<times> (vreg \<rightharpoonup> preg)" where
  "assign_fresh_step pools st iv =
     (case st of (occ, m) \<Rightarrow>
        let p = choose_reload (pools (vreg_class (iv_vreg iv))) occ iv
        in (occ @ [(iv_start iv, iv_end iv, p)], m(iv_vreg iv \<mapsto> p)))"

definition precolored :: "(vreg \<rightharpoonup> preg) \<Rightarrow> live_interval list \<Rightarrow> occupied" where
  "precolored m = List.map_filter (\<lambda>iv. map_option (\<lambda>p. (iv_start iv, iv_end iv, p)) (m (iv_vreg iv)))"

definition assign_fresh ::
  "(reg_class \<Rightarrow> preg list) \<Rightarrow> live_interval list \<Rightarrow> (vreg \<rightharpoonup> preg) \<Rightarrow> (vreg \<rightharpoonup> preg)" where
  "assign_fresh pools ivs m =
     snd (foldl (assign_fresh_step pools) (precolored m ivs, m)
            (sort_key iv_key (filter (\<lambda>iv. m (iv_vreg iv) = None) ivs)))"

definition mf_pools :: "machine_function \<Rightarrow> reg_class \<Rightarrow> preg list" where
  "mf_pools mf k = (case k of RegInt \<Rightarrow> mf_allocatable_pregs mf | RegFloat \<Rightarrow> mf_allocatable_fp_pregs mf)"

definition insert_spill_reloads ::
  "machine_function \<Rightarrow> alloc_result \<Rightarrow> spill_opcodes \<Rightarrow> (machine_function \<times> alloc_result) rust" where
  "insert_spill_reloads mf r so =
     (if spilled r = [] then Some (mf, r)
      else do {
        mf \<leftarrow> rewrite_spills so mf (spilled r);
        Some (mf, \<lparr>vreg_to_preg = assign_fresh (mf_pools mf) (compute_live_intervals mf) (vreg_to_preg r),
                   spilled = []\<rparr>) })"

section \<open>Applying an allocation\<close>

definition apply_operand :: "(vreg \<rightharpoonup> preg) \<Rightarrow> moperand \<Rightarrow> moperand" where
  "apply_operand m op =
     (case op of MVReg v \<Rightarrow> (case m v of Some p \<Rightarrow> MPReg p | None \<Rightarrow> op) | _ \<Rightarrow> op)"

definition apply_instr :: "(vreg \<rightharpoonup> preg) \<Rightarrow> minstr \<Rightarrow> minstr" where
  \<comment> \<open>a destination keeps its type and holds the physical number\<close>
  "apply_instr m mi =
     mi\<lparr>mi_dst := (case mi_dst mi of
                     Some v \<Rightarrow> (case m v of Some p \<Rightarrow> Some (ucast p) | None \<Rightarrow> Some v)
                   | None \<Rightarrow> None),
        mi_operands := map (apply_operand m) (mi_operands mi)\<rparr>"

definition apply_allocation :: "machine_function \<Rightarrow> alloc_result \<Rightarrow> machine_function" where
  \<comment> \<open>the used callee-saved registers, each once, ordered by their last index in the list\<close>
  "apply_allocation mf r =
     mf\<lparr>mf_used_callee_saved := filter (\<lambda>p. p \<in> ran (vreg_to_preg r)) (remdups (mf_callee_saved_pregs mf)),
        mf_blocks := map (\<lambda>b. b\<lparr>mb_instrs := map (apply_instr (vreg_to_preg r)) (mb_instrs b)\<rparr>) (mf_blocks mf)\<rparr>"

end
