(* ===== verification/Codegen_Spill_Correct.thy ===== *)
theory Codegen_Spill_Correct
  imports Codegen_Spill
begin

text \<open>
  Correctness of the spill code: every rewritten block simulates the original one, with spilled
  registers in their frame slots, for any meaning of the target's opcodes in which no instruction that sets
  a spilled register reads its old value. An opcode may read the destination it overwrites, as the
  two-address opcodes of x86 do; for those the rewrite is wrong when the destination is spilled
  (\<open>spill_two_address_wrong\<close>).
\<close>

section \<open>A semantics of machine blocks\<close>

datatype 'v opval = OVal 'v | OPReg preg | OImm int | OBlock nat | OBytes "8 word list"

type_synonym ('v, 'm) opsem = "mopcode \<Rightarrow> 'v opval list \<Rightarrow> preg list \<Rightarrow> preg list \<Rightarrow> 'v option \<Rightarrow> 'm \<Rightarrow> 'v \<times> 'm"

record ('v, 'm) mstate =
  ms_regs :: "vreg \<Rightarrow> 'v"
  ms_frame :: "int \<Rightarrow> 'v"
  ms_mem :: 'm

fun read_op :: "(vreg \<Rightarrow> 'v) \<Rightarrow> moperand \<Rightarrow> 'v opval" where
  "read_op regs (MVReg v) = OVal (regs v)"
| "read_op regs (MPReg p) = OPReg p"
| "read_op regs (MImm i) = OImm i"
| "read_op regs (MBlock b) = OBlock b"
| "read_op regs (MBytes bs) = OBytes bs"

definition exec_op :: "('v, 'm) opsem \<Rightarrow> ('v, 'm) mstate \<Rightarrow> minstr \<Rightarrow> ('v, 'm) mstate" where
  \<comment> \<open>an opcode reads its operands, the old value of its destination and the memory, and may set the
    destination and the memory\<close>
  "exec_op sem st mi =
     (case sem (mi_opcode mi) (map (read_op (ms_regs st)) (mi_operands mi)) (mi_phys_uses mi) (mi_clobbers mi)
            (map_option (ms_regs st) (mi_dst mi)) (ms_mem st) of
        (x, m) \<Rightarrow> st\<lparr>ms_regs := (case mi_dst mi of Some d \<Rightarrow> (ms_regs st)(d := x) | None \<Rightarrow> ms_regs st),
                      ms_mem := m\<rparr>)"

definition exec_instr :: "spill_opcodes \<Rightarrow> ('v, 'm) opsem \<Rightarrow> ('v, 'm) mstate \<Rightarrow> minstr \<Rightarrow> ('v, 'm) mstate" where
  \<comment> \<open>the spill opcodes access the frame, in the layout that \<open>insert_spill_reloads\<close> documents\<close>
  "exec_instr so sem st mi =
     (if mi_opcode mi \<in> {so_load so, so_fp_load so} then
        (case (mi_dst mi, mi_operands mi) of
           (Some d, [MImm s]) \<Rightarrow> st\<lparr>ms_regs := (ms_regs st)(d := ms_frame st s)\<rparr>
         | _ \<Rightarrow> exec_op sem st mi)
      else if mi_opcode mi \<in> {so_store so, so_fp_store so} then
        (case mi_operands mi of
           [MImm s, MVReg v] \<Rightarrow> st\<lparr>ms_frame := (ms_frame st)(s := ms_regs st v)\<rparr>
         | _ \<Rightarrow> exec_op sem st mi)
      else exec_op sem st mi)"

definition exec_instrs :: "spill_opcodes \<Rightarrow> ('v, 'm) opsem \<Rightarrow> ('v, 'm) mstate \<Rightarrow> minstr list \<Rightarrow> ('v, 'm) mstate" where
  "exec_instrs so sem = foldl (exec_instr so sem)"

definition ignores_dst :: "('v, 'm) opsem \<Rightarrow> mopcode \<Rightarrow> bool" where
  \<comment> \<open>the opcode does not read the old value of its destination\<close>
  "ignores_dst sem opc \<longleftrightarrow> (\<forall>vs pu cl old old' m. sem opc vs pu cl old m = sem opc vs pu cl old' m)"

definition untied :: "('v, 'm) opsem \<Rightarrow> (vreg \<rightharpoonup> 32 word) \<Rightarrow> minstr \<Rightarrow> bool" where
  \<comment> \<open>if the destination is spilled, its old value is not read\<close>
  "untied sem slots mi \<longleftrightarrow> (\<forall>d. mi_dst mi = Some d \<and> d \<in> dom slots \<longrightarrow> ignores_dst sem (mi_opcode mi))"

lemma exec_instrs_simps [simp]:
  "exec_instrs so sem st [] = st"
  "exec_instrs so sem st (mi # mis) = exec_instrs so sem (exec_instr so sem st mi) mis"
  "exec_instrs so sem st (xs @ ys) = exec_instrs so sem (exec_instrs so sem st xs) ys"
  by (simp_all add: exec_instrs_def)

definition spill_opcode_set :: "spill_opcodes \<Rightarrow> mopcode set" where
  "spill_opcode_set so = {so_load so, so_fp_load so, so_store so, so_fp_store so}"

definition distinct_spill_ops :: "spill_opcodes \<Rightarrow> bool" where
  "distinct_spill_ops so \<longleftrightarrow> {so_load so, so_fp_load so} \<inter> {so_store so, so_fp_store so} = {}"

lemma exec_reload:
  assumes "opc \<in> {so_load so, so_fp_load so}"
  shows "exec_instr so sem st (with_imm (with_dst (minstr_new opc) d) s) =
    st\<lparr>ms_regs := (ms_regs st)(d := ms_frame st s)\<rparr>"
  using assms by (auto simp: exec_instr_def with_imm_def with_dst_def minstr_new_def)

lemma exec_store:
  assumes "opc \<in> {so_store so, so_fp_store so}" "distinct_spill_ops so"
  shows "exec_instr so sem st (with_vreg (with_imm (minstr_new opc) s) v) =
    st\<lparr>ms_frame := (ms_frame st)(s := ms_regs st v)\<rparr>"
  using assms by (auto simp: exec_instr_def with_imm_def with_vreg_def minstr_new_def distinct_spill_ops_def)

lemma exec_other: "mi_opcode mi \<notin> spill_opcode_set so \<Longrightarrow> exec_instr so sem st mi = exec_op sem st mi"
  by (simp add: exec_instr_def spill_opcode_set_def)

section \<open>Fresh registers\<close>

lemma fresh_like_props:
  assumes "fresh_like mf v = Some (mf', f)"
  shows "vreg_id f = mf_next_vreg mf" "vreg_class f = vreg_class v" "mf_next_vreg mf < mf_next_vreg mf'"
    "mf_spill_slots mf' = mf_spill_slots mf" "mf_blocks mf' = mf_blocks mf"
proof -
  obtain n where n: "inc_u32 (mf_next_vreg mf) = Some n" "mf' = mf\<lparr>mf_next_vreg := n\<rparr>"
    and f: "if vreg_class v = RegFloat then vreg_new_float (mf_next_vreg mf) = Some f
            else vreg_new_int (mf_next_vreg mf) = Some f"
    using assms by (auto simp: fresh_like_def fresh_vreg_def fresh_float_vreg_def split: if_splits bind_splits)
  show "vreg_id f = mf_next_vreg mf" "vreg_class f = vreg_class v"
    using f vreg_new_int_SomeD vreg_new_float_SomeD by (auto split: if_splits intro: reg_class.exhaust [of "vreg_class v"])
  show "mf_next_vreg mf < mf_next_vreg mf'"
    using inc_u32_unat [OF n(1)] n(2) by (simp add: word_less_nat_alt)
  show "mf_spill_slots mf' = mf_spill_slots mf" "mf_blocks mf' = mf_blocks mf" using n(2) by simp_all
qed

section \<open>The simulation\<close>

definition spill_related :: "32 word \<Rightarrow> (vreg \<rightharpoonup> 32 word) \<Rightarrow> ('v, 'm) mstate \<Rightarrow> ('v, 'm) mstate \<Rightarrow> bool" where
  \<comment> \<open>for the registers below \<open>n\<close>: the spilled ones are in their slots, the others agree\<close>
  "spill_related n slots st st' \<longleftrightarrow> ms_mem st' = ms_mem st \<and>
     (\<forall>v. vreg_id v < n \<longrightarrow>
        (case slots v of None \<Rightarrow> ms_regs st' v = ms_regs st v | Some s \<Rightarrow> ms_frame st' (uint s) = ms_regs st v))"

definition spill_slots_ok :: "32 word \<Rightarrow> (vreg \<rightharpoonup> 32 word) \<Rightarrow> bool" where
  "spill_slots_ok n slots \<longleftrightarrow> inj_on slots (dom slots) \<and> (\<forall>v\<in>dom slots. vreg_id v < n)"

definition old_instr :: "32 word \<Rightarrow> minstr \<Rightarrow> bool" where
  "old_instr n mi \<longleftrightarrow> (\<forall>v\<in>set (instr_regs mi). vreg_id v < n)"

definition old_operand :: "32 word \<Rightarrow> moperand \<Rightarrow> bool" where
  "old_operand n op \<longleftrightarrow> (case op of MVReg v \<Rightarrow> vreg_id v < n | _ \<Rightarrow> True)"

lemma instr_regs_iff: "v \<in> set (instr_regs mi) \<longleftrightarrow> mi_dst mi = Some v \<or> MVReg v \<in> set (mi_operands mi)"
proof -
  have "v \<in> set (List.map_filter (\<lambda>op. case op of MVReg v \<Rightarrow> Some v | _ \<Rightarrow> None) ops) \<longleftrightarrow> MVReg v \<in> set ops" for ops
    by (induction ops) (auto simp: List.map_filter_simps split: moperand.splits)
  then show ?thesis by (auto simp: instr_regs_def split: option.splits)
qed

lemma old_instr_operands: "old_instr n mi \<Longrightarrow> op \<in> set (mi_operands mi) \<Longrightarrow> old_operand n op"
  by (auto simp: old_instr_def old_operand_def instr_regs_iff split: moperand.splits)

lemma old_instr_dst: "old_instr n mi \<Longrightarrow> mi_dst mi = Some d \<Longrightarrow> vreg_id d < n"
  by (simp add: old_instr_def instr_regs_def)

definition same_below :: "32 word \<Rightarrow> ('v, 'm) mstate \<Rightarrow> ('v, 'm) mstate \<Rightarrow> bool" where
  \<comment> \<open>memory, frame and the registers below \<open>n\<close> agree\<close>
  "same_below n st st' \<longleftrightarrow> ms_mem st' = ms_mem st \<and> ms_frame st' = ms_frame st \<and>
     (\<forall>v. vreg_id v < n \<longrightarrow> ms_regs st' v = ms_regs st v)"

lemma same_below_trans: "same_below n a b \<Longrightarrow> same_below k b c \<Longrightarrow> n \<le> k \<Longrightarrow> same_below n a c"
  by (auto simp: same_below_def)

lemma related_same_below: "spill_related n slots st st' \<Longrightarrow> same_below n st' st'' \<Longrightarrow> spill_related n slots st st''"
  by (auto simp: spill_related_def same_below_def split: option.splits)

definition reloaded ::
  "spill_opcodes \<Rightarrow> ('v, 'm) opsem \<Rightarrow> machine_function \<Rightarrow> machine_function \<Rightarrow> minstr list \<Rightarrow>
     moperand list \<Rightarrow> moperand list \<Rightarrow> ('v, 'm) mstate \<Rightarrow> ('v, 'm) mstate \<Rightarrow> bool" where
  \<comment> \<open>running \<open>loads\<close> makes the new operands read what the old ones read\<close>
  "reloaded so sem mf mf' loads ops ops' st st' \<longleftrightarrow>
     same_below (mf_next_vreg mf) st' (exec_instrs so sem st' loads) \<and>
     map (read_op (ms_regs (exec_instrs so sem st' loads))) ops' = map (read_op (ms_regs st)) ops \<and>
     (\<forall>op\<in>set ops'. old_operand (mf_next_vreg mf') op) \<and> mf_next_vreg mf \<le> mf_next_vreg mf' \<and>
     mf_spill_slots mf' = mf_spill_slots mf \<and> mf_blocks mf' = mf_blocks mf"

lemma read_op_below: "same_below n st st' \<Longrightarrow> old_operand n op \<Longrightarrow> read_op (ms_regs st') op = read_op (ms_regs st) op"
  by (cases op) (auto simp: same_below_def old_operand_def)

lemma reload_operand_sim:
  assumes r: "reload_operand so mf op = Some (mf', loads, op')" and old: "old_operand n op" "n \<le> mf_next_vreg mf"
    and rel: "spill_related n (mf_spill_slots mf) st st'"
  shows "reloaded so sem mf mf' loads [op] [op'] st st'"
proof (cases "\<exists>v slot. op = MVReg v \<and> mf_spill_slots mf v = Some slot")
  case False
  then have "mf' = mf" "loads = []" "op' = op"
    using r by (auto simp: reload_operand_def split: moperand.splits option.splits)
  moreover have "read_op (ms_regs st') op = read_op (ms_regs st) op"
    using False rel old(1) by (cases op) (auto simp: spill_related_def old_operand_def split: option.splits)
  moreover have "old_operand (mf_next_vreg mf) op" using old by (auto simp: old_operand_def split: moperand.splits)
  ultimately show ?thesis by (simp add: reloaded_def same_below_def)
next
  case True
  then obtain v slot where v: "op = MVReg v" "mf_spill_slots mf v = Some slot" by blast
  define opc where "opc = (if vreg_class v = RegFloat then so_fp_load so else so_load so)"
  have opc: "opc \<in> {so_load so, so_fp_load so}" by (simp add: opc_def)
  obtain fresh where f: "fresh_like mf v = Some (mf', fresh)" and o': "op' = MVReg fresh"
    and loads: "loads = [with_imm (with_dst (minstr_new opc) fresh) (uint slot)]"
    using r v by (auto simp: reload_operand_def Let_def opc_def split: bind_splits)
  note p = fresh_like_props [OF f]
  have "ms_frame st' (uint slot) = ms_regs st v"
    using rel v old(1) by (auto simp: spill_related_def old_operand_def split: option.splits)
  then show ?thesis using p v o' opc loads
    by (auto simp: reloaded_def same_below_def exec_reload old_operand_def)
qed

lemma reload_operands_sim:
  assumes "reload_operands so mf ops = Some (mf', loads, ops')" "\<forall>op\<in>set ops. old_operand n op" "n \<le> mf_next_vreg mf"
    "spill_related n (mf_spill_slots mf) st st'"
  shows "reloaded so sem mf mf' loads ops ops' st st'"
  using assms
proof (induction ops arbitrary: mf st' loads ops')
  case Nil
  then show ?case by (simp add: reloaded_def same_below_def)
next
  case (Cons op ops)
  obtain mf1 l1 op1 l2 ops2 where 1: "reload_operand so mf op = Some (mf1, l1, op1)"
    and 2: "reload_operands so mf1 ops = Some (mf', l2, ops2)" and eq: "loads = l1 @ l2" "ops' = op1 # ops2"
    using Cons.prems(1) by (auto split: bind_splits)
  have a: "reloaded so sem mf mf1 l1 [op] [op1] st st'"
    by (rule reload_operand_sim [OF 1 _ Cons.prems(3,4)]) (use Cons.prems(2) in simp)
  let ?s = "exec_instrs so sem st' l1"
  have s: "same_below (mf_next_vreg mf) st' ?s" "mf_next_vreg mf \<le> mf_next_vreg mf1" "mf_spill_slots mf1 = mf_spill_slots mf"
    "mf_blocks mf1 = mf_blocks mf" "old_operand (mf_next_vreg mf1) op1" "read_op (ms_regs ?s) op1 = read_op (ms_regs st) op"
    using a by (simp_all add: reloaded_def)
  have "spill_related n (mf_spill_slots mf1) st ?s"
    unfolding s(3) using s(1) Cons.prems(3)
    by (intro related_same_below [OF Cons.prems(4)]) (auto simp: same_below_def)
  then have b: "reloaded so sem mf1 mf' l2 ops ops2 st ?s"
    using Cons.IH [OF 2] Cons.prems(2,3) s(2) by simp
  have t: "same_below (mf_next_vreg mf1) ?s (exec_instrs so sem ?s l2)" using b by (simp add: reloaded_def)
  have "old_operand (mf_next_vreg mf') op1" using b s(5) by (auto simp: reloaded_def old_operand_def split: moperand.splits)
  then show ?case
    using b s eq same_below_trans [OF s(1) t s(2)] read_op_below [OF t s(5)] by (auto simp: reloaded_def)
qed

lemma exec_op_related:
  assumes rel: "spill_related n slots st st'" and ops: "map (read_op (ms_regs st')) ops' = map (read_op (ms_regs st)) (mi_operands mi)"
    and d: "\<And>d. mi_dst mi = Some d \<Longrightarrow> slots d = None \<and> vreg_id d < n"
  shows "spill_related n slots (exec_op sem st mi) (exec_op sem st' (mi\<lparr>mi_operands := ops'\<rparr>))"
proof -
  let ?old = "map_option (ms_regs st) (mi_dst mi)"
  obtain x m where s: "sem (mi_opcode mi) (map (read_op (ms_regs st)) (mi_operands mi)) (mi_phys_uses mi) (mi_clobbers mi) ?old (ms_mem st) = (x, m)"
    by force
  have mem: "ms_mem st' = ms_mem st" using rel by (simp add: spill_related_def)
  have old: "map_option (ms_regs st') (mi_dst mi) = ?old"
    using rel d by (cases "mi_dst mi") (auto simp: spill_related_def split: option.splits)
  have "exec_op sem st mi = st\<lparr>ms_regs := (case mi_dst mi of Some e \<Rightarrow> (ms_regs st)(e := x) | None \<Rightarrow> ms_regs st), ms_mem := m\<rparr>"
    by (simp add: exec_op_def s)
  moreover have "exec_op sem st' (mi\<lparr>mi_operands := ops'\<rparr>) =
      st'\<lparr>ms_regs := (case mi_dst mi of Some e \<Rightarrow> (ms_regs st')(e := x) | None \<Rightarrow> ms_regs st'), ms_mem := m\<rparr>"
    using s by (simp add: exec_op_def ops mem old)
  ultimately show ?thesis
    using rel d by (cases "mi_dst mi") (auto simp: spill_related_def split: option.splits)
qed

lemma spill_instr_sim:
  assumes r: "spill_instr so mf mi = Some (mf', mis)" and old: "old_instr n mi" "n \<le> mf_next_vreg mf"
    and ok: "spill_slots_ok n (mf_spill_slots mf)" "mi_opcode mi \<notin> spill_opcode_set so" "distinct_spill_ops so"
    and rel: "spill_related n (mf_spill_slots mf) st st'" and tied: "untied sem (mf_spill_slots mf) mi"
  shows "spill_related n (mf_spill_slots mf) (exec_instr so sem st mi) (exec_instrs so sem st' mis) \<and>
    mf_spill_slots mf' = mf_spill_slots mf \<and> mf_blocks mf' = mf_blocks mf \<and> mf_next_vreg mf \<le> mf_next_vreg mf'"
proof -
  obtain mf1 loads ops rest where 1: "reload_operands so mf (mi_operands mi) = Some (mf1, loads, ops)"
    and 2: "store_dst so mf1 (mi\<lparr>mi_operands := ops\<rparr>) = Some (mf', rest)" and mis: "mis = loads @ rest"
    using r by (auto simp: spill_instr_def split: bind_splits)
  have "reloaded so sem mf mf1 loads (mi_operands mi) ops st st'"
    by (rule reload_operands_sim [OF 1 _ old(2) rel]) (use old_instr_operands [OF old(1)] in blast)
  then have sb: "same_below (mf_next_vreg mf) st' (exec_instrs so sem st' loads)" "mf_next_vreg mf \<le> mf_next_vreg mf1"
    "mf_spill_slots mf1 = mf_spill_slots mf" "mf_blocks mf1 = mf_blocks mf"
    "map (read_op (ms_regs (exec_instrs so sem st' loads))) ops = map (read_op (ms_regs st)) (mi_operands mi)"
    by (simp_all add: reloaded_def)
  let ?s = "exec_instrs so sem st' loads" and ?slots = "mf_spill_slots mf"
  have rel1: "spill_related n ?slots st ?s"
    using sb(1) old(2) by (intro related_same_below [OF rel]) (auto simp: same_below_def)
  have step: "exec_instr so sem t (mi\<lparr>mi_operands := ops, mi_dst := d\<rparr>) = exec_op sem t (mi\<lparr>mi_operands := ops, mi_dst := d\<rparr>)" for t d
    using ok(2) by (simp add: exec_other)
  have step0: "exec_instr so sem t (mi\<lparr>mi_operands := ops\<rparr>) = exec_op sem t (mi\<lparr>mi_operands := ops\<rparr>)"
    "exec_instr so sem t mi = exec_op sem t mi" for t
    using ok(2) by (simp_all add: exec_other)
  consider (plain) "mf' = mf1" "rest = [mi\<lparr>mi_operands := ops\<rparr>]" "\<And>d. mi_dst mi = Some d \<Longrightarrow> ?slots d = None"
    | (spilled) d slot fresh where "mi_dst mi = Some d" "?slots d = Some slot" "fresh_like mf1 d = Some (mf', fresh)"
      "rest = [mi\<lparr>mi_operands := ops, mi_dst := Some fresh\<rparr>,
               with_vreg (with_imm (minstr_new (if vreg_class d = RegFloat then so_fp_store so else so_store so)) (uint slot)) fresh]"
    using 2 sb(3) by (auto simp: store_dst_def Let_def split: option.splits bind_splits)
  then show ?thesis
  proof cases
    case plain
    show ?thesis
      using exec_op_related [OF rel1 sb(5)] plain(1,3) old_instr_dst [OF old(1)] sb by (simp add: mis plain(2) step0)
  next
    case spilled
    note f = fresh_like_props [OF spilled(3)]
    obtain x m where s0: "sem (mi_opcode mi) (map (read_op (ms_regs st)) (mi_operands mi)) (mi_phys_uses mi) (mi_clobbers mi) None (ms_mem st) = (x, m)"
      by force
    have "ignores_dst sem (mi_opcode mi)" using tied spilled(1,2) by (auto simp: untied_def)
    then have s: "sem (mi_opcode mi) (map (read_op (ms_regs st)) (mi_operands mi)) (mi_phys_uses mi) (mi_clobbers mi) old (ms_mem st) = (x, m)" for old
      using s0 unfolding ignores_dst_def by metis
    have mem: "ms_mem ?s = ms_mem st" using rel1 by (simp add: spill_related_def)
    have new: "v \<noteq> fresh" if "vreg_id v < n" for v
      using that f(1) sb(2) old(2) by auto
    have slots: "?slots v = Some s' \<Longrightarrow> uint s' = uint slot \<Longrightarrow> v = d" for v s'
      using ok(1) spilled(2) unfolding spill_slots_ok_def inj_on_def by (metis domI word_uint_eqI)
    have run: "exec_instrs so sem st' mis = ?s\<lparr>ms_regs := (ms_regs ?s)(fresh := x), ms_mem := m, ms_frame := (ms_frame ?s)(uint slot := x)\<rparr>"
      by (simp add: exec_store [OF _ ok(3)] mis spilled(4) step exec_op_def sb(5) mem s)
    have orig: "exec_instr so sem st mi = st\<lparr>ms_regs := (ms_regs st)(d := x), ms_mem := m\<rparr>"
      by (simp add: step0 exec_op_def s spilled(1))
    have at: "case ?slots v of None \<Rightarrow> ms_regs (exec_instrs so sem st' mis) v = ms_regs (exec_instr so sem st mi) v
      | Some s \<Rightarrow> ms_frame (exec_instrs so sem st' mis) (uint s) = ms_regs (exec_instr so sem st mi) v"
      if v: "vreg_id v < n" for v
    proof (cases "v = d")
      case True
      then show ?thesis by (simp add: run orig spilled(2))
    next
      case False
      have r: "case ?slots v of None \<Rightarrow> ms_regs ?s v = ms_regs st v | Some s \<Rightarrow> ms_frame ?s (uint s) = ms_regs st v"
        using rel1 v by (simp add: spill_related_def)
      show ?thesis
      proof (cases "?slots v")
        case None
        then show ?thesis using r False new [OF v] by (simp add: run orig)
      next
        case (Some s')
        then have "uint s' \<noteq> uint slot" using slots [OF Some] False by blast
        then show ?thesis using r Some False by (simp add: run orig)
      qed
    qed
    have "spill_related n ?slots (exec_instr so sem st mi) (exec_instrs so sem st' mis)"
      unfolding spill_related_def using at by (simp add: run orig)
    then show ?thesis using f sb by simp
  qed
qed

lemma spill_instrs_sim:
  assumes "spill_instrs so mf is0 = Some (mf', mis)" "\<forall>mi\<in>set is0. old_instr n mi \<and> mi_opcode mi \<notin> spill_opcode_set so \<and> untied sem (mf_spill_slots mf) mi"
    "n \<le> mf_next_vreg mf" "spill_slots_ok n (mf_spill_slots mf)" "distinct_spill_ops so"
    "spill_related n (mf_spill_slots mf) st st'"
  shows "spill_related n (mf_spill_slots mf) (exec_instrs so sem st is0) (exec_instrs so sem st' mis) \<and>
    mf_spill_slots mf' = mf_spill_slots mf \<and> mf_blocks mf' = mf_blocks mf \<and> mf_next_vreg mf \<le> mf_next_vreg mf'"
  using assms
proof (induction is0 arbitrary: mf mis st st')
  case (Cons mi is0)
  obtain mf1 new rest where 1: "spill_instr so mf mi = Some (mf1, new)" and 2: "spill_instrs so mf1 is0 = Some (mf', rest)"
    and mis: "mis = new @ rest" using Cons.prems(1) by (auto split: bind_splits)
  have a: "spill_related n (mf_spill_slots mf) (exec_instr so sem st mi) (exec_instrs so sem st' new) \<and>
    mf_spill_slots mf1 = mf_spill_slots mf \<and> mf_blocks mf1 = mf_blocks mf \<and> mf_next_vreg mf \<le> mf_next_vreg mf1"
    using Cons.prems by (intro spill_instr_sim [OF 1]) auto
  have "spill_related n (mf_spill_slots mf1) (exec_instrs so sem (exec_instr so sem st mi) is0)
      (exec_instrs so sem (exec_instrs so sem st' new) rest) \<and>
    mf_spill_slots mf' = mf_spill_slots mf1 \<and> mf_blocks mf' = mf_blocks mf1 \<and> mf_next_vreg mf1 \<le> mf_next_vreg mf'"
    using a Cons.prems(2-5) by (intro Cons.IH [OF 2]) auto
  then show ?case using a by (auto simp: mis)
qed simp

text \<open>The rewritten stream: no spilled register, and the same branch targets.\<close>

definition op_targets :: "moperand list \<Rightarrow> nat list" where
  "op_targets = List.map_filter (\<lambda>op. case op of MBlock t \<Rightarrow> Some t | _ \<Rightarrow> None)"

definition instrs_targets :: "minstr list \<Rightarrow> nat list" where
  "instrs_targets mis = concat (map (\<lambda>mi. op_targets (mi_operands mi)) mis)"

lemma instrs_targets_simps [simp]:
  "instrs_targets [] = []" "instrs_targets (mi # mis) = op_targets (mi_operands mi) @ instrs_targets mis"
  "instrs_targets (xs @ ys) = instrs_targets xs @ instrs_targets ys"
  by (simp_all add: instrs_targets_def)

lemma op_targets_Cons: "op_targets (x # xs) = op_targets [x] @ op_targets xs"
  by (simp add: op_targets_def List.map_filter_simps split: option.splits)

definition unspilled :: "(vreg \<rightharpoonup> 32 word) \<Rightarrow> minstr \<Rightarrow> bool" where
  "unspilled slots mi \<longleftrightarrow> (\<forall>v\<in>set (instr_regs mi). slots v = None)"

lemma fresh_unspilled:
  assumes "fresh_like mf v = Some (mf', f)" "n \<le> mf_next_vreg mf" "spill_slots_ok n slots"
  shows "slots f = None"
proof (rule ccontr)
  assume "slots f \<noteq> None"
  then have "vreg_id f < n" using assms(3) by (auto simp: spill_slots_ok_def)
  then show False using fresh_like_props(1) [OF assms(1)] assms(2) by simp
qed

lemma reload_operands_clean:
  assumes "reload_operands so mf ops = Some (mf', loads, ops')" "n \<le> mf_next_vreg mf" "spill_slots_ok n (mf_spill_slots mf)"
  shows "op_targets ops' = op_targets ops \<and> (\<forall>v. MVReg v \<in> set ops' \<longrightarrow> mf_spill_slots mf v = None) \<and>
    (\<forall>mi\<in>set loads. unspilled (mf_spill_slots mf) mi \<and> op_targets (mi_operands mi) = []) \<and>
    mf_spill_slots mf' = mf_spill_slots mf \<and> mf_next_vreg mf \<le> mf_next_vreg mf'"
  using assms
proof (induction ops arbitrary: mf loads ops')
  case Nil
  then show ?case by simp
next
  case (Cons op ops)
  obtain mf1 l1 op1 l2 ops2 where 1: "reload_operand so mf op = Some (mf1, l1, op1)"
    and 2: "reload_operands so mf1 ops = Some (mf', l2, ops2)" and eq: "loads = l1 @ l2" "ops' = op1 # ops2"
    using Cons.prems(1) by (auto split: bind_splits)
  have a: "op_targets [op1] = op_targets [op] \<and> (\<forall>v. op1 = MVReg v \<longrightarrow> mf_spill_slots mf v = None) \<and>
    (\<forall>mi\<in>set l1. unspilled (mf_spill_slots mf) mi \<and> op_targets (mi_operands mi) = []) \<and>
    mf_spill_slots mf1 = mf_spill_slots mf \<and> mf_next_vreg mf \<le> mf_next_vreg mf1"
  proof (cases "\<exists>v slot. op = MVReg v \<and> mf_spill_slots mf v = Some slot")
    case False
    then have "mf1 = mf" "l1 = []" "op1 = op"
      using 1 by (auto simp: reload_operand_def split: moperand.splits option.splits)
    then show ?thesis using False by auto
  next
    case True
    then obtain v slot where v: "op = MVReg v" "mf_spill_slots mf v = Some slot" by blast
    obtain fresh where f: "fresh_like mf v = Some (mf1, fresh)" and o1: "op1 = MVReg fresh"
      and l1: "l1 = [with_imm (with_dst (minstr_new (if vreg_class v = RegFloat then so_fp_load so else so_load so)) fresh) (uint slot)]"
      using 1 v by (auto simp: reload_operand_def Let_def split: bind_splits)
    show ?thesis
      using fresh_unspilled [OF f Cons.prems(2,3)] fresh_like_props [OF f] v o1
      by (simp add: l1 op_targets_def List.map_filter_simps unspilled_def instr_regs_def with_imm_def with_dst_def minstr_new_def)
  qed
  have b: "op_targets ops2 = op_targets ops \<and> (\<forall>v. MVReg v \<in> set ops2 \<longrightarrow> mf_spill_slots mf1 v = None) \<and>
    (\<forall>mi\<in>set l2. unspilled (mf_spill_slots mf1) mi \<and> op_targets (mi_operands mi) = []) \<and>
    mf_spill_slots mf' = mf_spill_slots mf1 \<and> mf_next_vreg mf1 \<le> mf_next_vreg mf'"
    using a Cons.prems(2,3) by (intro Cons.IH [OF 2]) auto
  then show ?case using a op_targets_Cons [of op ops] op_targets_Cons [of op1 ops2] by (auto simp: eq)
qed

lemma block_targets_eq: "block_targets b = instrs_targets (mb_instrs b)"
proof -
  have "List.map_filter f (concat xss) = concat (map (List.map_filter f) xss)" for f :: "moperand \<Rightarrow> nat option" and xss
    by (induction xss) (simp_all add: List.map_filter_def)
  then show ?thesis by (simp add: block_targets_def op_targets_def instrs_targets_def comp_def)
qed

lemma spill_instr_clean:
  assumes r: "spill_instr so mf mi = Some (mf', mis)" and n: "n \<le> mf_next_vreg mf" "spill_slots_ok n (mf_spill_slots mf)"
  shows "(\<forall>mi\<in>set mis. unspilled (mf_spill_slots mf) mi) \<and>
    instrs_targets mis = op_targets (mi_operands mi) \<and>
    mf_spill_slots mf' = mf_spill_slots mf \<and> mf_next_vreg mf \<le> mf_next_vreg mf'"
proof -
  obtain mf1 loads ops rest where 1: "reload_operands so mf (mi_operands mi) = Some (mf1, loads, ops)"
    and 2: "store_dst so mf1 (mi\<lparr>mi_operands := ops\<rparr>) = Some (mf', rest)" and mis: "mis = loads @ rest"
    using r by (auto simp: spill_instr_def split: bind_splits)
  note l = reload_operands_clean [OF 1 n]
  have sl: "mf_spill_slots mf1 = mf_spill_slots mf" using l by simp
  have loads: "instrs_targets loads = []" using l by (simp add: instrs_targets_def)
  have ops: "unspilled (mf_spill_slots mf) (mi\<lparr>mi_operands := ops, mi_dst := d\<rparr>)" if "\<And>x. d = Some x \<Longrightarrow> mf_spill_slots mf x = None" for d
    using that conjunct1 [OF conjunct2 [OF l]] by (auto simp: unspilled_def instr_regs_iff)
  consider (plain) "mf' = mf1" "rest = [mi\<lparr>mi_operands := ops\<rparr>]" "\<And>d. mi_dst mi = Some d \<Longrightarrow> mf_spill_slots mf d = None"
    | (spilled) d slot fresh where "mi_dst mi = Some d" "mf_spill_slots mf d = Some slot" "fresh_like mf1 d = Some (mf', fresh)"
      "rest = [mi\<lparr>mi_operands := ops, mi_dst := Some fresh\<rparr>,
               with_vreg (with_imm (minstr_new (if vreg_class d = RegFloat then so_fp_store so else so_store so)) (uint slot)) fresh]"
    using 2 sl by (auto simp: store_dst_def Let_def split: option.splits bind_splits)
  then show ?thesis
  proof cases
    case plain
    have "mi\<lparr>mi_operands := ops\<rparr> = mi\<lparr>mi_operands := ops, mi_dst := mi_dst mi\<rparr>" by simp
    then have "unspilled (mf_spill_slots mf) (mi\<lparr>mi_operands := ops\<rparr>)" using ops [of "mi_dst mi"] plain(3) by metis
    then show ?thesis using l plain loads by (simp add: mis)
  next
    case spilled
    have "n \<le> mf_next_vreg mf1" using l n(1) by (meson order_trans)
    then have f: "mf_spill_slots mf fresh = None" using fresh_unspilled [OF spilled(3) _ n(2)] by simp
    then have "unspilled (mf_spill_slots mf) (with_vreg (with_imm (minstr_new opc) s) fresh)" for opc s
      by (simp add: unspilled_def instr_regs_def with_vreg_def with_imm_def minstr_new_def List.map_filter_simps)
    moreover have "op_targets (mi_operands (with_vreg (with_imm (minstr_new opc) s) fresh)) = []" for opc s
      by (simp add: op_targets_def with_vreg_def with_imm_def minstr_new_def List.map_filter_simps)
    moreover have "unspilled (mf_spill_slots mf) (mi\<lparr>mi_operands := ops, mi_dst := Some fresh\<rparr>)"
      by (rule ops) (use f in simp)
    moreover have "mf_next_vreg mf \<le> mf_next_vreg mf'" using l fresh_like_props(3) [OF spilled(3)] by (auto intro: order_trans less_imp_le)
    ultimately show ?thesis using l fresh_like_props(4) [OF spilled(3)] loads by (simp add: mis spilled(4))
  qed
qed

lemma spill_instrs_clean:
  assumes "spill_instrs so mf is0 = Some (mf', mis)" "n \<le> mf_next_vreg mf" "spill_slots_ok n (mf_spill_slots mf)"
  shows "(\<forall>mi\<in>set mis. unspilled (mf_spill_slots mf) mi) \<and>
    instrs_targets mis = instrs_targets is0"
  using assms
proof (induction is0 arbitrary: mf mis)
  case (Cons mi is0)
  obtain mf1 new rest where 1: "spill_instr so mf mi = Some (mf1, new)" and 2: "spill_instrs so mf1 is0 = Some (mf', rest)"
    and mis: "mis = new @ rest" using Cons.prems(1) by (auto split: bind_splits)
  note a = spill_instr_clean [OF 1 Cons.prems(2,3)]
  have "(\<forall>mi\<in>set rest. unspilled (mf_spill_slots mf1) mi) \<and>
    instrs_targets rest = instrs_targets is0"
    using a Cons.prems(2,3) by (intro Cons.IH [OF 2]) auto
  then show ?case using a by (auto simp: mis)
qed simp

section \<open>The whole function\<close>

lemma alloc_spill_slot_frame:
  "alloc_spill_slot mf v = Some (mf', s) \<Longrightarrow>
   mf_blocks mf' = mf_blocks mf \<and> mf_next_vreg mf' = mf_next_vreg mf \<and> dom (mf_spill_slots mf') = insert v (dom (mf_spill_slots mf))"
  by (auto simp: alloc_spill_slot_def Let_def split: option.splits bind_splits)

lemma alloc_slots_props:
  assumes "alloc_slots mf sp = Some mf'" "wf_slots mf"
  shows "wf_slots mf' \<and> mf_blocks mf' = mf_blocks mf \<and> mf_next_vreg mf' = mf_next_vreg mf \<and>
    dom (mf_spill_slots mf') = dom (mf_spill_slots mf) \<union> set sp"
  using assms
proof (induction sp arbitrary: mf)
  case (Cons v sp)
  then obtain mf1 s where 1: "alloc_spill_slot mf v = Some (mf1, s)" and 2: "alloc_slots mf1 sp = Some mf'"
    by (auto simp: alloc_slots_def split: option.splits)
  show ?case using Cons.IH [OF 2] alloc_spill_slot_wf [OF Cons.prems(2) 1] alloc_spill_slot_frame [OF 1] by auto
qed (simp add: alloc_slots_def)

definition block_spilled ::
  "spill_opcodes \<Rightarrow> 32 word \<Rightarrow> (vreg \<rightharpoonup> 32 word) \<Rightarrow> machine_block \<Rightarrow> machine_block \<Rightarrow> bool" where
  \<comment> \<open>\<open>b'\<close> is \<open>b\<close> rewritten with a counter not below \<open>n\<close>\<close>
  "block_spilled so n slots b b' \<longleftrightarrow> (\<exists>mfa mfb. mf_spill_slots mfa = slots \<and> n \<le> mf_next_vreg mfa \<and>
     spill_instrs so mfa (mb_instrs b) = Some (mfb, mb_instrs b'))"

lemma spill_instrs_counter:
  assumes "spill_instrs so mf is0 = Some (mf', mis)" "n \<le> mf_next_vreg mf" "spill_slots_ok n (mf_spill_slots mf)"
  shows "mf_spill_slots mf' = mf_spill_slots mf \<and> n \<le> mf_next_vreg mf'"
  using assms
proof (induction is0 arbitrary: mf mis)
  case (Cons mi is0)
  obtain mf1 new rest where 1: "spill_instr so mf mi = Some (mf1, new)" and 2: "spill_instrs so mf1 is0 = Some (mf', rest)"
    using Cons.prems(1) by (auto split: bind_splits)
  note a = spill_instr_clean [OF 1 Cons.prems(2,3)]
  show ?case using Cons.IH [OF 2] a Cons.prems(2,3) by auto
qed simp

lemma reload_operands_blocks: "reload_operands so mf ops = Some (mf', loads, ops') \<Longrightarrow> mf_blocks mf' = mf_blocks mf"
  by (induction ops arbitrary: mf loads ops')
    (auto simp: reload_operand_def Let_def fresh_like_props(5) split: bind_splits option.splits moperand.splits)

lemma spill_instrs_blocks: "spill_instrs so mf is0 = Some (mf', mis) \<Longrightarrow> mf_blocks mf' = mf_blocks mf"
proof (induction is0 arbitrary: mf mis)
  case (Cons mi is0)
  obtain mf1 new rest where 1: "spill_instr so mf mi = Some (mf1, new)" and 2: "spill_instrs so mf1 is0 = Some (mf', rest)"
    using Cons.prems(1) by (auto split: bind_splits)
  have "mf_blocks mf1 = mf_blocks mf"
    using 1 by (auto simp: spill_instr_def store_dst_def Let_def fresh_like_props(5) dest!: reload_operands_blocks
        split: bind_splits option.splits)
  then show ?case using Cons.IH [OF 2] by simp
qed simp

lemma spill_blocks_upto:
  assumes "try_foldl (spill_block so) mf [0..<k] = Some mf'" "k \<le> length (mf_blocks mf)"
    "n \<le> mf_next_vreg mf" "spill_slots_ok n (mf_spill_slots mf)"
  shows "mf_spill_slots mf' = mf_spill_slots mf \<and> n \<le> mf_next_vreg mf' \<and> length (mf_blocks mf') = length (mf_blocks mf) \<and>
    (\<forall>j<k. block_spilled so n (mf_spill_slots mf) (mf_blocks mf ! j) (mf_blocks mf' ! j)) \<and>
    (\<forall>j. k \<le> j \<longrightarrow> mf_blocks mf' ! j = mf_blocks mf ! j)"
  using assms(1,2)
proof (induction k arbitrary: mf')
  case 0
  then show ?case using assms(3) by simp
next
  case (Suc k)
  obtain mf1 where 1: "try_foldl (spill_block so) mf [0..<k] = Some mf1" and 2: "spill_block so mf1 k = Some mf'"
    using Suc.prems(1) by (auto simp: try_foldl_append split: option.splits)
  have a: "mf_spill_slots mf1 = mf_spill_slots mf \<and> n \<le> mf_next_vreg mf1 \<and> length (mf_blocks mf1) = length (mf_blocks mf) \<and>
    (\<forall>j<k. block_spilled so n (mf_spill_slots mf) (mf_blocks mf ! j) (mf_blocks mf1 ! j)) \<and>
    (\<forall>j. k \<le> j \<longrightarrow> mf_blocks mf1 ! j = mf_blocks mf ! j)"
    using Suc.IH [OF 1] Suc.prems(2) by simp
  obtain mf2 new where i: "spill_instrs so mf1 (mb_instrs (mf_blocks mf1 ! k)) = Some (mf2, new)" "k < length (mf_blocks mf1)"
    and mf': "mf' = mf2\<lparr>mf_blocks := (mf_blocks mf2)[k := (mf_blocks mf1 ! k)\<lparr>mb_instrs := new\<rparr>]\<rparr>"
    using 2 by (auto simp: spill_block_def rust_simps split: bind_splits)
  have b: "mf_blocks mf2 = mf_blocks mf1" by (rule spill_instrs_blocks [OF i(1)])
  have c: "mf_spill_slots mf2 = mf_spill_slots mf1 \<and> n \<le> mf_next_vreg mf2"
    using a assms(4) by (intro spill_instrs_counter [OF i(1)]) auto
  have "block_spilled so n (mf_spill_slots mf) (mf_blocks mf ! k) ((mf_blocks mf1 ! k)\<lparr>mb_instrs := new\<rparr>)"
    unfolding block_spilled_def using a i by (intro exI [of _ mf1] exI [of _ mf2]) auto
  then show ?case using a b c i(2) by (auto simp: mf' nth_list_update less_Suc_eq)
qed

definition spillable :: "spill_opcodes \<Rightarrow> machine_function \<Rightarrow> vreg list \<Rightarrow> bool" where
  \<comment> \<open>every register is below the counter, and only spill code uses the spill opcodes\<close>
  "spillable so mf sp \<longleftrightarrow> wf_slots mf \<and> distinct_spill_ops so \<and>
     (\<forall>v\<in>set sp \<union> dom (mf_spill_slots mf). vreg_id v < mf_next_vreg mf) \<and>
     (\<forall>b\<in>set (mf_blocks mf). \<forall>mi\<in>set (mb_instrs b).
        old_instr (mf_next_vreg mf) mi \<and> mi_opcode mi \<notin> spill_opcode_set so)"

lemma rewrite_spills_blocks:
  assumes r: "rewrite_spills so mf sp = Some mf'" and w: "spillable so mf sp"
  shows "spill_slots_ok (mf_next_vreg mf) (mf_spill_slots mf') \<and> length (mf_blocks mf') = length (mf_blocks mf) \<and>
    (\<forall>i<length (mf_blocks mf). block_spilled so (mf_next_vreg mf) (mf_spill_slots mf') (mf_blocks mf ! i) (mf_blocks mf' ! i)) \<and>
    set sp \<subseteq> dom (mf_spill_slots mf')"
proof -
  obtain mf1 where 1: "alloc_slots mf sp = Some mf1" and 2: "try_foldl (spill_block so) mf1 [0..<length (mf_blocks mf1)] = Some mf'"
    using r by (auto simp: rewrite_spills_def split: bind_splits)
  have a: "wf_slots mf1 \<and> mf_blocks mf1 = mf_blocks mf \<and> mf_next_vreg mf1 = mf_next_vreg mf \<and>
    dom (mf_spill_slots mf1) = dom (mf_spill_slots mf) \<union> set sp"
    using w by (intro alloc_slots_props [OF 1]) (simp add: spillable_def)
  have ok: "spill_slots_ok (mf_next_vreg mf) (mf_spill_slots mf1)"
    using a w by (auto simp: spill_slots_ok_def wf_slots_def spillable_def)
  then show ?thesis using spill_blocks_upto [OF 2, of "mf_next_vreg mf"] a by auto
qed

text \<open>C2: Spill code preserves meaning: running a rewritten block and the original block from related states
  (memory equal, spilled registers in their frame slots, the other registers equal) ends in related states,
  for any semantics of the target's opcodes, which may read operands, the old value of the destination and
  the memory, provided that no instruction of the block that sets a spilled register reads the old value of
  that register. The two-address opcodes of the x86 target break this condition
  (\<open>spill_two_address_wrong\<close>).\<close>

theorem rewrite_spills_simulates:
  assumes "rewrite_spills so mf sp = Some mf'" "spillable so mf sp" "i < length (mf_blocks mf)"
    "spill_related (mf_next_vreg mf) (mf_spill_slots mf') st st'"
    "\<forall>mi\<in>set (mb_instrs (mf_blocks mf ! i)). untied sem (mf_spill_slots mf') mi"
  shows "spill_related (mf_next_vreg mf) (mf_spill_slots mf')
    (exec_instrs so sem st (mb_instrs (mf_blocks mf ! i))) (exec_instrs so sem st' (mb_instrs (mf_blocks mf' ! i)))"
proof -
  note b = rewrite_spills_blocks [OF assms(1,2)]
  obtain mfa mfb where m: "mf_spill_slots mfa = mf_spill_slots mf'" "mf_next_vreg mf \<le> mf_next_vreg mfa"
    "spill_instrs so mfa (mb_instrs (mf_blocks mf ! i)) = Some (mfb, mb_instrs (mf_blocks mf' ! i))"
    using b assms(3) unfolding block_spilled_def by blast
  have "\<forall>mi\<in>set (mb_instrs (mf_blocks mf ! i)).
      old_instr (mf_next_vreg mf) mi \<and> mi_opcode mi \<notin> spill_opcode_set so \<and> untied sem (mf_spill_slots mfa) mi"
    using assms(2,3,5) m(1) unfolding spillable_def by auto
  then show ?thesis
    using spill_instrs_sim [OF m(3) _ m(2), of sem st st'] b assms(2,4) m(1) by (simp add: spillable_def)
qed

text \<open>C28: after the rewrite no instruction mentions a spilled register, and every block has the branch
  targets it had.\<close>

theorem rewrite_spills_clean:
  assumes "rewrite_spills so mf sp = Some mf'" "spillable so mf sp"
  shows "length (mf_blocks mf') = length (mf_blocks mf) \<and>
    (\<forall>i<length (mf_blocks mf). block_targets (mf_blocks mf' ! i) = block_targets (mf_blocks mf ! i) \<and>
       (\<forall>mi\<in>set (mb_instrs (mf_blocks mf' ! i)). set (instr_regs mi) \<inter> set sp = {}))"
proof -
  note b = rewrite_spills_blocks [OF assms]
  have "block_targets (mf_blocks mf' ! i) = block_targets (mf_blocks mf ! i) \<and>
      (\<forall>mi\<in>set (mb_instrs (mf_blocks mf' ! i)). set (instr_regs mi) \<inter> set sp = {})" if i: "i < length (mf_blocks mf)" for i
  proof -
    obtain mfa mfb where m: "mf_spill_slots mfa = mf_spill_slots mf'" "mf_next_vreg mf \<le> mf_next_vreg mfa"
      "spill_instrs so mfa (mb_instrs (mf_blocks mf ! i)) = Some (mfb, mb_instrs (mf_blocks mf' ! i))"
      using b i unfolding block_spilled_def by blast
    have c: "(\<forall>mi\<in>set (mb_instrs (mf_blocks mf' ! i)). unspilled (mf_spill_slots mfa) mi) \<and>
      instrs_targets (mb_instrs (mf_blocks mf' ! i)) = instrs_targets (mb_instrs (mf_blocks mf ! i))"
      using b m(1) by (intro spill_instrs_clean [OF m(3,2)]) simp
    have "set (instr_regs mi) \<inter> set sp = {}" if mi: "mi \<in> set (mb_instrs (mf_blocks mf' ! i))" for mi
    proof -
      have "unspilled (mf_spill_slots mf') mi" using c m(1) mi by simp
      then show ?thesis using b unfolding unspilled_def by fastforce
    qed
    then show ?thesis using c by (simp add: block_targets_eq)
  qed
  then show ?thesis using b by blast
qed

section \<open>The registers of the reloads\<close>

definition conflict_free :: "live_interval list \<Rightarrow> (vreg \<rightharpoonup> preg) \<Rightarrow> bool" where
  "conflict_free ivs m \<longleftrightarrow> (\<forall>a\<in>set ivs. \<forall>b\<in>set ivs. \<forall>p. iv_vreg a \<noteq> iv_vreg b \<longrightarrow> iv_overlap a b \<longrightarrow>
     m (iv_vreg a) = Some p \<longrightarrow> m (iv_vreg b) \<noteq> Some p)"

definition occ_ok :: "live_interval list \<Rightarrow> occupied \<times> (vreg \<rightharpoonup> preg) \<Rightarrow> bool" where
  "occ_ok ivs st \<longleftrightarrow> (case st of (occ, m) \<Rightarrow> set occ = {(iv_start iv, iv_end iv, p) |iv p. iv \<in> set ivs \<and> m (iv_vreg iv) = Some p})"

lemma occ_ok_step:
  assumes "occ_ok ivs (occ, m)" "iv \<in> set ivs" "m (iv_vreg iv) = None" "distinct (map iv_vreg ivs)"
  shows "occ_ok ivs (assign_fresh_step pools (occ, m) iv)"
proof -
  have "j = iv" if "j \<in> set ivs" "iv_vreg j = iv_vreg iv" for j
    using assms(2,4) that by (simp add: distinct_map inj_on_def)
  then show ?thesis using assms(1-3)
    by (auto simp: occ_ok_def assign_fresh_step_def Let_def)
qed

lemma occupied_overlap:
  assumes "occ_ok ivs (occ, m)"
  shows "set (occupied_regs occ iv) = {p. \<exists>j\<in>set ivs. m (iv_vreg j) = Some p \<and> iv_overlap iv j}"
  using assms by (force simp: occ_ok_def occupied_regs_def iv_overlap_def)

lemma choose_reload_free:
  assumes ok: "occ_ok ivs (occ, m)" and iv: "iv \<in> set ivs" "m (iv_vreg iv) = None"
    and room: "card {j \<in> set ivs. j \<noteq> iv \<and> iv_overlap iv j} < card (set pool)"
  shows "choose_reload pool occ iv \<in> set pool - set (occupied_regs occ iv)"
proof -
  have "set (occupied_regs occ iv) \<subseteq> (\<lambda>j. the (m (iv_vreg j))) ` {j \<in> set ivs. j \<noteq> iv \<and> iv_overlap iv j}"
  proof
    fix p assume "p \<in> set (occupied_regs occ iv)"
    then obtain j where "j \<in> set ivs" "m (iv_vreg j) = Some p" "iv_overlap iv j" unfolding occupied_overlap [OF ok] by blast
    moreover from this iv(2) have "j \<noteq> iv" by auto
    ultimately show "p \<in> (\<lambda>j. the (m (iv_vreg j))) ` {j \<in> set ivs. j \<noteq> iv \<and> iv_overlap iv j}"
      by (intro image_eqI [of _ _ j]) simp_all
  qed
  then have "card (set (occupied_regs occ iv)) \<le> card ((\<lambda>j. the (m (iv_vreg j))) ` {j \<in> set ivs. j \<noteq> iv \<and> iv_overlap iv j})"
    by (intro card_mono) simp_all
  also have "\<dots> \<le> card {j \<in> set ivs. j \<noteq> iv \<and> iv_overlap iv j}" by (rule card_image_le) simp
  finally have "card (set (occupied_regs occ iv)) \<le> card {j \<in> set ivs. j \<noteq> iv \<and> iv_overlap iv j}" .
  then have "\<not> set pool \<subseteq> set (occupied_regs occ iv)"
    using room card_mono [of "set (occupied_regs occ iv)" "set pool"] by auto
  then obtain p where p: "find (\<lambda>p. p \<notin> set (occupied_regs occ iv)) pool = Some p"
    by (metis find_None_iff not_Some_eq subsetI)
  then have "p \<in> set pool" "p \<notin> set (occupied_regs occ iv)" by (auto simp: find_Some_iff)
  then show ?thesis by (simp add: choose_reload_def p)
qed

lemma assign_fresh_inv:
  assumes "occ_ok ivs (occ, m)" "conflict_free ivs m" "distinct (map iv_vreg ivs)"
    "set todo \<subseteq> set ivs" "\<forall>iv\<in>set todo. m (iv_vreg iv) = None" "distinct (map iv_vreg todo)"
    "\<forall>iv\<in>set todo. card {j \<in> set ivs. j \<noteq> iv \<and> iv_overlap iv j} < card (set (pools (vreg_class (iv_vreg iv))))"
    "foldl (assign_fresh_step pools) (occ, m) todo = (occ', m')"
  shows "conflict_free ivs m' \<and> m \<subseteq>\<^sub>m m' \<and>
    (\<forall>iv\<in>set todo. \<exists>p\<in>set (pools (vreg_class (iv_vreg iv))). m' (iv_vreg iv) = Some p)"
  using assms
proof (induction todo arbitrary: occ m)
  case (Cons iv todo)
  define p where "p = choose_reload (pools (vreg_class (iv_vreg iv))) occ iv"
  have iv: "iv \<in> set ivs" "m (iv_vreg iv) = None" using Cons.prems(4,5) by auto
  have p: "p \<in> set (pools (vreg_class (iv_vreg iv))) - set (occupied_regs occ iv)"
    unfolding p_def using Cons.prems(7) by (intro choose_reload_free [OF Cons.prems(1) iv]) simp
  have step: "assign_fresh_step pools (occ, m) iv = (occ @ [(iv_start iv, iv_end iv, p)], m(iv_vreg iv \<mapsto> p))"
    by (simp add: assign_fresh_step_def p_def Let_def)
  have ok: "occ_ok ivs (occ @ [(iv_start iv, iv_end iv, p)], m(iv_vreg iv \<mapsto> p))"
    using occ_ok_step [OF Cons.prems(1) iv Cons.prems(3), of pools] by (simp add: step)
  have same: "j = iv" if "j \<in> set ivs" "iv_vreg j = iv_vreg iv" for j
    using Cons.prems(3) iv(1) that by (simp add: distinct_map inj_on_def)
  have free: "m (iv_vreg j) \<noteq> Some p" if "j \<in> set ivs" "iv_overlap iv j" for j
    using p that unfolding occupied_overlap [OF Cons.prems(1)] by blast
  have cf: "conflict_free ivs (m(iv_vreg iv \<mapsto> p))"
    unfolding conflict_free_def
  proof (intro ballI allI impI)
    fix a b q
    assume ab: "a \<in> set ivs" "b \<in> set ivs" "iv_vreg a \<noteq> iv_vreg b" "iv_overlap a b" "(m(iv_vreg iv \<mapsto> p)) (iv_vreg a) = Some q"
    consider "iv_vreg a = iv_vreg iv" | "iv_vreg b = iv_vreg iv" | "iv_vreg a \<noteq> iv_vreg iv" "iv_vreg b \<noteq> iv_vreg iv" by blast
    then show "(m(iv_vreg iv \<mapsto> p)) (iv_vreg b) \<noteq> Some q"
    proof cases
      case 1
      then show ?thesis using ab free [of b] same [of a] by auto
    next
      case 2
      then show ?thesis using ab free [of a] same [of b] iv_overlap_sym [of a b] by auto
    next
      case 3
      then show ?thesis using ab Cons.prems(2) unfolding conflict_free_def by auto
    qed
  qed
  have "conflict_free ivs m' \<and> (m(iv_vreg iv \<mapsto> p)) \<subseteq>\<^sub>m m' \<and>
    (\<forall>iv\<in>set todo. \<exists>p\<in>set (pools (vreg_class (iv_vreg iv))). m' (iv_vreg iv) = Some p)"
  proof (rule Cons.IH [OF ok cf])
    show "\<forall>j\<in>set todo. (m(iv_vreg iv \<mapsto> p)) (iv_vreg j) = None" using Cons.prems(5,6) by (auto simp: image_iff)
    show "foldl (assign_fresh_step pools) (occ @ [(iv_start iv, iv_end iv, p)], m(iv_vreg iv \<mapsto> p)) todo = (occ', m')"
      using Cons.prems(8) unfolding foldl.simps step .
  qed (use Cons.prems(3,4,6,7) in auto)
  moreover from this have "m' (iv_vreg iv) = Some p" by (auto simp: map_le_def)
  moreover have "m \<subseteq>\<^sub>m m(iv_vreg iv \<mapsto> p)" using iv(2) by (auto simp: map_le_def)
  ultimately show ?case using p by (auto intro: map_le_trans)
qed simp

text \<open>C27: the second allocation pass keeps the assigned registers and gives every new register one of
  its class's pool without conflict, when each new interval overlaps fewer intervals than its pool
  has registers.\<close>

theorem assign_fresh_conflict_free:
  assumes "distinct (map iv_vreg ivs)" "conflict_free ivs m"
    "\<forall>iv\<in>set ivs. m (iv_vreg iv) = None \<longrightarrow>
       card {j \<in> set ivs. j \<noteq> iv \<and> iv_overlap iv j} < card (set (pools (vreg_class (iv_vreg iv))))"
  shows "conflict_free ivs (assign_fresh pools ivs m) \<and> m \<subseteq>\<^sub>m assign_fresh pools ivs m \<and>
    (\<forall>iv\<in>set ivs. m (iv_vreg iv) = None \<longrightarrow>
       (\<exists>p\<in>set (pools (vreg_class (iv_vreg iv))). assign_fresh pools ivs m (iv_vreg iv) = Some p))"
proof -
  let ?todo = "sort_key iv_key (filter (\<lambda>iv. m (iv_vreg iv) = None) ivs)"
  obtain occ' m' where f: "foldl (assign_fresh_step pools) (precolored m ivs, m) ?todo = (occ', m')" by force
  have "occ_ok ivs (precolored m ivs, m)"
    by (force simp: occ_ok_def precolored_def in_map_filter)
  moreover have "distinct (map iv_vreg ?todo)"
    unfolding distinct_map_sort using assms(1) by (simp add: distinct_map_filter)
  ultimately have "conflict_free ivs m' \<and> m \<subseteq>\<^sub>m m' \<and>
      (\<forall>iv\<in>set ?todo. \<exists>p\<in>set (pools (vreg_class (iv_vreg iv))). m' (iv_vreg iv) = Some p)"
    using assms by (intro assign_fresh_inv [OF _ assms(2,1) _ _ _ _ f]) auto
  moreover have "assign_fresh pools ivs m = m'" by (simp add: assign_fresh_def f)
  ultimately show ?thesis by simp
qed

lemma assign_fresh_total: "iv \<in> set ivs \<Longrightarrow> assign_fresh pools ivs m (iv_vreg iv) \<noteq> None"
proof -
  have keep: "v \<in> dom m \<Longrightarrow> v \<in> dom (snd (foldl (assign_fresh_step pools) (occ, m) todo))" for v occ m todo
    by (induction todo arbitrary: occ m) (auto simp: assign_fresh_step_def Let_def)
  have new: "iv \<in> set todo \<Longrightarrow> iv_vreg iv \<in> dom (snd (foldl (assign_fresh_step pools) (occ, m) todo))" for iv occ m todo
  proof (induction todo arbitrary: occ m)
    case (Cons x todo)
    obtain occ' m' where s: "assign_fresh_step pools (occ, m) x = (occ', m')" "iv_vreg x \<in> dom m'"
      by (auto simp: assign_fresh_step_def Let_def)
    show ?case
    proof (cases "iv = x")
      case True
      then show ?thesis using keep [OF s(2)] s(1) by simp
    next
      case False
      then show ?thesis using Cons s(1) by simp
    qed
  qed simp
  assume "iv \<in> set ivs"
  then show ?thesis
    using keep [of "iv_vreg iv" m "precolored m ivs"] new [of iv "sort_key iv_key (filter (\<lambda>iv. m (iv_vreg iv) = None) ivs)" "precolored m ivs" m]
    by (cases "m (iv_vreg iv)") (auto simp: assign_fresh_def domIff)
qed

section \<open>The pipeline\<close>

definition allocate_function ::
  "alloc_strategy \<Rightarrow> spill_opcodes \<Rightarrow> machine_function \<Rightarrow> machine_function rust" where
  \<comment> \<open>the calls of the compilers' drivers, in order\<close>
  "allocate_function strategy so mf =
     do { r \<leftarrow> allocate_registers (compute_live_intervals mf) (mf_allocatable_pregs mf)
                 (mf_allocatable_fp_pregs mf) strategy;
          (mf, r) \<leftarrow> insert_spill_reloads mf r so;
          Some (apply_allocation mf r) }"

lemma flat_apply: "flat_instrs (apply_allocation mf r) = map (apply_instr (vreg_to_preg r)) (flat_instrs mf)"
  by (simp add: flat_instrs_def apply_allocation_def map_concat comp_def)

lemma apply_instr_physical:
  "\<forall>v\<in>set (instr_regs mi). m v \<noteq> None \<Longrightarrow> MVReg v \<notin> set (mi_operands (apply_instr m mi))"
  by (force simp: apply_instr_def apply_operand_def instr_regs_iff split: moperand.splits option.splits)

text \<open>C25: after live intervals, allocation, spill code and the final rewrite, every operand of the
  function is physical: no virtual register operand remains, whatever was spilled.\<close>

theorem allocate_function_physical:
  assumes "distinct (mf_allocatable_pregs mf)" "distinct (mf_allocatable_fp_pregs mf)"
    "allocate_function strategy so mf = Some mf'"
  shows "\<forall>b\<in>set (mf_blocks mf'). \<forall>mi\<in>set (mb_instrs b). \<forall>v. MVReg v \<notin> set (mi_operands mi)"
proof -
  obtain r mf1 r1 where a: "allocate_registers (compute_live_intervals mf) (mf_allocatable_pregs mf)
      (mf_allocatable_fp_pregs mf) strategy = Some r"
    and i: "insert_spill_reloads mf r so = Some (mf1, r1)" and mf': "mf' = apply_allocation mf1 r1"
    using assms(3) by (auto simp: allocate_function_def split: bind_splits)
  have v: "valid_split (compute_live_intervals mf) (mf_allocatable_pregs mf) (mf_allocatable_fp_pregs mf) r"
    using allocate_split_valid [OF distinct_intervals assms(1,2), of mf strategy] a by auto
  have occ: "\<exists>iv\<in>set (compute_live_intervals f). iv_vreg iv = w" if "mi \<in> set (flat_instrs f)" "w \<in> set (instr_regs mi)" for f mi w
    using that interval_covers(2) [of f w] by (fastforce simp: occurs_at_def in_set_conv_nth)
  have "vreg_to_preg r1 w \<noteq> None" if mi: "mi \<in> set (flat_instrs mf1)" "w \<in> set (instr_regs mi)" for mi w
  proof (cases "spilled r = []")
    case True
    then have "mf1 = mf" "r1 = r" using i by (simp_all add: insert_spill_reloads_def)
    moreover have "dom (vreg_to_preg r) = iv_vreg ` set (compute_live_intervals mf)"
      using v True by (simp add: valid_split_def)
    ultimately show ?thesis using occ [OF mi] by auto
  next
    case False
    then have "vreg_to_preg r1 = assign_fresh (mf_pools mf1) (compute_live_intervals mf1) (vreg_to_preg r)"
      using i by (auto simp: insert_spill_reloads_def split: bind_splits)
    then show ?thesis using occ [OF mi] assign_fresh_total by metis
  qed
  then have "\<forall>mi\<in>set (flat_instrs mf'). \<forall>v. MVReg v \<notin> set (mi_operands mi)"
    using apply_instr_physical by (fastforce simp: mf' flat_apply)
  then show ?thesis by (auto simp: flat_instrs_def)
qed

section \<open>Examples\<close>

definition ex_ops :: spill_opcodes where
  "ex_ops = \<lparr>so_load = 100, so_store = 101, so_fp_load = 102, so_fp_store = 103\<rparr>"

definition spill_mf :: machine_function where
  \<comment> \<open>\<open>v0 := ..; v1 := ..; use v0, v1\<close> with one register in the pool\<close>
  "spill_mf = (ex_function [[ex_instr (Some 0) [], ex_instr (Some 1) [], ex_instr None [MVReg 0, MVReg 1]]])
     \<lparr>mf_next_vreg := 2, mf_allocatable_pregs := [5]\<rparr>"

definition spilled_mf :: machine_function where
  "spilled_mf = spill_mf\<lparr>mf_next_vreg := 4, mf_next_slot := 1, mf_spill_slots := [1 \<mapsto> 0], mf_frame_size := 8,
     mf_blocks := [\<lparr>mb_label = [], mb_instrs =
       [ex_instr (Some 0) [], ex_instr (Some 2) [], with_vreg (with_imm (minstr_new 101) 0) 2,
        with_imm (with_dst (minstr_new 100) 3) 0, ex_instr None [MVReg 0, MVReg 3]]\<rparr>]\<rparr>"

lemmas spill_eval = rewrite_spills_def alloc_slots_def alloc_spill_slot_def inc_u32_def mul_u32_def spill_block_def
  spill_instr_def reload_operand_def store_dst_def fresh_like_def fresh_vreg_def vreg_new_int_def vreg_class_def
  class_bit_def ex_ops_def

lemma spill_mf_rewrite: "rewrite_spills ex_ops spill_mf [1] = Some spilled_mf"
  by (simp add: spill_eval spill_mf_def spilled_mf_def ex_instr_def ex_function_def mf_new_def minstr_new_def
      with_vreg_def with_imm_def with_dst_def)

lemma spill_mf_spillable: "spillable ex_ops spill_mf [1]"
  by (simp add: spillable_def spill_mf_def ex_function_def mf_new_def wf_slots_def distinct_spill_ops_def ex_ops_def
      old_instr_def instr_regs_def List.map_filter_simps ex_instr_def minstr_new_def spill_opcode_set_def vreg_id_def
      class_bit_def)

definition ex_state :: "vreg \<Rightarrow> int \<Rightarrow> (int, unit) mstate" where
  \<comment> \<open>register \<open>v\<close> holds its number, the frame everywhere \<open>s\<close>\<close>
  "ex_state v s = \<lparr>ms_regs = uint, ms_frame = (\<lambda>_. s), ms_mem = ()\<rparr>"

definition count_sem :: "(int, unit) opsem" where
  "count_sem opc vs pu cl old m = (int (length vs), m)"

definition increment_sem :: "(int, unit) opsem" where
  \<comment> \<open>a two-address opcode: one more than the old value of the destination\<close>
  "increment_sem opc vs pu cl old m = ((case old of None \<Rightarrow> 0 | Some x \<Rightarrow> x + 1), m)"

lemma spill_two_address_wrong:
  \<comment> \<open>\<open>v1\<close> is incremented and spilled: the slot gets the increment of an undefined register\<close>
  "spill_related 2 (mf_spill_slots spilled_mf) (ex_state 0 0) (ex_state 0 1) \<and>
   \<not> spill_related 2 (mf_spill_slots spilled_mf)
      (exec_instrs ex_ops increment_sem (ex_state 0 0) (mb_instrs (mf_blocks spill_mf ! 0)))
      (exec_instrs ex_ops increment_sem (ex_state 0 1) (mb_instrs (mf_blocks spilled_mf ! 0)))"
proof
  show "spill_related 2 (mf_spill_slots spilled_mf) (ex_state 0 0) (ex_state 0 1)"
    by (simp add: spill_related_def ex_state_def spilled_mf_def)
  let ?a = "exec_instrs ex_ops increment_sem (ex_state 0 0) (mb_instrs (mf_blocks spill_mf ! 0))"
  let ?b = "exec_instrs ex_ops increment_sem (ex_state 0 1) (mb_instrs (mf_blocks spilled_mf ! 0))"
  have a: "ms_regs ?a 1 = 2"
    by (simp add: spill_mf_def ex_function_def ex_instr_def exec_instr_def exec_op_def increment_sem_def ex_state_def
        ex_ops_def minstr_new_def)
  have b: "ms_frame ?b 0 = 3"
    by (simp add: spilled_mf_def spill_mf_def ex_function_def ex_instr_def exec_instr_def exec_op_def increment_sem_def
        ex_state_def ex_ops_def minstr_new_def with_vreg_def with_imm_def with_dst_def)
  have "vreg_id 1 < 2" by (simp add: vreg_id_def class_bit_def)
  then show "\<not> spill_related 2 (mf_spill_slots spilled_mf) ?a ?b"
    using a b by (auto simp: spill_related_def spilled_mf_def intro!: exI [of _ 1])
qed

lemma rewrite_spills_simulates_witness:
  "spill_related 2 (mf_spill_slots spilled_mf)
    (exec_instrs ex_ops count_sem (ex_state 0 0) (mb_instrs (mf_blocks spill_mf ! 0)))
    (exec_instrs ex_ops count_sem (ex_state 0 1) (mb_instrs (mf_blocks spilled_mf ! 0)))"
proof -
  have "spill_related (mf_next_vreg spill_mf) (mf_spill_slots spilled_mf) (ex_state 0 0) (ex_state 0 1)"
    by (simp add: spill_related_def ex_state_def spilled_mf_def)
  from rewrite_spills_simulates [OF spill_mf_rewrite spill_mf_spillable _ this, of 0 count_sem]
  show ?thesis by (simp add: spill_mf_def ex_function_def untied_def ignores_dst_def count_sem_def)
qed

lemma rewrite_spills_clean_witness:
  "length (mf_blocks spilled_mf) = length (mf_blocks spill_mf) \<and>
   block_targets (mf_blocks spilled_mf ! 0) = block_targets (mf_blocks spill_mf ! 0) \<and>
   set (instr_regs (mb_instrs (mf_blocks spilled_mf ! 0) ! 4)) \<inter> set [1] = {}"
proof -
  have l: "0 < length (mf_blocks spill_mf)" "4 < length (mb_instrs (mf_blocks spilled_mf ! 0))"
    by (simp_all add: spill_mf_def spilled_mf_def ex_function_def)
  from rewrite_spills_clean [OF spill_mf_rewrite spill_mf_spillable] show ?thesis
    using l(1) nth_mem [OF l(2)] by blast
qed

lemma assign_fresh_conflict_free_witness:
  "conflict_free ivs_example (assign_fresh (\<lambda>_. [1, 2, 3, 4]) ivs_example Map.empty) \<and>
   Map.empty \<subseteq>\<^sub>m assign_fresh (\<lambda>_. [1, 2, 3, 4]) ivs_example Map.empty"
proof -
  have "\<forall>iv\<in>set ivs_example. (Map.empty :: vreg \<rightharpoonup> preg) (iv_vreg iv) = None \<longrightarrow>
    card {j \<in> set ivs_example. j \<noteq> iv \<and> iv_overlap iv j} < card (set [1, 2, 3, 4 :: preg])"
  proof (intro ballI impI)
    fix iv assume iv: "iv \<in> set ivs_example"
    have "card {j \<in> set ivs_example. j \<noteq> iv \<and> iv_overlap iv j} < card (set ivs_example)"
      using iv by (intro psubset_card_mono) auto
    also have "\<dots> \<le> length ivs_example" by (rule card_length)
    finally show "card {j \<in> set ivs_example. j \<noteq> iv \<and> iv_overlap iv j} < card (set [1, 2, 3, 4 :: preg])"
      by (simp add: ivs_example_def)
  qed
  moreover have "distinct (map iv_vreg ivs_example)" "conflict_free ivs_example Map.empty"
    by (simp_all add: ivs_example_def conflict_free_def)
  ultimately show ?thesis using assign_fresh_conflict_free [of ivs_example Map.empty "\<lambda>_. [1, 2, 3, 4]"] by blast
qed

lemma spill_mf_intervals: "compute_live_intervals spill_mf =
   [\<lparr>iv_vreg = 0, iv_start = 0, iv_end = 3\<rparr>, \<lparr>iv_vreg = 1, iv_start = 1, iv_end = 3\<rparr>]"
proof -
  have "\<not> has_backward_branch (mf_blocks spill_mf)" by (simp add: spill_mf_def mf_eval scan_eval)
  moreover have "live_scan (mf_blocks spill_mf) = [(0, 0, 3), (1, 1, 3)]" by (simp add: spill_mf_def mf_eval scan_eval)
  ultimately show ?thesis by (simp add: compute_live_intervals_ranges live_ranges_forward iv_key_def)
qed

lemma spilled_mf_intervals: "compute_live_intervals spilled_mf =
   [\<lparr>iv_vreg = 0, iv_start = 0, iv_end = 5\<rparr>, \<lparr>iv_vreg = 2, iv_start = 1, iv_end = 3\<rparr>,
    \<lparr>iv_vreg = 3, iv_start = 3, iv_end = 5\<rparr>]"
proof -
  have "\<not> has_backward_branch (mf_blocks spilled_mf)"
    by (simp add: spilled_mf_def mf_eval scan_eval with_vreg_def with_imm_def with_dst_def)
  moreover have "live_scan (mf_blocks spilled_mf) = [(0, 0, 5), (2, 1, 3), (3, 3, 5)]"
    by (simp add: spilled_mf_def mf_eval scan_eval with_vreg_def with_imm_def with_dst_def)
  ultimately show ?thesis by (simp add: compute_live_intervals_ranges live_ranges_forward iv_key_def)
qed

lemma spill_mf_alloc:
  "allocate_registers (compute_live_intervals spill_mf) [5] [] LinearScan = Some \<lparr>vreg_to_preg = [0 \<mapsto> 5], spilled = [1]\<rparr>"
  unfolding spill_mf_intervals by (simp add: alloc_eval)

lemma spill_mf_fresh:
  "insert_spill_reloads spill_mf \<lparr>vreg_to_preg = [0 \<mapsto> 5], spilled = [1]\<rparr> ex_ops =
     Some (spilled_mf, \<lparr>vreg_to_preg = [0 \<mapsto> 5, 2 \<mapsto> 5, 3 \<mapsto> 5], spilled = []\<rparr>)"
proof -
  have "mf_pools spilled_mf = (\<lambda>k. case k of RegInt \<Rightarrow> [5] | RegFloat \<Rightarrow> [])"
    by (rule ext) (simp add: mf_pools_def spilled_mf_def spill_mf_def ex_function_def mf_new_def split: reg_class.split)
  then show ?thesis
    by (simp add: insert_spill_reloads_def spill_mf_rewrite assign_fresh_def spilled_mf_intervals precolored_def
        List.map_filter_simps iv_key_def assign_fresh_step_def choose_reload_def occupied_regs_def vreg_class_def class_bit_def)
qed

text \<open>when the pool has no register left for a reload, the second pass silently takes the pool's
  first one. With one register in the pool, \<open>use v0, v1\<close> ends as an instruction that reads physical
  register 5 for both operands, and the reload of \<open>v1\<close> has overwritten \<open>v0\<close>.\<close>

theorem reload_collides:
  "\<exists>mf'. allocate_function LinearScan ex_ops spill_mf = Some mf' \<and>
     mi_operands (flat_instrs spill_mf ! 2) = [MVReg 0, MVReg 1] \<and>
     mi_operands (flat_instrs mf' ! 4) = [MPReg 5, MPReg 5] \<and> mi_dst (flat_instrs mf' ! 3) = Some 5"
proof -
  have p: "mf_allocatable_pregs spill_mf = [5]" "mf_allocatable_fp_pregs spill_mf = []"
    by (simp_all add: spill_mf_def ex_function_def mf_new_def)
  have a: "allocate_function LinearScan ex_ops spill_mf =
      Some (apply_allocation spilled_mf \<lparr>vreg_to_preg = [0 \<mapsto> 5, 2 \<mapsto> 5, 3 \<mapsto> 5], spilled = []\<rparr>)"
    by (simp add: allocate_function_def p spill_mf_alloc spill_mf_fresh)
  have f: "flat_instrs spilled_mf = [ex_instr (Some 0) [], ex_instr (Some 2) [], with_vreg (with_imm (minstr_new 101) 0) 2,
        with_imm (with_dst (minstr_new 100) 3) 0, ex_instr None [MVReg 0, MVReg 3]]"
    by (simp add: flat_instrs_def spilled_mf_def)
  have i: "flat_instrs spill_mf ! 2 = ex_instr None [MVReg 0, MVReg 1]"
    by (simp add: spill_mf_def flat_instrs_def ex_function_def)
  show ?thesis
    by (simp add: a i flat_apply f apply_instr_def apply_operand_def ex_instr_def minstr_new_def with_imm_def with_dst_def)
qed

definition invoke_mf :: machine_function where
  \<comment> \<open>\<open>spill_mf\<close> whose last instruction is the call of an invoke, with landing pad block 1\<close>
  "invoke_mf = spill_mf\<lparr>mf_invoke_tracking := [(0, 2, 0, 1)]\<rparr>"

lemma invoke_mf_rewrite: "rewrite_spills ex_ops invoke_mf [1] = Some (spilled_mf\<lparr>mf_invoke_tracking := [(0, 2, 0, 1)]\<rparr>)"
  by (simp add: spill_eval invoke_mf_def spill_mf_def spilled_mf_def ex_instr_def ex_function_def mf_new_def minstr_new_def
      with_vreg_def with_imm_def with_dst_def)

text \<open>\<open>insert_spill_reloads\<close> does not move the positions in \<open>invoke_tracking\<close>. In \<open>invoke_mf\<close> the
  recorded position (block 0, instruction 2) is the call; after the rewrite it is a spill store, and
  the encoder takes its offset for the call site of the exception table.\<close>

theorem invoke_tracking_stale:
  "\<exists>mf'. rewrite_spills ex_ops invoke_mf [1] = Some mf' \<and> mf_invoke_tracking mf' = mf_invoke_tracking invoke_mf \<and>
     mf_invoke_tracking invoke_mf = [(0, 2, 0, 1)] \<and>
     mi_opcode (mb_instrs (mf_blocks invoke_mf ! 0) ! 2) = 0 \<and>
     mi_opcode (mb_instrs (mf_blocks mf' ! 0) ! 2) = so_store ex_ops"
  unfolding invoke_mf_rewrite
  by (simp add: invoke_mf_def spilled_mf_def spill_mf_def ex_function_def ex_instr_def minstr_new_def
      with_vreg_def with_imm_def ex_ops_def)

lemma allocate_function_physical_witness:
  "MVReg 3 \<notin> set (mi_operands (mb_instrs (mf_blocks
     (apply_allocation spilled_mf \<lparr>vreg_to_preg = [0 \<mapsto> 5, 2 \<mapsto> 5, 3 \<mapsto> 5], spilled = []\<rparr>) ! 0) ! 4))"
proof -
  let ?mf' = "apply_allocation spilled_mf \<lparr>vreg_to_preg = [0 \<mapsto> 5, 2 \<mapsto> 5, 3 \<mapsto> 5], spilled = []\<rparr>"
  have p: "mf_allocatable_pregs spill_mf = [5]" "mf_allocatable_fp_pregs spill_mf = []"
    by (simp_all add: spill_mf_def ex_function_def mf_new_def)
  have a: "allocate_function LinearScan ex_ops spill_mf = Some ?mf'"
    by (simp add: allocate_function_def p spill_mf_alloc spill_mf_fresh)
  have l: "0 < length (mf_blocks ?mf')" "4 < length (mb_instrs (mf_blocks ?mf' ! 0))"
    by (simp_all add: apply_allocation_def spilled_mf_def)
  show ?thesis using allocate_function_physical [OF _ _ a] p nth_mem [OF l(1)] nth_mem [OF l(2)] by simp
qed

end
