(* ===== verification/LRIR_Codec.thy ===== *)
theory LRIR_Codec
  imports IR_Function
begin

text \<open>
  The byte layer of the LRIR bitcode (\<open>llvm-bitcode/src/{error,reader,writer}.rs\<close>): little-endian
  integers, length-prefixed strings, and the reader as a decoder. A decoder takes the bytes from the
  read position on; it returns a value and the remaining bytes, an error, or panics. The texts of
  \<open>ParseError\<close> are left out.

  The interface \<open>codec\<close> says that a decoder undoes an encoder whatever follows; pairs, options and
  counted lists are proved once in it.
\<close>

section \<open>Decoders\<close>

type_synonym byte = "8 word"

datatype bc_error =
    InvalidMagic
  | TruncatedInput
  | UnexpectedEof
  | UnsupportedRecord nat
  | InvalidType
  | ParseError

type_synonym 'a decoder = "byte list \<Rightarrow> (bc_error + 'a \<times> byte list) rust"

definition dret :: "'a \<Rightarrow> 'a decoder" where
  "dret x bs = Some (Inr (x, bs))"

definition dfail :: "bc_error \<Rightarrow> 'a decoder" where
  "dfail e bs = Some (Inl e)"

definition dbind :: "'a decoder \<Rightarrow> ('a \<Rightarrow> 'b decoder) \<Rightarrow> 'b decoder" where
  \<comment> \<open>the \<open>?\<close> operator\<close>
  "dbind d f bs =
     (case d bs of
        None \<Rightarrow> None
      | Some (Inl e) \<Rightarrow> Some (Inl e)
      | Some (Inr (x, bs')) \<Rightarrow> f x bs')"

definition dlift :: "'a rust \<Rightarrow> 'a decoder" where
  \<comment> \<open>a computation that may panic and reads nothing\<close>
  "dlift r bs = (case r of None \<Rightarrow> None | Some x \<Rightarrow> Some (Inr (x, bs)))"

definition dmap :: "('a \<Rightarrow> 'b) \<Rightarrow> 'a decoder \<Rightarrow> 'b decoder" where
  "dmap f a = dbind a (\<lambda>x. dret (f x))"

definition dmap2 :: "('a \<Rightarrow> 'b \<Rightarrow> 'c) \<Rightarrow> 'a decoder \<Rightarrow> 'b decoder \<Rightarrow> 'c decoder" where
  "dmap2 f a b = dbind a (\<lambda>x. dbind b (\<lambda>y. dret (f x y)))"

definition dmap3 :: "('a \<Rightarrow> 'b \<Rightarrow> 'c \<Rightarrow> 'd) \<Rightarrow> 'a decoder \<Rightarrow> 'b decoder \<Rightarrow> 'c decoder \<Rightarrow> 'd decoder" where
  "dmap3 f a b c = dbind a (\<lambda>x. dbind b (\<lambda>y. dbind c (\<lambda>z. dret (f x y z))))"

definition dmap4 ::
  "('a \<Rightarrow> 'b \<Rightarrow> 'c \<Rightarrow> 'd \<Rightarrow> 'e) \<Rightarrow> 'a decoder \<Rightarrow> 'b decoder \<Rightarrow> 'c decoder \<Rightarrow> 'd decoder \<Rightarrow> 'e decoder" where
  "dmap4 f a b c d = dbind a (\<lambda>x. dbind b (\<lambda>y. dbind c (\<lambda>z. dbind d (\<lambda>w. dret (f x y z w)))))"

definition dmap5 ::
  "('a \<Rightarrow> 'b \<Rightarrow> 'c \<Rightarrow> 'd \<Rightarrow> 'e \<Rightarrow> 'f) \<Rightarrow> 'a decoder \<Rightarrow> 'b decoder \<Rightarrow> 'c decoder \<Rightarrow> 'd decoder \<Rightarrow> 'e decoder \<Rightarrow> 'f decoder" where
  "dmap5 f a b c d e =
     dbind a (\<lambda>x. dbind b (\<lambda>y. dbind c (\<lambda>z. dbind d (\<lambda>w. dbind e (\<lambda>v. dret (f x y z w v))))))"

definition dmap7 ::
  "('a \<Rightarrow> 'b \<Rightarrow> 'c \<Rightarrow> 'd \<Rightarrow> 'e \<Rightarrow> 'f \<Rightarrow> 'g \<Rightarrow> 'h) \<Rightarrow> 'a decoder \<Rightarrow> 'b decoder \<Rightarrow> 'c decoder \<Rightarrow>
     'd decoder \<Rightarrow> 'e decoder \<Rightarrow> 'f decoder \<Rightarrow> 'g decoder \<Rightarrow> 'h decoder" where
  "dmap7 h a b c d e f g =
     dbind a (\<lambda>x. dbind b (\<lambda>y. dbind c (\<lambda>z. dbind d (\<lambda>w. dbind e (\<lambda>v. dbind f (\<lambda>u. dbind g (\<lambda>t.
       dret (h x y z w v u t))))))))"

primrec drepeat :: "nat \<Rightarrow> 'a decoder \<Rightarrow> 'a list decoder" where
  \<comment> \<open>\<open>for _ in 0..n\<close> pushing to a vector\<close>
  "drepeat 0 d = dret []"
| "drepeat (Suc n) d = dbind d (\<lambda>x. dbind (drepeat n d) (\<lambda>xs. dret (x # xs)))"

lemmas dmap_defs = dmap_def dmap2_def dmap3_def dmap4_def dmap5_def dmap7_def

lemma dbind_ok: "d bs = Some (Inr (x, bs')) \<Longrightarrow> dbind d f bs = f x bs'"
  by (simp add: dbind_def)

lemma dret_apply [simp]: "dret x bs = Some (Inr (x, bs))"
  by (simp add: dret_def)

lemma dlift_Some [simp]: "dlift (Some x) = dret x"
  by (rule ext) (simp add: dlift_def)

section \<open>Bytes and integers\<close>

primrec le_bytes :: "nat \<Rightarrow> nat \<Rightarrow> byte list" where
  \<comment> \<open>the \<open>n\<close> low bytes of a number, the lowest first\<close>
  "le_bytes 0 v = []"
| "le_bytes (Suc n) v = of_nat v # le_bytes n (v div 256)"

primrec from_le :: "byte list \<Rightarrow> nat" where
  "from_le [] = 0"
| "from_le (b # bs) = unat b + 256 * from_le bs"

definition enc_u8 :: "nat \<Rightarrow> byte list" where
  "enc_u8 v = le_bytes 1 v"

definition enc_u32 :: "nat \<Rightarrow> byte list" where
  "enc_u32 v = le_bytes 4 v"

definition enc_i32 :: "int \<Rightarrow> byte list" where
  "enc_i32 v = le_bytes 4 (nat (v mod 2 ^ 32))"

definition enc_u64 :: "nat \<Rightarrow> byte list" where
  "enc_u64 v = le_bytes 8 v"

definition enc_bool :: "bool \<Rightarrow> byte list" where
  "enc_bool b = enc_u8 (if b then 1 else 0)"

definition read_bytes :: "nat \<Rightarrow> byte list decoder" where
  "read_bytes n bs = (if length bs < n then Some (Inl TruncatedInput) else Some (Inr (take n bs, drop n bs)))"

definition dec_u8 :: "nat decoder" where
  "dec_u8 = dmap from_le (read_bytes 1)"

definition dec_u32 :: "nat decoder" where
  "dec_u32 = dmap from_le (read_bytes 4)"

definition dec_i32 :: "int decoder" where
  "dec_i32 = dmap (\<lambda>bs. sint (of_nat (from_le bs) :: 32 word)) (read_bytes 4)"

definition dec_u64 :: "nat decoder" where
  "dec_u64 = dmap from_le (read_bytes 8)"

definition dec_bool :: "bool decoder" where
  \<comment> \<open>\<open>r.u8()? != 0\<close>\<close>
  "dec_bool = dmap (\<lambda>b. b \<noteq> 0) dec_u8"

lemma length_le_bytes [simp]: "length (le_bytes n v) = n"
  by (induction n arbitrary: v) simp_all

lemma from_le_bytes: "from_le (le_bytes n v) = v mod 256 ^ n"
proof (induction n arbitrary: v)
  case (Suc n)
  have "from_le (le_bytes (Suc n) v) = v mod 256 + 256 * (v div 256 mod 256 ^ n)"
    by (simp add: Suc unat_of_nat)
  also have "\<dots> = v mod 256 ^ Suc n" by (simp add: mod_mult2_eq)
  finally show ?case .
qed simp

lemma from_le_less: "from_le bs < 256 ^ length bs"
proof (induction bs)
  case (Cons b bs)
  have "unat b < 256" using unsigned_less [of b] by simp
  then show ?case using Cons by simp
qed simp

lemma read_bytes_append: "length xs = n \<Longrightarrow> read_bytes n (xs @ rest) = Some (Inr (xs, rest))"
  by (simp add: read_bytes_def)

section \<open>Strings\<close>

definition byte_of_char :: "char \<Rightarrow> byte" where
  "byte_of_char c = of_nat (of_char c)"

definition char_of_byte :: "byte \<Rightarrow> char" where
  "char_of_byte b = char_of (unat b)"

definition utf8_cont :: "nat \<Rightarrow> bool" where
  "utf8_cont b \<longleftrightarrow> 128 \<le> b \<and> b < 192"

fun utf8_step :: "nat list \<Rightarrow> nat list option" where
  \<comment> \<open>the bytes after the first encoded character (the table of RFC 3629)\<close>
  "utf8_step [] = None"
| "utf8_step (b # bs) =
     (if b < 128 then Some bs
      else if 194 \<le> b \<and> b < 224 then
        (case bs of c # r \<Rightarrow> if utf8_cont c then Some r else None | _ \<Rightarrow> None)
      else if 224 \<le> b \<and> b < 240 then
        (case bs of c # d # r \<Rightarrow>
            if utf8_cont c \<and> utf8_cont d \<and> (b = 224 \<longrightarrow> 160 \<le> c) \<and> (b = 237 \<longrightarrow> c < 160) then Some r else None
         | _ \<Rightarrow> None)
      else if 240 \<le> b \<and> b < 245 then
        (case bs of c # d # e # r \<Rightarrow>
            if utf8_cont c \<and> utf8_cont d \<and> utf8_cont e \<and> (b = 240 \<longrightarrow> 144 \<le> c) \<and> (b = 244 \<longrightarrow> c < 144)
            then Some r else None
         | _ \<Rightarrow> None)
      else None)"

lemma utf8_step_length: "utf8_step bs = Some r \<Longrightarrow> length r < length bs"
  by (cases bs rule: utf8_step.cases) (auto split: if_splits list.splits)

function utf8_valid :: "nat list \<Rightarrow> bool" where
  "utf8_valid bs = (if bs = [] then True else case utf8_step bs of None \<Rightarrow> False | Some r \<Rightarrow> utf8_valid r)"
  by pat_completeness auto
termination utf8_valid
  by (relation "measure length") (auto dest: utf8_step_length)

declare utf8_valid.simps [simp del]

definition utf8_string :: "string \<Rightarrow> bool" where
  \<comment> \<open>what Rust keeps of every \<open>String\<close>\<close>
  "utf8_string s \<longleftrightarrow> utf8_valid (map of_char s)"

definition enc_raw :: "string \<Rightarrow> byte list" where
  "enc_raw s = map byte_of_char s"

definition enc_string :: "string \<Rightarrow> byte list" where
  "enc_string s = enc_u32 (length s) @ enc_raw s"

definition from_utf8 :: "byte list \<Rightarrow> string decoder" where
  "from_utf8 bs = (if utf8_valid (map unat bs) then dret (map char_of_byte bs) else dfail ParseError)"

definition dec_string :: "string decoder" where
  "dec_string = dbind dec_u32 (\<lambda>n. if n = 0 then dret [] else dbind (read_bytes n) from_utf8)"

definition dec_opt_string :: "string option decoder" where
  "dec_opt_string =
     dbind dec_u32 (\<lambda>n. if n = 0 then dret None else dmap Some (dbind (read_bytes n) from_utf8))"

definition enc_opt_string :: "string option \<Rightarrow> byte list" where
  \<comment> \<open>\<open>match name { Some(n) => w.string(n), None => w.u32(0) }\<close>\<close>
  "enc_opt_string s = (case s of Some n \<Rightarrow> enc_string n | None \<Rightarrow> enc_u32 0)"

lemma unat_byte_of_char [simp]: "unat (byte_of_char c) = of_char c"
proof -
  have "(of_char c :: nat) < 256" by simp
  then show ?thesis by (simp add: byte_of_char_def unat_of_nat)
qed

lemma char_of_byte_of_char [simp]: "char_of_byte (byte_of_char c) = c"
  by (simp add: char_of_byte_def)

section \<open>Codecs\<close>

definition enc_list :: "('a \<Rightarrow> byte list) \<Rightarrow> 'a list \<Rightarrow> byte list" where
  "enc_list enc xs = enc_u32 (length xs) @ concat (map enc xs)"

definition dec_list :: "'a decoder \<Rightarrow> 'a list decoder" where
  "dec_list d = dbind dec_u32 (\<lambda>n. drepeat n d)"

definition enc_opt :: "('a \<Rightarrow> byte list) \<Rightarrow> 'a option \<Rightarrow> byte list" where
  "enc_opt enc v = (case v of Some x \<Rightarrow> enc_u8 1 @ enc x | None \<Rightarrow> enc_u8 0)"

definition dec_opt :: "'a decoder \<Rightarrow> 'a option decoder" where
  "dec_opt d = dbind dec_u8 (\<lambda>p. if p \<noteq> 0 then dmap Some d else dret None)"

lemma dec_u32_enc [simp]: "v < 2 ^ 32 \<Longrightarrow> dec_u32 (enc_u32 v @ rest) = Some (Inr (v, rest))"
  by (simp add: dec_u32_def enc_u32_def dmap_def dbind_def read_bytes_append from_le_bytes)

lemma dec_u8_enc [simp]: "v < 256 \<Longrightarrow> dec_u8 (enc_u8 v @ rest) = Some (Inr (v, rest))"
  using read_bytes_append [of "le_bytes 1 v" 1 rest]
  by (simp add: dec_u8_def enc_u8_def dmap_def dbind_def from_le_bytes del: One_nat_def le_bytes.simps)

lemma dec_u64_enc [simp]: "v < 2 ^ 64 \<Longrightarrow> dec_u64 (enc_u64 v @ rest) = Some (Inr (v, rest))"
  by (simp add: dec_u64_def enc_u64_def dmap_def dbind_def read_bytes_append from_le_bytes)

lemma dec_i32_enc [simp]:
  assumes "- (2 ^ 31) \<le> v" "v < 2 ^ 31"
  shows "dec_i32 (enc_i32 v @ rest) = Some (Inr (v, rest))"
proof -
  have "(of_nat (nat (v mod 2 ^ 32)) :: 32 word) = of_int (v mod 2 ^ 32)" by (simp add: of_nat_nat)
  also have "\<dots> = word_of_int v" by (simp add: word_of_int_eq_iff take_bit_eq_mod)
  finally have "(of_nat (nat (v mod 2 ^ 32)) :: 32 word) = word_of_int v" .
  moreover have "sint (word_of_int v :: 32 word) = v"
    using assms by (simp add: signed_of_int signed_take_bit_int_eq_self)
  moreover have "nat (v mod 2 ^ 32) < 256 ^ 4" using pos_mod_bound [of "2 ^ 32" v] by simp
  ultimately show ?thesis
    by (simp add: dec_i32_def enc_i32_def dmap_def dbind_def read_bytes_append from_le_bytes)
qed

lemma dec_bool_enc [simp]: "dec_bool (enc_bool b @ rest) = Some (Inr (b, rest))"
  by (simp add: dec_bool_def enc_bool_def dmap_def dbind_def)

lemma from_utf8_raw: "utf8_string s \<Longrightarrow> from_utf8 (enc_raw s) rest = Some (Inr (s, rest))"
  by (simp add: from_utf8_def enc_raw_def utf8_string_def comp_def)

lemma dec_string_enc [simp]:
  assumes "utf8_string s" "length s < 2 ^ 32"
  shows "dec_string (enc_string s @ rest) = Some (Inr (s, rest))"
proof (cases "s = []")
  case True
  then show ?thesis by (simp add: dec_string_def enc_string_def enc_raw_def dbind_def)
next
  case False
  have "read_bytes (length s) (enc_raw s @ rest) = Some (Inr (enc_raw s, rest))"
    by (rule read_bytes_append) (simp add: enc_raw_def)
  with False assms show ?thesis by (simp add: dec_string_def enc_string_def dbind_def from_utf8_raw)
qed

lemma dec_opt_string_enc [simp]:
  assumes "\<forall>s\<in>set_option v. s \<noteq> [] \<and> utf8_string s \<and> length s < 2 ^ 32"
  shows "dec_opt_string (enc_opt_string v @ rest) = Some (Inr (v, rest))"
proof (cases v)
  case None
  then show ?thesis by (simp add: dec_opt_string_def enc_opt_string_def dbind_def)
next
  case (Some s)
  have "read_bytes (length s) (enc_raw s @ rest) = Some (Inr (enc_raw s, rest))"
    by (rule read_bytes_append) (simp add: enc_raw_def)
  with Some assms show ?thesis
    by (simp add: dec_opt_string_def enc_opt_string_def enc_string_def dbind_def dmap_def from_utf8_raw)
qed

locale codec =
  fixes enc :: "'a \<Rightarrow> byte list" and dec :: "'a decoder" and ok :: "'a \<Rightarrow> bool"
  assumes roundtrip: "ok x \<Longrightarrow> dec (enc x @ rest) = Some (Inr (x, rest))"
begin

lemma repeat_roundtrip:
  "\<forall>x\<in>set xs. ok x \<Longrightarrow> drepeat (length xs) dec (concat (map enc xs) @ rest) = Some (Inr (xs, rest))"
  by (induction xs arbitrary: rest) (simp_all add: dbind_def roundtrip)

lemma list_roundtrip:
  assumes "\<forall>x\<in>set xs. ok x" "length xs < 2 ^ 32"
  shows "dec_list dec (enc_list enc xs @ rest) = Some (Inr (xs, rest))"
  using assms by (simp add: dec_list_def enc_list_def dbind_def repeat_roundtrip)

lemma opt_roundtrip:
  assumes "\<forall>x\<in>set_option v. ok x"
  shows "dec_opt dec (enc_opt enc v @ rest) = Some (Inr (v, rest))"
  using assms by (cases v) (simp_all add: dec_opt_def enc_opt_def dbind_def dmap_def roundtrip)

end

end
