(* ===== verification/LRIR_Format.thy ===== *)
theory LRIR_Format
  imports LRIR_Codec
begin

text \<open>
  The records of the LRIR bitcode (\<open>llvm-bitcode/src/{writer,reader}.rs\<close>): enumerations, value
  references, types, constants and instructions. An \<open>encode_\<close> function gives the bytes the writer
  appends, a \<open>decode_\<close> function is the reader's routine, with the reads in the code's order. The tags
  are the numbers of the two files' tag tables. Each pair is an instance of \<open>codec\<close>; the predicates
  \<open>_ok\<close> say what the pair round-trips: indices that fit \<open>u32\<close>, type indices that are in the table,
  and non-empty names.

  The writer stores no fast-math flags: \<open>erase_kind\<close> is what comes back of an instruction.
\<close>

section \<open>Enumerations\<close>

fun encode_float_kind :: "float_kind \<Rightarrow> nat" where
  "encode_float_kind Half = 0"
| "encode_float_kind BFloat = 1"
| "encode_float_kind Single = 2"
| "encode_float_kind Double = 3"
| "encode_float_kind Fp128 = 4"
| "encode_float_kind X86Fp80 = 5"

definition decode_float_kind :: "nat \<Rightarrow> float_kind decoder" where
  "decode_float_kind tag =
     (if tag = 0 then dret Half
      else if tag = 1 then dret BFloat
      else if tag = 2 then dret Single
      else if tag = 3 then dret Double
      else if tag = 4 then dret Fp128
      else if tag = 5 then dret X86Fp80
      else dfail InvalidType)"

fun encode_linkage :: "linkage \<Rightarrow> nat" where
  "encode_linkage Private = 0"
| "encode_linkage Internal = 1"
| "encode_linkage External = 2"
| "encode_linkage Weak = 3"
| "encode_linkage WeakOdr = 4"
| "encode_linkage LinkOnce = 5"
| "encode_linkage LinkOnceOdr = 6"
| "encode_linkage Common = 7"
| "encode_linkage AvailableExternally = 8"

definition decode_linkage :: "nat \<Rightarrow> linkage decoder" where
  "decode_linkage tag =
     (if tag = 0 then dret Private
      else if tag = 1 then dret Internal
      else if tag = 2 then dret External
      else if tag = 3 then dret Weak
      else if tag = 4 then dret WeakOdr
      else if tag = 5 then dret LinkOnce
      else if tag = 6 then dret LinkOnceOdr
      else if tag = 7 then dret Common
      else if tag = 8 then dret AvailableExternally
      else dfail (UnsupportedRecord tag))"

fun encode_mem_ordering :: "mem_ordering \<Rightarrow> nat" where
  "encode_mem_ordering Unordered = 0"
| "encode_mem_ordering Monotonic = 1"
| "encode_mem_ordering Acquire = 2"
| "encode_mem_ordering Release = 3"
| "encode_mem_ordering AcqRel = 4"
| "encode_mem_ordering SeqCst = 5"

definition decode_mem_ordering :: "nat \<Rightarrow> mem_ordering decoder" where
  "decode_mem_ordering tag =
     (if tag = 0 then dret Unordered
      else if tag = 1 then dret Monotonic
      else if tag = 2 then dret Acquire
      else if tag = 3 then dret Release
      else if tag = 4 then dret AcqRel
      else if tag = 5 then dret SeqCst
      else dfail (UnsupportedRecord tag))"

fun encode_rmw_op :: "rmw_op \<Rightarrow> nat" where
  "encode_rmw_op Rmw_Xchg = 0"
| "encode_rmw_op Rmw_Add = 1"
| "encode_rmw_op Rmw_Sub = 2"
| "encode_rmw_op Rmw_And = 3"
| "encode_rmw_op Rmw_Nand = 4"
| "encode_rmw_op Rmw_Or = 5"
| "encode_rmw_op Rmw_Xor = 6"
| "encode_rmw_op Rmw_Max = 7"
| "encode_rmw_op Rmw_Min = 8"
| "encode_rmw_op Rmw_UMax = 9"
| "encode_rmw_op Rmw_UMin = 10"
| "encode_rmw_op Rmw_FAdd = 11"
| "encode_rmw_op Rmw_FSub = 12"

definition decode_rmw_op :: "nat \<Rightarrow> rmw_op decoder" where
  "decode_rmw_op tag =
     (if tag = 0 then dret Rmw_Xchg
      else if tag = 1 then dret Rmw_Add
      else if tag = 2 then dret Rmw_Sub
      else if tag = 3 then dret Rmw_And
      else if tag = 4 then dret Rmw_Nand
      else if tag = 5 then dret Rmw_Or
      else if tag = 6 then dret Rmw_Xor
      else if tag = 7 then dret Rmw_Max
      else if tag = 8 then dret Rmw_Min
      else if tag = 9 then dret Rmw_UMax
      else if tag = 10 then dret Rmw_UMin
      else if tag = 11 then dret Rmw_FAdd
      else if tag = 12 then dret Rmw_FSub
      else dfail (UnsupportedRecord tag))"

fun encode_int_pred :: "int_predicate \<Rightarrow> nat" where
  "encode_int_pred I_Eq = 0"
| "encode_int_pred I_Ne = 1"
| "encode_int_pred I_Ugt = 2"
| "encode_int_pred I_Uge = 3"
| "encode_int_pred I_Ult = 4"
| "encode_int_pred I_Ule = 5"
| "encode_int_pred I_Sgt = 6"
| "encode_int_pred I_Sge = 7"
| "encode_int_pred I_Slt = 8"
| "encode_int_pred I_Sle = 9"

definition decode_int_pred :: "nat \<Rightarrow> int_predicate decoder" where
  "decode_int_pred tag =
     (if tag = 0 then dret I_Eq
      else if tag = 1 then dret I_Ne
      else if tag = 2 then dret I_Ugt
      else if tag = 3 then dret I_Uge
      else if tag = 4 then dret I_Ult
      else if tag = 5 then dret I_Ule
      else if tag = 6 then dret I_Sgt
      else if tag = 7 then dret I_Sge
      else if tag = 8 then dret I_Slt
      else if tag = 9 then dret I_Sle
      else dfail (UnsupportedRecord tag))"

fun encode_float_pred :: "float_predicate \<Rightarrow> nat" where
  "encode_float_pred F_False = 0"
| "encode_float_pred F_Oeq = 1"
| "encode_float_pred F_Ogt = 2"
| "encode_float_pred F_Oge = 3"
| "encode_float_pred F_Olt = 4"
| "encode_float_pred F_Ole = 5"
| "encode_float_pred F_One = 6"
| "encode_float_pred F_Ord = 7"
| "encode_float_pred F_Uno = 8"
| "encode_float_pred F_Ueq = 9"
| "encode_float_pred F_Ugt = 10"
| "encode_float_pred F_Uge = 11"
| "encode_float_pred F_Ult = 12"
| "encode_float_pred F_Ule = 13"
| "encode_float_pred F_Une = 14"
| "encode_float_pred F_True = 15"

definition decode_float_pred :: "nat \<Rightarrow> float_predicate decoder" where
  "decode_float_pred tag =
     (if tag = 0 then dret F_False
      else if tag = 1 then dret F_Oeq
      else if tag = 2 then dret F_Ogt
      else if tag = 3 then dret F_Oge
      else if tag = 4 then dret F_Olt
      else if tag = 5 then dret F_Ole
      else if tag = 6 then dret F_One
      else if tag = 7 then dret F_Ord
      else if tag = 8 then dret F_Uno
      else if tag = 9 then dret F_Ueq
      else if tag = 10 then dret F_Ugt
      else if tag = 11 then dret F_Uge
      else if tag = 12 then dret F_Ult
      else if tag = 13 then dret F_Ule
      else if tag = 14 then dret F_Une
      else if tag = 15 then dret F_True
      else dfail (UnsupportedRecord tag))"

fun encode_tail_kind :: "tail_call_kind \<Rightarrow> nat" where
  "encode_tail_kind TailNone = 0"
| "encode_tail_kind Tail = 1"
| "encode_tail_kind MustTail = 2"
| "encode_tail_kind NoTail = 3"

definition decode_tail_kind :: "nat \<Rightarrow> tail_call_kind" where
  "decode_tail_kind tag =
     (if tag = 0 then TailNone
      else if tag = 1 then Tail
      else if tag = 2 then MustTail
      else NoTail)"

lemmas decode_enum_defs =
  decode_float_kind_def decode_linkage_def decode_mem_ordering_def decode_rmw_op_def
  decode_int_pred_def decode_float_pred_def decode_tail_kind_def

lemma decode_encode_enum [simp]:
  "decode_float_kind (encode_float_kind k) = dret k"
  "decode_linkage (encode_linkage l) = dret l"
  "decode_mem_ordering (encode_mem_ordering m) = dret m"
  "decode_rmw_op (encode_rmw_op r) = dret r"
  "decode_int_pred (encode_int_pred p) = dret p"
  "decode_float_pred (encode_float_pred q) = dret q"
  "decode_tail_kind (encode_tail_kind t) = t"
  subgoal by (cases k) (simp_all add: decode_enum_defs)
  subgoal by (cases l) (simp_all add: decode_enum_defs)
  subgoal by (cases m) (simp_all add: decode_enum_defs)
  subgoal by (cases r) (simp_all add: decode_enum_defs)
  subgoal by (cases p) (simp_all add: decode_enum_defs)
  subgoal by (cases q) (simp_all add: decode_enum_defs)
  subgoal by (cases t) (simp_all add: decode_enum_defs)
  done

lemma encode_enum_less [simp]:
  "encode_float_kind k < 256" "encode_linkage l < 256" "encode_mem_ordering m < 256"
  "encode_rmw_op r < 256" "encode_int_pred p < 256" "encode_float_pred q < 256" "encode_tail_kind t < 256"
  subgoal by (cases k) simp_all
  subgoal by (cases l) simp_all
  subgoal by (cases m) simp_all
  subgoal by (cases r) simp_all
  subgoal by (cases p) simp_all
  subgoal by (cases q) simp_all
  subgoal by (cases t) simp_all
  done

section \<open>Value references and type references\<close>

definition encode_vref :: "value_ref \<Rightarrow> byte list" where
  "encode_vref v =
     (case v of
        Instruction i \<Rightarrow> enc_u8 0 @ enc_u32 i
      | Argument i \<Rightarrow> enc_u8 1 @ enc_u32 i
      | Constant i \<Rightarrow> enc_u8 2 @ enc_u32 i
      | Global i \<Rightarrow> enc_u8 3 @ enc_u32 i)"

definition decode_vref :: "value_ref decoder" where
  "decode_vref =
     dbind dec_u8 (\<lambda>tag. dbind dec_u32 (\<lambda>i.
       if tag = 0 then dret (Instruction i)
       else if tag = 1 then dret (Argument i)
       else if tag = 2 then dret (Constant i)
       else if tag = 3 then dret (Global i)
       else dfail (UnsupportedRecord tag)))"

definition map_id :: "nat list \<Rightarrow> nat \<Rightarrow> nat decoder" where
  \<comment> \<open>\<open>map_type_id\<close> and \<open>map_const_id\<close>\<close>
  "map_id tm raw = (if raw < length tm then dret (tm ! raw) else dfail ParseError)"

definition dec_ty :: "nat list \<Rightarrow> nat decoder" where
  \<comment> \<open>\<open>map_type_id(type_id_map, r.u32()? as usize)?\<close>\<close>
  "dec_ty tm = dbind dec_u32 (map_id tm)"

definition enc_flags :: "int_arith_flags \<Rightarrow> byte list" where
  "enc_flags fl = enc_bool (nuw fl) @ enc_bool (nsw fl)"

definition dec_flags :: "int_arith_flags decoder" where
  "dec_flags = dmap2 (\<lambda>a b. \<lparr>nuw = a, nsw = b\<rparr>) dec_bool dec_bool"

definition enc_incoming :: "value_ref \<times> block_id \<Rightarrow> byte list" where
  "enc_incoming p = encode_vref (fst p) @ enc_u32 (snd p)"

definition dec_incoming :: "(value_ref \<times> block_id) decoder" where
  "dec_incoming = dmap2 Pair decode_vref dec_u32"

fun encode_clause :: "landing_pad_clause \<Rightarrow> byte list" where
  "encode_clause (Catch ty value) = enc_u8 0 @ enc_u32 ty @ encode_vref value"
| "encode_clause (Filter ty value) = enc_u8 1 @ enc_u32 ty @ encode_vref value"

definition decode_clause :: "nat list \<Rightarrow> landing_pad_clause decoder" where
  "decode_clause tm =
     dmap3 (\<lambda>tag ty value. if tag = 0 then Catch ty value else Filter ty value) dec_u8 (dec_ty tm) decode_vref"

section \<open>Types\<close>

fun encode_type :: "type_data \<Rightarrow> byte list" where
  "encode_type TyVoid = enc_u8 0"
| "encode_type (TyInteger bits) = enc_u8 1 @ enc_u32 bits"
| "encode_type (TyFloat kind) = enc_u8 2 @ enc_u8 (encode_float_kind kind)"
| "encode_type TyPointer = enc_u8 3"
| "encode_type (TyArray element len) = enc_u8 4 @ enc_u32 element @ enc_u64 len"
| "encode_type (TyVector element len scalable) =
     enc_u8 5 @ enc_u32 element @ enc_u32 len @ enc_bool scalable"
| "encode_type (TyStruct st) =
     enc_u8 6 @ enc_opt_string (st_name st) @ enc_bool (st_packed st) @ enc_list enc_u32 (st_fields st)"
| "encode_type (TyFunction ft) =
     enc_u8 7 @ enc_u32 (fn_ret ft) @ enc_bool (fn_variadic ft) @ enc_list enc_u32 (fn_params ft)"
| "encode_type TyLabel = enc_u8 8"
| "encode_type TyMetadata = enc_u8 9"

definition decode_type :: "type_id list \<Rightarrow> type_data decoder" where
  "decode_type tm =
     dbind dec_u8 (\<lambda>tag.
       if tag = 0 then dret TyVoid
       else if tag = 1 then dmap TyInteger dec_u32
       else if tag = 2 then dmap TyFloat (dbind dec_u8 decode_float_kind)
       else if tag = 3 then dret TyPointer
       else if tag = 4 then
         dbind dec_u32 (\<lambda>elem_raw. dbind dec_u64 (\<lambda>len.
           dmap (\<lambda>element. TyArray element len) (map_id tm elem_raw)))
       else if tag = 5 then
         dbind dec_u32 (\<lambda>elem_raw. dbind dec_u32 (\<lambda>len. dbind dec_bool (\<lambda>scalable.
           dmap (\<lambda>element. TyVector element len scalable) (map_id tm elem_raw))))
       else if tag = 6 then
         dmap3 (\<lambda>name packed flds. TyStruct (StructType name flds packed))
           dec_opt_string dec_bool (dec_list (dec_ty tm))
       else if tag = 7 then
         dbind dec_u32 (\<lambda>ret_raw. dbind dec_bool (\<lambda>variadic. dbind (dec_list (dec_ty tm)) (\<lambda>params.
           dmap (\<lambda>ret. TyFunction (FunctionType ret params variadic)) (map_id tm ret_raw))))
       else if tag = 8 then dret TyLabel
       else if tag = 9 then dret TyMetadata
       else dfail InvalidType)"

section \<open>Constants\<close>

definition enc_word64 :: "u64 \<Rightarrow> byte list" where
  "enc_word64 v = enc_u64 (unat v)"

definition dec_word64 :: "u64 decoder" where
  "dec_word64 = dmap of_nat dec_u64"

fun encode_const_op :: "const_expr_op \<Rightarrow> byte list" where
  "encode_const_op (CE_GetElementPtr inbounds base_ty) =
     (if inbounds then enc_u8 1 else enc_u8 0) @ enc_u32 base_ty"
| "encode_const_op CE_BitCast = enc_u8 2"
| "encode_const_op CE_IntToPtr = enc_u8 3"
| "encode_const_op CE_PtrToInt = enc_u8 4"
| "encode_const_op CE_AddrSpaceCast = enc_u8 5"
| "encode_const_op CE_Trunc = enc_u8 6"
| "encode_const_op CE_ZExt = enc_u8 7"
| "encode_const_op CE_SExt = enc_u8 8"

definition decode_const_op :: "type_id list \<Rightarrow> const_expr_op decoder" where
  "decode_const_op tm =
     dbind dec_u8 (\<lambda>tag.
       if tag = 0 then dmap (CE_GetElementPtr False) (dec_ty tm)
       else if tag = 1 then dmap (CE_GetElementPtr True) (dec_ty tm)
       else if tag = 2 then dret CE_BitCast
       else if tag = 3 then dret CE_IntToPtr
       else if tag = 4 then dret CE_PtrToInt
       else if tag = 5 then dret CE_AddrSpaceCast
       else if tag = 6 then dret CE_Trunc
       else if tag = 7 then dret CE_ZExt
       else if tag = 8 then dret CE_SExt
       else dfail (UnsupportedRecord tag))"

fun encode_const :: "constant_data \<Rightarrow> byte list" where
  "encode_const (CInt ty val) = enc_u8 0 @ enc_u32 ty @ enc_word64 val"
| "encode_const (CIntWide ty ws) = enc_u8 1 @ enc_u32 ty @ enc_list enc_word64 ws"
| "encode_const (CFloat ty bits) = enc_u8 2 @ enc_u32 ty @ enc_word64 bits"
| "encode_const (CNull ty) = enc_u8 3 @ enc_u32 ty"
| "encode_const (CUndef ty) = enc_u8 4 @ enc_u32 ty"
| "encode_const (CPoison ty) = enc_u8 5 @ enc_u32 ty"
| "encode_const (CZeroInitializer ty) = enc_u8 6 @ enc_u32 ty"
| "encode_const (CArray ty elements) = enc_u8 7 @ enc_u32 ty @ enc_list enc_u32 elements"
| "encode_const (CStruct ty flds) = enc_u8 8 @ enc_u32 ty @ enc_list enc_u32 flds"
| "encode_const (CVector ty elements) = enc_u8 9 @ enc_u32 ty @ enc_list enc_u32 elements"
| "encode_const (CGlobalRef ty i name) = enc_u8 10 @ enc_u32 ty @ enc_u32 i @ enc_string name"
| "encode_const (CExpr ty op opnds) =
     enc_u8 11 @ enc_u32 ty @ encode_const_op op @ enc_list enc_u32 opnds"

definition decode_const :: "type_id list \<Rightarrow> const_id list \<Rightarrow> constant_data decoder" where
  "decode_const tm cm =
     dbind dec_u8 (\<lambda>tag.
       if tag = 0 then dmap2 CInt (dec_ty tm) dec_word64
       else if tag = 1 then dmap2 CIntWide (dec_ty tm) (dec_list dec_word64)
       else if tag = 2 then dmap2 CFloat (dec_ty tm) dec_word64
       else if tag = 3 then dmap CNull (dec_ty tm)
       else if tag = 4 then dmap CUndef (dec_ty tm)
       else if tag = 5 then dmap CPoison (dec_ty tm)
       else if tag = 6 then dmap CZeroInitializer (dec_ty tm)
       else if tag = 7 then dmap2 CArray (dec_ty tm) (dec_list (dec_ty cm))
       else if tag = 8 then dmap2 CStruct (dec_ty tm) (dec_list (dec_ty cm))
       else if tag = 9 then dmap2 CVector (dec_ty tm) (dec_list (dec_ty cm))
       else if tag = 10 then dmap3 CGlobalRef (dec_ty tm) dec_u32 dec_string
       else if tag = 11 then dmap3 CExpr (dec_ty tm) (decode_const_op tm) (dec_list (dec_ty cm))
       else dfail (UnsupportedRecord tag))"

section \<open>Instructions\<close>

definition fast_math_default :: fast_math_flags where
  \<comment> \<open>\<open>FastMathFlags::default()\<close>\<close>
  "fast_math_default =
     \<lparr>nnan = False, ninf = False, nsz = False, arcp = False, contract = False, afn = False,
      reassoc = False, fast = False\<rparr>"

primrec encode_kind :: "instr_kind \<Rightarrow> byte list" where
  "encode_kind (Add fl v1 v2) = enc_u32 0 @ enc_flags fl @ encode_vref v1 @ encode_vref v2"
| "encode_kind (Sub fl v1 v2) = enc_u32 1 @ enc_flags fl @ encode_vref v1 @ encode_vref v2"
| "encode_kind (Mul fl v1 v2) = enc_u32 2 @ enc_flags fl @ encode_vref v1 @ encode_vref v2"
| "encode_kind (UDiv b v1 v2) = enc_u32 3 @ enc_bool b @ encode_vref v1 @ encode_vref v2"
| "encode_kind (SDiv b v1 v2) = enc_u32 4 @ enc_bool b @ encode_vref v1 @ encode_vref v2"
| "encode_kind (URem v1 v2) = enc_u32 5 @ encode_vref v1 @ encode_vref v2"
| "encode_kind (SRem v1 v2) = enc_u32 6 @ encode_vref v1 @ encode_vref v2"
| "encode_kind (And v1 v2) = enc_u32 10 @ encode_vref v1 @ encode_vref v2"
| "encode_kind (Or v1 v2) = enc_u32 11 @ encode_vref v1 @ encode_vref v2"
| "encode_kind (Xor v1 v2) = enc_u32 12 @ encode_vref v1 @ encode_vref v2"
| "encode_kind (Shl fl v1 v2) = enc_u32 13 @ enc_flags fl @ encode_vref v1 @ encode_vref v2"
| "encode_kind (LShr b v1 v2) = enc_u32 14 @ enc_bool b @ encode_vref v1 @ encode_vref v2"
| "encode_kind (AShr b v1 v2) = enc_u32 15 @ enc_bool b @ encode_vref v1 @ encode_vref v2"
| "encode_kind (FAdd fm v1 v2) = enc_u32 20 @ encode_vref v1 @ encode_vref v2"
| "encode_kind (FSub fm v1 v2) = enc_u32 21 @ encode_vref v1 @ encode_vref v2"
| "encode_kind (FMul fm v1 v2) = enc_u32 22 @ encode_vref v1 @ encode_vref v2"
| "encode_kind (FDiv fm v1 v2) = enc_u32 23 @ encode_vref v1 @ encode_vref v2"
| "encode_kind (FRem fm v1 v2) = enc_u32 24 @ encode_vref v1 @ encode_vref v2"
| "encode_kind (FNeg fm v) = enc_u32 25 @ encode_vref v"
| "encode_kind (ICmp p v1 v2) = enc_u32 30 @ enc_u8 (encode_int_pred p) @ encode_vref v1 @
         encode_vref v2"
| "encode_kind (FCmp fm p v1 v2) = enc_u32 31 @ enc_u8 (encode_float_pred p) @ encode_vref v1 @
         encode_vref v2"
| "encode_kind (Alloca ty ov ou) = enc_u32 40 @ enc_u32 ty @ enc_opt encode_vref ov @ enc_opt enc_u32 ou"
| "encode_kind (Load ty v ou b) = enc_u32 41 @ enc_u32 ty @ encode_vref v @ enc_opt enc_u32 ou @
         enc_bool b"
| "encode_kind (Store v1 v2 ou b) = enc_u32 42 @ encode_vref v1 @ encode_vref v2 @
         enc_opt enc_u32 ou @ enc_bool b"
| "encode_kind (GetElementPtr b ty v vs) = enc_u32 43 @ enc_bool b @ enc_u32 ty @ encode_vref v @
         enc_list encode_vref vs"
| "encode_kind (Trunc v ty) = enc_u32 50 @ encode_vref v @ enc_u32 ty"
| "encode_kind (ZExt v ty) = enc_u32 51 @ encode_vref v @ enc_u32 ty"
| "encode_kind (SExt v ty) = enc_u32 52 @ encode_vref v @ enc_u32 ty"
| "encode_kind (FPTrunc v ty) = enc_u32 53 @ encode_vref v @ enc_u32 ty"
| "encode_kind (FPExt v ty) = enc_u32 54 @ encode_vref v @ enc_u32 ty"
| "encode_kind (FPToUI v ty) = enc_u32 55 @ encode_vref v @ enc_u32 ty"
| "encode_kind (FPToSI v ty) = enc_u32 56 @ encode_vref v @ enc_u32 ty"
| "encode_kind (UIToFP v ty) = enc_u32 57 @ encode_vref v @ enc_u32 ty"
| "encode_kind (SIToFP v ty) = enc_u32 58 @ encode_vref v @ enc_u32 ty"
| "encode_kind (PtrToInt v ty) = enc_u32 59 @ encode_vref v @ enc_u32 ty"
| "encode_kind (IntToPtr v ty) = enc_u32 60 @ encode_vref v @ enc_u32 ty"
| "encode_kind (BitCast v ty) = enc_u32 61 @ encode_vref v @ enc_u32 ty"
| "encode_kind (AddrSpaceCast v ty) = enc_u32 62 @ encode_vref v @ enc_u32 ty"
| "encode_kind (Freeze v) = enc_u32 63 @ encode_vref v"
| "encode_kind (Select v1 v2 v3) = enc_u32 70 @ encode_vref v1 @ encode_vref v2 @ encode_vref v3"
| "encode_kind (Phi ty ps) = enc_u32 71 @ enc_u32 ty @ enc_list enc_incoming ps"
| "encode_kind (ExtractValue v us) = enc_u32 72 @ encode_vref v @ enc_list enc_u32 us"
| "encode_kind (InsertValue v1 v2 us) = enc_u32 73 @ encode_vref v1 @ encode_vref v2 @
         enc_list enc_u32 us"
| "encode_kind (ExtractElement v1 v2) = enc_u32 74 @ encode_vref v1 @ encode_vref v2"
| "encode_kind (InsertElement v1 v2 v3) = enc_u32 75 @ encode_vref v1 @ encode_vref v2 @ encode_vref v3"
| "encode_kind (ShuffleVector v1 v2 ms) = enc_u32 76 @ encode_vref v1 @ encode_vref v2 @
         enc_list enc_i32 ms"
| "encode_kind (Call tk ty v vs) = enc_u32 80 @ enc_u8 (encode_tail_kind tk) @ enc_u32 ty @
         encode_vref v @ enc_list encode_vref vs"
| "encode_kind (Invoke ty v vs u1 u2) = enc_u32 85 @ enc_u32 ty @ encode_vref v @
         enc_list encode_vref vs @ enc_u32 u1 @ enc_u32 u2"
| "encode_kind (LandingPad ty ov b cs) = enc_u32 86 @ enc_u32 ty @ enc_bool b @
         enc_opt encode_vref ov @ enc_list encode_clause cs"
| "encode_kind (InlineAsm s1 s2 b1 b2 vs) = enc_u32 81 @ enc_string s1 @ enc_string s2 @
         enc_bool b1 @ enc_bool b2 @ enc_list encode_vref vs"
| "encode_kind (Fence ord) = enc_u32 82 @ enc_u8 (encode_mem_ordering ord)"
| "encode_kind (CmpXchg v1 v2 v3 ord1 ord2 b1 b2) = enc_u32 83 @ encode_vref v1 @ encode_vref v2 @
         encode_vref v3 @ enc_u8 (encode_mem_ordering ord1) @ enc_u8 (encode_mem_ordering ord2) @
         enc_bool b1 @ enc_bool b2"
| "encode_kind (AtomicRmw op v1 v2 ord b) = enc_u32 84 @ enc_u8 (encode_rmw_op op) @
         encode_vref v1 @ encode_vref v2 @ enc_u8 (encode_mem_ordering ord) @ enc_bool b"
| "encode_kind (Ret ov) = enc_u32 90 @ enc_opt encode_vref ov"
| "encode_kind (Br u) = enc_u32 91 @ enc_u32 u"
| "encode_kind (CondBr v u1 u2) = enc_u32 92 @ encode_vref v @ enc_u32 u1 @ enc_u32 u2"
| "encode_kind (Switch v u ps) = enc_u32 93 @ encode_vref v @ enc_u32 u @ enc_list enc_incoming ps"
| "encode_kind Unreachable = enc_u32 94"
| "encode_kind (Resume v) = enc_u32 95 @ encode_vref v"
| "encode_kind (CatchPad v vs) = enc_u32 100 @ encode_vref v @ enc_list encode_vref vs"
| "encode_kind (CleanupPad ov vs) = enc_u32 101 @ enc_opt encode_vref ov @ enc_list encode_vref vs"
| "encode_kind (CatchSwitch ov us ou) = enc_u32 102 @ enc_opt encode_vref ov @
         enc_list enc_u32 us @ enc_opt enc_u32 ou"
| "encode_kind (CatchRet v u) = enc_u32 103 @ encode_vref v @ enc_u32 u"
| "encode_kind (CleanupRet v ou) = enc_u32 104 @ encode_vref v @ enc_opt enc_u32 ou"

definition decode_kind :: "type_id list \<Rightarrow> nat \<Rightarrow> instr_kind decoder" where
  "decode_kind tm tag =
     (if tag = 0 then dmap3 Add dec_flags decode_vref decode_vref
      else if tag = 1 then dmap3 Sub dec_flags decode_vref decode_vref
      else if tag = 2 then dmap3 Mul dec_flags decode_vref decode_vref
      else if tag = 3 then dmap3 UDiv dec_bool decode_vref decode_vref
      else if tag = 4 then dmap3 SDiv dec_bool decode_vref decode_vref
      else if tag = 5 then dmap2 URem decode_vref decode_vref
      else if tag = 6 then dmap2 SRem decode_vref decode_vref
      else if tag = 10 then dmap2 And decode_vref decode_vref
      else if tag = 11 then dmap2 Or decode_vref decode_vref
      else if tag = 12 then dmap2 Xor decode_vref decode_vref
      else if tag = 13 then dmap3 Shl dec_flags decode_vref decode_vref
      else if tag = 14 then dmap3 LShr dec_bool decode_vref decode_vref
      else if tag = 15 then dmap3 AShr dec_bool decode_vref decode_vref
      else if tag = 20 then dmap2 (FAdd fast_math_default) decode_vref decode_vref
      else if tag = 21 then dmap2 (FSub fast_math_default) decode_vref decode_vref
      else if tag = 22 then dmap2 (FMul fast_math_default) decode_vref decode_vref
      else if tag = 23 then dmap2 (FDiv fast_math_default) decode_vref decode_vref
      else if tag = 24 then dmap2 (FRem fast_math_default) decode_vref decode_vref
      else if tag = 25 then dmap (FNeg fast_math_default) decode_vref
      else if tag = 30 then dmap3 ICmp (dbind dec_u8 decode_int_pred) decode_vref decode_vref
      else if tag = 31 then dmap3 (FCmp fast_math_default)
         (dbind dec_u8 decode_float_pred) decode_vref decode_vref
      else if tag = 40 then dmap3 Alloca (dec_ty tm) (dec_opt decode_vref) (dec_opt dec_u32)
      else if tag = 41 then dmap4 Load (dec_ty tm) decode_vref (dec_opt dec_u32) dec_bool
      else if tag = 42 then dmap4 Store decode_vref decode_vref (dec_opt dec_u32) dec_bool
      else if tag = 43 then dmap4 GetElementPtr dec_bool (dec_ty tm) decode_vref (dec_list decode_vref)
      else if tag = 50 then dmap2 Trunc decode_vref (dec_ty tm)
      else if tag = 51 then dmap2 ZExt decode_vref (dec_ty tm)
      else if tag = 52 then dmap2 SExt decode_vref (dec_ty tm)
      else if tag = 53 then dmap2 FPTrunc decode_vref (dec_ty tm)
      else if tag = 54 then dmap2 FPExt decode_vref (dec_ty tm)
      else if tag = 55 then dmap2 FPToUI decode_vref (dec_ty tm)
      else if tag = 56 then dmap2 FPToSI decode_vref (dec_ty tm)
      else if tag = 57 then dmap2 UIToFP decode_vref (dec_ty tm)
      else if tag = 58 then dmap2 SIToFP decode_vref (dec_ty tm)
      else if tag = 59 then dmap2 PtrToInt decode_vref (dec_ty tm)
      else if tag = 60 then dmap2 IntToPtr decode_vref (dec_ty tm)
      else if tag = 61 then dmap2 BitCast decode_vref (dec_ty tm)
      else if tag = 62 then dmap2 AddrSpaceCast decode_vref (dec_ty tm)
      else if tag = 63 then dmap Freeze decode_vref
      else if tag = 70 then dmap3 Select decode_vref decode_vref decode_vref
      else if tag = 71 then dmap2 Phi (dec_ty tm) (dec_list dec_incoming)
      else if tag = 72 then dmap2 ExtractValue decode_vref (dec_list dec_u32)
      else if tag = 73 then dmap3 InsertValue decode_vref decode_vref (dec_list dec_u32)
      else if tag = 74 then dmap2 ExtractElement decode_vref decode_vref
      else if tag = 75 then dmap3 InsertElement decode_vref decode_vref decode_vref
      else if tag = 76 then dmap3 ShuffleVector decode_vref decode_vref (dec_list dec_i32)
      else if tag = 80 then dmap4 Call (dmap decode_tail_kind dec_u8)
         (dec_ty tm) decode_vref (dec_list decode_vref)
      else if tag = 81 then dmap5 InlineAsm dec_string dec_string dec_bool dec_bool (dec_list
         decode_vref)
      else if tag = 82 then dmap Fence (dbind dec_u8 decode_mem_ordering)
      else if tag = 83 then dmap7 CmpXchg decode_vref decode_vref decode_vref (dbind dec_u8
         decode_mem_ordering) (dbind dec_u8 decode_mem_ordering) dec_bool dec_bool
      else if tag = 84 then dmap5 AtomicRmw (dbind dec_u8 decode_rmw_op) decode_vref decode_vref
         (dbind dec_u8 decode_mem_ordering) dec_bool
      else if tag = 85 then dmap5 Invoke (dec_ty tm) decode_vref (dec_list decode_vref) dec_u32 dec_u32
      else if tag = 86 then dmap4 (\<lambda>ty b ov cs. LandingPad ty ov b cs)
         (dec_ty tm) dec_bool (dec_opt decode_vref) (dec_list (decode_clause tm))
      else if tag = 90 then dmap Ret (dec_opt decode_vref)
      else if tag = 91 then dmap Br dec_u32
      else if tag = 92 then dmap3 CondBr decode_vref dec_u32 dec_u32
      else if tag = 93 then dmap3 Switch decode_vref dec_u32 (dec_list dec_incoming)
      else if tag = 94 then dret Unreachable
      else if tag = 95 then dmap Resume decode_vref
      else if tag = 100 then dmap2 CatchPad decode_vref (dec_list decode_vref)
      else if tag = 101 then dmap2 CleanupPad (dec_opt decode_vref) (dec_list decode_vref)
      else if tag = 102 then dmap3 CatchSwitch (dec_opt decode_vref) (dec_list dec_u32) (dec_opt dec_u32)
      else if tag = 103 then dmap2 CatchRet decode_vref dec_u32
      else if tag = 104 then dmap2 CleanupRet decode_vref (dec_opt dec_u32)
      else dfail (UnsupportedRecord tag))"

definition encode_instr :: "instruction \<Rightarrow> byte list" where
  "encode_instr ins = enc_opt_string (instr_name ins) @ enc_u32 (instr_ty ins) @ encode_kind (instr_kind ins)"

definition decode_instr :: "type_id list \<Rightarrow> instruction decoder" where
  "decode_instr tm =
     dmap3 (\<lambda>name ty kind. \<lparr>instr_name = name, instr_ty = ty, instr_kind = kind\<rparr>)
       dec_opt_string (dec_ty tm) (dbind dec_u32 (decode_kind tm))"

section \<open>What round-trips\<close>

definition u32_ok :: "nat \<Rightarrow> bool" where
  "u32_ok v \<longleftrightarrow> v < 2 ^ 32"

definition i32_ok :: "int \<Rightarrow> bool" where
  "i32_ok v \<longleftrightarrow> - (2 ^ 31) \<le> v \<and> v < 2 ^ 31"

definition string_ok :: "string \<Rightarrow> bool" where
  "string_ok s \<longleftrightarrow> utf8_string s \<and> length s < 2 ^ 32"

definition name_ok :: "string option \<Rightarrow> bool" where
  \<comment> \<open>an optional name whose absence the reader can tell from a name\<close>
  "name_ok v \<longleftrightarrow> (\<forall>s\<in>set_option v. s \<noteq> [] \<and> string_ok s)"

definition opt_ok :: "('a \<Rightarrow> bool) \<Rightarrow> 'a option \<Rightarrow> bool" where
  "opt_ok ok v \<longleftrightarrow> (\<forall>x\<in>set_option v. ok x)"

definition list_ok :: "('a \<Rightarrow> bool) \<Rightarrow> 'a list \<Rightarrow> bool" where
  "list_ok ok xs \<longleftrightarrow> (\<forall>x\<in>set xs. ok x) \<and> length xs < 2 ^ 32"

fun vref_ok :: "value_ref \<Rightarrow> bool" where
  "vref_ok (Instruction i) = u32_ok i"
| "vref_ok (Argument i) = u32_ok i"
| "vref_ok (Constant i) = u32_ok i"
| "vref_ok (Global i) = u32_ok i"

definition incoming_ok :: "value_ref \<times> block_id \<Rightarrow> bool" where
  "incoming_ok p \<longleftrightarrow> vref_ok (fst p) \<and> u32_ok (snd p)"

fun clause_ok :: "nat \<Rightarrow> landing_pad_clause \<Rightarrow> bool" where
  "clause_ok n (Catch ty value) \<longleftrightarrow> ty < n \<and> vref_ok value"
| "clause_ok n (Filter ty value) \<longleftrightarrow> ty < n \<and> vref_ok value"

fun type_ok :: "nat \<Rightarrow> type_data \<Rightarrow> bool" where
  \<comment> \<open>a type whose component types are among the first \<open>n\<close>\<close>
  "type_ok n (TyInteger bits) = u32_ok bits"
| "type_ok n (TyArray element len) \<longleftrightarrow> element < n \<and> len < 2 ^ 64"
| "type_ok n (TyVector element len scalable) \<longleftrightarrow> element < n \<and> u32_ok len"
| "type_ok n (TyStruct st) \<longleftrightarrow> name_ok (st_name st) \<and> list_ok (\<lambda>t. t < n) (st_fields st)"
| "type_ok n (TyFunction ft) \<longleftrightarrow> fn_ret ft < n \<and> list_ok (\<lambda>t. t < n) (fn_params ft)"
| "type_ok n _ = True"

fun const_op_ok :: "nat \<Rightarrow> const_expr_op \<Rightarrow> bool" where
  "const_op_ok n (CE_GetElementPtr inbounds base_ty) \<longleftrightarrow> base_ty < n"
| "const_op_ok n _ = True"

fun const_ok :: "nat \<Rightarrow> nat \<Rightarrow> constant_data \<Rightarrow> bool" where
  \<comment> \<open>a constant over the first \<open>n\<close> types and the first \<open>k\<close> constants\<close>
  "const_ok n k (CIntWide ty ws) \<longleftrightarrow> ty < n \<and> length ws < 2 ^ 32"
| "const_ok n k (CArray ty elements) \<longleftrightarrow> ty < n \<and> list_ok (\<lambda>c. c < k) elements"
| "const_ok n k (CStruct ty flds) \<longleftrightarrow> ty < n \<and> list_ok (\<lambda>c. c < k) flds"
| "const_ok n k (CVector ty elements) \<longleftrightarrow> ty < n \<and> list_ok (\<lambda>c. c < k) elements"
| "const_ok n k (CGlobalRef ty i name) \<longleftrightarrow> ty < n \<and> u32_ok i \<and> string_ok name"
| "const_ok n k (CExpr ty op opnds) \<longleftrightarrow> ty < n \<and> const_op_ok n op \<and> list_ok (\<lambda>c. c < k) opnds"
| "const_ok n k (CInt ty v) \<longleftrightarrow> ty < n"
| "const_ok n k (CFloat ty v) \<longleftrightarrow> ty < n"
| "const_ok n k (CNull ty) \<longleftrightarrow> ty < n"
| "const_ok n k (CUndef ty) \<longleftrightarrow> ty < n"
| "const_ok n k (CPoison ty) \<longleftrightarrow> ty < n"
| "const_ok n k (CZeroInitializer ty) \<longleftrightarrow> ty < n"

primrec kind_ok :: "nat \<Rightarrow> instr_kind \<Rightarrow> bool" where
  "kind_ok n (Add fl v1 v2) \<longleftrightarrow> vref_ok v1 \<and> vref_ok v2"
| "kind_ok n (Sub fl v1 v2) \<longleftrightarrow> vref_ok v1 \<and> vref_ok v2"
| "kind_ok n (Mul fl v1 v2) \<longleftrightarrow> vref_ok v1 \<and> vref_ok v2"
| "kind_ok n (UDiv b v1 v2) \<longleftrightarrow> vref_ok v1 \<and> vref_ok v2"
| "kind_ok n (SDiv b v1 v2) \<longleftrightarrow> vref_ok v1 \<and> vref_ok v2"
| "kind_ok n (URem v1 v2) \<longleftrightarrow> vref_ok v1 \<and> vref_ok v2"
| "kind_ok n (SRem v1 v2) \<longleftrightarrow> vref_ok v1 \<and> vref_ok v2"
| "kind_ok n (And v1 v2) \<longleftrightarrow> vref_ok v1 \<and> vref_ok v2"
| "kind_ok n (Or v1 v2) \<longleftrightarrow> vref_ok v1 \<and> vref_ok v2"
| "kind_ok n (Xor v1 v2) \<longleftrightarrow> vref_ok v1 \<and> vref_ok v2"
| "kind_ok n (Shl fl v1 v2) \<longleftrightarrow> vref_ok v1 \<and> vref_ok v2"
| "kind_ok n (LShr b v1 v2) \<longleftrightarrow> vref_ok v1 \<and> vref_ok v2"
| "kind_ok n (AShr b v1 v2) \<longleftrightarrow> vref_ok v1 \<and> vref_ok v2"
| "kind_ok n (FAdd fm v1 v2) \<longleftrightarrow> vref_ok v1 \<and> vref_ok v2"
| "kind_ok n (FSub fm v1 v2) \<longleftrightarrow> vref_ok v1 \<and> vref_ok v2"
| "kind_ok n (FMul fm v1 v2) \<longleftrightarrow> vref_ok v1 \<and> vref_ok v2"
| "kind_ok n (FDiv fm v1 v2) \<longleftrightarrow> vref_ok v1 \<and> vref_ok v2"
| "kind_ok n (FRem fm v1 v2) \<longleftrightarrow> vref_ok v1 \<and> vref_ok v2"
| "kind_ok n (FNeg fm v) \<longleftrightarrow> vref_ok v"
| "kind_ok n (ICmp p v1 v2) \<longleftrightarrow> vref_ok v1 \<and> vref_ok v2"
| "kind_ok n (FCmp fm p v1 v2) \<longleftrightarrow> vref_ok v1 \<and> vref_ok v2"
| "kind_ok n (Alloca ty ov ou) \<longleftrightarrow> ty < n \<and> opt_ok vref_ok ov \<and>
         opt_ok u32_ok ou"
| "kind_ok n (Load ty v ou b) \<longleftrightarrow> ty < n \<and> vref_ok v \<and> opt_ok u32_ok ou"
| "kind_ok n (Store v1 v2 ou b) \<longleftrightarrow> vref_ok v1 \<and> vref_ok v2 \<and>
         opt_ok u32_ok ou"
| "kind_ok n (GetElementPtr b ty v vs) \<longleftrightarrow> ty < n \<and> vref_ok v \<and>
         list_ok vref_ok vs"
| "kind_ok n (Trunc v ty) \<longleftrightarrow> vref_ok v \<and> ty < n"
| "kind_ok n (ZExt v ty) \<longleftrightarrow> vref_ok v \<and> ty < n"
| "kind_ok n (SExt v ty) \<longleftrightarrow> vref_ok v \<and> ty < n"
| "kind_ok n (FPTrunc v ty) \<longleftrightarrow> vref_ok v \<and> ty < n"
| "kind_ok n (FPExt v ty) \<longleftrightarrow> vref_ok v \<and> ty < n"
| "kind_ok n (FPToUI v ty) \<longleftrightarrow> vref_ok v \<and> ty < n"
| "kind_ok n (FPToSI v ty) \<longleftrightarrow> vref_ok v \<and> ty < n"
| "kind_ok n (UIToFP v ty) \<longleftrightarrow> vref_ok v \<and> ty < n"
| "kind_ok n (SIToFP v ty) \<longleftrightarrow> vref_ok v \<and> ty < n"
| "kind_ok n (PtrToInt v ty) \<longleftrightarrow> vref_ok v \<and> ty < n"
| "kind_ok n (IntToPtr v ty) \<longleftrightarrow> vref_ok v \<and> ty < n"
| "kind_ok n (BitCast v ty) \<longleftrightarrow> vref_ok v \<and> ty < n"
| "kind_ok n (AddrSpaceCast v ty) \<longleftrightarrow> vref_ok v \<and> ty < n"
| "kind_ok n (Freeze v) \<longleftrightarrow> vref_ok v"
| "kind_ok n (Select v1 v2 v3) \<longleftrightarrow> vref_ok v1 \<and> vref_ok v2 \<and> vref_ok v3"
| "kind_ok n (Phi ty ps) \<longleftrightarrow> ty < n \<and> list_ok incoming_ok ps"
| "kind_ok n (ExtractValue v us) \<longleftrightarrow> vref_ok v \<and> list_ok u32_ok us"
| "kind_ok n (InsertValue v1 v2 us) \<longleftrightarrow> vref_ok v1 \<and> vref_ok v2 \<and>
         list_ok u32_ok us"
| "kind_ok n (ExtractElement v1 v2) \<longleftrightarrow> vref_ok v1 \<and> vref_ok v2"
| "kind_ok n (InsertElement v1 v2 v3) \<longleftrightarrow> vref_ok v1 \<and> vref_ok v2 \<and>
         vref_ok v3"
| "kind_ok n (ShuffleVector v1 v2 ms) \<longleftrightarrow> vref_ok v1 \<and> vref_ok v2 \<and>
         list_ok i32_ok ms"
| "kind_ok n (Call tk ty v vs) \<longleftrightarrow> ty < n \<and> vref_ok v \<and> list_ok vref_ok vs"
| "kind_ok n (Invoke ty v vs u1 u2) \<longleftrightarrow> ty < n \<and> vref_ok v \<and>
         list_ok vref_ok vs \<and> u32_ok u1 \<and> u32_ok u2"
| "kind_ok n (LandingPad ty ov b cs) \<longleftrightarrow> ty < n \<and> opt_ok vref_ok ov \<and>
         list_ok (clause_ok n) cs"
| "kind_ok n (InlineAsm s1 s2 b1 b2 vs) \<longleftrightarrow> string_ok s1 \<and>
         string_ok s2 \<and> list_ok vref_ok vs"
| "kind_ok n (Fence ord) \<longleftrightarrow> True"
| "kind_ok n (CmpXchg v1 v2 v3 ord1 ord2 b1 b2) \<longleftrightarrow> vref_ok v1 \<and>
         vref_ok v2 \<and> vref_ok v3"
| "kind_ok n (AtomicRmw op v1 v2 ord b) \<longleftrightarrow> vref_ok v1 \<and> vref_ok v2"
| "kind_ok n (Ret ov) \<longleftrightarrow> opt_ok vref_ok ov"
| "kind_ok n (Br u) \<longleftrightarrow> u32_ok u"
| "kind_ok n (CondBr v u1 u2) \<longleftrightarrow> vref_ok v \<and> u32_ok u1 \<and> u32_ok u2"
| "kind_ok n (Switch v u ps) \<longleftrightarrow> vref_ok v \<and> u32_ok u \<and>
         list_ok incoming_ok ps"
| "kind_ok n Unreachable \<longleftrightarrow> True"
| "kind_ok n (Resume v) \<longleftrightarrow> vref_ok v"
| "kind_ok n (CatchPad v vs) \<longleftrightarrow> vref_ok v \<and> list_ok vref_ok vs"
| "kind_ok n (CleanupPad ov vs) \<longleftrightarrow> opt_ok vref_ok ov \<and> list_ok vref_ok vs"
| "kind_ok n (CatchSwitch ov us ou) \<longleftrightarrow> opt_ok vref_ok ov \<and>
         list_ok u32_ok us \<and> opt_ok u32_ok ou"
| "kind_ok n (CatchRet v u) \<longleftrightarrow> vref_ok v \<and> u32_ok u"
| "kind_ok n (CleanupRet v ou) \<longleftrightarrow> vref_ok v \<and> opt_ok u32_ok ou"

definition erase_kind :: "instr_kind \<Rightarrow> instr_kind" where
  \<comment> \<open>the fast-math flags are not stored\<close>
  "erase_kind k =
     (case k of
        FAdd _ v1 v2 \<Rightarrow> FAdd fast_math_default v1 v2
      | FSub _ v1 v2 \<Rightarrow> FSub fast_math_default v1 v2
      | FMul _ v1 v2 \<Rightarrow> FMul fast_math_default v1 v2
      | FDiv _ v1 v2 \<Rightarrow> FDiv fast_math_default v1 v2
      | FRem _ v1 v2 \<Rightarrow> FRem fast_math_default v1 v2
      | FNeg _ v \<Rightarrow> FNeg fast_math_default v
      | FCmp _ p v1 v2 \<Rightarrow> FCmp fast_math_default p v1 v2
      | _ \<Rightarrow> k)"

definition instr_ok :: "nat \<Rightarrow> instruction \<Rightarrow> bool" where
  "instr_ok n ins \<longleftrightarrow> name_ok (instr_name ins) \<and> instr_ty ins < n \<and> kind_ok n (instr_kind ins)"

definition erase_instr :: "instruction \<Rightarrow> instruction" where
  "erase_instr ins = ins\<lparr>instr_kind := erase_kind (instr_kind ins)\<rparr>"


section \<open>Round trips\<close>

lemma dec_ty_enc:
  assumes "n \<le> 2 ^ 32" "i < n"
  shows "dec_ty [0..<n] (enc_u32 i @ rest) = Some (Inr (i, rest))"
  using assms by (simp add: dec_ty_def map_id_def dbind_def)

lemma dec_word64_enc [simp]: "dec_word64 (enc_word64 v @ rest) = Some (Inr (v, rest))"
proof -
  have "unat v < 2 ^ 64" using unsigned_less [of v, where 'a = nat] by simp
  then show ?thesis by (simp add: dec_word64_def enc_word64_def dmap_def dbind_def)
qed

lemma dec_flags_enc [simp]: "dec_flags (enc_flags fl @ rest) = Some (Inr (fl, rest))"
  by (simp add: dec_flags_def enc_flags_def dmap2_def dbind_def)

lemma decode_vref_enc: "vref_ok v \<Longrightarrow> decode_vref (encode_vref v @ rest) = Some (Inr (v, rest))"
  by (cases v) (simp_all add: decode_vref_def encode_vref_def dbind_def u32_ok_def)

interpretation u32: codec enc_u32 dec_u32 u32_ok
  by unfold_locales (simp add: u32_ok_def)

interpretation i32: codec enc_i32 dec_i32 i32_ok
  by unfold_locales (simp add: i32_ok_def)

interpretation word64: codec enc_word64 dec_word64 "\<lambda>_. True"
  by unfold_locales simp

interpretation vref: codec encode_vref decode_vref vref_ok
  by unfold_locales (rule decode_vref_enc)

interpretation incoming: codec enc_incoming dec_incoming incoming_ok
  by unfold_locales
    (simp add: enc_incoming_def dec_incoming_def incoming_ok_def dmap2_def dbind_def vref.roundtrip u32.roundtrip)

interpretation table_ref: codec enc_u32 "dec_ty [0..<n]" "\<lambda>i. i < n \<and> n \<le> 2 ^ 32" for n
  by unfold_locales (simp add: dec_ty_enc)

lemma decode_clause_enc:
  "n \<le> 2 ^ 32 \<Longrightarrow> clause_ok n c \<Longrightarrow> decode_clause [0..<n] (encode_clause c @ rest) = Some (Inr (c, rest))"
  by (cases c) (simp_all add: decode_clause_def dmap3_def dbind_def dec_ty_enc vref.roundtrip)

interpretation clause: codec encode_clause "decode_clause [0..<n]" "\<lambda>c. clause_ok n c \<and> n \<le> 2 ^ 32" for n
  by unfold_locales (simp add: decode_clause_enc)

lemmas scalar_roundtrip = vref.roundtrip u32.roundtrip dec_ty_enc

lemma list_roundtrips:
  "list_ok u32_ok us \<Longrightarrow> dec_list dec_u32 (enc_list enc_u32 us @ rest) = Some (Inr (us, rest))"
  "list_ok i32_ok ms \<Longrightarrow> dec_list dec_i32 (enc_list enc_i32 ms @ rest) = Some (Inr (ms, rest))"
  "list_ok vref_ok vs \<Longrightarrow> dec_list decode_vref (enc_list encode_vref vs @ rest) = Some (Inr (vs, rest))"
  "list_ok incoming_ok ps \<Longrightarrow> dec_list dec_incoming (enc_list enc_incoming ps @ rest) = Some (Inr (ps, rest))"
  "length ws < 2 ^ 32 \<Longrightarrow> dec_list dec_word64 (enc_list enc_word64 ws @ rest) = Some (Inr (ws, rest))"
  "n \<le> 2 ^ 32 \<Longrightarrow> list_ok (\<lambda>t. t < n) ts \<Longrightarrow>
     dec_list (dec_ty [0..<n]) (enc_list enc_u32 ts @ rest) = Some (Inr (ts, rest))"
  "n \<le> 2 ^ 32 \<Longrightarrow> list_ok (clause_ok n) cs \<Longrightarrow>
     dec_list (decode_clause [0..<n]) (enc_list encode_clause cs @ rest) = Some (Inr (cs, rest))"
  by (auto simp: list_ok_def intro!: u32.list_roundtrip i32.list_roundtrip vref.list_roundtrip
      incoming.list_roundtrip word64.list_roundtrip table_ref.list_roundtrip clause.list_roundtrip)

lemma opt_roundtrips:
  "opt_ok vref_ok ov \<Longrightarrow> dec_opt decode_vref (enc_opt encode_vref ov @ rest) = Some (Inr (ov, rest))"
  "opt_ok u32_ok ou \<Longrightarrow> dec_opt dec_u32 (enc_opt enc_u32 ou @ rest) = Some (Inr (ou, rest))"
  by (auto simp: opt_ok_def intro!: vref.opt_roundtrip u32.opt_roundtrip)

lemma string_roundtrips:
  "string_ok s \<Longrightarrow> dec_string (enc_string s @ rest) = Some (Inr (s, rest))"
  "name_ok v \<Longrightarrow> dec_opt_string (enc_opt_string v @ rest) = Some (Inr (v, rest))"
  by (simp_all add: string_ok_def name_ok_def)

lemmas record_roundtrips = scalar_roundtrip list_roundtrips opt_roundtrips string_roundtrips

lemma decode_type_enc:
  "n \<le> 2 ^ 32 \<Longrightarrow> type_ok n td \<Longrightarrow> decode_type [0..<n] (encode_type td @ rest) = Some (Inr (td, rest))"
  by (cases "(n, td)" rule: type_ok.cases)
    (simp_all add: decode_type_def dmap_defs dbind_def map_id_def record_roundtrips)

lemma decode_const_op_enc:
  "n \<le> 2 ^ 32 \<Longrightarrow> const_op_ok n op \<Longrightarrow>
     decode_const_op [0..<n] (encode_const_op op @ rest) = Some (Inr (op, rest))"
  by (cases op) (simp_all add: decode_const_op_def dmap_defs dbind_def record_roundtrips)

lemma decode_const_enc:
  "n \<le> 2 ^ 32 \<Longrightarrow> k \<le> 2 ^ 32 \<Longrightarrow> const_ok n k c \<Longrightarrow>
     decode_const [0..<n] [0..<k] (encode_const c @ rest) = Some (Inr (c, rest))"
  by (cases c) (simp_all add: decode_const_def dmap_defs dbind_def record_roundtrips decode_const_op_enc)

lemma decode_kind_enc:
  "n \<le> 2 ^ 32 \<Longrightarrow> kind_ok n k \<Longrightarrow>
     dbind dec_u32 (decode_kind [0..<n]) (encode_kind k @ rest) = Some (Inr (erase_kind k, rest))"
  by (cases k)
    (simp_all add: decode_kind_def dmap_defs dbind_def record_roundtrips erase_kind_def)

lemma decode_instr_enc:
  assumes "n \<le> 2 ^ 32" "instr_ok n ins"
  shows "decode_instr [0..<n] (encode_instr ins @ rest) = Some (Inr (erase_instr ins, rest))"
  using assms decode_kind_enc [of n "instr_kind ins" rest]
  by (simp add: decode_instr_def encode_instr_def dmap3_def instr_ok_def record_roundtrips dbind_ok erase_instr_def)

end
