(* ===== verification/LRIR_Module.thy ===== *)
theory LRIR_Module
  imports LRIR_Format IR_Context
begin

text \<open>
  The LRIR file (\<open>llvm-bitcode/src/{writer,reader}.rs\<close>): globals, functions, the type and constant
  tables, \<open>write_bitcode\<close> and \<open>read_bitcode\<close>. Each counted loop of the reader is a recursion on its
  count. \<open>Vec::with_capacity\<close> is not modelled: it reserves memory for the count the file claims.

  \<open>stored_module\<close> is the part of a module the format keeps, and \<open>serialisable\<close> the context and module
  that come back; the round trip is the last lemma.
\<close>

section \<open>Globals and functions\<close>

definition encode_global :: "global_variable \<Rightarrow> byte list" where
  "encode_global gv =
     enc_u32 (gv_ty gv) @ enc_u8 (encode_linkage (gv_linkage gv)) @ enc_bool (gv_is_constant gv) @
     enc_opt enc_u32 (gv_initializer gv) @ enc_string (gv_name gv)"

definition decode_global :: "type_id list \<Rightarrow> const_id list \<Rightarrow> global_variable decoder" where
  "decode_global tm cm =
     dmap5 (\<lambda>ty l c init name. \<lparr>gv_name = name, gv_ty = ty, gv_initializer = init, gv_is_constant = c, gv_linkage = l\<rparr>)
       (dec_ty tm) (dbind dec_u8 decode_linkage) dec_bool (dec_opt (dec_ty cm)) dec_string"

definition encode_arg :: "argument \<Rightarrow> byte list" where
  "encode_arg a = enc_string (arg_name a) @ enc_u32 (arg_ty a) @ enc_u32 (arg_index a)"

definition decode_arg :: "type_id list \<Rightarrow> argument decoder" where
  "decode_arg tm =
     dmap3 (\<lambda>name ty index. \<lparr>arg_name = name, arg_ty = ty, arg_index = index\<rparr>) dec_string (dec_ty tm) dec_u32"

definition encode_block :: "basic_block \<Rightarrow> byte list" where
  "encode_block bb =
     enc_string (bb_name bb) @ enc_list enc_u32 (bb_body bb) @
     (case bb_terminator bb of Some t \<Rightarrow> enc_u32 t | None \<Rightarrow> enc_u32 0xFFFFFFFF)"

definition build_block :: "string \<Rightarrow> instr_id list \<Rightarrow> nat \<Rightarrow> basic_block" where
  "build_block name body term_raw =
     \<lparr>bb_name = name, bb_body = body,
      bb_terminator = (if term_raw = 0xFFFFFFFF then None else Some term_raw)\<rparr>"

definition decode_block :: "basic_block decoder" where
  \<comment> \<open>the record of a block; the code builds the block from it after the instructions are read\<close>
  "decode_block = dmap3 build_block dec_string (dec_list dec_u32) dec_u32"

definition encode_function :: "ir_function \<Rightarrow> byte list" where
  "encode_function f =
     enc_string (f_name f) @ enc_u32 (f_ty f) @ enc_u8 (encode_linkage (f_linkage f)) @
     enc_bool (is_declaration f) @ enc_bool (strictfp f) @
     enc_list encode_arg (args f) @ enc_list encode_block (blocks f) @ enc_list encode_instr (instructions f)"

definition dec_strictfp :: "bool decoder" where
  \<comment> \<open>\<open>r.u8().unwrap_or(0) != 0\<close>\<close>
  "dec_strictfp bs = (case dec_bool bs of Some (Inl _) \<Rightarrow> Some (Inr (False, bs)) | r \<Rightarrow> r)"

primrec read_instrs :: "nat \<Rightarrow> type_id list \<Rightarrow> ir_function \<Rightarrow> ir_function decoder" where
  "read_instrs 0 tm f = dret f"
| "read_instrs (Suc n) tm f =
     dbind (decode_instr tm) (\<lambda>ins. dbind (dlift (alloc_instr f ins)) (\<lambda>p. read_instrs n tm (fst p)))"

definition read_pool :: "type_id list \<Rightarrow> ir_function \<Rightarrow> ir_function decoder" where
  \<comment> \<open>the flat instruction pool\<close>
  "read_pool tm f = dbind dec_u32 (\<lambda>n. read_instrs n tm f)"

definition decode_function :: "type_id list \<Rightarrow> ir_function decoder" where
  "decode_function tm =
     dbind dec_string (\<lambda>name. dbind (dec_ty tm) (\<lambda>ty. dbind (dbind dec_u8 decode_linkage) (\<lambda>l.
     dbind dec_bool (\<lambda>decl. dbind dec_strictfp (\<lambda>sfp. dbind (dec_list (decode_arg tm)) (\<lambda>as.
       let f = (if decl then new_declaration name ty as l else function_new name ty as l);
           f = f\<lparr>is_declaration := decl, strictfp := sfp\<rparr>
       in dbind (dec_list decode_block) (\<lambda>bbs.
          dbind (read_pool tm f) (\<lambda>f.
            dret (f\<lparr>blocks := blocks f @ bbs\<rparr>)))))))))"

section \<open>Tables\<close>

definition intern_type :: "ir_context \<Rightarrow> type_data \<Rightarrow> (ir_context \<times> type_id) rust" where
  "intern_type ctx td =
     (case td of
        TyVoid \<Rightarrow> Some (ctx, void_ty ctx)
      | TyInteger b \<Rightarrow> Some (mk_int ctx b)
      | TyFloat k \<Rightarrow> Some (mk_float ctx k)
      | TyPointer \<Rightarrow> Some (mk_ptr ctx)
      | TyLabel \<Rightarrow> Some (mk_label ctx)
      | TyMetadata \<Rightarrow> Some (mk_metadata ctx)
      | TyArray element len \<Rightarrow> Some (mk_array ctx element len)
      | TyVector element len scalable \<Rightarrow> Some (mk_vector ctx element len scalable)
      | TyStruct st \<Rightarrow>
          (case st_name st of
             Some name \<Rightarrow>
               (let (ctx, i) = mk_struct_named ctx name in
                map_option (\<lambda>ctx. (ctx, i)) (define_struct_body ctx i (st_fields st) (st_packed st)))
           | None \<Rightarrow> Some (mk_struct_anon ctx (st_fields st) (st_packed st)))
      | TyFunction ft \<Rightarrow> Some (mk_fn_type ctx (fn_ret ft) (fn_params ft) (fn_variadic ft)))"

primrec read_types :: "nat \<Rightarrow> ir_context \<Rightarrow> type_id list \<Rightarrow> (ir_context \<times> type_id list) decoder" where
  "read_types 0 ctx tm = dret (ctx, tm)"
| "read_types (Suc n) ctx tm =
     dbind (decode_type tm) (\<lambda>td. dbind (dlift (intern_type ctx td)) (\<lambda>(ctx, i). read_types n ctx (tm @ [i])))"

primrec read_consts ::
  "nat \<Rightarrow> type_id list \<Rightarrow> ir_context \<Rightarrow> const_id list \<Rightarrow> (ir_context \<times> const_id list) decoder" where
  "read_consts 0 tm ctx cm = dret (ctx, cm)"
| "read_consts (Suc n) tm ctx cm =
     dbind (decode_const tm cm) (\<lambda>cd. let (ctx, c) = push_const ctx cd in read_consts n tm ctx (cm @ [c]))"

primrec read_functions :: "nat \<Rightarrow> type_id list \<Rightarrow> ir_module \<Rightarrow> ir_module decoder" where
  "read_functions 0 tm m = dret m"
| "read_functions (Suc n) tm m =
     dbind (decode_function tm) (\<lambda>f. read_functions n tm (fst (add_function m f)))"

definition magic :: "byte list" where
  "magic = map byte_of_char ''LRIR''"

definition write_bitcode :: "ir_context \<Rightarrow> ir_module \<Rightarrow> byte list" where
  "write_bitcode ctx m =
     magic @ enc_u32 1 @
     enc_u32 (num_types ctx) @ concat (map (\<lambda>(_, td). encode_type td) (types_iter ctx)) @
     enc_list encode_const (constants ctx) @ enc_list encode_global (globals m) @
     enc_string (m_name m) @ enc_list encode_function (m_functions m)"

definition read_module :: "(ir_context \<times> ir_module) decoder" where
  "read_module =
     dbind (read_bytes 4) (\<lambda>m. if m \<noteq> magic then dfail InvalidMagic else
     dbind dec_u32 (\<lambda>version. if version \<noteq> 1 then dfail ParseError else
     dbind dec_u32 (\<lambda>type_count. dbind (read_types type_count context_new []) (\<lambda>(ctx, tm).
     dbind dec_u32 (\<lambda>const_count. dbind (read_consts const_count tm ctx []) (\<lambda>(ctx, cm).
     dbind (dec_list (decode_global tm cm)) (\<lambda>gvs.
     dbind dec_string (\<lambda>name.
       let m = foldl (\<lambda>m gv. fst (add_global m gv)) (module_new name) gvs in
     dbind dec_u32 (\<lambda>func_count. dbind (read_functions func_count tm m) (\<lambda>m. dret (ctx, m)))))))))))"

definition read_bitcode :: "byte list \<Rightarrow> (bc_error + ir_context \<times> ir_module) rust" where
  "read_bitcode bs =
     (case read_module bs of
        None \<Rightarrow> None
      | Some (Inl e) \<Rightarrow> Some (Inl e)
      | Some (Inr (r, _)) \<Rightarrow> Some (Inr r))"

section \<open>What the format keeps\<close>

definition last_index :: "('a \<Rightarrow> string option) \<Rightarrow> 'a list \<Rightarrow> (string \<rightharpoonup> nat)" where
  \<comment> \<open>the name table: the last element of a name wins, elements without a name are left out\<close>
  "last_index nm xs =
     foldl (\<lambda>m (i, x). case nm x of None \<Rightarrow> m | Some n \<Rightarrow> m(n \<mapsto> i)) Map.empty (enumerate 0 xs)"

definition nonempty :: "string \<Rightarrow> string option" where
  "nonempty s = (if s = [] then None else Some s)"

definition stored_function :: "ir_function \<Rightarrow> ir_function" where
  "stored_function f =
     f\<lparr>instructions := map erase_instr (instructions f), instr_dbg_locs := Map.empty,
       instr_metadata := Map.empty, value_names := last_index instr_name (instructions f),
       arg_names := last_index (\<lambda>a. nonempty (arg_name a)) (args f), next_name_id := 0\<rparr>"

definition stored_module :: "ir_module \<Rightarrow> ir_module" where
  "stored_module m =
     m\<lparr>source_filename := None, target_triple := None, data_layout := None,
       m_functions := map stored_function (m_functions m),
       function_names := last_index (\<lambda>f. Some (f_name f)) (m_functions m),
       global_names := last_index (\<lambda>g. Some (gv_name g)) (globals m),
       named_types := [], debug_locations := Map.empty, metadata_nodes := Map.empty, named_metadata := []\<rparr>"

definition stored_context :: "ir_context \<Rightarrow> ir_context" where
  \<comment> \<open>the constants come back, the table that finds them does not\<close>
  "stored_context ctx = ctx\<lparr>const_map := Map.empty\<rparr>"

definition global_ok :: "nat \<Rightarrow> nat \<Rightarrow> global_variable \<Rightarrow> bool" where
  "global_ok n k gv \<longleftrightarrow> gv_ty gv < n \<and> opt_ok (\<lambda>c. c < k) (gv_initializer gv) \<and> string_ok (gv_name gv)"

definition arg_ok :: "nat \<Rightarrow> argument \<Rightarrow> bool" where
  "arg_ok n a \<longleftrightarrow> string_ok (arg_name a) \<and> arg_ty a < n \<and> u32_ok (arg_index a)"

definition block_ok :: "basic_block \<Rightarrow> bool" where
  "block_ok bb \<longleftrightarrow> string_ok (bb_name bb) \<and> list_ok u32_ok (bb_body bb) \<and>
     opt_ok (\<lambda>t. t < 0xFFFFFFFF) (bb_terminator bb)"

definition function_ok :: "nat \<Rightarrow> ir_function \<Rightarrow> bool" where
  "function_ok n f \<longleftrightarrow> string_ok (f_name f) \<and> f_ty f < n \<and> list_ok (arg_ok n) (args f) \<and>
     list_ok block_ok (blocks f) \<and> list_ok (instr_ok n) (instructions f)"

definition context_ok :: "ir_context \<Rightarrow> bool" where
  \<comment> \<open>the builtin types come first, and types and constants refer to earlier ones only\<close>
  "context_ok ctx \<longleftrightarrow> wf_context ctx \<and> length (types ctx) < 2 ^ 32 \<and> length (constants ctx) < 2 ^ 32 \<and>
     take 10 (types ctx) = types context_new \<and>
     (\<forall>i < length (types ctx). type_ok i (types ctx ! i)) \<and>
     (\<forall>i < length (constants ctx). const_ok (length (types ctx)) i (constants ctx ! i))"

definition serialisable :: "ir_context \<Rightarrow> ir_module \<Rightarrow> bool" where
  "serialisable ctx m \<longleftrightarrow> context_ok ctx \<and> string_ok (m_name m) \<and>
     list_ok (global_ok (length (types ctx)) (length (constants ctx))) (globals m) \<and>
     list_ok (function_ok (length (types ctx))) (m_functions m)"

section \<open>Records\<close>

lemma opt_table_roundtrip:
  "k \<le> 2 ^ 32 \<Longrightarrow> opt_ok (\<lambda>c. c < k) v \<Longrightarrow>
     dec_opt (dec_ty [0..<k]) (enc_opt enc_u32 v @ rest) = Some (Inr (v, rest))"
  by (auto simp: opt_ok_def intro!: table_ref.opt_roundtrip)

lemma decode_global_enc:
  "n \<le> 2 ^ 32 \<Longrightarrow> k \<le> 2 ^ 32 \<Longrightarrow> global_ok n k gv \<Longrightarrow>
     decode_global [0..<n] [0..<k] (encode_global gv @ rest) = Some (Inr (gv, rest))"
  by (simp add: decode_global_def encode_global_def global_ok_def dmap_defs dbind_def record_roundtrips
      opt_table_roundtrip)

interpretation global_rec: codec encode_global "decode_global [0..<n] [0..<k]"
  "\<lambda>gv. global_ok n k gv \<and> n \<le> 2 ^ 32 \<and> k \<le> 2 ^ 32" for n k
  by unfold_locales (simp add: decode_global_enc)

interpretation arg_rec: codec encode_arg "decode_arg [0..<n]" "\<lambda>a. arg_ok n a \<and> n \<le> 2 ^ 32" for n
  by unfold_locales
    (simp add: decode_arg_def encode_arg_def arg_ok_def dmap_defs dbind_def record_roundtrips)

interpretation block_rec: codec encode_block decode_block block_ok
proof
  fix bb rest assume ok: "block_ok bb"
  then show "decode_block (encode_block bb @ rest) = Some (Inr (bb, rest))"
    by (cases "bb_terminator bb")
      (simp_all add: decode_block_def encode_block_def block_ok_def opt_ok_def build_block_def dmap_defs
        dbind_def record_roundtrips)
qed

lemma dec_strictfp_enc [simp]: "dec_strictfp (enc_bool b @ rest) = Some (Inr (b, rest))"
  by (simp add: dec_strictfp_def)

lemma enumerate_append1: "enumerate 0 (xs @ [x]) = enumerate 0 xs @ [(length xs, x)]"
  by (simp add: enumerate_append_eq)

lemma last_index_snoc:
  "last_index nm (xs @ [x]) =
     (case nm x of None \<Rightarrow> last_index nm xs | Some n \<Rightarrow> (last_index nm xs)(n \<mapsto> length xs))"
  by (simp add: last_index_def enumerate_append1 split: option.split)

lemma last_index_Nil [simp]: "last_index nm [] = Map.empty"
  by (simp add: last_index_def)

lemma function_new_fields:
  "length as \<le> 2 ^ 32 \<Longrightarrow> function_new n ty as l =
     \<lparr>f_name = n, f_ty = ty, args = as, blocks = [], instructions = [], instr_dbg_locs = Map.empty,
      instr_metadata = Map.empty, value_names = Map.empty,
      arg_names = last_index (\<lambda>a. nonempty (arg_name a)) as, is_declaration = False, f_linkage = l,
      strictfp = False, next_name_id = 0\<rparr>"
  by (induction as rule: rev_induct)
    (auto simp: function_new_def push_arg_def last_index_snoc nonempty_def Let_def)

lemma erase_instr_name [simp]: "instr_name (erase_instr i) = instr_name i"
  by (simp add: erase_instr_def)

lemma read_instrs_enc:
  assumes "n \<le> 2 ^ 32" "\<forall>i\<in>set js. instr_ok n i" "length ks + length js < 2 ^ 32"
    and "instructions f = map erase_instr ks" "value_names f = last_index instr_name ks"
  shows "read_instrs (length js) [0..<n] f (concat (map encode_instr js) @ rest) =
     Some (Inr (f\<lparr>value_names := last_index instr_name (ks @ js), instructions := map erase_instr (ks @ js)\<rparr>, rest))"
  using assms(2-)
proof (induction js arbitrary: ks f)
  case (Cons j js)
  let ?f = "f\<lparr>value_names := last_index instr_name (ks @ [j]), instructions := map erase_instr (ks @ [j])\<rparr>"
  have "name_ok (instr_name j)" using Cons.prems by (simp add: instr_ok_def)
  then have "alloc_instr f (erase_instr j) = Some (?f, length ks)"
    using Cons.prems by (cases "instr_name j") (auto simp: alloc_instr_def last_index_snoc name_ok_def Let_def)
  then show ?case
    using Cons.prems Cons.IH [of "ks @ [j]" ?f] by (simp add: dbind_def decode_instr_enc [OF assms(1)])
qed simp

lemma decode_function_enc:
  assumes "n \<le> 2 ^ 32" "function_ok n f"
  shows "decode_function [0..<n] (encode_function f @ rest) = Some (Inr (stored_function f, rest))"
proof -
  have ok: "string_ok (f_name f)" "f_ty f < n" "list_ok (arg_ok n) (args f)" "list_ok block_ok (blocks f)"
    "\<forall>i\<in>set (instructions f). instr_ok n i" "length (instructions f) < 2 ^ 32" "length (args f) \<le> 2 ^ 32"
    using assms by (auto simp: function_ok_def list_ok_def)
  have as: "dec_list (decode_arg [0..<n]) (enc_list encode_arg (args f) @ r) = Some (Inr (args f, r))" for r
    using ok(3) assms(1) by (intro arg_rec.list_roundtrip) (auto simp: list_ok_def)
  have bbs: "dec_list decode_block (enc_list encode_block (blocks f) @ r) = Some (Inr (blocks f, r))" for r
    using ok(4) by (intro block_rec.list_roundtrip) (auto simp: list_ok_def)
  have ins: "read_pool [0..<n] g (enc_list encode_instr (instructions f) @ r) =
      Some (Inr (g\<lparr>value_names := last_index instr_name (instructions f),
        instructions := map erase_instr (instructions f)\<rparr>, r))"
    if "instructions g = []" "value_names g = Map.empty" for g r
    using read_instrs_enc [OF assms(1) ok(5), of "[]" g r] ok(6) that
    by (simp add: enc_list_def dbind_def read_pool_def)
  show ?thesis
    using ok(1,2) assms(1)
    by (simp add: decode_function_def encode_function_def dbind_def as bbs ins record_roundtrips
        new_declaration_def function_new_fields [OF ok(7)] stored_function_def Let_def)
qed

section \<open>The type table\<close>

text \<open>
  Reading the types of a well-formed context one by one rebuilds it: after \<open>i\<close> types the reader holds
  the builtin types and the first \<open>i\<close> of the file, and the translation of the indices is the identity.
\<close>

definition reader_ctx :: "ir_context \<Rightarrow> nat \<Rightarrow> ir_context \<Rightarrow> bool" where
  "reader_ctx ctx i c \<longleftrightarrow>
     wf_context c \<and> types c = take (max 10 i) (types ctx) \<and> constants c = [] \<and> const_map c = Map.empty \<and>
     void_ty c = 0 \<and> i1_ty c = 1 \<and> i8_ty c = 2 \<and> i16_ty c = 3 \<and> i32_ty c = 4 \<and> i64_ty c = 5 \<and>
     f32_ty c = 6 \<and> f64_ty c = 7 \<and> ptr_ty c = 8 \<and> label_ty c = 9"

lemma context_ok_length: "context_ok ctx \<Longrightarrow> 10 \<le> length (types ctx)"
  by (auto simp: context_ok_def types_context_new dest: arg_cong [where f = length])

lemma context_ok_builtin:
  assumes "context_ok ctx" "i < 10"
  shows "types ctx ! i = types context_new ! i"
  using assms context_ok_length [OF assms(1)] by (metis context_ok_def nth_take)

lemma context_ok_unique:
  assumes "context_ok ctx" "i < length (types ctx)" "j < length (types ctx)" "types ctx ! i = types ctx ! j"
  shows "i = j"
proof (cases "struct_name (types ctx ! i)")
  case None
  then have "type_map ctx (types ctx ! i) = Some i" "type_map ctx (types ctx ! i) = Some j"
    using assms by (auto simp: context_ok_def wf_context_defs)
  then show ?thesis by simp
next
  case (Some n)
  then have "named_struct_map ctx n = Some i" "named_struct_map ctx n = Some j"
    using assms by (auto simp: context_ok_def wf_context_defs)
  then show ?thesis by simp
qed

lemma reader_ctx_start: "context_ok ctx \<Longrightarrow> reader_ctx ctx 0 context_new"
  by (simp add: reader_ctx_def context_new_wf context_ok_def)
    (simp add: context_new_def intern_anon_def empty_context_def)

lemma reader_ctx_step:
  assumes "reader_ctx ctx i c" "wf_context c'" "types c' = take (max 10 (Suc i)) (types ctx)"
    and "constants c' = constants c" "const_map c' = const_map c" "void_ty c' = void_ty c"
    "i1_ty c' = i1_ty c" "i8_ty c' = i8_ty c" "i16_ty c' = i16_ty c" "i32_ty c' = i32_ty c"
    "i64_ty c' = i64_ty c" "f32_ty c' = f32_ty c" "f64_ty c' = f64_ty c" "ptr_ty c' = ptr_ty c"
    "label_ty c' = label_ty c"
  shows "reader_ctx ctx (Suc i) c'"
  using assms by (simp add: reader_ctx_def)

lemma intern_anon_table:
  assumes ok: "context_ok ctx" and r: "reader_ctx ctx i c" and i: "i < length (types ctx)"
    and anon: "struct_name (types ctx ! i) = None"
  obtains c' where "intern_anon c (types ctx ! i) = (c', i)" "reader_ctx ctx (Suc i) c'"
proof (cases "i < 10")
  case True
  have l: "10 \<le> length (types ctx)" by (rule context_ok_length [OF ok])
  have "i < length (types c)" "types c ! i = types ctx ! i" using r True l by (simp_all add: reader_ctx_def)
  then have "type_map c (types ctx ! i) = Some i"
    using r anon by (auto simp: reader_ctx_def wf_context_defs)
  then have "intern_anon c (types ctx ! i) = (c, i)" by (simp add: intern_anon_def)
  moreover have "reader_ctx ctx (Suc i) c" using r True by (simp add: reader_ctx_def)
  ultimately show ?thesis by (rule that)
next
  case False
  let ?td = "types ctx ! i"
  let ?c = "c\<lparr>type_map := (type_map c)(?td \<mapsto> i), types := types c @ [?td]\<rparr>"
  have tc: "types c = take i (types ctx)" and w: "wf_context c"
    using r False by (simp_all add: reader_ctx_def max_def)
  have li: "length (types c) = i" "i < 2 ^ 32" using tc i ok by (auto simp: context_ok_def)
  have "type_map c ?td = None"
  proof (rule ccontr)
    assume "type_map c ?td \<noteq> None"
    then obtain j where j: "type_map c ?td = Some j" by blast
    have "j < length (types c)" "types c ! j = ?td" using w j by (simp_all add: wf_context_defs)
    then have "j < i" "types ctx ! j = types ctx ! i" using tc li by auto
    then show False using context_ok_unique [OF ok _ i, of j] i by simp
  qed
  then have int: "intern_anon c ?td = (?c, i)" using li by (simp add: intern_anon_def)
  have "wf_context ?c" by (rule intern_anon_wf [OF w anon _ int]) (use li in simp)
  moreover have "types ?c = take (max 10 (Suc i)) (types ctx)"
    using tc i False by (simp add: take_Suc_conv_app_nth max_def)
  ultimately have "reader_ctx ctx (Suc i) ?c" by (intro reader_ctx_step [OF r]) simp_all
  with int show ?thesis by (rule that)
qed

lemma intern_named_table:
  assumes ok: "context_ok ctx" and r: "reader_ctx ctx i c" and i: "i < length (types ctx)"
    and td: "types ctx ! i = TyStruct (StructType (Some n) flds packed)"
  obtains c1 c' where "mk_struct_named c n = (c1, i)" "define_struct_body c1 i flds packed = Some c'"
    "reader_ctx ctx (Suc i) c'"
proof -
  have "\<not> i < 10"
  proof
    assume i10: "i < 10"
    have "types context_new ! i \<in> set (types context_new)"
      by (rule nth_mem) (use i10 in \<open>simp add: types_context_new\<close>)
    then show False using td context_ok_builtin [OF ok i10] by (auto simp: types_context_new)
  qed
  then have tc: "types c = take i (types ctx)" and w: "wf_context c"
    using r by (simp_all add: reader_ctx_def max_def)
  have li: "length (types c) = i" "i < 2 ^ 32" using tc i ok by (auto simp: context_ok_def)
  have "named_struct_map c n = None"
  proof (rule ccontr)
    assume "named_struct_map c n \<noteq> None"
    then obtain j where j: "named_struct_map c n = Some j" by blast
    have "j < length (types c)" "struct_name (types c ! j) = Some n" using w j by (simp_all add: wf_context_defs)
    then have "j < i" "struct_name (types ctx ! j) = Some n" using tc li by auto
    then have "named_struct_map ctx n = Some j" "named_struct_map ctx n = Some i"
      using ok i td by (simp_all add: context_ok_def wf_context_defs)
    with \<open>j < i\<close> show False by simp
  qed
  moreover define c1 where "c1 = c\<lparr>types := types c @ [TyStruct (StructType (Some n) [] False)],
      named_struct_map := (named_struct_map c)(n \<mapsto> i)\<rparr>"
  ultimately have mk: "mk_struct_named c n = (c1, i)" using li by (simp add: mk_struct_named_def)
  define c' where "c' = c1\<lparr>types := types c @ [types ctx ! i]\<rparr>"
  have df: "define_struct_body c1 i flds packed = Some c'"
  proof -
    have g: "vec_get (types c1) i = Some (TyStruct (StructType (Some n) [] False))"
      using vec_get_append_new [of "types c"] li by (simp add: c1_def)
    have "(types c1)[i := types ctx ! i] = types c @ [types ctx ! i]"
      using li by (simp add: c1_def list_update_append)
    with g td show ?thesis by (simp add: define_struct_body_def c'_def)
  qed
  have "wf_context c1" by (rule mk_struct_named_wf [OF w _ mk]) (use li in simp)
  then have "wf_context c'" using define_struct_body_named_wf [OF _ df, of n] by (simp add: c1_def)
  moreover have "types c' = take (max 10 (Suc i)) (types ctx)"
    using tc i \<open>\<not> i < 10\<close> by (simp add: c'_def take_Suc_conv_app_nth max_def)
  ultimately have "reader_ctx ctx (Suc i) c'"
    by (intro reader_ctx_step [OF r]) (simp_all add: c'_def c1_def)
  with mk df show ?thesis by (rule that)
qed

lemma intern_type_table:
  assumes ok: "context_ok ctx" and r: "reader_ctx ctx i c" and i: "i < length (types ctx)"
  shows "\<exists>c'. intern_type c (types ctx ! i) = Some (c', i) \<and> reader_ctx ctx (Suc i) c'"
proof -
  have l: "10 \<le> length (types ctx)" by (rule context_ok_length [OF ok])
  have builtin: "i = j" if "j < 10" "types ctx ! i = types context_new ! j" for j
    using that context_ok_unique [OF ok i] context_ok_builtin [OF ok, of j] l by simp
  have same: ?thesis if "i = j" "j < 10" "intern_type c (types ctx ! i) = Some (c, j)" for j
    using r that by (intro exI [of _ c]) (simp add: reader_ctx_def)
  have anon: ?thesis
    if "struct_name (types ctx ! i) = None" "intern_type c (types ctx ! i) = Some (intern_anon c (types ctx ! i))"
    using intern_anon_table [OF ok r i that(1)] that(2) by metis
  show ?thesis
  proof (cases "types ctx ! i")
    case TyVoid
    then have "i = 0" using builtin [of 0] by (simp add: types_context_new)
    then show ?thesis using same [of 0] TyVoid r by (simp add: intern_type_def reader_ctx_def)
  next
    case TyPointer
    then have "i = 8" using builtin [of 8] by (simp add: types_context_new)
    then show ?thesis using same [of 8] TyPointer r by (simp add: intern_type_def reader_ctx_def mk_ptr_def)
  next
    case TyLabel
    then have "i = 9" using builtin [of 9] by (simp add: types_context_new)
    then show ?thesis using same [of 9] TyLabel r by (simp add: intern_type_def reader_ctx_def mk_label_def)
  next
    case (TyStruct st)
    obtain nm flds packed where st: "st = StructType nm flds packed" by (cases st)
    show ?thesis
    proof (cases nm)
      case None
      then show ?thesis using anon TyStruct st by (simp add: intern_type_def mk_struct_anon_def)
    next
      case (Some n)
      then obtain c1 c' where "mk_struct_named c n = (c1, i)" "define_struct_body c1 i flds packed = Some c'"
        "reader_ctx ctx (Suc i) c'"
        using intern_named_table [OF ok r i] TyStruct st by metis
      then show ?thesis using TyStruct st Some by (simp add: intern_type_def)
    qed
  next
    case (TyFunction ft)
    then show ?thesis using anon by (cases ft) (simp add: intern_type_def mk_fn_type_def)
  qed (use anon in \<open>simp_all add: intern_type_def mk_int_def mk_float_def mk_array_def mk_vector_def mk_metadata_def\<close>)
qed

lemma read_types_enc:
  assumes ok: "context_ok ctx" and "reader_ctx ctx i c" "i + k = length (types ctx)"
  shows "\<exists>c'. reader_ctx ctx (length (types ctx)) c' \<and>
     read_types k c [0..<i] (concat (map encode_type (drop i (types ctx))) @ rest) =
       Some (Inr ((c', [0..<length (types ctx)]), rest))"
  using assms(2-)
proof (induction k arbitrary: i c)
  case (Suc k)
  have i: "i < length (types ctx)" using Suc.prems by simp
  have d: "drop i (types ctx) = types ctx ! i # drop (Suc i) (types ctx)" using i by (simp add: Cons_nth_drop_Suc)
  have "decode_type [0..<i] (encode_type (types ctx ! i) @ r) = Some (Inr (types ctx ! i, r))" for r
    using ok i by (intro decode_type_enc) (auto simp: context_ok_def)
  moreover obtain c' where "intern_type c (types ctx ! i) = Some (c', i)" "reader_ctx ctx (Suc i) c'"
    using intern_type_table [OF ok Suc.prems(1) i] by blast
  ultimately show ?case
    using Suc.IH [of "Suc i" c'] Suc.prems by (simp add: d dbind_def)
qed simp

lemma read_consts_enc:
  assumes "n < 2 ^ 32" "length xs + length ys < 2 ^ 32" "constants c = xs"
    and "\<forall>j<length ys. const_ok n (length xs + j) (ys ! j)"
  shows "read_consts (length ys) [0..<n] c [0..<length xs] (concat (map encode_const ys) @ rest) =
     Some (Inr ((c\<lparr>constants := xs @ ys\<rparr>, [0..<length xs + length ys]), rest))"
  using assms(2-)
proof (induction ys arbitrary: xs c)
  case (Cons y ys)
  have y: "const_ok n (length xs) y" using Cons.prems(3) by force
  have "\<forall>j<length ys. const_ok n (length (xs @ [y]) + j) (ys ! j)"
  proof (intro allI impI)
    fix j assume "j < length ys"
    then show "const_ok n (length (xs @ [y]) + j) (ys ! j)"
      using Cons.prems(3) [rule_format, of "Suc j"] by simp
  qed
  then have "read_consts (length ys) [0..<n] (c\<lparr>constants := xs @ [y]\<rparr>) [0..<length (xs @ [y])]
      (concat (map encode_const ys) @ rest) =
      Some (Inr ((c\<lparr>constants := xs @ y # ys\<rparr>, [0..<length xs + length (y # ys)]), rest))"
    using Cons.IH [of "xs @ [y]" "c\<lparr>constants := xs @ [y]\<rparr>"] Cons.prems by simp
  moreover have "decode_const [0..<n] [0..<length xs] (encode_const y @ r) = Some (Inr (y, r))" for r
    using y assms(1) Cons.prems by (intro decode_const_enc) auto
  ultimately show ?case using Cons.prems by (simp add: dbind_def push_const_def)
qed simp

section \<open>The file\<close>

lemma reader_ctx_end:
  assumes ok: "context_ok ctx" and r: "reader_ctx ctx (length (types ctx)) c"
  shows "c\<lparr>constants := constants ctx\<rparr> = stored_context ctx"
proof -
  have l: "10 \<le> length (types ctx)" by (rule context_ok_length [OF ok])
  have t: "types c = types ctx" using r l by (simp add: reader_ctx_def max_def)
  have w: "wf_context c" "wf_context ctx" using ok r by (simp_all add: context_ok_def reader_ctx_def)
  have "type_map c td = type_map ctx td" for td
  proof -
    have "type_map c td = Some i \<longleftrightarrow> type_map ctx td = Some i" for i
      using w t by (simp add: wf_context_defs)
    then show ?thesis by (metis not_Some_eq)
  qed
  then have m: "type_map c = type_map ctx" by blast
  have "named_struct_map c n = named_struct_map ctx n" for n
  proof -
    have "named_struct_map c n = Some i \<longleftrightarrow> named_struct_map ctx n = Some i" for i
      using w t by (simp add: wf_context_defs)
    then show ?thesis by (metis not_Some_eq)
  qed
  then have n: "named_struct_map c = named_struct_map ctx" by blast
  have one: "i = j" if "get_type ctx i = Some td" "j < 10" "types context_new ! j = td" for i j td
    using that context_ok_unique [OF ok, of i j] context_ok_builtin [OF ok, of j] l
    by (auto simp: get_type_def rust_simps)
  have "void_ty ctx = 0" "i1_ty ctx = 1" "i8_ty ctx = 2" "i16_ty ctx = 3" "i32_ty ctx = 4" "i64_ty ctx = 5"
    "f32_ty ctx = 6" "f64_ty ctx = 7" "ptr_ty ctx = 8" "label_ty ctx = 9"
    using w(2) one by (auto simp: wf_context_def wf_singletons_def types_context_new)
  with t m n r show ?thesis
    by (intro ir_context.equality) (simp_all add: stored_context_def reader_ctx_def)
qed

lemma add_globals:
  "foldl (\<lambda>m gv. fst (add_global m gv)) (module_new n) gvs =
     (module_new n)\<lparr>globals := gvs, global_names := last_index (\<lambda>g. Some (gv_name g)) gvs\<rparr>"
  if "length gvs \<le> 2 ^ 32"
  using that
  by (induction gvs rule: rev_induct) (simp_all add: module_new_def add_global_def last_index_snoc Let_def)

lemma stored_function_name [simp]: "f_name (stored_function f) = f_name f"
  by (simp add: stored_function_def)

lemma read_functions_enc:
  assumes "n \<le> 2 ^ 32" "\<forall>f\<in>set fs. function_ok n f" "length gs + length fs < 2 ^ 32"
    and "m_functions m = map stored_function gs" "function_names m = last_index (\<lambda>f. Some (f_name f)) gs"
  shows "read_functions (length fs) [0..<n] m (concat (map encode_function fs) @ rest) =
     Some (Inr (m\<lparr>function_names := last_index (\<lambda>f. Some (f_name f)) (gs @ fs),
       m_functions := map stored_function (gs @ fs)\<rparr>, rest))"
  using assms(2-)
proof (induction fs arbitrary: gs m)
  case (Cons f fs)
  let ?m = "m\<lparr>function_names := last_index (\<lambda>f. Some (f_name f)) (gs @ [f]),
       m_functions := map stored_function (gs @ [f])\<rparr>"
  have "fst (add_function m (stored_function f)) = ?m"
    using Cons.prems by (simp add: add_function_def last_index_snoc Let_def)
  then show ?case
    using Cons.prems Cons.IH [of "gs @ [f]" ?m] by (simp add: dbind_def decode_function_enc [OF assms(1)])
qed simp

lemma types_iter_snd: "concat (map (\<lambda>(_, td). encode_type td) (types_iter ctx)) = concat (map encode_type (types ctx))"
proof -
  have "map (\<lambda>(_, td). encode_type td) (types_iter ctx) = map encode_type (map snd (enumerate 0 (types ctx)))"
    unfolding map_map by (simp add: types_iter_def split_def comp_def)
  then show ?thesis by simp
qed

lemma read_bytes_magic: "read_bytes 4 (magic @ rest) = Some (Inr (magic, rest))"
  by (rule read_bytes_append) (simp add: magic_def)

lemma read_module_enc:
  assumes "serialisable ctx m"
  shows "read_module (write_bitcode ctx m @ rest) = Some (Inr ((stored_context ctx, stored_module m), rest))"
proof -
  let ?n = "length (types ctx)" and ?k = "length (constants ctx)"
  have ok: "context_ok ctx" "string_ok (m_name m)" "list_ok (global_ok ?n ?k) (globals m)"
    "list_ok (function_ok ?n) (m_functions m)"
    using assms by (auto simp: serialisable_def)
  have b: "?n < 2 ^ 32" "?k < 2 ^ 32" "length (globals m) \<le> 2 ^ 32" "length (m_functions m) < 2 ^ 32"
    using ok by (auto simp: context_ok_def list_ok_def)
  have cts: "enc_list encode_const (constants ctx) = enc_u32 ?k @ concat (map encode_const (constants ctx))"
    and fncs: "enc_list encode_function (m_functions m) =
      enc_u32 (length (m_functions m)) @ concat (map encode_function (m_functions m))"
    by (simp_all add: enc_list_def)
  let ?r = "enc_list encode_const (constants ctx) @ enc_list encode_global (globals m) @
    enc_string (m_name m) @ enc_list encode_function (m_functions m) @ rest"
  obtain c where c: "reader_ctx ctx ?n c" and
    ty: "read_types ?n context_new [] (concat (map encode_type (types ctx)) @ ?r) = Some (Inr ((c, [0..<?n]), ?r))"
    using read_types_enc [OF ok(1) reader_ctx_start [OF ok(1)], of ?n ?r] by auto
  have co: "read_consts ?k [0..<?n] c [] (concat (map encode_const (constants ctx)) @ r) =
      Some (Inr ((stored_context ctx, [0..<?k]), r))" for r
    using read_consts_enc [OF b(1), of "[]" "constants ctx" c r] ok(1) b c
    by (simp add: reader_ctx_end [OF ok(1) c] context_ok_def reader_ctx_def)
  have gl: "dec_list (decode_global [0..<?n] [0..<?k]) (enc_list encode_global (globals m) @ r) =
      Some (Inr (globals m, r))" for r
    using ok(3) b by (intro global_rec.list_roundtrip) (auto simp: list_ok_def)
  have fu: "read_functions (length (m_functions m)) [0..<?n]
      ((module_new (m_name m))\<lparr>globals := globals m, global_names := last_index (\<lambda>g. Some (gv_name g)) (globals m)\<rparr>)
      (concat (map encode_function (m_functions m)) @ r) = Some (Inr (stored_module m, r))" for r
    using read_functions_enc [of ?n "m_functions m" "[]"
        "(module_new (m_name m))\<lparr>globals := globals m, global_names := last_index (\<lambda>g. Some (gv_name g)) (globals m)\<rparr>" r]
      ok(4) b
    by (simp add: list_ok_def module_new_def stored_module_def)
  note r = ty [unfolded cts fncs append_assoc]
  show ?thesis
    using b ok(2) 
    by (simp add: read_module_def write_bitcode_def dbind_def read_bytes_magic types_iter_snd num_types_def
        cts fncs r co gl fu record_roundtrips add_globals Let_def)
qed

lemma read_write_bitcode:
  "serialisable ctx m \<Longrightarrow> read_bitcode (write_bitcode ctx m) = Some (Inr (stored_context ctx, stored_module m))"
  using read_module_enc [of ctx m "[]"] by (simp add: read_bitcode_def)

end
