(* ===== verification/LRIR_Correct.thy ===== *)
theory LRIR_Correct
  imports LRIR_Module
begin

text \<open>
  Correctness of the LRIR bitcode: the round trip, the reader on arbitrary bytes (it never panics) and
  on cut files, and the places where the format loses or rejects what the IR can hold.

  \<open>exact\<close> is the property of a decoder that reads a definite stretch of input: what it accepts, it
  accepts whatever follows, and every shorter piece of that stretch is reported as truncated.
  \<open>panic_free\<close> says that a decoder always answers. Both are closed under the combinators.
\<close>

section \<open>Decoders that read a definite stretch\<close>

definition exact :: "'a decoder \<Rightarrow> bool" where
  "exact d \<longleftrightarrow>
     (\<forall>bs v rest. d bs = Some (Inr (v, rest)) \<longrightarrow>
        (\<exists>used. bs = used @ rest \<and> (\<forall>r. d (used @ r) = Some (Inr (v, r))) \<and>
           (\<forall>k < length used. d (take k used) = Some (Inl TruncatedInput))))"

lemma exactE:
  assumes "exact d" "d bs = Some (Inr (v, rest))"
  obtains used where "bs = used @ rest" "\<And>r. d (used @ r) = Some (Inr (v, r))"
    "\<And>k. k < length used \<Longrightarrow> d (take k used) = Some (Inl TruncatedInput)"
  using assms unfolding exact_def by meson

named_theorems exact_intros

lemma exact_dret [exact_intros]: "exact (dret x)"
  by (auto simp: exact_def)

lemma exact_dfail [exact_intros]: "exact (dfail e)"
  by (auto simp: exact_def dfail_def)

lemma exact_dlift [exact_intros]: "exact (dlift r)"
  by (cases r) (auto simp: exact_def dlift_def)

lemma exact_if [exact_intros]: "exact d \<Longrightarrow> exact e \<Longrightarrow> exact (if b then d else e)"
  by simp

lemma exact_read_bytes [exact_intros]: "exact (read_bytes n)"
  unfolding exact_def
proof (intro allI impI)
  fix bs v rest assume "read_bytes n bs = Some (Inr (v, rest))"
  then have "bs = v @ rest" "length v = n" by (auto simp: read_bytes_def split: if_splits)
  then show "\<exists>used. bs = used @ rest \<and> (\<forall>r. read_bytes n (used @ r) = Some (Inr (v, r))) \<and>
      (\<forall>k<length used. read_bytes n (take k used) = Some (Inl TruncatedInput))"
    by (intro exI [of _ v]) (simp add: read_bytes_append, simp add: read_bytes_def)
qed

lemma exact_dbind [exact_intros]:
  assumes "exact d" "\<And>x. exact (f x)"
  shows "exact (dbind d f)"
  unfolding exact_def
proof (intro allI impI)
  fix bs v rest assume "dbind d f bs = Some (Inr (v, rest))"
  then obtain x mid where x: "d bs = Some (Inr (x, mid))" and f: "f x mid = Some (Inr (v, rest))"
    by (auto simp: dbind_def split: option.splits sum.splits)
  obtain u1 where u1: "bs = u1 @ mid" "\<And>r. d (u1 @ r) = Some (Inr (x, r))"
    "\<And>k. k < length u1 \<Longrightarrow> d (take k u1) = Some (Inl TruncatedInput)"
    by (rule exactE [OF assms(1) x]) blast
  obtain u2 where u2: "mid = u2 @ rest" "\<And>r. f x (u2 @ r) = Some (Inr (v, r))"
    "\<And>k. k < length u2 \<Longrightarrow> f x (take k u2) = Some (Inl TruncatedInput)"
    by (rule exactE [OF assms(2) f]) blast
  have "dbind d f (take k (u1 @ u2)) = Some (Inl TruncatedInput)" if k: "k < length (u1 @ u2)" for k
  proof (cases "k < length u1")
    case True
    then show ?thesis using u1(3) by (simp add: dbind_def)
  next
    case False
    then show ?thesis using u1(2) u2(3) [of "k - length u1"] k by (simp add: dbind_def)
  qed
  then show "\<exists>used. bs = used @ rest \<and> (\<forall>r. dbind d f (used @ r) = Some (Inr (v, r))) \<and>
      (\<forall>k<length used. dbind d f (take k used) = Some (Inl TruncatedInput))"
    using u1(1,2) u2(1,2) by (intro exI [of _ "u1 @ u2"]) (simp add: dbind_def)
qed

lemma exact_drepeat [exact_intros]: "exact d \<Longrightarrow> exact (drepeat n d)"
  by (induction n) (auto intro!: exact_intros)

lemma exact_prim [exact_intros]:
  "exact dec_u8" "exact dec_u32" "exact dec_i32" "exact dec_u64" "exact dec_bool"
  unfolding dec_u8_def dec_u32_def dec_i32_def dec_u64_def dec_bool_def dmap_def by (intro exact_intros)+

lemma exact_from_utf8 [exact_intros]: "exact (from_utf8 bs)"
  unfolding from_utf8_def [abs_def] exact_def by (auto simp: dfail_def split: if_splits)

lemma exact_strings [exact_intros]: "exact dec_string" "exact dec_opt_string"
  unfolding dec_string_def dec_opt_string_def dmap_def by (intro exact_intros)+

lemma exact_dec_list [exact_intros]: "exact d \<Longrightarrow> exact (dec_list d)"
  unfolding dec_list_def by (intro exact_intros)

lemma exact_dec_opt [exact_intros]: "exact d \<Longrightarrow> exact (dec_opt d)"
  unfolding dec_opt_def dmap_def by (intro exact_intros)

lemma exact_enums [exact_intros]:
  "exact (decode_float_kind tag)" "exact (decode_linkage tag)" "exact (decode_mem_ordering tag)"
  "exact (decode_rmw_op tag)" "exact (decode_int_pred tag)" "exact (decode_float_pred tag)"
  unfolding decode_enum_defs by (intro exact_intros)+

lemma exact_refs [exact_intros]:
  "exact (map_id tm i)" "exact (dec_ty tm)" "exact decode_vref" "exact dec_flags" "exact dec_incoming"
  "exact (decode_clause tm)" "exact dec_word64"
  unfolding map_id_def dec_ty_def decode_vref_def dec_flags_def dec_incoming_def decode_clause_def
    dec_word64_def dmap_defs
  by (intro exact_intros)+

lemma exact_records [exact_intros]:
  "exact (decode_type tm)" "exact (decode_const_op tm)" "exact (decode_global tm cm)"
  "exact (decode_arg tm)" "exact decode_block"
  unfolding decode_type_def decode_const_op_def decode_global_def decode_arg_def decode_block_def
    map_id_def dec_ty_def dmap_defs
  by (intro exact_intros)+

lemma exact_const [exact_intros]: "exact (decode_const tm cm)"
  unfolding decode_const_def dmap_defs by (intro exact_intros)

lemma exact_kind [exact_intros]: "exact (decode_kind tm tag)"
  unfolding decode_kind_def dmap_defs by (intro exact_intros)

lemma exact_instr [exact_intros]: "exact (decode_instr tm)"
  unfolding decode_instr_def dmap_defs by (intro exact_intros)

lemma exact_read_instrs [exact_intros]: "exact (read_instrs n tm f)"
  by (induction n arbitrary: f) (auto intro!: exact_intros)

lemma exact_strictfp:
  assumes "\<And>b. exact (f b)" "\<And>b. f b [] = Some (Inl TruncatedInput)"
  shows "exact (dbind dec_strictfp f)"
proof -
  have "dbind dec_strictfp f bs = dbind dec_bool f bs" for bs
  proof (cases bs)
    case Nil
    then show ?thesis
      using assms(2) by (simp add: dbind_def dec_strictfp_def dec_bool_def dec_u8_def dmap_def read_bytes_def)
  next
    case (Cons b bs')
    then show ?thesis by (simp add: dbind_def dec_strictfp_def dec_bool_def dec_u8_def dmap_def read_bytes_def)
  qed
  then have "dbind dec_strictfp f = dbind dec_bool f" by blast
  then show ?thesis using assms(1) by (simp add: exact_intros)
qed

lemma exact_function [exact_intros]: "exact (decode_function tm)"
  unfolding decode_function_def read_pool_def Let_def
  by (intro exact_intros exact_strictfp)
    (simp_all add: dbind_def dec_list_def dec_u32_def dmap_def read_bytes_def)

lemma exact_read_types [exact_intros]: "exact (read_types n ctx tm)"
  by (induction n arbitrary: ctx tm) (auto intro!: exact_intros split: prod.split)

lemma exact_read_consts [exact_intros]: "exact (read_consts n tm ctx cm)"
  by (induction n arbitrary: ctx cm) (auto intro!: exact_intros simp: push_const_def)

lemma exact_read_functions [exact_intros]: "exact (read_functions n tm m)"
  by (induction n arbitrary: m) (auto intro!: exact_intros)

lemma exact_read_module: "exact read_module"
  unfolding read_module_def Let_def split_def by (intro exact_intros)

section \<open>Decoders that always answer\<close>

definition panic_free :: "'a decoder \<Rightarrow> bool" where
  "panic_free d \<longleftrightarrow> (\<forall>bs. d bs \<noteq> None)"

named_theorems panic_free_intros

lemma panic_free_basic [panic_free_intros]:
  "panic_free (dret x)" "panic_free (dfail e)" "panic_free (read_bytes n)" "panic_free (from_utf8 bs)"
  by (auto simp: panic_free_def dfail_def read_bytes_def from_utf8_def)

lemma panic_free_if [panic_free_intros]:
  "panic_free d \<Longrightarrow> panic_free e \<Longrightarrow> panic_free (if b then d else e)"
  by simp

lemma panic_free_dbind [panic_free_intros]:
  "panic_free d \<Longrightarrow> (\<And>x. panic_free (f x)) \<Longrightarrow> panic_free (dbind d f)"
  unfolding panic_free_def dbind_def by (auto split: option.split sum.split)

lemma panic_free_dbind_post:
  assumes "panic_free d" "\<And>bs x r. d bs = Some (Inr (x, r)) \<Longrightarrow> panic_free (f x)"
  shows "panic_free (dbind d f)"
  using assms unfolding panic_free_def dbind_def by (fastforce split: option.split sum.split)

lemma panic_free_drepeat [panic_free_intros]: "panic_free d \<Longrightarrow> panic_free (drepeat n d)"
  by (induction n) (auto intro!: panic_free_intros)

lemma panic_free_prim [panic_free_intros]:
  "panic_free dec_u8" "panic_free dec_u32" "panic_free dec_i32" "panic_free dec_u64" "panic_free dec_bool"
  "panic_free dec_string" "panic_free dec_opt_string"
  unfolding dec_u8_def dec_u32_def dec_i32_def dec_u64_def dec_bool_def dec_string_def dec_opt_string_def
    dmap_def
  by (intro panic_free_intros)+

lemma panic_free_lists [panic_free_intros]:
  "panic_free d \<Longrightarrow> panic_free (dec_list d)" "panic_free d \<Longrightarrow> panic_free (dec_opt d)"
  unfolding dec_list_def dec_opt_def dmap_def by (intro panic_free_intros, assumption)+

lemma panic_free_enums [panic_free_intros]:
  "panic_free (decode_float_kind tag)" "panic_free (decode_linkage tag)" "panic_free (decode_mem_ordering tag)"
  "panic_free (decode_rmw_op tag)" "panic_free (decode_int_pred tag)" "panic_free (decode_float_pred tag)"
  unfolding decode_enum_defs by (intro panic_free_intros)+

lemma panic_free_refs [panic_free_intros]:
  "panic_free (map_id tm i)" "panic_free (dec_ty tm)" "panic_free decode_vref" "panic_free dec_flags"
  "panic_free dec_incoming" "panic_free (decode_clause tm)" "panic_free dec_word64"
  unfolding map_id_def dec_ty_def decode_vref_def dec_flags_def dec_incoming_def decode_clause_def
    dec_word64_def dmap_defs
  by (intro panic_free_intros)+

lemma panic_free_records [panic_free_intros]:
  "panic_free (decode_type tm)" "panic_free (decode_const_op tm)" "panic_free (decode_global tm cm)"
  "panic_free (decode_arg tm)" "panic_free decode_block"
  unfolding decode_type_def decode_const_op_def decode_global_def decode_arg_def decode_block_def
    map_id_def dec_ty_def dmap_defs
  by (intro panic_free_intros)+

lemma panic_free_const [panic_free_intros]: "panic_free (decode_const tm cm)"
  unfolding decode_const_def dmap_defs by (intro panic_free_intros)

lemma panic_free_instr [panic_free_intros]: "panic_free (decode_instr tm)"
  unfolding decode_instr_def decode_kind_def dmap_defs by (intro panic_free_intros)

lemma decode_instr_named:
  "decode_instr tm bs = Some (Inr (ins, r)) \<Longrightarrow> instr_name ins \<noteq> Some []"
  by (auto simp: decode_instr_def dmap_defs dbind_def dec_opt_string_def read_bytes_def from_utf8_def dfail_def
      split: option.splits sum.splits if_splits)

lemma panic_free_dlift: "r = Some x \<Longrightarrow> panic_free (dlift r)"
  by (simp add: panic_free_def)

lemma panic_free_read_instrs [panic_free_intros]: "panic_free (read_instrs n tm f)"
proof (induction n arbitrary: f)
  case (Suc n)
  have "panic_free (dbind (dlift (alloc_instr f ins)) (\<lambda>p. read_instrs n tm (fst p)))"
    if "instr_name ins \<noteq> Some []" for ins
  proof -
    obtain p where "alloc_instr f ins = Some p"
      using \<open>instr_name ins \<noteq> Some []\<close> by (cases "instr_name ins") (auto simp: alloc_instr_def Let_def)
    then show ?thesis using Suc.IH by (intro panic_free_dbind panic_free_dlift)
  qed
  then show ?case
    using decode_instr_named unfolding read_instrs.simps by (intro panic_free_dbind_post [OF panic_free_instr]) blast
qed (simp add: panic_free_intros)

lemma panic_free_strictfp [panic_free_intros]: "panic_free dec_strictfp"
  using panic_free_prim(5) by (auto simp: panic_free_def dec_strictfp_def split: option.split sum.split)

lemma panic_free_function [panic_free_intros]: "panic_free (decode_function tm)"
  unfolding decode_function_def read_pool_def Let_def by (intro panic_free_intros)

lemma panic_free_read_consts [panic_free_intros]: "panic_free (read_consts n tm ctx cm)"
  by (induction n arbitrary: ctx cm) (auto intro!: panic_free_intros simp: push_const_def)

lemma panic_free_read_functions [panic_free_intros]: "panic_free (read_functions n tm m)"
  by (induction n arbitrary: m) (auto intro!: panic_free_intros)

definition named_in_range :: "ir_context \<Rightarrow> bool" where
  "named_in_range ctx \<longleftrightarrow> (\<forall>n i. named_struct_map ctx n = Some i \<longrightarrow> i < length (types ctx))"

lemma as_u32_le: "as_u32 n \<le> n"
  by (simp add: as_u32_def)

lemma intern_anon_range: "named_in_range ctx \<Longrightarrow> named_in_range (fst (intern_anon ctx td))"
  by (cases rule: intern_anon_cases [of ctx td]) (auto simp: named_in_range_def intro: less_SucI)

lemma intern_anon_answers:
  "named_in_range ctx \<Longrightarrow> \<exists>ctx'. (\<exists>i. intern_anon ctx td = (ctx', i)) \<and> named_in_range ctx'"
  using intern_anon_range [of ctx td] by (cases "intern_anon ctx td") auto

lemma intern_named_range:
  assumes "named_in_range ctx" "mk_struct_named ctx n = (ctx', i)"
  shows "named_in_range ctx' \<and> i < length (types ctx')"
  using assms as_u32_le [of "length (types ctx)"]
  by (cases "named_struct_map ctx n")
    (auto simp: named_in_range_def mk_struct_named_def Let_def le_imp_less_Suc less_SucI split: if_splits)

lemma define_struct_body_range:
  assumes "named_in_range ctx" "i < length (types ctx)"
  shows "\<exists>ctx'. define_struct_body ctx i flds packed = Some ctx' \<and> named_in_range ctx'"
  using assms by (cases "types ctx ! i") (auto simp: define_struct_body_def named_in_range_def)

lemma intern_type_answers:
  assumes "named_in_range ctx"
  obtains ctx' i where "intern_type ctx td = Some (ctx', i)" "named_in_range ctx'"
proof -
  have "\<exists>ctx' i. intern_type ctx td = Some (ctx', i) \<and> named_in_range ctx'"
  proof (cases td)
    case (TyStruct st)
    show ?thesis
    proof (cases "st_name st")
      case None
      then show ?thesis
        using TyStruct intern_anon_answers [OF assms] by (simp add: intern_type_def mk_struct_anon_def)
    next
      case (Some n)
      obtain c1 i where c1: "mk_struct_named ctx n = (c1, i)" by fastforce
      with define_struct_body_range intern_named_range [OF assms c1] TyStruct Some show ?thesis
        by (fastforce simp: intern_type_def)
    qed
  qed (use intern_anon_answers [OF assms] assms in
      \<open>simp_all add: intern_type_def mk_int_def mk_float_def mk_ptr_def mk_label_def mk_metadata_def
        mk_array_def mk_vector_def mk_fn_type_def\<close>)
  then show ?thesis using that by blast
qed

lemma panic_free_read_types:
  "named_in_range ctx \<Longrightarrow> panic_free (read_types n ctx tm)"
proof (induction n arbitrary: ctx tm)
  case (Suc n)
  have "panic_free (dbind (dlift (intern_type ctx td)) (\<lambda>(ctx, i). read_types n ctx (tm @ [i])))" for td
  proof -
    obtain ctx' i where "intern_type ctx td = Some (ctx', i)" "named_in_range ctx'"
      by (rule intern_type_answers [OF Suc.prems])
    then show ?thesis using Suc.IH [of ctx' "tm @ [i]"] by (simp add: panic_free_def dbind_def)
  qed
  then show ?case unfolding read_types.simps by (rule panic_free_dbind [OF panic_free_records(1)])
qed (simp add: panic_free_intros)

lemma panic_free_read_module: "panic_free read_module"
proof -
  have "named_in_range context_new"
    by (simp add: named_in_range_def context_new_def intern_anon_def empty_context_def)
  note panic_free_read_types [OF this, panic_free_intros]
  then show ?thesis
    unfolding read_module_def Let_def split_def by (intro panic_free_intros)
qed

section \<open>Properties\<close>

text \<open>C8: The LRIR format round-trips for modules that it can express (\<open>serialisable\<close>): the context is
  well formed, types refer to types before them, constants to types and constants before them, names are
  non-empty where they are optional, and every index and length fits in 32 bits. Reading such a written
  module gives back the types and the constants in order, though not the table that finds a constant, and
  the module without what the format does not store, which includes fast-math flags and debug data, its
  name tables rebuilt.\<close>

lemma lrir_round_trip:
  assumes "serialisable ctx m"
  shows "read_bitcode (write_bitcode ctx m) = Some (Inr (stored_context ctx, stored_module m))"
  using assms by (rule read_write_bitcode)

text \<open>C21: The reader never panics: every byte sequence gives a module or an error.\<close>

lemma lrir_reader_panic_free: "read_bitcode bs \<noteq> None"
  using panic_free_read_module by (auto simp: panic_free_def read_bitcode_def split: option.split sum.split)

text \<open>C22: A written file of a module that the format can express (\<open>serialisable\<close>) is rejected as truncated
  when it is cut anywhere, and bytes after its end are ignored.\<close>

lemma lrir_cut_file_truncated:
  assumes "serialisable ctx m" "k < length (write_bitcode ctx m)"
  shows "read_bitcode (take k (write_bitcode ctx m)) = Some (Inl TruncatedInput) \<and>
     read_bitcode (write_bitcode ctx m @ rest) = read_bitcode (write_bitcode ctx m)"
proof -
  let ?f = "write_bitcode ctx m" and ?r = "(stored_context ctx, stored_module m)"
  have whole: "read_module ?f = Some (Inr (?r, []))" using read_module_enc [OF assms(1), of "[]"] by simp
  obtain used where "?f = used @ []" "\<And>k. k < length used \<Longrightarrow> read_module (take k used) = Some (Inl TruncatedInput)"
    by (rule exactE [OF exact_read_module whole]) blast
  then have "read_bitcode (take k ?f) = Some (Inl TruncatedInput)" using assms(2) by (simp add: read_bitcode_def)
  moreover have "read_bitcode (?f @ rest) = read_bitcode ?f"
    using read_module_enc [OF assms(1), of rest] whole by (simp add: read_bitcode_def)
  ultimately show ?thesis ..
qed

section \<open>An example file\<close>

text \<open>A context with a named struct, a function type and a constant; a module with a global and a
  function \<open>f(x) = x + 42\<close>.\<close>

definition ex_context :: ir_context where
  "ex_context =
     (let c = fst (mk_struct_named context_new ''pair'');
          c = the (define_struct_body c 10 [4, 8] False);
          c = fst (mk_fn_type c 4 [4] False)
      in fst (const_int c 4 42))"

definition ex_function :: ir_function where
  "ex_function =
     (function_new ''f'' 11 [\<lparr>arg_name = ''x'', arg_ty = 4, arg_index = 0\<rparr>] External)
       \<lparr>instructions :=
          [\<lparr>instr_name = Some ''y'', instr_ty = 4,
             instr_kind = Add \<lparr>nuw = False, nsw = True\<rparr> (Argument 0) (Constant 0)\<rparr>,
           \<lparr>instr_name = None, instr_ty = 0, instr_kind = Ret (Some (Instruction 0))\<rparr>],
        value_names := [''y'' \<mapsto> 0],
        blocks := [\<lparr>bb_name = ''entry'', bb_body = [0], bb_terminator = Some 1\<rparr>]\<rparr>"

definition ex_module :: ir_module where
  "ex_module =
     fst (add_function
       (fst (add_global (module_new ''m'')
         \<lparr>gv_name = ''g'', gv_ty = 4, gv_initializer = Some 0, gv_is_constant = True, gv_linkage = Internal\<rparr>))
       ex_function)"

lemma types_ex_context:
  "types ex_context = types context_new @
     [TyStruct (StructType (Some ''pair'') [4, 8] False), TyFunction (FunctionType 4 [4] False)]"
  and constants_ex_context: "constants ex_context = [CInt 4 42]"
  and wf_ex_context: "wf_context ex_context"
proof -
  define c1 where "c1 = fst (mk_struct_named context_new ''pair'')"
  define c2 where "c2 = the (define_struct_body c1 10 [4, 8] False)"
  define c3 where "c3 = fst (mk_fn_type c2 4 [4] False)"
  have n: "named_struct_map context_new = Map.empty" "constants context_new = []" "const_map context_new = Map.empty"
    by (simp_all add: context_new_def intern_anon_def empty_context_def)
  have l: "length (types context_new) = 10" by (simp add: types_context_new)
  have m1: "mk_struct_named context_new ''pair'' = (c1, 10)"
    by (simp add: c1_def mk_struct_named_def n l)
  have c1: "types c1 = types context_new @ [TyStruct (StructType (Some ''pair'') [] False)]"
    "named_struct_map c1 ''pair'' = Some 10" "constants c1 = []" "const_map c1 = Map.empty"
    "type_map c1 = type_map context_new"
    using l by (simp_all add: c1_def mk_struct_named_def n)
  have w1: "wf_context c1" by (rule mk_struct_named_wf [OF context_new_wf _ m1]) (simp add: l)
  have d2: "define_struct_body c1 10 [4, 8] False = Some c2"
    by (simp add: c2_def define_struct_body_def c1 l nth_append vec_get_def)
  have c2: "types c2 = types context_new @ [TyStruct (StructType (Some ''pair'') [4, 8] False)]"
    "constants c2 = []" "const_map c2 = Map.empty" "type_map c2 = type_map context_new"
    using d2 c1 l by (auto simp: define_struct_body_def nth_append vec_get_def list_update_append)
  have w2: "wf_context c2" using define_struct_body_named_wf [OF w1 d2 c1(2)] by simp
  have tm: "type_map c2 (TyFunction ft) = None" for ft
    using c2(4) by (simp add: type_map_context_new upt_rec)
  have w3: "wf_context c3"
    unfolding c3_def mk_fn_type_def
    by (rule intern_anon_wf [OF w2 _ _ prod.collapse [symmetric]]) (simp_all add: c2(1) l)
  have c3: "types c3 = types c2 @ [TyFunction (FunctionType 4 [4] False)]" "constants c3 = []"
    "const_map c3 = Map.empty"
    using tm by (simp_all add: c3_def mk_fn_type_def intern_anon_def c2 Let_def)
  have e: "ex_context = fst (const_int c3 4 42)"
    by (simp add: ex_context_def c1_def c2_def c3_def)
  show "types ex_context = types context_new @
     [TyStruct (StructType (Some ''pair'') [4, 8] False), TyFunction (FunctionType 4 [4] False)]"
    and "constants ex_context = [CInt 4 42]"
    using c3 c2 by (simp_all add: e const_int_def intern_const_def)
  show "wf_context ex_context"
    unfolding e const_makers_intern_key
    by (rule intern_key_wf [OF w3 _ prod.collapse [symmetric]]) (simp add: c3)
qed

lemmas ok_defs =
  string_ok_def name_ok_def list_ok_def opt_ok_def u32_ok_def utf8_string_def utf8_valid.simps

lemma context_ok_ex: "context_ok ex_context"
  unfolding context_ok_def types_ex_context constants_ex_context
  by (simp add: wf_ex_context types_context_new ok_defs less_Suc_eq All_less_Suc2)

lemma serialisable_ex: "serialisable ex_context ex_module"
  by (simp add: serialisable_def context_ok_ex types_ex_context constants_ex_context types_context_new
      ex_module_def add_function_def add_global_def module_new_def global_ok_def function_ok_def arg_ok_def
      block_ok_def instr_ok_def ok_defs ex_function_def function_new_fields)

text \<open>The example file is read back, and rejected when its last byte is missing.\<close>

lemma lrir_round_trip_witness:
  "read_bitcode (write_bitcode ex_context ex_module) = Some (Inr (stored_context ex_context, stored_module ex_module))"
  by (rule lrir_round_trip [OF serialisable_ex])

lemma write_bitcode_nonempty: "0 < length (write_bitcode ctx m)"
  by (simp add: write_bitcode_def magic_def)

lemma lrir_cut_file_truncated_witness:
  "read_bitcode (take (length (write_bitcode ex_context ex_module) - 1) (write_bitcode ex_context ex_module)) =
     Some (Inl TruncatedInput) \<and>
   read_bitcode (write_bitcode ex_context ex_module @ [1]) = read_bitcode (write_bitcode ex_context ex_module)"
  by (rule lrir_cut_file_truncated [OF serialisable_ex]) (use write_bitcode_nonempty [of ex_context ex_module] in simp)

section \<open>What the format loses and rejects\<close>

text \<open>The table that makes equal constants share an index is not rebuilt: a constant the context had
  interned gets a second index in the context read back.\<close>

lemma lrir_constants_not_shared:
  assumes "context_ok ctx" "const_map ctx k = Some i"
  shows "snd (intern_key ctx k) = i \<and> snd (intern_key (stored_context ctx) k) = length (constants ctx) \<and>
     i < length (constants ctx)"
proof -
  have "i < length (constants ctx)" "length (constants ctx) < 2 ^ 32"
    using assms by (auto simp: context_ok_def wf_context_defs)
  then show ?thesis
    using assms(2) by (simp add: intern_key_def intern_const_def stored_context_def Let_def)
qed

lemma const_map_ex: "const_map ex_context (KInt 4 42) = Some 0"
proof -
  have n: "named_struct_map context_new = Map.empty" "constants context_new = []" "const_map context_new = Map.empty"
    by (simp_all add: context_new_def intern_anon_def empty_context_def)
  have l: "length (types context_new) = 10" by (simp add: types_context_new)
  have t: "type_map context_new (TyFunction ft) = None" for ft by (simp add: type_map_context_new upt_rec)
  show ?thesis
    by (simp add: ex_context_def const_int_def intern_const_def mk_fn_type_def intern_anon_def
        define_struct_body_def mk_struct_named_def n l t Let_def nth_append vec_get_def)
qed

lemma lrir_constants_not_shared_witness:
  "snd (intern_key ex_context (KInt 4 42)) = 0 \<and> snd (intern_key (stored_context ex_context) (KInt 4 42)) = 1"
  using lrir_constants_not_shared [OF context_ok_ex const_map_ex] by (simp add: constants_ex_context)

text \<open>Fast-math flags are not written: a floating-point addition comes back with all of them off.\<close>

lemma lrir_fast_math_lost:
  assumes "n \<le> 2 ^ 32" "instr_ok n ins" "instr_kind ins = FAdd flags lhs rhs"
  shows "decode_instr [0..<n] (encode_instr ins @ rest) =
     Some (Inr (ins\<lparr>instr_kind := FAdd fast_math_default lhs rhs\<rparr>, rest))"
  using decode_instr_enc [OF assms(1,2), of rest] assms(3) by (simp add: erase_instr_def erase_kind_def)

lemma lrir_fast_math_lost_witness:
  "decode_instr [0..<10]
     (encode_instr \<lparr>instr_name = None, instr_ty = 6,
        instr_kind = FAdd (fast_math_default\<lparr>fast := True\<rparr>) (Argument 0) (Argument 1)\<rparr>) =
   Some (Inr (\<lparr>instr_name = None, instr_ty = 6, instr_kind = FAdd fast_math_default (Argument 0) (Argument 1)\<rparr>, []))"
  using lrir_fast_math_lost [of 10 "\<lparr>instr_name = None, instr_ty = 6,
        instr_kind = FAdd (fast_math_default\<lparr>fast := True\<rparr>) (Argument 0) (Argument 1)\<rparr>"
      "fast_math_default\<lparr>fast := True\<rparr>" "Argument 0" "Argument 1" "[]"]
  by (simp add: instr_ok_def ok_defs)

lemma read_types_add:
  "read_types (k + n) ctx tm = dbind (read_types k ctx tm) (\<lambda>(ctx, tm). read_types n ctx tm)"
proof (induction k arbitrary: ctx tm)
  case (Suc k)
  show ?case by (rule ext) (simp add: Suc dbind_def split: option.split sum.split)
qed (simp add: dbind_def fun_eq_iff)

lemma dec_ty_beyond:
  "n \<le> t \<Longrightarrow> t < 2 ^ 32 \<Longrightarrow> dec_ty [0..<n] (enc_u32 t @ rest) = Some (Inl ParseError)"
  by (simp add: dec_ty_def map_id_def dbind_def dfail_def)

lemma dec_fields_beyond:
  assumes "n \<le> 2 ^ 32" "t \<in> set ts" "n \<le> t" "list_ok u32_ok ts"
  shows "dec_list (dec_ty [0..<n]) (enc_list enc_u32 ts @ rest) = Some (Inl ParseError)"
proof -
  have "drepeat (length ts) (dec_ty [0..<n]) (concat (map enc_u32 ts) @ rest) = Some (Inl ParseError)"
    using assms(2-)
  proof (induction ts)
    case (Cons a ts)
    show ?case
    proof (cases "a < n")
      case True
      then show ?thesis
        using Cons assms(1) by (auto simp: dbind_def dec_ty_enc list_ok_def)
    next
      case False
      then show ?thesis using Cons.prems by (simp add: dbind_def dec_ty_beyond list_ok_def u32_ok_def)
    qed
  qed simp
  then show ?thesis using assms(4) by (simp add: dec_list_def enc_list_def dbind_def list_ok_def)
qed

text \<open>A struct whose body names a type created later cannot be read back. Take a context whose types
  start with those of a readable context \<open>c\<close>, followed by a struct with a field of a type that comes after
  them: whatever the module, the reader rejects the file.\<close>

lemma lrir_forward_struct_rejected:
  assumes "context_ok c" "types ctx = types c @ TyStruct (StructType nm flds packed) # later"
    and "length (types ctx) < 2 ^ 32" "name_ok nm" "list_ok u32_ok flds"
    and "t \<in> set flds" "length (types c) \<le> t"
  shows "read_bitcode (write_bitcode ctx m) = Some (Inl ParseError)"
proof -
  let ?n = "length (types c)"
  let ?r = "encode_type (TyStruct (StructType nm flds packed)) @ concat (map encode_type later) @
    enc_list encode_const (constants ctx) @ enc_list encode_global (globals m) @ enc_string (m_name m) @
    enc_list encode_function (m_functions m)"
  obtain c' where ty: "read_types ?n context_new [] (concat (map encode_type (types c)) @ ?r) =
      Some (Inr ((c', [0..<?n]), ?r))"
    using read_types_enc [OF assms(1) reader_ctx_start [OF assms(1)], of ?n ?r] by auto
  have "decode_type [0..<?n] ?r = Some (Inl ParseError)"
    using assms(3-) dec_fields_beyond [of ?n t flds]
    by (simp add: assms(2) decode_type_def dmap_defs dbind_def record_roundtrips)
  then have "read_types (?n + Suc (length later)) context_new [] (concat (map encode_type (types c)) @ ?r) =
      Some (Inl ParseError)"
    unfolding read_types_add by (simp only: dbind_def ty prod.case option.case sum.case read_types.simps)
  then show ?thesis
    using assms(3)
    by (simp add: read_bitcode_def read_module_def write_bitcode_def dbind_def read_bytes_magic types_iter_snd
        num_types_def assms(2))
qed

text \<open>The context that \<open>%A = type { %B }\<close>, \<open>%B = type { i32 }\<close> leads to.\<close>

definition forward_context :: ir_context where
  "forward_context =
     (let (c, a) = mk_struct_named context_new ''A'';
          (c, b) = mk_struct_named c ''B'';
          c = the (define_struct_body c a [b] False)
      in the (define_struct_body c b [4] False))"

lemma types_forward_context:
  "types forward_context = types context_new @
     TyStruct (StructType (Some ''A'') [11] False) # [TyStruct (StructType (Some ''B'') [4] False)]"
proof -
  have n: "named_struct_map context_new = Map.empty" by (simp add: context_new_def intern_anon_def empty_context_def)
  have l: "length (types context_new) = 10" by (simp add: types_context_new)
  show ?thesis
    by (simp add: forward_context_def mk_struct_named_def n l define_struct_body_def vec_get_def nth_append
        list_update_append)
qed

lemma context_ok_new: "context_ok context_new"
proof -
  have "constants context_new = []" by (simp add: context_new_def intern_anon_def empty_context_def)
  moreover have "\<forall>td\<in>set (types context_new). type_ok i td" for i
    by (simp add: types_context_new u32_ok_def)
  then have "type_ok i (types context_new ! i)" if "i < length (types context_new)" for i
    using nth_mem [OF that] by blast
  moreover have "length (types context_new) = 10" by (simp add: types_context_new)
  ultimately show ?thesis by (simp add: context_ok_def context_new_wf)
qed

lemma lrir_forward_struct_rejected_witness:
  "read_bitcode (write_bitcode forward_context (module_new ''m'')) = Some (Inl ParseError)"
proof (rule lrir_forward_struct_rejected [OF context_ok_new types_forward_context])
  show "length (types forward_context) < 2 ^ 32" by (simp add: types_forward_context types_context_new)
  show "name_ok (Some ''A'')" by (simp add: ok_defs)
  show "list_ok u32_ok [11]" by (simp add: list_ok_def u32_ok_def)
  show "11 \<in> set [11::nat]" by simp
  show "length (types context_new) \<le> 11" by (simp add: types_context_new)
qed

text \<open>A function record of the older format, without the \<open>strictfp\<close> byte, is not accepted: the first
  byte of the argument count is taken for the flag and every later field is misread.\<close>

definition old_declaration :: "byte list" where
  "old_declaration =
     enc_string ''f'' @ enc_u32 0 @ enc_u8 (encode_linkage External) @ enc_bool True @
     enc_u32 0 @ enc_u32 0 @ enc_u32 0"

lemma lrir_old_function_rejected:
  "decode_function [0..<10] old_declaration = Some (Inl TruncatedInput)"
proof -
  have four: "(4::nat) = Suc (Suc (Suc (Suc 0)))" by simp
  have z: "enc_u32 0 = [0, 0, 0, 0]" unfolding enc_u32_def four by simp
  have f: "dec_strictfp (0 # bs) = Some (Inr (False, bs))" for bs
    by (simp add: dec_strictfp_def dec_bool_def dec_u8_def dmap_def dbind_def read_bytes_def)
  have u: "dec_u32 (0 # 0 # 0 # 0 # bs) = Some (Inr (0, bs))" "dec_u32 [0, 0, 0] = Some (Inl TruncatedInput)" for bs
    by (simp_all add: dec_u32_def dmap_def dbind_def read_bytes_def)
  have d: "old_declaration = enc_string ''f'' @ enc_u32 0 @ enc_u8 (encode_linkage External) @ enc_bool True @
      [0, 0, 0, 0, 0, 0, 0, 0, 0, 0, 0, 0]"
    unfolding old_declaration_def using z by simp
  have s: "dec_string (enc_string ''f'' @ r) = Some (Inr (''f'', r))" for r
    by (rule string_roundtrips) (simp add: ok_defs)
  have "dec_ty [0..<10] (enc_u32 0 @ r) = Some (Inr (0, r))" for r by (rule dec_ty_enc) simp_all
  with s show ?thesis
    unfolding d
    by (simp add: decode_function_def dbind_def f u dec_list_def read_pool_def Let_def del: encode_linkage.simps)
qed

end
