(* ===== verification/Codegen_Leb128.thy ===== *)
theory Codegen_Leb128
  imports LRIR_Codec
begin

unbundle bit_operations_syntax

text \<open>
  The variable-length integers of DWARF and WebAssembly, written twice in the code
  (\<open>llvm-codegen/src/lsda.rs\<close>, \<open>llvm-target-wasm/src/encode.rs\<close>). The reference decoders
  \<open>dec_uleb\<close> and \<open>dec_sleb\<close> follow the DWARF specification; both writers are instances of
  \<open>codec\<close> with them, and the two implementations write the same bytes.
\<close>

section \<open>The writers\<close>

function write_uleb128 :: "nat \<Rightarrow> byte list" where
  "write_uleb128 val =
     (let b = of_nat (val mod 128) :: byte; val' = val div 128
      in if val' \<noteq> 0 then (b OR 0x80) # write_uleb128 val' else [b])"
  by pat_completeness auto
termination write_uleb128
  by (relation "measure id") auto

function write_sleb128 :: "int \<Rightarrow> byte list" where
  "write_sleb128 val =
     (let b = word_of_int (val mod 128) :: byte; val' = val div 128;
          more = (\<not> ((val' = 0 \<and> b AND 0x40 = 0) \<or> (val' = -1 \<and> b AND 0x40 \<noteq> 0)))
      in if more then (b OR 0x80) # write_sleb128 val' else [b])"
  by pat_completeness auto

function leb128_u :: "nat \<Rightarrow> byte list" where
  "leb128_u v =
     (let b = of_nat (v mod 128) :: byte; v' = v div 128
      in if v' = 0 then [b] else (b OR 0x80) # leb128_u v')"
  by pat_completeness auto
termination leb128_u
  by (relation "measure id") auto

function leb128_s :: "int \<Rightarrow> byte list" where
  "leb128_s v =
     (let b = word_of_int (v mod 128) :: byte; v' = v div 128;
          fin = ((v' = 0 \<and> b AND 0x40 = 0) \<or> (v' = -1 \<and> b AND 0x40 \<noteq> 0))
      in if fin then [b] else (b OR 0x80) # leb128_s v')"
  by pat_completeness auto

text \<open>The bit 6 of the last group is the sign of the number.\<close>

definition sleb_size :: "int \<Rightarrow> nat" where
  "sleb_size v = nat (if v < 0 then - v - 1 else v)"

lemma or_128:
  fixes r :: int
  assumes "0 \<le> r" "r < 128"
  shows "r OR 128 = r + 128"
proof -
  have t: "take_bit 7 r = r" using assms by (simp add: take_bit_int_eq_self)
  have "\<not> bit r n \<or> \<not> bit (128::int) n" for n
  proof (cases "n < 7")
    case True
    have "(128::int) = 2 ^ 7" by simp
    then show ?thesis using True by (simp only: bit_exp_iff) simp
  next
    case False
    have "\<not> bit (take_bit 7 r) n" using False by (simp add: bit_take_bit_iff)
    then show ?thesis using t by simp
  qed
  then show ?thesis by (simp add: disjunctive_add)
qed

lemma group_cases:
  fixes r :: int
  assumes "0 \<le> r" "r < 128"
  shows "uint (word_of_int r :: byte) = r" and "(word_of_int r :: byte) AND 0x40 = 0 \<longleftrightarrow> r < 64"
    and "uint ((word_of_int r :: byte) OR 0x80) = r + 128"
proof -
  show u: "uint (word_of_int r :: byte) = r" using assms by (simp add: uint_word_of_int)
  have "r div 64 = (if r < 64 then 0 else 1)" using assms by auto
  then have "bit r 6 \<longleftrightarrow> \<not> r < 64" by (simp add: bit_iff_odd)
  moreover have "(0x40 :: byte) = 2 ^ 6" by simp
  ultimately show "(word_of_int r :: byte) AND 0x40 = 0 \<longleftrightarrow> r < 64"
    by (simp only: and_exp_eq_0_iff_not_bit) (simp add: bit_word_of_int_iff)
  show "uint ((word_of_int r :: byte) OR 0x80) = r + 128"
    by (simp add: unsigned_or_eq u or_128 assms)
qed

lemma group_nat:
  assumes "r < (128::nat)"
  shows "unat (of_nat r :: byte) = r" "unat ((of_nat r :: byte) OR 0x80) = r + 128"
proof -
  show "unat (of_nat r :: byte) = r" using assms by (simp add: unat_of_nat)
  have "int (unat ((of_nat r :: byte) OR 0x80)) = int (r + 128)"
    using group_cases(3) [of "int r"] assms by simp
  then show "unat ((of_nat r :: byte) OR 0x80) = r + 128" by (simp only: of_nat_eq_iff)
qed

lemma sleb_size_step:
  "\<not> (v div 128 = 0 \<and> v mod 128 < 64) \<Longrightarrow> \<not> (v div 128 = -1 \<and> 64 \<le> v mod 128) \<Longrightarrow>
     sleb_size (v div 128) < sleb_size v"
  unfolding sleb_size_def by (auto simp: zdiv_mono1) (presburger+)?

termination write_sleb128
proof (relation "measure sleb_size", simp)
  fix val b val' more
  assume "b = (word_of_int (val mod 128) :: byte)" "val' = val div 128"
    "more = (\<not> (val' = 0 \<and> b AND 0x40 = 0 \<or> val' = -1 \<and> b AND 0x40 \<noteq> 0))" "more"
  then show "(val', val) \<in> measure sleb_size"
    using group_cases(2) [of "val mod 128"] sleb_size_step [of val] by (auto simp: not_less)
qed

termination leb128_s
proof (relation "measure sleb_size", simp)
  fix v b v' fin
  assume "b = (word_of_int (v mod 128) :: byte)" "v' = v div 128"
    "fin = (v' = 0 \<and> b AND 0x40 = 0 \<or> v' = -1 \<and> b AND 0x40 \<noteq> 0)" "\<not> fin"
  then show "(v', v) \<in> measure sleb_size"
    using group_cases(2) [of "v mod 128"] sleb_size_step [of v] by (auto simp: not_less)
qed

declare write_uleb128.simps [simp del] write_sleb128.simps [simp del]
  leb128_u.simps [simp del] leb128_s.simps [simp del]

section \<open>One format\<close>

lemma leb128_u_eq: "leb128_u v = write_uleb128 v"
  by (induction v rule: leb128_u.induct) (subst leb128_u.simps, subst write_uleb128.simps, simp add: Let_def)

lemma leb128_s_eq: "leb128_s v = write_sleb128 v"
  by (induction v rule: leb128_s.induct) (subst leb128_s.simps, subst write_sleb128.simps, simp add: Let_def)

text \<open>The decoders of the specification.\<close>

fun dec_uleb :: "nat decoder" where
  "dec_uleb [] = Some (Inl TruncatedInput)"
| "dec_uleb (b # bs) =
     (if unat b < 128 then Some (Inr (unat b, bs))
      else (case dec_uleb bs of
              Some (Inr (hi, r)) \<Rightarrow> Some (Inr (unat b - 128 + 128 * hi, r))
            | e \<Rightarrow> e))"

fun dec_sleb :: "int decoder" where
  "dec_sleb [] = Some (Inl TruncatedInput)"
| "dec_sleb (b # bs) =
     (if uint b < 64 then Some (Inr (uint b, bs))
      else if uint b < 128 then Some (Inr (uint b - 128, bs))
      else (case dec_sleb bs of
              Some (Inr (hi, r)) \<Rightarrow> Some (Inr (uint b - 128 + 128 * hi, r))
            | e \<Rightarrow> e))"

section \<open>Round trips and sizes\<close>

lemma write_uleb128_step:
  assumes "v = r + 128 * q" "r < 128"
  shows "write_uleb128 v = (if q = 0 then [of_nat r] else (of_nat r OR 0x80) # write_uleb128 q)"
proof -
  have "v mod 128 = r" "v div 128 = q" using assms by simp_all
  then show ?thesis by (subst write_uleb128.simps) (simp only: Let_def, simp)
qed

lemma write_sleb128_step:
  assumes "v = r + 128 * q" "0 \<le> r" "r < 128"
  shows "write_sleb128 v =
    (if (q = 0 \<and> r < 64) \<or> (q = -1 \<and> 64 \<le> r) then [word_of_int r]
     else (word_of_int r OR 0x80) # write_sleb128 q)"
proof -
  have m: "v mod 128 = r" "v div 128 = q" using assms by simp_all
  show ?thesis
    by (subst write_sleb128.simps) (simp only: Let_def m group_cases(2) [OF assms(2,3)] not_less, simp)
qed

lemma dec_uleb_write: "dec_uleb (write_uleb128 v @ rest) = Some (Inr (v, rest))"
proof (induction v rule: less_induct)
  case (less v)
  obtain r q where v: "v = r + 128 * q" "r < 128" by (metis mod_less_divisor mult_div_mod_eq add.commute zero_less_numeral)
  have "q \<noteq> 0 \<Longrightarrow> dec_uleb (write_uleb128 q @ rest) = Some (Inr (q, rest))" using v by (intro less.IH) auto
  then show ?case
    unfolding write_uleb128_step [OF v] using group_nat [OF v(2)] v by simp
qed

lemma dec_sleb_write: "dec_sleb (write_sleb128 v @ rest) = Some (Inr (v, rest))"
proof (induction v rule: measure_induct_rule [of sleb_size])
  case (less v)
  define r q where "r = v mod 128" and "q = v div 128"
  then have v: "v = r + 128 * q" "0 \<le> r" "r < 128" by simp_all
  show ?case
  proof (cases "(q = 0 \<and> r < 64) \<or> (q = -1 \<and> 64 \<le> r)")
    case True
    then show ?thesis unfolding write_sleb128_step [OF v] using group_cases(1) [OF v(2,3)] v by auto
  next
    case False
    then have "dec_sleb (write_sleb128 q @ rest) = Some (Inr (q, rest))"
      using sleb_size_step [of v] by (intro less.IH) (auto simp: r_def q_def)
    then show ?thesis unfolding write_sleb128_step [OF v] using False group_cases(3) [OF v(2,3)] v by auto
  qed
qed

interpretation uleb: codec write_uleb128 dec_uleb "\<lambda>_. True"
  by unfold_locales (rule dec_uleb_write)

interpretation sleb: codec write_sleb128 dec_sleb "\<lambda>_. True"
  by unfold_locales (rule dec_sleb_write)

lemma write_uleb128_length:
  "0 < n \<Longrightarrow> v < 128 ^ n \<Longrightarrow> length (write_uleb128 v) \<le> n"
proof (induction n arbitrary: v)
  case (Suc n)
  define r q where "r = v mod 128" and "q = v div 128"
  then have v: "v = r + 128 * q" "r < 128" by simp_all
  show ?case
  proof (cases "q = 0")
    case False
    then have n: "0 < n" using Suc.prems v by (cases n) auto
    have "q < 128 ^ n" using Suc.prems v by simp
    with Suc.IH [OF n] False show ?thesis by (simp add: write_uleb128_step [OF v])
  qed (simp add: write_uleb128_step [OF v])
qed simp

lemma write_sleb128_length:
  "- (64 * 128 ^ n) \<le> v \<Longrightarrow> v < 64 * 128 ^ n \<Longrightarrow> length (write_sleb128 v) \<le> Suc n"
proof (induction n arbitrary: v)
  case 0
  define r q where "r = v mod 128" and "q = v div 128"
  then have v: "v = r + 128 * q" "0 \<le> r" "r < 128" by simp_all
  then have "(q = 0 \<and> r < 64) \<or> (q = -1 \<and> 64 \<le> r)" using 0 by auto
  then show ?case by (simp add: write_sleb128_step [OF v])
next
  case (Suc n)
  define r q where "r = v mod 128" and "q = v div 128"
  then have v: "v = r + 128 * q" "0 \<le> r" "r < 128" by simp_all
  have "- (64 * 128 ^ n) \<le> q" "q < 64 * 128 ^ n" using Suc.prems v by simp_all
  then have "length (write_sleb128 q) \<le> Suc n" by (rule Suc.IH)
  then show ?case by (simp add: write_sleb128_step [OF v])
qed

end
