(* ===== verification/Codegen_Lsda.thy ===== *)
theory Codegen_Lsda
  imports Codegen_Leb128 Codegen_MIR "HOL-Library.Sublist" "HOL-Library.Multiset"
begin

text \<open>
  Exception tables (\<open>llvm-codegen/src/lsda.rs\<close>): the language-specific data area of an ELF function,
  the minimal unwind data of COFF, and the section table of \<open>emit.rs\<close> they are stored in. The decoders
  are those of the formats the code names; they read back what the builders write.
\<close>

section \<open>The builders\<close>

type_synonym lsda_builder = "call_site_record list"

definition lsda_add_call_site :: "lsda_builder \<Rightarrow> call_site_record \<Rightarrow> lsda_builder" where
  "lsda_add_call_site b rec = b @ [rec]"

definition lsda_is_empty :: "lsda_builder \<Rightarrow> bool" where
  "lsda_is_empty b \<longleftrightarrow> b = []"

definition enc_call_site :: "call_site_record \<Rightarrow> byte list" where
  "enc_call_site rec =
     write_uleb128 (unat (cs_call_start rec)) @ write_uleb128 (unat (cs_call_len rec)) @
     write_uleb128 (unat (cs_landing_pad rec)) @ write_uleb128 (unat (cs_action rec))"

definition lsda_build :: "lsda_builder \<Rightarrow> byte list" where
  "lsda_build b =
     (let table = concat (map enc_call_site b)
      in [0xff, 0xff, 0x01] @ write_uleb128 (length table) @ table)"

type_synonym xdata_builder = "(nat \<times> int) list"

definition xdata_add_ip_state :: "xdata_builder \<Rightarrow> nat \<Rightarrow> int \<Rightarrow> xdata_builder" where
  "xdata_add_ip_state b ip_offset st = b @ [(ip_offset, st)]"

definition xdata_build :: "xdata_builder \<Rightarrow> byte list" where
  "xdata_build b =
     (let entries = sort_key fst b; count = as_u32 (length entries)
      in enc_u32 0x19930522 @ enc_u32 count @ enc_u32 count @
         concat (map (\<lambda>(ip, st). enc_u32 ip @ enc_i32 st) entries))"

section \<open>Sections\<close>

datatype reloc_kind = Pc32 | Abs64

record reloc =
  r_offset :: nat
  r_symbol :: nat
  r_kind :: reloc_kind
  r_addend :: int
  r_external_name :: "string option"

record debug_line_row =
  dl_address :: nat
  dl_line :: nat
  dl_column :: nat

record obj_section =
  sec_name :: string
  sec_data :: "byte list"
  sec_relocs :: "reloc list"
  sec_debug_rows :: "debug_line_row list"

primrec section_position :: "string \<Rightarrow> obj_section list \<Rightarrow> nat option" where
  \<comment> \<open>\<open>sections.iter().position(|s| s.name == name)\<close>\<close>
  "section_position n [] = None"
| "section_position n (s # ss) = (if sec_name s = n then Some 0 else map_option Suc (section_position n ss))"

definition get_or_create_section_data :: "obj_section list \<Rightarrow> string \<Rightarrow> obj_section list \<times> nat" where
  \<comment> \<open>the sections and the position of the one whose data the caller may change\<close>
  "get_or_create_section_data secs n =
     (case section_position n secs of
        Some pos \<Rightarrow> (secs, pos)
      | None \<Rightarrow>
          (secs @ [\<lparr>sec_name = n, sec_data = [], sec_relocs = [], sec_debug_rows = []\<rparr>], length secs))"

section \<open>The formats\<close>

definition dec_u32w :: "32 word decoder" where
  "dec_u32w = dmap of_nat dec_uleb"

definition dec_call_site :: "call_site_record decoder" where
  "dec_call_site =
     dmap4 (\<lambda>a b c d. \<lparr>cs_call_start = a, cs_call_len = b, cs_landing_pad = c, cs_action = d\<rparr>)
       dec_u32w dec_u32w dec_u32w dec_u32w"

primrec dec_all :: "nat \<Rightarrow> 'a decoder \<Rightarrow> byte list \<Rightarrow> 'a list option" where
  \<comment> \<open>records up to the end of a table of known length\<close>
  "dec_all 0 d bs = (if bs = [] then Some [] else None)"
| "dec_all (Suc fuel) d bs =
     (if bs = [] then Some []
      else (case d bs of Some (Inr (x, r)) \<Rightarrow> map_option (Cons x) (dec_all fuel d r) | _ \<Rightarrow> None))"

lemma dec_all_Nil [simp]: "dec_all n d [] = Some []"
  by (cases n) simp_all

definition dec_lsda :: "lsda_builder decoder" where
  "dec_lsda =
     dbind (read_bytes 3) (\<lambda>h. if h \<noteq> [0xff, 0xff, 0x01] then dfail InvalidMagic else
     dbind dec_uleb (\<lambda>n. dbind (read_bytes n) (\<lambda>table.
       case dec_all n dec_call_site table of None \<Rightarrow> dfail ParseError | Some recs \<Rightarrow> dret recs)))"

definition dec_xdata :: "xdata_builder decoder" where
  "dec_xdata =
     dbind dec_u32 (\<lambda>m. if m \<noteq> 0x19930522 then dfail InvalidMagic else
     dbind dec_u32 (\<lambda>_. dec_list (dmap2 Pair dec_u32 dec_i32)))"

context codec
begin

text \<open>A table is read back when its records are not empty, the length in bytes being fuel enough.\<close>

lemma all_roundtrip:
  assumes "\<forall>x\<in>set xs. ok x \<and> enc x \<noteq> []" "length (concat (map enc xs)) \<le> fuel"
  shows "dec_all fuel dec (concat (map enc xs)) = Some xs"
  using assms
proof (induction xs arbitrary: fuel)
  case (Cons x xs)
  from Cons.prems obtain f where f: "fuel = Suc f" by (cases fuel) auto
  have "1 \<le> length (enc x)" using Cons.prems by (cases "enc x") auto
  moreover have "length (enc x) + length (concat (map enc xs)) \<le> Suc f" using Cons.prems f by simp
  ultimately have "length (concat (map enc xs)) \<le> f" by linarith
  then show ?case using Cons f by (simp add: roundtrip)
qed simp

end

interpretation call_site: codec enc_call_site dec_call_site "\<lambda>_. True"
  by unfold_locales
    (simp add: enc_call_site_def dec_call_site_def dec_u32w_def dmap_defs dbind_def dec_uleb_write)

interpretation xdata_entry: codec "\<lambda>(ip, st). enc_u32 ip @ enc_i32 st" "dmap2 Pair dec_u32 dec_i32"
  "\<lambda>(ip, st). ip < 2 ^ 32 \<and> - (2 ^ 31) \<le> st \<and> st < 2 ^ 31"
  by unfold_locales (auto simp: dmap_defs dbind_def)

lemma write_uleb128_nonempty: "write_uleb128 v \<noteq> []"
  by (subst write_uleb128.simps) (simp add: Let_def)

lemma enc_call_site_nonempty: "enc_call_site r \<noteq> []"
  by (simp add: enc_call_site_def write_uleb128_nonempty)

section \<open>Properties\<close>

text \<open>Both LEB128 encoders of the code base write the same bytes; every number is read back by the
  decoder of the DWARF specification, whatever follows, and 64-bit numbers take at most ten bytes.\<close>

lemma leb128_correct:
  shows "leb128_u v = write_uleb128 v \<and> dec_uleb (leb128_u v @ rest) = Some (Inr (v, rest)) \<and>
      leb128_s w = write_sleb128 w \<and> dec_sleb (leb128_s w @ rest) = Some (Inr (w, rest)) \<and>
      (2 ^ 64 \<le> v \<or> length (leb128_u v) \<le> 10) \<and>
      (w < - (2 ^ 63) \<or> 2 ^ 63 \<le> w \<or> length (leb128_s w) \<le> 10)"
proof -
  have "2 ^ 64 \<le> v \<or> length (write_uleb128 v) \<le> 10"
    using write_uleb128_length [of 10 v] by (cases "v < 2 ^ 64") auto
  moreover have "w < - (2 ^ 63) \<or> 2 ^ 63 \<le> w \<or> length (write_sleb128 w) \<le> 10"
    using write_sleb128_length [of 9 w] by (cases "- (2 ^ 63) \<le> w \<and> w < 2 ^ 63") auto
  ultimately show ?thesis by (simp add: leb128_u_eq leb128_s_eq dec_uleb_write dec_sleb_write)
qed

text \<open>C36: The exception table is read back: a reader of the documented format finds the call sites in the
  order they were added, and nothing of what follows the table.\<close>

lemma lsda_round_trip:
  "dec_lsda (lsda_build b @ rest) = Some (Inr (b, rest))"
proof -
  let ?t = "concat (map enc_call_site b)"
  have "dec_all (length ?t) dec_call_site ?t = Some b"
    by (rule call_site.all_roundtrip) (simp_all add: enc_call_site_nonempty)
  moreover have "read_bytes 3 ([0xff, 0xff, 0x01] @ write_uleb128 (length ?t) @ ?t @ rest) =
      Some (Inr ([0xff, 0xff, 0x01], write_uleb128 (length ?t) @ ?t @ rest))"
    by (rule read_bytes_append) simp
  ultimately show ?thesis
    by (simp add: dec_lsda_def lsda_build_def Let_def dbind_def dec_uleb_write read_bytes_append)
qed

text \<open>C37: The COFF unwind table is read back sorted by instruction offset, each transition kept, in the
  order of insertion for equal offsets.\<close>

lemma xdata_round_trip:
  assumes "length b < 2 ^ 32" "\<forall>e\<in>set b. fst e < 2 ^ 32 \<and> - (2 ^ 31) \<le> snd e \<and> snd e < 2 ^ 31"
  shows "dec_xdata (xdata_build b @ rest) = Some (Inr (sort_key fst b, rest)) \<and>
     sorted (map fst (sort_key fst b)) \<and> mset (sort_key fst b) = mset b \<and>
     filter (\<lambda>e. fst e = k) (sort_key fst b) = filter (\<lambda>e. fst e = k) b"
proof -
  have "dec_list (dmap2 Pair dec_u32 dec_i32)
      (enc_list (\<lambda>(ip, st). enc_u32 ip @ enc_i32 st) (sort_key fst b) @ rest) = Some (Inr (sort_key fst b, rest))"
    using assms by (intro xdata_entry.list_roundtrip) auto
  then have "dec_xdata (xdata_build b @ rest) = Some (Inr (sort_key fst b, rest))"
    using assms by (simp add: dec_xdata_def xdata_build_def Let_def dbind_def enc_list_def split_def)
  moreover have "filter (\<lambda>e. fst e = k) (sort_key fst b) = filter (\<lambda>e. fst e = k) b"
    by (rule sort_key_stable)
  ultimately show ?thesis by simp
qed

lemma xdata_round_trip_witness:
  "dec_xdata (xdata_build [(8, 1), (4, -1)] @ []) = Some (Inr (sort_key fst [(8, 1), (4, -1)], [])) \<and>
   sort_key fst [(8, 1), (4, -1)] = [(4::nat, -1::int), (8, 1)]"
  using xdata_round_trip [of "[(8, 1), (4, -1)]" "[]"] by simp

lemma section_position_Some:
  "section_position n ss = Some i \<Longrightarrow> i < length ss \<and> sec_name (ss ! i) = n"
  by (induction ss arbitrary: i) (auto split: if_splits)

lemma get_or_create_section:
  "get_or_create_section_data ss n = (ss', i) \<Longrightarrow>
     i < length ss' \<and> sec_name (ss' ! i) = n \<and> prefix ss ss' \<and> (i < length ss \<longrightarrow> ss' = ss)"
  by (auto simp: get_or_create_section_data_def dest: section_position_Some split: option.splits)

end
