(* ===== verification/Wasm_Encode.thy ===== *)
theory Wasm_Encode
  imports Codegen_Lsda IR_Context IR_Function
begin

text \<open>
  The WebAssembly module encoder (\<open>llvm-target-wasm/src/{types,encode}.rs\<close>): value types, function
  bodies, sections, and \<open>assemble_module\<close>. The decoders follow the binary format of the WebAssembly
  specification; the theorem reads an assembled module back.
\<close>

section \<open>Value types\<close>

definition ir_ty_to_valtype :: "ir_context \<Rightarrow> type_id \<Rightarrow> byte option rust" where
  "ir_ty_to_valtype ctx ty =
     map_option (\<lambda>td. case td of
         TyVoid \<Rightarrow> None
       | TyInteger bits \<Rightarrow> (if bits \<le> 32 then Some 0x7F else Some 0x7E)
       | TyFloat Single \<Rightarrow> Some 0x7D
       | TyFloat Double \<Rightarrow> Some 0x7C
       | TyFloat _ \<Rightarrow> Some 0x7C
       | TyPointer \<Rightarrow> Some 0x7F
       | _ \<Rightarrow> Some 0x7F) (get_type ctx ty)"

definition is_i64_type :: "ir_context \<Rightarrow> type_id \<Rightarrow> bool rust" where
  "is_i64_type ctx ty = map_option (\<lambda>td. case td of TyInteger bits \<Rightarrow> 32 < bits | _ \<Rightarrow> False) (get_type ctx ty)"

section \<open>Functions and sections\<close>

record wasm_function =
  wa_name :: string
  wa_func_idx :: nat
  wa_local_types :: "byte list"
  wa_code :: "byte list"

definition write_section :: "byte \<Rightarrow> byte list \<Rightarrow> byte list" where
  "write_section i content = [i] @ leb128_u (length content) @ content"

definition push_group :: "(nat \<times> byte) list \<Rightarrow> byte \<Rightarrow> (nat \<times> byte) list" where
  \<comment> \<open>the loop body that groups the locals by type\<close>
  "push_group groups vt =
     (if groups \<noteq> [] \<and> snd (last groups) = vt
      then butlast groups @ [(fst (last groups) + 1, vt)]
      else groups @ [(1, vt)])"

definition encode_function_body :: "wasm_function \<Rightarrow> byte list" where
  "encode_function_body fn =
     (let locals =
            (if length (wa_local_types fn) = 0 then leb128_u 0
             else (let groups = foldl push_group [] (wa_local_types fn)
                   in leb128_u (length groups) @ concat (map (\<lambda>(count, vt). leb128_u count @ [vt]) groups)));
          body = locals @ wa_code fn @ [0x0B]
      in leb128_u (length body) @ body)"

definition encode_functype :: "byte list \<Rightarrow> byte list \<Rightarrow> byte list" where
  "encode_functype params results =
     [0x60] @ leb128_u (length params) @ params @ leb128_u (length results) @ results"

section \<open>Modules\<close>

definition signature_of :: "ir_context \<Rightarrow> ir_module \<Rightarrow> wasm_function \<Rightarrow> (byte list \<times> byte list) rust" where
  \<comment> \<open>the parameter and result types of a function\<close>
  "signature_of ctx m fn =
     do { f \<leftarrow> vec_get (m_functions m) (wa_func_idx fn);
          td \<leftarrow> get_type ctx (f_ty f);
          (case td of
             TyFunction ft \<Rightarrow>
               do { ps \<leftarrow> try_map (ir_ty_to_valtype ctx) (fn_params ft);
                    r \<leftarrow> ir_ty_to_valtype ctx (fn_ret ft);
                    Some (concat (map opt_list ps), opt_list r) }
           | _ \<Rightarrow> Some ([], [])) }"

primrec position :: "'a \<Rightarrow> 'a list \<Rightarrow> nat option" where
  "position x [] = None"
| "position x (y # ys) = (if y = x then Some 0 else map_option Suc (position x ys))"

definition add_type_entry ::
  "ir_context \<Rightarrow> ir_module \<Rightarrow> byte list list \<times> nat list \<Rightarrow> wasm_function \<Rightarrow> (byte list list \<times> nat list) rust" where
  \<comment> \<open>the loop body that collects the distinct signatures\<close>
  "add_type_entry ctx m s fn =
     do { (params, results) \<leftarrow> signature_of ctx m fn;
          let entry = encode_functype params results;
          (case position entry (fst s) of
             Some pos \<Rightarrow> Some (fst s, snd s @ [as_u32 pos])
           | None \<Rightarrow> Some (fst s @ [entry], snd s @ [as_u32 (length (fst s))])) }"

definition encode_export :: "nat \<Rightarrow> wasm_function \<Rightarrow> byte list" where
  "encode_export i fn =
     leb128_u (length (wa_name fn)) @ enc_raw (wa_name fn) @ [0x00] @ leb128_u i"

definition assemble_module :: "ir_context \<Rightarrow> ir_module \<Rightarrow> wasm_function list \<Rightarrow> byte list rust" where
  "assemble_module ctx m fns =
     do { (type_entries, type_indices) \<leftarrow> try_foldl (add_type_entry ctx m) ([], []) fns;
          Some ([0, 0x61, 0x73, 0x6D, 1, 0, 0, 0] @
            (if type_entries \<noteq> []
             then write_section 1 (leb128_u (length type_entries) @ concat type_entries) else []) @
            (if fns \<noteq> []
             then write_section 3 (leb128_u (length fns) @ concat (map leb128_u type_indices)) else []) @
            (if fns \<noteq> []
             then write_section 7 (leb128_u (length fns) @
                    concat (map (\<lambda>(i, fn). encode_export i fn) (enumerate 0 fns))) else []) @
            (if fns \<noteq> []
             then write_section 10 (leb128_u (length fns) @ concat (map encode_function_body fns)) else [])) }"

section \<open>The format\<close>

definition dec_byte :: "byte decoder" where
  "dec_byte = dmap hd (read_bytes 1)"

definition enc_vec :: "('a \<Rightarrow> byte list) \<Rightarrow> 'a list \<Rightarrow> byte list" where
  "enc_vec enc xs = leb128_u (length xs) @ concat (map enc xs)"

definition dec_vec :: "'a decoder \<Rightarrow> 'a list decoder" where
  "dec_vec d = dbind dec_uleb (\<lambda>n. drepeat n d)"

context codec
begin

lemma vec_roundtrip: "\<forall>x\<in>set xs. ok x \<Longrightarrow> dec_vec dec (enc_vec enc xs @ rest) = Some (Inr (xs, rest))"
  by (simp add: dec_vec_def enc_vec_def dbind_def leb128_u_eq dec_uleb_write repeat_roundtrip)

end

interpretation single_byte: codec "\<lambda>b. [b]" dec_byte "\<lambda>_. True"
  by unfold_locales (simp add: dec_byte_def dmap_def dbind_def read_bytes_def)

interpretation leb_u: codec leb128_u dec_uleb "\<lambda>_. True"
  by unfold_locales (simp add: leb128_u_eq dec_uleb_write)

definition dec_functype :: "(byte list \<times> byte list) decoder" where
  "dec_functype =
     dbind dec_byte (\<lambda>b. if b \<noteq> 0x60 then dfail InvalidType else
       dmap2 Pair (dec_vec dec_byte) (dec_vec dec_byte))"

interpretation functype: codec "\<lambda>(ps, rs). encode_functype ps rs" dec_functype "\<lambda>_. True"
proof (unfold_locales, clarify)
  fix ps rs rest
  have "encode_functype ps rs = [0x60] @ enc_vec (\<lambda>b. [b]) ps @ enc_vec (\<lambda>b. [b]) rs"
    by (simp add: encode_functype_def enc_vec_def)
  then show "dec_functype (encode_functype ps rs @ rest) = Some (Inr ((ps, rs), rest))"
    using single_byte.roundtrip [of "0x60"]
    by (simp add: dec_functype_def dmap2_def dbind_def single_byte.vec_roundtrip)
qed

definition dec_export :: "(string \<times> nat) decoder" where
  "dec_export =
     dbind (dec_vec dec_byte) (\<lambda>n. dbind dec_byte (\<lambda>k. if k \<noteq> 0 then dfail InvalidType else
       dmap (Pair (map char_of_byte n)) dec_uleb))"

definition encode_named :: "string \<times> nat \<Rightarrow> byte list" where
  "encode_named p = leb128_u (length (fst p)) @ enc_raw (fst p) @ [0x00] @ leb128_u (snd p)"

lemma enc_raw_len: "length (enc_raw n) = length n"
  by (simp add: enc_raw_def)

lemma encode_export_named: "encode_export i fn = encode_named (wa_name fn, i)"
  by (simp add: encode_export_def encode_named_def)

interpretation export: codec encode_named dec_export "\<lambda>_. True"
proof (unfold_locales, clarify)
  fix n :: string and i rest
  have "encode_named (n, i) = enc_vec (\<lambda>b. [b]) (enc_raw n) @ [0x00] @ leb128_u i"
    by (simp add: encode_named_def enc_vec_def enc_raw_len)
  moreover have "map char_of_byte (enc_raw n) = n" by (simp add: enc_raw_def comp_def)
  ultimately show "dec_export (encode_named (n, i) @ rest) = Some (Inr ((n, i), rest))"
    using single_byte.roundtrip [of 0] single_byte.vec_roundtrip [of "enc_raw n"]
    by (simp add: dec_export_def dmap_def dbind_def leb_u.roundtrip)
qed

definition dec_body :: "(byte list \<times> byte list) decoder" where
  \<comment> \<open>the types of the locals, spelled out, and the instructions before the final \<open>end\<close>\<close>
  "dec_body =
     dbind dec_uleb (\<lambda>n. dbind (read_bytes n) (\<lambda>bs.
       case dec_vec (dmap2 Pair dec_uleb dec_byte) bs of
         Some (Inr (groups, code)) \<Rightarrow>
           (if code \<noteq> [] \<and> last code = 0x0B
            then dret (concat (map (\<lambda>(c, vt). replicate c vt) groups), butlast code)
            else dfail ParseError)
       | _ \<Rightarrow> dfail ParseError))"

definition expand_groups :: "(nat \<times> byte) list \<Rightarrow> byte list" where
  "expand_groups groups = concat (map (\<lambda>(c, vt). replicate c vt) groups)"

lemma expand_push_group: "expand_groups (push_group groups vt) = expand_groups groups @ [vt]"
proof (cases groups rule: rev_cases)
  case (snoc gs g)
  then show ?thesis
    by (cases g) (simp add: push_group_def expand_groups_def replicate_append_same)
qed (simp add: push_group_def expand_groups_def)

lemma expand_group_locals: "expand_groups (foldl push_group [] vts) = vts"
  by (induction vts rule: rev_induct) (simp add: expand_groups_def, simp add: expand_push_group)

interpretation group: codec "\<lambda>(c, vt). leb128_u c @ [vt]" "dmap2 Pair dec_uleb dec_byte" "\<lambda>_. True"
  using single_byte.roundtrip by unfold_locales (auto simp: dmap2_def dbind_def leb_u.roundtrip)

lemma encode_locals:
  "(if length vts = 0 then leb128_u 0
    else (let groups = foldl push_group [] vts
          in leb128_u (length groups) @ concat (map (\<lambda>(count, vt). leb128_u count @ [vt]) groups))) =
   enc_vec (\<lambda>(c, vt). leb128_u c @ [vt]) (foldl push_group [] vts)"
  by (simp add: enc_vec_def Let_def)

lemma dec_body_enc:
  "dec_body (encode_function_body fn @ rest) = Some (Inr ((wa_local_types fn, wa_code fn), rest))"
proof -
  let ?g = "foldl push_group [] (wa_local_types fn)"
  define b where "b = enc_vec (\<lambda>(c, vt). leb128_u c @ [vt]) ?g @ wa_code fn @ [0x0B]"
  have e: "encode_function_body fn = leb128_u (length b) @ b"
    unfolding encode_function_body_def encode_locals b_def by (simp add: Let_def)
  have "dec_vec (dmap2 Pair dec_uleb dec_byte) b = Some (Inr (?g, wa_code fn @ [0x0B]))"
    unfolding b_def by (rule group.vec_roundtrip) simp
  moreover have "concat (map (\<lambda>(c, vt). replicate c vt) ?g) = wa_local_types fn"
    using expand_group_locals by (simp add: expand_groups_def)
  ultimately show ?thesis
    by (simp add: e dec_body_def dbind_def leb_u.roundtrip read_bytes_append)
qed

definition dec_section :: "(byte \<times> byte list) decoder" where
  "dec_section = dmap2 Pair dec_byte (dbind dec_uleb read_bytes)"

interpretation wasm_section: codec "\<lambda>(i, content). write_section i content" dec_section "\<lambda>_. True"
  using single_byte.roundtrip
  by unfold_locales
    (auto simp: write_section_def dec_section_def dmap2_def dbind_def leb_u.roundtrip read_bytes_append)

definition whole :: "'a decoder \<Rightarrow> byte list \<Rightarrow> 'a option" where
  \<comment> \<open>a section is used up by its decoder\<close>
  "whole d bs = (case d bs of Some (Inr (x, [])) \<Rightarrow> Some x | _ \<Rightarrow> None)"

record wasm_module =
  wm_types :: "(byte list \<times> byte list) list"
  wm_funcs :: "nat list"
  wm_exports :: "(string \<times> nat) list"
  wm_codes :: "(byte list \<times> byte list) list"

definition wasm_parse :: "byte list \<Rightarrow> wasm_module option" where
  \<comment> \<open>the four sections the assembler writes; an absent one is empty\<close>
  "wasm_parse bs =
     (if take 8 bs \<noteq> [0, 0x61, 0x73, 0x6D, 1, 0, 0, 0] then None
      else do { secs \<leftarrow> dec_all (length bs) dec_section (drop 8 bs);
                let content = (\<lambda>i. map_default [0] (map_of secs) i);
                tys \<leftarrow> whole (dec_vec dec_functype) (content 1);
                fs \<leftarrow> whole (dec_vec dec_uleb) (content 3);
                es \<leftarrow> whole (dec_vec dec_export) (content 7);
                cs \<leftarrow> whole (dec_vec dec_body) (content 10);
                Some \<lparr>wm_types = tys, wm_funcs = fs, wm_exports = es, wm_codes = cs\<rparr> })"

section \<open>Assembled modules\<close>

lemma position_Some: "position x xs = Some i \<Longrightarrow> i < length xs \<and> xs ! i = x"
  by (induction xs arbitrary: i) (auto split: if_splits)

lemma position_None: "position x xs = None \<Longrightarrow> x \<notin> set xs"
  by (induction xs) (auto split: if_splits)

abbreviation enc_sig :: "byte list \<times> byte list \<Rightarrow> byte list" where
  "enc_sig \<equiv> (\<lambda>(ps, rs). encode_functype ps rs)"

lemma enc_sig_inj: "enc_sig s = enc_sig t \<Longrightarrow> s = t"
  using functype.roundtrip [of s "[]"] functype.roundtrip [of t "[]"] by simp

definition type_table :: "ir_context \<Rightarrow> ir_module \<Rightarrow> wasm_function list \<Rightarrow> byte list list \<times> nat list \<Rightarrow> bool" where
  "type_table ctx m fns s \<longleftrightarrow>
     (\<exists>tys. fst s = map enc_sig tys \<and> distinct tys \<and> length tys \<le> length fns \<and>
        length (snd s) = length fns \<and> (fns \<noteq> [] \<longrightarrow> tys \<noteq> []) \<and>
        (\<forall>i<length fns. snd s ! i < length tys \<and> signature_of ctx m (fns ! i) = Some (tys ! (snd s ! i))))"

lemma type_table_step:
  assumes "type_table ctx m fns s" "length fns < 2 ^ 32" "signature_of ctx m fn = Some sg"
  obtains s' where "add_type_entry ctx m s fn = Some s'" "type_table ctx m (fns @ [fn]) s'"
proof -
  obtain tys where t: "fst s = map enc_sig tys" "distinct tys" "length tys \<le> length fns"
    "length (snd s) = length fns" "fns \<noteq> [] \<longrightarrow> tys \<noteq> []"
    "\<And>i. i < length fns \<Longrightarrow> snd s ! i < length tys \<and> signature_of ctx m (fns ! i) = Some (tys ! (snd s ! i))"
    using assms(1) unfolding type_table_def by blast
  have step: "add_type_entry ctx m s fn =
      (case position (enc_sig sg) (fst s) of
         Some pos \<Rightarrow> Some (fst s, snd s @ [as_u32 pos])
       | None \<Rightarrow> Some (fst s @ [enc_sig sg], snd s @ [as_u32 (length (fst s))]))"
  proof -
    obtain ps rs where "sg = (ps, rs)" by (cases sg)
    with assms(3) show ?thesis unfolding \<open>sg = (ps, rs)\<close> prod.case by (simp add: add_type_entry_def Let_def)
  qed
  show ?thesis
  proof (cases "position (enc_sig sg) (fst s)")
    case (Some pos)
    from position_Some [OF Some] have pos: "pos < length tys" using t(1) by simp
    moreover have "enc_sig (tys ! pos) = enc_sig sg"
      using position_Some [OF Some] t(1) pos by (simp only: nth_map)
    then have "tys ! pos = sg" by (rule enc_sig_inj)
    ultimately have pos: "pos < length tys" "tys ! pos = sg" by blast+
    have "type_table ctx m (fns @ [fn]) (fst s, snd s @ [as_u32 pos])"
      unfolding type_table_def
      using t pos assms(2,3) by (intro exI [of _ tys]) (auto simp: nth_append less_Suc_eq)
    then show ?thesis by (rule that [rotated]) (simp add: step Some)
  next
    case None
    then have "sg \<notin> set tys" using position_None [OF None] t(1) by auto
    then have "type_table ctx m (fns @ [fn]) (fst s @ [enc_sig sg], snd s @ [as_u32 (length (fst s))])"
      unfolding type_table_def
      using t assms(2,3) by (intro exI [of _ "tys @ [sg]"]) (auto simp: nth_append less_Suc_eq)
    then show ?thesis by (rule that [rotated]) (simp add: step None)
  qed
qed

lemma type_table_fold:
  assumes "type_table ctx m done0 s" "length done0 + length fns < 2 ^ 32"
    and "\<forall>fn\<in>set fns. signature_of ctx m fn \<noteq> None"
  shows "\<exists>s'. try_foldl (add_type_entry ctx m) s fns = Some s' \<and> type_table ctx m (done0 @ fns) s'"
  using assms
proof (induction fns arbitrary: done0 s)
  case (Cons fn fns)
  obtain sg where "signature_of ctx m fn = Some sg" using Cons.prems by auto
  then obtain s' where s': "add_type_entry ctx m s fn = Some s'" "type_table ctx m (done0 @ [fn]) s'"
    using type_table_step [of ctx m done0 s fn sg] Cons.prems by auto
  then show ?case using Cons.IH [of "done0 @ [fn]" s'] Cons.prems by simp
qed auto

lemma exports_named:
  "concat (map (\<lambda>(i, fn). encode_export i fn) (enumerate k fns)) =
     concat (map encode_named (zip (map wa_name fns) [k..<k + length fns]))"
  by (induction fns arbitrary: k) (simp_all add: encode_export_named upt_conv_Cons del: upt_Suc)

lemma whole_vec:
  assumes "\<And>r. dec_vec d (bs @ r) = Some (Inr (x, r))"
  shows "whole (dec_vec d) bs = Some x"
  using assms [of "[]"] by (simp add: whole_def)

lemma bodies_roundtrip:
  "drepeat (length fns) dec_body (concat (map encode_function_body fns) @ rest) =
     Some (Inr (map (\<lambda>fn. (wa_local_types fn, wa_code fn)) fns, rest))"
  by (induction fns arbitrary: rest) (simp_all add: dbind_def dec_body_enc)

text \<open>C32: An assembled WebAssembly module decodes, under the binary format of the specification, to the
  functions it was made from: function \<open>i\<close> has the signature of its IR type, is exported under its name with
  index \<open>i\<close>, and has its locals and its code; equal signatures share one type.\<close>

lemma assemble_module_correct:
  assumes "fns \<noteq> []" "length fns < 2 ^ 32" "\<forall>fn\<in>set fns. signature_of ctx m fn \<noteq> None"
  shows "\<exists>bytes w. assemble_module ctx m fns = Some bytes \<and> wasm_parse bytes = Some w \<and>
     distinct (wm_types w) \<and> wm_exports w = zip (map wa_name fns) [0..<length fns] \<and>
     wm_codes w = map (\<lambda>fn. (wa_local_types fn, wa_code fn)) fns \<and> length (wm_funcs w) = length fns \<and>
     (\<forall>i<length fns. wm_funcs w ! i < length (wm_types w) \<and>
        signature_of ctx m (fns ! i) = Some (wm_types w ! (wm_funcs w ! i)))"
proof -
  have "type_table ctx m [] ([], [])" by (simp add: type_table_def)
  then obtain es ids where f: "try_foldl (add_type_entry ctx m) ([], []) fns = Some (es, ids)"
    and "type_table ctx m fns (es, ids)"
    using type_table_fold [of ctx m "[]" "([], [])" fns] assms by auto
  then obtain tys where t: "es = map enc_sig tys" "distinct tys" "length ids = length fns" "tys \<noteq> []"
    "\<And>i. i < length fns \<Longrightarrow> ids ! i < length tys \<and> signature_of ctx m (fns ! i) = Some (tys ! (ids ! i))"
    using assms(1) unfolding type_table_def by auto
  define c1 where "c1 = leb128_u (length es) @ concat es"
  define c3 where "c3 = leb128_u (length fns) @ concat (map leb128_u ids)"
  define c7 where "c7 = leb128_u (length fns) @ concat (map (\<lambda>(i, fn). encode_export i fn) (enumerate 0 fns))"
  define c10 where "c10 = leb128_u (length fns) @ concat (map encode_function_body fns)"
  let ?secs = "[(1, c1), (3, c3), (7, c7), (10, c10)]"
  define bytes where "bytes = [0, 0x61, 0x73, 0x6D, 1, 0, 0, 0] @ concat (map (\<lambda>(i, c). write_section i c) ?secs)"
  have a: "assemble_module ctx m fns = Some bytes"
    using assms(1) t(1,4)
    by (simp add: assemble_module_def f bytes_def c1_def c3_def c7_def c10_def)
  have "c1 = enc_vec enc_sig tys" by (simp add: c1_def t(1) enc_vec_def)
  then have p1: "whole (dec_vec dec_functype) c1 = Some tys"
    using functype.vec_roundtrip by (intro whole_vec) simp
  have "c3 = enc_vec leb128_u ids" by (simp add: c3_def t(3) enc_vec_def)
  then have p3: "whole (dec_vec dec_uleb) c3 = Some ids"
    using leb_u.vec_roundtrip by (intro whole_vec) simp
  have "c7 = enc_vec encode_named (zip (map wa_name fns) [0..<length fns])"
    using exports_named [of 0 fns] by (simp add: c7_def enc_vec_def)
  then have p7: "whole (dec_vec dec_export) c7 = Some (zip (map wa_name fns) [0..<length fns])"
    using export.vec_roundtrip by (intro whole_vec) simp
  have p10: "whole (dec_vec dec_body) c10 = Some (map (\<lambda>fn. (wa_local_types fn, wa_code fn)) fns)"
    by (intro whole_vec) (simp add: c10_def dec_vec_def dbind_def leb_u.roundtrip bodies_roundtrip)
  have "dec_all (length bytes) dec_section (concat (map (\<lambda>(i, c). write_section i c) ?secs)) = Some ?secs"
    by (rule wasm_section.all_roundtrip) (simp_all add: write_section_def bytes_def)
  then have "wasm_parse bytes = Some \<lparr>wm_types = tys, wm_funcs = ids,
      wm_exports = zip (map wa_name fns) [0..<length fns],
      wm_codes = map (\<lambda>fn. (wa_local_types fn, wa_code fn)) fns\<rparr>"
    by (simp add: wasm_parse_def bytes_def map_default_def p1 p3 p7 p10 del: length_append length_concat)
  with a t(2,3,5) show ?thesis
    by (intro exI [of _ bytes] exI conjI) (assumption | simp)+
qed

text \<open>A module with the function \<open>i32 f(i32)\<close> that returns its argument.\<close>

definition ex_wasm_context :: ir_context where
  "ex_wasm_context = context_new\<lparr>types := [TyInteger 32, TyFunction (FunctionType 0 [0] False)]\<rparr>"

definition ex_wasm_module :: ir_module where
  "ex_wasm_module = (module_new ''m'')\<lparr>m_functions := [function_new ''f'' 1 [] External]\<rparr>"

definition ex_wasm_function :: wasm_function where
  "ex_wasm_function = \<lparr>wa_name = ''f'', wa_func_idx = 0, wa_local_types = [0x7F, 0x7F], wa_code = [0x20, 0]\<rparr>"

lemma assemble_module_correct_witness:
  "\<exists>bytes w. assemble_module ex_wasm_context ex_wasm_module [ex_wasm_function] = Some bytes \<and>
     wasm_parse bytes = Some w \<and> wm_exports w = [(''f'', 0)] \<and>
     wm_codes w = [([0x7F, 0x7F], [0x20, 0])] \<and> wm_types w ! (wm_funcs w ! 0) = ([0x7F], [0x7F])"
proof -
  have sg: "signature_of ex_wasm_context ex_wasm_module ex_wasm_function = Some ([0x7F], [0x7F])"
    by (simp add: signature_of_def ex_wasm_context_def ex_wasm_module_def ex_wasm_function_def
        function_new_def ir_ty_to_valtype_def get_type_def vec_get_def module_new_def)
  show ?thesis
    using assemble_module_correct [of "[ex_wasm_function]" ex_wasm_context ex_wasm_module] sg
    by (auto simp: ex_wasm_function_def)
qed

end
