(* ===== verification/RiscV_Instr.thy ===== *)
theory RiscV_Instr
  imports Codegen_MIR
begin

text \<open>
  Opcodes and registers of the RISC-V target (\<open>llvm-target-riscv/src/{instructions,regs}.rs\<close>), under the
  names of the source. A floating-point register is the physical register with number 32 or more.
\<close>

section \<open>Opcodes\<close>

definition NOP :: mopcode where "NOP = 0x00"
definition MOV_RR :: mopcode where "MOV_RR = 0x01"
definition MOV_IMM :: mopcode where "MOV_IMM = 0x02"
definition MOV_PR :: mopcode where "MOV_PR = 0x03"
definition ADD_RR :: mopcode where "ADD_RR = 0x10"
definition SUB_RR :: mopcode where "SUB_RR = 0x11"
definition MUL_RR :: mopcode where "MUL_RR = 0x12"
definition DIV_RR :: mopcode where "DIV_RR = 0x13"
definition UDIV_RR :: mopcode where "UDIV_RR = 0x14"
definition REM_RR :: mopcode where "REM_RR = 0x15"
definition UREM_RR :: mopcode where "UREM_RR = 0x16"
definition AND_RR :: mopcode where "AND_RR = 0x20"
definition OR_RR :: mopcode where "OR_RR = 0x21"
definition XOR_RR :: mopcode where "XOR_RR = 0x22"
definition SLL_RR :: mopcode where "SLL_RR = 0x23"
definition SRL_RR :: mopcode where "SRL_RR = 0x24"
definition SRA_RR :: mopcode where "SRA_RR = 0x25"
definition SLT_RR :: mopcode where "SLT_RR = 0x26"
definition SLTU_RR :: mopcode where "SLTU_RR = 0x27"
definition ADDI :: mopcode where "ADDI = 0x30"
definition XORI :: mopcode where "XORI = 0x31"
definition SLTIU :: mopcode where "SLTIU = 0x32"
definition LW :: mopcode where "LW = 0x40"
definition LD :: mopcode where "LD = 0x41"
definition SW :: mopcode where "SW = 0x42"
definition SD :: mopcode where "SD = 0x43"
definition BEQ :: mopcode where "BEQ = 0x50"
definition BNE :: mopcode where "BNE = 0x51"
definition BLT :: mopcode where "BLT = 0x52"
definition BGE :: mopcode where "BGE = 0x53"
definition BLTU :: mopcode where "BLTU = 0x54"
definition BGEU :: mopcode where "BGEU = 0x55"
definition JAL :: mopcode where "JAL = 0x60"
definition JALR :: mopcode where "JALR = 0x61"
definition RET :: mopcode where "RET = 0x62"
definition LUI :: mopcode where "LUI = 0x70"
definition AUIPC :: mopcode where "AUIPC = 0x71"
definition FENCE :: mopcode where "FENCE = 0x80"
definition LR_W :: mopcode where "LR_W = 0x81"
definition SC_W :: mopcode where "SC_W = 0x82"
definition AMOADD_W :: mopcode where "AMOADD_W = 0x83"
definition AMOSWAP_W :: mopcode where "AMOSWAP_W = 0x84"
definition AMOXOR_W :: mopcode where "AMOXOR_W = 0x85"
definition AMOAND_W :: mopcode where "AMOAND_W = 0x86"
definition AMOOR_W :: mopcode where "AMOOR_W = 0x87"
definition AMOMIN_W :: mopcode where "AMOMIN_W = 0x88"
definition AMOMAX_W :: mopcode where "AMOMAX_W = 0x89"
definition AMOMINU_W :: mopcode where "AMOMINU_W = 0x8A"
definition AMOMAXU_W :: mopcode where "AMOMAXU_W = 0x8B"
definition LR_D :: mopcode where "LR_D = 0x8C"
definition SC_D :: mopcode where "SC_D = 0x8D"
definition AMOADD_D :: mopcode where "AMOADD_D = 0x8E"
definition AMOSWAP_D :: mopcode where "AMOSWAP_D = 0x8F"
definition AMOXOR_D :: mopcode where "AMOXOR_D = 0x90"
definition AMOAND_D :: mopcode where "AMOAND_D = 0x91"
definition AMOOR_D :: mopcode where "AMOOR_D = 0x92"
definition ADDI_FP_SLOT :: mopcode where "ADDI_FP_SLOT = 0xA0"
definition LD_REG :: mopcode where "LD_REG = 0xA1"
definition SD_REG :: mopcode where "SD_REG = 0xA2"
definition FADD_D :: mopcode where "FADD_D = 0xB0"
definition FSUB_D :: mopcode where "FSUB_D = 0xB1"
definition FMUL_D :: mopcode where "FMUL_D = 0xB2"
definition FDIV_D :: mopcode where "FDIV_D = 0xB3"
definition FSQRT_D :: mopcode where "FSQRT_D = 0xB4"
definition FNEG_D :: mopcode where "FNEG_D = 0xB5"
definition FCMP_EQ_D :: mopcode where "FCMP_EQ_D = 0xB6"
definition FCMP_LT_D :: mopcode where "FCMP_LT_D = 0xB7"
definition FCMP_LE_D :: mopcode where "FCMP_LE_D = 0xB8"
definition FCVT_W_D :: mopcode where "FCVT_W_D = 0xB9"
definition FCVT_L_D :: mopcode where "FCVT_L_D = 0xBA"
definition FCVT_D_W :: mopcode where "FCVT_D_W = 0xBB"
definition FCVT_D_L :: mopcode where "FCVT_D_L = 0xBC"
definition FLD :: mopcode where "FLD = 0xBD"
definition FSD :: mopcode where "FSD = 0xBE"
definition FMV_D_D :: mopcode where "FMV_D_D = 0xBF"
definition FP_LOAD_MR :: mopcode where "FP_LOAD_MR = 0xC0"
definition FP_STORE_RM :: mopcode where "FP_STORE_RM = 0xC1"
definition FADD_S :: mopcode where "FADD_S = 0xD0"
definition FSUB_S :: mopcode where "FSUB_S = 0xD1"
definition FMUL_S :: mopcode where "FMUL_S = 0xD2"
definition FDIV_S :: mopcode where "FDIV_S = 0xD3"
definition FNEG_S :: mopcode where "FNEG_S = 0xD4"
definition FCMP_EQ_S :: mopcode where "FCMP_EQ_S = 0xD5"
definition FCMP_LT_S :: mopcode where "FCMP_LT_S = 0xD6"
definition FCMP_LE_S :: mopcode where "FCMP_LE_S = 0xD7"
definition FCVT_W_S :: mopcode where "FCVT_W_S = 0xD8"
definition FCVT_L_S :: mopcode where "FCVT_L_S = 0xD9"
definition FCVT_S_W :: mopcode where "FCVT_S_W = 0xDA"
definition FCVT_S_L :: mopcode where "FCVT_S_L = 0xDB"
definition FLW :: mopcode where "FLW = 0xDC"
definition FSW :: mopcode where "FSW = 0xDD"

lemmas rv_opcodes =
  NOP_def MOV_RR_def MOV_IMM_def MOV_PR_def ADD_RR_def SUB_RR_def MUL_RR_def DIV_RR_def UDIV_RR_def
  REM_RR_def UREM_RR_def AND_RR_def OR_RR_def XOR_RR_def SLL_RR_def SRL_RR_def SRA_RR_def
  SLT_RR_def SLTU_RR_def ADDI_def XORI_def SLTIU_def LW_def LD_def SW_def SD_def BEQ_def BNE_def
  BLT_def BGE_def BLTU_def BGEU_def JAL_def JALR_def RET_def LUI_def AUIPC_def FENCE_def LR_W_def
  SC_W_def AMOADD_W_def AMOSWAP_W_def AMOXOR_W_def AMOAND_W_def AMOOR_W_def AMOMIN_W_def
  AMOMAX_W_def AMOMINU_W_def AMOMAXU_W_def LR_D_def SC_D_def AMOADD_D_def AMOSWAP_D_def
  AMOXOR_D_def AMOAND_D_def AMOOR_D_def ADDI_FP_SLOT_def LD_REG_def SD_REG_def FADD_D_def
  FSUB_D_def FMUL_D_def FDIV_D_def FSQRT_D_def FNEG_D_def FCMP_EQ_D_def FCMP_LT_D_def FCMP_LE_D_def
  FCVT_W_D_def FCVT_L_D_def FCVT_D_W_def FCVT_D_L_def FLD_def FSD_def FMV_D_D_def FP_LOAD_MR_def
  FP_STORE_RM_def FADD_S_def FSUB_S_def FMUL_S_def FDIV_S_def FNEG_S_def FCMP_EQ_S_def
  FCMP_LT_S_def FCMP_LE_S_def FCVT_W_S_def FCVT_L_S_def FCVT_S_W_def FCVT_S_L_def FLW_def FSW_def

section \<open>Registers\<close>

definition X0 :: preg where "X0 = 0"
definition X1 :: preg where "X1 = 1"
definition X2 :: preg where "X2 = 2"
definition X3 :: preg where "X3 = 3"
definition X4 :: preg where "X4 = 4"
definition X5 :: preg where "X5 = 5"
definition X6 :: preg where "X6 = 6"
definition X7 :: preg where "X7 = 7"
definition X8 :: preg where "X8 = 8"
definition X9 :: preg where "X9 = 9"
definition X10 :: preg where "X10 = 10"
definition X11 :: preg where "X11 = 11"
definition X12 :: preg where "X12 = 12"
definition X13 :: preg where "X13 = 13"
definition X14 :: preg where "X14 = 14"
definition X15 :: preg where "X15 = 15"
definition X16 :: preg where "X16 = 16"
definition X17 :: preg where "X17 = 17"
definition X18 :: preg where "X18 = 18"
definition X19 :: preg where "X19 = 19"
definition X20 :: preg where "X20 = 20"
definition X21 :: preg where "X21 = 21"
definition X22 :: preg where "X22 = 22"
definition X23 :: preg where "X23 = 23"
definition X24 :: preg where "X24 = 24"
definition X25 :: preg where "X25 = 25"
definition X26 :: preg where "X26 = 26"
definition X27 :: preg where "X27 = 27"
definition X28 :: preg where "X28 = 28"
definition X29 :: preg where "X29 = 29"
definition X30 :: preg where "X30 = 30"
definition X31 :: preg where "X31 = 31"
definition F0 :: preg where "F0 = 32"
definition F1 :: preg where "F1 = 33"
definition F2 :: preg where "F2 = 34"
definition F3 :: preg where "F3 = 35"
definition F4 :: preg where "F4 = 36"
definition F5 :: preg where "F5 = 37"
definition F6 :: preg where "F6 = 38"
definition F7 :: preg where "F7 = 39"
definition F8 :: preg where "F8 = 40"
definition F9 :: preg where "F9 = 41"
definition F10 :: preg where "F10 = 42"
definition F11 :: preg where "F11 = 43"
definition F12 :: preg where "F12 = 44"
definition F13 :: preg where "F13 = 45"
definition F14 :: preg where "F14 = 46"
definition F15 :: preg where "F15 = 47"
definition F16 :: preg where "F16 = 48"
definition F17 :: preg where "F17 = 49"
definition F18 :: preg where "F18 = 50"
definition F19 :: preg where "F19 = 51"
definition F20 :: preg where "F20 = 52"
definition F21 :: preg where "F21 = 53"
definition F22 :: preg where "F22 = 54"
definition F23 :: preg where "F23 = 55"
definition F24 :: preg where "F24 = 56"
definition F25 :: preg where "F25 = 57"
definition F26 :: preg where "F26 = 58"
definition F27 :: preg where "F27 = 59"
definition F28 :: preg where "F28 = 60"
definition F29 :: preg where "F29 = 61"
definition F30 :: preg where "F30 = 62"
definition F31 :: preg where "F31 = 63"

definition ARG_REGS :: "preg list" where
  "ARG_REGS =
   [X10, X11, X12, X13, X14, X15, X16, X17]"

definition CALLEE_SAVED :: "preg list" where
  "CALLEE_SAVED =
   [X9, X18, X19, X20, X21, X22, X23, X24, X25, X26, X27]"

definition ALLOCATABLE :: "preg list" where
  "ALLOCATABLE =
   [X10, X11, X12, X13, X14, X15, X16, X17, X5, X6, X7, X28, X29, X30, X31, X9, X18, X19, X20, X21,
    X22, X23, X24, X25, X26, X27]"

definition FP_ARG_REGS :: "preg list" where
  "FP_ARG_REGS =
   [F10, F11, F12, F13, F14, F15, F16, F17]"

definition FP_CALLEE_SAVED :: "preg list" where
  "FP_CALLEE_SAVED =
   [F8, F9, F18, F19, F20, F21, F22, F23, F24, F25, F26, F27]"

definition FP_ALLOCATABLE :: "preg list" where
  "FP_ALLOCATABLE =
   [F0, F1, F2, F3, F4, F5, F6, F7, F10, F11, F12, F13, F14, F15, F16, F17, F28, F29, F30, F31, F8,
    F9, F18, F19, F20, F21, F22, F23, F24, F25, F26, F27]"

definition RET_REG :: preg where "RET_REG = X10"

definition FP_RET_REG :: preg where "FP_RET_REG = F10"

definition reg_enc :: "preg \<Rightarrow> 8 word" where
  "reg_enc r = r AND 0x1F"

definition is_fp_reg :: "preg \<Rightarrow> bool" where
  "is_fp_reg r \<longleftrightarrow> 32 \<le> r"

definition fp_enc :: "preg \<Rightarrow> 8 word rust" where
  \<comment> \<open>the subtraction is checked\<close>
  "fp_enc r = (if 32 \<le> r then Some (r - 32) else None)"

end
