(* ===== verification/RiscV_Encode.thy ===== *)
theory RiscV_Encode
  imports RiscV_Instr Codegen_Lsda
begin

text \<open>
  The RV64 encoder (\<open>llvm-target-riscv/src/encode.rs\<close>): the six instruction formats, one word for every
  machine instruction, and the emission of a function with the offsets of its branches patched in. A
  32-bit immediate is the word of its bits.
\<close>

section \<open>Operands\<close>

definition reg_of_dst :: "vreg \<Rightarrow> 8 word" where
  "reg_of_dst v = ucast (v AND 0x1F)"

definition reg_of_op :: "moperand \<Rightarrow> 8 word option" where
  "reg_of_op op =
     (case op of
        MPReg r \<Rightarrow> Some (r AND 0x1F)
      | MVReg v \<Rightarrow> Some (ucast (v AND 0x1F))
      | _ \<Rightarrow> None)"

definition fp_reg_of_dst :: "vreg \<Rightarrow> 8 word" where
  "fp_reg_of_dst v = (let raw = ucast (v AND 0xFF) in if 32 \<le> raw then raw - 32 else raw)"

definition fp_reg_of_op :: "moperand \<Rightarrow> 8 word option" where
  "fp_reg_of_op op =
     (case op of
        MPReg r \<Rightarrow> (if is_fp_reg r then fp_enc r else Some (r AND 0x1F))
      | MVReg v \<Rightarrow> (let raw = ucast (v AND 0xFF) in if 32 \<le> raw then Some (raw - 32) else Some raw)
      | _ \<Rightarrow> None)"

definition imm_of_op :: "moperand option \<Rightarrow> 32 word" where
  \<comment> \<open>\<open>*v as i32\<close>\<close>
  "imm_of_op op = (case op of Some (MImm v) \<Rightarrow> word_of_int v | _ \<Rightarrow> 0)"

definition operand_at :: "minstr \<Rightarrow> nat \<Rightarrow> moperand option" where
  \<comment> \<open>\<open>instr.operands.get(i)\<close>\<close>
  "operand_at mi i = (if i < length (mi_operands mi) then Some (mi_operands mi ! i) else None)"

definition ireg :: "minstr \<Rightarrow> nat \<Rightarrow> 8 word" where
  \<comment> \<open>\<open>instr.operands.get(i).and_then(reg_of_op).unwrap_or(0)\<close>\<close>
  "ireg mi i = (case Option.bind (operand_at mi i) reg_of_op of Some r \<Rightarrow> r | None \<Rightarrow> 0)"

definition freg :: "minstr \<Rightarrow> nat \<Rightarrow> 8 word" where
  \<comment> \<open>\<open>instr.operands.get(i).and_then(fp_reg_of_op).unwrap_or(0)\<close>\<close>
  "freg mi i = (case Option.bind (operand_at mi i) fp_reg_of_op of Some r \<Rightarrow> r | None \<Rightarrow> 0)"

definition imm_at :: "minstr \<Rightarrow> nat \<Rightarrow> 32 word" where
  "imm_at mi i = imm_of_op (operand_at mi i)"

section \<open>Formats\<close>

definition enc_r :: "32 word \<Rightarrow> 8 word \<Rightarrow> 8 word \<Rightarrow> 32 word \<Rightarrow> 8 word \<Rightarrow> 32 word \<Rightarrow> 32 word" where
  "enc_r f7 rs2 rs1 f3 rd opc =
     push_bit 25 f7 OR push_bit 20 (ucast rs2) OR push_bit 15 (ucast rs1) OR push_bit 12 f3 OR
     push_bit 7 (ucast rd) OR opc"

definition enc_i :: "32 word \<Rightarrow> 8 word \<Rightarrow> 32 word \<Rightarrow> 8 word \<Rightarrow> 32 word \<Rightarrow> 32 word" where
  "enc_i imm rs1 f3 rd opc =
     (let i = imm AND 0xFFF
      in push_bit 20 i OR push_bit 15 (ucast rs1) OR push_bit 12 f3 OR push_bit 7 (ucast rd) OR opc)"

definition enc_s :: "32 word \<Rightarrow> 8 word \<Rightarrow> 8 word \<Rightarrow> 32 word \<Rightarrow> 32 word \<Rightarrow> 32 word" where
  "enc_s imm rs2 rs1 f3 opc =
     (let i = imm AND 0xFFF; hi = drop_bit 5 i AND 0x7F; lo = i AND 0x1F
      in push_bit 25 hi OR push_bit 20 (ucast rs2) OR push_bit 15 (ucast rs1) OR push_bit 12 f3 OR
         push_bit 7 lo OR opc)"

definition enc_b :: "32 word \<Rightarrow> 8 word \<Rightarrow> 8 word \<Rightarrow> 32 word \<Rightarrow> 32 word \<Rightarrow> 32 word" where
  "enc_b imm rs2 rs1 f3 opc =
     (let i = imm AND 0x1FFF;
          b12 = drop_bit 12 i AND 0x1;
          b10_5 = drop_bit 5 i AND 0x3F;
          b4_1 = drop_bit 1 i AND 0xF;
          b11 = drop_bit 11 i AND 0x1
      in push_bit 31 b12 OR push_bit 25 b10_5 OR push_bit 20 (ucast rs2) OR push_bit 15 (ucast rs1) OR
         push_bit 12 f3 OR push_bit 8 b4_1 OR push_bit 7 b11 OR opc)"

definition enc_u :: "32 word \<Rightarrow> 8 word \<Rightarrow> 32 word \<Rightarrow> 32 word" where
  "enc_u imm rd opc = (imm AND 0xFFFFF000) OR push_bit 7 (ucast rd) OR opc"

definition enc_j :: "32 word \<Rightarrow> 8 word \<Rightarrow> 32 word \<Rightarrow> 32 word" where
  "enc_j imm rd opc =
     (let i = imm AND 0x1FFFFF;
          b20 = drop_bit 20 i AND 0x1;
          b10_1 = drop_bit 1 i AND 0x3FF;
          b11 = drop_bit 11 i AND 0x1;
          b19_12 = drop_bit 12 i AND 0xFF
      in push_bit 31 b20 OR push_bit 21 b10_1 OR push_bit 20 b11 OR push_bit 12 b19_12 OR
         push_bit 7 (ucast rd) OR opc)"

definition enc_amo ::
  "32 word \<Rightarrow> bool \<Rightarrow> bool \<Rightarrow> 32 word \<Rightarrow> 32 word \<Rightarrow> 32 word \<Rightarrow> 32 word \<Rightarrow> 32 word" where
  "enc_amo funct5 aq rl rs2 rs1 funct3 rd =
     push_bit 27 (funct5 AND 0x1F) OR push_bit 26 (of_bool aq) OR push_bit 25 (of_bool rl) OR
     push_bit 20 (rs2 AND 0x1F) OR push_bit 15 (rs1 AND 0x1F) OR push_bit 12 (funct3 AND 0x7) OR
     push_bit 7 (rd AND 0x1F) OR 0x2F"

section \<open>Instructions\<close>

definition i32 :: "int \<Rightarrow> int rust" where
  \<comment> \<open>the result of checked arithmetic on \<open>i32\<close>\<close>
  "i32 x = (if - (2 ^ 31) \<le> x \<and> x < 2 ^ 31 then Some x else None)"

definition dst_or_zero :: "minstr \<Rightarrow> 8 word" where
  \<comment> \<open>\<open>instr.dst.map(reg_of_dst).unwrap_or(0)\<close>\<close>
  "dst_or_zero mi = (case mi_dst mi of Some v \<Rightarrow> reg_of_dst v | None \<Rightarrow> 0)"

definition int_dst :: "minstr \<Rightarrow> 8 word" where
  \<comment> \<open>\<open>reg_of_dst(instr.dst.unwrap_or(VReg(0)))\<close>\<close>
  "int_dst mi = reg_of_dst (case mi_dst mi of Some v \<Rightarrow> v | None \<Rightarrow> 0)"

definition fp_dst :: "minstr \<Rightarrow> 8 word" where
  \<comment> \<open>\<open>fp_reg_of_dst(instr.dst.unwrap_or(VReg(0)))\<close>\<close>
  "fp_dst mi = fp_reg_of_dst (case mi_dst mi of Some v \<Rightarrow> v | None \<Rightarrow> 0)"

definition integer_arms :: "minstr \<Rightarrow> (mopcode \<times> 32 word rust) list" where
  "integer_arms mi =
     [(NOP, Some (0x00000013)),
      (MOV_RR, Some (enc_i 0 (ireg mi 0) 0x0 (dst_or_zero mi) 0x13)),
      (MOV_IMM, Some (enc_i (imm_at mi 0) 0 0x0 (dst_or_zero mi) 0x13)),
      (MOV_PR, Some (enc_i 0 (ireg mi 1) 0x0 (ireg mi 0) 0x13)),
      (ADD_RR, Some (enc_r 0x00 (ireg mi 1) (ireg mi 0) 0x0 (dst_or_zero mi) 0x33)),
      (SUB_RR, Some (enc_r 0x20 (ireg mi 1) (ireg mi 0) 0x0 (dst_or_zero mi) 0x33)),
      (MUL_RR, Some (enc_r 0x01 (ireg mi 1) (ireg mi 0) 0x0 (dst_or_zero mi) 0x33)),
      (DIV_RR, Some (enc_r 0x01 (ireg mi 1) (ireg mi 0) 0x4 (dst_or_zero mi) 0x33)),
      (UDIV_RR, Some (enc_r 0x01 (ireg mi 1) (ireg mi 0) 0x5 (dst_or_zero mi) 0x33)),
      (REM_RR, Some (enc_r 0x01 (ireg mi 1) (ireg mi 0) 0x6 (dst_or_zero mi) 0x33)),
      (UREM_RR, Some (enc_r 0x01 (ireg mi 1) (ireg mi 0) 0x7 (dst_or_zero mi) 0x33)),
      (AND_RR, Some (enc_r 0x00 (ireg mi 1) (ireg mi 0) 0x7 (dst_or_zero mi) 0x33)),
      (OR_RR, Some (enc_r 0x00 (ireg mi 1) (ireg mi 0) 0x6 (dst_or_zero mi) 0x33)),
      (XOR_RR, Some (enc_r 0x00 (ireg mi 1) (ireg mi 0) 0x4 (dst_or_zero mi) 0x33)),
      (SLL_RR, Some (enc_r 0x00 (ireg mi 1) (ireg mi 0) 0x1 (dst_or_zero mi) 0x33)),
      (SRL_RR, Some (enc_r 0x00 (ireg mi 1) (ireg mi 0) 0x5 (dst_or_zero mi) 0x33)),
      (SRA_RR, Some (enc_r 0x20 (ireg mi 1) (ireg mi 0) 0x5 (dst_or_zero mi) 0x33)),
      (SLT_RR, Some (enc_r 0x00 (ireg mi 1) (ireg mi 0) 0x2 (dst_or_zero mi) 0x33)),
      (SLTU_RR, Some (enc_r 0x00 (ireg mi 1) (ireg mi 0) 0x3 (dst_or_zero mi) 0x33)),
      (ADDI, Some (enc_i (imm_at mi 1) (ireg mi 0) 0x0 (dst_or_zero mi) 0x13)),
      (XORI, Some (enc_i (imm_at mi 1) (ireg mi 0) 0x4 (dst_or_zero mi) 0x13)),
      (SLTIU, Some (enc_i (imm_at mi 1) (ireg mi 0) 0x3 (dst_or_zero mi) 0x13)),
      (LW, Some (enc_i (imm_at mi 2) (ireg mi 0) 0x2 (dst_or_zero mi) 0x03)),
      (LD, Some (enc_i (imm_at mi 2) (ireg mi 0) 0x3 (dst_or_zero mi) 0x03)),
      (SW, Some (enc_s (imm_at mi 2) (ireg mi 1) (ireg mi 0) 0x2 0x23)),
      (SD, Some (enc_s (imm_at mi 2) (ireg mi 1) (ireg mi 0) 0x3 0x23)),
      (BEQ, Some (enc_b (imm_at mi 2) (ireg mi 1) (ireg mi 0) 0x0 0x63)),
      (BNE, Some (enc_b (imm_at mi 2) (ireg mi 1) (ireg mi 0) 0x1 0x63)),
      (BLT, Some (enc_b (imm_at mi 2) (ireg mi 1) (ireg mi 0) 0x4 0x63)),
      (BGE, Some (enc_b (imm_at mi 2) (ireg mi 1) (ireg mi 0) 0x5 0x63)),
      (BLTU, Some (enc_b (imm_at mi 2) (ireg mi 1) (ireg mi 0) 0x6 0x63)),
      (BGEU, Some (enc_b (imm_at mi 2) (ireg mi 1) (ireg mi 0) 0x7 0x63)),
      (JAL, Some (enc_j (imm_at mi 0) (dst_or_zero mi) 0x6F)),
      (JALR, let d = (case mi_dst mi of Some v \<Rightarrow> reg_of_dst v | None \<Rightarrow> ireg mi 0);
           base_idx = (if mi_dst mi \<noteq> None then 0 else 1)
       in Some (enc_i (imm_at mi (base_idx + 1)) (ireg mi base_idx) 0x0 d 0x67)),
      (RET, Some (enc_i 0 1 0x0 0 0x67)),
      (LUI, Some (enc_u (imm_at mi 0) (dst_or_zero mi) 0x37)),
      (AUIPC, Some (enc_u (imm_at mi 0) (dst_or_zero mi) 0x17))]"

definition atomic_arms :: "minstr \<Rightarrow> (mopcode \<times> 32 word rust) list" where
  "atomic_arms mi =
     [(FENCE, Some (0x0FF0000F)),
      (LR_W, Some (enc_amo 0b00010 True True 0 (ucast (ireg mi 0)) 0b010 (ucast (dst_or_zero mi)))),
      (LR_D, Some (enc_amo 0b00010 True True 0 (ucast (ireg mi 0)) 0b011 (ucast (dst_or_zero mi)))),
      (SC_W, Some (enc_amo 0b00011 True True (ucast (ireg mi 1)) (ucast (ireg mi 0)) 0b010 (ucast (dst_or_zero mi)))),
      (SC_D, Some (enc_amo 0b00011 True True (ucast (ireg mi 1)) (ucast (ireg mi 0)) 0b011 (ucast (dst_or_zero mi)))),
      (AMOADD_W, Some (enc_amo 0b00000 True True (ucast (ireg mi 1)) (ucast (ireg mi 0)) 0b010 (ucast (dst_or_zero mi)))),
      (AMOSWAP_W, Some (enc_amo 0b00001 True True (ucast (ireg mi 1)) (ucast (ireg mi 0)) 0b010 (ucast (dst_or_zero mi)))),
      (AMOXOR_W, Some (enc_amo 0b00100 True True (ucast (ireg mi 1)) (ucast (ireg mi 0)) 0b010 (ucast (dst_or_zero mi)))),
      (AMOAND_W, Some (enc_amo 0b01100 True True (ucast (ireg mi 1)) (ucast (ireg mi 0)) 0b010 (ucast (dst_or_zero mi)))),
      (AMOOR_W, Some (enc_amo 0b01000 True True (ucast (ireg mi 1)) (ucast (ireg mi 0)) 0b010 (ucast (dst_or_zero mi)))),
      (AMOMIN_W, Some (enc_amo 0b10000 True True (ucast (ireg mi 1)) (ucast (ireg mi 0)) 0b010 (ucast (dst_or_zero mi)))),
      (AMOMAX_W, Some (enc_amo 0b10100 True True (ucast (ireg mi 1)) (ucast (ireg mi 0)) 0b010 (ucast (dst_or_zero mi)))),
      (AMOMINU_W, Some (enc_amo 0b11000 True True (ucast (ireg mi 1)) (ucast (ireg mi 0)) 0b010 (ucast (dst_or_zero mi)))),
      (AMOMAXU_W, Some (enc_amo 0b11100 True True (ucast (ireg mi 1)) (ucast (ireg mi 0)) 0b010 (ucast (dst_or_zero mi)))),
      (AMOADD_D, Some (enc_amo 0b00000 True True (ucast (ireg mi 1)) (ucast (ireg mi 0)) 0b011 (ucast (dst_or_zero mi)))),
      (AMOSWAP_D, Some (enc_amo 0b00001 True True (ucast (ireg mi 1)) (ucast (ireg mi 0)) 0b011 (ucast (dst_or_zero mi)))),
      (AMOXOR_D, Some (enc_amo 0b00100 True True (ucast (ireg mi 1)) (ucast (ireg mi 0)) 0b011 (ucast (dst_or_zero mi)))),
      (AMOAND_D, Some (enc_amo 0b01100 True True (ucast (ireg mi 1)) (ucast (ireg mi 0)) 0b011 (ucast (dst_or_zero mi)))),
      (AMOOR_D, Some (enc_amo 0b01000 True True (ucast (ireg mi 1)) (ucast (ireg mi 0)) 0b011 (ucast (dst_or_zero mi))))]"

definition double_arms :: "minstr \<Rightarrow> (mopcode \<times> 32 word rust) list" where
  "double_arms mi =
     [(ADDI_FP_SLOT, do { a \<leftarrow> i32 (sint (imm_at mi 0) + 1); b \<leftarrow> i32 (- a); off \<leftarrow> i32 (b * 8);
           Some (enc_i (word_of_int off) 8 0x0 (dst_or_zero mi) 0x13) }),
      (LD_REG, Some (enc_i 0 (ireg mi 0) 0x3 (dst_or_zero mi) 0x03)),
      (SD_REG, Some (enc_s 0 (ireg mi 1) (ireg mi 0) 0x3 0x23)),
      (FADD_D, Some (enc_r 0x01 (freg mi 1) (freg mi 0) 0x7 (fp_dst mi) 0x53)),
      (FSUB_D, Some (enc_r 0x05 (freg mi 1) (freg mi 0) 0x7 (fp_dst mi) 0x53)),
      (FMUL_D, Some (enc_r 0x09 (freg mi 1) (freg mi 0) 0x7 (fp_dst mi) 0x53)),
      (FDIV_D, Some (enc_r 0x0D (freg mi 1) (freg mi 0) 0x7 (fp_dst mi) 0x53)),
      (FSQRT_D, Some (enc_r 0x2D 0 (freg mi 0) 0x7 (fp_dst mi) 0x53)),
      (FNEG_D, Some (enc_r 0x21 (freg mi 0) (freg mi 0) 0x1 (fp_dst mi) 0x53)),
      (FCMP_EQ_D, Some (enc_r 0x51 (freg mi 1) (freg mi 0) 0x2 (int_dst mi) 0x53)),
      (FCMP_LT_D, Some (enc_r 0x51 (freg mi 1) (freg mi 0) 0x1 (int_dst mi) 0x53)),
      (FCMP_LE_D, Some (enc_r 0x51 (freg mi 1) (freg mi 0) 0x0 (int_dst mi) 0x53)),
      (FCVT_W_D, Some (enc_r 0x61 0 (freg mi 0) 0x1 (int_dst mi) 0x53)),
      (FCVT_L_D, Some (enc_r 0x61 2 (freg mi 0) 0x1 (int_dst mi) 0x53)),
      (FCVT_D_W, Some (enc_r 0x69 0 (ireg mi 0) 0x0 (fp_dst mi) 0x53)),
      (FCVT_D_L, Some (enc_r 0x69 2 (ireg mi 0) 0x0 (fp_dst mi) 0x53)),
      (FMV_D_D, Some (enc_r 0x11 (freg mi 0) (freg mi 0) 0x0 (fp_dst mi) 0x53)),
      (FLD, Some (enc_i (imm_at mi 1) (ireg mi 0) 0x3 (fp_dst mi) 0x07)),
      (FSD, Some (enc_s (imm_at mi 2) (freg mi 1) (ireg mi 0) 0x3 0x27)),
      (FP_LOAD_MR, do { byte_off \<leftarrow> i32 (sint (imm_at mi 0) * 8);
           Some (enc_i (word_of_int byte_off) 8 0x3 (fp_dst mi) 0x07) }),
      (FP_STORE_RM, do { byte_off \<leftarrow> i32 (sint (imm_at mi 0) * 8);
           Some (enc_s (word_of_int byte_off) (freg mi 1) 8 0x3 0x27) })]"

definition single_arms :: "minstr \<Rightarrow> (mopcode \<times> 32 word rust) list" where
  "single_arms mi =
     [(FADD_S, Some (enc_r 0x00 (freg mi 1) (freg mi 0) 0x7 (fp_dst mi) 0x53)),
      (FSUB_S, Some (enc_r 0x04 (freg mi 1) (freg mi 0) 0x7 (fp_dst mi) 0x53)),
      (FMUL_S, Some (enc_r 0x08 (freg mi 1) (freg mi 0) 0x7 (fp_dst mi) 0x53)),
      (FDIV_S, Some (enc_r 0x0C (freg mi 1) (freg mi 0) 0x7 (fp_dst mi) 0x53)),
      (FNEG_S, Some (enc_r 0x20 (freg mi 0) (freg mi 0) 0x1 (fp_dst mi) 0x53)),
      (FCMP_EQ_S, Some (enc_r 0x50 (freg mi 1) (freg mi 0) 0x2 (int_dst mi) 0x53)),
      (FCMP_LT_S, Some (enc_r 0x50 (freg mi 1) (freg mi 0) 0x1 (int_dst mi) 0x53)),
      (FCMP_LE_S, Some (enc_r 0x50 (freg mi 1) (freg mi 0) 0x0 (int_dst mi) 0x53)),
      (FCVT_W_S, Some (enc_r 0x60 0 (freg mi 0) 0x1 (int_dst mi) 0x53)),
      (FCVT_L_S, Some (enc_r 0x60 2 (freg mi 0) 0x1 (int_dst mi) 0x53)),
      (FCVT_S_W, Some (enc_r 0x68 0 (ireg mi 0) 0x0 (fp_dst mi) 0x53)),
      (FCVT_S_L, Some (enc_r 0x68 2 (ireg mi 0) 0x0 (fp_dst mi) 0x53)),
      (FLW, Some (enc_i (imm_at mi 1) (ireg mi 0) 0x2 (fp_dst mi) 0x07)),
      (FSW, Some (enc_s (imm_at mi 2) (freg mi 1) (ireg mi 0) 0x2 0x27))]"

definition rv_encode_instr :: "minstr \<Rightarrow> 32 word rust" where
  \<comment> \<open>the arms of the \<open>match\<close> on the opcode; the last one panics\<close>
  "rv_encode_instr mi =
     (case map_of (integer_arms mi @ atomic_arms mi @ double_arms mi @ single_arms mi) (mi_opcode mi) of
        Some w \<Rightarrow> w | None \<Rightarrow> None)"

section \<open>Functions\<close>

datatype patch_kind = Branch13 | Jal21

definition patch_from_instr :: "minstr \<Rightarrow> (nat \<times> patch_kind) option" where
  "patch_from_instr mi =
     (case (if mi_opcode mi \<in> {BEQ, BNE, BLT, BGE, BLTU, BGEU} then operand_at mi 2 else None) of
        Some (MBlock b) \<Rightarrow> Some (b, Branch13)
      | _ \<Rightarrow> (case (if mi_opcode mi = JAL then operand_at mi 0 else None) of
                Some (MBlock b) \<Rightarrow> Some (b, Jal21)
              | _ \<Rightarrow> None))"

type_synonym patch = "nat \<times> nat \<times> patch_kind"
type_synonym emission = "byte list \<times> patch list \<times> debug_line_row list"

definition rv_emit_instr :: "emission \<Rightarrow> minstr \<Rightarrow> emission rust" where
  "rv_emit_instr st mi =
     (case st of (data, patches, debug_rows) \<Rightarrow>
        let off = length data;
            debug_rows = (case mi_debug_loc mi of
                            Some loc \<Rightarrow> debug_rows @
                              [\<lparr>dl_address = off, dl_line = unat (debug_loc.dl_line loc),
                                dl_column = unat (debug_loc.dl_column loc)\<rparr>]
                          | None \<Rightarrow> debug_rows);
            patches = (case patch_from_instr mi of
                         Some (target, kind) \<Rightarrow> patches @ [(off, target, kind)] | None \<Rightarrow> patches)
        in do { w \<leftarrow> rv_encode_instr mi; Some (data @ enc_u32 (unat w), patches, debug_rows) })"

definition block_offset :: "machine_function \<Rightarrow> nat \<Rightarrow> nat" where
  "block_offset mf target = sum_list (map (\<lambda>b. length (mb_instrs b) * 4) (take target (mf_blocks mf)))"

definition patched :: "patch_kind \<Rightarrow> int \<Rightarrow> 32 word \<Rightarrow> 32 word" where
  "patched kind rel old =
     (case kind of
        Branch13 \<Rightarrow>
          (let rs2 = ucast (drop_bit 20 old AND 0x1F);
               rs1 = ucast (drop_bit 15 old AND 0x1F);
               f3 = drop_bit 12 old AND 0x7
           in enc_b (word_of_int rel) rs2 rs1 f3 0x63)
      | Jal21 \<Rightarrow> (let rd = ucast (drop_bit 7 old AND 0x1F) in enc_j (word_of_int rel) rd 0x6F))"

definition apply_patch :: "machine_function \<Rightarrow> byte list \<Rightarrow> patch \<Rightarrow> byte list rust" where
  "apply_patch mf data p =
     (case p of (off, target, kind) \<Rightarrow>
        let rel = int (block_offset mf target) - int off
        in if length data < off + 4 then None
           else let old = of_nat (from_le (take 4 (drop off data)))
                in Some (take off data @ enc_u32 (unat (patched kind rel old)) @ drop (off + 4) data))"

definition rv_emit_function :: "machine_function \<Rightarrow> obj_section rust" where
  "rv_emit_function mf =
     do { (data, patches, debug_rows) \<leftarrow>
            try_foldl (\<lambda>st block. try_foldl rv_emit_instr st (mb_instrs block)) ([], [], []) (mf_blocks mf);
          data \<leftarrow> try_foldl (apply_patch mf) data patches;
          Some \<lparr>sec_name = ''.text'', sec_data = data, sec_relocs = [], sec_debug_rows = debug_rows\<rparr> }"

end
