(* ===== verification/RiscV_Decode.thy ===== *)
theory RiscV_Decode
  imports RiscV_Instr LRIR_Codec
begin

text \<open>
  The specification of the encoder: the instructions of RV64IMAFD it uses, decoded from their words as the
  RISC-V unprivileged manual lays them out, and the instruction every machine instruction stands for, as
  the opcode list documents it.
\<close>

section \<open>The instruction set\<close>

datatype rv_alu = RvAdd | RvSub | RvMul | RvDiv | RvDivu | RvRem | RvRemu | RvAnd | RvOr | RvXor
  | RvSll | RvSrl | RvSra | RvSlt | RvSltu
datatype rv_imm = RvAddi | RvXori | RvSltiu | RvJalr | RvLw | RvLd | RvFlw | RvFld
datatype rv_store = RvSw | RvSd | RvFsw | RvFsd
datatype rv_branch = RvBeq | RvBne | RvBlt | RvBge | RvBltu | RvBgeu
datatype rv_amo = RvLr | RvSc | RvAmoadd | RvAmoswap | RvAmoxor | RvAmoand | RvAmoor | RvAmomin | RvAmomax
  | RvAmominu | RvAmomaxu
datatype rv_fp = RvFadd | RvFsub | RvFmul | RvFdiv
datatype rv_fcmp = RvFeq | RvFlt | RvFle
datatype rv_fmt = RvS | RvD

type_synonym reg5 = "5 word"

datatype rv_instr =
    RvR rv_alu reg5 reg5 reg5 \<comment> \<open>destination, sources\<close>
  | RvI rv_imm reg5 reg5 int
  | RvStore rv_store reg5 reg5 int \<comment> \<open>value, base, offset\<close>
  | RvB rv_branch reg5 reg5 int
  | RvLui reg5 "20 word"
  | RvAuipc reg5 "20 word"
  | RvJal reg5 int
  | RvFence "4 word" "4 word"
  | RvAmo rv_amo bool bool bool reg5 reg5 reg5 \<comment> \<open>doubleword, acquire, release, destination, address, value\<close>
  | RvFp rv_fp rv_fmt "3 word" reg5 reg5 reg5
  | RvFsqrt rv_fmt "3 word" reg5 reg5
  | RvFsgnj bool rv_fmt reg5 reg5 reg5 \<comment> \<open>negated\<close>
  | RvFcmp rv_fcmp rv_fmt reg5 reg5 reg5
  | RvFcvtFp rv_fmt "3 word" reg5 reg5 \<comment> \<open>to the format, from the other one\<close>
  | RvFcvtToInt bool rv_fmt "3 word" reg5 reg5 \<comment> \<open>64 bits\<close>
  | RvFcvtFromInt bool rv_fmt "3 word" reg5 reg5

section \<open>Decoding\<close>

type_synonym ins = "32 word"

definition f_opc :: "ins \<Rightarrow> 7 word" where "f_opc w = ucast w"
definition f_rd :: "ins \<Rightarrow> 5 word" where "f_rd w = ucast (drop_bit 7 w)"
definition f_f3 :: "ins \<Rightarrow> 3 word" where "f_f3 w = ucast (drop_bit 12 w)"
definition f_rs1 :: "ins \<Rightarrow> 5 word" where "f_rs1 w = ucast (drop_bit 15 w)"
definition f_rs2 :: "ins \<Rightarrow> 5 word" where "f_rs2 w = ucast (drop_bit 20 w)"
definition f_f7 :: "ins \<Rightarrow> 7 word" where "f_f7 w = ucast (drop_bit 25 w)"

definition imm_i :: "ins \<Rightarrow> 12 word" where
  "imm_i w = ucast (drop_bit 20 w)"

definition imm_s :: "ins \<Rightarrow> 12 word" where
  "imm_s w = push_bit 5 (ucast (drop_bit 25 w)) OR (ucast (drop_bit 7 w) AND 0x1F)"

definition imm_b :: "ins \<Rightarrow> 13 word" where
  "imm_b w =
     push_bit 12 (ucast (drop_bit 31 w)) OR push_bit 11 (ucast (drop_bit 7 w) AND 1) OR
     push_bit 5 (ucast (drop_bit 25 w) AND 0x3F) OR push_bit 1 (ucast (drop_bit 8 w) AND 0xF)"

definition imm_u :: "ins \<Rightarrow> 20 word" where
  "imm_u w = ucast (drop_bit 12 w)"

definition imm_j :: "ins \<Rightarrow> 21 word" where
  "imm_j w =
     push_bit 20 (ucast (drop_bit 31 w)) OR push_bit 12 (ucast (drop_bit 12 w) AND 0xFF) OR
     push_bit 11 (ucast (drop_bit 20 w) AND 1) OR push_bit 1 (ucast (drop_bit 21 w) AND 0x3FF)"

definition alu_table :: "((7 word \<times> 3 word) \<times> rv_alu) list" where
  "alu_table =
     [((0, 0), RvAdd), ((0x20, 0), RvSub), ((0, 1), RvSll), ((0, 2), RvSlt), ((0, 3), RvSltu), ((0, 4), RvXor),
      ((0, 5), RvSrl), ((0x20, 5), RvSra), ((0, 6), RvOr), ((0, 7), RvAnd), ((1, 0), RvMul), ((1, 4), RvDiv),
      ((1, 5), RvDivu), ((1, 6), RvRem), ((1, 7), RvRemu)]"

definition imm_table :: "((7 word \<times> 3 word) \<times> rv_imm) list" where
  "imm_table =
     [((0x13, 0), RvAddi), ((0x13, 3), RvSltiu), ((0x13, 4), RvXori), ((0x67, 0), RvJalr), ((0x03, 2), RvLw),
      ((0x03, 3), RvLd), ((0x07, 2), RvFlw), ((0x07, 3), RvFld)]"

definition store_table :: "((7 word \<times> 3 word) \<times> rv_store) list" where
  "store_table = [((0x23, 2), RvSw), ((0x23, 3), RvSd), ((0x27, 2), RvFsw), ((0x27, 3), RvFsd)]"

definition branch_table :: "(3 word \<times> rv_branch) list" where
  "branch_table = [(0, RvBeq), (1, RvBne), (4, RvBlt), (5, RvBge), (6, RvBltu), (7, RvBgeu)]"

definition amo_table :: "(5 word \<times> rv_amo) list" where
  "amo_table =
     [(0, RvAmoadd), (1, RvAmoswap), (2, RvLr), (3, RvSc), (4, RvAmoxor), (8, RvAmoor), (12, RvAmoand),
      (16, RvAmomin), (20, RvAmomax), (24, RvAmominu), (28, RvAmomaxu)]"

definition decode_amo :: "ins \<Rightarrow> rv_instr option" where
  "decode_amo w =
     (if f_f3 w = 2 \<or> f_f3 w = 3
      then map_option (\<lambda>a. RvAmo a (f_f3 w = 3) (bit w 26) (bit w 25) (f_rd w) (f_rs1 w) (f_rs2 w))
             (map_of amo_table (ucast (drop_bit 27 w)))
      else None)"

definition decode_fp :: "ins \<Rightarrow> rv_instr option" where
  "decode_fp w =
     do { fmt \<leftarrow> map_of [(0, RvS), (1, RvD)] (ucast (drop_bit 25 w) :: 2 word);
          let f5 = (ucast (drop_bit 27 w) :: 5 word); let rm = f_f3 w; let rd = f_rd w;
          let rs1 = f_rs1 w; let rs2 = f_rs2 w;
          if f5 = 0x00 then Some (RvFp RvFadd fmt rm rd rs1 rs2)
          else if f5 = 0x01 then Some (RvFp RvFsub fmt rm rd rs1 rs2)
          else if f5 = 0x02 then Some (RvFp RvFmul fmt rm rd rs1 rs2)
          else if f5 = 0x03 then Some (RvFp RvFdiv fmt rm rd rs1 rs2)
          else if f5 = 0x0B \<and> rs2 = 0 then Some (RvFsqrt fmt rm rd rs1)
          else if f5 = 0x04 \<and> rm \<in> {0, 1} then Some (RvFsgnj (rm = 1) fmt rd rs1 rs2)
          else if f5 = 0x08 \<and> rs2 = (case fmt of RvS \<Rightarrow> 1 | RvD \<Rightarrow> 0) then Some (RvFcvtFp fmt rm rd rs1)
          else if f5 = 0x14 then
            map_option (\<lambda>c. RvFcmp c fmt rd rs1 rs2) (map_of [(0, RvFle), (1, RvFlt), (2, RvFeq)] rm)
          else if f5 = 0x18 \<and> rs2 \<in> {0, 2} then Some (RvFcvtToInt (rs2 = 2) fmt rm rd rs1)
          else if f5 = 0x1A \<and> rs2 \<in> {0, 2} then Some (RvFcvtFromInt (rs2 = 2) fmt rm rd rs1)
          else None }"

definition rv_decode :: "ins \<Rightarrow> rv_instr option" where
  "rv_decode w =
     (if f_opc w = 0x33 then
        map_option (\<lambda>m. RvR m (f_rd w) (f_rs1 w) (f_rs2 w)) (map_of alu_table (f_f7 w, f_f3 w))
      else if f_opc w = 0x63 then
        map_option (\<lambda>m. RvB m (f_rs1 w) (f_rs2 w) (sint (imm_b w))) (map_of branch_table (f_f3 w))
      else if f_opc w = 0x37 then Some (RvLui (f_rd w) (imm_u w))
      else if f_opc w = 0x17 then Some (RvAuipc (f_rd w) (imm_u w))
      else if f_opc w = 0x6F then Some (RvJal (f_rd w) (sint (imm_j w)))
      else if f_opc w = 0x0F \<and> f_f3 w = 0 then
        Some (RvFence (ucast (drop_bit 24 w)) (ucast (drop_bit 20 w)))
      else if f_opc w = 0x2F then decode_amo w
      else if f_opc w = 0x53 then decode_fp w
      else if f_opc w \<in> {0x23, 0x27} then
        map_option (\<lambda>m. RvStore m (f_rs2 w) (f_rs1 w) (sint (imm_s w))) (map_of store_table (f_opc w, f_f3 w))
      else
        map_option (\<lambda>m. RvI m (f_rd w) (f_rs1 w) (sint (imm_i w))) (map_of imm_table (f_opc w, f_f3 w)))"

primrec rv_fetch :: "nat \<Rightarrow> byte list \<Rightarrow> ins list" where
  \<comment> \<open>the words of a code section, low byte first\<close>
  "rv_fetch 0 bs = []"
| "rv_fetch (Suc n) bs = of_nat (from_le (take 4 bs)) # rv_fetch n (drop 4 bs)"

definition rv_disassemble :: "byte list \<Rightarrow> rv_instr option list" where
  "rv_disassemble bs = map rv_decode (rv_fetch (length bs div 4) bs)"

section \<open>What the machine instructions stand for\<close>

fun x_of_op :: "moperand \<Rightarrow> reg5 option" where
  "x_of_op (MPReg r) = (if r < 32 then Some (ucast r) else None)"
| "x_of_op (MVReg v) = (if v < 32 then Some (ucast v) else None)"
| "x_of_op _ = None"

fun f_of_op :: "moperand \<Rightarrow> reg5 option" where
  "f_of_op (MPReg r) = (if 32 \<le> r \<and> r < 64 then Some (ucast (r - 32)) else None)"
| "f_of_op (MVReg v) = (if 32 \<le> v \<and> v < 64 then Some (ucast (v - 32)) else None)"
| "f_of_op _ = None"

fun x_of_dst :: "vreg option \<Rightarrow> reg5 option" where
  "x_of_dst (Some v) = (if v < 32 then Some (ucast v) else None)"
| "x_of_dst None = None"

fun f_of_dst :: "vreg option \<Rightarrow> reg5 option" where
  "f_of_dst (Some v) = (if 32 \<le> v \<and> v < 64 then Some (ucast (v - 32)) else None)"
| "f_of_dst None = None"

definition alu_ops :: "(mopcode \<times> rv_alu) list" where
  "alu_ops =
     [(ADD_RR, RvAdd), (SUB_RR, RvSub), (MUL_RR, RvMul), (DIV_RR, RvDiv), (UDIV_RR, RvDivu), (REM_RR, RvRem),
      (UREM_RR, RvRemu), (AND_RR, RvAnd), (OR_RR, RvOr), (XOR_RR, RvXor), (SLL_RR, RvSll), (SRL_RR, RvSrl),
      (SRA_RR, RvSra), (SLT_RR, RvSlt), (SLTU_RR, RvSltu)]"

definition imm_ops :: "(mopcode \<times> rv_imm) list" where
  "imm_ops = [(ADDI, RvAddi), (XORI, RvXori), (SLTIU, RvSltiu)]"

definition branch_ops :: "(mopcode \<times> rv_branch) list" where
  "branch_ops = [(BEQ, RvBeq), (BNE, RvBne), (BLT, RvBlt), (BGE, RvBge), (BLTU, RvBltu), (BGEU, RvBgeu)]"

definition amo_ops :: "(mopcode \<times> rv_amo \<times> bool) list" where
  "amo_ops =
     [(SC_W, RvSc, False), (AMOADD_W, RvAmoadd, False), (AMOSWAP_W, RvAmoswap, False), (AMOXOR_W, RvAmoxor, False),
      (AMOAND_W, RvAmoand, False), (AMOOR_W, RvAmoor, False), (AMOMIN_W, RvAmomin, False),
      (AMOMAX_W, RvAmomax, False), (AMOMINU_W, RvAmominu, False), (AMOMAXU_W, RvAmomaxu, False),
      (SC_D, RvSc, True), (AMOADD_D, RvAmoadd, True), (AMOSWAP_D, RvAmoswap, True), (AMOXOR_D, RvAmoxor, True),
      (AMOAND_D, RvAmoand, True), (AMOOR_D, RvAmoor, True)]"

definition fp_ops :: "(mopcode \<times> rv_fp \<times> rv_fmt) list" where
  "fp_ops =
     [(FADD_D, RvFadd, RvD), (FSUB_D, RvFsub, RvD), (FMUL_D, RvFmul, RvD), (FDIV_D, RvFdiv, RvD),
      (FADD_S, RvFadd, RvS), (FSUB_S, RvFsub, RvS), (FMUL_S, RvFmul, RvS), (FDIV_S, RvFdiv, RvS)]"

definition fcmp_ops :: "(mopcode \<times> rv_fcmp \<times> rv_fmt) list" where
  "fcmp_ops =
     [(FCMP_EQ_D, RvFeq, RvD), (FCMP_LT_D, RvFlt, RvD), (FCMP_LE_D, RvFle, RvD),
      (FCMP_EQ_S, RvFeq, RvS), (FCMP_LT_S, RvFlt, RvS), (FCMP_LE_S, RvFle, RvS)]"

definition fcvt_to_ops :: "(mopcode \<times> bool \<times> rv_fmt) list" where
  "fcvt_to_ops = [(FCVT_W_D, False, RvD), (FCVT_L_D, True, RvD), (FCVT_W_S, False, RvS), (FCVT_L_S, True, RvS)]"

definition fcvt_from_ops :: "(mopcode \<times> bool \<times> rv_fmt) list" where
  "fcvt_from_ops = [(FCVT_D_W, False, RvD), (FCVT_D_L, True, RvD), (FCVT_S_W, False, RvS), (FCVT_S_L, True, RvS)]"

text \<open>
  \<open>rv_means rel mi i\<close>: the machine instruction \<open>mi\<close>, whose registers are physical and whose immediates fit
  their fields, stands for \<open>i\<close>; \<open>rel b\<close> is the distance to block \<open>b\<close>.
\<close>

inductive rv_means :: "(nat \<Rightarrow> int) \<Rightarrow> minstr \<Rightarrow> rv_instr \<Rightarrow> bool" for rel and mi where
  nop: "mi_opcode mi = NOP \<Longrightarrow> rv_means rel mi (RvI RvAddi 0 0 0)"
| mov_rr: "mi_opcode mi = MOV_RR \<Longrightarrow> x_of_dst (mi_dst mi) = Some rd \<Longrightarrow> mi_operands mi = [a] \<Longrightarrow>
    x_of_op a = Some rs \<Longrightarrow> rv_means rel mi (RvI RvAddi rd rs 0)"
| mov_imm: "mi_opcode mi = MOV_IMM \<Longrightarrow> x_of_dst (mi_dst mi) = Some rd \<Longrightarrow> mi_operands mi = [MImm i] \<Longrightarrow>
    - 2048 \<le> i \<Longrightarrow> i < 2048 \<Longrightarrow> rv_means rel mi (RvI RvAddi rd 0 i)"
| mov_pr: "mi_opcode mi = MOV_PR \<Longrightarrow> mi_operands mi = [d, a] \<Longrightarrow> x_of_op d = Some rd \<Longrightarrow>
    x_of_op a = Some rs \<Longrightarrow> rv_means rel mi (RvI RvAddi rd rs 0)"
| alu: "(mi_opcode mi, m) \<in> set alu_ops \<Longrightarrow> x_of_dst (mi_dst mi) = Some rd \<Longrightarrow> mi_operands mi = [a, b] \<Longrightarrow>
    x_of_op a = Some rs1 \<Longrightarrow> x_of_op b = Some rs2 \<Longrightarrow> rv_means rel mi (RvR m rd rs1 rs2)"
| alu_imm: "(mi_opcode mi, m) \<in> set imm_ops \<Longrightarrow> x_of_dst (mi_dst mi) = Some rd \<Longrightarrow>
    mi_operands mi = [a, MImm i] \<Longrightarrow> x_of_op a = Some rs \<Longrightarrow> - 2048 \<le> i \<Longrightarrow> i < 2048 \<Longrightarrow>
    rv_means rel mi (RvI m rd rs i)"
| load: "(mi_opcode mi, m) \<in> {(LW, RvLw), (LD, RvLd)} \<Longrightarrow> x_of_dst (mi_dst mi) = Some rd \<Longrightarrow>
    mi_operands mi = [a, b, MImm i] \<Longrightarrow> x_of_op a = Some rs \<Longrightarrow> - 2048 \<le> i \<Longrightarrow> i < 2048 \<Longrightarrow>
    rv_means rel mi (RvI m rd rs i)"
| store: "(mi_opcode mi, m) \<in> {(SW, RvSw), (SD, RvSd)} \<Longrightarrow> mi_operands mi = [a, b, MImm i] \<Longrightarrow>
    x_of_op a = Some base \<Longrightarrow> x_of_op b = Some v \<Longrightarrow> - 2048 \<le> i \<Longrightarrow> i < 2048 \<Longrightarrow>
    rv_means rel mi (RvStore m v base i)"
| load_reg: "mi_opcode mi = LD_REG \<Longrightarrow> x_of_dst (mi_dst mi) = Some rd \<Longrightarrow> mi_operands mi = [a] \<Longrightarrow>
    x_of_op a = Some rs \<Longrightarrow> rv_means rel mi (RvI RvLd rd rs 0)"
| store_reg: "mi_opcode mi = SD_REG \<Longrightarrow> mi_operands mi = [a, b] \<Longrightarrow> x_of_op a = Some base \<Longrightarrow>
    x_of_op b = Some v \<Longrightarrow> rv_means rel mi (RvStore RvSd v base 0)"
| branch: "(mi_opcode mi, m) \<in> set branch_ops \<Longrightarrow> mi_operands mi = [a, b, c] \<Longrightarrow> x_of_op a = Some rs1 \<Longrightarrow>
    x_of_op b = Some rs2 \<Longrightarrow> c = MImm i \<or> (\<exists>t. c = MBlock t \<and> rel t = i) \<Longrightarrow> even i \<Longrightarrow> - 4096 \<le> i \<Longrightarrow>
    i < 4096 \<Longrightarrow> rv_means rel mi (RvB m rs1 rs2 i)"
| jump: "mi_opcode mi = JAL \<Longrightarrow> mi_dst mi = None \<Longrightarrow> mi_operands mi = [c] \<Longrightarrow>
    c = MImm i \<or> (\<exists>t. c = MBlock t \<and> rel t = i) \<Longrightarrow> even i \<Longrightarrow> - 1048576 \<le> i \<Longrightarrow> i < 1048576 \<Longrightarrow>
    rv_means rel mi (RvJal 0 i)"
| call: "mi_opcode mi = JALR \<Longrightarrow> mi_dst mi = None \<Longrightarrow> mi_operands mi = [l, a, MImm i] \<Longrightarrow>
    x_of_op l = Some link \<Longrightarrow> x_of_op a = Some rs \<Longrightarrow> - 2048 \<le> i \<Longrightarrow> i < 2048 \<Longrightarrow>
    rv_means rel mi (RvI RvJalr link rs i)"
| call_dst: "mi_opcode mi = JALR \<Longrightarrow> x_of_dst (mi_dst mi) = Some link \<Longrightarrow> mi_operands mi = [a, MImm i] \<Longrightarrow>
    x_of_op a = Some rs \<Longrightarrow> - 2048 \<le> i \<Longrightarrow> i < 2048 \<Longrightarrow> rv_means rel mi (RvI RvJalr link rs i)"
| ret: "mi_opcode mi = RET \<Longrightarrow> rv_means rel mi (RvI RvJalr 0 1 0)"
| lui: "mi_opcode mi = LUI \<Longrightarrow> x_of_dst (mi_dst mi) = Some rd \<Longrightarrow> mi_operands mi = [MImm i] \<Longrightarrow>
    rv_means rel mi (RvLui rd (ucast (drop_bit 12 (word_of_int i :: 32 word))))"
| auipc: "mi_opcode mi = AUIPC \<Longrightarrow> x_of_dst (mi_dst mi) = Some rd \<Longrightarrow> mi_operands mi = [MImm i] \<Longrightarrow>
    rv_means rel mi (RvAuipc rd (ucast (drop_bit 12 (word_of_int i :: 32 word))))"
| fence: "mi_opcode mi = FENCE \<Longrightarrow> rv_means rel mi (RvFence 0xF 0xF)"
| lr: "(mi_opcode mi, dw) \<in> {(LR_W, False), (LR_D, True)} \<Longrightarrow> x_of_dst (mi_dst mi) = Some rd \<Longrightarrow>
    mi_operands mi = [a] \<Longrightarrow> x_of_op a = Some rs1 \<Longrightarrow> rv_means rel mi (RvAmo RvLr dw True True rd rs1 0)"
| amo: "(mi_opcode mi, m, dw) \<in> set amo_ops \<Longrightarrow> x_of_dst (mi_dst mi) = Some rd \<Longrightarrow>
    mi_operands mi = [a, b] \<Longrightarrow> x_of_op a = Some rs1 \<Longrightarrow> x_of_op b = Some rs2 \<Longrightarrow>
    rv_means rel mi (RvAmo m dw True True rd rs1 rs2)"
| alloca_address: "mi_opcode mi = ADDI_FP_SLOT \<Longrightarrow> x_of_dst (mi_dst mi) = Some rd \<Longrightarrow>
    mi_operands mi = [MImm i] \<Longrightarrow> 0 \<le> i \<Longrightarrow> i < 256 \<Longrightarrow> rv_means rel mi (RvI RvAddi rd 8 (- 8 * (i + 1)))"
| fp: "(mi_opcode mi, m, fmt) \<in> set fp_ops \<Longrightarrow> f_of_dst (mi_dst mi) = Some rd \<Longrightarrow> mi_operands mi = [a, b] \<Longrightarrow>
    f_of_op a = Some rs1 \<Longrightarrow> f_of_op b = Some rs2 \<Longrightarrow> rv_means rel mi (RvFp m fmt 7 rd rs1 rs2)"
| fsqrt: "mi_opcode mi = FSQRT_D \<Longrightarrow> f_of_dst (mi_dst mi) = Some rd \<Longrightarrow> mi_operands mi = [a] \<Longrightarrow>
    f_of_op a = Some rs1 \<Longrightarrow> rv_means rel mi (RvFsqrt RvD 7 rd rs1)"
| fmv: "mi_opcode mi = FMV_D_D \<Longrightarrow>
    f_of_dst (mi_dst mi) = Some rd \<Longrightarrow> mi_operands mi = [a] \<Longrightarrow> f_of_op a = Some rs \<Longrightarrow>
    rv_means rel mi (RvFsgnj False RvD rd rs rs)"
| fcmp: "(mi_opcode mi, c, fmt) \<in> set fcmp_ops \<Longrightarrow> x_of_dst (mi_dst mi) = Some rd \<Longrightarrow>
    mi_operands mi = [a, b] \<Longrightarrow> f_of_op a = Some rs1 \<Longrightarrow> f_of_op b = Some rs2 \<Longrightarrow>
    rv_means rel mi (RvFcmp c fmt rd rs1 rs2)"
| fcvt_to: "(mi_opcode mi, l, fmt) \<in> set fcvt_to_ops \<Longrightarrow> x_of_dst (mi_dst mi) = Some rd \<Longrightarrow>
    mi_operands mi = [a] \<Longrightarrow> f_of_op a = Some rs \<Longrightarrow> rv_means rel mi (RvFcvtToInt l fmt 1 rd rs)"
| fcvt_from: "(mi_opcode mi, l, fmt) \<in> set fcvt_from_ops \<Longrightarrow> f_of_dst (mi_dst mi) = Some rd \<Longrightarrow>
    mi_operands mi = [a] \<Longrightarrow> x_of_op a = Some rs \<Longrightarrow> rv_means rel mi (RvFcvtFromInt l fmt 0 rd rs)"
| fload: "(mi_opcode mi, m) \<in> {(FLD, RvFld), (FLW, RvFlw)} \<Longrightarrow> f_of_dst (mi_dst mi) = Some rd \<Longrightarrow>
    mi_operands mi = [a, MImm i] \<Longrightarrow> x_of_op a = Some rs \<Longrightarrow> - 2048 \<le> i \<Longrightarrow> i < 2048 \<Longrightarrow>
    rv_means rel mi (RvI m rd rs i)"
| fstore: "(mi_opcode mi, m) \<in> {(FSD, RvFsd), (FSW, RvFsw)} \<Longrightarrow> mi_operands mi = [a, b, MImm i] \<Longrightarrow>
    x_of_op a = Some base \<Longrightarrow> f_of_op b = Some v \<Longrightarrow> - 2048 \<le> i \<Longrightarrow> i < 2048 \<Longrightarrow>
    rv_means rel mi (RvStore m v base i)"
| fp_reload: "mi_opcode mi = FP_LOAD_MR \<Longrightarrow> f_of_dst (mi_dst mi) = Some rd \<Longrightarrow> mi_operands mi = [MImm i] \<Longrightarrow>
    0 \<le> i \<Longrightarrow> i < 256 \<Longrightarrow> rv_means rel mi (RvI RvFld rd 8 (8 * i))"
| fp_spill: "mi_opcode mi = FP_STORE_RM \<Longrightarrow> mi_operands mi = [MImm i, a] \<Longrightarrow> f_of_op a = Some v \<Longrightarrow>
    0 \<le> i \<Longrightarrow> i < 256 \<Longrightarrow> rv_means rel mi (RvStore RvFsd v 8 (8 * i))"

end
