(* ===== verification/RiscV_Fields.thy ===== *)
theory RiscV_Fields
  imports RiscV_Encode RiscV_Decode
begin

text \<open>
  The fields of an encoded RISC-V instruction word are those it was made from; registers and the arms of the encoder.
\<close>

section \<open>Fields\<close>

lemma bit_small: "bit (x :: 'a::len word) k \<Longrightarrow> x < 2 ^ n \<Longrightarrow> k < n"
  by (metis bit_take_bit_iff less_mask_eq take_bit_eq_mask)

lemmas bit_small_numerals =
  bit_small [of _ _ 3, simplified] bit_small [of _ _ 5, simplified] bit_small [of _ _ 7, simplified]

lemma and_mask:
  "(x :: 32 word) AND 0x1 = take_bit 1 x" "x AND 0x7 = take_bit 3 x" "x AND 0xF = take_bit 4 x"
  "x AND 0x1F = take_bit 5 x" "x AND 0x3F = take_bit 6 x" "x AND 0x7F = take_bit 7 x"
  "x AND 0xFF = take_bit 8 x" "x AND 0x3FF = take_bit 10 x" "x AND 0xFFF = take_bit 12 x"
  "x AND 0x1FFF = take_bit 13 x" "x AND 0x1FFFFF = take_bit 21 x"
  by (simp_all add: take_bit_eq_mask mask_eq_exp_minus_1)

lemma and_mask_imm:
  "(b :: 8 word) AND 0x1F = take_bit 5 b" "(y :: 12 word) AND 0x1F = take_bit 5 y" "(z :: 13 word) AND 1 = take_bit 1 z" "z AND 0xF = take_bit 4 z"
  "z AND 0x3F = take_bit 6 z" "(u :: 21 word) AND 1 = take_bit 1 u" "u AND 0xFF = take_bit 8 u"
  "u AND 0x3FF = take_bit 10 u"
  by (simp_all add: take_bit_eq_mask mask_eq_exp_minus_1)

lemmas fields = f_opc_def f_rd_def f_f3_def f_rs1_def f_rs2_def f_f7_def

lemma fields_r:
  assumes "rs2 < 32" "rs1 < 32" "f3 < 8" "rd < 32" "opc < 128"
  shows "f_opc (enc_r f7 rs2 rs1 f3 rd opc) = ucast opc"
    and "f_rd (enc_r f7 rs2 rs1 f3 rd opc) = ucast rd"
    and "f_f3 (enc_r f7 rs2 rs1 f3 rd opc) = ucast f3"
    and "f_rs1 (enc_r f7 rs2 rs1 f3 rd opc) = ucast rs1"
    and "f_rs2 (enc_r f7 rs2 rs1 f3 rd opc) = ucast rs2"
    and "f_f7 (enc_r f7 rs2 rs1 f3 rd opc) = ucast f7"
  using assms
  by (intro bit_word_eqI; force simp: enc_r_def fields bit_simps dest: bit_small_numerals)+


lemma fields_i:
  assumes "rs1 < 32" "f3 < 8" "rd < 32" "opc < 128"
  shows "f_opc (enc_i imm rs1 f3 rd opc) = ucast opc"
    and "f_rd (enc_i imm rs1 f3 rd opc) = ucast rd"
    and "f_f3 (enc_i imm rs1 f3 rd opc) = ucast f3"
    and "f_rs1 (enc_i imm rs1 f3 rd opc) = ucast rs1"
    and "imm_i (enc_i imm rs1 f3 rd opc) = ucast imm"
  using assms
  by (intro bit_word_eqI; force simp: enc_i_def Let_def fields imm_i_def bit_simps and_mask and_mask_imm dest: bit_small_numerals)+


lemma fields_s:
  assumes "rs2 < 32" "rs1 < 32" "f3 < 8" "opc < 128"
  shows "f_opc (enc_s imm rs2 rs1 f3 opc) = ucast opc"
    and "f_f3 (enc_s imm rs2 rs1 f3 opc) = ucast f3"
    and "f_rs1 (enc_s imm rs2 rs1 f3 opc) = ucast rs1"
    and "f_rs2 (enc_s imm rs2 rs1 f3 opc) = ucast rs2"
  using assms
  by (intro bit_word_eqI; simp add: enc_s_def Let_def fields bit_simps and_mask;
      auto dest: bit_small_numerals)+

lemma imm_s_enc:
  assumes "rs2 < 32" "rs1 < 32" "f3 < 8" "opc < 128"
  shows "imm_s (enc_s imm rs2 rs1 f3 opc) = ucast imm"
proof (rule bit_word_eqI)
  fix n assume "n < LENGTH(12)"
  then show "bit (imm_s (enc_s imm rs2 rs1 f3 opc)) n \<longleftrightarrow> bit (ucast imm :: 12 word) n"
    using assms
    by (cases "n < 5"; simp add: enc_s_def Let_def imm_s_def bit_simps and_mask and_mask_imm;
        auto dest: bit_small_numerals)
qed

lemma fields_b:
  assumes "rs2 < 32" "rs1 < 32" "f3 < 8" "opc < 128"
  shows "f_opc (enc_b imm rs2 rs1 f3 opc) = ucast opc"
    and "f_f3 (enc_b imm rs2 rs1 f3 opc) = ucast f3"
    and "f_rs1 (enc_b imm rs2 rs1 f3 opc) = ucast rs1"
    and "f_rs2 (enc_b imm rs2 rs1 f3 opc) = ucast rs2"
  using assms
  by (intro bit_word_eqI; simp add: enc_b_def Let_def fields bit_simps and_mask;
      auto dest: bit_small_numerals)+

lemma imm_b_enc:
  assumes "rs2 < 32" "rs1 < 32" "f3 < 8" "opc < 128" "even imm"
  shows "imm_b (enc_b imm rs2 rs1 f3 opc) = ucast imm"
proof (rule bit_word_eqI)
  fix n assume "n < LENGTH(13)"
  then consider "n = 0" | "1 \<le> n" "n < 5" | "5 \<le> n" "n < 11" | "n = 11" | "n = 12" by fastforce
  then show "bit (imm_b (enc_b imm rs2 rs1 f3 opc)) n \<longleftrightarrow> bit (ucast imm :: 13 word) n"
    using assms
    unfolding enc_b_def Let_def imm_b_def and_mask and_mask_imm
    by (cases; simp only: bit_simps comp_def; auto simp: bit_0 dest: bit_small_numerals)
qed

lemma fields_j:
  assumes "rd < 32" "opc < 128"
  shows "f_opc (enc_j imm rd opc) = ucast opc" and "f_rd (enc_j imm rd opc) = ucast rd"
  using assms
  by (intro bit_word_eqI; simp add: enc_j_def Let_def fields bit_simps and_mask;
      auto dest: bit_small_numerals)+

lemma imm_j_enc:
  assumes "rd < 32" "opc < 128" "even imm"
  shows "imm_j (enc_j imm rd opc) = ucast imm"
proof (rule bit_word_eqI)
  fix n assume "n < LENGTH(21)"
  then consider "n = 0" | "1 \<le> n" "n < 11" | "n = 11" | "12 \<le> n" "n < 20" | "n = 20" by fastforce
  then show "bit (imm_j (enc_j imm rd opc)) n \<longleftrightarrow> bit (ucast imm :: 21 word) n"
    using assms
    unfolding enc_j_def Let_def imm_j_def and_mask and_mask_imm
    by (cases; simp only: bit_simps comp_def; auto simp: bit_0 dest: bit_small_numerals)
qed

lemma fields_u:
  assumes "rd < 32" "opc < 128"
  shows "f_opc (enc_u imm rd opc) = ucast opc" and "f_rd (enc_u imm rd opc) = ucast rd"
    and "imm_u (enc_u imm rd opc) = ucast (drop_bit 12 imm)"
proof -
  have m: "imm AND 0xFFFFF000 = push_bit 12 (drop_bit 12 imm)"
  proof -
    have n: "(0xFFFFF000 :: 32 word) = NOT (mask 12)" by (simp add: mask_eq_exp_minus_1)
    show ?thesis unfolding n by (rule bit_word_eqI) (auto simp: bit_simps)
  qed
  show "f_opc (enc_u imm rd opc) = ucast opc" "f_rd (enc_u imm rd opc) = ucast rd"
    "imm_u (enc_u imm rd opc) = ucast (drop_bit 12 imm)"
    using assms unfolding enc_u_def m fields imm_u_def
    by (intro bit_word_eqI; simp only: bit_simps comp_def; auto dest: bit_small_numerals)+
qed

lemma fields_amo:
  shows "f_opc (enc_amo f5 aq rl rs2 rs1 f3 rd) = 0x2F" and "f_rd (enc_amo f5 aq rl rs2 rs1 f3 rd) = ucast rd"
    and "f_f3 (enc_amo f5 aq rl rs2 rs1 f3 rd) = ucast f3"
    and "f_rs1 (enc_amo f5 aq rl rs2 rs1 f3 rd) = ucast rs1"
    and "f_rs2 (enc_amo f5 aq rl rs2 rs1 f3 rd) = ucast rs2"
    and "ucast (drop_bit 27 (enc_amo f5 aq rl rs2 rs1 f3 rd)) = (ucast f5 :: 5 word)"
    and "bit (enc_amo f5 aq rl rs2 rs1 f3 rd) 26 = aq"
    and "bit (enc_amo f5 aq rl rs2 rs1 f3 rd) 25 = rl"
proof -
  obtain opc :: "32 word" where opc: "opc = 0x2F" by simp
  have "opc < 128" by (simp add: opc)
  have c: "bit opc n \<Longrightarrow> n < 7" for n using bit_small_numerals(3) \<open>opc < 128\<close> by blast
  have o: "(0x2F :: 7 word) = ucast opc" by (simp add: opc)
  show "f_opc (enc_amo f5 aq rl rs2 rs1 f3 rd) = 0x2F" "f_rd (enc_amo f5 aq rl rs2 rs1 f3 rd) = ucast rd"
    "f_f3 (enc_amo f5 aq rl rs2 rs1 f3 rd) = ucast f3" "f_rs1 (enc_amo f5 aq rl rs2 rs1 f3 rd) = ucast rs1"
    "f_rs2 (enc_amo f5 aq rl rs2 rs1 f3 rd) = ucast rs2"
    "ucast (drop_bit 27 (enc_amo f5 aq rl rs2 rs1 f3 rd)) = (ucast f5 :: 5 word)"
    unfolding enc_amo_def opc [symmetric] and_mask fields o
    by (intro bit_word_eqI; simp only: bit_simps comp_def; auto dest: c)+
  show "bit (enc_amo f5 aq rl rs2 rs1 f3 rd) 26 = aq" "bit (enc_amo f5 aq rl rs2 rs1 f3 rd) 25 = rl"
    unfolding enc_amo_def opc [symmetric] and_mask
    by (simp only: bit_simps comp_def; auto simp: bit_simps dest: c)+
qed

lemma sint_ucast_32:
  assumes "LENGTH('a) = Suc n" "n < 32" "- (2 ^ n) \<le> i" "i < 2 ^ n"
  shows "sint (ucast (word_of_int i :: 32 word) :: 'a::len word) = i"
proof -
  have "sint (ucast (word_of_int i :: 32 word) :: 'a word) = signed_take_bit n i"
    using assms(1,2)
    by (simp add: sint_uint unsigned_ucast_eq uint_word_of_int_eq signed_take_bit_take_bit take_bit_take_bit)
  also have "\<dots> = i" using assms(3,4) by (simp add: signed_take_bit_int_eq_self_iff)
  finally show ?thesis .
qed

lemmas sint_fields =
  sint_ucast_32 [where 'a = 12 and n = 11, simplified] sint_ucast_32 [where 'a = 13 and n = 12, simplified]
  sint_ucast_32 [where 'a = 21 and n = 20, simplified]



section \<open>Operands\<close>

lemma unat_reg5 [simp]: "unat (ucast (r :: 5 word) :: 8 word) = unat r"
proof -
  have "unat r < 32" using unsigned_less [of r, where 'a = nat] by simp
  then show ?thesis by (simp add: unsigned_ucast_eq take_bit_nat_eq_self)
qed

lemma reg5_simps [simp]:
  "(ucast (r :: 5 word) :: 8 word) < 32" "(ucast (ucast r :: 8 word) :: 5 word) = r"
proof -
  show "(ucast r :: 8 word) < 32"
    using unsigned_less [of r, where 'a = nat] by (simp add: word_less_nat_alt)
  show "(ucast (ucast r :: 8 word) :: 5 word) = r" by (rule bit_word_eqI) (simp add: bit_simps)
qed

lemma and_31: "x < 32 \<Longrightarrow> (x :: 8 word) AND 0x1F = ucast (ucast x :: 5 word)"
  "y < 32 \<Longrightarrow> ucast ((y :: 32 word) AND 0x1F) = (ucast (ucast y :: 5 word) :: 8 word)"
  unfolding and_mask and_mask_imm by (rule bit_word_eqI, auto simp: bit_simps)+

lemma x_of_op_reg: "x_of_op a = Some r \<Longrightarrow> reg_of_op a = Some (ucast r)"
  by (cases a) (auto simp: reg_of_op_def and_31 split: if_splits)

lemma x_of_dst_reg: "x_of_dst (Some v) = Some r \<Longrightarrow> reg_of_dst v = ucast r"
  by (auto simp: reg_of_dst_def and_31 split: if_splits)

lemma x_of_dstE: "x_of_dst d = Some r \<Longrightarrow> \<exists>v. d = Some v \<and> reg_of_dst v = ucast r"
  using x_of_dst_reg by (cases d) auto

lemma minus_32: "32 \<le> x \<Longrightarrow> x < 64 \<Longrightarrow> (x :: 8 word) - 32 = ucast (ucast (x - 32) :: 5 word)"
proof -
  assume "32 \<le> x" "x < 64"
  then have "unat (x - 32) < 32" by (simp add: unat_sub word_le_nat_alt word_less_nat_alt)
  then have "x - 32 < 32" by (simp add: word_less_nat_alt)
  from and_31(1) [OF this] show ?thesis
    using \<open>x - 32 < 32\<close> less_mask_eq [of "x - 32" 5] by (simp add: mask_eq_exp_minus_1)
qed

lemma f_of_vreg:
  assumes "32 \<le> v" "v < 64"
  shows "32 \<le> (ucast (v AND 0xFF) :: 8 word)"
    and "ucast (v AND 0xFF) - 32 = (ucast (ucast (v - 32 :: 32 word) :: 5 word) :: 8 word)"
proof -
  have n: "32 \<le> unat v" "unat v < 64" using assms by (simp_all add: word_le_nat_alt word_less_nat_alt)
  have e: "v AND 0xFF = v" using less_mask_eq [of v 8] assms(2)
    by (simp add: mask_eq_exp_minus_1 word_less_nat_alt)
  have u: "unat (ucast v :: 8 word) = unat v" using n by (simp add: unsigned_ucast_eq take_bit_nat_eq_self)
  show le: "32 \<le> (ucast (v AND 0xFF) :: 8 word)" using n u by (simp add: e word_le_nat_alt)
  have "unat (ucast v - 32 :: 8 word) = unat v - 32" using n u le by (simp add: e unat_sub)
  moreover have "unat (ucast (ucast (v - 32) :: 5 word) :: 8 word) = unat v - 32"
  proof -
    have "unat (v - 32) = unat v - 32" using assms(1) by (simp add: unat_sub)
    then have "unat (ucast (v - 32) :: 5 word) = unat v - 32"
      using n by (simp add: unsigned_ucast_eq take_bit_nat_eq_self)
    then show ?thesis by (simp only: unat_reg5)
  qed
  ultimately show "ucast (v AND 0xFF) - 32 = (ucast (ucast (v - 32 :: 32 word) :: 5 word) :: 8 word)"
    unfolding e using word_unat_eq_iff by metis
qed

lemma f_of_op_reg: "f_of_op a = Some r \<Longrightarrow> fp_reg_of_op a = Some (ucast r)"
proof (cases a)
  case (MVReg v)
  assume "f_of_op a = Some r"
  with MVReg have "32 \<le> v" "v < 64" "r = ucast (v - 32)" by (simp_all split: if_splits)
  with MVReg f_of_vreg [of v] show ?thesis by (simp add: fp_reg_of_op_def Let_def)
next
  case (MPReg p)
  assume "f_of_op a = Some r"
  with MPReg have "32 \<le> p" "p < 64" "r = ucast (p - 32)" by (simp_all split: if_splits)
  with MPReg minus_32 [of p] show ?thesis by (simp add: fp_reg_of_op_def is_fp_reg_def fp_enc_def)
qed simp_all

lemma f_of_dst_reg: "f_of_dst (mi_dst mi) = Some r \<Longrightarrow> fp_dst mi = ucast r"
proof (cases "mi_dst mi")
  case (Some v)
  assume "f_of_dst (mi_dst mi) = Some r"
  with Some have "32 \<le> v" "v < 64" "r = ucast (v - 32)" by (simp_all split: if_splits)
  with Some f_of_vreg [of v] show ?thesis by (simp add: fp_dst_def fp_reg_of_dst_def Let_def)
qed simp

lemma int_dst_reg: "x_of_dst (mi_dst mi) = Some r \<Longrightarrow> int_dst mi = ucast r"
  using x_of_dstE by (fastforce simp: int_dst_def)

section \<open>Words\<close>

lemma decode_r:
  "rv_decode (enc_r f7 (ucast b) (ucast a) f3 (ucast d) 0x33) =
     map_option (\<lambda>m. RvR m d a b) (map_of alu_table (ucast f7, ucast f3))" if "f3 < 8"
  using that by (simp add: rv_decode_def fields_r)

lemma decode_i:
  "rv_decode (enc_i imm (ucast a) f3 (ucast d) opc) =
     map_option (\<lambda>m. RvI m d a (sint (ucast imm :: 12 word))) (map_of imm_table (ucast opc, ucast f3))"
  if "f3 < 8" "opc \<in> {0x13, 0x67, 0x03, 0x07}"
  using that by (auto simp: rv_decode_def fields_i)

lemma decode_s:
  "rv_decode (enc_s imm (ucast b) (ucast a) f3 opc) =
     map_option (\<lambda>m. RvStore m b a (sint (ucast imm :: 12 word))) (map_of store_table (ucast opc, ucast f3))"
  if "f3 < 8" "opc \<in> {0x23, 0x27}"
  using that by (auto simp: rv_decode_def fields_s imm_s_enc)

lemma decode_b:
  "rv_decode (enc_b imm (ucast b) (ucast a) f3 0x63) =
     map_option (\<lambda>m. RvB m a b (sint (ucast imm :: 13 word))) (map_of branch_table (ucast f3))"
  if "f3 < 8" "even imm"
  using that by (simp add: rv_decode_def fields_b imm_b_enc)

lemma decode_j: "rv_decode (enc_j imm (ucast d) 0x6F) = Some (RvJal d (sint (ucast imm :: 21 word)))"
  if "even imm"
  using that by (simp add: rv_decode_def fields_j imm_j_enc)

lemma decode_u:
  "rv_decode (enc_u imm (ucast d) 0x37) = Some (RvLui d (ucast (drop_bit 12 imm)))"
  "rv_decode (enc_u imm (ucast d) 0x17) = Some (RvAuipc d (ucast (drop_bit 12 imm)))"
  by (simp_all add: rv_decode_def fields_u)

lemma decode_amo_enc:
  "rv_decode (enc_amo f5 aq rl b a f3 d) =
     map_option (\<lambda>m. RvAmo m (ucast f3 = (3 :: 3 word)) aq rl (ucast d) (ucast a) (ucast b))
       (map_of amo_table (ucast f5))"
  if "f3 \<in> {2, 3}"
  using that by (auto simp: rv_decode_def decode_amo_def fields_amo)

lemma fp_fields:
  assumes "rs2 < 32" "rs1 < 32" "f3 < 8" "rd < 32"
  shows "ucast (drop_bit 27 (enc_r f7 rs2 rs1 f3 rd 0x53)) = (ucast (drop_bit 2 f7) :: 5 word)"
    and "ucast (drop_bit 25 (enc_r f7 rs2 rs1 f3 rd 0x53)) = (ucast f7 :: 2 word)"
proof -
  obtain opc :: "32 word" where opc: "opc = 0x53" by simp
  have "opc < 128" by (simp add: opc)
  show "ucast (drop_bit 27 (enc_r f7 rs2 rs1 f3 rd 0x53)) = (ucast (drop_bit 2 f7) :: 5 word)"
    "ucast (drop_bit 25 (enc_r f7 rs2 rs1 f3 rd 0x53)) = (ucast f7 :: 2 word)"
    using assms \<open>opc < 128\<close> unfolding enc_r_def opc [symmetric]
    by (intro bit_word_eqI; simp only: bit_simps comp_def; auto dest: bit_small_numerals)+
qed

lemma decode_fp_enc:
  assumes "rs2 < 32" "rs1 < 32" "f3 < 8" "rd < 32"
  shows "rv_decode (enc_r f7 rs2 rs1 f3 rd 0x53) = decode_fp (enc_r f7 rs2 rs1 f3 rd 0x53)"
  using assms by (simp add: rv_decode_def fields_r)

lemmas decode_fp_simps = decode_fp_enc decode_fp_def fp_fields fields_r

lemmas decode_words =
  decode_r decode_i decode_s decode_b decode_j decode_u decode_amo_enc
  alu_table_def imm_table_def store_table_def branch_table_def amo_table_def

section \<open>Arms\<close>

lemmas arms_defs = integer_arms_def atomic_arms_def double_arms_def single_arms_def

lemma encode_armI:
  assumes "(mi_opcode mi, w) \<in> set (integer_arms mi @ atomic_arms mi @ double_arms mi @ single_arms mi)"
  shows "rv_encode_instr mi = w"
proof -
  have "distinct (map fst (integer_arms mi @ atomic_arms mi @ double_arms mi @ single_arms mi))"
    by (simp add: arms_defs rv_opcodes)
  from map_of_is_SomeI [OF this assms] show ?thesis by (simp add: rv_encode_instr_def)
qed

lemma encode_simps:
  shows "mi_opcode mi = NOP \<Longrightarrow> rv_encode_instr mi =
      (Some (0x00000013))"
  and "mi_opcode mi = MOV_RR \<Longrightarrow> rv_encode_instr mi =
      (Some (enc_i 0 (ireg mi 0) 0x0 (dst_or_zero mi) 0x13))"
  and "mi_opcode mi = MOV_IMM \<Longrightarrow> rv_encode_instr mi =
      (Some (enc_i (imm_at mi 0) 0 0x0 (dst_or_zero mi) 0x13))"
  and "mi_opcode mi = MOV_PR \<Longrightarrow> rv_encode_instr mi =
      (Some (enc_i 0 (ireg mi 1) 0x0 (ireg mi 0) 0x13))"
  and "mi_opcode mi = ADD_RR \<Longrightarrow> rv_encode_instr mi =
      (Some (enc_r 0x00 (ireg mi 1) (ireg mi 0) 0x0 (dst_or_zero mi) 0x33))"
  and "mi_opcode mi = SUB_RR \<Longrightarrow> rv_encode_instr mi =
      (Some (enc_r 0x20 (ireg mi 1) (ireg mi 0) 0x0 (dst_or_zero mi) 0x33))"
  and "mi_opcode mi = MUL_RR \<Longrightarrow> rv_encode_instr mi =
      (Some (enc_r 0x01 (ireg mi 1) (ireg mi 0) 0x0 (dst_or_zero mi) 0x33))"
  and "mi_opcode mi = DIV_RR \<Longrightarrow> rv_encode_instr mi =
      (Some (enc_r 0x01 (ireg mi 1) (ireg mi 0) 0x4 (dst_or_zero mi) 0x33))"
  and "mi_opcode mi = UDIV_RR \<Longrightarrow> rv_encode_instr mi =
      (Some (enc_r 0x01 (ireg mi 1) (ireg mi 0) 0x5 (dst_or_zero mi) 0x33))"
  and "mi_opcode mi = REM_RR \<Longrightarrow> rv_encode_instr mi =
      (Some (enc_r 0x01 (ireg mi 1) (ireg mi 0) 0x6 (dst_or_zero mi) 0x33))"
  and "mi_opcode mi = UREM_RR \<Longrightarrow> rv_encode_instr mi =
      (Some (enc_r 0x01 (ireg mi 1) (ireg mi 0) 0x7 (dst_or_zero mi) 0x33))"
  and "mi_opcode mi = AND_RR \<Longrightarrow> rv_encode_instr mi =
      (Some (enc_r 0x00 (ireg mi 1) (ireg mi 0) 0x7 (dst_or_zero mi) 0x33))"
  and "mi_opcode mi = OR_RR \<Longrightarrow> rv_encode_instr mi =
      (Some (enc_r 0x00 (ireg mi 1) (ireg mi 0) 0x6 (dst_or_zero mi) 0x33))"
  and "mi_opcode mi = XOR_RR \<Longrightarrow> rv_encode_instr mi =
      (Some (enc_r 0x00 (ireg mi 1) (ireg mi 0) 0x4 (dst_or_zero mi) 0x33))"
  and "mi_opcode mi = SLL_RR \<Longrightarrow> rv_encode_instr mi =
      (Some (enc_r 0x00 (ireg mi 1) (ireg mi 0) 0x1 (dst_or_zero mi) 0x33))"
  and "mi_opcode mi = SRL_RR \<Longrightarrow> rv_encode_instr mi =
      (Some (enc_r 0x00 (ireg mi 1) (ireg mi 0) 0x5 (dst_or_zero mi) 0x33))"
  and "mi_opcode mi = SRA_RR \<Longrightarrow> rv_encode_instr mi =
      (Some (enc_r 0x20 (ireg mi 1) (ireg mi 0) 0x5 (dst_or_zero mi) 0x33))"
  and "mi_opcode mi = SLT_RR \<Longrightarrow> rv_encode_instr mi =
      (Some (enc_r 0x00 (ireg mi 1) (ireg mi 0) 0x2 (dst_or_zero mi) 0x33))"
  and "mi_opcode mi = SLTU_RR \<Longrightarrow> rv_encode_instr mi =
      (Some (enc_r 0x00 (ireg mi 1) (ireg mi 0) 0x3 (dst_or_zero mi) 0x33))"
  and "mi_opcode mi = ADDI \<Longrightarrow> rv_encode_instr mi =
      (Some (enc_i (imm_at mi 1) (ireg mi 0) 0x0 (dst_or_zero mi) 0x13))"
  and "mi_opcode mi = XORI \<Longrightarrow> rv_encode_instr mi =
      (Some (enc_i (imm_at mi 1) (ireg mi 0) 0x4 (dst_or_zero mi) 0x13))"
  and "mi_opcode mi = SLTIU \<Longrightarrow> rv_encode_instr mi =
      (Some (enc_i (imm_at mi 1) (ireg mi 0) 0x3 (dst_or_zero mi) 0x13))"
  and "mi_opcode mi = LW \<Longrightarrow> rv_encode_instr mi =
      (Some (enc_i (imm_at mi 2) (ireg mi 0) 0x2 (dst_or_zero mi) 0x03))"
  and "mi_opcode mi = LD \<Longrightarrow> rv_encode_instr mi =
      (Some (enc_i (imm_at mi 2) (ireg mi 0) 0x3 (dst_or_zero mi) 0x03))"
  and "mi_opcode mi = SW \<Longrightarrow> rv_encode_instr mi =
      (Some (enc_s (imm_at mi 2) (ireg mi 1) (ireg mi 0) 0x2 0x23))"
  and "mi_opcode mi = SD \<Longrightarrow> rv_encode_instr mi =
      (Some (enc_s (imm_at mi 2) (ireg mi 1) (ireg mi 0) 0x3 0x23))"
  and "mi_opcode mi = BEQ \<Longrightarrow> rv_encode_instr mi =
      (Some (enc_b (imm_at mi 2) (ireg mi 1) (ireg mi 0) 0x0 0x63))"
  and "mi_opcode mi = BNE \<Longrightarrow> rv_encode_instr mi =
      (Some (enc_b (imm_at mi 2) (ireg mi 1) (ireg mi 0) 0x1 0x63))"
  and "mi_opcode mi = BLT \<Longrightarrow> rv_encode_instr mi =
      (Some (enc_b (imm_at mi 2) (ireg mi 1) (ireg mi 0) 0x4 0x63))"
  and "mi_opcode mi = BGE \<Longrightarrow> rv_encode_instr mi =
      (Some (enc_b (imm_at mi 2) (ireg mi 1) (ireg mi 0) 0x5 0x63))"
  and "mi_opcode mi = BLTU \<Longrightarrow> rv_encode_instr mi =
      (Some (enc_b (imm_at mi 2) (ireg mi 1) (ireg mi 0) 0x6 0x63))"
  and "mi_opcode mi = BGEU \<Longrightarrow> rv_encode_instr mi =
      (Some (enc_b (imm_at mi 2) (ireg mi 1) (ireg mi 0) 0x7 0x63))"
  and "mi_opcode mi = JAL \<Longrightarrow> rv_encode_instr mi =
      (Some (enc_j (imm_at mi 0) (dst_or_zero mi) 0x6F))"
  and "mi_opcode mi = JALR \<Longrightarrow> rv_encode_instr mi =
      (let d = (case mi_dst mi of Some v \<Rightarrow> reg_of_dst v | None \<Rightarrow> ireg mi 0);
           base_idx = (if mi_dst mi \<noteq> None then 0 else 1)
       in Some (enc_i (imm_at mi (base_idx + 1)) (ireg mi base_idx) 0x0 d 0x67))"
  and "mi_opcode mi = RET \<Longrightarrow> rv_encode_instr mi =
      (Some (enc_i 0 1 0x0 0 0x67))"
  and "mi_opcode mi = LUI \<Longrightarrow> rv_encode_instr mi =
      (Some (enc_u (imm_at mi 0) (dst_or_zero mi) 0x37))"
  and "mi_opcode mi = AUIPC \<Longrightarrow> rv_encode_instr mi =
      (Some (enc_u (imm_at mi 0) (dst_or_zero mi) 0x17))"
  and "mi_opcode mi = FENCE \<Longrightarrow> rv_encode_instr mi =
      (Some (0x0FF0000F))"
  and "mi_opcode mi = LR_W \<Longrightarrow> rv_encode_instr mi =
      (Some (enc_amo 0b00010 True True 0 (ucast (ireg mi 0)) 0b010 (ucast (dst_or_zero mi))))"
  and "mi_opcode mi = LR_D \<Longrightarrow> rv_encode_instr mi =
      (Some (enc_amo 0b00010 True True 0 (ucast (ireg mi 0)) 0b011 (ucast (dst_or_zero mi))))"
  and "mi_opcode mi = SC_W \<Longrightarrow> rv_encode_instr mi =
      (Some (enc_amo 0b00011 True True (ucast (ireg mi 1)) (ucast (ireg mi 0)) 0b010 (ucast (dst_or_zero mi))))"
  and "mi_opcode mi = SC_D \<Longrightarrow> rv_encode_instr mi =
      (Some (enc_amo 0b00011 True True (ucast (ireg mi 1)) (ucast (ireg mi 0)) 0b011 (ucast (dst_or_zero mi))))"
  and "mi_opcode mi = AMOADD_W \<Longrightarrow> rv_encode_instr mi =
      (Some (enc_amo 0b00000 True True (ucast (ireg mi 1)) (ucast (ireg mi 0)) 0b010 (ucast (dst_or_zero mi))))"
  and "mi_opcode mi = AMOSWAP_W \<Longrightarrow> rv_encode_instr mi =
      (Some (enc_amo 0b00001 True True (ucast (ireg mi 1)) (ucast (ireg mi 0)) 0b010 (ucast (dst_or_zero mi))))"
  and "mi_opcode mi = AMOXOR_W \<Longrightarrow> rv_encode_instr mi =
      (Some (enc_amo 0b00100 True True (ucast (ireg mi 1)) (ucast (ireg mi 0)) 0b010 (ucast (dst_or_zero mi))))"
  and "mi_opcode mi = AMOAND_W \<Longrightarrow> rv_encode_instr mi =
      (Some (enc_amo 0b01100 True True (ucast (ireg mi 1)) (ucast (ireg mi 0)) 0b010 (ucast (dst_or_zero mi))))"
  and "mi_opcode mi = AMOOR_W \<Longrightarrow> rv_encode_instr mi =
      (Some (enc_amo 0b01000 True True (ucast (ireg mi 1)) (ucast (ireg mi 0)) 0b010 (ucast (dst_or_zero mi))))"
  and "mi_opcode mi = AMOMIN_W \<Longrightarrow> rv_encode_instr mi =
      (Some (enc_amo 0b10000 True True (ucast (ireg mi 1)) (ucast (ireg mi 0)) 0b010 (ucast (dst_or_zero mi))))"
  and "mi_opcode mi = AMOMAX_W \<Longrightarrow> rv_encode_instr mi =
      (Some (enc_amo 0b10100 True True (ucast (ireg mi 1)) (ucast (ireg mi 0)) 0b010 (ucast (dst_or_zero mi))))"
  and "mi_opcode mi = AMOMINU_W \<Longrightarrow> rv_encode_instr mi =
      (Some (enc_amo 0b11000 True True (ucast (ireg mi 1)) (ucast (ireg mi 0)) 0b010 (ucast (dst_or_zero mi))))"
  and "mi_opcode mi = AMOMAXU_W \<Longrightarrow> rv_encode_instr mi =
      (Some (enc_amo 0b11100 True True (ucast (ireg mi 1)) (ucast (ireg mi 0)) 0b010 (ucast (dst_or_zero mi))))"
  and "mi_opcode mi = AMOADD_D \<Longrightarrow> rv_encode_instr mi =
      (Some (enc_amo 0b00000 True True (ucast (ireg mi 1)) (ucast (ireg mi 0)) 0b011 (ucast (dst_or_zero mi))))"
  and "mi_opcode mi = AMOSWAP_D \<Longrightarrow> rv_encode_instr mi =
      (Some (enc_amo 0b00001 True True (ucast (ireg mi 1)) (ucast (ireg mi 0)) 0b011 (ucast (dst_or_zero mi))))"
  and "mi_opcode mi = AMOXOR_D \<Longrightarrow> rv_encode_instr mi =
      (Some (enc_amo 0b00100 True True (ucast (ireg mi 1)) (ucast (ireg mi 0)) 0b011 (ucast (dst_or_zero mi))))"
  and "mi_opcode mi = AMOAND_D \<Longrightarrow> rv_encode_instr mi =
      (Some (enc_amo 0b01100 True True (ucast (ireg mi 1)) (ucast (ireg mi 0)) 0b011 (ucast (dst_or_zero mi))))"
  and "mi_opcode mi = AMOOR_D \<Longrightarrow> rv_encode_instr mi =
      (Some (enc_amo 0b01000 True True (ucast (ireg mi 1)) (ucast (ireg mi 0)) 0b011 (ucast (dst_or_zero mi))))"
  and "mi_opcode mi = ADDI_FP_SLOT \<Longrightarrow> rv_encode_instr mi =
      (do { a \<leftarrow> i32 (sint (imm_at mi 0) + 1); b \<leftarrow> i32 (- a); off \<leftarrow> i32 (b * 8);
           Some (enc_i (word_of_int off) 8 0x0 (dst_or_zero mi) 0x13) })"
  and "mi_opcode mi = LD_REG \<Longrightarrow> rv_encode_instr mi =
      (Some (enc_i 0 (ireg mi 0) 0x3 (dst_or_zero mi) 0x03))"
  and "mi_opcode mi = SD_REG \<Longrightarrow> rv_encode_instr mi =
      (Some (enc_s 0 (ireg mi 1) (ireg mi 0) 0x3 0x23))"
  and "mi_opcode mi = FADD_D \<Longrightarrow> rv_encode_instr mi =
      (Some (enc_r 0x01 (freg mi 1) (freg mi 0) 0x7 (fp_dst mi) 0x53))"
  and "mi_opcode mi = FSUB_D \<Longrightarrow> rv_encode_instr mi =
      (Some (enc_r 0x05 (freg mi 1) (freg mi 0) 0x7 (fp_dst mi) 0x53))"
  and "mi_opcode mi = FMUL_D \<Longrightarrow> rv_encode_instr mi =
      (Some (enc_r 0x09 (freg mi 1) (freg mi 0) 0x7 (fp_dst mi) 0x53))"
  and "mi_opcode mi = FDIV_D \<Longrightarrow> rv_encode_instr mi =
      (Some (enc_r 0x0D (freg mi 1) (freg mi 0) 0x7 (fp_dst mi) 0x53))"
  and "mi_opcode mi = FSQRT_D \<Longrightarrow> rv_encode_instr mi =
      (Some (enc_r 0x2D 0 (freg mi 0) 0x7 (fp_dst mi) 0x53))"
  and "mi_opcode mi = FNEG_D \<Longrightarrow> rv_encode_instr mi =
      (Some (enc_r 0x21 (freg mi 0) (freg mi 0) 0x1 (fp_dst mi) 0x53))"
  and "mi_opcode mi = FCMP_EQ_D \<Longrightarrow> rv_encode_instr mi =
      (Some (enc_r 0x51 (freg mi 1) (freg mi 0) 0x2 (int_dst mi) 0x53))"
  and "mi_opcode mi = FCMP_LT_D \<Longrightarrow> rv_encode_instr mi =
      (Some (enc_r 0x51 (freg mi 1) (freg mi 0) 0x1 (int_dst mi) 0x53))"
  and "mi_opcode mi = FCMP_LE_D \<Longrightarrow> rv_encode_instr mi =
      (Some (enc_r 0x51 (freg mi 1) (freg mi 0) 0x0 (int_dst mi) 0x53))"
  and "mi_opcode mi = FCVT_W_D \<Longrightarrow> rv_encode_instr mi =
      (Some (enc_r 0x61 0 (freg mi 0) 0x1 (int_dst mi) 0x53))"
  and "mi_opcode mi = FCVT_L_D \<Longrightarrow> rv_encode_instr mi =
      (Some (enc_r 0x61 2 (freg mi 0) 0x1 (int_dst mi) 0x53))"
  and "mi_opcode mi = FCVT_D_W \<Longrightarrow> rv_encode_instr mi =
      (Some (enc_r 0x69 0 (ireg mi 0) 0x0 (fp_dst mi) 0x53))"
  and "mi_opcode mi = FCVT_D_L \<Longrightarrow> rv_encode_instr mi =
      (Some (enc_r 0x69 2 (ireg mi 0) 0x0 (fp_dst mi) 0x53))"
  and "mi_opcode mi = FMV_D_D \<Longrightarrow> rv_encode_instr mi =
      (Some (enc_r 0x11 (freg mi 0) (freg mi 0) 0x0 (fp_dst mi) 0x53))"
  and "mi_opcode mi = FLD \<Longrightarrow> rv_encode_instr mi =
      (Some (enc_i (imm_at mi 1) (ireg mi 0) 0x3 (fp_dst mi) 0x07))"
  and "mi_opcode mi = FSD \<Longrightarrow> rv_encode_instr mi =
      (Some (enc_s (imm_at mi 2) (freg mi 1) (ireg mi 0) 0x3 0x27))"
  and "mi_opcode mi = FP_LOAD_MR \<Longrightarrow> rv_encode_instr mi =
      (do { byte_off \<leftarrow> i32 (sint (imm_at mi 0) * 8);
           Some (enc_i (word_of_int byte_off) 8 0x3 (fp_dst mi) 0x07) })"
  and "mi_opcode mi = FP_STORE_RM \<Longrightarrow> rv_encode_instr mi =
      (do { byte_off \<leftarrow> i32 (sint (imm_at mi 0) * 8);
           Some (enc_s (word_of_int byte_off) (freg mi 1) 8 0x3 0x27) })"
  and "mi_opcode mi = FADD_S \<Longrightarrow> rv_encode_instr mi =
      (Some (enc_r 0x00 (freg mi 1) (freg mi 0) 0x7 (fp_dst mi) 0x53))"
  and "mi_opcode mi = FSUB_S \<Longrightarrow> rv_encode_instr mi =
      (Some (enc_r 0x04 (freg mi 1) (freg mi 0) 0x7 (fp_dst mi) 0x53))"
  and "mi_opcode mi = FMUL_S \<Longrightarrow> rv_encode_instr mi =
      (Some (enc_r 0x08 (freg mi 1) (freg mi 0) 0x7 (fp_dst mi) 0x53))"
  and "mi_opcode mi = FDIV_S \<Longrightarrow> rv_encode_instr mi =
      (Some (enc_r 0x0C (freg mi 1) (freg mi 0) 0x7 (fp_dst mi) 0x53))"
  and "mi_opcode mi = FNEG_S \<Longrightarrow> rv_encode_instr mi =
      (Some (enc_r 0x20 (freg mi 0) (freg mi 0) 0x1 (fp_dst mi) 0x53))"
  and "mi_opcode mi = FCMP_EQ_S \<Longrightarrow> rv_encode_instr mi =
      (Some (enc_r 0x50 (freg mi 1) (freg mi 0) 0x2 (int_dst mi) 0x53))"
  and "mi_opcode mi = FCMP_LT_S \<Longrightarrow> rv_encode_instr mi =
      (Some (enc_r 0x50 (freg mi 1) (freg mi 0) 0x1 (int_dst mi) 0x53))"
  and "mi_opcode mi = FCMP_LE_S \<Longrightarrow> rv_encode_instr mi =
      (Some (enc_r 0x50 (freg mi 1) (freg mi 0) 0x0 (int_dst mi) 0x53))"
  and "mi_opcode mi = FCVT_W_S \<Longrightarrow> rv_encode_instr mi =
      (Some (enc_r 0x60 0 (freg mi 0) 0x1 (int_dst mi) 0x53))"
  and "mi_opcode mi = FCVT_L_S \<Longrightarrow> rv_encode_instr mi =
      (Some (enc_r 0x60 2 (freg mi 0) 0x1 (int_dst mi) 0x53))"
  and "mi_opcode mi = FCVT_S_W \<Longrightarrow> rv_encode_instr mi =
      (Some (enc_r 0x68 0 (ireg mi 0) 0x0 (fp_dst mi) 0x53))"
  and "mi_opcode mi = FCVT_S_L \<Longrightarrow> rv_encode_instr mi =
      (Some (enc_r 0x68 2 (ireg mi 0) 0x0 (fp_dst mi) 0x53))"
  and "mi_opcode mi = FLW \<Longrightarrow> rv_encode_instr mi =
      (Some (enc_i (imm_at mi 1) (ireg mi 0) 0x2 (fp_dst mi) 0x07))"
  and "mi_opcode mi = FSW \<Longrightarrow> rv_encode_instr mi =
      (Some (enc_s (imm_at mi 2) (freg mi 1) (ireg mi 0) 0x2 0x27))"
  by (rule encode_armI; simp add: arms_defs)+

end
