(* ===== verification/RiscV_Correct.thy ===== *)
theory RiscV_Correct
  imports RiscV_Fields
begin

text \<open>
  The RISC-V encoder against the specification: every machine instruction that stands for an instruction is
  encoded as it, a function is emitted as the list of its instructions, and what goes wrong outside.
\<close>

section \<open>Instructions\<close>

lemma ireg_at: "x_of_op (mi_operands mi ! i) = Some r \<Longrightarrow> i < length (mi_operands mi) \<Longrightarrow> ireg mi i = ucast r"
  by (simp add: ireg_def operand_at_def x_of_op_reg)

lemma freg_at: "f_of_op (mi_operands mi ! i) = Some r \<Longrightarrow> i < length (mi_operands mi) \<Longrightarrow> freg mi i = ucast r"
  by (simp add: freg_def operand_at_def f_of_op_reg)

lemma imm_at_eq: "mi_operands mi ! i = MImm v \<Longrightarrow> i < length (mi_operands mi) \<Longrightarrow> imm_at mi i = word_of_int v"
  by (simp add: imm_at_def operand_at_def imm_of_op_def)

lemma dst_at: "x_of_dst (mi_dst mi) = Some r \<Longrightarrow> dst_or_zero mi = ucast r"
  using x_of_dstE by (fastforce simp: dst_or_zero_def)

lemmas operand_simps = ireg_at freg_at imm_at_eq dst_at int_dst_reg f_of_dst_reg

lemmas op_tables = alu_ops_def imm_ops_def branch_ops_def amo_ops_def fp_ops_def fcmp_ops_def fcvt_to_ops_def
  fcvt_from_ops_def

definition encodes_to :: "minstr \<Rightarrow> rv_instr \<Rightarrow> bool" where
  "encodes_to mi r \<longleftrightarrow> patch_from_instr mi = None \<and> (\<exists>w. rv_encode_instr mi = Some w \<and> rv_decode w = Some r)"

definition patches_to :: "(nat \<Rightarrow> int) \<Rightarrow> minstr \<Rightarrow> rv_instr \<Rightarrow> bool" where
  "patches_to rel mi r \<longleftrightarrow>
     (\<exists>t k w. patch_from_instr mi = Some (t, k) \<and> rv_encode_instr mi = Some w \<and>
        rv_decode (patched k (rel t) w) = Some r)"

lemma no_patch_op:
  "mi_opcode mi = NOP \<Longrightarrow> patch_from_instr mi = None" "mi_opcode mi = LW \<Longrightarrow> patch_from_instr mi = None"
  "mi_opcode mi = LD \<Longrightarrow> patch_from_instr mi = None" "mi_opcode mi = RET \<Longrightarrow> patch_from_instr mi = None"
  "mi_opcode mi = FENCE \<Longrightarrow> patch_from_instr mi = None"
  by (simp_all add: patch_from_instr_def rv_opcodes)

lemma no_block:
  assumes "\<forall>b. MBlock b \<notin> set (mi_operands mi)"
  shows "patch_from_instr mi = None"
proof -
  have "operand_at mi i \<noteq> Some (MBlock b)" for i b
    using assms nth_mem by (metis operand_at_def option.distinct(1) option.inject)
  then show ?thesis by (auto simp: patch_from_instr_def split: option.split moperand.split)
qed

lemma reg5_thrice [simp]: "ucast (ucast (ucast (r :: reg5) :: 8 word) :: 32 word) = r"
  by (rule bit_word_eqI) (simp add: bit_simps)

lemma register_no_block: "x_of_op a = Some r \<Longrightarrow> MBlock b \<noteq> a" "f_of_op a = Some r \<Longrightarrow> MBlock b \<noteq> a"
  by auto

lemma i32_small: "- (2 ^ 31) \<le> x \<Longrightarrow> x < 2 ^ 31 \<Longrightarrow> i32 x = Some x"
  by (simp add: i32_def)

lemma sint_32: "- (2 ^ 31) \<le> x \<Longrightarrow> x < 2 ^ 31 \<Longrightarrow> sint (word_of_int x :: 32 word) = x"
  by (simp add: sint_uint uint_word_of_int_eq signed_take_bit_take_bit signed_take_bit_int_eq_self_iff)

lemma even_word: "even i \<Longrightarrow> even (word_of_int i :: 32 word)"
  by (metis even_of_int_iff)

lemma encode_integer:
  assumes "x_of_dst (mi_dst mi) = Some rd"
  shows "(mi_opcode mi, m) \<in> set alu_ops \<Longrightarrow> mi_operands mi = [a, b] \<Longrightarrow> x_of_op a = Some rs1 \<Longrightarrow>
      x_of_op b = Some rs2 \<Longrightarrow> encodes_to mi (RvR m rd rs1 rs2)"
    and "(mi_opcode mi, i) \<in> set imm_ops \<Longrightarrow> mi_operands mi = [a, MImm v] \<Longrightarrow> x_of_op a = Some rs1 \<Longrightarrow>
      - 2048 \<le> v \<Longrightarrow> v < 2048 \<Longrightarrow> encodes_to mi (RvI i rd rs1 v)"
    and "(mi_opcode mi, i) \<in> {(LW, RvLw), (LD, RvLd)} \<Longrightarrow> mi_operands mi = [a, b, MImm v] \<Longrightarrow>
      x_of_op a = Some rs1 \<Longrightarrow> - 2048 \<le> v \<Longrightarrow> v < 2048 \<Longrightarrow> encodes_to mi (RvI i rd rs1 v)"
    and "(mi_opcode mi, t, dw) \<in> set amo_ops \<Longrightarrow> mi_operands mi = [a, b] \<Longrightarrow> x_of_op a = Some rs1 \<Longrightarrow>
      x_of_op b = Some rs2 \<Longrightarrow> encodes_to mi (RvAmo t dw True True rd rs1 rs2)"
    and "(mi_opcode mi, dw) \<in> {(LR_W, False), (LR_D, True)} \<Longrightarrow> mi_operands mi = [a] \<Longrightarrow>
      x_of_op a = Some rs1 \<Longrightarrow> encodes_to mi (RvAmo RvLr dw True True rd rs1 0)"
  using assms
  by (auto simp: encodes_to_def no_block no_patch_op register_no_block op_tables encode_simps operand_simps decode_words sint_fields)


lemma encode_memory:
  shows "mi_opcode mi = LD_REG \<Longrightarrow> x_of_dst (mi_dst mi) = Some rd \<Longrightarrow> mi_operands mi = [a] \<Longrightarrow>
      x_of_op a = Some rs1 \<Longrightarrow> encodes_to mi (RvI RvLd rd rs1 0)"
    and "mi_opcode mi = SD_REG \<Longrightarrow> mi_operands mi = [a, b] \<Longrightarrow> x_of_op a = Some rs1 \<Longrightarrow>
      x_of_op b = Some rs2 \<Longrightarrow> encodes_to mi (RvStore RvSd rs2 rs1 0)"
    and "(mi_opcode mi, m) \<in> {(SW, RvSw), (SD, RvSd)} \<Longrightarrow> mi_operands mi = [a, b, MImm i] \<Longrightarrow>
      x_of_op a = Some rs1 \<Longrightarrow> x_of_op b = Some rs2 \<Longrightarrow> - 2048 \<le> i \<Longrightarrow> i < 2048 \<Longrightarrow>
      encodes_to mi (RvStore m rs2 rs1 i)"
    and "(mi_opcode mi, l) \<in> {(FLD, RvFld), (FLW, RvFlw)} \<Longrightarrow> f_of_dst (mi_dst mi) = Some rd \<Longrightarrow>
      mi_operands mi = [a, MImm i] \<Longrightarrow> x_of_op a = Some rs1 \<Longrightarrow> - 2048 \<le> i \<Longrightarrow> i < 2048 \<Longrightarrow>
      encodes_to mi (RvI l rd rs1 i)"
    and "(mi_opcode mi, m) \<in> {(FSD, RvFsd), (FSW, RvFsw)} \<Longrightarrow> mi_operands mi = [a, b, MImm i] \<Longrightarrow>
      x_of_op a = Some rs1 \<Longrightarrow> f_of_op b = Some rs2 \<Longrightarrow> - 2048 \<le> i \<Longrightarrow> i < 2048 \<Longrightarrow>
      encodes_to mi (RvStore m rs2 rs1 i)"
  by (auto simp: encodes_to_def no_block register_no_block encode_simps operand_simps decode_words sint_fields)

lemma encode_frame:
  shows "mi_opcode mi = ADDI_FP_SLOT \<Longrightarrow> x_of_dst (mi_dst mi) = Some rd \<Longrightarrow> mi_operands mi = [MImm i] \<Longrightarrow>
      0 \<le> i \<Longrightarrow> i < 256 \<Longrightarrow> encodes_to mi (RvI RvAddi rd 8 (- 8 * (i + 1)))"
    and "mi_opcode mi = FP_LOAD_MR \<Longrightarrow> f_of_dst (mi_dst mi) = Some rd \<Longrightarrow> mi_operands mi = [MImm i] \<Longrightarrow>
      0 \<le> i \<Longrightarrow> i < 256 \<Longrightarrow> encodes_to mi (RvI RvFld rd 8 (8 * i))"
    and "mi_opcode mi = FP_STORE_RM \<Longrightarrow> mi_operands mi = [MImm i, a] \<Longrightarrow> f_of_op a = Some v \<Longrightarrow> 0 \<le> i \<Longrightarrow>
      i < 256 \<Longrightarrow> encodes_to mi (RvStore RvFsd v 8 (8 * i))"
proof -
  have d: "rv_decode (enc_i imm 8 f3 (ucast d) opc) =
      map_option (\<lambda>m. RvI m d 8 (sint (ucast imm :: 12 word))) (map_of imm_table (ucast opc, ucast f3))"
    if "f3 < 8" "opc \<in> {0x13, 0x67, 0x03, 0x07}" for imm f3 d opc
    using decode_i [OF that, of imm 8 d] by simp
  have e: "rv_decode (enc_s imm (ucast b) 8 f3 opc) =
      map_option (\<lambda>m. RvStore m b 8 (sint (ucast imm :: 12 word))) (map_of store_table (ucast opc, ucast f3))"
    if "f3 < 8" "opc \<in> {0x23, 0x27}" for imm f3 b opc
    using decode_s [OF that, of imm b 8] by simp
  show "mi_opcode mi = ADDI_FP_SLOT \<Longrightarrow> x_of_dst (mi_dst mi) = Some rd \<Longrightarrow> mi_operands mi = [MImm i] \<Longrightarrow>
      0 \<le> i \<Longrightarrow> i < 256 \<Longrightarrow> encodes_to mi (RvI RvAddi rd 8 (- 8 * (i + 1)))"
    "mi_opcode mi = FP_LOAD_MR \<Longrightarrow> f_of_dst (mi_dst mi) = Some rd \<Longrightarrow> mi_operands mi = [MImm i] \<Longrightarrow>
      0 \<le> i \<Longrightarrow> i < 256 \<Longrightarrow> encodes_to mi (RvI RvFld rd 8 (8 * i))"
    "mi_opcode mi = FP_STORE_RM \<Longrightarrow> mi_operands mi = [MImm i, a] \<Longrightarrow> f_of_op a = Some v \<Longrightarrow> 0 \<le> i \<Longrightarrow>
      i < 256 \<Longrightarrow> encodes_to mi (RvStore RvFsd v 8 (8 * i))"
    unfolding encodes_to_def
    by (simp_all add: no_block register_no_block encode_simps operand_simps i32_small sint_32 d e imm_table_def store_table_def
        sint_fields del: of_int_mult of_int_add of_int_minus of_int_diff)
qed


lemma zero_reg: "(0 :: 8 word) = ucast (0 :: reg5)" "(1 :: 8 word) = ucast (1 :: reg5)"
  by simp_all

lemma decode_link:
  "rv_decode (enc_i imm 0 f3 (ucast d) 0x13) =
     map_option (\<lambda>m. RvI m d 0 (sint (ucast imm :: 12 word))) (map_of imm_table (0x13, ucast f3))" if "f3 < 8"
  using decode_i [OF that, of "0x13" imm 0 d] by simp

lemma encode_moves:
  shows "mi_opcode mi = NOP \<Longrightarrow> encodes_to mi (RvI RvAddi 0 0 0)"
    and "mi_opcode mi = RET \<Longrightarrow> encodes_to mi (RvI RvJalr 0 1 0)"
    and "mi_opcode mi = FENCE \<Longrightarrow> encodes_to mi (RvFence 0xF 0xF)"
    and "mi_opcode mi = MOV_RR \<Longrightarrow> x_of_dst (mi_dst mi) = Some rd \<Longrightarrow> mi_operands mi = [a] \<Longrightarrow>
      x_of_op a = Some rs \<Longrightarrow> encodes_to mi (RvI RvAddi rd rs 0)"
    and "mi_opcode mi = MOV_IMM \<Longrightarrow> x_of_dst (mi_dst mi) = Some rd \<Longrightarrow> mi_operands mi = [MImm i] \<Longrightarrow>
      - 2048 \<le> i \<Longrightarrow> i < 2048 \<Longrightarrow> encodes_to mi (RvI RvAddi rd 0 i)"
    and "mi_opcode mi = MOV_PR \<Longrightarrow> mi_operands mi = [d, a] \<Longrightarrow> x_of_op d = Some rd \<Longrightarrow>
      x_of_op a = Some rs \<Longrightarrow> encodes_to mi (RvI RvAddi rd rs 0)"
  unfolding encodes_to_def
proof -
  show "mi_opcode mi = NOP \<Longrightarrow> patch_from_instr mi = None \<and> (\<exists>w. rv_encode_instr mi = Some w \<and> rv_decode w = Some (RvI RvAddi 0 0 0))"
    by (simp add: no_patch_op encode_simps rv_decode_def fields imm_table_def imm_i_def)
  show "mi_opcode mi = FENCE \<Longrightarrow> patch_from_instr mi = None \<and> (\<exists>w. rv_encode_instr mi = Some w \<and> rv_decode w = Some (RvFence 0xF 0xF))"
    by (simp add: no_patch_op encode_simps rv_decode_def fields)
  show "mi_opcode mi = RET \<Longrightarrow> patch_from_instr mi = None \<and> (\<exists>w. rv_encode_instr mi = Some w \<and> rv_decode w = Some (RvI RvJalr 0 1 0))"
    using decode_i [of 0 "0x67" 0 1 0] by (simp add: no_patch_op encode_simps imm_table_def)
qed (auto simp: no_block register_no_block encode_simps operand_simps decode_words decode_link sint_fields)

lemma encode_upper:
  shows "mi_opcode mi = LUI \<Longrightarrow> x_of_dst (mi_dst mi) = Some rd \<Longrightarrow> mi_operands mi = [MImm i] \<Longrightarrow>
      encodes_to mi (RvLui rd (ucast (drop_bit 12 (word_of_int i :: 32 word))))"
    and "mi_opcode mi = AUIPC \<Longrightarrow> x_of_dst (mi_dst mi) = Some rd \<Longrightarrow> mi_operands mi = [MImm i] \<Longrightarrow>
      encodes_to mi (RvAuipc rd (ucast (drop_bit 12 (word_of_int i :: 32 word))))"
    and "mi_opcode mi = JALR \<Longrightarrow> mi_dst mi = None \<Longrightarrow> mi_operands mi = [l, a, MImm j] \<Longrightarrow>
      x_of_op l = Some link \<Longrightarrow> x_of_op a = Some rs \<Longrightarrow> - 2048 \<le> j \<Longrightarrow> j < 2048 \<Longrightarrow>
      encodes_to mi (RvI RvJalr link rs j)"
    and "mi_opcode mi = JALR \<Longrightarrow> x_of_dst (mi_dst mi) = Some link \<Longrightarrow> mi_operands mi = [a, MImm j] \<Longrightarrow>
      x_of_op a = Some rs \<Longrightarrow> - 2048 \<le> j \<Longrightarrow> j < 2048 \<Longrightarrow> encodes_to mi (RvI RvJalr link rs j)"
  unfolding encodes_to_def
  by (auto simp: no_block register_no_block encode_simps operand_simps decode_words sint_fields
      dest!: x_of_dstE)

lemma encode_float:
  shows "(mi_opcode mi, m, fmt) \<in> set fp_ops \<Longrightarrow> f_of_dst (mi_dst mi) = Some rd \<Longrightarrow> mi_operands mi = [a, b] \<Longrightarrow>
      f_of_op a = Some rs1 \<Longrightarrow> f_of_op b = Some rs2 \<Longrightarrow> encodes_to mi (RvFp m fmt 7 rd rs1 rs2)"
    and "mi_opcode mi = FSQRT_D \<Longrightarrow> f_of_dst (mi_dst mi) = Some rd \<Longrightarrow> mi_operands mi = [a] \<Longrightarrow>
      f_of_op a = Some rs1 \<Longrightarrow> encodes_to mi (RvFsqrt RvD 7 rd rs1)"
    and "mi_opcode mi = FMV_D_D \<Longrightarrow>
      f_of_dst (mi_dst mi) = Some rd \<Longrightarrow> mi_operands mi = [a] \<Longrightarrow> f_of_op a = Some rs1 \<Longrightarrow>
      encodes_to mi (RvFsgnj False RvD rd rs1 rs1)"
    and "(mi_opcode mi, c, fmt) \<in> set fcmp_ops \<Longrightarrow> x_of_dst (mi_dst mi) = Some rd \<Longrightarrow> mi_operands mi = [a, b] \<Longrightarrow>
      f_of_op a = Some rs1 \<Longrightarrow> f_of_op b = Some rs2 \<Longrightarrow> encodes_to mi (RvFcmp c fmt rd rs1 rs2)"
    and "(mi_opcode mi, l, fmt) \<in> set fcvt_to_ops \<Longrightarrow> x_of_dst (mi_dst mi) = Some rd \<Longrightarrow> mi_operands mi = [a] \<Longrightarrow>
      f_of_op a = Some rs1 \<Longrightarrow> encodes_to mi (RvFcvtToInt l fmt 1 rd rs1)"
    and "(mi_opcode mi, l, fmt) \<in> set fcvt_from_ops \<Longrightarrow> f_of_dst (mi_dst mi) = Some rd \<Longrightarrow> mi_operands mi = [a] \<Longrightarrow>
      x_of_op a = Some rs1 \<Longrightarrow> encodes_to mi (RvFcvtFromInt l fmt 0 rd rs1)"
  unfolding encodes_to_def
  by (auto simp: no_block register_no_block encode_simps operand_simps op_tables decode_fp_simps)


lemma patched_branch:
  "patched Branch13 i (enc_b imm (ucast b) (ucast a) f3 0x63) = enc_b (word_of_int i) (ucast b) (ucast a) f3 0x63"
  if "f3 < 8" for a b :: reg5
proof -
  let ?w = "enc_b imm (ucast b) (ucast a) f3 0x63"
  have f: "f_rs2 ?w = b" "f_rs1 ?w = a" "f_f3 ?w = ucast f3" using that by (simp_all add: fields_b)
  have m: "ucast (take_bit 5 x) = (ucast (ucast x :: reg5) :: 8 word)" "take_bit 3 x = ucast (ucast x :: 3 word)"
    for x :: "32 word" by (rule bit_word_eqI; auto simp: bit_simps)+
  have g: "(ucast (ucast f3 :: 3 word) :: 32 word) = f3"
    by (rule bit_word_eqI) (use that in \<open>auto simp: bit_simps dest: bit_small_numerals\<close>)
  show ?thesis
    unfolding patched_def Let_def patch_kind.case and_mask m f_rs2_def [symmetric] f_rs1_def [symmetric]
      f_f3_def [symmetric] f g by simp
qed

lemma patched_jump:
  "patched Jal21 i (enc_j imm (ucast d) 0x6F) = enc_j (word_of_int i) (ucast d) 0x6F" for d :: reg5
proof -
  have f: "f_rd (enc_j imm (ucast d) 0x6F) = d" by (simp add: fields_j)
  have m: "ucast (take_bit 5 x) = (ucast (ucast x :: reg5) :: 8 word)" for x :: "32 word"
    by (rule bit_word_eqI) (auto simp: bit_simps)
  show ?thesis
    unfolding patched_def Let_def patch_kind.case and_mask m f_rd_def [symmetric] f by simp
qed

lemma encode_branch:
  assumes "(mi_opcode mi, m) \<in> set branch_ops" "mi_operands mi = [a, b, c]" "x_of_op a = Some rs1"
    "x_of_op b = Some rs2" "even i" "- 4096 \<le> i" "i < 4096"
  shows "c = MImm i \<Longrightarrow> encodes_to mi (RvB m rs1 rs2 i)"
    and "c = MBlock t \<Longrightarrow> rel t = i \<Longrightarrow> patches_to rel mi (RvB m rs1 rs2 i)"
proof -
  show "c = MImm i \<Longrightarrow> encodes_to mi (RvB m rs1 rs2 i)"
    using assms by (auto simp: encodes_to_def no_block register_no_block encode_simps operand_simps op_tables
        decode_words sint_fields even_word)
  assume c: "c = MBlock t" "rel t = i"
  then have "patch_from_instr mi = Some (t, Branch13)"
    using assms(1,2) by (auto simp: patch_from_instr_def operand_at_def branch_ops_def)
  moreover have "\<exists>w. rv_encode_instr mi = Some w \<and> rv_decode (patched Branch13 i w) = Some (RvB m rs1 rs2 i)"
    using assms c by (auto simp: encode_simps operand_simps op_tables patched_branch decode_words sint_fields even_word)
  ultimately show "patches_to rel mi (RvB m rs1 rs2 i)" using c by (auto simp: patches_to_def)
qed

lemma encode_jump:
  assumes "mi_opcode mi = JAL" "mi_dst mi = None" "mi_operands mi = [c]" "even i" "- 1048576 \<le> i" "i < 1048576"
  shows "c = MImm i \<Longrightarrow> encodes_to mi (RvJal 0 i)"
    and "c = MBlock t \<Longrightarrow> rel t = i \<Longrightarrow> patches_to rel mi (RvJal 0 i)"
proof -
  have d: "rv_decode (enc_j imm 0 0x6F) = Some (RvJal 0 (sint (ucast imm :: 21 word)))" if "even imm" for imm
    using decode_j [OF that, of 0] by simp
  have p: "patched Jal21 i (enc_j imm 0 0x6F) = enc_j (word_of_int i) 0 0x6F" for imm
    using patched_jump [of i imm 0] by simp
  show "c = MImm i \<Longrightarrow> encodes_to mi (RvJal 0 i)"
    using assms by (simp add: encodes_to_def no_block encode_simps operand_simps d dst_or_zero_def sint_fields even_word)
  assume c: "c = MBlock t" "rel t = i"
  then have "patch_from_instr mi = Some (t, Jal21)"
    using assms(1,3) by (simp add: patch_from_instr_def operand_at_def rv_opcodes)
  then show "patches_to rel mi (RvJal 0 i)"
    using assms c by (simp add: patches_to_def encode_simps dst_or_zero_def p d sint_fields even_word)
qed

lemma encode_means:
  assumes "rv_means rel mi r"
  shows "encodes_to mi r \<or> patches_to rel mi r"
  using assms
proof cases
  case (branch m a b c rs1 rs2 i)
  then show ?thesis using encode_branch [of mi m a b c rs1 rs2 i] by blast
next
  case (jump c i)
  then show ?thesis using encode_jump [of mi c i] by blast
qed (blast intro: encode_integer encode_memory encode_frame encode_moves encode_upper encode_float)+


section \<open>Functions\<close>

definition machine_code :: "machine_function \<Rightarrow> minstr list" where
  "machine_code mf = concat (map mb_instrs (mf_blocks mf))"

definition bytes_of :: "ins list \<Rightarrow> byte list" where
  "bytes_of ws = concat (map (\<lambda>w. enc_u32 (unat w)) ws)"

lemma length_bytes_of [simp]: "length (bytes_of ws) = 4 * length ws"
  by (induction ws) (simp_all add: bytes_of_def enc_u32_def)

lemma bytes_of_append [simp]: "bytes_of (ws @ ws') = bytes_of ws @ bytes_of ws'" "bytes_of [] = []"
  "bytes_of (w # ws) = enc_u32 (unat w) @ bytes_of ws"
  by (simp_all add: bytes_of_def)

lemma word_of_bytes: "of_nat (from_le (enc_u32 (unat w))) = (w :: ins)"
proof -
  have "unat w < 2 ^ 32" using unsigned_less [of w, where 'a = nat] by simp
  then show ?thesis by (simp add: enc_u32_def from_le_bytes)
qed

lemma fetch_bytes_of: "rv_fetch (length ws) (bytes_of ws) = ws"
  by (induction ws) (simp_all add: word_of_bytes enc_u32_def [THEN arg_cong [where f = length]])

lemma disassemble_bytes_of: "rv_disassemble (bytes_of ws) = map rv_decode ws"
  by (simp add: rv_disassemble_def fetch_bytes_of)

lemma try_foldl_concat:
  "try_foldl (\<lambda>s x. try_foldl f s (g x)) s xs = try_foldl f s (concat (map g xs))"
  by (induction xs arbitrary: s) (auto simp: try_foldl_append split: option.split)

definition patches_at :: "nat \<Rightarrow> minstr \<Rightarrow> patch list" where
  "patches_at p mi = (case patch_from_instr mi of Some (t, k) \<Rightarrow> [(4 * p, t, k)] | None \<Rightarrow> [])"

definition rows_at :: "nat \<Rightarrow> minstr \<Rightarrow> debug_line_row list" where
  "rows_at p mi =
     (case mi_debug_loc mi of
        Some loc \<Rightarrow> [\<lparr>dl_address = 4 * p, dl_line = unat (debug_loc.dl_line loc),
                      dl_column = unat (debug_loc.dl_column loc)\<rparr>]
      | None \<Rightarrow> [])"

definition from_position :: "(nat \<Rightarrow> 'a \<Rightarrow> 'b list) \<Rightarrow> nat \<Rightarrow> 'a list \<Rightarrow> 'b list" where
  "from_position f p xs = concat (map (\<lambda>(i, x). f i x) (enumerate p xs))"

lemma from_position_simps [simp]:
  "from_position f p [] = []" "from_position f p (x # xs) = f p x @ from_position f (Suc p) xs"
  by (simp_all add: from_position_def)

lemma emit_instrs:
  assumes "\<forall>mi\<in>set mis. rv_encode_instr mi = Some (enc mi)"
  shows "try_foldl rv_emit_instr (bytes_of ws, ps, rows) mis =
    Some (bytes_of (ws @ map enc mis), ps @ from_position patches_at (length ws) mis,
      rows @ from_position rows_at (length ws) mis)"
  using assms
proof (induction mis arbitrary: ws ps rows)
  case (Cons mi mis)
  have "rv_emit_instr (bytes_of ws, ps, rows) mi =
      Some (bytes_of (ws @ [enc mi]), ps @ patches_at (length ws) mi, rows @ rows_at (length ws) mi)"
    using Cons.prems by (simp add: rv_emit_instr_def patches_at_def rows_at_def Let_def split: option.split)
  with Cons show ?case by (simp del: bytes_of_append)
qed simp

definition final_word :: "machine_function \<Rightarrow> nat \<Rightarrow> minstr \<Rightarrow> ins \<Rightarrow> ins" where
  "final_word mf p mi w =
     (case patch_from_instr mi of
        Some (t, k) \<Rightarrow> patched k (int (block_offset mf t) - int (4 * p)) w | None \<Rightarrow> w)"

lemma apply_patch_at:
  "apply_patch mf (bytes_of (pre @ w # post)) (4 * length pre, t, k) =
     Some (bytes_of (pre @ patched k (int (block_offset mf t) - int (4 * length pre)) w # post))"
proof -
  have "length (enc_u32 (unat w)) = 4" for w :: ins by (simp add: enc_u32_def)
  then show ?thesis by (simp add: apply_patch_def Let_def word_of_bytes)
qed

lemma apply_patches:
  "try_foldl (apply_patch mf) (bytes_of (pre @ map enc mis)) (from_position patches_at (length pre) mis) =
     Some (bytes_of (pre @ map (\<lambda>(p, mi). final_word mf p mi (enc mi)) (enumerate (length pre) mis)))"
proof (induction mis arbitrary: pre)
  case (Cons mi mis)
  have "try_foldl (apply_patch mf) (bytes_of (pre @ enc mi # map enc mis)) (patches_at (length pre) mi) =
      Some (bytes_of (pre @ final_word mf (length pre) mi (enc mi) # map enc mis))"
    using apply_patch_at by (auto simp: patches_at_def final_word_def split: option.split simp del: bytes_of_append)
  with Cons [of "pre @ [final_word mf (length pre) mi (enc mi)]"] show ?case
    by (simp add: try_foldl_append del: bytes_of_append)
qed simp

text \<open>
  Where a block starts: the number of instructions in the blocks laid out before it. Instruction \<open>p\<close> is at
  byte \<open>4 * p\<close>, so a branch to block \<open>t\<close> has to encode the displacement of \<open>branch_distance mf p t\<close> bytes.
\<close>

definition block_start :: "machine_function \<Rightarrow> nat \<Rightarrow> nat" where
  "block_start mf t = length (concat (map mb_instrs (take t (mf_blocks mf))))"

definition branch_distance :: "machine_function \<Rightarrow> nat \<Rightarrow> nat \<Rightarrow> int" where
  "branch_distance mf p t = 4 * (int (block_start mf t) - int p)"

lemma block_start_code:
  assumes "t < length (mf_blocks mf)"
  shows "\<exists>rest. drop (block_start mf t) (machine_code mf) = mb_instrs (mf_blocks mf ! t) @ rest"
proof -
  have "mf_blocks mf = take t (mf_blocks mf) @ mf_blocks mf ! t # drop (Suc t) (mf_blocks mf)"
    using assms by (rule id_take_nth_drop)
  then have "machine_code mf = concat (map mb_instrs (take t (mf_blocks mf))) @ mb_instrs (mf_blocks mf ! t) @
      concat (map mb_instrs (drop (Suc t) (mf_blocks mf)))"
    unfolding machine_code_def by (metis concat.simps(2) concat_append list.simps(9) map_append)
  then show ?thesis by (simp add: block_start_def)
qed

lemma block_offset_distance: "int (block_offset mf t) - 4 * int p = branch_distance mf p t"
  by (simp add: block_offset_def branch_distance_def block_start_def length_concat o_def sum_list_mult_const)

text \<open>C33: Emission returns for every function whose machine instructions stand for RISC-V instructions, and
  the code section, disassembled, is the list of these instructions: operands, immediates and condition
  codes in their fields, every branch with the distance from it to the first instruction of its target
  block. The debug rows give the offset of each instruction that has a location.\<close>

theorem riscv_emit_correct:
  assumes "length rs = length (machine_code mf)"
    and "\<forall>p<length (machine_code mf).
      rv_means (branch_distance mf p) (machine_code mf ! p) (rs ! p)"
  shows "\<exists>s. rv_emit_function mf = Some s \<and> sec_name s = ''.text'' \<and> rv_disassemble (sec_data s) = map Some rs \<and>
    sec_debug_rows s = from_position rows_at 0 (machine_code mf)"
proof -
  let ?ms = "machine_code mf" and ?enc = "\<lambda>mi. the (rv_encode_instr mi)"
  have word: "rv_encode_instr (?ms ! p) = Some (?enc (?ms ! p)) \<and>
      rv_decode (final_word mf p (?ms ! p) (?enc (?ms ! p))) = Some (rs ! p)" if "p < length ?ms" for p
  proof -
    from assms(2) that have "rv_means (branch_distance mf p) (?ms ! p) (rs ! p)" by blast
    from encode_means [OF this] show ?thesis
      by (auto simp: encodes_to_def patches_to_def final_word_def block_offset_distance)
  qed
  have enc: "\<forall>mi\<in>set ?ms. rv_encode_instr mi = Some (?enc mi)"
    using word by (metis in_set_conv_nth)
  let ?final = "map (\<lambda>(p, mi). final_word mf p mi (?enc mi)) (enumerate 0 ?ms)"
  have "rv_emit_function mf = Some \<lparr>sec_name = ''.text'', sec_data = bytes_of ?final, sec_relocs = [],
      sec_debug_rows = from_position rows_at 0 ?ms\<rparr>"
    using emit_instrs [OF enc, of "[]" "[]" "[]"] apply_patches [of mf "[]" ?enc ?ms]
    by (simp add: rv_emit_function_def machine_code_def try_foldl_concat)
  moreover have "map rv_decode ?final = map Some rs"
    using assms(1) word by (intro nth_equalityI) (auto simp: nth_enumerate_eq)
  ultimately show ?thesis by (simp add: disassemble_bytes_of)
qed


definition ex_rv_loop :: machine_function where
  "ex_rv_loop = (mf_new ''f'')\<lparr>mf_blocks :=
     [\<lparr>mb_label = ''f'', mb_instrs = [with_imm (with_dst (minstr_new MOV_IMM) 10) 5, with_block (minstr_new JAL) 1]\<rparr>,
      \<lparr>mb_label = ''f.loop'', mb_instrs =
         [with_preg (with_preg (with_dst (minstr_new SUB_RR) 10) 10) 11,
          with_block (with_preg (with_preg (minstr_new BNE) 10) 0) 1, minstr_new RET]\<rparr>]\<rparr>"

theorem riscv_emit_correct_witness:
  "\<exists>s. rv_emit_function ex_rv_loop = Some s \<and> rv_disassemble (sec_data s) =
     [Some (RvI RvAddi 10 0 5), Some (RvJal 0 4), Some (RvR RvSub 10 10 11), Some (RvB RvBne 10 0 (- 4)),
      Some (RvI RvJalr 0 1 0)]"
proof -
  let ?rs = "[RvI RvAddi 10 0 5, RvJal 0 4, RvR RvSub 10 10 11, RvB RvBne 10 0 (- 4), RvI RvJalr 0 1 0]"
  note code = ex_rv_loop_def machine_code_def with_imm_def with_dst_def with_block_def with_preg_def minstr_new_def
  have "rv_means (branch_distance ex_rv_loop p) (machine_code ex_rv_loop ! p) (?rs ! p)"
    if "p < length (machine_code ex_rv_loop)" for p
  proof -
    from that consider "p = 0" | "p = 1" | "p = 2" | "p = 3" | "p = 4" by (fastforce simp: code)
    then show ?thesis
    proof cases
      case 1 then show ?thesis by (simp add: code) (rule rv_means.mov_imm; simp)
    next
      case 2 then show ?thesis
        by (simp add: code del: exI)
          (rule rv_means.jump [where c = "MBlock 1"]; (rule disjI2, rule exI [of _ 1])?; simp add: branch_distance_def block_start_def)
    next
      case 3 then show ?thesis by (simp add: code) (rule rv_means.alu [where a = "MPReg 10" and b = "MPReg 11"]; simp add: alu_ops_def)
    next
      case 4 then show ?thesis
        by (simp add: code)
          (rule rv_means.branch [where a = "MPReg 10" and b = "MPReg 0" and c = "MBlock 1"]; (rule disjI2, rule exI [of _ 1])?; simp add: branch_ops_def branch_distance_def block_start_def)
    next
      case 5 then show ?thesis by (simp add: code) (rule rv_means.ret; simp)
    qed
  qed
  then show ?thesis using riscv_emit_correct [of ?rs ex_rv_loop] by (auto simp: code)
qed

text \<open>C38: A constant is materialised by one \<open>addi\<close> with its low twelve bits, so the register holds the
  constant exactly when it lies between -2048 and 2047; any other constant is changed without an error.\<close>

theorem riscv_mov_imm_bounds:
  assumes "mi_opcode mi = MOV_IMM" "x_of_dst (mi_dst mi) = Some rd" "mi_operands mi = [MImm i]"
  shows "\<exists>w v. rv_encode_instr mi = Some w \<and> rv_decode w = Some (RvI RvAddi rd 0 v) \<and>
     - 2048 \<le> v \<and> v < 2048 \<and> (v = i \<longleftrightarrow> - 2048 \<le> i \<and> i < 2048)"
proof -
  let ?v = "sint (ucast (word_of_int i :: 32 word) :: 12 word)"
  have d: "rv_decode (enc_i (word_of_int i) 0 0 (ucast rd) 0x13) = Some (RvI RvAddi rd 0 ?v)"
    using decode_i [of 0 "0x13" "word_of_int i" 0 rd] by (simp add: imm_table_def)
  have b: "- 2048 \<le> ?v" "?v < 2048"
    using sint_greater_eq [of "ucast (word_of_int i :: 32 word) :: 12 word"]
      sint_lt [of "ucast (word_of_int i :: 32 word) :: 12 word"] by simp_all
  show ?thesis
    using assms d b sint_fields(1) [of i]
    by (intro exI [of _ "enc_i (word_of_int i) 0 0 (ucast rd) 0x13"] exI [of _ ?v])
      (auto simp: encode_simps operand_simps)
qed

theorem riscv_mov_imm_bounds_witness:
  "\<exists>w v. rv_encode_instr (with_imm (with_dst (minstr_new MOV_IMM) 10) 5000) = Some w \<and>
     rv_decode w = Some (RvI RvAddi 10 0 v) \<and> v \<noteq> 5000"
  using riscv_mov_imm_bounds [of "with_imm (with_dst (minstr_new MOV_IMM) 10) 5000" 10 5000]
  by (auto simp: with_imm_def with_dst_def minstr_new_def)

text \<open>Double-precision negation is encoded with the function code 0x21, which is that of the conversion
  from single precision and not of sign injection (0x11): negating \<open>f0\<close> is the instruction \<open>fcvt.d.s\<close> and
  negating any other register is no instruction at all.\<close>

theorem riscv_fneg_is_fcvt:
  assumes "mi_opcode mi = FNEG_D" "f_of_dst (mi_dst mi) = Some rd" "mi_operands mi = [a]" "f_of_op a = Some rs"
  shows "\<exists>w. rv_encode_instr mi = Some w \<and>
     rv_decode w = (if rs = 0 then Some (RvFcvtFp RvD 1 rd 0) else None)"
  using assms by (auto simp: encode_simps operand_simps decode_fp_simps)

theorem riscv_fneg_is_fcvt_witness:
  "\<exists>w. rv_encode_instr (with_preg (with_dst (minstr_new FNEG_D) 43) 42) = Some w \<and> rv_decode w = None"
  using riscv_fneg_is_fcvt [of "with_preg (with_dst (minstr_new FNEG_D) 43) 42" 11 "MPReg 42" 10]
  by (auto simp: with_preg_def with_dst_def minstr_new_def)

text \<open>The lowering of an invoke makes its call a \<open>JALR\<close> with the callee as the only operand. The
  encoder takes the first operand of a \<open>JALR\<close> without destination for the link register and the second
  for the target: the instruction jumps to address 0 and overwrites the callee.\<close>

theorem riscv_invoke_jumps_to_zero:
  assumes "mi = with_preg (minstr_new JALR) r" "x_of_op (MPReg r) = Some callee"
  shows "\<exists>w. rv_encode_instr mi = Some w \<and> rv_decode w = Some (RvI RvJalr callee 0 0)"
proof -
  have "ireg mi 1 = 0" "ireg mi 0 = ucast callee" "mi_dst mi = None" "imm_at mi (Suc 1) = 0" "mi_opcode mi = JALR"
    using assms by (simp_all add: with_preg_def minstr_new_def ireg_def operand_at_def imm_at_def imm_of_op_def x_of_op_reg)
  then show ?thesis using decode_i [of 0 "0x67" 0 0 callee] by (simp add: encode_simps imm_table_def)
qed

theorem riscv_invoke_jumps_to_zero_witness:
  "\<exists>w. rv_encode_instr (with_preg (minstr_new JALR) 10) = Some w \<and> rv_decode w = Some (RvI RvJalr 10 0 0)"
  using riscv_invoke_jumps_to_zero [of "with_preg (minstr_new JALR) 10" 10 10] by simp

end
