(* ===== verification/IR_Builder.thy ===== *)
theory IR_Builder
  imports IR_Context IR_Function
begin

text \<open>
  The builder (\<open>llvm-ir/src/builder.rs\<close>): it owns a context and a module, a current function and a current
  block, and appends instructions to the end of the block. Names that are HOL keywords or constants are
  shortened (\<open>n\<close> for \<open>name\<close>, \<open>v\<close> for \<open>val\<close>, \<open>vs\<close> for \<open>args\<close>).
\<close>

section \<open>State\<close>

record builder =
  bd_ctx :: ir_context
  bd_module :: ir_module
  bd_function :: "function_id option"
  bd_block :: "block_id option"

definition builder_new :: "ir_context \<Rightarrow> ir_module \<Rightarrow> builder" where
  "builder_new ctx m = \<lparr>bd_ctx = ctx, bd_module = m, bd_function = None, bd_block = None\<rparr>"

definition builder_args :: "type_id list \<Rightarrow> string list \<Rightarrow> argument list" where
  \<comment> \<open>the types zipped with the names, which are padded with empty ones\<close>
  "builder_args tys names =
     map (\<lambda>(i, ty). \<lparr>arg_name = (if i < length names then names ! i else []), arg_ty = ty, arg_index = as_u32 i\<rparr>)
       (enumerate 0 tys)"

definition builder_add_function ::
  "builder \<Rightarrow> string \<Rightarrow> type_id \<Rightarrow> type_id list \<Rightarrow> string list \<Rightarrow> bool \<Rightarrow> linkage \<Rightarrow> builder \<times> function_id" where
  "builder_add_function b n ret_ty param_tys param_names variadic l =
     (let (c, fn_ty) = mk_fn_type (bd_ctx b) ret_ty param_tys variadic;
          func = function_new n fn_ty (builder_args param_tys param_names) l;
          (m, i) = add_function (bd_module b) func
      in (b\<lparr>bd_ctx := c, bd_module := m, bd_function := Some i, bd_block := None\<rparr>, i))"

definition builder_add_declaration ::
  "builder \<Rightarrow> string \<Rightarrow> type_id \<Rightarrow> type_id list \<Rightarrow> bool \<Rightarrow> builder \<times> function_id" where
  "builder_add_declaration b n ret_ty param_tys variadic =
     (let (c, fn_ty) = mk_fn_type (bd_ctx b) ret_ty param_tys variadic;
          func = new_declaration n fn_ty (builder_args param_tys []) External;
          (m, i) = add_function (bd_module b) func
      in (b\<lparr>bd_ctx := c, bd_module := m\<rparr>, i))"

definition current :: "builder \<Rightarrow> ir_function rust" where
  \<comment> \<open>\<open>module.function(current_function.expect(..))\<close>\<close>
  "current b = do { fid \<leftarrow> bd_function b; vec_get (m_functions (bd_module b)) fid }"

definition set_current :: "builder \<Rightarrow> ir_function \<Rightarrow> builder rust" where
  \<comment> \<open>a write through \<open>module.function_mut(current_function)\<close>\<close>
  "set_current b f =
     do { fid \<leftarrow> bd_function b;
          fs \<leftarrow> vec_set (m_functions (bd_module b)) fid f;
          Some (b\<lparr>bd_module := (bd_module b)\<lparr>m_functions := fs\<rparr>\<rparr>) }"

definition builder_add_block :: "builder \<Rightarrow> string \<Rightarrow> (builder \<times> block_id) rust" where
  "builder_add_block b n =
     do { f \<leftarrow> current b;
          let (f, bid) = add_block f (bb_new n);
          b \<leftarrow> set_current b f;
          Some (b, bid) }"

definition position_at_end :: "builder \<Rightarrow> block_id \<Rightarrow> builder" where
  "position_at_end b bid = b\<lparr>bd_block := Some bid\<rparr>"

definition get_arg :: "nat \<Rightarrow> value_ref" where
  "get_arg i = Argument i"

section \<open>Constants and globals\<close>

definition with_const :: "builder \<Rightarrow> ir_context \<times> const_id \<Rightarrow> builder \<times> value_ref" where
  "with_const b r = (b\<lparr>bd_ctx := fst r\<rparr>, Constant (snd r))"

definition builder_const_int :: "builder \<Rightarrow> type_id \<Rightarrow> u64 \<Rightarrow> builder \<times> value_ref" where
  "builder_const_int b ty v = with_const b (const_int (bd_ctx b) ty v)"

definition builder_const_bool :: "builder \<Rightarrow> bool \<Rightarrow> builder \<times> value_ref" where
  "builder_const_bool b v = with_const b (const_int (bd_ctx b) (i1_ty (bd_ctx b)) (of_bool v))"

definition builder_const_i32 :: "builder \<Rightarrow> 32 word \<Rightarrow> builder \<times> value_ref" where
  \<comment> \<open>\<open>val as u64\<close> extends the sign\<close>
  "builder_const_i32 b v = with_const b (const_int (bd_ctx b) (i32_ty (bd_ctx b)) (scast v))"

definition builder_const_i64 :: "builder \<Rightarrow> 64 word \<Rightarrow> builder \<times> value_ref" where
  "builder_const_i64 b v = with_const b (const_int (bd_ctx b) (i64_ty (bd_ctx b)) v)"

definition builder_const_f32 :: "builder \<Rightarrow> 32 word \<Rightarrow> builder \<times> value_ref" where
  \<comment> \<open>a float is the word of its bits\<close>
  "builder_const_f32 b bits = with_const b (const_float (bd_ctx b) (f32_ty (bd_ctx b)) (ucast bits))"

definition builder_const_f64 :: "builder \<Rightarrow> 64 word \<Rightarrow> builder \<times> value_ref" where
  "builder_const_f64 b bits = with_const b (const_float (bd_ctx b) (f64_ty (bd_ctx b)) bits)"

definition builder_const_null :: "builder \<Rightarrow> type_id \<Rightarrow> builder \<times> value_ref" where
  "builder_const_null b ty = with_const b (const_null (bd_ctx b) ty)"

definition builder_undef :: "builder \<Rightarrow> type_id \<Rightarrow> builder \<times> value_ref" where
  "builder_undef b ty = with_const b (const_undef (bd_ctx b) ty)"

definition builder_poison :: "builder \<Rightarrow> type_id \<Rightarrow> builder \<times> value_ref" where
  "builder_poison b ty = with_const b (const_poison (bd_ctx b) ty)"

definition builder_const_zero :: "builder \<Rightarrow> type_id \<Rightarrow> builder \<times> value_ref" where
  "builder_const_zero b ty = with_const b (const_zero (bd_ctx b) ty)"

definition builder_add_global ::
  "builder \<Rightarrow> string \<Rightarrow> type_id \<Rightarrow> const_id option \<Rightarrow> bool \<Rightarrow> linkage \<Rightarrow> builder \<times> global_id" where
  "builder_add_global b n ty init is_const l =
     (let (m, i) = add_global (bd_module b)
            \<lparr>gv_name = n, gv_ty = ty, gv_initializer = init, gv_is_constant = is_const, gv_linkage = l\<rparr>
      in (b\<lparr>bd_module := m\<rparr>, i))"

section \<open>Instructions\<close>

definition append_kind :: "builder \<Rightarrow> string option \<Rightarrow> type_id \<Rightarrow> instr_kind \<Rightarrow> (builder \<times> value_ref) rust" where
  \<comment> \<open>\<open>Builder::append_instr\<close>\<close>
  "append_kind b n ty k =
     do { f \<leftarrow> current b;
          bid \<leftarrow> bd_block b;
          let ins = \<lparr>instr_name = n, instr_ty = ty, instr_kind = k\<rparr>;
          (f, i) \<leftarrow> alloc_instr f ins;
          bb \<leftarrow> block f bid;
          f \<leftarrow> set_block f bid (if instruction_is_terminator ins then set_terminator bb i else append_instr bb i);
          b \<leftarrow> set_current b f;
          Some (b, Instruction i) }"

fun value_type :: "ir_context \<Rightarrow> ir_function \<Rightarrow> value_ref \<Rightarrow> type_id rust" where
  "value_type ctx f (Instruction i) = map_option instr_ty (instr f i)"
| "value_type ctx f (Argument i) = map_option arg_ty (arg f i)"
| "value_type ctx f (Constant i) = type_of_const ctx i"
| "value_type ctx f (Global i) = Some (ptr_ty ctx)"

definition bd_type_of :: "builder \<Rightarrow> value_ref \<Rightarrow> type_id rust" where
  \<comment> \<open>\<open>Builder::type_of\<close>\<close>
  "bd_type_of b v = do { f \<leftarrow> current b; value_type (bd_ctx b) f v }"

definition no_flags :: int_arith_flags where
  "no_flags = \<lparr>nuw = False, nsw = False\<rparr>"

definition no_fast_math :: fast_math_flags where
  "no_fast_math =
     \<lparr>nnan = False, ninf = False, nsz = False, arcp = False, contract = False, afn = False, reassoc = False,
      fast = False\<rparr>"

definition build_add ::
    "builder \<Rightarrow> string \<Rightarrow> value_ref \<Rightarrow> value_ref \<Rightarrow>
     (builder \<times> value_ref) rust" where
  "build_add b n lhs rhs =
     do { ty \<leftarrow> bd_type_of b lhs; append_kind b (Some n) ty (Add no_flags lhs rhs) }"

definition build_add_nsw ::
    "builder \<Rightarrow> string \<Rightarrow> value_ref \<Rightarrow> value_ref \<Rightarrow>
     (builder \<times> value_ref) rust" where
  "build_add_nsw b n lhs rhs =
     do { ty \<leftarrow> bd_type_of b lhs;
          append_kind b (Some n) ty (Add (no_flags\<lparr>nsw := True\<rparr>) lhs rhs) }"

definition build_sub ::
    "builder \<Rightarrow> string \<Rightarrow> value_ref \<Rightarrow> value_ref \<Rightarrow>
     (builder \<times> value_ref) rust" where
  "build_sub b n lhs rhs =
     do { ty \<leftarrow> bd_type_of b lhs; append_kind b (Some n) ty (Sub no_flags lhs rhs) }"

definition build_mul ::
    "builder \<Rightarrow> string \<Rightarrow> value_ref \<Rightarrow> value_ref \<Rightarrow>
     (builder \<times> value_ref) rust" where
  "build_mul b n lhs rhs =
     do { ty \<leftarrow> bd_type_of b lhs; append_kind b (Some n) ty (Mul no_flags lhs rhs) }"

definition build_udiv ::
    "builder \<Rightarrow> string \<Rightarrow> value_ref \<Rightarrow> value_ref \<Rightarrow>
     (builder \<times> value_ref) rust" where
  "build_udiv b n lhs rhs =
     do { ty \<leftarrow> bd_type_of b lhs; append_kind b (Some n) ty (UDiv False lhs rhs) }"

definition build_sdiv ::
    "builder \<Rightarrow> string \<Rightarrow> value_ref \<Rightarrow> value_ref \<Rightarrow>
     (builder \<times> value_ref) rust" where
  "build_sdiv b n lhs rhs =
     do { ty \<leftarrow> bd_type_of b lhs; append_kind b (Some n) ty (SDiv False lhs rhs) }"

definition build_urem ::
    "builder \<Rightarrow> string \<Rightarrow> value_ref \<Rightarrow> value_ref \<Rightarrow>
     (builder \<times> value_ref) rust" where
  "build_urem b n lhs rhs =
     do { ty \<leftarrow> bd_type_of b lhs; append_kind b (Some n) ty (URem lhs rhs) }"

definition build_srem ::
    "builder \<Rightarrow> string \<Rightarrow> value_ref \<Rightarrow> value_ref \<Rightarrow>
     (builder \<times> value_ref) rust" where
  "build_srem b n lhs rhs =
     do { ty \<leftarrow> bd_type_of b lhs; append_kind b (Some n) ty (SRem lhs rhs) }"

definition build_and ::
    "builder \<Rightarrow> string \<Rightarrow> value_ref \<Rightarrow> value_ref \<Rightarrow>
     (builder \<times> value_ref) rust" where
  "build_and b n lhs rhs =
     do { ty \<leftarrow> bd_type_of b lhs; append_kind b (Some n) ty (And lhs rhs) }"

definition build_or ::
    "builder \<Rightarrow> string \<Rightarrow> value_ref \<Rightarrow> value_ref \<Rightarrow>
     (builder \<times> value_ref) rust" where
  "build_or b n lhs rhs =
     do { ty \<leftarrow> bd_type_of b lhs; append_kind b (Some n) ty (Or lhs rhs) }"

definition build_xor ::
    "builder \<Rightarrow> string \<Rightarrow> value_ref \<Rightarrow> value_ref \<Rightarrow>
     (builder \<times> value_ref) rust" where
  "build_xor b n lhs rhs =
     do { ty \<leftarrow> bd_type_of b lhs; append_kind b (Some n) ty (Xor lhs rhs) }"

definition build_shl ::
    "builder \<Rightarrow> string \<Rightarrow> value_ref \<Rightarrow> value_ref \<Rightarrow>
     (builder \<times> value_ref) rust" where
  "build_shl b n lhs rhs =
     do { ty \<leftarrow> bd_type_of b lhs; append_kind b (Some n) ty (Shl no_flags lhs rhs) }"

definition build_lshr ::
    "builder \<Rightarrow> string \<Rightarrow> value_ref \<Rightarrow> value_ref \<Rightarrow>
     (builder \<times> value_ref) rust" where
  "build_lshr b n lhs rhs =
     do { ty \<leftarrow> bd_type_of b lhs; append_kind b (Some n) ty (LShr False lhs rhs) }"

definition build_ashr ::
    "builder \<Rightarrow> string \<Rightarrow> value_ref \<Rightarrow> value_ref \<Rightarrow>
     (builder \<times> value_ref) rust" where
  "build_ashr b n lhs rhs =
     do { ty \<leftarrow> bd_type_of b lhs; append_kind b (Some n) ty (AShr False lhs rhs) }"

definition build_fadd ::
    "builder \<Rightarrow> string \<Rightarrow> value_ref \<Rightarrow> value_ref \<Rightarrow>
     (builder \<times> value_ref) rust" where
  "build_fadd b n lhs rhs =
     do { ty \<leftarrow> bd_type_of b lhs; append_kind b (Some n) ty (FAdd no_fast_math lhs rhs) }"

definition build_fsub ::
    "builder \<Rightarrow> string \<Rightarrow> value_ref \<Rightarrow> value_ref \<Rightarrow>
     (builder \<times> value_ref) rust" where
  "build_fsub b n lhs rhs =
     do { ty \<leftarrow> bd_type_of b lhs; append_kind b (Some n) ty (FSub no_fast_math lhs rhs) }"

definition build_fmul ::
    "builder \<Rightarrow> string \<Rightarrow> value_ref \<Rightarrow> value_ref \<Rightarrow>
     (builder \<times> value_ref) rust" where
  "build_fmul b n lhs rhs =
     do { ty \<leftarrow> bd_type_of b lhs; append_kind b (Some n) ty (FMul no_fast_math lhs rhs) }"

definition build_fdiv ::
    "builder \<Rightarrow> string \<Rightarrow> value_ref \<Rightarrow> value_ref \<Rightarrow>
     (builder \<times> value_ref) rust" where
  "build_fdiv b n lhs rhs =
     do { ty \<leftarrow> bd_type_of b lhs; append_kind b (Some n) ty (FDiv no_fast_math lhs rhs) }"

definition build_fneg ::
    "builder \<Rightarrow> string \<Rightarrow> value_ref \<Rightarrow> (builder \<times> value_ref) rust" where
  "build_fneg b n v =
     do { ty \<leftarrow> bd_type_of b v; append_kind b (Some n) ty (FNeg no_fast_math v) }"

definition build_icmp ::
    "builder \<Rightarrow> string \<Rightarrow> int_predicate \<Rightarrow> value_ref \<Rightarrow> value_ref \<Rightarrow>
     (builder \<times> value_ref) rust" where
  "build_icmp b n pred lhs rhs =
     append_kind b (Some n) (i1_ty (bd_ctx b)) (ICmp pred lhs rhs)"

definition build_fcmp ::
    "builder \<Rightarrow> string \<Rightarrow> float_predicate \<Rightarrow> value_ref \<Rightarrow> value_ref \<Rightarrow>
     (builder \<times> value_ref) rust" where
  "build_fcmp b n pred lhs rhs =
     append_kind b (Some n) (i1_ty (bd_ctx b)) (FCmp no_fast_math pred lhs rhs)"

definition build_alloca ::
    "builder \<Rightarrow> string \<Rightarrow> type_id \<Rightarrow> (builder \<times> value_ref) rust" where
  "build_alloca b n alloc_ty =
     append_kind b (Some n) (ptr_ty (bd_ctx b)) (Alloca alloc_ty None None)"

definition build_alloca_aligned ::
    "builder \<Rightarrow> string \<Rightarrow> type_id \<Rightarrow> nat \<Rightarrow>
     (builder \<times> value_ref) rust" where
  "build_alloca_aligned b n alloc_ty al =
     append_kind b (Some n) (ptr_ty (bd_ctx b)) (Alloca alloc_ty None (Some al))"

definition build_load ::
    "builder \<Rightarrow> string \<Rightarrow> type_id \<Rightarrow> value_ref \<Rightarrow>
     (builder \<times> value_ref) rust" where
  "build_load b n ty ptr =
     append_kind b (Some n) ty (Load ty ptr None False)"

definition build_load_aligned ::
    "builder \<Rightarrow> string \<Rightarrow> type_id \<Rightarrow> value_ref \<Rightarrow> nat \<Rightarrow>
     (builder \<times> value_ref) rust" where
  "build_load_aligned b n ty ptr al =
     append_kind b (Some n) ty (Load ty ptr (Some al) False)"

definition build_store ::
    "builder \<Rightarrow> value_ref \<Rightarrow> value_ref \<Rightarrow> (builder \<times> value_ref) rust" where
  "build_store b v ptr =
     append_kind b None (void_ty (bd_ctx b)) (Store v ptr None False)"

definition build_store_aligned ::
    "builder \<Rightarrow> value_ref \<Rightarrow> value_ref \<Rightarrow> nat \<Rightarrow>
     (builder \<times> value_ref) rust" where
  "build_store_aligned b v ptr al =
     append_kind b None (void_ty (bd_ctx b)) (Store v ptr (Some al) False)"

definition build_gep ::
    "builder \<Rightarrow> string \<Rightarrow> type_id \<Rightarrow> value_ref \<Rightarrow> value_ref list \<Rightarrow>
     (builder \<times> value_ref) rust" where
  "build_gep b n base_ty ptr idxs =
     append_kind b (Some n) (ptr_ty (bd_ctx b)) (GetElementPtr False base_ty ptr idxs)"

definition build_gep_inbounds ::
    "builder \<Rightarrow> string \<Rightarrow> type_id \<Rightarrow> value_ref \<Rightarrow> value_ref list \<Rightarrow>
     (builder \<times> value_ref) rust" where
  "build_gep_inbounds b n base_ty ptr idxs =
     append_kind b (Some n) (ptr_ty (bd_ctx b)) (GetElementPtr True base_ty ptr idxs)"

definition build_trunc ::
    "builder \<Rightarrow> string \<Rightarrow> value_ref \<Rightarrow> type_id \<Rightarrow>
     (builder \<times> value_ref) rust" where
  "build_trunc b n v to =
     append_kind b (Some n) to (Trunc v to)"

definition build_zext ::
    "builder \<Rightarrow> string \<Rightarrow> value_ref \<Rightarrow> type_id \<Rightarrow>
     (builder \<times> value_ref) rust" where
  "build_zext b n v to =
     append_kind b (Some n) to (ZExt v to)"

definition build_sext ::
    "builder \<Rightarrow> string \<Rightarrow> value_ref \<Rightarrow> type_id \<Rightarrow>
     (builder \<times> value_ref) rust" where
  "build_sext b n v to =
     append_kind b (Some n) to (SExt v to)"

definition build_fptrunc ::
    "builder \<Rightarrow> string \<Rightarrow> value_ref \<Rightarrow> type_id \<Rightarrow>
     (builder \<times> value_ref) rust" where
  "build_fptrunc b n v to =
     append_kind b (Some n) to (FPTrunc v to)"

definition build_fpext ::
    "builder \<Rightarrow> string \<Rightarrow> value_ref \<Rightarrow> type_id \<Rightarrow>
     (builder \<times> value_ref) rust" where
  "build_fpext b n v to =
     append_kind b (Some n) to (FPExt v to)"

definition build_fptoui ::
    "builder \<Rightarrow> string \<Rightarrow> value_ref \<Rightarrow> type_id \<Rightarrow>
     (builder \<times> value_ref) rust" where
  "build_fptoui b n v to =
     append_kind b (Some n) to (FPToUI v to)"

definition build_fptosi ::
    "builder \<Rightarrow> string \<Rightarrow> value_ref \<Rightarrow> type_id \<Rightarrow>
     (builder \<times> value_ref) rust" where
  "build_fptosi b n v to =
     append_kind b (Some n) to (FPToSI v to)"

definition build_uitofp ::
    "builder \<Rightarrow> string \<Rightarrow> value_ref \<Rightarrow> type_id \<Rightarrow>
     (builder \<times> value_ref) rust" where
  "build_uitofp b n v to =
     append_kind b (Some n) to (UIToFP v to)"

definition build_sitofp ::
    "builder \<Rightarrow> string \<Rightarrow> value_ref \<Rightarrow> type_id \<Rightarrow>
     (builder \<times> value_ref) rust" where
  "build_sitofp b n v to =
     append_kind b (Some n) to (SIToFP v to)"

definition build_ptrtoint ::
    "builder \<Rightarrow> string \<Rightarrow> value_ref \<Rightarrow> type_id \<Rightarrow>
     (builder \<times> value_ref) rust" where
  "build_ptrtoint b n v to =
     append_kind b (Some n) to (PtrToInt v to)"

definition build_inttoptr ::
    "builder \<Rightarrow> string \<Rightarrow> value_ref \<Rightarrow> type_id \<Rightarrow>
     (builder \<times> value_ref) rust" where
  "build_inttoptr b n v to =
     append_kind b (Some n) to (IntToPtr v to)"

definition build_bitcast ::
    "builder \<Rightarrow> string \<Rightarrow> value_ref \<Rightarrow> type_id \<Rightarrow>
     (builder \<times> value_ref) rust" where
  "build_bitcast b n v to =
     append_kind b (Some n) to (BitCast v to)"

definition build_freeze ::
    "builder \<Rightarrow> string \<Rightarrow> value_ref \<Rightarrow> (builder \<times> value_ref) rust" where
  "build_freeze b n v =
     do { ty \<leftarrow> bd_type_of b v; append_kind b (Some n) ty (Freeze v) }"

definition build_select ::
    "builder \<Rightarrow> string \<Rightarrow> value_ref \<Rightarrow> value_ref \<Rightarrow> value_ref \<Rightarrow>
     (builder \<times> value_ref) rust" where
  "build_select b n cond then_val else_val =
     do { ty \<leftarrow> bd_type_of b then_val; append_kind b (Some n) ty (Select cond then_val else_val) }"

definition build_phi ::
    "builder \<Rightarrow> string \<Rightarrow> type_id \<Rightarrow> (value_ref \<times> block_id) list \<Rightarrow>
     (builder \<times> value_ref) rust" where
  "build_phi b n ty incoming =
     append_kind b (Some n) ty (Phi ty incoming)"

definition build_extractvalue ::
    "builder \<Rightarrow> string \<Rightarrow> value_ref \<Rightarrow> type_id \<Rightarrow> nat list \<Rightarrow>
     (builder \<times> value_ref) rust" where
  "build_extractvalue b n aggregate result_ty idxs =
     append_kind b (Some n) result_ty (ExtractValue aggregate idxs)"

definition build_insertvalue ::
    "builder \<Rightarrow> string \<Rightarrow> value_ref \<Rightarrow> value_ref \<Rightarrow> nat list \<Rightarrow>
     (builder \<times> value_ref) rust" where
  "build_insertvalue b n aggregate v idxs =
     do { ty \<leftarrow> bd_type_of b aggregate; append_kind b (Some n) ty (InsertValue aggregate v idxs) }"

definition build_extractelement ::
    "builder \<Rightarrow> string \<Rightarrow> value_ref \<Rightarrow> value_ref \<Rightarrow> type_id \<Rightarrow>
     (builder \<times> value_ref) rust" where
  "build_extractelement b n vc idx result_ty =
     append_kind b (Some n) result_ty (ExtractElement vc idx)"

definition build_insertelement ::
    "builder \<Rightarrow> string \<Rightarrow> value_ref \<Rightarrow> value_ref \<Rightarrow> value_ref \<Rightarrow>
     (builder \<times> value_ref) rust" where
  "build_insertelement b n vc v idx =
     do { ty \<leftarrow> bd_type_of b vc; append_kind b (Some n) ty (InsertElement vc v idx) }"

definition build_shufflevector ::
    "builder \<Rightarrow> string \<Rightarrow> value_ref \<Rightarrow> value_ref \<Rightarrow> int list \<Rightarrow>
     type_id \<Rightarrow> (builder \<times> value_ref) rust" where
  "build_shufflevector b n v1 v2 msk result_ty =
     append_kind b (Some n) result_ty (ShuffleVector v1 v2 msk)"

definition build_call ::
    "builder \<Rightarrow> string \<Rightarrow> type_id \<Rightarrow> type_id \<Rightarrow> value_ref \<Rightarrow>
     value_ref list \<Rightarrow> (builder \<times> value_ref) rust" where
  "build_call b n ret_ty callee_ty callee vs =
     do { let rname = (if ret_ty = void_ty (bd_ctx b) then None else Some n);
          append_kind b rname ret_ty (Call TailNone callee_ty callee vs) }"

definition build_inline_asm ::
    "builder \<Rightarrow> string \<Rightarrow> type_id \<Rightarrow> string \<Rightarrow> string \<Rightarrow>
     bool \<Rightarrow> bool \<Rightarrow> value_ref list \<Rightarrow> (builder \<times> value_ref) rust" where
  "build_inline_asm b n ret_ty asm_string constraints side_effect align_stack vs =
     do { let rname = (if ret_ty = void_ty (bd_ctx b) then None else Some n);
          append_kind b rname ret_ty (InlineAsm asm_string constraints side_effect align_stack vs) }"

definition build_fence ::
    "builder \<Rightarrow> mem_ordering \<Rightarrow> (builder \<times> value_ref) rust" where
  "build_fence b ord =
     append_kind b None (void_ty (bd_ctx b)) (Fence ord)"

definition build_cmpxchg ::
    "builder \<Rightarrow> string \<Rightarrow> type_id \<Rightarrow> value_ref \<Rightarrow> value_ref \<Rightarrow>
     value_ref \<Rightarrow> mem_ordering \<Rightarrow> mem_ordering \<Rightarrow> bool \<Rightarrow> bool \<Rightarrow>
     (builder \<times> value_ref) rust" where
  "build_cmpxchg b n val_ty ptr cmp new_val success_ord fail_ord weak volatile =
     do { let (c, result_ty) = mk_struct_anon (bd_ctx b) [val_ty, i1_ty (bd_ctx b)] False;
          append_kind (b\<lparr>bd_ctx := c\<rparr>) (Some n) result_ty (CmpXchg ptr cmp new_val success_ord fail_ord weak volatile) }"

definition build_atomicrmw ::
    "builder \<Rightarrow> string \<Rightarrow> rmw_op \<Rightarrow> type_id \<Rightarrow> value_ref \<Rightarrow>
     value_ref \<Rightarrow> mem_ordering \<Rightarrow> bool \<Rightarrow>
     (builder \<times> value_ref) rust" where
  "build_atomicrmw b n rop val_ty ptr v ord volatile =
     append_kind b (Some n) val_ty (AtomicRmw rop ptr v ord volatile)"

definition build_ret_void :: "builder \<Rightarrow> (builder \<times> value_ref) rust" where
  "build_ret_void b =
     append_kind b None (void_ty (bd_ctx b)) (Ret None)"

definition build_ret ::
    "builder \<Rightarrow> value_ref \<Rightarrow> (builder \<times> value_ref) rust" where
  "build_ret b v =
     append_kind b None (void_ty (bd_ctx b)) (Ret (Some v))"

definition build_br ::
    "builder \<Rightarrow> block_id \<Rightarrow> (builder \<times> value_ref) rust" where
  "build_br b dest =
     append_kind b None (void_ty (bd_ctx b)) (Br dest)"

definition build_cond_br ::
    "builder \<Rightarrow> value_ref \<Rightarrow> block_id \<Rightarrow> block_id \<Rightarrow>
     (builder \<times> value_ref) rust" where
  "build_cond_br b cond then_dest else_dest =
     append_kind b None (void_ty (bd_ctx b)) (CondBr cond then_dest else_dest)"

definition build_switch ::
    "builder \<Rightarrow> value_ref \<Rightarrow> block_id \<Rightarrow> (value_ref \<times> block_id) list \<Rightarrow>
     (builder \<times> value_ref) rust" where
  "build_switch b v dflt cases =
     append_kind b None (void_ty (bd_ctx b)) (Switch v dflt cases)"

definition build_unreachable :: "builder \<Rightarrow> (builder \<times> value_ref) rust" where
  "build_unreachable b =
     append_kind b None (void_ty (bd_ctx b)) Unreachable"

definition build_catchpad ::
    "builder \<Rightarrow> string \<Rightarrow> value_ref \<Rightarrow> value_ref list \<Rightarrow>
     (builder \<times> value_ref) rust" where
  "build_catchpad b n catch_switch vs =
     append_kind b (Some n) (ptr_ty (bd_ctx b)) (CatchPad catch_switch vs)"

definition build_cleanuppad ::
    "builder \<Rightarrow> string \<Rightarrow> value_ref option \<Rightarrow> value_ref list \<Rightarrow>
     (builder \<times> value_ref) rust" where
  "build_cleanuppad b n parent vs =
     append_kind b (Some n) (ptr_ty (bd_ctx b)) (CleanupPad parent vs)"

definition build_catchswitch ::
    "builder \<Rightarrow> value_ref option \<Rightarrow> block_id list \<Rightarrow> block_id option \<Rightarrow>
     (builder \<times> value_ref) rust" where
  "build_catchswitch b parent handlers dflt =
     append_kind b None (ptr_ty (bd_ctx b)) (CatchSwitch parent handlers dflt)"

definition build_catchret ::
    "builder \<Rightarrow> value_ref \<Rightarrow> block_id \<Rightarrow> (builder \<times> value_ref) rust" where
  "build_catchret b catch_pad successor =
     append_kind b None (void_ty (bd_ctx b)) (CatchRet catch_pad successor)"

definition build_cleanupret ::
    "builder \<Rightarrow> value_ref \<Rightarrow> block_id option \<Rightarrow>
     (builder \<times> value_ref) rust" where
  "build_cleanupret b cleanup_pad unwind_dest =
     append_kind b None (void_ty (bd_ctx b)) (CleanupRet cleanup_pad unwind_dest)"


end
