(* ===== verification/IR_Typing.thy ===== *)
theory IR_Typing
  imports IR_Context IR_Function
begin

text \<open>
  The typing rules of the LLVM language reference for the instructions a builder makes: \<open>typed G k t\<close>
  says that in the environment \<open>G\<close> the instruction \<open>k\<close> has operands of the right types and a result of
  type \<open>t\<close>. The rules look at the context only through \<open>get_type\<close>, so they keep holding when it grows.
  The token of an exception pad is a pointer, as in the source.
\<close>

section \<open>Types\<close>

fun shape :: "type_data \<Rightarrow> (nat \<times> bool) option" where
  "shape (TyVector _ n s) = Some (n, s)"
| "shape _ = None"

definition scalar_of :: "ir_context \<Rightarrow> type_id \<Rightarrow> type_data option" where
  \<comment> \<open>the type itself, or the elements of a vector\<close>
  "scalar_of ctx t = (case get_type ctx t of Some (TyVector e n s) \<Rightarrow> get_type ctx e | td \<Rightarrow> td)"

definition int_width :: "ir_context \<Rightarrow> type_id \<Rightarrow> nat option" where
  "int_width ctx t = (case scalar_of ctx t of Some (TyInteger w) \<Rightarrow> Some w | _ \<Rightarrow> None)"

primrec fp_bits :: "float_kind \<Rightarrow> nat" where
  "fp_bits Half = 16"
| "fp_bits BFloat = 16"
| "fp_bits Single = 32"
| "fp_bits Double = 64"
| "fp_bits X86Fp80 = 80"
| "fp_bits Fp128 = 128"

definition fp_width :: "ir_context \<Rightarrow> type_id \<Rightarrow> nat option" where
  "fp_width ctx t = (case scalar_of ctx t of Some (TyFloat k) \<Rightarrow> Some (fp_bits k) | _ \<Rightarrow> None)"

definition ptr_like :: "ir_context \<Rightarrow> type_id \<Rightarrow> bool" where
  "ptr_like ctx t \<longleftrightarrow> scalar_of ctx t = Some TyPointer"

definition has_type :: "ir_context \<Rightarrow> type_id \<Rightarrow> type_data \<Rightarrow> bool" where
  "has_type ctx t td \<longleftrightarrow> get_type ctx t = Some td"

definition first_class :: "ir_context \<Rightarrow> type_id \<Rightarrow> bool" where
  "first_class ctx t \<longleftrightarrow>
     (case get_type ctx t of
        None \<Rightarrow> False | Some TyVoid \<Rightarrow> False | Some (TyFunction _) \<Rightarrow> False | Some TyLabel \<Rightarrow> False
      | Some TyMetadata \<Rightarrow> False | Some _ \<Rightarrow> True)"

definition same_shape :: "ir_context \<Rightarrow> type_id \<Rightarrow> type_id \<Rightarrow> bool" where
  "same_shape ctx t u \<longleftrightarrow>
     (case (get_type ctx t, get_type ctx u) of (Some a, Some b) \<Rightarrow> shape a = shape b | _ \<Rightarrow> False)"

definition bit_size :: "ir_context \<Rightarrow> type_id \<Rightarrow> (nat \<times> bool) option" where
  "bit_size ctx t =
     (case (get_type ctx t, case int_width ctx t of Some w \<Rightarrow> Some w | None \<Rightarrow> fp_width ctx t) of
        (Some td, Some w) \<Rightarrow> (case shape td of None \<Rightarrow> Some (w, False) | Some (n, s) \<Rightarrow> Some (n * w, s))
      | _ \<Rightarrow> None)"

fun member_at :: "ir_context \<Rightarrow> type_id \<Rightarrow> nat list \<Rightarrow> type_id option" where
  \<comment> \<open>the type of a member of an aggregate\<close>
  "member_at ctx t [] = Some t"
| "member_at ctx t (i # path) =
     (case get_type ctx t of
        Some (TyStruct st) \<Rightarrow> if i < length (st_fields st) then member_at ctx (st_fields st ! i) path else None
      | Some (TyArray e n) \<Rightarrow> if i < n then member_at ctx e path else None
      | _ \<Rightarrow> None)"

section \<open>Families of instructions\<close>

fun int_binop :: "instr_kind \<Rightarrow> (value_ref \<times> value_ref) option" where
  "int_binop (Add _ l r) = Some (l, r)"
| "int_binop (Sub _ l r) = Some (l, r)"
| "int_binop (Mul _ l r) = Some (l, r)"
| "int_binop (UDiv _ l r) = Some (l, r)"
| "int_binop (SDiv _ l r) = Some (l, r)"
| "int_binop (URem l r) = Some (l, r)"
| "int_binop (SRem l r) = Some (l, r)"
| "int_binop (And l r) = Some (l, r)"
| "int_binop (Or l r) = Some (l, r)"
| "int_binop (Xor l r) = Some (l, r)"
| "int_binop (Shl _ l r) = Some (l, r)"
| "int_binop (LShr _ l r) = Some (l, r)"
| "int_binop (AShr _ l r) = Some (l, r)"
| "int_binop _ = None"

fun fp_binop :: "instr_kind \<Rightarrow> (value_ref \<times> value_ref) option" where
  "fp_binop (FAdd _ l r) = Some (l, r)"
| "fp_binop (FSub _ l r) = Some (l, r)"
| "fp_binop (FMul _ l r) = Some (l, r)"
| "fp_binop (FDiv _ l r) = Some (l, r)"
| "fp_binop (FRem _ l r) = Some (l, r)"
| "fp_binop _ = None"

fun cast_of :: "instr_kind \<Rightarrow> (value_ref \<times> type_id) option" where
  "cast_of (Trunc v t) = Some (v, t)"
| "cast_of (ZExt v t) = Some (v, t)"
| "cast_of (SExt v t) = Some (v, t)"
| "cast_of (FPTrunc v t) = Some (v, t)"
| "cast_of (FPExt v t) = Some (v, t)"
| "cast_of (FPToUI v t) = Some (v, t)"
| "cast_of (FPToSI v t) = Some (v, t)"
| "cast_of (UIToFP v t) = Some (v, t)"
| "cast_of (SIToFP v t) = Some (v, t)"
| "cast_of (PtrToInt v t) = Some (v, t)"
| "cast_of (IntToPtr v t) = Some (v, t)"
| "cast_of (BitCast v t) = Some (v, t)"
| "cast_of _ = None"

definition widths :: "(nat \<Rightarrow> nat \<Rightarrow> bool) \<Rightarrow> nat option \<Rightarrow> nat option \<Rightarrow> bool" where
  "widths P a b \<longleftrightarrow> (case (a, b) of (Some x, Some y) \<Rightarrow> P x y | _ \<Rightarrow> False)"

fun cast_ok :: "ir_context \<Rightarrow> instr_kind \<Rightarrow> type_id \<Rightarrow> type_id \<Rightarrow> bool" where
  "cast_ok ctx (Trunc _ _) t u = (widths (>) (int_width ctx t) (int_width ctx u) \<and> same_shape ctx t u)"
| "cast_ok ctx (ZExt _ _) t u = (widths (<) (int_width ctx t) (int_width ctx u) \<and> same_shape ctx t u)"
| "cast_ok ctx (SExt _ _) t u = (widths (<) (int_width ctx t) (int_width ctx u) \<and> same_shape ctx t u)"
| "cast_ok ctx (FPTrunc _ _) t u = (widths (>) (fp_width ctx t) (fp_width ctx u) \<and> same_shape ctx t u)"
| "cast_ok ctx (FPExt _ _) t u = (widths (<) (fp_width ctx t) (fp_width ctx u) \<and> same_shape ctx t u)"
| "cast_ok ctx (FPToUI _ _) t u = (fp_width ctx t \<noteq> None \<and> int_width ctx u \<noteq> None \<and> same_shape ctx t u)"
| "cast_ok ctx (FPToSI _ _) t u = (fp_width ctx t \<noteq> None \<and> int_width ctx u \<noteq> None \<and> same_shape ctx t u)"
| "cast_ok ctx (UIToFP _ _) t u = (int_width ctx t \<noteq> None \<and> fp_width ctx u \<noteq> None \<and> same_shape ctx t u)"
| "cast_ok ctx (SIToFP _ _) t u = (int_width ctx t \<noteq> None \<and> fp_width ctx u \<noteq> None \<and> same_shape ctx t u)"
| "cast_ok ctx (PtrToInt _ _) t u = (ptr_like ctx t \<and> int_width ctx u \<noteq> None \<and> same_shape ctx t u)"
| "cast_ok ctx (IntToPtr _ _) t u = (int_width ctx t \<noteq> None \<and> ptr_like ctx u \<and> same_shape ctx t u)"
| "cast_ok ctx (BitCast _ _) t u =
     (ptr_like ctx t \<and> ptr_like ctx u \<and> same_shape ctx t u \<or>
      bit_size ctx t \<noteq> None \<and> bit_size ctx t = bit_size ctx u)"
| "cast_ok ctx _ t u = False"

section \<open>The judgement\<close>

record typing_env =
  te_ctx :: ir_context
  te_val :: "value_ref \<Rightarrow> type_id option"
  te_ret :: "type_id option"
  te_blocks :: nat

definition value_is :: "typing_env \<Rightarrow> type_data \<Rightarrow> value_ref \<Rightarrow> bool" where
  "value_is G td v \<longleftrightarrow> (case te_val G v of Some t \<Rightarrow> has_type (te_ctx G) t td | None \<Rightarrow> False)"

definition int_value :: "typing_env \<Rightarrow> value_ref \<Rightarrow> bool" where
  "int_value G v \<longleftrightarrow> (case te_val G v of Some t \<Rightarrow> int_width (te_ctx G) t \<noteq> None | None \<Rightarrow> False)"

definition args_ok :: "typing_env \<Rightarrow> function_type \<Rightarrow> value_ref list \<Rightarrow> bool" where
  \<comment> \<open>the arguments have the types of the parameters; a variadic function takes more\<close>
  "args_ok G ft vs \<longleftrightarrow>
     (if fn_variadic ft then length (fn_params ft) \<le> length vs else length (fn_params ft) = length vs) \<and>
     list_all2 (\<lambda>v t. te_val G v = Some t) (take (length (fn_params ft)) vs) (fn_params ft) \<and>
     (\<forall>v \<in> set vs. te_val G v \<noteq> None)"

definition bool_like :: "ir_context \<Rightarrow> type_id \<Rightarrow> type_id \<Rightarrow> bool" where
  \<comment> \<open>the result of a comparison of values of type \<open>t\<close>: a bit, or a vector of bits\<close>
  "bool_like ctx t u \<longleftrightarrow> int_width ctx u = Some 1 \<and> same_shape ctx t u"

definition within :: "nat \<Rightarrow> block_id option \<Rightarrow> bool" where
  "within n ob = (case ob of None \<Rightarrow> True | Some b \<Rightarrow> b < n)"

inductive typed :: "typing_env \<Rightarrow> instr_kind \<Rightarrow> type_id \<Rightarrow> bool" for G :: typing_env where
  ty_int: "int_binop k = Some (l, r) \<Longrightarrow> te_val G l = Some t \<Longrightarrow> te_val G r = Some t \<Longrightarrow>
     int_width (te_ctx G) t \<noteq> None \<Longrightarrow> typed G k t"
| ty_fp: "fp_binop k = Some (l, r) \<Longrightarrow> te_val G l = Some t \<Longrightarrow> te_val G r = Some t \<Longrightarrow>
     fp_width (te_ctx G) t \<noteq> None \<Longrightarrow> typed G k t"
| ty_fneg: "te_val G v = Some t \<Longrightarrow> fp_width (te_ctx G) t \<noteq> None \<Longrightarrow> typed G (FNeg fl v) t"
| ty_icmp: "te_val G l = Some t \<Longrightarrow> te_val G r = Some t \<Longrightarrow>
     int_width (te_ctx G) t \<noteq> None \<or> ptr_like (te_ctx G) t \<Longrightarrow> bool_like (te_ctx G) t u \<Longrightarrow>
     typed G (ICmp p l r) u"
| ty_fcmp: "te_val G l = Some t \<Longrightarrow> te_val G r = Some t \<Longrightarrow> fp_width (te_ctx G) t \<noteq> None \<Longrightarrow>
     bool_like (te_ctx G) t u \<Longrightarrow> typed G (FCmp fl q l r) u"
| ty_alloca: "first_class (te_ctx G) t \<Longrightarrow> list_all (int_value G) (opt_list cnt) \<Longrightarrow>
     has_type (te_ctx G) u TyPointer \<Longrightarrow> typed G (Alloca t cnt al) u"
| ty_load: "first_class (te_ctx G) t \<Longrightarrow> value_is G TyPointer ptr \<Longrightarrow> typed G (Load t ptr al vol) t"
| ty_store: "te_val G v = Some t \<Longrightarrow> first_class (te_ctx G) t \<Longrightarrow> value_is G TyPointer ptr \<Longrightarrow>
     has_type (te_ctx G) u TyVoid \<Longrightarrow> typed G (Store v ptr al vol) u"
| ty_gep: "first_class (te_ctx G) t \<Longrightarrow> value_is G TyPointer ptr \<Longrightarrow> list_all (int_value G) idxs \<Longrightarrow>
     has_type (te_ctx G) u TyPointer \<Longrightarrow> typed G (GetElementPtr inb t ptr idxs) u"
| ty_cast: "cast_of k = Some (v, u) \<Longrightarrow> te_val G v = Some t \<Longrightarrow> cast_ok (te_ctx G) k t u \<Longrightarrow> typed G k u"
| ty_freeze: "te_val G v = Some t \<Longrightarrow> typed G (Freeze v) t"
| ty_select: "value_is G (TyInteger 1) c \<Longrightarrow> te_val G a = Some t \<Longrightarrow> te_val G b = Some t \<Longrightarrow>
     typed G (Select c a b) t"
| ty_phi: "list_all (\<lambda>(v, b). te_val G v = Some t \<and> b < te_blocks G) inc \<Longrightarrow> typed G (Phi t inc) t"
| ty_extract_value: "te_val G v = Some t \<Longrightarrow> path \<noteq> [] \<Longrightarrow> member_at (te_ctx G) t path = Some u \<Longrightarrow>
     typed G (ExtractValue v path) u"
| ty_insert_value: "te_val G v = Some t \<Longrightarrow> path \<noteq> [] \<Longrightarrow> member_at (te_ctx G) t path = Some u \<Longrightarrow>
     te_val G w = Some u \<Longrightarrow> typed G (InsertValue v w path) t"
| ty_extract_element: "te_val G v = Some t \<Longrightarrow> has_type (te_ctx G) t (TyVector e n s) \<Longrightarrow> int_value G i \<Longrightarrow>
     typed G (ExtractElement v i) e"
| ty_insert_element: "te_val G v = Some t \<Longrightarrow> has_type (te_ctx G) t (TyVector e n s) \<Longrightarrow>
     te_val G w = Some e \<Longrightarrow> int_value G i \<Longrightarrow> typed G (InsertElement v w i) t"
| ty_shuffle: "te_val G v = Some t \<Longrightarrow> te_val G w = Some t \<Longrightarrow> has_type (te_ctx G) t (TyVector e n s) \<Longrightarrow>
     list_all (\<lambda>m. m < 2 * int n) msk \<Longrightarrow> has_type (te_ctx G) u (TyVector e (length msk) s) \<Longrightarrow>
     typed G (ShuffleVector v w msk) u"
| ty_call: "has_type (te_ctx G) ft_id (TyFunction ft) \<Longrightarrow> value_is G TyPointer callee \<Longrightarrow> args_ok G ft vs \<Longrightarrow>
     typed G (Call tk ft_id callee vs) (fn_ret ft)"
| ty_asm: "list_all (\<lambda>v. te_val G v \<noteq> None) vs \<Longrightarrow> get_type (te_ctx G) u \<noteq> None \<Longrightarrow>
     typed G (InlineAsm asm cs se als vs) u"
| ty_fence: "has_type (te_ctx G) u TyVoid \<Longrightarrow> typed G (Fence ord) u"
| ty_cmpxchg: "value_is G TyPointer ptr \<Longrightarrow> te_val G c = Some t \<Longrightarrow> te_val G w = Some t \<Longrightarrow>
     int_width (te_ctx G) t \<noteq> None \<or> ptr_like (te_ctx G) t \<Longrightarrow> has_type (te_ctx G) bt (TyInteger 1) \<Longrightarrow>
     has_type (te_ctx G) u (TyStruct (StructType None [t, bt] False)) \<Longrightarrow>
     typed G (CmpXchg ptr c w so fo weak vol) u"
| ty_atomicrmw: "value_is G TyPointer ptr \<Longrightarrow> te_val G v = Some t \<Longrightarrow>
     int_width (te_ctx G) t \<noteq> None \<or> fp_width (te_ctx G) t \<noteq> None \<Longrightarrow>
     typed G (AtomicRmw rop ptr v ord vol) t"
| ty_ret_void: "has_type (te_ctx G) u TyVoid \<Longrightarrow> te_ret G = Some r \<Longrightarrow> has_type (te_ctx G) r TyVoid \<Longrightarrow>
     typed G (Ret None) u"
| ty_ret: "has_type (te_ctx G) u TyVoid \<Longrightarrow> te_ret G = Some r \<Longrightarrow> te_val G v = Some r \<Longrightarrow>
     typed G (Ret (Some v)) u"
| ty_br: "has_type (te_ctx G) u TyVoid \<Longrightarrow> b < te_blocks G \<Longrightarrow> typed G (Br b) u"
| ty_cond_br: "has_type (te_ctx G) u TyVoid \<Longrightarrow> value_is G (TyInteger 1) c \<Longrightarrow> b < te_blocks G \<Longrightarrow>
     d < te_blocks G \<Longrightarrow> typed G (CondBr c b d) u"
| ty_switch: "has_type (te_ctx G) u TyVoid \<Longrightarrow> te_val G v = Some t \<Longrightarrow> int_width (te_ctx G) t \<noteq> None \<Longrightarrow>
     b < te_blocks G \<Longrightarrow> list_all (\<lambda>(w, d). te_val G w = Some t \<and> d < te_blocks G) cases \<Longrightarrow>
     typed G (Switch v b cases) u"
| ty_unreachable: "has_type (te_ctx G) u TyVoid \<Longrightarrow> typed G Unreachable u"
| ty_catchpad: "has_type (te_ctx G) u TyPointer \<Longrightarrow> value_is G TyPointer v \<Longrightarrow>
     list_all (\<lambda>v. te_val G v \<noteq> None) vs \<Longrightarrow> typed G (CatchPad v vs) u"
| ty_cleanuppad: "has_type (te_ctx G) u TyPointer \<Longrightarrow> list_all (value_is G TyPointer) (opt_list p) \<Longrightarrow>
     list_all (\<lambda>v. te_val G v \<noteq> None) vs \<Longrightarrow> typed G (CleanupPad p vs) u"
| ty_catchswitch: "has_type (te_ctx G) u TyPointer \<Longrightarrow> list_all (value_is G TyPointer) (opt_list p) \<Longrightarrow>
     list_all (\<lambda>b. b < te_blocks G) hs \<Longrightarrow> within (te_blocks G) d \<Longrightarrow> typed G (CatchSwitch p hs d) u"
| ty_catchret: "has_type (te_ctx G) u TyVoid \<Longrightarrow> value_is G TyPointer v \<Longrightarrow> b < te_blocks G \<Longrightarrow>
     typed G (CatchRet v b) u"
| ty_cleanupret: "has_type (te_ctx G) u TyVoid \<Longrightarrow> value_is G TyPointer v \<Longrightarrow> within (te_blocks G) d \<Longrightarrow>
     typed G (CleanupRet v d) u"

section \<open>A larger environment keeps the types\<close>

definition ctx_le :: "ir_context \<Rightarrow> ir_context \<Rightarrow> bool" where
  "ctx_le ctx ctx' \<longleftrightarrow>
     (\<forall>i td. get_type ctx i = Some td \<longrightarrow> get_type ctx' i = Some td) \<and>
     (\<forall>i c. get_const ctx i = Some c \<longrightarrow> get_const ctx' i = Some c) \<and>
     void_ty ctx' = void_ty ctx \<and> i1_ty ctx' = i1_ty ctx \<and> ptr_ty ctx' = ptr_ty ctx"

definition env_le :: "typing_env \<Rightarrow> typing_env \<Rightarrow> bool" where
  "env_le G G' \<longleftrightarrow>
     ctx_le (te_ctx G) (te_ctx G') \<and> (\<forall>v t. te_val G v = Some t \<longrightarrow> te_val G' v = Some t) \<and>
     (\<forall>t. te_ret G = Some t \<longrightarrow> te_ret G' = Some t) \<and> te_blocks G \<le> te_blocks G'"

lemma ctx_le_refl [simp]: "ctx_le ctx ctx"
  by (simp add: ctx_le_def)

lemma ctx_le_trans: "ctx_le a b \<Longrightarrow> ctx_le b c \<Longrightarrow> ctx_le a c"
  by (auto simp: ctx_le_def)

lemma ctx_le_type: "ctx_le ctx ctx' \<Longrightarrow> get_type ctx t = Some td \<Longrightarrow> get_type ctx' t = Some td"
  by (simp add: ctx_le_def)

lemma scalar_of_mono: "ctx_le ctx ctx' \<Longrightarrow> scalar_of ctx t = Some td \<Longrightarrow> scalar_of ctx' t = Some td"
proof -
  assume le: "ctx_le ctx ctx'" and td: "scalar_of ctx t = Some td"
  then obtain d where d: "get_type ctx t = Some d" by (auto simp: scalar_of_def split: option.splits)
  with ctx_le_type [OF le d] td show ?thesis
    by (cases d) (auto simp: scalar_of_def ctx_le_type [OF le])
qed

lemma int_width_mono: "ctx_le ctx ctx' \<Longrightarrow> int_width ctx t = Some w \<Longrightarrow> int_width ctx' t = Some w"
  by (auto simp: int_width_def split: option.splits type_data.splits dest: scalar_of_mono)

lemma fp_width_mono: "ctx_le ctx ctx' \<Longrightarrow> fp_width ctx t = Some w \<Longrightarrow> fp_width ctx' t = Some w"
  by (auto simp: fp_width_def split: option.splits type_data.splits dest: scalar_of_mono)

lemma ptr_like_mono: "ctx_le ctx ctx' \<Longrightarrow> ptr_like ctx t \<Longrightarrow> ptr_like ctx' t"
  by (auto simp: ptr_like_def dest: scalar_of_mono)

lemma has_type_mono: "ctx_le ctx ctx' \<Longrightarrow> has_type ctx t td \<Longrightarrow> has_type ctx' t td"
  by (auto simp: has_type_def dest: ctx_le_type)

lemma first_class_mono: "ctx_le ctx ctx' \<Longrightarrow> first_class ctx t \<Longrightarrow> first_class ctx' t"
  by (cases "get_type ctx t") (auto simp: first_class_def dest: ctx_le_type)

lemma same_shape_mono: "ctx_le ctx ctx' \<Longrightarrow> same_shape ctx t u \<Longrightarrow> same_shape ctx' t u"
proof -
  assume le: "ctx_le ctx ctx'" and sh: "same_shape ctx t u"
  then obtain a b where "get_type ctx t = Some a" "get_type ctx u = Some b"
    by (auto simp: same_shape_def split: option.splits)
  with ctx_le_type [OF le] sh show ?thesis by (simp add: same_shape_def)
qed

lemma member_at_mono: "ctx_le ctx ctx' \<Longrightarrow> member_at ctx t path = Some u \<Longrightarrow> member_at ctx' t path = Some u"
  by (induction ctx t path rule: member_at.induct)
    (auto split: option.splits type_data.splits if_splits dest: ctx_le_type)

lemma bit_size_mono:
  assumes "ctx_le ctx ctx'" "bit_size ctx t = Some s"
  shows "bit_size ctx' t = Some s"
proof -
  obtain td where td: "get_type ctx t = Some td"
    using assms(2) by (auto simp: bit_size_def split: option.splits)
  show ?thesis
  proof (cases "int_width ctx t")
    case (Some w)
    then show ?thesis
      using assms td by (simp add: bit_size_def ctx_le_type int_width_mono split: option.splits)
  next
    case None
    then obtain w where w: "fp_width ctx t = Some w"
      using assms(2) by (auto simp: bit_size_def split: option.splits)
    have "int_width ctx' t = None" if "fp_width ctx' t = Some w"
      using that by (auto simp: fp_width_def int_width_def split: option.splits type_data.splits)
    then show ?thesis
      using assms td w None by (simp add: bit_size_def ctx_le_type fp_width_mono [OF assms(1) w])
  qed
qed

lemma widths_mono: "widths P a b \<Longrightarrow> (\<And>x. a = Some x \<Longrightarrow> a' = Some x) \<Longrightarrow> (\<And>x. b = Some x \<Longrightarrow> b' = Some x) \<Longrightarrow> widths P a' b'"
  by (auto simp: widths_def split: option.splits)

lemmas type_mono =
  int_width_mono fp_width_mono ptr_like_mono has_type_mono first_class_mono same_shape_mono member_at_mono

lemma bitcast_mono:
  "ctx_le ctx ctx' \<Longrightarrow> bit_size ctx t \<noteq> None \<and> bit_size ctx t = bit_size ctx u \<Longrightarrow>
     bit_size ctx' t \<noteq> None \<and> bit_size ctx' t = bit_size ctx' u"
  using bit_size_mono [of ctx ctx' t] bit_size_mono [of ctx ctx' u] by (metis option.exhaust)

lemma cast_ok_mono:
  assumes "ctx_le ctx ctx'" "cast_ok ctx k t u"
  shows "cast_ok ctx' k t u"
proof -
  have w: "int_width ctx s \<noteq> None \<Longrightarrow> int_width ctx' s \<noteq> None" "fp_width ctx s \<noteq> None \<Longrightarrow> fp_width ctx' s \<noteq> None" for s
    using int_width_mono [OF assms(1)] fp_width_mono [OF assms(1)] by blast+
  have p: "widths P (int_width ctx t) (int_width ctx u) \<Longrightarrow> widths P (int_width ctx' t) (int_width ctx' u)"
    "widths P (fp_width ctx t) (fp_width ctx u) \<Longrightarrow> widths P (fp_width ctx' t) (fp_width ctx' u)" for P
    by (erule widths_mono; simp add: int_width_mono [OF assms(1)] fp_width_mono [OF assms(1)])+
  show ?thesis
  proof (cases k)
    case (BitCast v s)
    with assms show ?thesis
      using bitcast_mono [OF assms(1), of t u] ptr_like_mono [OF assms(1)] same_shape_mono [OF assms(1)]
      unfolding BitCast cast_ok.simps by blast
  qed (use assms w p in \<open>auto intro: ptr_like_mono same_shape_mono\<close>)
qed

lemma bool_like_mono: "ctx_le ctx ctx' \<Longrightarrow> bool_like ctx t u \<Longrightarrow> bool_like ctx' t u"
  by (auto simp: bool_like_def intro: type_mono)

lemma env_le_val: "env_le G G' \<Longrightarrow> te_val G v = Some t \<Longrightarrow> te_val G' v = Some t"
  by (simp add: env_le_def)

lemma value_is_mono: "env_le G G' \<Longrightarrow> value_is G td v \<Longrightarrow> value_is G' td v"
  by (auto simp: value_is_def env_le_def split: option.splits intro: has_type_mono)

lemma int_value_mono: "env_le G G' \<Longrightarrow> int_value G v \<Longrightarrow> int_value G' v"
  by (auto simp: int_value_def env_le_def split: option.splits dest: int_width_mono)

lemma args_ok_mono:
  assumes "env_le G G'" "args_ok G ft vs"
  shows "args_ok G' ft vs"
proof -
  have "te_val G' v \<noteq> None" if "te_val G v \<noteq> None" for v using that assms(1) by (auto simp: env_le_def)
  moreover have "list_all2 (\<lambda>v t. te_val G' v = Some t) xs ts" if "list_all2 (\<lambda>v t. te_val G v = Some t) xs ts" for xs ts
    using that by (rule list_all2_mono) (rule env_le_val [OF assms(1)])
  ultimately show ?thesis using assms(2) by (auto simp: args_ok_def)
qed

lemma within_mono: "m \<le> n \<Longrightarrow> within m d \<Longrightarrow> within n d"
  by (auto simp: within_def split: option.splits)

theorem typed_mono:
  assumes le: "env_le G G'" and ty: "typed G k t"
  shows "typed G' k t"
proof -
  have c: "ctx_le (te_ctx G) (te_ctx G')" and n: "te_blocks G \<le> te_blocks G'"
    and r: "\<And>t. te_ret G = Some t \<Longrightarrow> te_ret G' = Some t"
    using le by (auto simp: env_le_def)
  have w: "int_width (te_ctx G) s \<noteq> None \<Longrightarrow> int_width (te_ctx G') s \<noteq> None"
    "fp_width (te_ctx G) s \<noteq> None \<Longrightarrow> fp_width (te_ctx G') s \<noteq> None" for s
    using int_width_mono [OF c] fp_width_mono [OF c] by blast+
  have defd: "te_val G v \<noteq> None \<Longrightarrow> te_val G' v \<noteq> None" "get_type (te_ctx G) s \<noteq> None \<Longrightarrow> get_type (te_ctx G') s \<noteq> None" for v s
    using env_le_val [OF le] ctx_le_type [OF c] by blast+
  have tgt: "b < te_blocks G \<Longrightarrow> b < te_blocks G'" for b using n by simp
  have alls: "list_all (\<lambda>v. te_val G v \<noteq> None) vs \<Longrightarrow> list_all (\<lambda>v. te_val G' v \<noteq> None) vs"
    "list_all (int_value G) vs \<Longrightarrow> list_all (int_value G') vs"
    "list_all (value_is G td) vs \<Longrightarrow> list_all (value_is G' td) vs"
    "list_all (\<lambda>(v, b). te_val G v = Some s \<and> b < te_blocks G) inc \<Longrightarrow>
       list_all (\<lambda>(v, b). te_val G' v = Some s \<and> b < te_blocks G') inc"
    "list_all (\<lambda>b. b < te_blocks G) hs \<Longrightarrow> list_all (\<lambda>b. b < te_blocks G') hs" for vs td s inc hs
    using defd tgt int_value_mono [OF le] value_is_mono [OF le] env_le_val [OF le]
    by (fastforce simp: list_all_iff)+
  note ups = env_le_val [OF le] w tgt alls r value_is_mono [OF le] int_value_mono [OF le] defd
    has_type_mono [OF c] first_class_mono [OF c] ptr_like_mono [OF c] member_at_mono [OF c]
    bool_like_mono [OF c] cast_ok_mono [OF c] args_ok_mono [OF le] within_mono [OF n]
  have alts: "int_width (te_ctx G) s \<noteq> None \<or> ptr_like (te_ctx G) s \<Longrightarrow>
      int_width (te_ctx G') s \<noteq> None \<or> ptr_like (te_ctx G') s"
    "int_width (te_ctx G) s \<noteq> None \<or> fp_width (te_ctx G) s \<noteq> None \<Longrightarrow>
      int_width (te_ctx G') s \<noteq> None \<or> fp_width (te_ctx G') s \<noteq> None" for s
    using w ptr_like_mono [OF c] by blast+
  from ty show ?thesis
    by (induction rule: typed.induct) (rule typed.intros; (assumption | erule ups alts))+
qed

end
