(* ===== verification/IR_Builder_Correct.thy ===== *)
theory IR_Builder_Correct
  imports IR_Builder IR_Typing
begin

text \<open>
  The builder against the typing rules: a client that passes operands of the right types to the operations
  of the builder, in any order, gets a module whose instructions are all well typed and well placed.
\<close>

section \<open>The invariant\<close>

definition func_env :: "ir_context \<Rightarrow> ir_function \<Rightarrow> typing_env" where
  "func_env ctx f =
     \<lparr>te_ctx = ctx, te_val = value_type ctx f,
      te_ret = (case get_type ctx (f_ty f) of Some (TyFunction ft) \<Rightarrow> Some (fn_ret ft) | _ \<Rightarrow> None),
      te_blocks = length (blocks f)\<rparr>"




definition builder_env :: "builder \<Rightarrow> typing_env option" where
  "builder_env b = map_option (func_env (bd_ctx b)) (current b)"



section \<open>Growing environments\<close>







section \<open>Appending an instruction\<close>










lemma builder_env_ctx: "builder_env b = Some G \<Longrightarrow> te_ctx G = bd_ctx b"
  by (auto simp: builder_env_def func_env_def)

section \<open>Clients of the builder\<close>



























section \<open>What the builder guarantees\<close>



















section \<open>Where the types stop\<close>

text \<open>A comparison of vectors gets the type of a bit, where the language asks for a vector of bits.\<close>

lemma build_icmp_vector_ill_typed:
  assumes "wf_context (bd_ctx b)" "builder_env b = Some G" "te_val G l = Some t"
    "get_type (bd_ctx b) t = Some (TyVector e n s)"
  shows "\<not> typed G (ICmp p l r) (i1_ty (bd_ctx b))"
proof
  assume "typed G (ICmp p l r) (i1_ty (bd_ctx b))"
  then have "same_shape (bd_ctx b) t (i1_ty (bd_ctx b))"
    using assms(3) builder_env_ctx [OF assms(2)]
    by (cases rule: typed.cases) (auto simp: bool_like_def)
  then show False
    using assms(1,4) by (simp add: same_shape_def wf_context_def wf_singletons_def)
qed

text \<open>
  The constant -1 of the typed constructor and that of the general one are different constants: the
  first extends the sign to 64 bits.
\<close>

lemma const_i32_sign_extends:
  assumes "wf_context (bd_ctx b)" "length (constants (bd_ctx b)) < 2 ^ 32"
    "builder_const_i32 b (- 1) = (b', Constant i)"
  shows "get_const (bd_ctx b') i = Some (CInt (i32_ty (bd_ctx b)) (- 1))"
proof -
  have "intern_key (bd_ctx b) (KInt (i32_ty (bd_ctx b)) (- 1)) = (bd_ctx b', i)"
    using assms(3) by (auto simp: builder_const_i32_def with_const_def const_makers_intern_key prod_eq_iff)
  from const_pool.intern_fetch_new [OF assms(1) _ assms(2) this] show ?thesis by simp
qed

end
