(* ===== verification/Codegen_Schedule.thy ===== *)
theory Codegen_Schedule
  imports Codegen_MIR
begin

text \<open>
  The list scheduler (\<open>llvm-codegen/src/schedule.rs\<close>): the dependency graph of a block, the critical paths,
  and the greedy choice of the ready instruction with the longest one. The binary heap is the list of its
  entries; popping takes the largest pair in lexicographic order. The latency callback is a parameter.
\<close>

section \<open>Dependencies\<close>

datatype dep_kind = Raw | War | Waw | Mem | Ctrl

record dep_edge =
  de_to :: nat
  de_kind :: dep_kind
  de_latency :: nat

type_synonym reg_key = "64 word"
type_synonym dep_dag = "dep_edge list list"

definition vreg_key :: "vreg \<Rightarrow> reg_key" where
  "vreg_key v = ucast v"

definition preg_key :: "preg \<Rightarrow> reg_key" where
  "preg_key p = push_bit 32 1 OR ucast p"

definition writes :: "minstr \<Rightarrow> reg_key list" where
  "writes mi =
     (case mi_dst mi of Some d \<Rightarrow> [vreg_key d] | None \<Rightarrow> []) @ map preg_key (mi_clobbers mi) @
     (if mi_dst mi = None
      then (case vec_get (mi_operands mi) 0 of Some (MPReg p) \<Rightarrow> [preg_key p] | _ \<Rightarrow> []) else [])"

fun operand_key :: "moperand \<Rightarrow> reg_key list" where
  "operand_key (MVReg v) = [vreg_key v]"
| "operand_key (MPReg p) = [preg_key p]"
| "operand_key _ = []"

definition reads :: "minstr \<Rightarrow> reg_key list" where
  "reads mi = concat (map operand_key (mi_operands mi)) @ map preg_key (mi_phys_uses mi)"

definition is_memory_op :: "mopcode \<Rightarrow> bool" where
  "is_memory_op opc \<longleftrightarrow>
     opc \<in> {0x72, 0x73, 0x89, 0x8A, 0x8B, 0xA0, 0xA1, 0xA2, 0xB6, 0xB7, 0xC6, 0xC7}"

definition is_terminator_op :: "mopcode \<Rightarrow> bool" where
  "is_terminator_op opc \<longleftrightarrow> 0x50 \<le> opc \<and> opc \<le> 0x54"

fun is_block_operand :: "moperand \<Rightarrow> bool" where
  "is_block_operand (MBlock _) = True"
| "is_block_operand _ = False"

definition has_block_operand :: "minstr \<Rightarrow> bool" where
  "has_block_operand mi = list_ex is_block_operand (mi_operands mi)"

definition is_ctrl :: "minstr \<Rightarrow> bool" where
  "is_ctrl mi \<longleftrightarrow> is_terminator_op (mi_opcode mi) \<or> has_block_operand mi"

definition meets :: "'a list \<Rightarrow> 'a list \<Rightarrow> bool" where
  \<comment> \<open>\<open>xs.iter().any(|x| ys.contains(x))\<close>\<close>
  "meets xs ys \<longleftrightarrow> list_ex (\<lambda>x. x \<in> set ys) xs"

definition dep_between :: "(mopcode \<Rightarrow> nat) \<Rightarrow> minstr \<Rightarrow> minstr \<Rightarrow> (dep_kind \<times> nat) option" where
  \<comment> \<open>the edge from an instruction to a later one\<close>
  "dep_between latency_fn a b =
     (if meets (writes a) (reads b) then Some (Raw, latency_fn (mi_opcode a))
      else if meets (writes a) (writes b) then Some (Waw, 1)
      else if meets (reads a) (writes b) then Some (War, 1)
      else if is_memory_op (mi_opcode a) \<and> is_memory_op (mi_opcode b) then Some (Mem, 1)
      else if is_ctrl b then Some (Ctrl, 1)
      else None)"

definition edge_to :: "(mopcode \<Rightarrow> nat) \<Rightarrow> minstr list \<Rightarrow> nat \<Rightarrow> nat \<Rightarrow> dep_edge option" where
  "edge_to latency_fn instrs i j =
     map_option (\<lambda>(k, l). \<lparr>de_to = j, de_kind = k, de_latency = l\<rparr>)
       (dep_between latency_fn (instrs ! i) (instrs ! j))"

definition build_dep_dag :: "minstr list \<Rightarrow> (mopcode \<Rightarrow> nat) \<Rightarrow> dep_dag" where
  "build_dep_dag instrs latency_fn =
     map (\<lambda>i. List.map_filter (edge_to latency_fn instrs i) [i + 1..<length instrs]) [0..<length instrs]"

section \<open>Critical paths\<close>

definition add_u32 :: "nat \<Rightarrow> nat \<Rightarrow> nat rust" where
  "add_u32 a b = (if a + b < 2 ^ 32 then Some (a + b) else None)"

definition cp_edge :: "nat \<Rightarrow> nat list \<Rightarrow> dep_edge \<Rightarrow> nat list rust" where
  "cp_edge i cp e =
     do { c \<leftarrow> vec_get cp (de_to e);
          candidate \<leftarrow> add_u32 (de_latency e) c;
          old \<leftarrow> vec_get cp i;
          if candidate > old then vec_set cp i candidate else Some cp }"

definition compute_critical_paths :: "dep_dag \<Rightarrow> nat list rust" where
  "compute_critical_paths dag =
     try_foldl (\<lambda>cp i. try_foldl (cp_edge i) cp (dag ! i)) (replicate (length dag) 0) (rev [0..<length dag])"

section \<open>List scheduling\<close>

type_synonym heap_key = "nat \<times> nat"

fun heap_less :: "heap_key \<Rightarrow> heap_key \<Rightarrow> bool" where
  "heap_less (a, b) (c, d) \<longleftrightarrow> a < c \<or> a = c \<and> b < d"

primrec heap_max :: "heap_key \<Rightarrow> heap_key list \<Rightarrow> heap_key" where
  "heap_max m [] = m"
| "heap_max m (x # xs) = heap_max (if heap_less m x then x else m) xs"

definition heap_pop :: "heap_key list \<Rightarrow> (heap_key \<times> heap_key list) option" where
  "heap_pop h = (case h of [] \<Rightarrow> None | x # xs \<Rightarrow> let m = heap_max x xs in Some (m, remove1 m h))"

definition count_edge :: "nat list \<Rightarrow> dep_edge \<Rightarrow> nat list rust" where
  \<comment> \<open>\<open>in_deg[e.to] += 1\<close>\<close>
  "count_edge deg e = do { d \<leftarrow> vec_get deg (de_to e); vec_set deg (de_to e) (d + 1) }"

definition in_degrees :: "nat \<Rightarrow> dep_dag \<Rightarrow> nat list rust" where
  "in_degrees n dag = try_foldl (try_foldl count_edge) (replicate n 0) dag"

definition release_edge ::
  "nat \<Rightarrow> nat list \<Rightarrow> heap_key list \<times> nat list \<Rightarrow> dep_edge \<Rightarrow> (heap_key list \<times> nat list) rust" where
  \<comment> \<open>the body of the loop over the edges of a scheduled instruction\<close>
  "release_edge n cp st e =
     (case st of (heap, deg) \<Rightarrow>
        do { d \<leftarrow> vec_get deg (de_to e);
             d \<leftarrow> (if d = 0 then None else Some (d - 1));
             deg \<leftarrow> vec_set deg (de_to e) d;
             c \<leftarrow> vec_get cp (de_to e);
             Some (if d = 0 then (c, n - de_to e) # heap else heap, deg) })"

definition sched_step ::
  "nat \<Rightarrow> dep_dag \<Rightarrow> nat list \<Rightarrow> nat \<Rightarrow> heap_key list \<Rightarrow> nat list \<Rightarrow> (heap_key list \<times> nat list) rust" where
  "sched_step n dag cp i heap deg = do { es \<leftarrow> vec_get dag i; try_foldl (release_edge n cp) (heap, deg) es }"

lemma release_edge_measure:
  "release_edge n cp (h, d) e = Some (h', d') \<Longrightarrow> length h' + sum_list d' \<le> length h + sum_list d"
  by (auto simp: release_edge_def bind_eq_Some_conv rust_simps sum_list_update elem_le_sum_list split: if_splits)
    (use elem_le_sum_list in fastforce)+

lemma release_edges_measure:
  "try_foldl (release_edge n cp) (h, d) es = Some (h', d') \<Longrightarrow> length h' + sum_list d' \<le> length h + sum_list d"
proof (induction es arbitrary: h d)
  case (Cons e es)
  then obtain h1 d1 where "release_edge n cp (h, d) e = Some (h1, d1)"
    "try_foldl (release_edge n cp) (h1, d1) es = Some (h', d')"
    by (auto split: option.splits)
  with Cons.IH release_edge_measure show ?case by fastforce
qed simp

lemma heap_max_in: "heap_max m xs \<in> insert m (set xs)"
  by (induction xs arbitrary: m) (auto split: if_splits)

lemma heap_popD: "heap_pop h = Some (m, h') \<Longrightarrow> m \<in> set h \<and> h' = remove1 m h"
  using heap_max_in [of "hd h" "tl h"] by (cases h) (auto simp: heap_pop_def Let_def)

lemma heap_pop_length: "heap_pop h = Some (m, h') \<Longrightarrow> length h' < length h"
  using heap_popD [of h m h'] length_pos_if_in_set [of m h] by (auto simp: length_remove1)

function sched_loop ::
  "nat \<Rightarrow> dep_dag \<Rightarrow> nat list \<Rightarrow> heap_key list \<Rightarrow> nat list \<Rightarrow> nat list \<Rightarrow> nat list rust" where
  "sched_loop n dag cp heap deg order =
     (case heap_pop heap of
        None \<Rightarrow> Some order
      | Some ((c, tiebreak), heap) \<Rightarrow>
          (case sched_step n dag cp (n - tiebreak) heap deg of
             None \<Rightarrow> None
           | Some (heap, deg) \<Rightarrow> sched_loop n dag cp heap deg (order @ [n - tiebreak])))"
  by pat_completeness auto

termination sched_loop
  by (relation "measure (\<lambda>(n, dag, cp, heap, deg, order). length heap + sum_list deg)")
    (auto simp: sched_step_def bind_eq_Some_conv dest!: heap_pop_length release_edges_measure)

declare sched_loop.simps [simp del]

definition list_schedule :: "minstr list \<Rightarrow> dep_dag \<Rightarrow> nat list rust" where
  \<comment> \<open>the latency callback of the source is not used\<close>
  "list_schedule instrs dag =
     (let n = length instrs in
      if n = 0 then Some []
      else do {
        cp \<leftarrow> compute_critical_paths dag;
        deg \<leftarrow> in_degrees n dag;
        heap \<leftarrow> try_map (\<lambda>i. map_option (\<lambda>c. (c, n - i)) (vec_get cp i)) (filter (\<lambda>i. deg ! i = 0) [0..<n]);
        order \<leftarrow> sched_loop n dag cp heap deg [];
        if length order = n then Some order else None })"

definition apply_schedule :: "machine_block \<Rightarrow> nat list \<Rightarrow> machine_block rust" where
  "apply_schedule b order =
     (if length order = length (mb_instrs b)
      then do { is \<leftarrow> try_map (vec_get (mb_instrs b)) order; Some (b\<lparr>mb_instrs := is\<rparr>) }
      else None)"

definition x86_latency :: "mopcode \<Rightarrow> nat" where
  "x86_latency opc =
     (if opc \<le> 0x06 then 1
      else if opc \<in> {0x10, 0x11, 0x12, 0x13, 0x17, 0x18} then 1
      else if opc \<in> {0x14, 0x15} then 3
      else if opc \<in> {0x16, 0x19} then 20
      else if 0x20 \<le> opc \<and> opc \<le> 0x26 then 1
      else if 0x30 \<le> opc \<and> opc \<le> 0x35 then 1
      else if 0x40 \<le> opc \<and> opc \<le> 0x43 then 1
      else if 0x50 \<le> opc \<and> opc \<le> 0x54 then 1
      else if opc \<in> {0x60, 0x61} then 1
      else if opc \<in> {0x70, 0x71, 0x74} then 1
      else if opc \<in> {0x72, 0x73} then 4
      else if opc \<in> {0x80, 0x81} then 1
      else if opc = 0x82 then 5
      else if opc \<in> {0x83, 0x84, 0x86, 0x87} then 4
      else if opc = 0x85 then 11
      else if 0x88 \<le> opc \<and> opc \<le> 0x8B then 4
      else if 0x90 \<le> opc \<and> opc \<le> 0x96 \<or> opc = 0x9A then 20
      else if 0xA0 \<le> opc \<and> opc \<le> 0xA2 then 4
      else if opc \<in> {0xB0, 0xB1} then 4
      else if opc = 0xB2 then 4
      else if opc = 0xB3 then 13
      else if opc = 0xB4 then 13
      else if opc = 0xB5 then 1
      else if opc \<in> {0xB6, 0xB7} then 4
      else if opc \<in> {0xC0, 0xC1} then 4
      else if opc = 0xC2 then 4
      else if opc = 0xC3 then 11
      else if opc = 0xC4 then 11
      else if opc = 0xC5 then 1
      else if opc \<in> {0xC6, 0xC7} then 4
      else if 0xD0 \<le> opc \<and> opc \<le> 0xD7 then 4
      else 1)"

end
