(* ===== verification/Codegen_Schedule_Correct.thy ===== *)
theory Codegen_Schedule_Correct
  imports Codegen_Schedule "HOL-Library.Multiset"
begin

text \<open>
  The scheduler against its specification: the critical paths are the longest paths, and a schedule is a
  permutation that keeps every dependency. The dependencies are then related to what the instructions touch,
  read off their fields, and the reordered block is shown to do the same on every machine that keeps to it.
\<close>

section \<open>Critical paths\<close>

definition forward_dag :: "nat \<Rightarrow> dep_dag \<Rightarrow> bool" where
  "forward_dag n dag \<longleftrightarrow> length dag = n \<and> (\<forall>i < n. \<forall>e \<in> set (dag ! i). i < de_to e \<and> de_to e < n)"

definition latencies_le :: "nat \<Rightarrow> dep_dag \<Rightarrow> bool" where
  "latencies_le L dag \<longleftrightarrow> (\<forall>es \<in> set dag. \<forall>e \<in> set es. de_latency e \<le> L)"

inductive to_sink :: "dep_dag \<Rightarrow> nat \<Rightarrow> nat \<Rightarrow> bool" for dag where
  \<comment> \<open>the sum of the latencies along a path from an instruction to one without successors\<close>
  sink: "i < length dag \<Longrightarrow> dag ! i = [] \<Longrightarrow> to_sink dag i 0"
| edge: "i < length dag \<Longrightarrow> e \<in> set (dag ! i) \<Longrightarrow> to_sink dag (de_to e) w \<Longrightarrow> to_sink dag i (de_latency e + w)"

definition longest :: "dep_dag \<Rightarrow> nat \<Rightarrow> nat \<Rightarrow> bool" where
  "longest dag i w \<longleftrightarrow> to_sink dag i w \<and> (\<forall>w'. to_sink dag i w' \<longrightarrow> w' \<le> w)"

lemma cp_edges:
  assumes "i < length cp" "\<forall>e \<in> set es. de_to e < length cp \<and> de_to e \<noteq> i \<and> de_latency e + cp ! de_to e < 2 ^ 32"
  shows "try_foldl (cp_edge i) cp es =
     Some (cp[i := foldl (\<lambda>m e. max m (de_latency e + cp ! de_to e)) (cp ! i) es])"
  using assms
proof (induction es arbitrary: cp)
  case (Cons e es)
  let ?c = "de_latency e + cp ! de_to e"
  let ?cp = "cp[i := max (cp ! i) ?c]"
  have "cp_edge i cp e = Some ?cp"
    using Cons.prems by (auto simp: cp_edge_def add_u32_def max_def)
  moreover have "foldl (\<lambda>m e. max m (de_latency e + ?cp ! de_to e)) x es =
      foldl (\<lambda>m e. max m (de_latency e + cp ! de_to e)) x es" for x
    by (rule foldl_cong) (use Cons.prems in auto)
  moreover have "try_foldl (cp_edge i) ?cp es =
      Some (?cp[i := foldl (\<lambda>m e. max m (de_latency e + ?cp ! de_to e)) (?cp ! i) es])"
    using Cons.prems by (intro Cons.IH) auto
  ultimately show ?case using Cons.prems by simp
qed simp

lemma foldl_max: "foldl (\<lambda>m e. max m (g e)) (m::nat) es = Max (insert m (g ` set es))"
proof (induction es arbitrary: m)
  case (Cons e es)
  then show ?case by (cases "es = []") (simp_all add: max.assoc)
qed simp

definition paths_from :: "nat \<Rightarrow> nat \<Rightarrow> dep_dag \<Rightarrow> nat \<Rightarrow> nat list \<Rightarrow> bool" where
  \<comment> \<open>the entries from \<open>k\<close> on are final, the others untouched\<close>
  "paths_from n L dag k cp \<longleftrightarrow>
     length cp = n \<and> (\<forall>i < n. k \<le> i \<longrightarrow> longest dag i (cp ! i) \<and> cp ! i \<le> L * (n - 1 - i)) \<and> (\<forall>i < k. cp ! i = 0)"

lemma paths_step:
  assumes dag: "forward_dag n dag" and lat: "latencies_le L dag" and fits: "L * n < 2 ^ 32"
    and k: "k < n" and inv: "paths_from n L dag (Suc k) cp"
  shows "\<exists>cp'. try_foldl (cp_edge k) cp (dag ! k) = Some cp' \<and> paths_from n L dag k cp'"
proof -
  let ?g = "\<lambda>e. de_latency e + cp ! de_to e"
  let ?m = "Max (insert 0 (?g ` set (dag ! k)))"
  have len: "length cp = n" "length dag = n" and zero: "cp ! k = 0"
    and fin: "\<And>i. i < n \<Longrightarrow> k < i \<Longrightarrow> longest dag i (cp ! i) \<and> cp ! i \<le> L * (n - 1 - i)"
    using inv dag by (auto simp: paths_from_def forward_dag_def)
  have es: "k < de_to e" "de_to e < n" "de_latency e \<le> L" if "e \<in> set (dag ! k)" for e
    using that dag lat k by (auto simp: forward_dag_def latencies_le_def)
  have g: "?g e \<le> L * (n - 1 - k)" if "e \<in> set (dag ! k)" for e
  proof -
    have "?g e \<le> L + L * (n - 1 - de_to e)" using es [OF that] fin [of "de_to e"] by (simp add: add_mono)
    also have "\<dots> = L * Suc (n - 1 - de_to e)" by simp
    also have "\<dots> \<le> L * (n - 1 - k)" using es [OF that] by (intro mult_le_mono2) simp
    finally show ?thesis .
  qed
  have le: "L * (n - 1 - k) < 2 ^ 32" using fits by (rule le_less_trans [rotated]) simp
  have run: "try_foldl (cp_edge k) cp (dag ! k) = Some (cp[k := ?m])"
    using cp_edges [of k cp "dag ! k"] es g le len k zero by (force simp: foldl_max)
  have "longest dag k ?m"
    unfolding longest_def
  proof (intro conjI allI impI)
    show "to_sink dag k ?m"
    proof (cases "dag ! k = []")
      case True
      then show ?thesis using sink [of k dag] k len by simp
    next
      case False
      then obtain e0 where e0: "e0 \<in> set (dag ! k)" by fastforce
      have "?m \<in> insert 0 (?g ` set (dag ! k))" by (rule Max_in) simp_all
      moreover have "?g e0 \<le> ?m" using e0 by simp
      ultimately obtain e where "e \<in> set (dag ! k)" "?m = ?g e" using e0 by fastforce
      then show ?thesis using edge [of k dag e "cp ! de_to e"] es fin k len by (simp add: longest_def)
    qed
  next
    fix w assume "to_sink dag k w"
    then show "w \<le> ?m"
    proof cases
      case (edge e w')
      then have "w' \<le> cp ! de_to e" using es fin by (simp add: longest_def)
      then have "w \<le> ?g e" using edge by simp
      also have "?g e \<le> ?m" using edge by (intro Max_ge) simp_all
      finally show ?thesis .
    qed simp
  qed
  moreover have "?m \<le> L * (n - 1 - k)" using g by (subst Max_le_iff) auto
  ultimately have "paths_from n L dag k (cp[k := ?m])"
    using inv fin k len by (auto simp: paths_from_def nth_list_update less_Suc_eq_le le_less)
  with run show ?thesis by blast
qed

text \<open>C13: On every dependency graph whose edges go forward and whose latencies fit in 32 bits along any path,
  the critical-path computation returns, for each instruction, the largest sum of latencies along a path to
  an instruction without successors.\<close>

theorem critical_paths_longest:
  assumes "forward_dag n dag" "latencies_le L dag" "L * n < 2 ^ 32"
  shows "\<exists>cp. compute_critical_paths dag = Some cp \<and> length cp = n \<and> (\<forall>i < n. longest dag i (cp ! i))"
proof -
  have "\<exists>cp'. try_foldl (\<lambda>cp i. try_foldl (cp_edge i) cp (dag ! i)) cp (rev [0..<k]) = Some cp' \<and> paths_from n L dag 0 cp'"
    if "k \<le> n" "paths_from n L dag k cp" for k cp
    using that
  proof (induction k arbitrary: cp)
    case (Suc k)
    with paths_step [OF assms, of k cp] obtain cp' where
      "try_foldl (cp_edge k) cp (dag ! k) = Some cp'" "paths_from n L dag k cp'" by auto
    with Suc.IH [of cp'] Suc.prems show ?case by simp
  qed simp
  from this [of n "replicate n 0"] obtain cp where
    "try_foldl (\<lambda>cp i. try_foldl (cp_edge i) cp (dag ! i)) (replicate n 0) (rev [0..<n]) = Some cp"
    "paths_from n L dag 0 cp"
    by (auto simp: paths_from_def)
  moreover have "length dag = n" using assms(1) by (simp add: forward_dag_def)
  ultimately show ?thesis by (auto simp: compute_critical_paths_def paths_from_def)
qed

theorem critical_paths_longest_witness:
  "\<exists>cp. compute_critical_paths [[], [\<lparr>de_to = 2, de_kind = Raw, de_latency = 4\<rparr>], []] = Some cp \<and>
     longest [[], [\<lparr>de_to = 2, de_kind = Raw, de_latency = 4\<rparr>], []] 1 (cp ! 1)"
  using critical_paths_longest [of 3 "[[], [\<lparr>de_to = 2, de_kind = Raw, de_latency = 4\<rparr>], []]" 4]
  by (fastforce simp: forward_dag_def latencies_le_def nth_Cons' less_Suc_eq numeral_3_eq_3)

section \<open>The schedule\<close>

lemma build_dep_dag_edges:
  assumes "i < length instrs"
  shows "e \<in> set (build_dep_dag instrs lat ! i) \<longleftrightarrow>
     (\<exists>j. i < j \<and> j < length instrs \<and> edge_to lat instrs i j = Some e)"
  using assms by (force simp: build_dep_dag_def List.map_filter_def Suc_le_eq image_iff)

lemma edge_to_SomeD: "edge_to lat instrs i j = Some e \<Longrightarrow>
     de_to e = j \<and> dep_between lat (instrs ! i) (instrs ! j) = Some (de_kind e, de_latency e)"
  by (auto simp: edge_to_def)

lemma build_dep_dag_forward: "forward_dag (length instrs) (build_dep_dag instrs lat)"
  unfolding forward_dag_def
  by (auto simp: build_dep_dag_edges dest: edge_to_SomeD) (simp add: build_dep_dag_def)

lemma build_dep_dag_latencies:
  assumes "\<And>opc. lat opc \<le> L" "1 \<le> L"
  shows "latencies_le L (build_dep_dag instrs lat)"
proof -
  have "l \<le> L" if "dep_between lat a b = Some (k, l)" for a b k l
    using that assms by (auto simp: dep_between_def split: if_splits)
  moreover have "length (build_dep_dag instrs lat) = length instrs" by (simp add: build_dep_dag_def)
  ultimately show ?thesis
    by (fastforce simp: latencies_le_def in_set_conv_nth [of _ "build_dep_dag instrs lat"] build_dep_dag_edges
        dest!: edge_to_SomeD)
qed

definition edges_into :: "dep_dag \<Rightarrow> nat \<Rightarrow> nat \<Rightarrow> nat" where
  \<comment> \<open>the number of edges from one instruction to another\<close>
  "edges_into dag i j = count_list (map de_to (dag ! i)) j"

definition pending :: "nat \<Rightarrow> dep_dag \<Rightarrow> nat set \<Rightarrow> nat \<Rightarrow> nat" where
  \<comment> \<open>the edges into \<open>j\<close> from instructions that are not scheduled yet\<close>
  "pending n dag S j = (\<Sum>i \<in> {..<n} - S. edges_into dag i j)"

lemma pending_insert:
  "i < n \<Longrightarrow> i \<notin> S \<Longrightarrow> pending n dag S j = edges_into dag i j + pending n dag (insert i S) j"
  by (simp add: pending_def sum.remove [of "{..<n} - S" i]) (metis Diff_insert)

lemma pending_zero: "pending n dag S j = 0 \<longleftrightarrow> (\<forall>i < n. i \<notin> S \<longrightarrow> j \<notin> de_to ` set (dag ! i))"
  by (auto simp: pending_def edges_into_def count_list_0_iff)

definition ready :: "nat \<Rightarrow> heap_key list \<Rightarrow> nat list" where
  "ready n heap = map (\<lambda>(c, t). n - t) heap"

definition sched_inv :: "nat \<Rightarrow> dep_dag \<Rightarrow> nat list \<Rightarrow> dep_edge list \<Rightarrow> heap_key list \<Rightarrow> nat list \<Rightarrow> nat list \<Rightarrow> bool" where
  \<comment> \<open>between two edges of an instruction just scheduled; \<open>es\<close> are those still to be released\<close>
  "sched_inv n dag cp es heap deg order \<longleftrightarrow>
     length cp = n \<and> length deg = n \<and> distinct (order @ ready n heap) \<and> set (order @ ready n heap) \<subseteq> {..<n} \<and>
     (\<forall>(c, t) \<in> set heap. 0 < t \<and> t \<le> n) \<and>
     (\<forall>j < n. deg ! j = pending n dag (set order) j + count_list (map de_to es) j) \<and>
     (\<forall>j < n. j \<in> set (order @ ready n heap) \<longleftrightarrow> deg ! j = 0) \<and>
     (\<forall>p < length order. \<forall>i < n. order ! p \<in> de_to ` set (dag ! i) \<longrightarrow> i \<in> set (take p order))"


lemma sched_inv_release:
  assumes inv: "sched_inv n dag cp (e # es) heap deg order" and t: "de_to e < n"
  shows "\<exists>h' d'. release_edge n cp (heap, deg) e = Some (h', d') \<and> sched_inv n dag cp es h' d' order"
proof -
  let ?t = "de_to e"
  have len: "length cp = n" "length deg = n" and deg: "deg ! ?t = pending n dag (set order) ?t + count_list (map de_to es) ?t + 1"
    and fresh: "?t \<notin> set (order @ ready n heap)"
    using inv t by (auto simp: sched_inv_def)
  let ?d = "deg[?t := deg ! ?t - 1]"
  let ?h = "if deg ! ?t - 1 = 0 then (cp ! ?t, n - ?t) # heap else heap"
  have "release_edge n cp (heap, deg) e = Some (?h, ?d)"
    using len t deg by (simp add: release_edge_def)
  moreover have rd: "ready n ?h = (if deg ! ?t - 1 = 0 then ?t # ready n heap else ready n heap)"
    using t by (simp add: ready_def)
  have "sched_inv n dag cp es ?h ?d order"
    unfolding sched_inv_def
  proof (intro conjI)
    show "length cp = n" "length ?d = n" using len by simp_all
    show "distinct (order @ ready n ?h)" "set (order @ ready n ?h) \<subseteq> {..<n}"
      using inv fresh t unfolding rd by (auto simp: sched_inv_def)
    show "\<forall>(c, t) \<in> set ?h. 0 < t \<and> t \<le> n" using inv t by (auto simp: sched_inv_def)
    show "\<forall>j < n. ?d ! j = pending n dag (set order) j + count_list (map de_to es) j"
    proof (intro allI impI)
      fix j assume "j < n"
      with inv deg len show "?d ! j = pending n dag (set order) j + count_list (map de_to es) j"
        by (cases "j = ?t") (auto simp: sched_inv_def)
    qed
    have "\<forall>j < n. j \<in> set (order @ ready n heap) \<longleftrightarrow> deg ! j = 0" using inv by (simp add: sched_inv_def)
    then show "\<forall>j < n. j \<in> set (order @ ready n ?h) \<longleftrightarrow> ?d ! j = 0"
      using fresh deg len t unfolding rd by (auto simp: nth_list_update)
    show "\<forall>p < length order. \<forall>i < n. order ! p \<in> de_to ` set (dag ! i) \<longrightarrow> i \<in> set (take p order)"
      using inv by (simp add: sched_inv_def)
  qed
  ultimately show ?thesis by blast
qed

lemma sched_inv_releases:
  assumes "sched_inv n dag cp es heap deg order" "\<forall>e \<in> set es. de_to e < n"
  shows "\<exists>h' d'. try_foldl (release_edge n cp) (heap, deg) es = Some (h', d') \<and> sched_inv n dag cp [] h' d' order"
  using assms
proof (induction es arbitrary: heap deg)
  case (Cons e es)
  with sched_inv_release [of n dag cp e es heap deg order] obtain h' d' where
    "release_edge n cp (heap, deg) e = Some (h', d')" "sched_inv n dag cp es h' d' order" by auto
  with Cons.IH [of h' d'] Cons.prems show ?case by simp
qed auto


lemma mset_ready_pop:
  assumes "heap_pop heap = Some ((c, t), heap')"
  shows "mset (ready n heap) = add_mset (n - t) (mset (ready n heap'))"
proof -
  have "(c, t) \<in> set heap" "heap' = remove1 (c, t) heap" using heap_popD [OF assms] by auto
  then have "mset heap = add_mset (c, t) (mset heap')" by simp
  then have "image_mset (\<lambda>(c, t). n - t) (mset heap) = image_mset (\<lambda>(c, t). n - t) (add_mset (c, t) (mset heap'))" by simp
  then show ?thesis by (simp add: ready_def)
qed

lemma sched_inv_pop:
  assumes inv: "sched_inv n dag cp [] heap deg order" and pop: "heap_pop heap = Some ((c, t), heap')"
  shows "sched_inv n dag cp (dag ! (n - t)) heap' deg (order @ [n - t])" and "n - t < n"
proof -
  let ?i = "n - t"
  have ms: "mset ((order @ [?i]) @ ready n heap') = mset (order @ ready n heap)"
    using mset_ready_pop [OF pop] by simp
  have in_heap: "(c, t) \<in> set heap" and sub: "set heap' \<subseteq> set heap"
    using heap_popD [OF pop] by (auto simp: set_remove1_subset)
  then show i: "?i < n" using inv by (force simp: sched_inv_def)
  have rdy: "?i \<in> set (ready n heap)" using in_heap by (force simp: ready_def)
  have dist: "distinct (order @ ready n heap)" using inv by (simp add: sched_inv_def)
  then have new: "?i \<notin> set order" using rdy by auto
  have "deg ! ?i = 0" using inv rdy i by (auto simp: sched_inv_def)
  then have preds: "i' \<in> set order" if "i' < n" "?i \<in> de_to ` set (dag ! i')" for i'
    using inv i that by (auto simp: sched_inv_def pending_zero)
  show "sched_inv n dag cp (dag ! ?i) heap' deg (order @ [?i])"
    unfolding sched_inv_def
  proof (intro conjI)
    show "length cp = n" "length deg = n" using inv by (simp_all add: sched_inv_def)
    show "distinct ((order @ [?i]) @ ready n heap')" using dist ms mset_eq_imp_distinct_iff by blast
    have st: "set ((order @ [?i]) @ ready n heap') = set (order @ ready n heap)" using ms by (rule mset_eq_setD)
    then show "set ((order @ [?i]) @ ready n heap') \<subseteq> {..<n}" using inv by (simp add: sched_inv_def)
    show "\<forall>j < n. j \<in> set ((order @ [?i]) @ ready n heap') \<longleftrightarrow> deg ! j = 0"
      unfolding st using inv by (simp add: sched_inv_def)
    show "\<forall>(c, t) \<in> set heap'. 0 < t \<and> t \<le> n" using inv sub by (auto simp: sched_inv_def)
    show "\<forall>j < n. deg ! j = pending n dag (set (order @ [?i])) j + count_list (map de_to (dag ! ?i)) j"
      using inv pending_insert [OF i new, of dag] by (simp add: sched_inv_def edges_into_def)
    show "\<forall>p < length (order @ [?i]). \<forall>i' < n. (order @ [?i]) ! p \<in> de_to ` set (dag ! i') \<longrightarrow>
        i' \<in> set (take p (order @ [?i]))"
      using inv preds by (auto simp: sched_inv_def less_Suc_eq nth_append)
  qed
qed

lemma sched_loop_inv:
  assumes "sched_inv n dag cp [] heap deg order" "forward_dag n dag"
  shows "\<exists>order' deg'. sched_loop n dag cp heap deg order = Some order' \<and> sched_inv n dag cp [] [] deg' order'"
  using assms
proof (induction n dag cp heap deg order rule: sched_loop.induct)
  case (1 n dag cp heap deg order)
  show ?case
  proof (cases "heap_pop heap")
    case None
    then have "heap = []" by (cases heap) (auto simp: heap_pop_def Let_def)
    with 1 None show ?thesis by (subst sched_loop.simps) auto
  next
    case (Some x)
    then obtain c t heap' where pop: "heap_pop heap = Some ((c, t), heap')" by (cases x) auto
    let ?i = "n - t"
    have i: "?i < n" using sched_inv_pop [OF 1(2) pop] by simp
    have "\<forall>e \<in> set (dag ! ?i). de_to e < n" "length dag = n" using 1(3) i by (auto simp: forward_dag_def)
    with sched_inv_releases [OF sched_inv_pop(1) [OF 1(2) pop]] i obtain h d where
      st: "sched_step n dag cp ?i heap' deg = Some (h, d)" and inv: "sched_inv n dag cp [] h d (order @ [?i])"
      by (auto simp: sched_step_def)
    from 1(1) [OF pop _ _ st _ inv 1(3)] st pop show ?thesis by (subst sched_loop.simps) simp
  qed
qed

lemma sched_inv_complete:
  assumes "sched_inv n dag cp [] [] deg order" "forward_dag n dag"
  shows "set order = {..<n}" "distinct order"
proof -
  have "j \<in> set order" if "j < n" for j
    using that
  proof (induction j rule: less_induct)
    case (less j)
    have "pending n dag (set order) j = 0"
      unfolding pending_zero using less assms(2) by (fastforce simp: forward_dag_def)
    then show ?case using assms(1) less.prems by (simp add: sched_inv_def ready_def)
  qed
  with assms(1) show "set order = {..<n}" "distinct order" by (auto simp: sched_inv_def ready_def)
qed


lemma count_edges:
  assumes "\<forall>e \<in> set es. de_to e < length deg"
  shows "\<exists>deg'. try_foldl count_edge deg es = Some deg' \<and> length deg' = length deg \<and>
     (\<forall>j < length deg. deg' ! j = deg ! j + count_list (map de_to es) j)"
  using assms
proof (induction es arbitrary: deg)
  case (Cons e es)
  let ?deg = "deg[de_to e := deg ! de_to e + 1]"
  have "count_edge deg e = Some ?deg" using Cons.prems by (simp add: count_edge_def)
  with Cons.IH [of ?deg] Cons.prems show ?case by (auto simp: nth_list_update)
qed simp

lemma in_degrees_pending:
  assumes "forward_dag n dag"
  shows "\<exists>deg. in_degrees n dag = Some deg \<and> length deg = n \<and> (\<forall>j < n. deg ! j = pending n dag {} j)"
proof -
  have all: "\<exists>deg'. try_foldl (try_foldl count_edge) deg dag = Some deg' \<and> length deg' = length deg \<and>
      (\<forall>j < length deg. deg' ! j = deg ! j + (\<Sum>es \<leftarrow> dag. count_list (map de_to es) j))"
    if "\<forall>es \<in> set dag. \<forall>e \<in> set es. de_to e < length deg" for deg dag
    using that
  proof (induction dag arbitrary: deg)
    case (Cons es dag)
    with count_edges [of es deg] obtain deg1 where deg1: "try_foldl count_edge deg es = Some deg1"
      "length deg1 = length deg" "\<forall>j < length deg. deg1 ! j = deg ! j + count_list (map de_to es) j" by auto
    with Cons.IH [of deg1] Cons.prems show ?case by (auto simp: add.assoc)
  qed simp
  have "\<forall>es \<in> set dag. \<forall>e \<in> set es. de_to e < length (replicate n (0::nat))"
    using assms unfolding forward_dag_def by (metis in_set_conv_nth length_replicate)
  from all [OF this] obtain deg where "in_degrees n dag = Some deg" "length deg = n"
    "\<And>j. j < n \<Longrightarrow> deg ! j = (\<Sum>es \<leftarrow> dag. count_list (map de_to es) j)"
    by (auto simp: in_degrees_def)
  moreover have "(\<Sum>es \<leftarrow> dag. count_list (map de_to es) j) = pending n dag {} j" for j
    using assms by (simp add: sum_list_sum_nth pending_def edges_into_def forward_dag_def atLeast0LessThan)
  ultimately show ?thesis by simp
qed

definition before :: "nat list \<Rightarrow> nat \<Rightarrow> nat \<Rightarrow> bool" where
  "before order i j \<longleftrightarrow> (\<exists>p q. p < q \<and> q < length order \<and> order ! p = i \<and> order ! q = j)"

definition keeps_deps :: "(mopcode \<Rightarrow> nat) \<Rightarrow> minstr list \<Rightarrow> nat list \<Rightarrow> bool" where
  "keeps_deps lat instrs order \<longleftrightarrow>
     (\<forall>j < length instrs. \<forall>i < j. dep_between lat (instrs ! i) (instrs ! j) \<noteq> None \<longrightarrow> before order i j)"

lemma list_schedule_order:
  assumes dag: "forward_dag n dag" and lat: "latencies_le L dag" and fits: "L * n < 2 ^ 32" and n: "length instrs = n"
  shows "\<exists>order. list_schedule instrs dag = Some order \<and> set order = {..<n} \<and> distinct order \<and>
     (\<forall>p < length order. \<forall>i < n. order ! p \<in> de_to ` set (dag ! i) \<longrightarrow> i \<in> set (take p order))"
proof (cases "n = 0")
  case True
  with n show ?thesis by (simp add: list_schedule_def)
next
  case False
  obtain cp where cp: "compute_critical_paths dag = Some cp" "length cp = n"
    using critical_paths_longest [OF dag lat fits] by auto
  obtain deg where deg: "in_degrees n dag = Some deg" "length deg = n" "\<forall>j < n. deg ! j = pending n dag {} j"
    using in_degrees_pending [OF dag] by auto
  let ?ready = "filter (\<lambda>i. deg ! i = 0) [0..<n]" and ?key = "\<lambda>i. (cp ! i, n - i)"
  have heap: "try_map (\<lambda>i. map_option (\<lambda>c. (c, n - i)) (vec_get cp i)) ?ready = Some (map ?key ?ready)"
    by (rule try_map_Some) (simp add: cp)
  have rd: "ready n (map ?key ?ready) = ?ready" by (auto simp: ready_def intro!: map_idI)
  have "sched_inv n dag cp [] (map ?key ?ready) deg []"
    unfolding sched_inv_def rd using cp deg by auto
  from sched_loop_inv [OF this dag] obtain order deg' where
    run: "sched_loop n dag cp (map ?key ?ready) deg [] = Some order" and inv: "sched_inv n dag cp [] [] deg' order"
    by blast
  note complete = sched_inv_complete [OF inv dag]
  then have "length order = n" using distinct_card [of order] by simp
  with run heap cp deg False n have "list_schedule instrs dag = Some order" by (simp add: list_schedule_def)
  with complete inv show ?thesis by (auto simp: sched_inv_def)
qed

theorem list_schedule_correct:
  assumes "\<And>opc. lat opc \<le> L" "1 \<le> L" "L * length instrs < 2 ^ 32"
  shows "\<exists>order. list_schedule instrs (build_dep_dag instrs lat) = Some order \<and>
     mset order = mset [0..<length instrs] \<and> keeps_deps lat instrs order"
proof -
  let ?n = "length instrs" and ?dag = "build_dep_dag instrs lat"
  obtain order where o: "list_schedule instrs ?dag = Some order" "set order = {..<?n}" "distinct order"
    and r: "\<And>p i. p < length order \<Longrightarrow> i < ?n \<Longrightarrow> order ! p \<in> de_to ` set (?dag ! i) \<Longrightarrow> i \<in> set (take p order)"
    using list_schedule_order [OF build_dep_dag_forward build_dep_dag_latencies [of lat L instrs] assms(3) refl] assms
    by blast
  have "before order i j" if j: "j < ?n" and i: "i < j" and d: "dep_between lat (instrs ! i) (instrs ! j) \<noteq> None" for i j
  proof -
    obtain e where "edge_to lat instrs i j = Some e" using d by (auto simp: edge_to_def)
    then have "j \<in> de_to ` set (?dag ! i)" using i j edge_to_SomeD build_dep_dag_edges [of i instrs e lat] by fastforce
    moreover obtain q where "q < length order" "order ! q = j" using o(2) j by (metis in_set_conv_nth lessThan_iff)
    ultimately have "i \<in> set (take q order)" using r [of q i] i j by simp
    then obtain p where "p < q" "p < length order" "order ! p = i" by (auto simp: in_set_conv_nth)
    with \<open>q < length order\<close> \<open>order ! q = j\<close> show ?thesis by (auto simp: before_def)
  qed
  moreover have "mset order = mset [0..<?n]" 
    using o set_eq_iff_mset_eq_distinct [of order "[0..<?n]"] by (simp add: atLeast0LessThan)
  ultimately show ?thesis using o(1) by (auto simp: keeps_deps_def)
qed

section \<open>What a reordered block computes\<close>

lemma commute_past:
  assumes "\<And>a s. a \<in> set xs \<Longrightarrow> f (f s a) x = f (f s x) a"
  shows "f (foldl f s xs) x = foldl f (f s x) xs"
  using assms by (induction xs arbitrary: s) auto

lemma foldl_respects:
  assumes "distinct xs" "\<And>i j s. i \<in> set xs \<Longrightarrow> j \<in> set xs \<Longrightarrow> i < j \<Longrightarrow> \<not> dep i j \<Longrightarrow> f (f s i) j = f (f s j) (i::nat)"
    and "\<And>i j. i \<in> set xs \<Longrightarrow> j \<in> set xs \<Longrightarrow> i < j \<Longrightarrow> dep i j \<Longrightarrow> before xs i j"
  shows "foldl f s xs = foldl f s (sorted_list_of_set (set xs))"
  using assms
proof (induction xs arbitrary: s)
  case (Cons x xs)
  let ?ys = "sorted_list_of_set (set xs)"
  have keep: "before xs i j" if "i \<in> set xs" "before (x # xs) i j" for i j
  proof -
    from that(2) obtain p q where pq: "p < q" "q < length (x # xs)" "(x # xs) ! p = i" "(x # xs) ! q = j"
      by (auto simp: before_def)
    with that(1) Cons.prems(1) obtain p' where "p = Suc p'" by (cases p) auto
    moreover from pq(1) obtain q' where "q = Suc q'" by (cases q) auto
    ultimately show ?thesis using pq unfolding before_def by (intro exI [of _ p'] exI [of _ q']) simp
  qed
  have first: "\<not> before (x # xs) i x" for i
  proof
    assume "before (x # xs) i x"
    then obtain p q where "p < q" "q < length (x # xs)" "(x # xs) ! q = x" by (auto simp: before_def)
    then have "x \<in> set xs" by (cases q) (auto simp: in_set_conv_nth)
    with Cons.prems(1) show False by simp
  qed
  define A where "A = takeWhile (\<lambda>y. y < x) ?ys"
  define B where "B = dropWhile (\<lambda>y. y < x) ?ys"
  have AB: "?ys = A @ B" by (simp add: A_def B_def)
  have A: "\<forall>a \<in> set A. a < x" by (auto simp: A_def dest: set_takeWhileD)
  have sorted: "sorted ?ys" "set ?ys = set xs" "distinct ?ys" by simp_all
  have B: "\<forall>b \<in> set B. x < b"
  proof
    fix b assume b: "b \<in> set B"
    then have "B \<noteq> []" by auto
    then have "\<not> hd B < x" using hd_dropWhile [of "\<lambda>y. y < x" ?ys] by (auto simp: B_def)
    moreover have "hd B \<le> b" using sorted b AB by (cases B) (auto simp: sorted_append)
    moreover have "b \<noteq> x" using b sorted AB Cons.prems(1) by auto
    ultimately show "x < b" by simp
  qed
  have "sorted_list_of_set (set (x # xs)) = A @ x # B"
  proof (rule sorted_distinct_set_unique)
    show "sorted (A @ x # B)" using sorted A B unfolding AB by (fastforce simp: sorted_append)
    show "distinct (A @ x # B)" using sorted A B unfolding AB by auto
    have "set (sorted_list_of_set (set (x # xs))) = set (x # xs)" by (rule set_sorted_list_of_set) simp
    also have "\<dots> = set (A @ x # B)" using sorted(2) unfolding AB by auto
    finally show "set (sorted_list_of_set (set (x # xs))) = set (A @ x # B)" .
  qed (rule sorted_sorted_list_of_set distinct_sorted_list_of_set)+
  moreover have "f (foldl f s A) x = foldl f (f s x) A"
  proof (rule commute_past)
    fix a s assume a: "a \<in> set A"
    then have "a \<in> set xs" using sorted AB by auto
    moreover have "\<not> dep a x" using first Cons.prems(3) [of a x] A a calculation by auto
    ultimately show "f (f s a) x = f (f s x) a" using Cons.prems(2) [of a x] A a by simp
  qed
  moreover have "foldl f (f s x) xs = foldl f (f s x) ?ys"
    using Cons.prems keep by (intro Cons.IH) auto
  ultimately show ?case using AB by simp
qed simp



text \<open>
  What an instruction may touch, read off its fields: the registers among its operands and implicit uses, and
  its destination, its clobbers and, without a destination, a leading physical register (the move into a
  physical register). \<open>VR\<close> and \<open>PR\<close> are the two kinds of register; the keys of the scheduler play no part.
\<close>

datatype mreg = VR vreg | PR preg

definition mi_uses :: "minstr \<Rightarrow> mreg set" where
  "mi_uses mi = VR ` {v. MVReg v \<in> set (mi_operands mi)} \<union> PR ` {p. MPReg p \<in> set (mi_operands mi)} \<union>
     PR ` set (mi_phys_uses mi)"

definition mi_defs :: "minstr \<Rightarrow> mreg set" where
  "mi_defs mi = VR ` {d. mi_dst mi = Some d} \<union> PR ` set (mi_clobbers mi) \<union>
     PR ` {p. mi_dst mi = None \<and> (\<exists>ops. mi_operands mi = MPReg p # ops)}"

text \<open>
  A machine is any step function on states that give a value to every register and to every other place
  \<open>'l\<close> of the machine (memory, flags, the outside world), as long as an instruction changes only what it
  defines and the places \<open>xw\<close> gives it, and computes that from what it uses, what it defines (a two-address
  opcode reads its destination) and the places \<open>xr\<close> gives it.
\<close>

definition machine_local ::
  "(minstr \<Rightarrow> 'l set) \<Rightarrow> (minstr \<Rightarrow> 'l set) \<Rightarrow> ((mreg + 'l \<Rightarrow> 'v) \<Rightarrow> minstr \<Rightarrow> (mreg + 'l \<Rightarrow> 'v)) \<Rightarrow> bool" where
  "machine_local xr xw step \<longleftrightarrow>
     (\<forall>mi s p. p \<notin> mi_defs mi <+> xw mi \<longrightarrow> step s mi p = s p) \<and>
     (\<forall>mi s t. (\<forall>p \<in> (mi_uses mi \<union> mi_defs mi) <+> (xr mi \<union> xw mi). s p = t p) \<longrightarrow>
        (\<forall>p \<in> mi_defs mi <+> xw mi. step s mi p = step t mi p))"

text \<open>The opcodes that the x86 backend documents as memory accesses, and the control instructions.\<close>

definition memory_opcodes :: "mopcode set" where
  "memory_opcodes = {0x72, 0x73, 0x89, 0x8A, 0x8B, 0xA0, 0xA1, 0xA2, 0xB6, 0xB7, 0xC6, 0xC7}"

definition control_instr :: "minstr \<Rightarrow> bool" where
  "control_instr mi \<longleftrightarrow>
     mi_opcode mi \<in> {0x50, 0x51, 0x52, 0x53, 0x54} \<or> (\<exists>t. MBlock t \<in> set (mi_operands mi))"

definition others_guarded :: "(minstr \<Rightarrow> 'l set) \<Rightarrow> (minstr \<Rightarrow> 'l set) \<Rightarrow> minstr list \<Rightarrow> bool" where
  \<comment> \<open>a conflict outside the registers is one between two memory opcodes, or with a later control instruction\<close>
  "others_guarded xr xw is \<longleftrightarrow>
     (\<forall>j < length is. \<forall>i < j.
        xw (is ! i) \<inter> (xr (is ! j) \<union> xw (is ! j)) \<noteq> {} \<or> xr (is ! i) \<inter> xw (is ! j) \<noteq> {} \<longrightarrow>
        mi_opcode (is ! i) \<in> memory_opcodes \<and> mi_opcode (is ! j) \<in> memory_opcodes \<or> control_instr (is ! j))"

lemma local_commute:
  assumes m: "machine_local xr xw step"
    and regs: "mi_defs a \<inter> (mi_uses b \<union> mi_defs b) = {}" "mi_uses a \<inter> mi_defs b = {}"
    and others: "xw a \<inter> (xr b \<union> xw b) = {}" "xr a \<inter> xw b = {}"
  shows "step (step s a) b = step (step s b) a"
proof
  fix p
  have other: "p \<notin> mi_defs mi <+> xw mi \<Longrightarrow> step s mi p = s p" for mi s p
    using m by (auto simp: machine_local_def)
  have cong: "\<forall>p \<in> (mi_uses mi \<union> mi_defs mi) <+> (xr mi \<union> xw mi). s p = t p \<Longrightarrow>
      p \<in> mi_defs mi <+> xw mi \<Longrightarrow> step s mi p = step t mi p" for mi s t p
    using m by (auto simp: machine_local_def)
  have b: "step (step s a) b p = step s b p" if "p \<in> mi_defs b <+> xw b"
    by (rule cong [OF _ that]) (use regs others in \<open>auto intro!: other\<close>)
  have a: "step (step s b) a p = step s a p" if "p \<in> mi_defs a <+> xw a"
    by (rule cong [OF _ that]) (use regs others in \<open>auto intro!: other\<close>)
  have "p \<notin> mi_defs b <+> xw b" if "p \<in> mi_defs a <+> xw a" using that regs others by auto
  then show "step (step s a) b p = step (step s b) a p"
    by (cases "p \<in> mi_defs a <+> xw a"; cases "p \<in> mi_defs b <+> xw b") (simp_all add: a b other)
qed

text \<open>The keys of the scheduler tell all registers apart.\<close>

fun mreg_key :: "mreg \<Rightarrow> reg_key" where
  "mreg_key (VR v) = vreg_key v"
| "mreg_key (PR p) = preg_key p"

lemma mreg_key_inj: "mreg_key r = mreg_key r' \<longleftrightarrow> r = r'"
proof -
  have bit: "Bit_Operations.bit (vreg_key v) 32 = False" "Bit_Operations.bit (preg_key p) 32 = True" for v p
    by (auto simp: vreg_key_def preg_key_def bit_simps dest: bit_imp_le_length)
  have "vreg_key v = vreg_key w \<longleftrightarrow> v = w" for v w
  proof
    assume "vreg_key v = vreg_key w"
    moreover have "uint (vreg_key u) = uint u" for u by (simp add: vreg_key_def uint_up_ucast is_up)
    ultimately show "v = w" by (metis word_uint_eq_iff)
  qed simp
  moreover have "preg_key p = preg_key q \<longleftrightarrow> p = q" for p q
  proof
    assume "preg_key p = preg_key q"
    have "Bit_Operations.bit (preg_key r) n \<longleftrightarrow> Bit_Operations.bit r n" if "n < 8" for r n
      using that by (simp add: preg_key_def bit_or_iff bit_push_bit_iff bit_ucast_iff del: push_bit_of_1)
    with \<open>preg_key p = preg_key q\<close> show "p = q" by (intro bit_word_eqI) (simp, metis)
  qed simp
  moreover have "vreg_key v \<noteq> preg_key p" for v p using bit by metis
  ultimately show ?thesis by (cases r; cases r') (auto dest: sym)
qed

lemma keys_of_fields:
  "set (writes mi) = mreg_key ` mi_defs mi" "set (reads mi) = mreg_key ` mi_uses mi"
proof -
  have comp: "mreg_key ` PR ` A = preg_key ` A" for A by (simp add: image_image)
  show "set (writes mi) = mreg_key ` mi_defs mi"
    unfolding mi_defs_def image_Un comp
    by (cases "mi_operands mi"; cases "mi_dst mi")
      (auto simp: writes_def rust_simps split: moperand.splits)
  have "set (operand_key x) = mreg_key ` (VR ` {v. MVReg v = x} \<union> PR ` {p. MPReg p = x})" for x
    by (cases x) auto
  then show "set (reads mi) = mreg_key ` mi_uses mi"
    by (fastforce simp: reads_def mi_uses_def)
qed

lemma meets_keys: "set xs = mreg_key ` A \<Longrightarrow> set ys = mreg_key ` B \<Longrightarrow> meets xs ys \<longleftrightarrow> A \<inter> B \<noteq> {}"
  by (auto simp: meets_def list_ex_iff mreg_key_inj)

lemma is_ctrl_control_instr: "is_ctrl mi \<longleftrightarrow> control_instr mi"
proof -
  have "is_block_operand x \<longleftrightarrow> (\<exists>t. x = MBlock t)" for x by (cases x) auto
  then have "has_block_operand mi \<longleftrightarrow> (\<exists>t. MBlock t \<in> set (mi_operands mi))"
    by (auto simp: has_block_operand_def list_ex_iff)
  moreover have "is_terminator_op opc \<longleftrightarrow> opc \<in> {0x50, 0x51, 0x52, 0x53, 0x54}" for opc
  proof
    assume "is_terminator_op opc"
    then have "80 \<le> uint opc" "uint opc \<le> 84" by (auto simp: is_terminator_op_def word_le_def)
    then have "uint opc \<in> {80, 81, 82, 83, 84}" by auto
    then show "opc \<in> {0x50, 0x51, 0x52, 0x53, 0x54}" by (auto simp: word_uint_eq_iff)
  qed (auto simp: is_terminator_op_def)
  ultimately show ?thesis by (simp add: is_ctrl_def control_instr_def)
qed

lemma dep_between_None:
  "dep_between lat a b = None \<longleftrightarrow>
     mi_defs a \<inter> (mi_uses b \<union> mi_defs b) = {} \<and> mi_uses a \<inter> mi_defs b = {} \<and>
     \<not> (mi_opcode a \<in> memory_opcodes \<and> mi_opcode b \<in> memory_opcodes) \<and> \<not> control_instr b"
  by (simp add: dep_between_def meets_keys [OF keys_of_fields(1) keys_of_fields(2)]
      meets_keys [OF keys_of_fields(1) keys_of_fields(1)] meets_keys [OF keys_of_fields(2) keys_of_fields(1)]
      is_memory_op_def memory_opcodes_def is_ctrl_control_instr Int_Un_distrib)

definition schedule_block :: "(mopcode \<Rightarrow> nat) \<Rightarrow> machine_block \<Rightarrow> machine_block rust" where
  \<comment> \<open>the three steps in the order the module documents\<close>
  "schedule_block lat b =
     do { order \<leftarrow> list_schedule (mb_instrs b) (build_dep_dag (mb_instrs b) lat); apply_schedule b order }"

text \<open>C12: Scheduling a block never panics as long as its latencies fit in 32 bits (each at most \<open>L\<close>, and
  \<open>L\<close> times the length below \<open>2 ^ 32\<close>). The reordered block is a permutation of it in which every control
  instruction still comes after all the instructions that preceded it. It takes every machine from every
  state to the same state, provided that what instructions share outside their registers (memory, flags)
  is shared by the listed memory opcodes only, or with a later control instruction.\<close>

theorem schedule_block_correct:
  assumes "\<And>opc. lat opc \<le> L" "1 \<le> L" "L * length (mb_instrs b) < 2 ^ 32"
    and "machine_local xr xw step" "others_guarded xr xw (mb_instrs b)"
  shows "\<exists>order b'. list_schedule (mb_instrs b) (build_dep_dag (mb_instrs b) lat) = Some order \<and>
     apply_schedule b order = Some b' \<and> mb_label b' = mb_label b \<and>
     mb_instrs b' = map ((!) (mb_instrs b)) order \<and> mset order = mset [0..<length (mb_instrs b)] \<and>
     (\<forall>j < length (mb_instrs b). \<forall>i < j. control_instr (mb_instrs b ! j) \<longrightarrow> before order i j) \<and>
     foldl step s (mb_instrs b') = foldl step s (mb_instrs b)"
proof -
  let ?is = "mb_instrs b"
  obtain order where o: "list_schedule ?is (build_dep_dag ?is lat) = Some order" "mset order = mset [0..<length ?is]"
    "keeps_deps lat ?is order"
    using list_schedule_correct [of lat L ?is] assms(1-3) by blast
  have st: "set order = {..<length ?is}" using mset_eq_setD [OF o(2)] by (simp add: atLeast0LessThan)
  have dist: "distinct order" using mset_eq_imp_distinct_iff [OF o(2)] by simp
  have len: "length order = length ?is" using mset_eq_length [OF o(2)] by simp
  have get: "try_map (vec_get ?is) order = Some (map ((!) ?is) order)" by (rule try_map_Some) (use st in auto)
  let ?f = "\<lambda>s i. step s (?is ! i)" and ?dep = "\<lambda>i j. dep_between lat (?is ! i) (?is ! j) \<noteq> None"
  have kept: "before order i j" if "i < j" "j < length ?is" "?dep i j" for i j
    using that o(3) by (simp add: keeps_deps_def)
  have "foldl ?f s order = foldl ?f s (sorted_list_of_set (set order))"
  proof (rule foldl_respects [OF dist, where dep = ?dep])
    fix i j s assume "i \<in> set order" "j \<in> set order" "i < j" and none: "\<not> ?dep i j"
    then have "i < j" "j < length ?is" using st by auto
    then show "?f (?f s i) j = ?f (?f s j) i"
      using none assms(4,5) by (intro local_commute [OF assms(4)]) (auto simp: dep_between_None others_guarded_def)
  qed (use kept st in auto)
  also have "sorted_list_of_set (set order) = [0..<length ?is]" by (simp add: st lessThan_atLeast0)
  finally have "foldl step s (map ((!) ?is) order) = foldl step s (map ((!) ?is) [0..<length ?is])"
    by (simp add: foldl_map)
  moreover have "?dep i j" if "control_instr (?is ! j)" for i j using that by (auto simp: dep_between_None)
  ultimately show ?thesis using o(1,2) len get kept by (auto simp: apply_schedule_def map_nth)
qed

definition ex_block :: "minstr list \<Rightarrow> machine_block" where
  "ex_block is = \<lparr>mb_label = ''bb'', mb_instrs = is\<rparr>"

definition ex_load :: minstr where
  \<comment> \<open>\<open>mov v2, [slot 0]\<close>\<close>
  "ex_load = with_imm (with_dst (minstr_new 0x72) 2) 0"

definition ex_use :: minstr where
  "ex_use = with_vreg (with_dst (minstr_new 0x10) 3) 2"

definition ex_mul :: minstr where
  "ex_mul = with_vreg (with_vreg (with_dst (minstr_new 0x14) 4) 1) 1"

definition ex_call :: minstr where
  \<comment> \<open>an indirect call\<close>
  "ex_call = with_vreg (minstr_new 0x53) 1"

definition ex_cmp :: minstr where
  "ex_cmp = with_vreg (with_vreg (minstr_new 0x40) 1) 1"

definition ex_setcc :: minstr where
  "ex_setcc = with_imm (with_dst (minstr_new 0x43) 2) 0"

lemma x86_latency_le: "x86_latency opc \<le> 20"
  by (simp add: x86_latency_def)

definition ex_store :: minstr where
  \<comment> \<open>\<open>mov [slot 0], v1\<close>\<close>
  "ex_store = with_vreg (with_imm (minstr_new 0x73) 0) 1"

definition ex_jump :: minstr where
  "ex_jump = with_block (minstr_new 0x50) 0"

definition ex_reads :: "minstr \<Rightarrow> unit set" where
  "ex_reads mi = (if mi_opcode mi = 0x72 then {()} else {})"

definition ex_writes :: "minstr \<Rightarrow> unit set" where
  "ex_writes mi = (if mi_opcode mi = 0x73 then {()} else {})"

definition ex_value :: "(mreg + unit \<Rightarrow> nat) \<Rightarrow> minstr \<Rightarrow> nat" where
  \<comment> \<open>a machine whose one memory cell is read by \<open>0x72\<close> and written by \<open>0x73\<close>\<close>
  "ex_value s mi = (case mi_dst mi of Some d \<Rightarrow> 2 * s (Inl (VR d)) | None \<Rightarrow> 3) +
     (if mi_opcode mi = 0x72 then s (Inr ()) else 5) +
     (case mi_operands mi of MVReg v # _ \<Rightarrow> s (Inl (VR v)) | _ # MVReg v # _ \<Rightarrow> s (Inl (VR v)) | _ \<Rightarrow> 0)"

definition ex_step :: "(mreg + unit \<Rightarrow> nat) \<Rightarrow> minstr \<Rightarrow> (mreg + unit \<Rightarrow> nat)" where
  "ex_step s mi = (\<lambda>p. if p \<in> mi_defs mi <+> ex_writes mi then ex_value s mi else s p)"

lemma ex_step_local: "machine_local ex_reads ex_writes ex_step"
proof -
  have "ex_value s mi = ex_value t mi"
    if "\<forall>p \<in> (mi_uses mi \<union> mi_defs mi) <+> (ex_reads mi \<union> ex_writes mi). s p = t p" for s t mi
  proof -
    have "s (Inl r) = t (Inl r)" if "r \<in> mi_uses mi \<union> mi_defs mi" for r
      using \<open>\<forall>p \<in> _. _\<close> that by blast
    moreover have "mi_opcode mi = 0x72 \<Longrightarrow> s (Inr ()) = t (Inr ())"
      using \<open>\<forall>p \<in> _. _\<close> by (auto simp: ex_reads_def)
    ultimately show ?thesis
      unfolding ex_value_def mi_uses_def mi_defs_def
      by (intro arg_cong2 [of _ _ _ _ "(+)"]) (auto split: option.splits list.splits moperand.splits)
  qed
  then show ?thesis unfolding machine_local_def ex_step_def by auto
qed

theorem schedule_block_correct_witness:
  "\<exists>order b'. list_schedule [ex_mul, ex_store, ex_load, ex_use, ex_jump]
       (build_dep_dag [ex_mul, ex_store, ex_load, ex_use, ex_jump] x86_latency) = Some order \<and>
     apply_schedule (ex_block [ex_mul, ex_store, ex_load, ex_use, ex_jump]) order = Some b' \<and>
     mset order = {#0, 1, 2, 3, 4#} \<and> before order 3 4 \<and>
     foldl ex_step (\<lambda>_. 7) (mb_instrs b') = foldl ex_step (\<lambda>_. 7) [ex_mul, ex_store, ex_load, ex_use, ex_jump]"
proof -
  define xs where "xs = [ex_mul, ex_store, ex_load, ex_use, ex_jump]"
  have "others_guarded ex_reads ex_writes xs"
    by (simp add: xs_def others_guarded_def less_Suc_eq ex_reads_def ex_writes_def memory_opcodes_def ex_mul_def ex_store_def
        ex_load_def ex_use_def ex_jump_def with_vreg_def with_imm_def with_dst_def with_block_def minstr_new_def
        all_conj_distrib numeral_eq_Suc)
  moreover have "control_instr (xs ! 4)"
    by (simp add: xs_def control_instr_def ex_jump_def with_block_def minstr_new_def)
  moreover have "[0..<5] = [0, 1, 2, 3, 4 :: nat]" by (simp add: upt_rec)
  moreover have b: "mb_instrs (ex_block xs) = xs" "length xs = 5" by (simp_all add: xs_def ex_block_def)
  ultimately obtain order b' where o:
    "list_schedule xs (build_dep_dag xs x86_latency) = Some order" "apply_schedule (ex_block xs) order = Some b'"
    "mset order = mset [0..<5]" "\<forall>j < 5. \<forall>i < j. control_instr (xs ! j) \<longrightarrow> before order i j"
    "foldl ex_step (\<lambda>_. 7) (mb_instrs b') = foldl ex_step (\<lambda>_. 7) xs"
    using schedule_block_correct [where lat = x86_latency and b = "ex_block xs" and s = "\<lambda>_. 7",
        OF x86_latency_le _ _ ex_step_local, unfolded b] by auto
  have "before order 3 4" using o(4) \<open>control_instr (xs ! 4)\<close> by simp
  with o(1,2,3,5) \<open>[0..<5] = _\<close> show ?thesis unfolding xs_def by auto
qed

text \<open>
  The schedule moves a load before a call, which is not a memory operation of \<open>is_memory_op\<close> and orders
  nothing after it, and the reader of the flags before the comparison that sets them.
\<close>

lemma ex_deps:
  "dep_between x86_latency ex_call ex_load = None" "dep_between x86_latency ex_call ex_use = None"
  "dep_between x86_latency ex_load ex_use = Some (Raw, 4)"
  "dep_between x86_latency ex_cmp ex_setcc = None" "dep_between x86_latency ex_cmp ex_use = None"
  "dep_between x86_latency ex_setcc ex_use = Some (Raw, 1)"
  by (simp_all add: dep_between_def reads_def writes_def meets_def is_memory_op_def is_ctrl_def is_terminator_op_def
      has_block_operand_def vreg_key_def x86_latency_def ex_call_def ex_load_def ex_use_def ex_cmp_def ex_setcc_def
      with_vreg_def with_imm_def with_dst_def minstr_new_def)

lemma schedule_swaps_first_two:
  assumes "dep_between lat a b = None" "dep_between lat a c = None" "dep_between lat b c = Some (k, l)"
    "0 < l" "l < 2 ^ 32"
  shows "schedule_block lat (ex_block [a, b, c]) = Some (ex_block [b, a, c])"
proof -
  have dag: "build_dep_dag [a, b, c] lat = [[], [\<lparr>de_to = 2, de_kind = k, de_latency = l\<rparr>], []]"
    using assms(1-3) by (simp add: build_dep_dag_def edge_to_def upt_rec List.map_filter_def)
  have cp: "compute_critical_paths [[], [\<lparr>de_to = 2, de_kind = k, de_latency = l\<rparr>], []] = Some [0, l, 0]"
    using assms(4,5) by (simp add: compute_critical_paths_def cp_edge_def add_u32_def upt_rec numeral_2_eq_2)
  have deg: "in_degrees 3 [[], [\<lparr>de_to = 2, de_kind = k, de_latency = l\<rparr>], []] = Some [0, 0, 1]"
    by (simp add: in_degrees_def count_edge_def numeral_3_eq_3 numeral_2_eq_2)
  have loop: "sched_loop 3 [[], [\<lparr>de_to = 2, de_kind = k, de_latency = l\<rparr>], []] [0, l, 0] [(0, 3), (l, 2)] [0, 0, 1] [] =
      Some [1, 0, 2]"
    using assms(4)
    by (simp add: sched_loop.simps heap_pop_def sched_step_def release_edge_def numeral_3_eq_3 numeral_2_eq_2)
  have "list_schedule [a, b, c] (build_dep_dag [a, b, c] lat) = Some [1, 0, 2]"
    using cp deg loop by (simp add: list_schedule_def dag upt_rec numeral_3_eq_3 numeral_2_eq_2)
  then show ?thesis by (simp add: schedule_block_def apply_schedule_def ex_block_def)
qed

lemma schedule_load_over_call:
  "schedule_block x86_latency (ex_block [ex_call, ex_load, ex_use]) = Some (ex_block [ex_load, ex_call, ex_use])"
  by (rule schedule_swaps_first_two [OF ex_deps(1-3)]) simp_all

lemma schedule_setcc_over_cmp:
  "schedule_block x86_latency (ex_block [ex_cmp, ex_setcc, ex_use]) = Some (ex_block [ex_setcc, ex_cmp, ex_use])"
  by (rule schedule_swaps_first_two [OF ex_deps(4-6)]) simp_all

end
