(* ===== verification/Analysis_Loops.thy ===== *)
theory Analysis_Loops
  imports Analysis_Dom
begin

text \<open>
  Natural loops (\<open>llvm-analysis/src/loops.rs\<close>): the search for back edges over the dominator tree, the body
  of each loop, the nesting and the queries. Sets of visited blocks are lists without order; the query
  \<open>depth\<close> follows the parents and is a partial function.
\<close>

section \<open>State\<close>

record nat_loop =
  loop_header :: block_id
  loop_body :: "block_id list"
  loop_parent :: "nat option"

record loop_info =
  li_loops :: "nat_loop list"
  li_block_loop :: "block_id \<rightharpoonup> nat"

section \<open>Back edges\<close>

definition classify_edge ::
  "dom_tree \<Rightarrow> block_id \<Rightarrow> (block_id \<times> block_id) list \<times> block_id list \<Rightarrow> block_id \<Rightarrow>
     ((block_id \<times> block_id) list \<times> block_id list) rust" where
  \<comment> \<open>the top of the stack is the head of the list\<close>
  "classify_edge dt b st succ =
     (case st of (back_edges, stack) \<Rightarrow>
        do { d \<leftarrow> dominates dt succ b;
             Some (if d then (back_edges @ [(b, succ)], stack) else (back_edges, succ # stack)) })"

function back_edges_from ::
  "cfg \<Rightarrow> dom_tree \<Rightarrow> block_id list \<Rightarrow> block_id list \<Rightarrow> (block_id \<times> block_id) list \<Rightarrow> (block_id \<times> block_id) list rust" where
  "back_edges_from c dt [] visited back_edges = Some back_edges"
| "back_edges_from c dt (b # stack) visited back_edges =
     (if b \<in> set visited then back_edges_from c dt stack visited back_edges
      else (case cfg_successors c b of
              None \<Rightarrow> None
            | Some ss \<Rightarrow>
                (case try_foldl (classify_edge dt b) (back_edges, stack) ss of
                   None \<Rightarrow> None
                 | Some (back_edges, stack) \<Rightarrow> back_edges_from c dt stack (b # visited) back_edges)))"
  by pat_completeness auto

termination back_edges_from
proof (relation "measures [\<lambda>(c, dt, stack, visited, es). card ({..<length (cfg_succs c)} - set visited),
     \<lambda>(c, dt, stack, visited, es). length stack]", goal_cases)
  case (3 c dt b stack visited back_edges ss a es stk)
  then have "b \<in> {..<length (cfg_succs c)} - set visited" by (auto simp: cfg_successors_def rust_simps)
  then have "card ({..<length (cfg_succs c)} - set (b # visited)) < card ({..<length (cfg_succs c)} - set visited)"
    by (intro psubset_card_mono) auto
  then show ?case by simp
qed simp_all

definition find_back_edges :: "cfg \<Rightarrow> dom_tree \<Rightarrow> (block_id \<times> block_id) list rust" where
  "find_back_edges c dt = back_edges_from c dt [cfg_entry c] [] []"

section \<open>Bodies\<close>

definition push_pred :: "block_id list \<times> block_id list \<Rightarrow> block_id \<Rightarrow> block_id list \<times> block_id list" where
  \<comment> \<open>\<open>if body.insert(pred) { queue.push_back(pred) }\<close>\<close>
  "push_pred st p = (case st of (queue, body) \<Rightarrow> if p \<in> set body then (queue, body) else (queue @ [p], p # body))"

lemma push_preds_measure:
  "foldl push_pred (q, bd) ps = (q', bd') \<Longrightarrow> finite U \<Longrightarrow> set ps \<subseteq> U \<Longrightarrow>
     card (U - set bd') + length q' = card (U - set bd) + length q"
proof (induction ps arbitrary: q bd)
  case (Cons p ps)
  show ?case
  proof (cases "p \<in> set bd")
    case False
    then have "card (U - set bd) = Suc (card (U - set bd - {p}))"
      using Cons.prems by (intro card_Suc_Diff1 [symmetric]) auto
    then have "card (U - set bd) = Suc (card (U - set (p # bd)))" by (simp add: Diff_insert [symmetric])
    with False Cons show ?thesis by (simp add: push_pred_def)
  qed (use Cons in \<open>simp add: push_pred_def\<close>)
qed simp

function body_from :: "cfg \<Rightarrow> block_id list \<Rightarrow> block_id list \<Rightarrow> block_id list rust" where
  "body_from c [] body = Some body"
| "body_from c (b # queue) body =
     (case cfg_predecessors c b of
        None \<Rightarrow> None
      | Some ps \<Rightarrow> (case foldl push_pred (queue, body) ps of (queue, body) \<Rightarrow> body_from c queue body))"
  by pat_completeness auto

termination body_from
proof (relation "measure (\<lambda>(c, queue, body). card (\<Union> (set ` set (cfg_preds c)) - set body) + length queue)", goal_cases)
  case (2 c b queue body ps q' body')
  then have "set ps \<subseteq> \<Union> (set ` set (cfg_preds c))" by (auto simp: cfg_predecessors_def rust_simps intro: bexI [OF _ nth_mem])
  then have "card (\<Union> (set ` set (cfg_preds c)) - set body') + length q' =
      card (\<Union> (set ` set (cfg_preds c)) - set body) + length queue"
    using push_preds_measure [of queue body ps q' body'] 2 by simp
  then show ?case by simp
qed simp

definition collect_loop_body :: "block_id \<Rightarrow> block_id \<Rightarrow> cfg \<Rightarrow> block_id list rust" where
  "collect_loop_body tail header c =
     do { let (queue, body) = push_pred ([], [header]) tail;
          body \<leftarrow> body_from c queue body;
          Some (sort body) }"

section \<open>Nesting\<close>

definition loop_size :: "nat_loop \<Rightarrow> nat" where
  "loop_size l = length (loop_body l)"

definition min_of_key :: "('a \<Rightarrow> nat) \<Rightarrow> 'a list \<Rightarrow> 'a option" where
  \<comment> \<open>the first of the minimal elements\<close>
  "min_of_key f xs = (if xs = [] then None else Some (arg_min_list f xs))"

definition loop_parent_of :: "nat_loop list \<Rightarrow> nat \<Rightarrow> nat option" where
  "loop_parent_of loops i =
     map_option fst (min_of_key (\<lambda>(j, l). loop_size l)
       (filter (\<lambda>(j, l). j \<noteq> i \<and> loop_header (loops ! i) \<in> set (loop_body l)) (enumerate 0 loops)))"

definition note_block :: "nat_loop list \<Rightarrow> nat \<Rightarrow> (block_id \<rightharpoonup> nat) \<Rightarrow> block_id \<Rightarrow> block_id \<rightharpoonup> nat" where
  "note_block loops i bl b =
     (let entry = (case bl b of Some e \<Rightarrow> e | None \<Rightarrow> i)
      in bl(b \<mapsto> if loop_size (loops ! i) < loop_size (loops ! entry) then i else entry))"

definition block_loops :: "nat_loop list \<Rightarrow> block_id \<rightharpoonup> nat" where
  "block_loops loops =
     foldl (\<lambda>bl i. foldl (note_block loops i) bl (loop_body (loops ! i))) Map.empty [0..<length loops]"

definition loop_info_compute :: "ir_function \<Rightarrow> cfg \<Rightarrow> dom_tree \<Rightarrow> loop_info rust" where
  "loop_info_compute f c dt =
     (if num_blocks f = 0 then Some \<lparr>li_loops = [], li_block_loop = Map.empty\<rparr>
      else do {
        back_edges \<leftarrow> find_back_edges c dt;
        loops \<leftarrow> try_map (\<lambda>(tail, header).
          map_option (\<lambda>body. \<lparr>loop_header = header, loop_body = body, loop_parent = None\<rparr>)
            (collect_loop_body tail header c)) back_edges;
        let loops = sort_key (\<lambda>l. - int (loop_size l)) loops;
        let loops = map (\<lambda>i. (loops ! i)\<lparr>loop_parent := loop_parent_of loops i\<rparr>) [0..<length loops];
        Some \<lparr>li_loops = loops, li_block_loop = block_loops loops\<rparr> })"

section \<open>Queries\<close>

definition loop_of :: "loop_info \<Rightarrow> block_id \<Rightarrow> nat option" where
  "loop_of li b = li_block_loop li b"

definition is_loop_header :: "loop_info \<Rightarrow> block_id \<Rightarrow> bool" where
  "is_loop_header li b = list_ex (\<lambda>l. loop_header l = b) (li_loops li)"

partial_function (option) depth_from :: "nat_loop list \<Rightarrow> nat \<Rightarrow> nat \<Rightarrow> nat rust" where
  "depth_from loops idx d =
     do { l \<leftarrow> vec_get loops idx;
          (case loop_parent l of None \<Rightarrow> Some d | Some p \<Rightarrow> depth_from loops p (d + 1)) }"

definition loop_depth :: "loop_info \<Rightarrow> block_id \<Rightarrow> nat rust" where
  "loop_depth li b = (case li_block_loop li b of None \<Rightarrow> Some 0 | Some i \<Rightarrow> depth_from (li_loops li) i 1)"

end
