(* ===== verification/Analysis_Loops_Correct.thy ===== *)
theory Analysis_Loops_Correct
  imports Analysis_Loops "HOL-Library.Multiset"
begin

text \<open>
  The loops that are found are the natural loops of the back edges; the nesting and the depth are right when
  no two back edges share a header, and the query of the depth does not return when two do.
\<close>

section \<open>Natural loops\<close>

inductive into_loop :: "(nat \<Rightarrow> nat list) \<Rightarrow> nat \<Rightarrow> nat \<Rightarrow> nat \<Rightarrow> bool" for sg t h where
  \<comment> \<open>the block reaches the tail \<open>t\<close> without passing through the header \<open>h\<close>\<close>
  tail: "t \<noteq> h \<Longrightarrow> into_loop sg t h t"
| pred: "into_loop sg t h v \<Longrightarrow> v \<in> set (sg u) \<Longrightarrow> u \<noteq> h \<Longrightarrow> into_loop sg t h u"

definition natural_loop :: "(nat \<Rightarrow> nat list) \<Rightarrow> nat \<Rightarrow> nat \<Rightarrow> nat set" where
  "natural_loop sg t h = insert h {v. into_loop sg t h v}"

definition back_edge :: "(nat \<Rightarrow> nat list) \<Rightarrow> nat \<Rightarrow> nat \<Rightarrow> bool" where
  "back_edge sg t h \<longleftrightarrow> reach sg t \<and> h \<in> set (sg t) \<and> dom_rel sg h t"

lemma into_loop_not_header: "into_loop sg t h v \<Longrightarrow> v \<noteq> h"
  by (induction rule: into_loop.induct) auto

lemma into_loop_dom:
  assumes "dom_rel sg h t" "into_loop sg t h v"
  shows "dom_rel sg h v"
  using assms(2)
proof (induction rule: into_loop.induct)
  case (pred v u)
  then show ?case using dom_rel_pred [of sg h v u] into_loop_not_header by fastforce
qed (rule assms(1))

lemma natural_loop_dom: "back_edge sg t h \<Longrightarrow> v \<in> natural_loop sg t h \<Longrightarrow> dom_rel sg h v"
  by (auto simp: natural_loop_def back_edge_def into_loop_dom)

lemma back_edge_reach: "back_edge sg t h \<Longrightarrow> reach sg h"
  using dom_rel_reach by (auto simp: back_edge_def)

text \<open>A loop that contains the header of another one contains it strictly.\<close>

lemma loop_contains_loop:
  assumes b1: "back_edge sg t1 h1" and b2: "back_edge sg t2 h2" and ne: "h1 \<noteq> h2"
    and inside: "h1 \<in> natural_loop sg t2 h2"
  shows "natural_loop sg t1 h1 \<subset> natural_loop sg t2 h2"
proof -
  have out: "h2 \<notin> natural_loop sg t1 h1"
  proof
    assume "h2 \<in> natural_loop sg t1 h1"
    then have "dom_rel sg h1 h2" by (rule natural_loop_dom [OF b1])
    moreover have "dom_rel sg h2 h1" by (rule natural_loop_dom [OF b2 inside])
    ultimately show False using dom_rel_antisym back_edge_reach [OF b2] ne by blast
  qed
  have h1: "into_loop sg t2 h2 h1" using inside ne by (simp add: natural_loop_def)
  have "into_loop sg t2 h2 v" if "into_loop sg t1 h1 v" for v
    using that
  proof (induction rule: into_loop.induct)
    case tail
    have "t1 \<in> natural_loop sg t1 h1" using tail by (auto simp: natural_loop_def intro: into_loop.tail)
    then have "t1 \<noteq> h2" using out by blast
    then show ?case using into_loop.pred [OF h1] b1 by (simp add: back_edge_def)
  next
    case (pred v u)
    then have "u \<in> natural_loop sg t1 h1" by (auto simp: natural_loop_def intro: into_loop.pred)
    then have "u \<noteq> h2" using out by blast
    then show ?case using into_loop.pred [OF pred.IH] pred.hyps by blast
  qed
  then have "natural_loop sg t1 h1 \<subseteq> natural_loop sg t2 h2" using h1 by (auto simp: natural_loop_def)
  moreover have "h2 \<in> natural_loop sg t2 h2" by (simp add: natural_loop_def)
  ultimately show ?thesis using out by blast
qed

lemma into_loop_path:
  \<comment> \<open>walking back along a path from the entry that avoids the header\<close>
  assumes "entry_path sg (xs @ y # ys)" "hd (xs @ [y]) = v" "into_loop sg t h v" "h \<notin> set (xs @ [y])"
  shows "into_loop sg t h y"
  using assms
proof (induction xs arbitrary: v)
  case (Cons x xs)
  obtain z zs where z: "xs @ y # ys = z # zs" by (cases xs) auto
  have hz: "hd (xs @ [y]) = z" and zin: "z \<in> set (xs @ [y])" using z by (cases xs; simp)+
  have path: "entry_path sg (xs @ y # ys)" and e: "x \<in> set (sg z)" using Cons.prems(1) z by simp_all
  have "into_loop sg t h x" "z \<noteq> h" "h \<notin> set (xs @ [y])" using Cons.prems(2-4) zin by auto
  then show ?case using Cons.IH [OF path hz] into_loop.pred [of sg t h x z] e by blast
qed simp

lemma dom_chain:
  assumes "dom_rel sg a v" "dom_rel sg b v" "reach sg v"
  shows "dom_rel sg a b \<or> dom_rel sg b a"
proof (rule ccontr)
  assume "\<not> ?thesis"
  then obtain p q where p: "entry_path sg (b # p)" "a \<notin> set (b # p)" and q: "entry_path sg (a # q)" "b \<notin> set (a # q)"
    by (auto simp: dom_rel_def)
  obtain us where us: "entry_path sg (v # us)" "distinct (v # us)"
    using assms(3) entry_path_simple unfolding reach_def by (metis list.sel(1))
  have "a \<in> set (v # us)" "b \<in> set (v # us)" using assms(1,2) us by (auto simp: dom_rel_def)
  then obtain xs ys where xy: "v # us = xs @ a # ys" by (metis split_list)
  have replace: "entry_path sg (zs @ c # r)" if "entry_path sg (zs @ c # w)" "entry_path sg (c # r)" for zs c w r
    using that
  proof (induction zs)
    case (Cons z zs)
    then show ?case by (cases zs) auto
  qed simp
  show False
  proof (cases "b \<in> set ys")
    case True
    have "entry_path sg (xs @ a # q)" using replace [of xs a ys q] us(1) q(1) xy by simp
    moreover have "hd (xs @ [a]) = v" using xy by (cases xs) auto
    ultimately have "b \<in> set (xs @ a # q)" using assms(2) unfolding dom_rel_def by (cases xs) (auto dest!: spec)
    then have "b \<in> set xs" using q(2) by auto
    then show False using us(2) True xy by (metis distinct_append disjoint_iff list.set_intros(2))
  next
    case False
    have "a \<noteq> b" using p(2) by auto
    then have "b \<in> set xs" using False \<open>b \<in> set (v # us)\<close> xy by auto
    then obtain us1 us2 where b: "xs = us1 @ b # us2" by (metis split_list)
    have "entry_path sg (us1 @ b # p)" using replace [of us1 b "us2 @ a # ys" p] us(1) p(1) xy b by simp
    moreover have "hd (us1 @ [b]) = v" using xy b by (cases us1) auto
    ultimately have "a \<in> set (us1 @ b # p)" using assms(1) unfolding dom_rel_def by (cases us1) (auto dest!: spec)
    then have "a \<in> set us1" using p(2) by auto
    then show False using us(2) xy b by auto
  qed
qed

text \<open>Two loops with different headers that share a reachable block are nested.\<close>

lemma loops_nested:
  assumes b1: "back_edge sg t1 h1" and b2: "back_edge sg t2 h2" and ne: "h1 \<noteq> h2"
    and v: "v \<in> natural_loop sg t1 h1" "v \<in> natural_loop sg t2 h2" "reach sg v"
  shows "h1 \<in> natural_loop sg t2 h2 \<or> h2 \<in> natural_loop sg t1 h1"
proof -
  have inner: "h2 \<in> natural_loop sg t1 h1"
    if "back_edge sg t1 h1" "back_edge sg t2 h2" "v \<in> natural_loop sg t1 h1" "v \<in> natural_loop sg t2 h2" "dom_rel sg h1 h2" "h1 \<noteq> h2"
    for t1 h1 t2 h2
  proof -
    obtain us where us: "entry_path sg (v # us)" "distinct (v # us)"
      using v(3) entry_path_simple unfolding reach_def by (metis list.sel(1))
    have "h2 \<in> set (v # us)" using natural_loop_dom [OF that(2,4)] us(1) by (auto simp: dom_rel_def)
    then obtain xs ys where xy: "v # us = xs @ h2 # ys" by (metis split_list)
    then have "entry_path sg (h2 # ys)" using us(1) entry_path_suffix by metis
    then have "h1 \<in> set ys" using that(5,6) by (auto simp: dom_rel_def)
    then have clean: "h1 \<notin> set (xs @ [h2])" using us(2) xy that(6) by auto
    have hd: "hd (xs @ [h2]) = v" using xy by (cases xs) auto
    then have "v \<noteq> h1" using clean by (cases xs) auto
    then have "into_loop sg t1 h1 v" using that(3) by (simp add: natural_loop_def)
    then show ?thesis using into_loop_path [of sg xs h2 ys v t1 h1] us(1) xy hd clean by (simp add: natural_loop_def)
  qed
  have "dom_rel sg h1 h2 \<or> dom_rel sg h2 h1"
    using dom_chain natural_loop_dom [OF b1 v(1)] natural_loop_dom [OF b2 v(2)] v(3) by blast
  then show ?thesis using inner [OF b1 b2 v(1,2)] inner [OF b2 b1 v(2,1)] ne by blast
qed


section \<open>Finding them\<close>

definition loop_env :: "ir_function \<Rightarrow> cfg \<Rightarrow> dom_tree \<Rightarrow> bool" where
  \<comment> \<open>what the search relies on: the graph of the function and its dominator tree\<close>
  "loop_env f c dt \<longleftrightarrow>
     wf_func f \<and> cfg_for f c \<and> idom_ok (succ_list f) (length (blocks f)) dt \<and> in_bounds (succ_list f) (length (blocks f))"

lemma loop_envD:
  assumes "loop_env f c dt"
  shows "b < length (blocks f) \<Longrightarrow> cfg_successors c b = Some (succ_list f b)"
    and "b < length (blocks f) \<Longrightarrow> cfg_predecessors c b = Some (pred_list f b)"
    and "reach (succ_list f) b \<Longrightarrow> b < length (blocks f)"
    and "reach (succ_list f) b \<Longrightarrow> dominates dt a b = Some (dom_rel (succ_list f) a b)"
  using assms dominates_correct
  by (auto simp: loop_env_def cfg_for_def cfg_successors_def cfg_predecessors_def in_bounds_def)

lemma classify_edges:
  assumes "\<And>s. dominates dt s b = Some (D s)"
  shows "try_foldl (classify_edge dt b) (es, stk) ss =
     Some (es @ map (Pair b) (filter D ss), rev (filter (\<lambda>s. \<not> D s) ss) @ stk)"
  by (induction ss arbitrary: es stk) (simp_all add: classify_edge_def assms)

definition edges_count :: "(nat \<Rightarrow> nat list) \<Rightarrow> nat set \<Rightarrow> (nat \<times> nat) list \<Rightarrow> bool" where
  \<comment> \<open>every back edge from a block of \<open>V\<close> is listed once per edge of the graph\<close>
  "edges_count sg V es \<longleftrightarrow>
     (\<forall>t h. count_list es (t, h) = (if t \<in> V \<and> back_edge sg t h then count_list (sg t) h else 0))"

lemma edges_count_mono:
  assumes "edges_count sg V es" "\<And>t h. back_edge sg t h \<Longrightarrow> t \<in> V"
  shows "edges_count sg UNIV es"
proof -
  have "t \<in> V \<and> back_edge sg t h \<longleftrightarrow> back_edge sg t h" for t h using assms(2) by blast
  then show ?thesis using assms(1) unfolding edges_count_def by simp
qed

lemma edges_count_set:
  assumes "edges_count sg UNIV es"
  shows "set es = {(t, h). back_edge sg t h}"
proof -
  have "e \<in> set es \<longleftrightarrow> back_edge sg (fst e) (snd e)" for e
    using assms [unfolded edges_count_def, rule_format, of "fst e" "snd e"] count_list_0_iff [of es e]
      count_list_0_iff [of "sg (fst e)" "snd e"] by (auto simp: back_edge_def split: if_splits)
  then show ?thesis by auto
qed

lemma count_list_map_Pair: "count_list (map (Pair b) xs) (t, h) = (if t = b then count_list xs h else 0)"
  by (induction xs) auto

lemma count_list_filter_if: "count_list (filter P xs) x = (if P x then count_list xs x else 0)"
  by (induction xs) auto

lemma edges_count_step:
  assumes "edges_count sg V es" "b \<notin> V" "reach sg b"
  shows "edges_count sg (insert b V) (es @ map (Pair b) (filter (\<lambda>s. dom_rel sg s b) (sg b)))"
  unfolding edges_count_def
proof (intro allI)
  fix t h
  show "count_list (es @ map (Pair b) (filter (\<lambda>s. dom_rel sg s b) (sg b))) (t, h) =
      (if t \<in> insert b V \<and> back_edge sg t h then count_list (sg t) h else 0)"
    using assms(1) [unfolded edges_count_def, THEN spec, THEN spec, of t h] assms(2,3)
    by (auto simp: count_list_map_Pair count_list_filter_if back_edge_def count_list_0_iff)
qed

definition edges_found :: "(nat \<Rightarrow> nat list) \<Rightarrow> nat list \<Rightarrow> nat set \<Rightarrow> (nat \<times> nat) list \<Rightarrow> bool" where
  "edges_found sg stack visited es \<longleftrightarrow>
     (\<forall>v \<in> set stack \<union> visited. reach sg v) \<and> 0 \<in> set stack \<union> visited \<and> edges_count sg visited es \<and>
     (\<forall>t \<in> visited. \<forall>s \<in> set (sg t). \<not> dom_rel sg s t \<longrightarrow> s \<in> set stack \<union> visited)"

lemma edges_found_all:
  assumes "edges_found sg [] visited es"
  shows "edges_count sg UNIV es"
proof -
  have "set us \<subseteq> visited" if "entry_path sg us" "distinct us" for us
    using that
  proof (induction rule: entry_path.induct)
    case (step u us v)
    then have "u \<in> visited" "v \<notin> set (u # us)" by auto
    moreover then have "\<not> dom_rel sg v u" using step.hyps(1) by (auto simp: dom_rel_def)
    ultimately show ?case using step assms by (auto simp: edges_found_def)
  qed (use assms in \<open>simp add: edges_found_def\<close>)
  then have "reach sg t \<Longrightarrow> t \<in> visited" for t
    using entry_path_simple unfolding reach_def by (metis list.sel(1) list.set_intros(1) subsetD)
  then show ?thesis using assms edges_count_mono unfolding edges_found_def back_edge_def by metis
qed

lemma back_edges_from_correct:
  assumes "loop_env f c dt" "edges_found (succ_list f) stack (set visited) es"
  shows "\<exists>es'. back_edges_from c dt stack visited es = Some es' \<and> edges_count (succ_list f) UNIV es'"
  using assms
proof (induction c dt stack visited es rule: back_edges_from.induct)
  case (1 c dt visited es)
  then show ?case using edges_found_all by simp
next
  case (2 c dt b stack visited es)
  let ?sg = "succ_list f"
  show ?case
  proof (cases "b \<in> set visited")
    case True
    then have "edges_found ?sg stack (set visited) es" using 2(4) by (auto simp: edges_found_def)
    with 2(1) [OF True 2(3)] True show ?thesis by simp
  next
    case False
    have b: "reach ?sg b" using 2(4) by (simp add: edges_found_def)
    note D = loop_envD [OF 2(3)]
    have ss: "cfg_successors c b = Some (?sg b)" using D(1,3) b by blast
    let ?es = "es @ map (Pair b) (filter (\<lambda>s. dom_rel ?sg s b) (?sg b))"
    let ?stk = "rev (filter (\<lambda>s. \<not> dom_rel ?sg s b) (?sg b)) @ stack"
    have run: "try_foldl (classify_edge dt b) (es, stack) (?sg b) = Some (?es, ?stk)"
      by (rule classify_edges) (rule D(4) [OF b])
    have "edges_found ?sg ?stk (set (b # visited)) ?es"
      unfolding edges_found_def
    proof (intro conjI)
      show "\<forall>v \<in> set ?stk \<union> set (b # visited). reach ?sg v"
        using 2(4) b reach_step [OF b] by (auto simp: edges_found_def)
      show "0 \<in> set ?stk \<union> set (b # visited)" using 2(4) by (auto simp: edges_found_def)
      show "edges_count ?sg (set (b # visited)) ?es"
        using edges_count_step [OF _ False b] 2(4) by (simp add: edges_found_def)
      show "\<forall>t \<in> set (b # visited). \<forall>s \<in> set (?sg t). \<not> dom_rel ?sg s t \<longrightarrow> s \<in> set ?stk \<union> set (b # visited)"
        using 2(4) by (auto simp: edges_found_def)
    qed
    from 2(2) [OF False ss run HOL.refl 2(3) this] show ?thesis using False ss run by simp
  qed
qed

lemma find_back_edges_correct:
  assumes "loop_env f c dt"
  shows "\<exists>es. find_back_edges c dt = Some es \<and> edges_count (succ_list f) UNIV es"
  unfolding find_back_edges_def cfg_entry_def
  by (rule back_edges_from_correct [OF assms]) (auto simp: edges_found_def edges_count_def)

definition latches :: "ir_function \<Rightarrow> block_id \<Rightarrow> block_id list" where
  \<comment> \<open>the sources of the back edges to \<open>h\<close>, one entry per edge\<close>
  "latches f h = filter (\<lambda>t. back_edge (succ_list f) t h) (pred_list f h)"

lemma count_list_pred_list:
  "count_list (pred_list f h) t = (if t < length (blocks f) then count_list (succ_list f t) h else 0)"
proof -
  have r: "count_list (replicate n u) t = (if u = t then n else 0)" for n u by (induction n) auto
  have "count_list (concat (map (\<lambda>u. replicate (count_list (succ_list f u) h) u) [0..<k])) t =
      (if t < k then count_list (succ_list f t) h else 0)" for k
    by (induction k) (auto simp: r)
  then show ?thesis by (simp add: pred_list_def)
qed

lemma back_edges_latches:
  assumes "edges_count (succ_list f) UNIV es"
  shows "length (filter (\<lambda>e. snd e = h) es) = length (latches f h)"
proof -
  have c: "count_list (map fst (filter (\<lambda>e. snd e = h) es)) t = count_list es (t, h)" for t
    by (induction es) auto
  have out: "\<not> t < length (blocks f) \<Longrightarrow> succ_list f t = []" for t by (simp add: succ_list_def)
  have "count_list (map fst (filter (\<lambda>e. snd e = h) es)) t = count_list (latches f h) t" for t
    using assms [unfolded edges_count_def, THEN spec, THEN spec, of t h]
    by (cases "t < length (blocks f)")
       (simp_all add: c latches_def count_list_filter_if count_list_pred_list out)
  then have "mset (map fst (filter (\<lambda>e. snd e = h) es)) = mset (latches f h)"
    by (intro multiset_eqI) (simp only: count_mset)
  then show ?thesis by (metis length_map size_mset)
qed

lemma push_preds:
  "foldl push_pred (q, bd) ps = (q', bd') \<Longrightarrow>
     set bd' = set bd \<union> set ps \<and> set q' = set q \<union> (set ps - set bd) \<and> (distinct bd \<longrightarrow> distinct bd')"
proof (induction ps arbitrary: q bd)
  case (Cons p ps)
  show ?case
  proof (cases "p \<in> set bd")
    case True
    with Cons.prems Cons.IH [of q bd] show ?thesis by (auto simp: push_pred_def)
  next
    case False
    with Cons.prems Cons.IH [of "q @ [p]" "p # bd"] show ?thesis by (auto simp: push_pred_def)
  qed
qed simp

definition body_found :: "(nat \<Rightarrow> nat list) \<Rightarrow> nat \<Rightarrow> nat \<Rightarrow> nat \<Rightarrow> nat list \<Rightarrow> nat list \<Rightarrow> bool" where
  "body_found sg n t h queue body \<longleftrightarrow>
     distinct body \<and> h \<in> set body \<and> t \<in> set body \<and> set body \<subseteq> {..<n} \<and> set body \<subseteq> natural_loop sg t h \<and>
     set queue \<subseteq> set body - {h} \<and>
     (\<forall>v \<in> set body - {h} - set queue. \<forall>u < n. v \<in> set (sg u) \<longrightarrow> u \<in> set body)"

lemma body_from_correct:
  assumes "loop_env f c dt" "body_found (succ_list f) (length (blocks f)) t h queue body"
  shows "\<exists>body'. body_from c queue body = Some body' \<and> distinct body' \<and> set body' = natural_loop (succ_list f) t h"
  using assms
proof (induction c queue body rule: body_from.induct)
  case (1 c body)
  have "v \<in> set body" if "into_loop (succ_list f) t h v" for v
    using that
  proof (induction rule: into_loop.induct)
    case (pred v u)
    moreover have "u < length (blocks f)"
      using pred.hyps(2) by (cases "u < length (blocks f)") (simp_all add: succ_list_def)
    moreover have "v \<noteq> h" using pred.hyps(1) by (rule into_loop_not_header)
    ultimately show ?case using 1(2) by (simp add: body_found_def)
  qed (use 1(2) in \<open>simp add: body_found_def\<close>)
  then show ?case using 1(2) by (auto simp: body_found_def natural_loop_def)
next
  case (2 c b queue body)
  let ?n = "length (blocks f)" and ?sg = "succ_list f"
  have b: "b \<in> set body" "b \<noteq> h" "b < ?n" using 2(3) by (auto simp: body_found_def)
  have ps: "cfg_predecessors c b = Some (pred_list f b)" by (rule loop_envD(2) [OF 2(2) b(3)])
  obtain q' bd' where run: "foldl push_pred (queue, body) (pred_list f b) = (q', bd')" by fastforce
  have P: "set bd' = set body \<union> set (pred_list f b)" "set q' = set queue \<union> (set (pred_list f b) - set body)"
    "distinct body \<Longrightarrow> distinct bd'"
    using push_preds [OF run] by simp_all
  have "b \<in> natural_loop ?sg t h" using 2(3) b(1) unfolding body_found_def by blast
  then have "into_loop ?sg t h b" using b(2) by (simp add: natural_loop_def)
  then have "u = h \<or> into_loop ?sg t h u" if "u \<in> set (pred_list f b)" for u
    using into_loop.pred [of ?sg t h b u] that by (auto simp: set_pred_list)
  then have nat: "set (pred_list f b) \<subseteq> natural_loop ?sg t h" unfolding natural_loop_def by blast
  have "body_found ?sg ?n t h q' bd'"
    unfolding body_found_def
  proof (intro conjI)
    show "distinct bd'" "h \<in> set bd'" "t \<in> set bd'" "set bd' \<subseteq> natural_loop ?sg t h"
      using 2(3) P nat by (simp_all add: body_found_def)
    have "set body \<subseteq> {..<?n}" using 2(3) by (simp add: body_found_def)
    moreover have "set (pred_list f b) \<subseteq> {..<?n}" by (auto simp: set_pred_list)
    ultimately show "set bd' \<subseteq> {..<?n}" using P(1) by simp
    have "h \<in> set body" "set (b # queue) \<subseteq> set body - {h}" using 2(3) unfolding body_found_def by blast+
    then show "set q' \<subseteq> set bd' - {h}" unfolding P(1,2) by auto
    show "\<forall>v \<in> set bd' - {h} - set q'. \<forall>u < ?n. v \<in> set (?sg u) \<longrightarrow> u \<in> set bd'"
    proof (intro ballI allI impI)
      fix v u assume v: "v \<in> set bd' - {h} - set q'" "u < ?n" "v \<in> set (?sg u)"
      show "u \<in> set bd'"
      proof (cases "v = b")
        case True
        then show ?thesis using v P(1) by (simp add: set_pred_list)
      next
        case False
        then have "v \<in> set body - {h} - set (b # queue)" using v(1) P(1,2) by auto
        then have "u \<in> set body" using 2(3) v(2,3) unfolding body_found_def by blast
        then show ?thesis using P(1) by simp
      qed
    qed
  qed
  from 2(1) [OF ps run [symmetric] 2(2) this] show ?case using ps run by simp
qed

lemma collect_loop_body_correct:
  assumes env: "loop_env f c dt" and be: "back_edge (succ_list f) t h"
  shows "\<exists>body. collect_loop_body t h c = Some body \<and> sorted body \<and> distinct body \<and> set body = natural_loop (succ_list f) t h"
proof -
  let ?n = "length (blocks f)" and ?sg = "succ_list f"
  obtain queue body where st: "push_pred ([], [h]) t = (queue, body)" by fastforce
  have n: "t < ?n" "h < ?n" using be back_edge_reach [OF be] loop_envD(3) [OF env] by (auto simp: back_edge_def)
  have "body_found ?sg ?n t h queue body"
    using st n by (auto simp: push_pred_def body_found_def natural_loop_def split: if_splits intro: into_loop.tail)
  from body_from_correct [OF env this] obtain body' where
    "body_from c queue body = Some body'" "distinct body'" "set body' = natural_loop ?sg t h" by blast
  then show ?thesis using st by (simp add: collect_loop_body_def)
qed

lemma try_map_rel:
  assumes "\<And>x. x \<in> set xs \<Longrightarrow> \<exists>y. f x = Some y \<and> P x y"
  shows "\<exists>ys. try_map f xs = Some ys \<and> list_all2 P xs ys"
  using assms
proof (induction xs)
  case (Cons x xs)
  then obtain y ys where "f x = Some y" "P x y" "try_map f xs = Some ys" "list_all2 P xs ys" by fastforce
  then show ?case by simp
qed simp

section \<open>The computed loops\<close>

definition loop_set :: "nat_loop list \<Rightarrow> (nat \<times> nat set) list" where
  "loop_set ls = map (\<lambda>l. (loop_header l, set (loop_body l))) ls"

definition natural_loops :: "(nat \<Rightarrow> nat list) \<Rightarrow> nat_loop list \<Rightarrow> bool" where
  "natural_loops sg ls \<longleftrightarrow>
     (\<forall>l \<in> set ls. distinct (loop_body l) \<and>
        (\<exists>t. back_edge sg t (loop_header l) \<and> set (loop_body l) = natural_loop sg t (loop_header l)))"

definition parents_set :: "nat_loop list \<Rightarrow> bool" where
  \<comment> \<open>the parent is a smallest other loop that contains the header\<close>
  "parents_set ls \<longleftrightarrow>
     (\<forall>i < length ls. case loop_parent (ls ! i) of
        None \<Rightarrow> \<forall>j < length ls. j \<noteq> i \<longrightarrow> loop_header (ls ! i) \<notin> set (loop_body (ls ! j))
      | Some p \<Rightarrow> p < length ls \<and> p \<noteq> i \<and> loop_header (ls ! i) \<in> set (loop_body (ls ! p)) \<and>
          (\<forall>j < length ls. j \<noteq> i \<and> loop_header (ls ! i) \<in> set (loop_body (ls ! j)) \<longrightarrow>
             loop_size (ls ! p) \<le> loop_size (ls ! j)))"

lemma min_of_key_Some:
  assumes "min_of_key f xs = Some m"
  shows "m \<in> set xs" and "x \<in> set xs \<Longrightarrow> f m \<le> f x"
  using assms arg_min_list_in f_arg_min_list_f [of xs f] by (auto simp: min_of_key_def split: if_splits)

lemma min_of_key_None: "min_of_key f xs = None \<longleftrightarrow> xs = []"
  by (simp add: min_of_key_def)

lemma parent_Some:
  assumes "loop_parent_of ls i = Some p"
  shows "p < length ls" "p \<noteq> i" "loop_header (ls ! i) \<in> set (loop_body (ls ! p))"
    and "\<And>j. j < length ls \<Longrightarrow> j \<noteq> i \<Longrightarrow> loop_header (ls ! i) \<in> set (loop_body (ls ! j)) \<Longrightarrow>
      loop_size (ls ! p) \<le> loop_size (ls ! j)"
proof -
  let ?c = "filter (\<lambda>(j, l). j \<noteq> i \<and> loop_header (ls ! i) \<in> set (loop_body l)) (enumerate 0 ls)"
  obtain l where m: "min_of_key (\<lambda>(j, l). loop_size l) ?c = Some (p, l)" using assms by (auto simp: loop_parent_of_def)
  from min_of_key_Some(1) [OF m] show p: "p < length ls" "p \<noteq> i" "loop_header (ls ! i) \<in> set (loop_body (ls ! p))"
    by (auto simp: in_set_enumerate_eq)
  have l: "l = ls ! p" using min_of_key_Some(1) [OF m] by (auto simp: in_set_enumerate_eq)
  show "loop_size (ls ! p) \<le> loop_size (ls ! j)"
    if "j < length ls" "j \<noteq> i" "loop_header (ls ! i) \<in> set (loop_body (ls ! j))" for j
    using min_of_key_Some(2) [OF m, of "(j, ls ! j)"] that l by (auto simp: in_set_enumerate_eq)
qed

lemma parent_None:
  "loop_parent_of ls i = None \<longleftrightarrow> (\<forall>j < length ls. j \<noteq> i \<longrightarrow> loop_header (ls ! i) \<notin> set (loop_body (ls ! j)))"
  by (auto simp: loop_parent_of_def min_of_key_None filter_empty_conv in_set_enumerate_eq)

lemma parents_set_map:
  "parents_set (map (\<lambda>i. (ls ! i)\<lparr>loop_parent := loop_parent_of ls i\<rparr>) [0..<length ls])"
  using parent_Some [of ls] by (auto simp: parents_set_def parent_None loop_size_def split: option.splits)

section \<open>The innermost loop of a block\<close>

definition innermost :: "nat_loop list \<Rightarrow> nat \<Rightarrow> (block_id \<rightharpoonup> nat) \<Rightarrow> bool" where
  \<comment> \<open>each block has a smallest one of the first \<open>k\<close> loops that contain it\<close>
  "innermost ls k bl \<longleftrightarrow>
     (\<forall>b. case bl b of
        None \<Rightarrow> \<forall>j < k. b \<notin> set (loop_body (ls ! j))
      | Some i \<Rightarrow> i < k \<and> b \<in> set (loop_body (ls ! i)) \<and>
          (\<forall>j < k. b \<in> set (loop_body (ls ! j)) \<longrightarrow> loop_size (ls ! i) \<le> loop_size (ls ! j)))"

lemma note_blocks:
  "foldl (note_block ls i) bl bs b =
     (if b \<in> set bs then
        Some (case bl b of None \<Rightarrow> i | Some e \<Rightarrow> if loop_size (ls ! i) < loop_size (ls ! e) then i else e)
      else bl b)"
proof (induction bs arbitrary: bl)
  case (Cons x bs)
  then show ?case by (auto simp: note_block_def Let_def split: option.splits)
qed simp

lemma innermost_step:
  assumes "innermost ls k bl"
  shows "innermost ls (Suc k) (foldl (note_block ls k) bl (loop_body (ls ! k)))"
  unfolding innermost_def
proof
  fix b
  show "case foldl (note_block ls k) bl (loop_body (ls ! k)) b of
      None \<Rightarrow> \<forall>j < Suc k. b \<notin> set (loop_body (ls ! j))
    | Some i \<Rightarrow> i < Suc k \<and> b \<in> set (loop_body (ls ! i)) \<and>
        (\<forall>j < Suc k. b \<in> set (loop_body (ls ! j)) \<longrightarrow> loop_size (ls ! i) \<le> loop_size (ls ! j))"
    using assms [unfolded innermost_def, THEN spec, of b]
    by (cases "bl b"; cases "b \<in> set (loop_body (ls ! k))") (auto simp: note_blocks less_Suc_eq)
qed

lemma block_loops_innermost: "innermost ls (length ls) (block_loops ls)"
proof -
  have "innermost ls k (foldl (\<lambda>bl i. foldl (note_block ls i) bl (loop_body (ls ! i))) Map.empty [0..<k])" for k
    by (induction k) (simp_all add: innermost_step, simp add: innermost_def)
  then show ?thesis by (simp add: block_loops_def)
qed

section \<open>The analysis\<close>

definition loops_ok :: "(nat \<Rightarrow> nat list) \<Rightarrow> loop_info \<Rightarrow> bool" where
  "loops_ok sg li \<longleftrightarrow>
     natural_loops sg (li_loops li) \<and> parents_set (li_loops li) \<and>
     innermost (li_loops li) (length (li_loops li)) (li_block_loop li)"

lemma list_all2_partner: "list_all2 R xs ys \<Longrightarrow> y \<in> set ys \<Longrightarrow> \<exists>x \<in> set xs. R x y"
  by (induction rule: list_all2_induct) auto

lemma list_all2_headers:
  "list_all2 (\<lambda>e l. loop_header l = snd e \<and> Q e l) es ls \<Longrightarrow>
     length (filter (\<lambda>l. loop_header l = h) ls) = length (filter (\<lambda>e. snd e = h) es)"
  by (induction rule: list_all2_induct) simp_all

lemma loop_info_compute_ok:
  assumes env: "loop_env f c dt" and ne: "blocks f \<noteq> []"
  shows "\<exists>li. loop_info_compute f c dt = Some li \<and> loops_ok (succ_list f) li \<and>
    set (loop_set (li_loops li)) = {(h, natural_loop (succ_list f) t h) | t h. back_edge (succ_list f) t h} \<and>
    (\<forall>h. length (filter (\<lambda>l. loop_header l = h) (li_loops li)) = length (latches f h))"
proof -
  let ?sg = "succ_list f"
  let ?body = "\<lambda>(t, h). map_option (\<lambda>body. \<lparr>loop_header = h, loop_body = body, loop_parent = None\<rparr>) (collect_loop_body t h c)"
  let ?R = "\<lambda>e l. loop_header l = snd e \<and> (distinct (loop_body l) \<and> back_edge ?sg (fst e) (snd e) \<and>
    set (loop_body l) = natural_loop ?sg (fst e) (snd e))"
  obtain es where es: "find_back_edges c dt = Some es" "set es = {(t, h). back_edge ?sg t h}"
    and cnt: "edges_count ?sg UNIV es"
    using find_back_edges_correct [OF env] edges_count_set by blast
  have "\<exists>l. ?body e = Some l \<and> ?R e l" if "e \<in> set es" for e
    using collect_loop_body_correct [OF env, of "fst e" "snd e"] that es(2) by (cases e) auto
  then obtain ls where ls: "try_map ?body es = Some ls" "list_all2 ?R es ls" using try_map_rel [of es ?body ?R] by blast
  define so where "so = sort_key (\<lambda>l. - int (loop_size l)) ls"
  define out where "out = map (\<lambda>i. (so ! i)\<lparr>loop_parent := loop_parent_of so i\<rparr>) [0..<length so]"
  have run: "loop_info_compute f c dt = Some \<lparr>li_loops = out, li_block_loop = block_loops out\<rparr>"
    using ne es(1) ls(1) by (simp add: loop_info_compute_def num_blocks_def so_def out_def Let_def)
  have same: "map (\<lambda>l. (loop_header l, loop_body l)) out = map (\<lambda>l. (loop_header l, loop_body l)) so"
    by (rule nth_equalityI) (simp_all add: out_def)
  have sets: "(\<lambda>l. (loop_header l, loop_body l)) ` set out = (\<lambda>l. (loop_header l, loop_body l)) ` set ls"
    using same by (metis list.set_map set_sort so_def)
  have each: "\<exists>e \<in> set es. ?R e l" if "l \<in> set out" for l
  proof -
    have "(loop_header l, loop_body l) \<in> (\<lambda>l. (loop_header l, loop_body l)) ` set ls"
      using that by (subst sets [symmetric]) simp
    then obtain l' where "l' \<in> set ls" "loop_header l = loop_header l'" "loop_body l = loop_body l'" by auto
    moreover have "\<exists>e \<in> set es. ?R e l'"
      using list_all2_partner [OF ls(2) \<open>l' \<in> set ls\<close>] .
    ultimately show ?thesis by simp
  qed
  have nat: "natural_loops ?sg out" using each by (fastforce simp: natural_loops_def)
  have "set (loop_set out) = (\<lambda>l. (loop_header l, set (loop_body l))) ` set ls"
    using arg_cong [OF sets, of "\<lambda>X. (\<lambda>(h, b). (h, set b)) ` X"] by (simp add: loop_set_def image_image)
  also have "\<dots> = (\<lambda>(t, h). (h, natural_loop ?sg t h)) ` set es"
    using ls(2) by (induction rule: list_all2_induct) (auto simp: case_prod_beta)
  also have "\<dots> = {(h, natural_loop ?sg t h) | t h. back_edge ?sg t h}" using es(2) by auto
  finally have lset: "set (loop_set out) = {(h, natural_loop ?sg t h) | t h. back_edge ?sg t h}" .
  have count: "length (filter (\<lambda>l. loop_header l = h) out) = length (latches f h)" for h
  proof -
    have hd: "map loop_header out = map loop_header so" by (rule nth_equalityI) (simp_all add: out_def)
    have len: "length (filter (\<lambda>l. loop_header l = h) xs) = length (filter (\<lambda>x. x = h) (map loop_header xs))" for xs :: "nat_loop list"
      by (simp add: filter_map o_def)
    have "length (filter (\<lambda>l. loop_header l = h) out) = length (filter (\<lambda>l. loop_header l = h) so)"
      by (simp only: len hd)
    then show ?thesis
      using list_all2_headers [OF ls(2)] back_edges_latches [OF cnt] by (simp add: so_def filter_sort)
  qed
  have "loops_ok ?sg \<lparr>li_loops = out, li_block_loop = block_loops out\<rparr>"
    using nat block_loops_innermost [of out] parents_set_map [of so] by (simp add: loops_ok_def flip: out_def)
  then show ?thesis using run lset count by (intro exI [of _ "\<lparr>li_loops = out, li_block_loop = block_loops out\<rparr>"]) simp
qed

section \<open>Depth\<close>

definition loops_of :: "nat_loop list \<Rightarrow> block_id \<Rightarrow> nat set" where
  "loops_of ls b = {j. j < length ls \<and> b \<in> set (loop_body (ls ! j))}"

lemma finite_loops_of [simp]: "finite (loops_of ls b)"
  by (simp add: loops_of_def)

lemma natural_loopsD:
  assumes "natural_loops sg ls" "i < length ls"
  obtains t where "back_edge sg t (loop_header (ls ! i))" "set (loop_body (ls ! i)) = natural_loop sg t (loop_header (ls ! i))"
    "distinct (loop_body (ls ! i))"
  using assms by (auto simp: natural_loops_def dest: nth_mem)

lemma header_in_loop:
  assumes "natural_loops sg ls" "i < length ls"
  shows "i \<in> loops_of ls (loop_header (ls ! i))" "reach sg (loop_header (ls ! i))"
proof -
  obtain t where t: "back_edge sg t (loop_header (ls ! i))" "set (loop_body (ls ! i)) = natural_loop sg t (loop_header (ls ! i))"
    using natural_loopsD [OF assms] by metis
  show "i \<in> loops_of ls (loop_header (ls ! i))" using t(2) assms(2) by (simp add: loops_of_def natural_loop_def)
  show "reach sg (loop_header (ls ! i))" by (rule back_edge_reach [OF t(1)])
qed

lemma header_inside:
  \<comment> \<open>a loop whose header is in the body of another one is contained in it and smaller\<close>
  assumes nl: "natural_loops sg ls" and ij: "i < length ls" "j < length ls"
    and h: "loop_header (ls ! i) \<noteq> loop_header (ls ! j)" "j \<in> loops_of ls (loop_header (ls ! i))"
  shows "set (loop_body (ls ! i)) \<subseteq> set (loop_body (ls ! j))" "loop_size (ls ! i) < loop_size (ls ! j)"
proof -
  obtain t where t: "back_edge sg t (loop_header (ls ! i))" "set (loop_body (ls ! i)) = natural_loop sg t (loop_header (ls ! i))"
    "distinct (loop_body (ls ! i))" using natural_loopsD [OF nl ij(1)] .
  obtain t' where t': "back_edge sg t' (loop_header (ls ! j))" "set (loop_body (ls ! j)) = natural_loop sg t' (loop_header (ls ! j))"
    "distinct (loop_body (ls ! j))" using natural_loopsD [OF nl ij(2)] .
  have "set (loop_body (ls ! i)) \<subset> set (loop_body (ls ! j))"
    unfolding t(2) t'(2) by (rule loop_contains_loop [OF t(1) t'(1) h(1)]) (use h(2) t'(2) in \<open>simp add: loops_of_def\<close>)
  then show "set (loop_body (ls ! i)) \<subseteq> set (loop_body (ls ! j))" "loop_size (ls ! i) < loop_size (ls ! j)"
    using psubset_card_mono [of "set (loop_body (ls ! j))"] t(3) t'(3) by (auto simp: loop_size_def distinct_card [symmetric])
qed

lemma smallest_around:
  \<comment> \<open>the other loops around a block of the smallest one are the loops around its header\<close>
  assumes nl: "natural_loops sg ls" and ps: "distinct (map loop_header ls)" and b: "reach sg b"
    and p: "p \<in> loops_of ls b" and least: "\<And>j. j \<in> X \<Longrightarrow> loop_size (ls ! p) \<le> loop_size (ls ! j)"
    and X: "X \<subseteq> loops_of ls b" "p \<in> X" "\<And>j. j \<in> loops_of ls b \<Longrightarrow> j \<notin> X \<Longrightarrow> j \<notin> loops_of ls (loop_header (ls ! p))"
  shows "X = loops_of ls (loop_header (ls ! p))"
proof (intro equalityI subsetI)
  have pn: "p < length ls" using p by (simp add: loops_of_def)
  fix j assume j: "j \<in> X"
  then have jn: "j < length ls" "j \<in> loops_of ls b" using X(1) by (auto simp: loops_of_def)
  show "j \<in> loops_of ls (loop_header (ls ! p))"
  proof (cases "j = p")
    case False
    then have ne: "loop_header (ls ! p) \<noteq> loop_header (ls ! j)" using ps pn jn(1) by (auto simp: distinct_conv_nth)
    obtain t where t: "back_edge sg t (loop_header (ls ! p))" "set (loop_body (ls ! p)) = natural_loop sg t (loop_header (ls ! p))"
      using natural_loopsD [OF nl pn] by metis
    obtain t' where t': "back_edge sg t' (loop_header (ls ! j))" "set (loop_body (ls ! j)) = natural_loop sg t' (loop_header (ls ! j))"
      using natural_loopsD [OF nl jn(1)] by metis
    from loops_nested [OF t(1) t'(1) ne _ _ b] p jn t(2) t'(2)
    have "j \<in> loops_of ls (loop_header (ls ! p)) \<or> p \<in> loops_of ls (loop_header (ls ! j))"
      by (auto simp: loops_of_def)
    moreover have "p \<notin> loops_of ls (loop_header (ls ! j))"
      using header_inside(2) [OF nl jn(1) pn ne [symmetric]] least [OF j] by auto
    ultimately show ?thesis by blast
  qed (use header_in_loop [OF nl pn] in simp)
next
  have pn: "p < length ls" using p by (simp add: loops_of_def)
  fix j assume j: "j \<in> loops_of ls (loop_header (ls ! p))"
  then have jn: "j < length ls" by (simp add: loops_of_def)
  have "j \<in> loops_of ls b"
  proof (cases "j = p")
    case False
    then have "loop_header (ls ! p) \<noteq> loop_header (ls ! j)" using ps pn jn by (auto simp: distinct_conv_nth)
    from header_inside(1) [OF nl pn jn this j] p jn show ?thesis by (auto simp: loops_of_def)
  qed (use p in simp)
  then show "j \<in> X" using X(3) j by blast
qed

lemma depth_from_correct:
  assumes nl: "natural_loops sg ls" and ps: "parents_set ls" and di: "distinct (map loop_header ls)"
  shows "i < length ls \<Longrightarrow> depth_from ls i d = Some (d + card (loops_of ls (loop_header (ls ! i))) - 1)"
proof (induction "card (loops_of ls (loop_header (ls ! i)))" arbitrary: i d rule: less_induct)
  case less
  let ?h = "loop_header (ls ! i)"
  note I = header_in_loop [OF nl less.prems]
  have P: "case loop_parent (ls ! i) of
        None \<Rightarrow> \<forall>j < length ls. j \<noteq> i \<longrightarrow> ?h \<notin> set (loop_body (ls ! j))
      | Some p \<Rightarrow> p < length ls \<and> p \<noteq> i \<and> ?h \<in> set (loop_body (ls ! p)) \<and>
          (\<forall>j < length ls. j \<noteq> i \<and> ?h \<in> set (loop_body (ls ! j)) \<longrightarrow> loop_size (ls ! p) \<le> loop_size (ls ! j))"
    using ps less.prems unfolding parents_set_def by blast
  show ?case
  proof (cases "loop_parent (ls ! i)")
    case None
    then have "loops_of ls ?h = {i}" using P I(1) by (auto simp: loops_of_def)
    then show ?thesis using None less.prems by (subst depth_from.simps) simp
  next
    case (Some p)
    let ?X = "loops_of ls ?h - {i}"
    have p: "p < length ls" "p \<noteq> i" "p \<in> loops_of ls ?h" using P Some by (simp_all add: loops_of_def)
    have "?X = loops_of ls (loop_header (ls ! p))"
    proof (rule smallest_around [OF nl di I(2) p(3)])
      show "loop_size (ls ! p) \<le> loop_size (ls ! j)" if "j \<in> ?X" for j using P Some that by (auto simp: loops_of_def)
      fix j assume "j \<in> loops_of ls ?h" "j \<notin> ?X"
      then have j: "j = i" by simp
      have "?h \<noteq> loop_header (ls ! p)" using di p less.prems by (auto simp: distinct_conv_nth)
      then have "loop_size (ls ! i) < loop_size (ls ! p)" using header_inside(2) [OF nl less.prems p(1) _ p(3)] by blast
      then show "j \<notin> loops_of ls (loop_header (ls ! p))"
        using header_inside(2) [OF nl p(1) less.prems \<open>?h \<noteq> loop_header (ls ! p)\<close> [symmetric]] j by auto
    qed (use p in auto)
    moreover then have "card (loops_of ls ?h) = Suc (card (loops_of ls (loop_header (ls ! p))))"
      using I(1) by (metis card_Suc_Diff1 finite_loops_of)
    moreover have "card (loops_of ls (loop_header (ls ! p))) \<noteq> 0" using header_in_loop [OF nl p(1)] by auto
    ultimately show ?thesis
      using Some less.prems less.hyps [of p "d + 1"] p(1) by (subst depth_from.simps) simp
  qed
qed

lemma loop_depth_correct:
  assumes ok: "loops_ok sg li" and di: "distinct (map loop_header (li_loops li))" and b: "reach sg b"
  shows "loop_depth li b = Some (card (loops_of (li_loops li) b))"
proof -
  let ?ls = "li_loops li"
  note nl = ok [unfolded loops_ok_def, THEN conjunct1]
  have P: "case li_block_loop li b of
        None \<Rightarrow> \<forall>j < length ?ls. b \<notin> set (loop_body (?ls ! j))
      | Some i \<Rightarrow> i < length ?ls \<and> b \<in> set (loop_body (?ls ! i)) \<and>
          (\<forall>j < length ?ls. b \<in> set (loop_body (?ls ! j)) \<longrightarrow> loop_size (?ls ! i) \<le> loop_size (?ls ! j))"
    using ok unfolding loops_ok_def innermost_def by blast
  show ?thesis
  proof (cases "li_block_loop li b")
    case None
    then show ?thesis using P by (auto simp: loop_depth_def loops_of_def)
  next
    case (Some i)
    have i: "i < length ?ls" "i \<in> loops_of ?ls b" using P Some by (simp_all add: loops_of_def)
    have "loops_of ?ls b = loops_of ?ls (loop_header (?ls ! i))"
      by (rule smallest_around [OF nl di b i(2)]) (use P Some i in \<open>auto simp: loops_of_def\<close>)
    moreover have "card (loops_of ?ls b) \<noteq> 0" using i(2) by auto
    ultimately show ?thesis
      using Some depth_from_correct [OF nl _ di i(1)] ok by (simp add: loop_depth_def loops_ok_def)
  qed
qed

section \<open>Two back edges with one header\<close>

lemma depth_from_cycle:
  assumes cyc: "\<And>i. i \<in> S \<Longrightarrow> i < length ls \<and> (\<exists>p \<in> S. loop_parent (ls ! i) = Some p)"
  shows "i \<in> S \<Longrightarrow> depth_from ls i d = None"
proof -
  have "ls' = ls \<longrightarrow> i \<notin> S" if "depth_from ls' i d = Some r" for ls' i d r
  proof (rule depth_from.raw_induct [OF _ that])
    fix df :: "nat_loop list \<Rightarrow> nat \<Rightarrow> nat \<Rightarrow> nat rust" and ls' i d r
    assume IH: "\<And>ls' i d r. df ls' i d = Some r \<Longrightarrow> ls' = ls \<longrightarrow> i \<notin> S"
      and run: "vec_get ls' i \<bind> (\<lambda>l. case loop_parent l of None \<Rightarrow> Some d | Some p \<Rightarrow> df ls' p (d + 1)) = Some r"
    show "ls' = ls \<longrightarrow> i \<notin> S"
    proof (intro impI notI)
      assume "ls' = ls" "i \<in> S"
      moreover then obtain p where "p \<in> S" "loop_parent (ls ! i) = Some p" "i < length ls" using cyc by blast
      ultimately show False using run IH [of ls p "d + 1" r] by simp
    qed
  qed
  then show "i \<in> S \<Longrightarrow> depth_from ls i d = None" by (cases "depth_from ls i d") auto
qed

lemma shared_header_parent:
  assumes nl: "natural_loops sg ls" and ps: "parents_set ls"
    and ij: "i < length ls" "j < length ls" "i \<noteq> j" "loop_header (ls ! i) = loop_header (ls ! j)"
  shows "\<exists>p < length ls. loop_header (ls ! p) = loop_header (ls ! i) \<and> loop_parent (ls ! i) = Some p"
proof -
  let ?h = "loop_header (ls ! i)"
  have jin: "?h \<in> set (loop_body (ls ! j))" using header_in_loop(1) [OF nl ij(2)] ij(4) by (simp add: loops_of_def)
  then obtain p where p: "loop_parent (ls ! i) = Some p" "p < length ls" "?h \<in> set (loop_body (ls ! p))"
    "loop_size (ls ! p) \<le> loop_size (ls ! j)"
    using ps [unfolded parents_set_def, THEN spec, of i] ij by (cases "loop_parent (ls ! i)") auto
  have "loop_header (ls ! p) = ?h"
  proof (rule ccontr)
    assume "loop_header (ls ! p) \<noteq> ?h"
    then have "loop_size (ls ! j) < loop_size (ls ! p)"
      using header_inside(2) [OF nl ij(2) p(2)] p(2,3) ij(4) by (auto simp: loops_of_def)
    then show False using p(4) by simp
  qed
  then show ?thesis using p by blast
qed

lemma shared_header_depth:
  assumes ok: "loops_ok sg li" and ij: "i < length (li_loops li)" "j < length (li_loops li)" "i \<noteq> j"
    "loop_header (li_loops li ! i) = h" "loop_header (li_loops li ! j) = h"
  shows "loop_depth li h = None"
proof -
  let ?ls = "li_loops li" and ?S = "{k. k < length (li_loops li) \<and> loop_header (li_loops li ! k) = h}"
  note nl = ok [unfolded loops_ok_def, THEN conjunct1]
  have cyc: "k < length ?ls \<and> (\<exists>p \<in> ?S. loop_parent (?ls ! k) = Some p)" if "k \<in> ?S" for k
    using that ij ok shared_header_parent [OF nl, of k i] shared_header_parent [OF nl, of k j]
    by (cases "k = i") (auto simp: loops_ok_def)
  have "h \<in> set (loop_body (?ls ! i))" using header_in_loop(1) [OF nl ij(1)] ij(4) by (simp add: loops_of_def)
  then obtain k where k: "li_block_loop li h = Some k" "k < length ?ls" "h \<in> set (loop_body (?ls ! k))"
    "loop_size (?ls ! k) \<le> loop_size (?ls ! i)"
    using ok [unfolded loops_ok_def innermost_def, THEN conjunct2, THEN conjunct2, THEN spec, of h] ij(1)
    by (cases "li_block_loop li h") auto
  have "loop_header (?ls ! k) = h"
  proof (rule ccontr)
    assume "loop_header (?ls ! k) \<noteq> h"
    then have "loop_size (?ls ! i) < loop_size (?ls ! k)"
      using header_inside(2) [OF nl ij(1) k(2)] k(2,3) ij(4) by (auto simp: loops_of_def)
    then show False using k(4) by simp
  qed
  then have "depth_from ?ls k 1 = None" using depth_from_cycle [of ?S ?ls, OF cyc] k(2) by blast
  then show ?thesis using k(1) by (simp add: loop_depth_def)
qed

section \<open>The properties\<close>

lemma two_of_filter:
  assumes "2 \<le> length (filter P xs)"
  obtains i j where "i < length xs" "j < length xs" "i \<noteq> j" "P (xs ! i)" "P (xs ! j)"
proof -
  have "2 \<le> card {i. i < length xs \<and> P (xs ! i)}" using assms by (simp add: length_filter_conv_card)
  then obtain X where X: "X \<subseteq> {i. i < length xs \<and> P (xs ! i)}" "card X = 2" by (metis obtain_subset_with_card_n)
  then obtain i j where "X = {i, j}" "i \<noteq> j" by (auto simp: card_2_iff)
  with X(1) that show ?thesis by auto
qed

lemma distinct_of_filter:
  assumes "\<And>h. length (filter (\<lambda>x. g x = h) xs) \<le> 1"
  shows "distinct (map g xs)"
proof (rule ccontr)
  assume "\<not> ?thesis"
  then obtain i j where ij: "i < length xs" "j < length xs" "i \<noteq> j" "g (xs ! i) = g (xs ! j)"
    by (auto simp: distinct_conv_nth)
  have "card {i, j} \<le> card {k. k < length xs \<and> g (xs ! k) = g (xs ! i)}" using ij by (intro card_mono) auto
  then show False using assms [of "g (xs ! i)"] ij(3) by (simp add: length_filter_conv_card)
qed

lemma loop_env_compute:
  assumes "wf_func f" "blocks f \<noteq> []" "cfg_compute f = Some c" "dom_compute f c = Some dt"
  shows "loop_env f c dt"
  using dom_compute_idom_ok [OF assms] assms(1) by (simp add: loop_env_def)

text \<open>C16: \<open>LoopInfo::compute\<close> returns, and the loops it lists are the natural loops of the back edges, one per
  edge: the header, with every block that reaches the tail without passing the header. The loop that
  \<open>loop_of\<close> gives for a block is a smallest one that contains it, and it gives none exactly when no loop
  contains the block.\<close>

theorem loop_info_correct:
  assumes "wf_func f" "blocks f \<noteq> []" "cfg_compute f = Some c" "dom_compute f c = Some dt"
  shows "\<exists>li. loop_info_compute f c dt = Some li \<and>
    {(loop_header l, set (loop_body l)) | l. l \<in> set (li_loops li)} =
      {(h, natural_loop (succ_list f) t h) | t h. back_edge (succ_list f) t h} \<and>
    (\<forall>h. length (filter (\<lambda>l. loop_header l = h) (li_loops li)) = length (latches f h)) \<and>
    (\<forall>b. case loop_of li b of
       None \<Rightarrow> \<forall>l \<in> set (li_loops li). b \<notin> set (loop_body l)
     | Some i \<Rightarrow> i < length (li_loops li) \<and> b \<in> set (loop_body (li_loops li ! i)) \<and>
         (\<forall>l \<in> set (li_loops li). b \<in> set (loop_body l) \<longrightarrow> loop_size (li_loops li ! i) \<le> loop_size l))"
proof -
  have nth: "(\<forall>l \<in> set ls. Q l) \<longleftrightarrow> (\<forall>j < length ls. Q (ls ! j))" for ls :: "nat_loop list" and Q
    by (simp add: all_set_conv_all_nth)
  obtain li where li: "loop_info_compute f c dt = Some li" "loops_ok (succ_list f) li"
    "set (loop_set (li_loops li)) = {(h, natural_loop (succ_list f) t h) | t h. back_edge (succ_list f) t h}"
    "\<forall>h. length (filter (\<lambda>l. loop_header l = h) (li_loops li)) = length (latches f h)"
    using loop_info_compute_ok [OF loop_env_compute [OF assms] assms(2)] by blast
  have "{(loop_header l, set (loop_body l)) | l. l \<in> set (li_loops li)} = set (loop_set (li_loops li))"
    by (auto simp: loop_set_def)
  then show ?thesis
    using li unfolding loops_ok_def innermost_def loop_of_def nth by (intro exI [of _ li]) simp
qed

text \<open>C17: When no block is the header of two back edges, the query \<open>depth\<close> returns for every block that is
  reachable from the entry the number of loops that contain it.\<close>

theorem loop_depth_counts_loops:
  assumes "wf_func f" "blocks f \<noteq> []" "cfg_compute f = Some c" "dom_compute f c = Some dt"
    and "\<forall>h. length (latches f h) \<le> 1" and "reach (succ_list f) b"
  shows "\<exists>li. loop_info_compute f c dt = Some li \<and>
    loop_depth li b = Some (length (filter (\<lambda>l. b \<in> set (loop_body l)) (li_loops li)))"
proof -
  obtain li where li: "loop_info_compute f c dt = Some li" "loops_ok (succ_list f) li"
    "\<forall>h. length (filter (\<lambda>l. loop_header l = h) (li_loops li)) = length (latches f h)"
    using loop_info_compute_ok [OF loop_env_compute [OF assms(1-4)] assms(2)] by blast
  have "distinct (map loop_header (li_loops li))" by (rule distinct_of_filter) (use li(3) assms(5) in \<open>simp\<close>)
  from loop_depth_correct [OF li(2) this assms(6)] show ?thesis
    using li(1) by (simp add: loops_of_def length_filter_conv_card)
qed

text \<open>C18: The query \<open>depth\<close> does not return for the header of two back edges: each of its loops is the parent
  of another one of them, and the loop that follows the parents never ends.\<close>

theorem loop_depth_diverges:
  assumes "wf_func f" "blocks f \<noteq> []" "cfg_compute f = Some c" "dom_compute f c = Some dt"
    and "2 \<le> length (latches f h)"
  shows "\<exists>li. loop_info_compute f c dt = Some li \<and> loop_depth li h = None"
proof -
  obtain li where li: "loop_info_compute f c dt = Some li" "loops_ok (succ_list f) li"
    "\<forall>h. length (filter (\<lambda>l. loop_header l = h) (li_loops li)) = length (latches f h)"
    using loop_info_compute_ok [OF loop_env_compute [OF assms(1-4)] assms(2)] by blast
  then have "2 \<le> length (filter (\<lambda>l. loop_header l = h) (li_loops li))" using assms(5) by simp
  then obtain i j where "i < length (li_loops li)" "j < length (li_loops li)" "i \<noteq> j"
    "loop_header (li_loops li ! i) = h" "loop_header (li_loops li ! j) = h" by (rule two_of_filter)
  from shared_header_depth [OF li(2) this] show ?thesis using li(1) by blast
qed

section \<open>Examples\<close>

definition nested_loops :: ir_function where
  \<comment> \<open>the loop of block 2 inside the loop of blocks 1 and 2\<close>
  "nested_loops = skeleton [Br 1, Br 2, CondBr (Constant 0) 2 3, CondBr (Constant 0) 1 4, Ret None]"

definition two_latches :: ir_function where
  \<comment> \<open>\<open>continue\<close> in a loop: blocks 1 and 2 both branch back to block 1\<close>
  "two_latches = skeleton [Br 1, CondBr (Constant 0) 1 2, CondBr (Constant 0) 1 3, Ret None]"

lemma nested_loops_wf: "wf_func nested_loops" "blocks nested_loops \<noteq> []"
  unfolding nested_loops_def by (rule skeleton_wf) (auto simp: skeleton_def)

lemma two_latches_wf: "wf_func two_latches" "blocks two_latches \<noteq> []"
  unfolding two_latches_def by (rule skeleton_wf) (auto simp: skeleton_def)

lemma dom_compute_some:
  assumes "wf_func f" "blocks f \<noteq> []"
  shows "\<exists>c dt. cfg_compute f = Some c \<and> dom_compute f c = Some dt"
  using cfg_compute_wf [OF assms] dom_compute_ok [OF assms] by blast

lemma nested_succ:
  "succ_list nested_loops t = (if t = 0 then [1] else if t = 1 then [2] else if t = 2 then [2, 3] else if t = 3 then [1, 4] else [])"
  by (auto simp: nested_loops_def skeleton_succ nth_Cons' less_Suc_eq numeral_nat)

lemma two_latches_succ:
  "succ_list two_latches t = (if t = 0 then [1] else if t = 1 then [1, 2] else if t = 2 then [1, 3] else [])"
  by (auto simp: two_latches_def skeleton_succ nth_Cons' less_Suc_eq numeral_nat)

lemma nested_latches: "length (latches nested_loops h) \<le> 1"
proof -
  let ?sg = "succ_list nested_loops"
  have n: "length (blocks nested_loops) = 5" by (simp add: nested_loops_def)
  have "entry_path ?sg [0]" "entry_path ?sg [1, 0]" by (simp_all add: nested_succ)
  then have d: "\<not> dom_rel ?sg 1 0" "\<not> dom_rel ?sg 2 1" unfolding dom_rel_def by fastforce+
  have p: "pred_list nested_loops h =
      (if h = 1 then [0, 3] else if h = 2 then [1, 2] else if h = 3 then [2] else if h = 4 then [3] else [])"
    by (simp add: pred_list_def n nested_succ upt_rec)
  show ?thesis using d by (simp add: latches_def p back_edge_def)
qed

lemma two_latches_both: "2 \<le> length (latches two_latches 1)"
proof -
  let ?sg = "succ_list two_latches"
  have n: "length (blocks two_latches) = 4" by (simp add: two_latches_def)
  have p: "pred_list two_latches 1 = [0, 1, 2]" by (simp add: pred_list_def n two_latches_succ upt_rec)
  have r: "reach ?sg 1" by (rule reach_step [OF reach_entry]) (simp add: two_latches_succ)
  then have r2: "reach ?sg 2" by (rule reach_step) (simp add: two_latches_succ)
  have "dom_rel ?sg 1 2" by (rule dom_rel_preds) (auto simp: two_latches_succ dom_rel_refl split: if_splits)
  then have "back_edge ?sg 2 1" "back_edge ?sg 1 1" using r r2 dom_rel_refl by (simp_all add: back_edge_def two_latches_succ)
  then show ?thesis unfolding latches_def p by simp
qed

theorem loop_info_correct_witness:
  "\<exists>c dt li. cfg_compute nested_loops = Some c \<and> dom_compute nested_loops c = Some dt \<and> loop_info_compute nested_loops c dt = Some li"
proof -
  obtain c dt where r: "cfg_compute nested_loops = Some c" "dom_compute nested_loops c = Some dt"
    using dom_compute_some [OF nested_loops_wf] by blast
  show ?thesis using loop_info_correct [OF nested_loops_wf r] r by (elim exE conjE) (intro exI conjI)
qed

theorem loop_depth_counts_loops_witness:
  "\<exists>c dt li. cfg_compute nested_loops = Some c \<and> dom_compute nested_loops c = Some dt \<and>
     loop_info_compute nested_loops c dt = Some li \<and>
     loop_depth li 2 = Some (length (filter (\<lambda>l. 2 \<in> set (loop_body l)) (li_loops li)))"
proof -
  have "reach (succ_list nested_loops) 1" by (rule reach_step [OF reach_entry]) (simp add: nested_succ)
  then have r2: "reach (succ_list nested_loops) 2" by (rule reach_step) (simp add: nested_succ)
  obtain c dt where r: "cfg_compute nested_loops = Some c" "dom_compute nested_loops c = Some dt"
    using dom_compute_some [OF nested_loops_wf] by blast
  have "\<forall>h. length (latches nested_loops h) \<le> 1" using nested_latches by blast
  from loop_depth_counts_loops [OF nested_loops_wf r this r2] show ?thesis using r by blast
qed

theorem loop_depth_diverges_witness:
  "\<exists>c dt li. cfg_compute two_latches = Some c \<and> dom_compute two_latches c = Some dt \<and>
     loop_info_compute two_latches c dt = Some li \<and> loop_depth li 1 = None"
proof -
  obtain c dt where r: "cfg_compute two_latches = Some c" "dom_compute two_latches c = Some dt"
    using dom_compute_some [OF two_latches_wf] by blast
  from loop_depth_diverges [OF two_latches_wf r two_latches_both] show ?thesis using r by blast
qed

end
