(* ===== verification/LLVM_Bitstream.thy ===== *)
theory LLVM_Bitstream
  imports LRIR_Codec
begin

unbundle bit_operations_syntax

text \<open>
  The bitstream layer of the LLVM bitcode reader (\<open>llvm-bitcode/src/bitstream.rs\<close>): fields of bits,
  variable bit-rate integers, blocks, abbreviations and records. A reader takes the state; it returns
  a value or an error together with the state it leaves, or it panics (a shift by 64 or more, a width of
  0). The positions are numbers without bound: no file has \<open>2 ^ 61\<close> bytes. The capacity reserved for a
  counted vector and the texts of errors are left out.
\<close>

section \<open>State\<close>

datatype abbrev_op =
    AbLiteral "64 word"
  | AbFixed nat
  | AbVbr nat
  | AbArray
  | AbChar6
  | AbBlob

type_synonym abbrev = "abbrev_op list"

record block_state =
  bl_abbrev_len :: nat
  bl_end_word :: nat

record bit_reader =
  bs_data :: "byte list"
  bs_pos :: nat
  bs_abbrev_len :: nat
  bs_blocks :: "block_state list"  \<comment> \<open>the top of the stack is the head of the list\<close>
  bs_abbrevs :: "abbrev list"

type_synonym 'a bit_read = "bit_reader \<Rightarrow> ((bc_error + 'a) \<times> bit_reader) rust"

definition br_ret :: "'a \<Rightarrow> 'a bit_read" where
  "br_ret x s = Some (Inr x, s)"

definition br_fail :: "bc_error \<Rightarrow> 'a bit_read" where
  "br_fail e s = Some (Inl e, s)"

definition br_bind :: "'a bit_read \<Rightarrow> ('a \<Rightarrow> 'b bit_read) \<Rightarrow> 'b bit_read" where
  \<comment> \<open>the \<open>?\<close> operator\<close>
  "br_bind r f s =
     (case r s of
        None \<Rightarrow> None
      | Some (Inl e, s') \<Rightarrow> Some (Inl e, s')
      | Some (Inr x, s') \<Rightarrow> f x s')"

definition br_seq :: "'a bit_read \<Rightarrow> 'b bit_read \<Rightarrow> 'b bit_read" where
  "br_seq r r' = br_bind r (\<lambda>_. r')"

definition br_map :: "('a \<Rightarrow> 'b) \<Rightarrow> 'a bit_read \<Rightarrow> 'b bit_read" where
  "br_map f r = br_bind r (\<lambda>x. br_ret (f x))"

primrec br_repeat :: "nat \<Rightarrow> 'a bit_read \<Rightarrow> 'a list bit_read" where
  \<comment> \<open>\<open>for _ in 0..n\<close> pushing to a vector\<close>
  "br_repeat 0 r = br_ret []"
| "br_repeat (Suc n) r = br_bind r (\<lambda>x. br_bind (br_repeat n r) (\<lambda>xs. br_ret (x # xs)))"

definition reader_new :: "byte list \<Rightarrow> bit_reader" where
  "reader_new data = \<lparr>bs_data = data, bs_pos = 0, bs_abbrev_len = 2, bs_blocks = [], bs_abbrevs = []\<rparr>"

section \<open>Bits\<close>

function read_bits_loop :: "nat \<Rightarrow> nat \<Rightarrow> 64 word \<Rightarrow> 64 word bit_read" where
  "read_bits_loop n bits_read result s =
     (if n \<le> bits_read then Some (Inr result, s)
      else
        let byte_idx = bs_pos s div 8
        in if length (bs_data s) \<le> byte_idx then Some (Inl UnexpectedEof, s)
           else
             let bit_in_byte = bs_pos s mod 8;
                 take = min (n - bits_read) (8 - bit_in_byte);
                 mask = push_bit take 1 - 1;
                 bits = drop_bit bit_in_byte (ucast (bs_data s ! byte_idx)) AND mask
             in if 64 \<le> bits_read then None
                else read_bits_loop n (bits_read + take) (result OR push_bit bits_read bits)
                       (s\<lparr>bs_pos := bs_pos s + take\<rparr>))"
  by pat_completeness auto

termination
  by (relation "measure (\<lambda>(n, bits_read, _, _). n - bits_read)") auto

declare read_bits_loop.simps [simp del]

definition read_bits :: "nat \<Rightarrow> 64 word bit_read" where
  "read_bits n = (if n = 0 then br_ret 0 else read_bits_loop n 0 0)"

definition field_part :: "bit_reader \<Rightarrow> nat \<Rightarrow> 64 word" where
  \<comment> \<open>the next \<open>t\<close> bits of the current byte\<close>
  "field_part s t = drop_bit (bs_pos s mod 8) (ucast (bs_data s ! (bs_pos s div 8))) AND (push_bit t 1 - 1)"

lemma read_bits_loop_done: "n \<le> k \<Longrightarrow> read_bits_loop n k res s = Some (Inr res, s)"
  by (simp add: read_bits_loop.simps)

lemma read_bits_loop_eof:
  "k < n \<Longrightarrow> length (bs_data s) \<le> bs_pos s div 8 \<Longrightarrow> read_bits_loop n k res s = Some (Inl UnexpectedEof, s)"
  by (simp add: read_bits_loop.simps)

lemma read_bits_loop_over: "k < n \<Longrightarrow> bs_pos s div 8 < length (bs_data s) \<Longrightarrow> 64 \<le> k \<Longrightarrow> read_bits_loop n k res s = None"
  by (simp add: read_bits_loop.simps Let_def)

lemma read_bits_loop_step:
  assumes "k < n" "bs_pos s div 8 < length (bs_data s)" "k < 64"
  obtains t where "0 < t" "t \<le> n - k" "t \<le> 8 - bs_pos s mod 8" "bs_pos s + t \<le> 8 * length (bs_data s)"
    "t = n - k \<or> t = 8 - bs_pos s mod 8"
    "read_bits_loop n k res s =
       read_bits_loop n (k + t) (res OR push_bit k (field_part s t)) (s\<lparr>bs_pos := bs_pos s + t\<rparr>)"
proof
  let ?t = "min (n - k) (8 - bs_pos s mod 8)"
  have "bs_pos s = 8 * (bs_pos s div 8) + bs_pos s mod 8" "Suc (bs_pos s div 8) \<le> length (bs_data s)"
    using assms(2) by simp_all
  then show "bs_pos s + ?t \<le> 8 * length (bs_data s)" by linarith
  show "read_bits_loop n k res s =
      read_bits_loop n (k + ?t) (res OR push_bit k (field_part s ?t)) (s\<lparr>bs_pos := bs_pos s + ?t\<rparr>)"
    using assms by (subst read_bits_loop.simps) (simp add: Let_def field_part_def)
qed (use assms(1) in auto)

lemma read_bits_loop_pos:
  "read_bits_loop n k res s = Some (Inr x, s') \<Longrightarrow>
     bs_pos s' = bs_pos s + (n - k) \<and> bs_data s' = bs_data s \<and> (k < n \<longrightarrow> bs_pos s' \<le> 8 * length (bs_data s))"
proof (induction "n - k" arbitrary: k res s rule: less_induct)
  case less
  consider "n \<le> k" | "k < n" "length (bs_data s) \<le> bs_pos s div 8" | "k < n" "bs_pos s div 8 < length (bs_data s)" "64 \<le> k"
    | "k < n" "bs_pos s div 8 < length (bs_data s)" "k < 64" by linarith
  then show ?case
  proof cases
    case 4
    then obtain t where t: "0 < t" "t \<le> n - k" "bs_pos s + t \<le> 8 * length (bs_data s)"
      "read_bits_loop n k res s = read_bits_loop n (k + t) (res OR push_bit k (field_part s t)) (s\<lparr>bs_pos := bs_pos s + t\<rparr>)"
      by (rule read_bits_loop_step)
    have "n - (k + t) < n - k" using t(1) 4(1) by simp
    from less.hyps [OF this less.prems [unfolded t(4)]] show ?thesis using t(2,3) 4(1)
      by (cases "k + t < n") (use less.prems [unfolded t(4)] in \<open>auto simp: read_bits_loop_done\<close>)
  qed (use less.prems in \<open>simp_all add: read_bits_loop_done read_bits_loop_eof read_bits_loop_over\<close>)
qed

lemma read_bits_pos:
  assumes "read_bits n s = Some (Inr x, s')"
  shows "bs_pos s' = bs_pos s + n" "bs_data s' = bs_data s" "0 < n \<Longrightarrow> bs_pos s' \<le> 8 * length (bs_data s)"
  using assms read_bits_loop_pos [of n 0 0 s x s'] by (auto simp: read_bits_def br_ret_def split: if_splits)

function read_vbr_loop :: "nat \<Rightarrow> nat \<Rightarrow> 64 word \<Rightarrow> 64 word bit_read" where
  "read_vbr_loop width shift result s =
     (if width = 0 then None else
      case read_bits width s of
        None \<Rightarrow> None
      | Some (Inl e, s') \<Rightarrow> Some (Inl e, s')
      | Some (Inr grp, s') \<Rightarrow>
          let low_bits = width - 1; high_bit = push_bit low_bits 1 :: 64 word; payload_mask = high_bit - 1
          in if 64 \<le> shift then None
             else let result = result OR push_bit shift (grp AND payload_mask)
                  in if grp AND high_bit = 0 then Some (Inr result, s')
                     else read_vbr_loop width (shift + low_bits) result s')"
  by pat_completeness auto

termination
proof (relation "measure (\<lambda>(_, _, _, s). 8 * length (bs_data s) - bs_pos s)", goal_cases)
  case (2 width shift result s y a s' grp)
  then have "read_bits width s = Some (Inr grp, s')" by simp
  from read_bits_pos [OF this] 2(1) show ?case by simp
qed simp

declare read_vbr_loop.simps [simp del]

definition read_vbr :: "nat \<Rightarrow> 64 word bit_read" where
  "read_vbr width s =
     (if width = 0 then None  \<comment> \<open>\<open>width - 1\<close> underflows\<close>
      else if 64 \<le> width - 1 then None  \<comment> \<open>\<open>1u64 << low_bits\<close> overflows\<close>
      else read_vbr_loop width 0 0 s)"

definition align_32 :: "bit_reader \<Rightarrow> bit_reader" where
  "align_32 s = (let rem = bs_pos s mod 32 in if rem \<noteq> 0 then s\<lparr>bs_pos := bs_pos s + (32 - rem)\<rparr> else s)"

definition br_align :: "unit bit_read" where
  "br_align s = Some (Inr (), align_32 s)"

definition bs_at_end :: "bit_reader \<Rightarrow> bool" where
  "bs_at_end s \<longleftrightarrow> length (bs_data s) * 8 \<le> bs_pos s"

section \<open>Blocks\<close>

definition push_block :: "64 word \<Rightarrow> 64 word \<Rightarrow> nat bit_read" where
  "push_block new_abbrev_len block_words s =
     (let end_bit = bs_pos s + unat block_words * 32;
          end_word = min end_bit (length (bs_data s) * 8)
      in Some (Inr (unat new_abbrev_len),
           s\<lparr>bs_blocks := \<lparr>bl_abbrev_len = bs_abbrev_len s, bl_end_word = end_word\<rparr> # bs_blocks s,
             bs_abbrev_len := unat new_abbrev_len, bs_abbrevs := []\<rparr>))"

definition enter_block :: "(64 word \<times> nat) bit_read" where
  "enter_block =
     br_bind (read_vbr 8) (\<lambda>block_id.
     br_bind (read_vbr 4) (\<lambda>new_abbrev_len.
     br_seq br_align (
     br_bind (read_bits 32) (\<lambda>block_words.
     br_map (Pair block_id) (push_block new_abbrev_len block_words)))))"

definition end_block :: "unit bit_read" where
  "end_block s0 =
     (let s = align_32 s0
      in case bs_blocks s of
           [] \<Rightarrow> Some (Inl ParseError, s)
         | st # stack \<Rightarrow>
             Some (Inr (), s\<lparr>bs_blocks := stack, bs_abbrev_len := bl_abbrev_len st, bs_abbrevs := []\<rparr>))"

definition bs_skip_block :: "unit bit_read" where
  "bs_skip_block s =
     (case bs_blocks s of
        [] \<Rightarrow> Some (Inr (), s)
      | st # stack \<Rightarrow> Some (Inr (), s\<lparr>bs_pos := bl_end_word st, bs_blocks := stack, bs_abbrevs := []\<rparr>))"

section \<open>Abbreviations\<close>

definition read_abbrev_op :: "abbrev_op bit_read" where
  "read_abbrev_op =
     br_bind (read_bits 1) (\<lambda>is_literal.
       if is_literal \<noteq> 0 then br_map AbLiteral (read_vbr 8)
       else br_bind (read_bits 3) (\<lambda>kind.
         if kind = 1 then br_map (\<lambda>w. AbFixed (unat w)) (read_vbr 5)
         else if kind = 2 then br_map (\<lambda>w. AbVbr (unat w)) (read_vbr 5)
         else if kind = 3 then br_ret AbArray
         else if kind = 4 then br_ret AbChar6
         else if kind = 5 then br_ret AbBlob
         else br_fail ParseError))"

definition push_abbrev :: "abbrev \<Rightarrow> unit bit_read" where
  "push_abbrev ops s = Some (Inr (), s\<lparr>bs_abbrevs := bs_abbrevs s @ [ops]\<rparr>)"

definition define_abbrev :: "unit bit_read" where
  "define_abbrev =
     br_bind (read_vbr 5) (\<lambda>num_ops. br_bind (br_repeat (unat num_ops) read_abbrev_op) push_abbrev)"

section \<open>Records\<close>

definition char6_to_ascii :: "byte \<Rightarrow> (bc_error + byte)" where
  "char6_to_ascii c =
     (if c \<le> 25 then Inr (97 + c)
      else if c \<le> 51 then Inr (65 + (c - 26))
      else if c \<le> 61 then Inr (48 + (c - 52))
      else if c = 62 then Inr 46
      else if c = 63 then Inr 95
      else Inl ParseError)"

definition read_char6 :: "64 word bit_read" where
  "read_char6 =
     br_bind (read_bits 6) (\<lambda>c. case char6_to_ascii (ucast c) of Inl e \<Rightarrow> br_fail e | Inr b \<Rightarrow> br_ret (ucast b))"

definition read_blob :: "64 word list bit_read" where
  "read_blob =
     br_bind (read_vbr 6) (\<lambda>byte_len.
     br_seq br_align (
     br_bind (br_repeat (unat byte_len) (read_bits 8)) (\<lambda>bytes.
     br_seq br_align (br_ret bytes))))"

function read_abbrev_loop :: "abbrev_op list \<Rightarrow> 64 word list \<Rightarrow> 64 word list bit_read" where
  \<comment> \<open>the loop over the operands, with the fields read so far\<close>
  "read_abbrev_loop [] flds = br_ret flds"
| "read_abbrev_loop (AbLiteral v # ops) flds = read_abbrev_loop ops (flds @ [v])"
| "read_abbrev_loop (AbFixed w # ops) flds =
     br_bind (read_bits w) (\<lambda>x. read_abbrev_loop ops (flds @ [x]))"
| "read_abbrev_loop (AbVbr w # ops) flds =
     br_bind (read_vbr w) (\<lambda>x. read_abbrev_loop ops (flds @ [x]))"
| "read_abbrev_loop [AbArray] flds = br_fail ParseError"
| "read_abbrev_loop (AbArray # elem_op # ops) flds =
     br_bind (read_vbr 6) (\<lambda>count.
     br_bind (br_repeat (unat count) (read_abbrev_loop [elem_op] [])) (\<lambda>vs.
     read_abbrev_loop ops (flds @ concat vs)))"
| "read_abbrev_loop (AbChar6 # ops) flds =
     br_bind read_char6 (\<lambda>x. read_abbrev_loop ops (flds @ [x]))"
| "read_abbrev_loop (AbBlob # ops) flds =
     br_bind read_blob (\<lambda>bytes. read_abbrev_loop ops (flds @ bytes))"
  by pat_completeness auto

termination
  by (relation "measure (\<lambda>(ops, _). length ops)") auto

definition read_abbrev_record :: "abbrev_op list \<Rightarrow> 64 word list bit_read" where
  "read_abbrev_record ops = read_abbrev_loop ops []"

definition read_record_fields :: "64 word \<Rightarrow> abbrev list \<Rightarrow> 64 word list bit_read" where
  "read_record_fields abbrev_id abbrevs =
     (if abbrev_id = 3 then
        br_bind (read_vbr 6) (\<lambda>code.
        br_bind (read_vbr 6) (\<lambda>num_ops.
        br_bind (br_repeat (unat num_ops) (read_vbr 6)) (\<lambda>flds. br_ret (code # flds))))
      else if 4 \<le> abbrev_id then
        (let abbrev_idx = unat (abbrev_id - 4)
         in if abbrev_idx < length abbrevs then read_abbrev_record (abbrevs ! abbrev_idx)
            else br_fail ParseError)
      else br_ret [])"

definition bs_read_record :: "abbrev list \<Rightarrow> (64 word \<times> 64 word list) bit_read" where
  "bs_read_record abbrevs s =
     br_bind (read_bits (bs_abbrev_len s)) (\<lambda>abbrev_id.
     br_bind (read_record_fields abbrev_id abbrevs) (\<lambda>flds. br_ret (abbrev_id, flds))) s"

section \<open>Skipping the contents of a block\<close>

partial_function (option) skip_loop :: "nat \<Rightarrow> unit bit_read" where
  \<comment> \<open>\<open>skip_block_contents\<close> of \<open>llvm_reader.rs\<close>\<close>
  "skip_loop depth s0 =
     (if bs_at_end s0 then Some (Inr (), s0)
      else case read_bits (bs_abbrev_len s0) s0 of
        None \<Rightarrow> None
      | Some (r, s) \<Rightarrow>
          (case r of
             Inl e \<Rightarrow> Some (Inl e, s)
           | Inr abbrev_id \<Rightarrow>
               if abbrev_id = 0 then
                 (case end_block s of
                    None \<Rightarrow> None
                  | Some (r, s) \<Rightarrow>
                      (case r of Inl e \<Rightarrow> Some (Inl e, s)
                       | Inr _ \<Rightarrow> if depth - 1 = 0 then Some (Inr (), s) else skip_loop (depth - 1) s))
               else
                 (case (if abbrev_id = 1 then br_map (\<lambda>_. depth + 1) enter_block
                        else if abbrev_id = 2 then br_map (\<lambda>_. depth) define_abbrev
                        else br_map (\<lambda>_. depth) (read_record_fields abbrev_id (bs_abbrevs s))) s of
                    None \<Rightarrow> None
                  | Some (r, s) \<Rightarrow> (case r of Inl e \<Rightarrow> Some (Inl e, s) | Inr depth' \<Rightarrow> skip_loop depth' s))))"

definition skip_block_contents :: "unit bit_read" where
  "skip_block_contents = skip_loop 1"

end
