(* ===== verification/LLVM_Bitstream_Correct.thy ===== *)
theory LLVM_Bitstream_Correct
  imports LLVM_Bitstream
begin

unbundle bit_operations_syntax

text \<open>
  The reader against the bitstream format of the LLVM documentation: a stream is a sequence of bits, the
  lowest bit of a byte first. The encodings of fields, integers, records, abbreviations and blocks are
  lists of bits; reading one gives back what was written and leaves the reader behind it.
\<close>

section \<open>Fields\<close>

definition stream_bits :: "byte list \<Rightarrow> bool list" where
  "stream_bits data = map (\<lambda>p. bit (data ! (p div 8)) (p mod 8)) [0..<8 * length data]"

definition ahead :: "bit_reader \<Rightarrow> bool list" where
  "ahead s = drop (bs_pos s) (stream_bits (bs_data s))"

definition of_bits :: "bool list \<Rightarrow> 64 word" where
  "of_bits bs = horner_sum of_bool 2 bs"

definition lsb_bits :: "nat \<Rightarrow> nat \<Rightarrow> bool list" where
  "lsb_bits n v = map (bit v) [0..<n]"

abbreviation advance :: "nat \<Rightarrow> bit_reader \<Rightarrow> bit_reader" where
  "advance n s \<equiv> s\<lparr>bs_pos := bs_pos s + n\<rparr>"

lemma length_lsb_bits [simp]: "length (lsb_bits n v) = n"
  by (simp add: lsb_bits_def)

lemma bit_of_bits: "bit (of_bits bs) i \<longleftrightarrow> i < 64 \<and> i < length bs \<and> bs ! i"
  by (auto simp: of_bits_def bit_horner_sum_bit_word_iff)

lemma bit_of_nat64: "bit (of_nat v :: 64 word) i \<longleftrightarrow> i < 64 \<and> bit v i"
  by (simp add: bit_simps)

lemma of_lsb_bits: "v < 2 ^ n \<Longrightarrow> of_bits (lsb_bits n v) = of_nat v"
proof (rule bit_eqI)
  fix i assume v: "v < 2 ^ n"
  have "bit v i \<Longrightarrow> i < n" using v by (metis bit_take_bit_iff take_bit_nat_eq_self)
  then show "bit (of_bits (lsb_bits n v)) i \<longleftrightarrow> bit (of_nat v :: 64 word) i"
    by (auto simp: bit_of_bits lsb_bits_def bit_of_nat64)
qed

lemma ahead_advance: "ahead s = bs @ rest \<Longrightarrow> ahead (advance (length bs) s) = rest"
  using drop_drop [of "length bs" "bs_pos s" "stream_bits (bs_data s)"] by (simp add: ahead_def add.commute)

lemma ahead_nth:
  assumes "ahead s = bs" "i < length bs"
  shows "bs ! i = bit (bs_data s ! ((bs_pos s + i) div 8)) ((bs_pos s + i) mod 8)"
    and "bs_pos s + i < 8 * length (bs_data s)"
  using assms by (auto simp: ahead_def stream_bits_def)

lemma field_part_bit:
  "t \<le> 8 \<Longrightarrow> bit (field_part s t) i \<longleftrightarrow> i < t \<and> bit (bs_data s ! (bs_pos s div 8)) (bs_pos s mod 8 + i)"
proof -
  have "push_bit t 1 - 1 = (mask t :: 64 word)" by (simp add: mask_eq_exp_minus_1 push_bit_eq_mult)
  moreover assume "t \<le> 8"
  moreover have "bit (bs_data s ! (bs_pos s div 8)) j \<Longrightarrow> j < 8" for j
    using bit_imp_le_length [of "bs_data s ! (bs_pos s div 8)" j] by simp
  ultimately show ?thesis by (auto simp: field_part_def bit_simps)
qed

lemma field_part_bits:
  assumes "ahead s = bs" "t \<le> length bs" "t \<le> 8 - bs_pos s mod 8"
  shows "bit (field_part s t) i \<longleftrightarrow> i < t \<and> bs ! i"
proof (cases "i < t")
  case True
  have "(bs_pos s + i) div 8 = bs_pos s div 8" "(bs_pos s + i) mod 8 = bs_pos s mod 8 + i"
  proof -
    obtain q r where "bs_pos s = 8 * q + r" "r < 8" by (metis mult_div_mod_eq mod_less_divisor zero_less_numeral)
    then show "(bs_pos s + i) div 8 = bs_pos s div 8" "(bs_pos s + i) mod 8 = bs_pos s mod 8 + i"
      using True assms(3) by (simp_all add: add.assoc)
  qed
  then show ?thesis
    using ahead_nth(1) [OF assms(1), of i] True assms(2,3) by (simp add: field_part_bit)
qed (use assms(3) in \<open>simp add: field_part_bit\<close>)

lemma read_bits_loop_ok:
  assumes "length bs = n" "n \<le> 64"
  shows "ahead s = drop k bs @ rest \<Longrightarrow> k \<le> n \<Longrightarrow> res = of_bits (take k bs) \<Longrightarrow>
    read_bits_loop n k res s = Some (Inr (of_bits bs), advance (n - k) s)"
proof (induction "n - k" arbitrary: k res s rule: less_induct)
  case less
  show ?case
  proof (cases "k = n")
    case False
    have k: "k < n" "k < 64" using False less.prems(2) assms by simp_all
    have "bs_pos s < 8 * length (bs_data s)"
      using ahead_nth(2) [OF less.prems(1), of 0] k assms(1) by simp
    then have "bs_pos s div 8 < length (bs_data s)" by simp
    then obtain t where t: "0 < t" "t \<le> n - k" "t \<le> 8 - bs_pos s mod 8"
      "read_bits_loop n k res s = read_bits_loop n (k + t) (res OR push_bit k (field_part s t)) (advance t s)"
      by (rule read_bits_loop_step [OF k(1) _ k(2)])
    have part: "bit (field_part s t) i \<longleftrightarrow> i < t \<and> bs ! (k + i)" for i
      using field_part_bits [OF less.prems(1), of t i] t(2,3) assms(1) by (auto simp: nth_append)
    have "ahead (advance t s) = drop (k + t) bs @ rest"
    proof -
      have "drop k bs = take t (drop k bs) @ drop (k + t) bs" by (metis add.commute append_take_drop_id drop_drop)
      then have "ahead s = take t (drop k bs) @ drop (k + t) bs @ rest" using less.prems(1) by simp
      moreover have "length (take t (drop k bs)) = t" using t(2) assms(1) by simp
      ultimately show ?thesis using ahead_advance by metis
    qed
    moreover have "res OR push_bit k (field_part s t) = of_bits (take (k + t) bs)"
    proof (rule bit_eqI)
      fix i
      show "bit (res OR push_bit k (field_part s t)) i \<longleftrightarrow> bit (of_bits (take (k + t) bs)) i" if "possible_bit TYPE(64 word) i"
        using that less.prems(2) t(2) assms by (cases "i < k") (auto simp: less.prems(3) bit_simps bit_of_bits part)
    qed
    ultimately show ?thesis
      using less.hyps [of "k + t" "advance t s"] t k(1) by (simp add: add.assoc)
  qed (use less.prems assms in \<open>simp add: read_bits_loop_done\<close>)
qed

lemma read_bits_ok:
  assumes "ahead s = bs @ rest" "length bs = n" "n \<le> 64"
  shows "read_bits n s = Some (Inr (of_bits bs), advance n s)"
  using read_bits_loop_ok [of bs n s 0 rest 0] assms by (auto simp: read_bits_def br_ret_def of_bits_def)

lemma read_lsb_bits:
  assumes "ahead s = lsb_bits n v @ rest" "n \<le> 64" "v < 2 ^ n"
  shows "read_bits n s = Some (Inr (of_nat v), advance n s)"
  using read_bits_ok [OF assms(1) _ assms(2)] of_lsb_bits [OF assms(3)] by simp

lemma length_ahead: "length (ahead s) = 8 * length (bs_data s) - bs_pos s"
  by (simp add: ahead_def stream_bits_def)

lemma read_bits_loop_short:
  "length (ahead s) < n - k \<Longrightarrow> n \<le> 64 \<Longrightarrow> \<exists>s'. read_bits_loop n k res s = Some (Inl UnexpectedEof, s')"
proof (induction "n - k" arbitrary: k res s rule: less_induct)
  case less
  have k: "k < n" "k < 64" using less.prems by simp_all
  show ?case
  proof (cases "length (bs_data s) \<le> bs_pos s div 8")
    case False
    then obtain t where t: "0 < t" "t \<le> n - k" "bs_pos s + t \<le> 8 * length (bs_data s)"
      "read_bits_loop n k res s = read_bits_loop n (k + t) (res OR push_bit k (field_part s t)) (advance t s)"
      using read_bits_loop_step [OF k(1) _ k(2)] by (metis not_le)
    have "n - (k + t) < n - k" "length (ahead (advance t s)) < n - (k + t)"
      using t(1,3) k(1) less.prems(1) by (simp_all add: length_ahead)
    from less.hyps [OF this less.prems(2)] show ?thesis unfolding t(4) .
  qed (use k in \<open>simp add: read_bits_loop_eof\<close>)
qed

lemma read_bits_short:
  assumes "length (ahead s) < n" "n \<le> 64"
  shows "\<exists>s'. read_bits n s = Some (Inl UnexpectedEof, s')"
  using read_bits_loop_short [of s n 0] assms by (auto simp: read_bits_def)

section \<open>Variable bit-rate integers\<close>

function vbr_bits :: "nat \<Rightarrow> nat \<Rightarrow> bool list" where
  \<comment> \<open>chunks of \<open>w - 1\<close> bits from the lowest on; the last bit of a chunk says whether another one follows\<close>
  "vbr_bits w v =
     (if w < 2 \<or> v < 2 ^ (w - 1) then lsb_bits (w - 1) v @ [False]
      else lsb_bits (w - 1) v @ [True] @ vbr_bits w (v div 2 ^ (w - 1)))"
  by pat_completeness auto

termination
proof (relation "measure (\<lambda>(w, v). v)", goal_cases)
  case (2 w v)
  then have "1 \<le> w - 1" by linarith
  then have "(2 :: nat) ^ 1 \<le> 2 ^ (w - 1)" by (rule power_increasing) simp
  moreover have "0 < v" using 2 by (cases "v = 0") auto
  ultimately show ?case by simp
qed simp

declare vbr_bits.simps [simp del]

lemma read_chunk:
  assumes "ahead s = (lsb_bits k v @ [c]) @ rest" "k < 64"
  shows "\<exists>g. read_bits (Suc k) s = Some (Inr g, advance (Suc k) s) \<and>
    g AND (push_bit k 1 - 1) = take_bit k (of_nat v) \<and> (g AND push_bit k 1 = 0 \<longleftrightarrow> \<not> c)"
proof (intro exI conjI)
  let ?g = "of_bits (lsb_bits k v @ [c])"
  show "read_bits (Suc k) s = Some (Inr ?g, advance (Suc k) s)" by (rule read_bits_ok [OF assms(1)]) (use assms(2) in simp_all)
  have g: "bit ?g i \<longleftrightarrow> i \<le> k \<and> (if i < k then bit v i else c)" if "i < 64" for i
    using that by (auto simp: bit_of_bits nth_append lsb_bits_def less_Suc_eq)
  have m: "push_bit k 1 - 1 = (mask k :: 64 word)" by (simp add: mask_eq_exp_minus_1 push_bit_eq_mult)
  show "?g AND (push_bit k 1 - 1) = take_bit k (of_nat v)"
    unfolding m by (rule bit_eqI) (auto simp: bit_simps g)
  have "(?g AND push_bit k 1 = 0) \<longleftrightarrow> \<not> bit ?g k"
  proof
    assume "?g AND push_bit k 1 = 0"
    then have "\<not> bit (?g AND push_bit k 1) k" by simp
    then show "\<not> bit ?g k" using assms(2) by (simp add: bit_simps)
  next
    assume "\<not> bit ?g k"
    then show "?g AND push_bit k 1 = 0" by (intro bit_eqI) (auto simp: bit_simps)
  qed
  then show "(?g AND push_bit k 1 = 0) \<longleftrightarrow> \<not> c" using g [OF assms(2)] by simp
qed

lemma read_vbr_loop_ok:
  assumes "2 \<le> w" "w \<le> 64"
  shows "ahead s = vbr_bits w v @ rest \<Longrightarrow> v * 2 ^ shift < 2 ^ 64 \<Longrightarrow> shift < 64 \<Longrightarrow>
    read_vbr_loop w shift res s = Some (Inr (res OR push_bit shift (of_nat v)), advance (length (vbr_bits w v)) s)"
proof (induction v arbitrary: shift res s rule: less_induct)
  case (less v)
  let ?k = "w - 1"
  have w: "Suc ?k = w" "?k < 64" "w \<noteq> 0" using assms by simp_all
  show ?case
  proof (cases "v < 2 ^ ?k")
    case True
    then have bits: "vbr_bits w v = lsb_bits ?k v @ [False]" by (simp add: vbr_bits.simps)
    have v: "take_bit ?k (of_nat v) = (of_nat v :: 64 word)"
      using True by (simp add: take_bit_of_nat take_bit_nat_eq_self)
    obtain g where g: "read_bits w s = Some (Inr g, advance w s)" "g AND (push_bit ?k 1 - 1) = of_nat v" "g AND push_bit ?k 1 = 0"
      using read_chunk [of s ?k v False rest] less.prems(1) w(1,2) bits v by auto
    then show ?thesis using less.prems(3) bits w(3) by (subst read_vbr_loop.simps) (simp add: Let_def w(1) del: push_bit_and)
  next
    case False
    let ?v = "v div 2 ^ ?k"
    have bits: "vbr_bits w v = lsb_bits ?k v @ [True] @ vbr_bits w ?v"
      using False assms(1) by (subst vbr_bits.simps) simp
    obtain g where g: "read_bits w s = Some (Inr g, advance w s)" "g AND (push_bit ?k 1 - 1) = take_bit ?k (of_nat v)"
      "g AND push_bit ?k 1 \<noteq> 0"
      using read_chunk [of s ?k v True "vbr_bits w ?v @ rest"] less.prems(1) w(1,2) bits by auto
    have two: "2 \<le> (2 :: nat) ^ ?k" using power_increasing [of 1 ?k "2 :: nat"] assms(1) by simp
    have "ahead (advance w s) = vbr_bits w ?v @ rest"
      using ahead_advance [of s "lsb_bits ?k v @ [True]" "vbr_bits w ?v @ rest"] less.prems(1) bits w(1) by simp
    moreover have "?v < v" using False two by simp
    moreover have "?v * 2 ^ (shift + ?k) \<le> v * 2 ^ shift"
      by (simp add: power_add mult.commute [of "2 ^ shift"])
    moreover then have "?v * 2 ^ (shift + ?k) < 2 ^ 64" using less.prems(2) by simp
    moreover have "shift + ?k < 64"
    proof (rule ccontr)
      assume "\<not> ?thesis"
      then have "(2 :: nat) ^ 64 \<le> 2 ^ (shift + ?k)" by (intro power_increasing) simp_all
      moreover have "1 \<le> ?v" using False by (simp add: div_greater_zero_iff Suc_leI)
      ultimately have "2 ^ 64 \<le> ?v * 2 ^ (shift + ?k)" using mult_le_mono [of 1 ?v "2 ^ 64"] by simp
      then show False using \<open>?v * 2 ^ (shift + ?k) < 2 ^ 64\<close> by simp
    qed
    ultimately have IH: "read_vbr_loop w (shift + ?k) r (advance w s) =
        Some (Inr (r OR push_bit (shift + ?k) (of_nat ?v)), advance (length (vbr_bits w ?v)) (advance w s))" for r
      by (intro less.IH)
    have "push_bit shift (take_bit ?k (of_nat v)) OR push_bit (shift + ?k) (of_nat ?v) = (push_bit shift (of_nat v) :: 64 word)"
    proof (rule bit_eqI)
      fix i
      show "bit (push_bit shift (take_bit ?k (of_nat v)) OR push_bit (shift + ?k) (of_nat ?v) :: 64 word) i \<longleftrightarrow>
          bit (push_bit shift (of_nat v) :: 64 word) i"
        by (cases "i < shift + ?k") (auto simp: bit_simps drop_bit_eq_div [symmetric])
    qed
    then show ?thesis
      using g IH less.prems(3) w(3) bits
      by (subst read_vbr_loop.simps) (simp add: Let_def or.assoc add.assoc w(1) del: push_bit_and)
  qed
qed

lemma read_vbr_ok:
  assumes "ahead s = vbr_bits w v @ rest" "2 \<le> w" "w \<le> 64" "v < 2 ^ 64"
  shows "read_vbr w s = Some (Inr (of_nat v), advance (length (vbr_bits w v)) s)"
  using read_vbr_loop_ok [OF assms(2,3,1), of 0] assms by (simp add: read_vbr_def)

section \<open>Errors of the reader\<close>

lemma read_vbr_zero: "read_vbr 0 s = None"
  by (simp add: read_vbr_def)

section \<open>Characters\<close>

definition char6_alphabet :: "byte list" where
  \<comment> \<open>\<open>a-zA-Z0-9._\<close>\<close>
  "char6_alphabet = map of_nat ([97..<123] @ [65..<91] @ [48..<58] @ [46, 95])"

lemma char6_alphabet_ok:
  assumes "c < 64"
  shows "char6_to_ascii (of_nat c) = Inr (char6_alphabet ! c)"
proof -
  have u: "unat (of_nat c :: byte) = c" using assms by (simp add: unat_of_nat take_bit_nat_eq_self)
  have le: "((of_nat c :: byte) \<le> 25) = (c \<le> 25)" "((of_nat c :: byte) \<le> 51) = (c \<le> 51)" "((of_nat c :: byte) \<le> 61) = (c \<le> 61)"
    "((of_nat c :: byte) = 62) = (c = 62)" "((of_nat c :: byte) = 63) = (c = 63)"
    by (simp_all add: word_le_nat_alt word_unat_eq_iff u)
  consider "c \<le> 25" | "25 < c" "c \<le> 51" "c - 26 < 26" | "51 < c" "c \<le> 61" "\<not> c - 26 < 26" "c - 52 < 10" | "c = 62" | "c = 63" using assms by linarith
  then show ?thesis
    by cases (simp_all add: char6_to_ascii_def char6_alphabet_def le nth_append of_nat_diff del: upt_rec_numeral)
qed

lemma read_char6_ok:
  assumes "ahead s = lsb_bits 6 c @ rest" "c < 64"
  shows "read_char6 s = Some (Inr (ucast (char6_alphabet ! c)), advance 6 s)"
proof -
  have "ucast (of_nat c :: 64 word) = (of_nat c :: byte)"
    using assms(2) by (simp add: unsigned_of_nat take_bit_nat_eq_self)
  moreover have "read_bits 6 s = Some (Inr (of_nat c), advance 6 s)" by (rule read_lsb_bits [OF assms(1)]) (use assms(2) in simp_all)
  ultimately show ?thesis
    by (simp add: read_char6_def br_bind_def br_ret_def char6_alphabet_ok [OF assms(2)])
qed

section \<open>Records\<close>

lemma br_bind_ok: "r s = Some (Inr x, s') \<Longrightarrow> br_bind r f s = f x s'"
  by (simp add: br_bind_def)

lemma br_map_ok: "r s = Some (Inr x, s') \<Longrightarrow> br_map f r s = Some (Inr (f x), s')"
  by (simp add: br_map_def br_bind_def br_ret_def)

lemma br_seq_ok: "r s = Some (Inr x, s') \<Longrightarrow> br_seq r r' s = r' s'"
  by (simp add: br_seq_def br_bind_def)

definition padding :: "nat \<Rightarrow> bool list" where
  \<comment> \<open>from position \<open>p\<close> to the next multiple of 32\<close>
  "padding p = replicate ((32 - p mod 32) mod 32) False"

lemma br_align_ok: "br_align s = Some (Inr (), advance (length (padding (bs_pos s))) s)"
  by (simp add: br_align_def align_32_def padding_def Let_def)

definition reads_as :: "'a bit_read \<Rightarrow> 'a \<Rightarrow> bool list \<Rightarrow> bool" where
  \<comment> \<open>at any place in a stream where the bits stand, the reader gives the value and moves behind them\<close>
  "reads_as r x bs \<longleftrightarrow> (\<forall>s rest. ahead s = bs @ rest \<longrightarrow> r s = Some (Inr x, advance (length bs) s))"

lemma reads_asD: "reads_as r x bs \<Longrightarrow> ahead s = bs @ rest \<Longrightarrow> r s = Some (Inr x, advance (length bs) s)"
  by (simp add: reads_as_def)

lemma reads_as_bind:
  assumes "reads_as r x bs" "reads_as (f x) y bs'"
  shows "reads_as (br_bind r f) y (bs @ bs')"
  unfolding reads_as_def
proof (intro allI impI)
  fix s rest assume a: "ahead s = (bs @ bs') @ rest"
  have "r s = Some (Inr x, advance (length bs) s)" by (rule reads_asD [OF assms(1)]) (use a in simp)
  moreover have "f x (advance (length bs) s) = Some (Inr y, advance (length bs') (advance (length bs) s))"
    by (rule reads_asD [OF assms(2) ahead_advance]) (use a in simp)
  ultimately show "br_bind r f s = Some (Inr y, advance (length (bs @ bs')) s)" by (simp add: br_bind_def add.assoc)
qed

lemma reads_as_ret: "reads_as (br_ret x) x []"
  by (simp add: reads_as_def br_ret_def)

lemma reads_as_map: "reads_as r x bs \<Longrightarrow> reads_as (br_map f r) (f x) bs"
  unfolding reads_as_def by (auto intro: br_map_ok)

lemma reads_as_repeat: "list_all2 (reads_as r) xs bss \<Longrightarrow> reads_as (br_repeat (length xs) r) xs (concat bss)"
proof (induction rule: list_all2_induct)
  case (Cons x xs bs bss)
  have "reads_as (br_bind (br_repeat (length xs) r) (\<lambda>xs. br_ret (x # xs))) (x # xs) (concat bss @ [])"
    by (rule reads_as_bind [where f = "\<lambda>xs. br_ret (x # xs)", OF Cons.IH reads_as_ret])
  from reads_as_bind [where f = "\<lambda>x. br_bind (br_repeat (length xs) r) (\<lambda>xs. br_ret (x # xs))", OF Cons.hyps(1) this]
  show ?case by simp
qed (simp add: reads_as_ret)

lemma reads_lsb: "n \<le> 64 \<Longrightarrow> v < 2 ^ n \<Longrightarrow> reads_as (read_bits n) (of_nat v) (lsb_bits n v)"
  by (simp add: reads_as_def read_lsb_bits)

lemma reads_vbr: "2 \<le> w \<Longrightarrow> w \<le> 64 \<Longrightarrow> v < 2 ^ 64 \<Longrightarrow> reads_as (read_vbr w) (of_nat v) (vbr_bits w v)"
  by (simp add: reads_as_def read_vbr_ok)

inductive field_bits :: "abbrev_op \<Rightarrow> 64 word \<Rightarrow> bool list \<Rightarrow> bool" where
  literal: "field_bits (AbLiteral v) v []"
| fixed: "w \<le> 64 \<Longrightarrow> unat x < 2 ^ w \<Longrightarrow> field_bits (AbFixed w) x (lsb_bits w (unat x))"
| vbr: "2 \<le> w \<Longrightarrow> w \<le> 64 \<Longrightarrow> field_bits (AbVbr w) x (vbr_bits w (unat x))"
| char6: "c < 64 \<Longrightarrow> field_bits AbChar6 (ucast (char6_alphabet ! c)) (lsb_bits 6 c)"

lemma unat64: "unat (x :: 64 word) < 2 ^ 64"
  using unsigned_less [of x] by simp

lemma read_field:
  assumes "field_bits op x bs" "ahead s = bs @ rest"
  shows "read_abbrev_loop (op # ops) acc s = read_abbrev_loop ops (acc @ [x]) (advance (length bs) s)"
  using assms
proof cases
  case fixed
  then show ?thesis using reads_asD [OF reads_lsb, of _ "unat x" s rest] assms(2) by (simp add: br_bind_def)
next
  case vbr
  then show ?thesis using reads_asD [OF reads_vbr, of _ "unat x" s rest] unat64 assms(2) by (simp add: br_bind_def)
next
  case (char6 c)
  then show ?thesis using read_char6_ok [of s c rest] assms(2) by (simp add: br_bind_def)
qed simp

lemma reads_elem: "field_bits op x bs \<Longrightarrow> reads_as (read_abbrev_loop [op] []) [x] bs"
  unfolding reads_as_def by (simp add: read_field br_ret_def)

inductive ops_bits :: "nat \<Rightarrow> abbrev_op list \<Rightarrow> 64 word list \<Rightarrow> bool list \<Rightarrow> bool" where
  \<comment> \<open>the bits of a record's fields under an abbreviation, at position \<open>p\<close> of the stream\<close>
  no_ops: "ops_bits p [] [] []"
| scalar: "field_bits op x bs \<Longrightarrow> ops_bits (p + length bs) ops xs bits \<Longrightarrow> ops_bits p (op # ops) (x # xs) (bs @ bits)"
| array: "list_all2 (field_bits elem_op) ys bss \<Longrightarrow> length ys < 2 ^ 64 \<Longrightarrow> hb = vbr_bits 6 (length ys) @ concat bss \<Longrightarrow>
    ops_bits (p + length hb) ops xs bits \<Longrightarrow> ops_bits p (AbArray # elem_op # ops) (ys @ xs) (hb @ bits)"
| blob: "length bytes < 2 ^ 64 \<Longrightarrow> n = vbr_bits 6 (length bytes) \<Longrightarrow> pre = n @ padding (p + length n) \<Longrightarrow>
    body = concat (map (\<lambda>b. lsb_bits 8 (unat (b :: byte))) bytes) \<Longrightarrow>
    hb = pre @ body @ padding (p + length (pre @ body)) \<Longrightarrow>
    ops_bits (p + length hb) ops xs bits \<Longrightarrow> ops_bits p (AbBlob # ops) (map ucast bytes @ xs) (hb @ bits)"

lemma read_array_ok:
  assumes "list_all2 (field_bits e) ys bss" "length ys < 2 ^ 64" "ahead s = (vbr_bits 6 (length ys) @ concat bss) @ rest"
  shows "read_abbrev_loop (AbArray # e # ops) acc s =
    read_abbrev_loop ops (acc @ ys) (advance (length (vbr_bits 6 (length ys) @ concat bss)) s)"
proof -
  let ?n = "vbr_bits 6 (length ys)"
  have a: "ahead s = ?n @ concat bss @ rest" using assms(3) by simp
  have "read_vbr 6 s = Some (Inr (of_nat (length ys)), advance (length ?n) s)"
    by (rule reads_asD [OF reads_vbr a]) (use assms(2) in simp_all)
  moreover have "unat (of_nat (length ys) :: 64 word) = length ys" using assms(2) by (simp add: unat_of_nat take_bit_nat_eq_self)
  moreover have "list_all2 (reads_as (read_abbrev_loop [e] [])) (map (\<lambda>y. [y]) ys) bss"
    using assms(1) by (simp add: list.rel_map list_all2_mono reads_elem)
  then have "reads_as (br_repeat (length ys) (read_abbrev_loop [e] [])) (map (\<lambda>y. [y]) ys) (concat bss)"
    using reads_as_repeat by fastforce
  note reads_asD [OF this ahead_advance [OF a]]
  ultimately show ?thesis by (simp add: br_bind_def add.assoc comp_def concat_map_singleton)
qed

lemma read_blob_ok:
  assumes "length bytes < 2 ^ 64" "n = vbr_bits 6 (length bytes)" "pre = n @ padding (bs_pos s + length n)"
    "body = concat (map (\<lambda>b. lsb_bits 8 (unat (b :: byte))) bytes)"
    "ahead s = (pre @ body @ padding (bs_pos s + length (pre @ body))) @ rest"
  shows "read_blob s = Some (Inr (map ucast bytes), advance (length (pre @ body @ padding (bs_pos s + length (pre @ body)))) s)"
proof -
  have a: "ahead s = n @ padding (bs_pos s + length n) @ body @ padding (bs_pos s + length (pre @ body)) @ rest"
    using assms(3,5) by simp
  have "read_vbr 6 s = Some (Inr (of_nat (length bytes)), advance (length n) s)"
    using reads_asD [OF reads_vbr, of 6 "length bytes" s] a assms(1,2) by simp
  moreover have "unat (of_nat (length bytes) :: 64 word) = length bytes" using assms(1) by (simp add: unat_of_nat take_bit_nat_eq_self)
  moreover have "reads_as (read_bits 8) (ucast b) (lsb_bits 8 (unat b))" for b :: byte
    using reads_lsb [of 8 "unat b"] unsigned_less [of b] by simp
  then have "list_all2 (reads_as (read_bits 8)) (map ucast bytes) (map (\<lambda>b. lsb_bits 8 (unat b)) bytes)"
    by (simp add: list_all2_conv_all_nth)
  from reads_as_repeat [OF this] have "reads_as (br_repeat (length bytes) (read_bits 8)) (map ucast bytes) body"
    by (simp add: assms(4))
  note reads_asD [OF this ahead_advance [of "advance (length n) s" "padding (bs_pos s + length n)", OF ahead_advance [OF a]]]
  ultimately show ?thesis
    by (simp add: read_blob_def br_bind_def br_seq_def br_align_ok br_ret_def add.assoc assms(3))
qed

lemma read_ops:
  "ops_bits p ops xs bits \<Longrightarrow> p = bs_pos s \<Longrightarrow> ahead s = bits @ rest \<Longrightarrow>
     read_abbrev_loop ops acc s = Some (Inr (acc @ xs), advance (length bits) s)"
proof (induction arbitrary: s acc rule: ops_bits.induct)
  case (no_ops p)
  then show ?case by (simp add: br_ret_def)
next
  case (scalar op x bs p ops xs bits)
  have a: "ahead s = bs @ bits @ rest" using scalar.prems(2) by simp
  show ?case
    using read_field [OF scalar.hyps(1) a] scalar.IH [OF _ ahead_advance [OF a]] scalar.prems(1) by (simp add: add.assoc)
next
  case (array e ys bss hb p ops xs bits)
  have a: "ahead s = hb @ bits @ rest" using array.prems(2) by simp
  show ?case
    using read_array_ok [OF array.hyps(1,2), of s "bits @ rest" ops acc] a array.hyps(3) array.IH [OF _ ahead_advance [OF a]] array.prems(1)
    by (simp add: add.assoc)
next
  case (blob bytes n pre p body hb ops xs bits)
  have a: "ahead s = hb @ bits @ rest" using blob.prems(2) by simp
  have "read_blob s = Some (Inr (map ucast bytes), advance (length hb) s)"
    using read_blob_ok [OF blob.hyps(1,2), of pre s body "bits @ rest"] a blob.hyps(3-5) blob.prems(1) by simp
  then show ?case using blob.IH [OF _ ahead_advance [OF a]] blob.prems(1) by (simp add: br_bind_def add.assoc)
qed

inductive record_bits :: "nat \<Rightarrow> nat \<Rightarrow> abbrev list \<Rightarrow> nat \<Rightarrow> 64 word list \<Rightarrow> bool list \<Rightarrow> bool" where
  \<comment> \<open>the bits of a record, its abbreviation id first, in \<open>len\<close> bits\<close>
  unabbreviated: "2 \<le> len \<Longrightarrow> len \<le> 64 \<Longrightarrow> length flds < 2 ^ 64 \<Longrightarrow>
    record_bits p len abbrevs 3 (code # flds)
      (lsb_bits len 3 @ vbr_bits 6 (unat code) @ vbr_bits 6 (length flds) @ concat (map (\<lambda>x. vbr_bits 6 (unat x)) flds))"
| abbreviated: "i < length abbrevs \<Longrightarrow> 4 + i < 2 ^ len \<Longrightarrow> len \<le> 64 \<Longrightarrow> ops_bits (p + len) (abbrevs ! i) flds bits \<Longrightarrow>
    record_bits p len abbrevs (4 + i) flds (lsb_bits len (4 + i) @ bits)"

lemma read_fields_ok:
  assumes "record_bits p len abbrevs i flds bits" "p = bs_pos s" "ahead s = bits @ rest"
  shows "len \<le> 64 \<and> 3 \<le> i \<and> i < 2 ^ len \<and> (\<exists>bits'. bits = lsb_bits len i @ bits' \<and>
    read_record_fields (of_nat i) abbrevs (advance len s) = Some (Inr flds, advance (length bits) s))"
  using assms(1)
proof cases
  case (unabbreviated fs code)
  have len: "(4 :: nat) \<le> 2 ^ len" using power_increasing [of 2 len "2 :: nat"] unabbreviated by simp
  have v: "reads_as (read_vbr 6) x (vbr_bits 6 (unat x))" for x using reads_vbr [of 6 "unat x"] unat64 by simp
  have n: "reads_as (read_vbr 6) (of_nat (length fs)) (vbr_bits 6 (length fs))" using unabbreviated by (intro reads_vbr) simp_all
  have u: "unat (of_nat (length fs) :: 64 word) = length fs" using unabbreviated by (simp add: unat_of_nat take_bit_nat_eq_self)
  have r: "reads_as (br_repeat (unat (of_nat (length fs) :: 64 word)) (read_vbr 6)) fs (concat (map (\<lambda>x. vbr_bits 6 (unat x)) fs))"
    unfolding u by (rule reads_as_repeat) (simp add: list_all2_conv_all_nth v)
  let ?tail = "\<lambda>num_ops :: 64 word. br_bind (br_repeat (unat num_ops) (read_vbr 6)) (\<lambda>flds. br_ret (code # flds))"
  have "reads_as (?tail (of_nat (length fs))) (code # fs) (concat (map (\<lambda>x. vbr_bits 6 (unat x)) fs) @ [])"
    by (rule reads_as_bind [where f = "\<lambda>flds. br_ret (code # flds)", OF r reads_as_ret])
  from reads_as_bind [OF n, of ?tail, OF this]
  have t: "reads_as (br_bind (read_vbr 6) ?tail) (code # fs) (vbr_bits 6 (length fs) @ concat (map (\<lambda>x. vbr_bits 6 (unat x)) fs))"
    by simp
  let ?bits = "vbr_bits 6 (unat code) @ vbr_bits 6 (length fs) @ concat (map (\<lambda>x. vbr_bits 6 (unat x)) fs)"
  have "reads_as (read_record_fields (of_nat i) abbrevs) flds ?bits"
    using reads_as_bind [OF v, of "\<lambda>code. br_bind (read_vbr 6) (\<lambda>num_ops. br_bind (br_repeat (unat num_ops) (read_vbr 6)) (\<lambda>flds. br_ret (code # flds)))" code, OF t]
    using unabbreviated by (simp add: read_record_fields_def)
  moreover have "ahead (advance (length (lsb_bits len 3)) s) = ?bits @ rest"
    by (rule ahead_advance) (use assms(3) unabbreviated in simp)
  ultimately show ?thesis
    using reads_asD unabbreviated len by (fastforce simp: add.assoc)
next
  case (abbreviated k bs)
  have a: "ahead s = lsb_bits len i @ bs @ rest" using assms(3) abbreviated by simp
  have "(2 :: nat) ^ len \<le> 2 ^ 64" using abbreviated by (intro power_increasing) simp_all
  then have "4 + k < 2 ^ 64" using abbreviated by simp
  then have "i < 2 ^ 64" "k < 2 ^ 64" using abbreviated(1) by simp_all
  then have n: "unat (of_nat k :: 64 word) = k" "unat (of_nat i :: 64 word) = i"
    by (simp_all add: unat_of_nat take_bit_nat_eq_self)
  have u: "unat (of_nat i - 4 :: 64 word) = k" using n(1) abbreviated(1) by simp
  have "4 \<le> unat (of_nat i :: 64 word)" unfolding n(2) using abbreviated(1) by simp
  then have u4: "(4 :: 64 word) \<le> of_nat i" "(of_nat i :: 64 word) \<noteq> 3" by (auto simp: word_le_nat_alt)
  have "read_abbrev_loop (abbrevs ! k) [] (advance len s) = Some (Inr ([] @ flds), advance (length bs) (advance len s))"
    by (rule read_ops) (use abbreviated assms(2) ahead_advance [OF a] in simp_all)
  then show ?thesis
    using abbreviated u u4 by (auto simp: read_record_fields_def read_abbrev_record_def Let_def add.assoc)
qed

text \<open>C34: A record of the LLVM bitstream is read back as it was written, with its abbreviation id, whether it
  is unabbreviated or encoded by an abbreviation of literals, fixed fields of at most 64 bits,
  variable-width fields in groups of 2 to 64 bits, characters, arrays and blobs (the length as a
  variable-width integer in groups of 6 bits, then the bytes, both aligned to 32 bits); the reader stands
  behind it.\<close>

theorem record_round_trip:
  assumes "record_bits (bs_pos s) (bs_abbrev_len s) abbrevs i flds bits" "ahead s = bits @ rest"
  shows "bs_read_record abbrevs s = Some (Inr (of_nat i, flds), advance (length bits) s)"
proof -
  obtain bits' where r: "bs_abbrev_len s \<le> 64" "i < 2 ^ bs_abbrev_len s" "bits = lsb_bits (bs_abbrev_len s) i @ bits'"
    "read_record_fields (of_nat i) abbrevs (advance (bs_abbrev_len s) s) = Some (Inr flds, advance (length bits) s)"
    using read_fields_ok [OF assms(1) HOL.refl assms(2)] by blast
  have "read_bits (bs_abbrev_len s) s = Some (Inr (of_nat i), advance (bs_abbrev_len s) s)"
    by (rule read_lsb_bits [OF _ r(1,2)]) (use assms(2) r(3) in simp)
  then show ?thesis using r(4) by (simp add: bs_read_record_def br_bind_def br_ret_def)
qed

section \<open>Abbreviations\<close>

fun op_def_bits :: "abbrev_op \<Rightarrow> bool list" where
  "op_def_bits (AbLiteral v) = [True] @ vbr_bits 8 (unat v)"
| "op_def_bits (AbFixed w) = [False] @ lsb_bits 3 1 @ vbr_bits 5 w"
| "op_def_bits (AbVbr w) = [False] @ lsb_bits 3 2 @ vbr_bits 5 w"
| "op_def_bits AbArray = [False] @ lsb_bits 3 3"
| "op_def_bits AbChar6 = [False] @ lsb_bits 3 4"
| "op_def_bits AbBlob = [False] @ lsb_bits 3 5"

fun op_width_ok :: "abbrev_op \<Rightarrow> bool" where
  "op_width_ok (AbFixed w) = (w < 2 ^ 64)"
| "op_width_ok (AbVbr w) = (w < 2 ^ 64)"
| "op_width_ok _ = True"

definition def_bits :: "abbrev \<Rightarrow> bool list" where
  "def_bits ops = vbr_bits 5 (length ops) @ concat (map op_def_bits ops)"

lemma reads_flag: "reads_as (read_bits 1) (of_bool c) [c]"
proof -
  have "lsb_bits 1 (of_bool c) = [c]" by (simp add: lsb_bits_def bit_0)
  then show ?thesis using reads_lsb [of 1 "of_bool c"] by (cases c) simp_all
qed

lemma reads_op_def:
  assumes "op_width_ok op"
  shows "reads_as read_abbrev_op op (op_def_bits op)"
proof (cases "\<exists>v. op = AbLiteral v")
  case True
  then obtain v where v: "op = AbLiteral v" by blast
  have "reads_as (br_map AbLiteral (read_vbr 8)) op (vbr_bits 8 (unat v))"
    using reads_as_map [OF reads_vbr [of 8 "unat v"], of AbLiteral] unat64 by (simp add: v)
  then show ?thesis
    unfolding read_abbrev_op_def v op_def_bits.simps
    by (intro reads_as_bind [OF reads_flag [of True]]) simp
next
  case False
  let ?k = "\<lambda>kind :: 64 word. if kind = 1 then br_map (\<lambda>w. AbFixed (unat w)) (read_vbr 5)
         else if kind = 2 then br_map (\<lambda>w. AbVbr (unat w)) (read_vbr 5)
         else if kind = 3 then br_ret AbArray
         else if kind = 4 then br_ret AbChar6
         else if kind = 5 then br_ret AbBlob
         else br_fail ParseError"
  have kind: "reads_as (br_bind (read_bits 3) ?k) op (lsb_bits 3 n @ bits)" if "reads_as (?k (of_nat n)) op bits" "n < 8" for n bits
    by (rule reads_as_bind [where f = ?k, OF reads_lsb that(1)]) (use that(2) in simp_all)
  have w: "unat (of_nat w :: 64 word) = w" if "w < 2 ^ 64" for w using that by (simp add: unat_of_nat take_bit_nat_eq_self)
  have "\<exists>bits. op_def_bits op = [False] @ bits \<and> reads_as (br_bind (read_bits 3) ?k) op bits"
    using assms False
  proof (cases op)
    case (AbFixed n)
    have "reads_as (?k (of_nat 1)) op (vbr_bits 5 n)"
      using reads_as_map [OF reads_vbr [of 5 n], of "\<lambda>w. AbFixed (unat w)"] assms AbFixed by (simp add: w)
    from kind [OF this] show ?thesis using AbFixed by simp
  next
    case (AbVbr n)
    have "reads_as (?k (of_nat 2)) op (vbr_bits 5 n)"
      using reads_as_map [OF reads_vbr [of 5 n], of "\<lambda>w. AbVbr (unat w)"] assms AbVbr by (simp add: w)
    from kind [OF this] show ?thesis using AbVbr by simp
  next
    case AbArray
    then have "reads_as (?k (of_nat 3)) op []" using reads_as_ret by simp
    from kind [OF this] show ?thesis using AbArray by simp
  next
    case AbChar6
    then have "reads_as (?k (of_nat 4)) op []" using reads_as_ret by simp
    from kind [OF this] show ?thesis using AbChar6 by simp
  next
    case AbBlob
    then have "reads_as (?k (of_nat 5)) op []" using reads_as_ret by simp
    from kind [OF this] show ?thesis using AbBlob by simp
  qed simp
  then obtain bits where b: "op_def_bits op = [False] @ bits" "reads_as (br_bind (read_bits 3) ?k) op bits" by blast
  show ?thesis
    unfolding read_abbrev_op_def b(1)
    by (rule reads_as_bind [OF reads_flag [of False]]) (use b(2) in simp)
qed

theorem abbrev_round_trip:
  assumes "list_all op_width_ok ops" "length ops < 2 ^ 64" "ahead s = def_bits ops @ rest"
  shows "define_abbrev s = Some (Inr (), advance (length (def_bits ops)) s\<lparr>bs_abbrevs := bs_abbrevs s @ [ops]\<rparr>)"
proof -
  have "reads_as (br_repeat (length ops) read_abbrev_op) ops (concat (map op_def_bits ops))"
    using assms(1) by (intro reads_as_repeat) (simp add: list_all2_conv_all_nth list_all_length reads_op_def)
  moreover have "unat (of_nat (length ops) :: 64 word) = length ops" using assms(2) by (simp add: unat_of_nat take_bit_nat_eq_self)
  ultimately have "reads_as (br_bind (read_vbr 5) (\<lambda>n. br_repeat (unat n) read_abbrev_op)) ops (def_bits ops)"
    unfolding def_bits_def using assms(2) by (intro reads_as_bind [OF reads_vbr]) simp_all
  from reads_asD [OF this assms(3)] show ?thesis
    by (auto simp: define_abbrev_def br_bind_def push_abbrev_def split: option.splits prod.splits sum.splits)
qed

section \<open>Blocks\<close>

definition header_bits :: "nat \<Rightarrow> nat \<Rightarrow> nat \<Rightarrow> nat \<Rightarrow> bool list" where
  \<comment> \<open>the header of a block at position \<open>p\<close>: its id, its abbreviation width, its length in words\<close>
  "header_bits p block_id len words =
     (let fs = vbr_bits 8 block_id @ vbr_bits 4 len in fs @ padding (p + length fs) @ lsb_bits 32 words)"

lemma enter_block_ok:
  assumes "block_id < 2 ^ 64" "len < 2 ^ 64" "words < 2 ^ 32" "ahead s = header_bits (bs_pos s) block_id len words @ rest"
  shows "\<exists>e. enter_block s = Some (Inr (of_nat block_id, len),
    s\<lparr>bs_pos := bs_pos s + length (header_bits (bs_pos s) block_id len words),
      bs_blocks := \<lparr>bl_abbrev_len = bs_abbrev_len s, bl_end_word = e\<rparr> # bs_blocks s,
      bs_abbrev_len := len, bs_abbrevs := []\<rparr>)"
proof -
  let ?i = "vbr_bits 8 block_id" and ?l = "vbr_bits 4 len"
  let ?p = "padding (bs_pos s + length (?i @ ?l))"
  have a: "ahead s = ?i @ ?l @ ?p @ lsb_bits 32 words @ rest" using assms(4) by (simp add: header_bits_def Let_def)
  have 1: "read_vbr 8 s = Some (Inr (of_nat block_id), advance (length ?i) s)"
    by (rule reads_asD [OF reads_vbr a]) (use assms(1) in simp_all)
  have 2: "read_vbr 4 (advance (length ?i) s) = Some (Inr (of_nat len), advance (length ?i + length ?l) s)"
    using reads_asD [OF reads_vbr ahead_advance [OF a]] assms(2) by (simp add: add.assoc)
  have 3: "br_align (advance (length ?i + length ?l) s) = Some (Inr (), advance (length ?i + (length ?l + length ?p)) s)"
    using br_align_ok [of "advance (length ?i + length ?l) s"] by (simp add: add.assoc)
  have 4: "read_bits 32 (advance (length ?i + (length ?l + length ?p)) s) =
      Some (Inr (of_nat words), advance (length ?i + (length ?l + (length ?p + 32))) s)"
    using reads_asD [OF reads_lsb ahead_advance [OF ahead_advance [OF ahead_advance [OF a]]]] assms(3) by (simp add: add.assoc)
  have "unat (of_nat len :: 64 word) = len" using assms(2) by (simp add: unat_of_nat take_bit_nat_eq_self)
  then show ?thesis
    by (simp add: enter_block_def br_bind_def br_seq_def br_map_def br_ret_def 1 2 3 [simplified] 4 [simplified]
      push_block_def Let_def header_bits_def add.assoc) (intro exI, rule HOL.refl)
qed

text \<open>
  The contents of a block: records (their abbreviation id and fields), definitions of abbreviations, and
  nested blocks (their id, the abbreviations that BLOCKINFO registered for that id, their contents).
\<close>

datatype block_item =
    Data nat "64 word list"
  | Abbreviation abbrev
  | Nested nat "abbrev list" "block_item list"

text \<open>
  The format: the abbreviations of a block are those registered for it and those defined in it, and they hold
  to its end, over nested blocks. A definition inside BLOCKINFO (block id 0) is for another block.
\<close>

definition with_definition :: "nat \<Rightarrow> abbrev list \<Rightarrow> abbrev \<Rightarrow> abbrev list" where
  "with_definition blk abbrevs ops = (if blk = 0 then abbrevs else abbrevs @ [ops])"

inductive block_bits :: "nat \<Rightarrow> nat \<Rightarrow> nat \<Rightarrow> abbrev list \<Rightarrow> block_item list \<Rightarrow> bool list \<Rightarrow> bool" where
  \<comment> \<open>the contents of block \<open>blk\<close> from position \<open>p\<close> on, to the end marker and its padding\<close>
  end_mark: "2 \<le> len \<Longrightarrow> len \<le> 64 \<Longrightarrow> block_bits blk p len abbrevs [] (lsb_bits len 0 @ padding (p + len))"
| data_record: "2 \<le> len \<Longrightarrow> record_bits p len abbrevs i flds bs \<Longrightarrow> i < 2 ^ 64 \<Longrightarrow>
    block_bits blk (p + length bs) len abbrevs items bits \<Longrightarrow>
    block_bits blk p len abbrevs (Data i flds # items) (bs @ bits)"
| abbrev_def: "2 \<le> len \<Longrightarrow> len \<le> 64 \<Longrightarrow> list_all op_width_ok ops \<Longrightarrow> length ops < 2 ^ 64 \<Longrightarrow>
    bs = lsb_bits len 2 @ def_bits ops \<Longrightarrow> block_bits blk (p + length bs) len (with_definition blk abbrevs ops) items bits \<Longrightarrow>
    block_bits blk p len abbrevs (Abbreviation ops # items) (bs @ bits)"
| nested: "2 \<le> len \<Longrightarrow> len \<le> 64 \<Longrightarrow> block_id < 2 ^ 64 \<Longrightarrow> len' < 2 ^ 64 \<Longrightarrow> words < 2 ^ 32 \<Longrightarrow>
    bs = lsb_bits len 1 @ header_bits (p + len) block_id len' words \<Longrightarrow>
    block_bits block_id (p + length bs) len' info contents inner \<Longrightarrow>
    block_bits blk (p + length bs + length inner) len abbrevs items bits \<Longrightarrow>
    block_bits blk p len abbrevs (Nested block_id info contents # items) (bs @ inner @ bits)"

text \<open>
  What the reader needs beyond the format. It knows no abbreviation registered by BLOCKINFO and forgets those
  of a block at the end of a nested one, so where its abbreviations are not those of the format, the rest of
  the block has to do without (\<open>plain\<close>: every record of it unabbreviated).
\<close>

definition plain :: "block_item list \<Rightarrow> bool" where
  "plain items \<longleftrightarrow> (\<forall>i flds. Data i flds \<in> set items \<longrightarrow> i = 3)"

fun needs_no_memory :: "nat \<Rightarrow> abbrev list \<Rightarrow> block_item list \<Rightarrow> bool" where
  "needs_no_memory blk abbrevs [] = True"
| "needs_no_memory blk abbrevs (Data i flds # items) = needs_no_memory blk abbrevs items"
| "needs_no_memory blk abbrevs (Abbreviation ops # items) =
     ((blk = 0 \<longrightarrow> plain items) \<and> needs_no_memory blk (with_definition blk abbrevs ops) items)"
| "needs_no_memory blk abbrevs (Nested block_id info contents # items) =
     ((info = [] \<or> plain contents) \<and> needs_no_memory block_id info contents \<and>
      (abbrevs = [] \<or> plain items) \<and> needs_no_memory blk abbrevs items)"

lemma plain_record: "record_bits p len abbrevs 3 flds bs \<Longrightarrow> record_bits p len known 3 flds bs"
  by (auto elim!: record_bits.cases intro: record_bits.unabbreviated)

definition left_block :: "bit_reader \<Rightarrow> nat \<Rightarrow> bit_reader" where
  \<comment> \<open>the state behind the end of the innermost block\<close>
  "left_block s n =
     s\<lparr>bs_pos := bs_pos s + n, bs_abbrev_len := bl_abbrev_len (hd (bs_blocks s)), bs_blocks := tl (bs_blocks s), bs_abbrevs := []\<rparr>"

lemma not_at_end: "ahead s = bs @ rest \<Longrightarrow> bs \<noteq> [] \<Longrightarrow> \<not> bs_at_end s"
  using length_ahead [of s] by (auto simp: bs_at_end_def)

lemma skip_tag:
  assumes "ahead s = lsb_bits (bs_abbrev_len s) i @ rest" "2 \<le> bs_abbrev_len s" "bs_abbrev_len s \<le> 64" "i < 2 ^ bs_abbrev_len s"
  shows "\<not> bs_at_end s" "read_bits (bs_abbrev_len s) s = Some (Inr (of_nat i), advance (bs_abbrev_len s) s)"
proof -
  have "length (lsb_bits (bs_abbrev_len s) i) \<noteq> 0" using assms(2) by simp
  then show "\<not> bs_at_end s" using not_at_end [OF assms(1)] by fastforce
  show "read_bits (bs_abbrev_len s) s = Some (Inr (of_nat i), advance (bs_abbrev_len s) s)"
    by (rule read_lsb_bits [OF assms(1,3,4)])
qed

lemma skip_enter:
  assumes "2 \<le> bs_abbrev_len s" "bs_abbrev_len s \<le> 64" "block_id < 2 ^ 64" "len < 2 ^ 64" "words < 2 ^ 32"
    and "bs = lsb_bits (bs_abbrev_len s) 1 @ header_bits (bs_pos s + bs_abbrev_len s) block_id len words"
    and "ahead s = bs @ rest"
  shows "\<exists>e. skip_loop (Suc d) s = skip_loop (Suc (Suc d)) (advance (length bs) s\<lparr>bs_blocks :=
    \<lparr>bl_abbrev_len = bs_abbrev_len s, bl_end_word = e\<rparr> # bs_blocks s, bs_abbrev_len := len, bs_abbrevs := []\<rparr>)"
proof -
  let ?l = "bs_abbrev_len s"
  have a: "ahead s = lsb_bits ?l 1 @ header_bits (bs_pos s + ?l) block_id len words @ rest" using assms(6,7) by simp
  have "(4 :: nat) \<le> 2 ^ ?l" using power_increasing [of 2 ?l "2 :: nat"] assms(1) by simp
  then have T: "\<not> bs_at_end s" "read_bits ?l s = Some (Inr (of_nat 1), advance ?l s)"
    using skip_tag [OF a assms(1,2)] by simp_all
  obtain e where "enter_block (advance ?l s) = Some (Inr (of_nat block_id, len), advance (length bs) s\<lparr>bs_blocks :=
      \<lparr>bl_abbrev_len = ?l, bl_end_word = e\<rparr> # bs_blocks s, bs_abbrev_len := len, bs_abbrevs := []\<rparr>)"
    using enter_block_ok [OF assms(3-5), of "advance ?l s" rest] ahead_advance [OF a] assms(6) by (auto simp: add.assoc)
  with T show ?thesis by (subst skip_loop.simps) (auto simp: br_map_ok)
qed

lemma skip_block_ok:
  "block_bits blk p len abbrevs items bits \<Longrightarrow> needs_no_memory blk abbrevs items \<Longrightarrow> p = bs_pos s \<Longrightarrow>
     len = bs_abbrev_len s \<Longrightarrow> abbrevs = bs_abbrevs s \<or> plain items \<Longrightarrow> bs_blocks s \<noteq> [] \<Longrightarrow> ahead s = bits @ rest \<Longrightarrow>
     skip_loop (Suc d) s = (if d = 0 then Some (Inr (), left_block s (length bits)) else skip_loop d (left_block s (length bits)))"
proof (induction arbitrary: s d rest rule: block_bits.induct)
  case (end_mark len blk p ab)
  have a: "ahead s = lsb_bits (bs_abbrev_len s) 0 @ padding (p + len) @ rest" using end_mark.prems by simp
  note T = skip_tag [OF a]
  obtain st stack where st: "bs_blocks s = st # stack" using end_mark.prems(5) by (cases "bs_blocks s") auto
  have "end_block (advance len s) = Some (Inr (), left_block s (len + length (padding (p + len))))"
    using br_align_ok [of "advance len s"] end_mark.prems(2,3) st by (simp add: end_block_def br_align_def left_block_def Let_def add.assoc)
  then show ?case using T end_mark.hyps end_mark.prems(2,3) by (subst skip_loop.simps) simp
next
  case (data_record len p ab i flds bs blk items bits)
  have a: "ahead s = bs @ bits @ rest" using data_record.prems(6) by simp
  have "record_bits p len (bs_abbrevs s) i flds bs"
    using data_record.hyps(2) data_record.prems(4) plain_record by (auto simp: plain_def)
  from read_fields_ok [OF this data_record.prems(2) a] obtain bits' where r:
    "len \<le> 64" "3 \<le> i" "i < 2 ^ len" "bs = lsb_bits len i @ bits'"
    "read_record_fields (of_nat i) (bs_abbrevs s) (advance len s) = Some (Inr flds, advance (length bs) s)" by blast
  have u: "unat (of_nat i :: 64 word) = i" using data_record.hyps(3) by (simp add: unat_of_nat take_bit_nat_eq_self)
  have n: "of_nat i \<noteq> (0 :: 64 word)" "of_nat i \<noteq> (1 :: 64 word)" "of_nat i \<noteq> (2 :: 64 word)"
    using r(2) u by (auto simp: word_unat_eq_iff)
  have "ahead s = lsb_bits (bs_abbrev_len s) i @ bits' @ bits @ rest" using a r(4) data_record.prems(3) by simp
  note T = skip_tag [OF this]
  have l: "left_block (advance (length bs) s) (length bits) = left_block s (length (bs @ bits))"
    by (simp add: left_block_def add.assoc)
  have "ab = bs_abbrevs s \<or> plain items" using data_record.prems(4) by (auto simp: plain_def)
  then have "skip_loop (Suc d) (advance (length bs) s) = (if d = 0
      then Some (Inr (), left_block (advance (length bs) s) (length bits))
      else skip_loop d (left_block (advance (length bs) s) (length bits)))"
    using data_record.IH [of "advance (length bs) s" rest d] data_record.prems(1,2,3,5) ahead_advance [OF a] by simp
  then show ?case
    using T n l r data_record.prems(3) data_record.hyps(1) by (subst skip_loop.simps) (simp add: br_map_ok)
next
  case (abbrev_def len ops bs blk p ab items bits)
  let ?s = "advance (length bs) s\<lparr>bs_abbrevs := bs_abbrevs s @ [ops]\<rparr>"
  have a: "ahead s = bs @ bits @ rest" using abbrev_def.prems(6) by simp
  then have a': "ahead s = lsb_bits (bs_abbrev_len s) 2 @ def_bits ops @ bits @ rest"
    using abbrev_def.hyps(5) abbrev_def.prems(3) by simp
  have "(4 :: nat) \<le> 2 ^ len" using power_increasing [of 2 len "2 :: nat"] abbrev_def.hyps(1) by simp
  then have T: "\<not> bs_at_end s" "read_bits (bs_abbrev_len s) s = Some (Inr (of_nat 2), advance (bs_abbrev_len s) s)"
    using skip_tag [OF a'] abbrev_def.hyps(1,2) abbrev_def.prems(3) by simp_all
  have D: "define_abbrev (advance len s) = Some (Inr (), ?s)"
    using abbrev_round_trip [OF abbrev_def.hyps(3,4), of "advance len s" "bits @ rest"] ahead_advance [OF a'] abbrev_def.hyps(5)
      abbrev_def.prems(3) by (simp add: add.assoc)
  have "ahead ?s = bits @ rest" using ahead_advance [OF a] by (simp add: ahead_def)
  moreover have "left_block ?s (length bits) = left_block s (length (bs @ bits))" by (simp add: left_block_def add.assoc)
  moreover have "with_definition blk ab ops = bs_abbrevs ?s \<or> plain items"
    using abbrev_def.prems(1,4) by (auto simp: with_definition_def plain_def)
  ultimately have "skip_loop (Suc d) ?s = (if d = 0 then Some (Inr (), left_block s (length (bs @ bits)))
      else skip_loop d (left_block s (length (bs @ bits))))"
    using abbrev_def.IH [of ?s rest d] abbrev_def.prems(1,2,3,5) by simp
  then show ?case
    using abbrev_def.prems(3) T D by (subst skip_loop.simps) (simp add: br_map_ok)
next
  case (nested len block_id len' words bs p info contents inner blk ab items bits)
  have a: "ahead s = bs @ inner @ bits @ rest" using nested.prems(6) by simp
  let ?s1 = "\<lambda>e. advance (length bs) s\<lparr>bs_blocks := \<lparr>bl_abbrev_len = bs_abbrev_len s, bl_end_word = e\<rparr> # bs_blocks s,
    bs_abbrev_len := len', bs_abbrevs := []\<rparr>"
  obtain e where E: "skip_loop (Suc d) s = skip_loop (Suc (Suc d)) (?s1 e)"
    using skip_enter [OF _ _ nested.hyps(3-5), of s bs _ d] nested.hyps(1,2,6) nested.prems(2,3) a by blast
  let ?s2 = "left_block (?s1 e) (length inner)"
  have 1: "ahead (?s1 e) = inner @ bits @ rest" using ahead_advance [OF a] by (simp add: ahead_def)
  then have 2: "ahead ?s2 = bits @ rest" using ahead_advance [OF 1] by (simp add: ahead_def left_block_def)
  have k: "info = [] \<or> plain contents" "needs_no_memory block_id info contents"
    "ab = [] \<or> plain items" "needs_no_memory blk ab items"
    using nested.prems(1) by simp_all
  have "skip_loop (Suc d) s = skip_loop (Suc (Suc d)) (?s1 e)" by (rule E)
  also have "\<dots> = skip_loop (Suc d) ?s2"
    using nested.IH(1) [OF k(2), of "?s1 e" "bits @ rest" "Suc d"] 1 nested.prems(2) k(1) by simp
  also have "\<dots> = (if d = 0 then Some (Inr (), left_block ?s2 (length bits)) else skip_loop d (left_block ?s2 (length bits)))"
    using nested.IH(2) [OF k(4), of ?s2 rest d] 2 nested.prems(2,3,5) k(3) by (simp add: left_block_def)
  also have "left_block ?s2 (length bits) = left_block s (length (bs @ inner @ bits))"
    by (simp add: left_block_def add.assoc)
  finally show ?case .
qed


section \<open>Errors\<close>

text \<open>
  A block that uses one of its abbreviations after a nested block is rejected, for the format knows the
  abbreviation and the reader has forgotten it.
\<close>

lemma skip_block_forgets:
  assumes "2 \<le> bs_abbrev_len s" "bs_abbrev_len s \<le> 64" "block_id < 2 ^ 64" "len < 2 ^ 64" "words < 2 ^ 32"
    and bs: "bs = lsb_bits (bs_abbrev_len s) 1 @ header_bits (bs_pos s + bs_abbrev_len s) block_id len words"
    and inner: "block_bits block_id (bs_pos s + length bs) len [] contents inner" "needs_no_memory block_id [] contents"
    and i: "4 \<le> i" "i < 2 ^ bs_abbrev_len s"
    and a: "ahead s = bs @ inner @ lsb_bits (bs_abbrev_len s) i @ rest"
  shows "\<exists>s'. skip_block_contents s = Some (Inl ParseError, s')"
proof -
  let ?s1 = "\<lambda>e. advance (length bs) s\<lparr>bs_blocks := \<lparr>bl_abbrev_len = bs_abbrev_len s, bl_end_word = e\<rparr> # bs_blocks s,
    bs_abbrev_len := len, bs_abbrevs := []\<rparr>"
  obtain e where E: "skip_loop (Suc 0) s = skip_loop (Suc (Suc 0)) (?s1 e)"
    using skip_enter [OF assms(1-5) bs a] by blast
  let ?s2 = "left_block (?s1 e) (length inner)"
  have 1: "ahead (?s1 e) = inner @ lsb_bits (bs_abbrev_len s) i @ rest" using ahead_advance [OF a] by (simp add: ahead_def)
  then have 2: "ahead ?s2 = lsb_bits (bs_abbrev_len ?s2) i @ rest" using ahead_advance [OF 1] by (simp add: ahead_def left_block_def)
  have "skip_loop (Suc (Suc 0)) (?s1 e) = skip_loop (Suc 0) ?s2"
    using skip_block_ok [OF inner, of "?s1 e" _ "Suc 0"] 1 by simp
  moreover note T = skip_tag [OF 2]
  have "(2 :: nat) ^ bs_abbrev_len s \<le> 2 ^ 64" using assms(2) by (intro power_increasing) simp_all
  then have u: "unat (of_nat i :: 64 word) = i" using i(2) by (simp add: unat_of_nat take_bit_nat_eq_self)
  have n: "of_nat i \<noteq> (0 :: 64 word)" "of_nat i \<noteq> (1 :: 64 word)" "of_nat i \<noteq> (2 :: 64 word)" "of_nat i \<noteq> (3 :: 64 word)"
    "4 \<le> (of_nat i :: 64 word)"
    using i(1) u by (auto simp: word_unat_eq_iff word_le_nat_alt)
  have "bs_abbrevs ?s2 = []" "bs_abbrev_len ?s2 = bs_abbrev_len s" by (simp_all add: left_block_def)
  then have "\<exists>s'. skip_loop (Suc 0) ?s2 = Some (Inl ParseError, s')"
    using T n assms(1,2) i(2) by (subst skip_loop.simps) (simp add: br_map_def br_bind_def read_record_fields_def br_fail_def)
  ultimately show ?thesis using E by (simp add: skip_block_contents_def)
qed

lemma skip_block_keeps_width:
  assumes "block_id < 2 ^ 64" "len < 2 ^ 64" "words < 2 ^ 32" "ahead s = header_bits (bs_pos s) block_id len words @ rest"
  shows "\<exists>s1 s2. enter_block s = Some (Inr (of_nat block_id, len), s1) \<and> bs_skip_block s1 = Some (Inr (), s2) \<and>
    bs_blocks s2 = bs_blocks s \<and> bs_abbrev_len s2 = len"
  using enter_block_ok [OF assms] by (auto simp: bs_skip_block_def)

lemma vbr_overflow_panics: "read_vbr 6 (reader_new (replicate 11 255)) = None"
  by code_simp

section \<open>Examples\<close>

definition string_reader :: bit_reader where
  "string_reader = \<lparr>bs_data = [180, 16, 248], bs_pos = 0, bs_abbrev_len = 3, bs_blocks = [], bs_abbrevs = []\<rparr>"

theorem record_round_trip_witness:
  "bs_read_record [[AbFixed 3, AbArray, AbChar6]] string_reader = Some (Inr (4, [6, 98, 46]), advance 24 string_reader)"
proof -
  have "list_all2 (field_bits AbChar6) [ucast (char6_alphabet ! 1), ucast (char6_alphabet ! 62)] [lsb_bits 6 1, lsb_bits 6 62]"
    by (simp add: field_bits.char6)
  from ops_bits.array [OF this _ HOL.refl ops_bits.no_ops] field_bits.fixed [of 3 6]
  have "ops_bits (0 + 3) [AbFixed 3, AbArray, AbChar6] (6 # [ucast (char6_alphabet ! 1), ucast (char6_alphabet ! 62)] @ [])
    (lsb_bits 3 (unat (6 :: 64 word)) @ (vbr_bits 6 2 @ concat [lsb_bits 6 1, lsb_bits 6 62]) @ [])"
    by (intro ops_bits.scalar) (simp_all flip: numeral_2_eq_2)
  from record_bits.abbreviated [of 0 "[[AbFixed 3, AbArray, AbChar6]]" 3 0, simplified, OF this [simplified]]
  have r: "record_bits 0 3 [[AbFixed 3, AbArray, AbChar6]] 4 [6, ucast (char6_alphabet ! 1), ucast (char6_alphabet ! 62)]
    (lsb_bits 3 4 @ lsb_bits 3 6 @ vbr_bits 6 2 @ lsb_bits 6 1 @ lsb_bits 6 62)" by simp
  have a: "ahead string_reader = (lsb_bits 3 4 @ lsb_bits 3 6 @ vbr_bits 6 2 @ lsb_bits 6 1 @ lsb_bits 6 62) @ []"
    by code_simp
  have l: "length (vbr_bits 6 2) = 6" "(ucast (char6_alphabet ! 1) :: 64 word) = 98" "(ucast (char6_alphabet ! 62) :: 64 word) = 46"
    by code_simp+
  show ?thesis
    using record_round_trip [of string_reader "[[AbFixed 3, AbArray, AbChar6]]" 4, OF _ a] r
    by (simp add: l l [unfolded One_nat_def] string_reader_def)
qed



end
