(* ===== verification/Spec2Isabelle.thy ===== *)
theory Spec2Isabelle
  imports IR_Context IR_Subst IR_Function Const_Fold_Correct Analysis_Cfg Analysis_Dom
  Transform_Fold_Int Transform_Pass Codegen_Spill_Correct LRIR_Correct Wasm_Encode RiscV_Correct
  IR_Builder_Correct Codegen_Schedule_Correct Analysis_Loops_Correct LLVM_Bitstream_Correct
begin

text \<open>
  A verification development for the LLVM-in-Rust compiler (\<open>src/llvm-*\<close>).

  \<^bold>\<open>The program.\<close> \<open>llvm-ir\<close> holds the IR: a \<open>Context\<close> that interns types and constants, modules,
  functions, blocks and 62 kinds of instructions, all connected by 32-bit indices.
  \<open>llvm-analysis\<close> computes the control-flow graph, the dominator tree and its frontier;
  \<open>llvm-transforms\<close> rewrites functions in place. \<open>llvm-codegen\<close> holds the machine IR that the
  targets lower to, and allocates its registers. \<open>llvm-bitcode\<close> stores a context and a module in a file.

  \<^bold>\<open>Conventions.\<close> A Rust computation that may panic has type \<open>'a rust\<close> (an option, \<open>None\<close> is the
  panic); machine integers are words or numbers with the bound written out; vectors are lists read
  with \<open>vec_get\<close>; hash maps are partial functions. Loops are recursive functions with a termination
  proof, or \<open>partial_function (option)\<close> with a theorem that they return.

  \<^bold>\<open>The theories.\<close>
  \<^item> \<open>LIR_Prelude\<close>: panics, checked indexing, folds that may panic, maps with defaults.
  \<^item> \<open>IR_Types\<close>, \<open>IR_Context\<close>, \<open>IR_Instruction\<close>, \<open>IR_Function\<close>: the data model
    (\<open>llvm-ir/src/{types,value,context,instruction,basic_block,function,module}.rs\<close>). The locale
    \<open>interner\<close> states what an interning pool promises; it is interpreted on the pool of types and on
    the pool of scalar constants.
  \<^item> \<open>IR_Subst\<close>: the two operand substitutions (\<open>value_rewrite.rs\<close> and \<open>const_prop.rs\<close>), and that
    they are the same function.
  \<^item> \<open>IR_Builder\<close>: the builder (\<open>builder.rs\<close>), one definition per operation. \<open>IR_Typing\<close> states the
    typing rules of the language; \<open>IR_Builder_Correct\<close> shows that clients who respect them, and compare
    scalars only, reach well-typed modules; the comparison of vectors is ill typed.
  \<^item> \<open>Const_Fold\<close>, \<open>Const_Fold_Correct\<close>: constant folding and its correctness against a reference
    semantics of the integer instructions, for constants stored below \<open>2 ^ N\<close> (the folder itself may store
    others, which is shown). The floating-point unit is the parameter \<open>f64_ops\<close>.
  \<^item> \<open>Graph_Paths\<close>: paths, reachability and dominance, the specification of the analyses.
  \<^item> \<open>Analysis_Cfg\<close>, \<open>Analysis_Dom\<close>: the control-flow graph and the dominator tree; every loop is
    shown to end, the dominator iteration after at most as many passes as there are blocks plus one.
  \<^item> \<open>Analysis_Loops\<close>, \<open>Analysis_Loops_Correct\<close>: natural loops (\<open>loops.rs\<close>), their bodies and nesting. The
    query \<open>depth\<close> follows the parents and is partial: it counts the loops around a block when no two back
    edges share a header, and does not return when two do.
  \<^item> \<open>IR_Semantics\<close>: what a function computes: an execution of blocks over an environment of values and
    a state, for any meaning \<open>ir_sem\<close> of constants and instructions; \<open>preserves\<close> says that another
    function returns and diverges as it does. The locale \<open>block_simulation\<close> is the contract by which
    a pass is shown to preserve meaning; \<open>Pass_Rewrite\<close> gives it for passes that substitute operands
    and delete instructions.
  \<^item> \<open>Analysis_UseDef\<close>, \<open>Transform_Dce\<close>: use-def chains and dead-code elimination (\<open>use_def.rs\<close>,
    \<open>dce.rs\<close>).
  \<^item> \<open>Transform_Rpo\<close>, \<open>Const_Fold_Total\<close>, \<open>Transform_Const_Prop\<close>, \<open>Transform_Fold_Int\<close>: the order in
    which the constant passes visit blocks, that folding returns, the two passes (\<open>const_prop.rs\<close>,
    \<open>constant_fold_pass.rs\<close>), and their meaning over the integers and over \<open>double\<close> constants. The passes
    leave no use of a deleted instruction when the walk visits instructions before their users; a phi of a
    loop header is the case where it does not, and an example is worked out. The locale \<open>const_folder\<close> is what
    the walk needs of a folding function.
  \<^item> \<open>Transform_Pass\<close>: the pass manager (\<open>pass.rs\<close>); the locales \<open>function_pass\<close> and
    \<open>module_passes\<close> state what a pass owes to it.
  \<^item> \<open>Codegen_MIR\<close>: the machine IR (\<open>isel.rs\<close>): class bit, instructions, counters, spill slots.
  \<^item> \<open>Codegen_Linear_Scan\<close>, \<open>Codegen_Graph_Color\<close>, \<open>Codegen_Allocate\<close>: the two allocators
    (\<open>regalloc.rs\<close>, \<open>regalloc_gc.rs\<close>). The locale \<open>allocator\<close> states what \<open>allocate_registers\<close>
    relies on and is interpreted on both.
  \<^item> \<open>Codegen_Live\<close>: live intervals, the search for back edges and the extension across them, with
    the composition of liveness and allocation, and three functions where the intervals miss
    liveness.
  \<^item> \<open>Codegen_Spill\<close>, \<open>Codegen_Spill_Correct\<close>: spill code, the second allocation pass and the final
    rewrite; the simulation of every rewritten block, for any meaning of the target's opcodes in which no
    instruction that sets a spilled register reads its old value. The two-address opcodes of x86 do, and
    the rewrite is shown to be wrong for them.

  \<^item> \<open>Codegen_Schedule\<close>, \<open>Codegen_Schedule_Correct\<close>: the list scheduler (\<open>schedule.rs\<close>): critical paths
    are longest paths, and schedules are permutations that respect the dependencies. What instructions
    touch is specified apart from the scheduler's keys and sets: a reordered block does what it did on every
    machine in which conflicts outside the registers are between the listed memory opcodes or with a later
    control instruction. Loads after calls and readers of the flags are outside, and are shown to move.
  \<^item> \<open>LRIR_Codec\<close>, \<open>LRIR_Format\<close>, \<open>LRIR_Module\<close>: the bitcode format of the project
    (\<open>llvm-bitcode/src/{error,writer,reader}.rs\<close>): byte layer, records, files. The locale \<open>codec\<close>
    says that a decoder undoes an encoder; it is interpreted on each record. \<open>LRIR_Correct\<close> holds the
    round trip of files, the reader on arbitrary and on cut input, and what the format loses.
  \<^item> \<open>LLVM_Bitstream\<close>, \<open>LLVM_Bitstream_Correct\<close>: the bitstream layer of the LLVM bitcode reader
    (\<open>bitstream.rs\<close>, and \<open>skip_block_contents\<close> of \<open>llvm_reader.rs\<close>) against an encoder of the documented
    format: fields, integers, abbreviations, records and nested blocks are read back as written. In the
    format an abbreviation holds to the end of its block; the reader forgets it at the end of a nested
    block, so skipping is correct for blocks that do without (\<open>needs_no_memory\<close>), and rejects others.
  \<^item> \<open>Codegen_Leb128\<close>, \<open>Codegen_Lsda\<close>: the LEB128 encoders and the exception tables (\<open>lsda.rs\<close>),
    against decoders of the documented formats.
  \<^item> \<open>Wasm_Encode\<close>: WebAssembly modules (\<open>llvm-target-wasm/src/{types,encode}.rs\<close>), against a
    decoder of the WebAssembly binary format.

  \<^item> \<open>RiscV_Instr\<close>, \<open>RiscV_Encode\<close>: opcodes, registers and the encoder of the RISC-V target
    (\<open>llvm-target-riscv/src/{instructions,regs,encode}.rs\<close>). \<open>RiscV_Decode\<close> is its specification, the
    instruction words of the RISC-V manual and the instruction each opcode is documented to stand for;
    \<open>RiscV_Fields\<close> and \<open>RiscV_Correct\<close> prove the encoder against it, branches included, whose distances
    are counted in instructions up to the start of the target block.

  \<^bold>\<open>Not modelled.\<close> Text and object-file output, the sanitizers (their meaning is the runtime they
  call), drivers, and the parts the manifest lists as planned.
\<close>

end
